(* ===== verification/Go_Base.thy ===== *)
theory Go_Base
  imports "HOL-Library.List_Lexorder" "HOL-Library.Char_ord" "HOL-Library.Sublist" "HOL-Library.Word"
begin

text \<open>
  Prelude of the development: what the Go sources use of the language and of
  its standard library, in the form every component theory shares.

  A Go string (or byte slice) is a HOL string, one char per byte, ordered by
  the bytes (List_Lexorder over Char_ord), which is how Go and bbolt compare.
  An int is a HOL int; where the source computes on int64 values that can
  overflow, int64 wraps the exact result the way the machine does. An error is
  a value of gerr, and a fallible function returns a sum whose left side is the
  error.
\<close>

named_theorems str_simps "facts on strings and byte order"
named_theorems bolt_simps "laws of the embedded database"
named_theorems key_simps "facts on composed metadata keys"

subsection \<open>Errors\<close>

text \<open>The sentinel errors which the code tests with errors.Is or errors.As have a
  constructor each; every other error keeps only its text.\<close>

datatype gerr =
    S3Error string string
  | ErrObjectMetaNotFound
  | ErrNoSuchBucketRecord
  | ErrMultipartMetaNotFound
  | ErrUnmarshal
  | ErrText string

type_synonym 'a result = "gerr + 'a"

fun is_ok :: "'e + 'a \<Rightarrow> bool" where
  "is_ok (Inl _) = False"
| "is_ok (Inr _) = True"

lemma is_ok_iff: "is_ok r \<longleftrightarrow> (\<exists>x. r = Inr x)"
  by (cases r) auto

text \<open>The code's early return on an error: the rest runs on success only.\<close>

definition bindE :: "'e + 'a \<Rightarrow> ('a \<Rightarrow> 'e + 'b) \<Rightarrow> 'e + 'b" where
  "bindE r f = (case r of Inl e \<Rightarrow> Inl e | Inr x \<Rightarrow> f x)"

lemma bindE_simps [simp]: "bindE (Inl e) f = Inl e" "bindE (Inr x) f = f x"
  by (simp_all add: bindE_def)

lemma bindE_Inr_iff: "bindE r f = Inr y \<longleftrightarrow> (\<exists>x. r = Inr x \<and> f x = Inr y)"
  by (cases r) auto

lemma if_Inl_iff: "((if c then Inl e else r) = Inr y) \<longleftrightarrow> \<not> c \<and> r = Inr y"
  by simp

lemma bindE_cong [fundef_cong]:
  "r = r' \<Longrightarrow> (\<And>x. r' = Inr x \<Longrightarrow> f x = g x) \<Longrightarrow> bindE r f = bindE r' g"
  by (cases r') auto

subsection \<open>Bytes and strings\<close>

abbreviation nul :: char where "nul \<equiv> CHR 0x00"

definition byte :: "char \<Rightarrow> nat" where
  "byte c = of_char c"

lemma byte_less [simp]: "byte c < 256"
  by (simp add: byte_def)

lemma byte_inject: "byte c = byte d \<longleftrightarrow> c = d"
  by (simp add: byte_def)

abbreviation HasPrefix :: "string \<Rightarrow> string \<Rightarrow> bool" where
  "HasPrefix s p \<equiv> prefix p s"

abbreviation HasSuffix :: "string \<Rightarrow> string \<Rightarrow> bool" where
  "HasSuffix s p \<equiv> suffix p s"

abbreviation Contains :: "string \<Rightarrow> string \<Rightarrow> bool" where
  "Contains s p \<equiv> sublist p s"

definition HasByte :: "string \<Rightarrow> char \<Rightarrow> bool" where
  "HasByte s c \<longleftrightarrow> c \<in> set s"

definition ContainsAny :: "string \<Rightarrow> string \<Rightarrow> bool" where
  "ContainsAny s cs \<longleftrightarrow> (\<exists>c\<in>set s. c \<in> set cs)"

definition ReplaceByte :: "char \<Rightarrow> char \<Rightarrow> string \<Rightarrow> string" where
  "ReplaceByte c d s = map (\<lambda>x. if x = c then d else x) s"

definition TrimLeft :: "string \<Rightarrow> string \<Rightarrow> string" where
  "TrimLeft s cs = dropWhile (\<lambda>c. c \<in> set cs) s"

text \<open>strings.Index: the offset of the first occurrence, None for -1.\<close>

fun Index :: "string \<Rightarrow> string \<Rightarrow> nat option" where
  "Index [] p = (if p = [] then Some 0 else None)"
| "Index (c # s) p = (if prefix p (c # s) then Some 0 else map_option Suc (Index s p))"

lemma Index_Some_prefix:
  "Index s p = Some i \<Longrightarrow> i + length p \<le> length s \<and> prefix p (drop i s)"
proof (induction s arbitrary: i)
  case Nil
  then show ?case by (auto split: if_splits)
next
  case (Cons c s)
  then show ?case by (auto split: if_splits dest: prefix_length_le)
qed

lemma Index_None_iff: "Index s p = None \<longleftrightarrow> \<not> Contains s p"
proof (induction s)
  case Nil
  then show ?case by auto
next
  case (Cons c s)
  then show ?case by (auto simp: sublist_Cons_right)
qed

text \<open>strings.Split with a one-byte separator.\<close>

fun SplitByte :: "char \<Rightarrow> string \<Rightarrow> string list" where
  "SplitByte c [] = [[]]"
| "SplitByte c (x # s) = (if x = c then [] # SplitByte c s
     else (case SplitByte c s of [] \<Rightarrow> [[x]] | w # ws \<Rightarrow> (x # w) # ws))"

fun JoinByte :: "char \<Rightarrow> string list \<Rightarrow> string" where
  "JoinByte c [] = []"
| "JoinByte c [w] = w"
| "JoinByte c (w # v # ws) = w @ c # JoinByte c (v # ws)"

lemma SplitByte_nonempty [simp]: "SplitByte c s \<noteq> []"
  by (induction s) (auto split: list.splits)

lemma JoinByte_SplitByte: "JoinByte c (SplitByte c s) = s"
proof (induction s)
  case Nil
  then show ?case by simp
next
  case (Cons x s)
  obtain w ws where "SplitByte c s = w # ws" by (cases "SplitByte c s") auto
  with Cons show ?case by (cases ws) auto
qed

text \<open>bytes.Cut at the first occurrence of a byte.\<close>

definition CutByte :: "char \<Rightarrow> string \<Rightarrow> string \<times> string \<times> bool" where
  "CutByte c s = (takeWhile (\<lambda>x. x \<noteq> c) s, drop 1 (dropWhile (\<lambda>x. x \<noteq> c) s), c \<in> set s)"

lemma CutByte_append: "c \<notin> set a \<Longrightarrow> CutByte c (a @ c # b) = (a, b, True)"
  by (simp add: CutByte_def takeWhile_append dropWhile_append)

text \<open>strings.ToLower and strings.TrimSpace, on their ASCII cases: bytes from 128 on
  are kept as they are.\<close>

definition lower_char :: "char \<Rightarrow> char" where
  "lower_char c = (if 65 \<le> byte c \<and> byte c \<le> 90 then char_of (byte c + 32) else c)"

definition ToLower :: "string \<Rightarrow> string" where
  "ToLower s = map lower_char s"

definition is_space :: "char \<Rightarrow> bool" where
  "is_space c \<longleftrightarrow> byte c = 32 \<or> (9 \<le> byte c \<and> byte c \<le> 13)"

definition TrimSpace :: "string \<Rightarrow> string" where
  "TrimSpace s = rev (dropWhile is_space (rev (dropWhile is_space s)))"

definition TrimPrefix :: "string \<Rightarrow> string \<Rightarrow> string" where
  "TrimPrefix s p = (if prefix p s then drop (length p) s else s)"

definition TrimSuffix :: "string \<Rightarrow> string \<Rightarrow> string" where
  "TrimSuffix s p = (if suffix p s then take (length s - length p) s else s)"

subsection \<open>UTF-8\<close>

text \<open>The width of the encoded rune at the head of a string by Go's
  utf8.DecodeRune, 0 when the bytes there are not a valid encoding.\<close>

definition is_cont :: "nat \<Rightarrow> nat \<Rightarrow> char \<Rightarrow> bool" where
  "is_cont lo hi c \<longleftrightarrow> lo \<le> byte c \<and> byte c \<le> hi"

fun rune_width :: "string \<Rightarrow> nat" where
  "rune_width [] = 0"
| "rune_width (a # s) =
    (let x = byte a; lo = (if x = 224 then 160 else if x = 240 then 144 else 128);
         hi = (if x = 237 then 159 else if x = 244 then 143 else 191) in
     if x < 128 then 1
     else if 194 \<le> x \<and> x \<le> 223 then (case s of b # _ \<Rightarrow> if is_cont lo hi b then 2 else 0 | _ \<Rightarrow> 0)
     else if 224 \<le> x \<and> x \<le> 239 then
       (case s of b # c # _ \<Rightarrow> if is_cont lo hi b \<and> is_cont 128 191 c then 3 else 0 | _ \<Rightarrow> 0)
     else if 240 \<le> x \<and> x \<le> 244 then
       (case s of b # c # d # _ \<Rightarrow>
          if is_cont lo hi b \<and> is_cont 128 191 c \<and> is_cont 128 191 d then 4 else 0 | _ \<Rightarrow> 0)
     else 0)"

text \<open>encoding/json writes the replacement character U+FFFD for every byte that
  is not part of a valid encoding.\<close>

fun json_str :: "string \<Rightarrow> string" where
  "json_str [] = []"
| "json_str (a # s) = (case rune_width (a # s) of
     0 \<Rightarrow> CHR 0xEF # CHR 0xBF # CHR 0xBD # json_str s
   | Suc n \<Rightarrow> a # take n s @ json_str (drop n s))"

fun utf8_valid :: "string \<Rightarrow> bool" where
  "utf8_valid [] = True"
| "utf8_valid (a # s) = (case rune_width (a # s) of
     0 \<Rightarrow> False | Suc n \<Rightarrow> utf8_valid (drop n s))"

lemma rune_width_no_FF:
  "rune_width (a # s) = Suc n \<Longrightarrow> CHR 0xFF \<notin> set (a # take n s)"
proof -
  assume w: "rune_width (a # s) = Suc n"
  have ff: "byte (CHR 0xFF) = 255" by (simp add: byte_def)
  from w have "\<forall>c \<in> set (a # take n s). byte c < 255"
    by (auto simp: is_cont_def Let_def split: if_splits list.splits)
  with ff show ?thesis by force
qed

lemma json_str_valid: "utf8_valid s \<Longrightarrow> json_str s = s"
  by (induction s rule: json_str.induct) (auto split: nat.splits)

lemma utf8_valid_no_FF: "utf8_valid s \<Longrightarrow> CHR 0xFF \<notin> set s"
proof (induction s rule: utf8_valid.induct)
  case 1
  then show ?case by simp
next
  case (2 a s)
  then obtain n where n: "rune_width (a # s) = Suc n" and v: "utf8_valid (drop n s)"
    by (auto split: nat.splits)
  have "CHR 0xFF \<notin> set (drop n s)" using 2 n v by blast
  moreover have "CHR 0xFF \<notin> set (a # take n s)" using rune_width_no_FF [OF n] .
  moreover have "set s = set (take n s) \<union> set (drop n s)"
    by (metis append_take_drop_id set_append)
  ultimately show ?case by auto
qed

lemma utf8_ascii: "\<forall>c \<in> set s. byte c < 128 \<Longrightarrow> utf8_valid s"
  by (induction s) auto

subsection \<open>Byte order\<close>

lemma prefix_imp_le: "prefix p s \<Longrightarrow> p \<le> (s :: string)"
proof (induction p arbitrary: s)
  case Nil
  then show ?case by simp
next
  case (Cons a p)
  then obtain t where "s = a # t" "prefix p t" by (cases s) auto
  with Cons.IH show ?case by simp
qed

lemma append_less_iff [str_simps]: "(p @ a < p @ (b :: string)) \<longleftrightarrow> a < b"
  by (induction p) auto

lemma append_le_iff [str_simps]: "(p @ a \<le> p @ (b :: string)) \<longleftrightarrow> a \<le> b"
  by (induction p) auto

lemma less_append: "b \<noteq> [] \<Longrightarrow> a < a @ (b :: string)"
  by (induction a) (auto simp: neq_Nil_conv)

text \<open>The strings with a given prefix are contiguous in byte order.\<close>

lemma prefix_convex:
  "prefix p a \<Longrightarrow> prefix p c \<Longrightarrow> a \<le> b \<Longrightarrow> b \<le> (c :: string) \<Longrightarrow> prefix p b"
proof (induction p arbitrary: a b c)
  case Nil
  then show ?case by simp
next
  case (Cons x p)
  from Cons.prems obtain a' c' where a: "a = x # a'" "prefix p a'" and c: "c = x # c'" "prefix p c'"
    by (auto simp: prefix_def)
  from Cons.prems a c obtain y b' where b: "b = y # b'"
    by (cases b) auto
  from Cons.prems a c b have "y = x" "a' \<le> b'" "b' \<le> c'"
    by (auto)
  with Cons.IH [OF a(2) c(2)] b show ?case by simp
qed

lemma less_not_prefix_less:
  "p \<le> s \<Longrightarrow> \<not> prefix p s \<Longrightarrow> p @ t < (s :: string)"
proof (induction p arbitrary: s)
  case Nil
  then show ?case by simp
next
  case (Cons x p)
  then show ?case by (cases s) auto
qed

subsection \<open>Fixed-width integers\<close>

text \<open>The value of an exact result in a Go int64 (and a 64-bit int).\<close>

definition int64 :: "int \<Rightarrow> int" where
  "int64 i = sint (word_of_int i :: 64 word)"

lemma int64_id: "- (2 ^ 63) \<le> i \<Longrightarrow> i < 2 ^ 63 \<Longrightarrow> int64 i = i"
  by (simp add: int64_def sint_sbintrunc' signed_take_bit_int_eq_self)

lemma int64_bounds: "- (2 ^ 63) \<le> int64 i \<and> int64 i < 2 ^ 63"
proof -
  have "- (2 ^ (LENGTH(64) - 1)) \<le> sint (word_of_int i :: 64 word)" by (rule sint_ge)
  moreover have "sint (word_of_int i :: 64 word) < 2 ^ (LENGTH(64) - 1)" by (rule sint_lt)
  ultimately show ?thesis by (simp add: int64_def)
qed

text \<open>binary.BigEndian.PutUint64 and Uint64. The decoder reads the first eight
  bytes, as the library does; a shorter slice panics there and is never passed.\<close>

fun be_bytes :: "nat \<Rightarrow> int \<Rightarrow> string" where
  "be_bytes 0 n = []"
| "be_bytes (Suc w) n = be_bytes w (n div 256) @ [char_of n]"

definition be_int :: "string \<Rightarrow> int" where
  "be_int s = foldl (\<lambda>a c. a * 256 + of_char c) 0 s"

definition PutUint64 :: "int \<Rightarrow> string" where
  "PutUint64 n = be_bytes 8 n"

definition Uint64 :: "string \<Rightarrow> int" where
  "Uint64 s = be_int (take 8 s)"

lemma length_be_bytes [simp]: "length (be_bytes w n) = w"
  by (induction w arbitrary: n) auto

lemma be_int_be_bytes: "be_int (be_bytes w n) = n mod 256 ^ w"
proof (induction w arbitrary: n)
  case 0
  then show ?case by (simp add: be_int_def)
next
  case (Suc w)
  have "n mod 256 ^ Suc w = (n div 256) mod 256 ^ w * 256 + n mod 256"
    by (simp add: zmod_zmult2_eq)
  moreover have "be_int (be_bytes (Suc w) n) = be_int (be_bytes w (n div 256)) * 256 + n mod 256"
    by (simp add: be_int_def)
  ultimately show ?case using Suc by simp
qed

lemma Uint64_PutUint64: "0 \<le> n \<Longrightarrow> n < 2 ^ 64 \<Longrightarrow> Uint64 (PutUint64 n) = n"
  by (simp add: Uint64_def PutUint64_def be_int_be_bytes)

lemma PutUint64_inject:
  "0 \<le> m \<Longrightarrow> m < 2 ^ 64 \<Longrightarrow> 0 \<le> n \<Longrightarrow> n < 2 ^ 64 \<Longrightarrow> PutUint64 m = PutUint64 n \<longleftrightarrow> m = n"
  by (metis Uint64_PutUint64)

subsection \<open>Lists in cursor order\<close>

lemma sorted_wrt_less_distinct: "sorted_wrt (<) (xs :: 'a::linorder list) \<Longrightarrow> distinct xs"
  by (induction xs) auto

lemma map_of_filter_distinct:
  "distinct (map fst xs) \<Longrightarrow>
   map_of (filter (\<lambda>(k, v). P k) xs) = (\<lambda>k. if P k then map_of xs k else None)"
  by (induction xs) (auto simp: fun_eq_iff split: option.splits)

end
