(* ===== verification/Go_Net.thy ===== *)
theory Go_Net
  imports Go_Base
begin

text \<open>
  net.ParseIP of the Go library (net/netip's ParseAddr, with zones refused), as
  far as the sources use it: whether a string is an IP address, and the four
  bytes of a dotted address. bucket-name validation and the client address of a
  request rest on it.
\<close>

definition is_digit :: "char \<Rightarrow> bool" where
  "is_digit c \<longleftrightarrow> CHR ''0'' \<le> c \<and> c \<le> CHR ''9''"

definition digit_val :: "char \<Rightarrow> nat" where
  "digit_val c = byte c - 48"

definition hex_val :: "char \<Rightarrow> nat option" where
  "hex_val c = (if is_digit c then Some (byte c - 48)
     else if CHR ''a'' \<le> c \<and> c \<le> CHR ''f'' then Some (byte c - 87)
     else if CHR ''A'' \<le> c \<and> c \<le> CHR ''F'' then Some (byte c - 55)
     else None)"

definition is_hex :: "char \<Rightarrow> bool" where
  "is_hex c \<longleftrightarrow> hex_val c \<noteq> None"

text \<open>netip.parseIPv4Fields: the loop state is the value and the length of the
  current field and the fields read so far.\<close>

fun ipv4_fields :: "string \<Rightarrow> nat \<Rightarrow> nat \<Rightarrow> nat list \<Rightarrow> nat list option" where
  "ipv4_fields [] v n fs = (if n = 0 \<or> length fs < 3 then None else Some (fs @ [v]))"
| "ipv4_fields (c # s) v n fs =
    (if is_digit c then
       (if n = 1 \<and> v = 0 then None
        else if v * 10 + digit_val c > 255 then None
        else ipv4_fields s (v * 10 + digit_val c) (n + 1) fs)
     else if c = CHR ''.'' then
       (if n = 0 \<or> s = [] \<or> length fs = 3 then None
        else ipv4_fields s 0 0 (fs @ [v]))
     else None)"

definition parse_ipv4 :: "string \<Rightarrow> nat list option" where
  "parse_ipv4 s = ipv4_fields s 0 0 []"

lemma ipv4_fields_chars:
  "ipv4_fields s v n fs = Some r \<Longrightarrow> \<forall>c\<in>set s. is_digit c \<or> c = CHR ''.''"
  by (induction s v n fs rule: ipv4_fields.induct) (auto split: if_splits)

lemma ipv4_fields_length:
  "ipv4_fields s v n fs = Some r \<Longrightarrow> length fs \<le> 3 \<Longrightarrow> v \<le> 255 \<Longrightarrow> \<forall>x\<in>set fs. x \<le> 255 \<Longrightarrow>
   length r = 4 \<and> (\<forall>x\<in>set r. x \<le> 255)"
proof (induction s v n fs rule: ipv4_fields.induct)
  case (1 v n fs)
  then show ?case by (auto split: if_splits)
next
  case (2 c s v n fs)
  then show ?case by (cases "is_digit c") (auto split: if_splits)
qed

text \<open>The loop of netip.parseIPv6: i bytes are filled, ell is the position of
  the ellipsis. The result is whether the address parses.\<close>

definition hex_field :: "string \<Rightarrow> string" where
  "hex_field s = takeWhile is_hex s"

function ipv6_loop :: "string \<Rightarrow> nat \<Rightarrow> nat option \<Rightarrow> bool" where
  "ipv6_loop s i ell =
    (if i \<ge> 16 then s = [] \<and> ell = None
     else let f = hex_field s; r = drop (length f) s in
       if f = [] \<or> length f > 4 then False
       else if r \<noteq> [] \<and> hd r = CHR ''.'' then
         (if ell = None \<and> i \<noteq> 12 then False
          else if i + 4 > 16 then False
          else parse_ipv4 s \<noteq> None \<and> (if i + 4 < 16 then ell \<noteq> None else ell = None))
       else if r = [] then (if i + 2 < 16 then ell \<noteq> None else ell = None)
       else if hd r \<noteq> CHR '':'' \<or> tl r = [] then False
       else if hd (tl r) = CHR '':'' then
         (if ell \<noteq> None then False
          else if tl (tl r) = [] then i + 2 < 16
          else ipv6_loop (tl (tl r)) (i + 2) (Some (i + 2)))
       else ipv6_loop (tl r) (i + 2) ell)"
  by pat_completeness auto
termination by (relation "measure (\<lambda>(s, i, ell). 16 - i)") auto

declare ipv6_loop.simps [simp del]

definition parse_ipv6 :: "string \<Rightarrow> bool" where
  "parse_ipv6 s = (if HasPrefix s ''::'' then (if drop 2 s = [] then True else ipv6_loop (drop 2 s) 0 (Some 0))
     else ipv6_loop s 0 None)"

definition ParseIP :: "string \<Rightarrow> bool" where
  "ParseIP s = (case dropWhile (\<lambda>c. c \<noteq> CHR ''.'' \<and> c \<noteq> CHR '':'' \<and> c \<noteq> CHR ''%'') s of
      [] \<Rightarrow> False
    | c # _ \<Rightarrow> if c = CHR ''.'' then parse_ipv4 s \<noteq> None
              else if c = CHR '':'' then CHR ''%'' \<notin> set s \<and> parse_ipv6 s
              else False)"

lemma ParseIP_no_colon:
  "CHR '':'' \<notin> set s \<Longrightarrow> ParseIP s \<Longrightarrow> parse_ipv4 s \<noteq> None"
  by (auto simp: ParseIP_def split: list.splits if_splits dest!: arg_cong [where f = set] set_dropWhileD)

end
