(* ===== verification/Storage_Types.thy ===== *)
theory Storage_Types
  imports Go_Net
begin

text \<open>
  The data of internal/storage/engine.go and the records the metadata store
  keeps: bucket configuration, object and multipart metadata, and the inputs
  and outputs of the engine's listings. A field X of the Go struct ObjectInfo
  is oiX here, and so on with the prefix of each struct; a pointer that may be
  nil is an option, a time is its distance from Go's zero time in nanoseconds
  (so IsZero is the value 0).
\<close>

subsection \<open>Bucket names\<close>

definition name_edge :: "char \<Rightarrow> bool" where
  "name_edge c \<longleftrightarrow> (CHR ''a'' \<le> c \<and> c \<le> CHR ''z'') \<or> is_digit c"

definition name_inner :: "char \<Rightarrow> bool" where
  "name_inner c \<longleftrightarrow> name_edge c \<or> c = CHR ''.'' \<or> c = CHR ''-''"

text \<open>The regular expression requires an edge character at both ends and one to
  sixty-one inner characters between them.\<close>

definition bucketNameRegexp :: "string \<Rightarrow> bool" where
  "bucketNameRegexp s \<longleftrightarrow> 3 \<le> length s \<and> length s \<le> 63 \<and> name_edge (hd s) \<and> name_edge (last s)
     \<and> (\<forall>c\<in>set (butlast (tl s)). name_inner c)"

definition IsValidBucketName :: "string \<Rightarrow> bool" where
  "IsValidBucketName name =
    (if \<not> bucketNameRegexp name then False
     else if Contains name ''..'' then False
     else if ParseIP name then False
     else True)"

lemma IsValidBucketName_chars:
  assumes "IsValidBucketName s" shows "\<forall>c\<in>set s. name_inner c"
proof -
  from assms have r: "bucketNameRegexp s" by (auto simp: IsValidBucketName_def split: if_splits)
  then have l: "3 \<le> length s" by (simp add: bucketNameRegexp_def)
  then obtain a b c t where s: "s = a # b # c # t" by (cases s; cases "tl s"; cases "tl (tl s)") auto
  then have "s = a # butlast (tl s) @ [last s]" by simp
  then have "set s = {a} \<union> set (butlast (tl s)) \<union> {last s}"
    by (metis Un_insert_left list.simps(15) set_append empty_set sup_assoc Un_empty_left)
  with r s show ?thesis by (auto simp: bucketNameRegexp_def name_inner_def)
qed

lemma IsValidBucketName_length: "IsValidBucketName s \<Longrightarrow> 3 \<le> length s \<and> length s \<le> 63"
  by (auto simp: IsValidBucketName_def bucketNameRegexp_def split: if_splits)

lemma IsValidBucketName_no_nul: "IsValidBucketName s \<Longrightarrow> nul \<notin> set s"
  by (auto dest!: IsValidBucketName_chars simp: name_inner_def name_edge_def is_digit_def)

lemma IsValidBucketName_no_slash: "IsValidBucketName s \<Longrightarrow> CHR ''/'' \<notin> set s \<and> CHR 0x5C \<notin> set s"
  by (auto dest!: IsValidBucketName_chars simp: name_inner_def name_edge_def is_digit_def)

subsection \<open>Bucket configuration\<close>

record CORSRule =
  crAllowedHeaders :: "string list"
  crAllowedMethods :: "string list"
  crAllowedOrigins :: "string list"
  crExposeHeaders :: "string list"
  crMaxAgeSeconds :: int

record LifecycleTag =
  ltKey :: string
  ltValue :: string

record LifecycleAndOperator =
  laPrefix :: string
  laTags :: "LifecycleTag list"
  laObjectSizeGreaterThan :: "int option"
  laObjectSizeLessThan :: "int option"

record LifecycleFilter =
  lfPrefix :: string
  lfTag :: "LifecycleTag option"
  lfAnd :: "LifecycleAndOperator option"
  lfObjectSizeGreaterThan :: "int option"
  lfObjectSizeLessThan :: "int option"

text \<open>The three actions of a rule are pointers to structs with one int field,
  so an action is the option of its number of days.\<close>

record LifecycleRule =
  lrID :: string
  lrStatus :: string
  lrPrefix :: string
  lrFilter :: LifecycleFilter
  lrExpiration :: "int option"
  lrNoncurrentVersionExpiration :: "int option"
  lrAbortIncompleteMultipartUpload :: "int option"

type_synonym LifecycleConfiguration = "LifecycleRule list"
type_synonym CORSConfiguration = "CORSRule list"

record LoggingEnabled =
  leTargetBucket :: string
  leTargetPrefix :: string

record BucketInfo =
  biName :: string
  biCreationDate :: int
  biCORS :: "CORSConfiguration option"
  biVersioning :: string
  biIsPublic :: bool
  biLifecycle :: "LifecycleConfiguration option"
  biLogging :: "LoggingEnabled option option"

subsection \<open>Objects and multipart uploads\<close>

record ObjectInfo =
  oiBucket :: string
  oiKey :: string
  oiSize :: int
  oiETag :: string
  oiContentType :: string
  oiLastModified :: int
  oiVersionID :: string
  oiIsLatest :: bool
  oiNoncurrentSince :: int
  oiIsDeleteMarker :: bool
  oiSSECustomerAlgorithm :: string
  oiSSECustomerKeyMD5 :: string
  oiCompressed :: bool
  oiBlobID :: string

record PartInfo =
  piBlobID :: string
  piPartNumber :: int
  piETag :: string
  piSize :: int

record CompletePart =
  cpPartNumber :: int
  cpETag :: string

record MultipartMeta =
  mpUploadID :: string
  mpBucket :: string
  mpKey :: string
  mpContentType :: string
  mpCreated :: int
  mpParts :: "PartInfo list"
  mpSSECustomerAlgorithm :: string
  mpSSECustomerKeyMD5 :: string

record MultipartUploadInfo =
  muUploadID :: string
  muBucket :: string
  muKey :: string
  muCreated :: int

record SSECParams =
  scAlgorithm :: string
  scKey :: string
  scKeyMD5 :: string

record CopySource =
  csBucket :: string
  csKey :: string
  csVersionID :: string
  csSSEC :: "SSECParams option"

record ListObjectsInput =
  inBucket :: string
  inPrefix :: string
  inDelimiter :: string
  inMaxKeys :: int
  inContinuationToken :: string
  inStartAfter :: string

record ListObjectsOutput =
  outObjects :: "ObjectInfo list"
  outCommonPrefixes :: "string list"
  outIsTruncated :: bool
  outNextContinuationToken :: string
  outKeyCount :: int

subsection \<open>Stored values\<close>

text \<open>A value in the metadata database is the JSON text of one of the records,
  or plain bytes (counters, revisions, system values). Only what decoding gives
  back matters to the code, so a value carries the decoded record; decoding a
  value of another shape is an error. Encoding is the identity but for
  strings that are not valid UTF-8, which encoding/json rewrites.\<close>

datatype dbvalue =
    VObj ObjectInfo
  | VMp MultipartMeta
  | VBkt BucketInfo
  | VBytes string

definition json_obj :: "ObjectInfo \<Rightarrow> ObjectInfo" where
  "json_obj i = i\<lparr>oiBucket := json_str (oiBucket i), oiKey := json_str (oiKey i),
     oiETag := json_str (oiETag i), oiContentType := json_str (oiContentType i),
     oiVersionID := json_str (oiVersionID i),
     oiSSECustomerAlgorithm := json_str (oiSSECustomerAlgorithm i),
     oiSSECustomerKeyMD5 := json_str (oiSSECustomerKeyMD5 i), oiBlobID := json_str (oiBlobID i)\<rparr>"

definition json_part :: "PartInfo \<Rightarrow> PartInfo" where
  "json_part p = p\<lparr>piBlobID := json_str (piBlobID p), piETag := json_str (piETag p)\<rparr>"

definition json_mp :: "MultipartMeta \<Rightarrow> MultipartMeta" where
  "json_mp m = m\<lparr>mpUploadID := json_str (mpUploadID m), mpBucket := json_str (mpBucket m),
     mpKey := json_str (mpKey m), mpContentType := json_str (mpContentType m),
     mpParts := map json_part (mpParts m),
     mpSSECustomerAlgorithm := json_str (mpSSECustomerAlgorithm m),
     mpSSECustomerKeyMD5 := json_str (mpSSECustomerKeyMD5 m)\<rparr>"

definition json_cors :: "CORSRule \<Rightarrow> CORSRule" where
  "json_cors r = r\<lparr>crAllowedHeaders := map json_str (crAllowedHeaders r),
     crAllowedMethods := map json_str (crAllowedMethods r),
     crAllowedOrigins := map json_str (crAllowedOrigins r),
     crExposeHeaders := map json_str (crExposeHeaders r)\<rparr>"

definition json_tag :: "LifecycleTag \<Rightarrow> LifecycleTag" where
  "json_tag t = t\<lparr>ltKey := json_str (ltKey t), ltValue := json_str (ltValue t)\<rparr>"

definition json_rule :: "LifecycleRule \<Rightarrow> LifecycleRule" where
  "json_rule r = r\<lparr>lrID := json_str (lrID r), lrStatus := json_str (lrStatus r),
     lrPrefix := json_str (lrPrefix r),
     lrFilter := (lrFilter r)\<lparr>lfPrefix := json_str (lfPrefix (lrFilter r)),
       lfTag := map_option json_tag (lfTag (lrFilter r)),
       lfAnd := map_option (\<lambda>a. a\<lparr>laPrefix := json_str (laPrefix a), laTags := map json_tag (laTags a)\<rparr>)
         (lfAnd (lrFilter r))\<rparr>\<rparr>"

definition json_bkt :: "BucketInfo \<Rightarrow> BucketInfo" where
  "json_bkt b = b\<lparr>biName := json_str (biName b), biCORS := map_option (map json_cors) (biCORS b),
     biVersioning := json_str (biVersioning b),
     biLifecycle := map_option (map json_rule) (biLifecycle b),
     biLogging := map_option (map_option (\<lambda>l. l\<lparr>leTargetBucket := json_str (leTargetBucket l),
       leTargetPrefix := json_str (leTargetPrefix l)\<rparr>)) (biLogging b)\<rparr>"

definition marshal_obj :: "ObjectInfo \<Rightarrow> dbvalue" where
  "marshal_obj i = VObj (json_obj i)"

fun unmarshal_obj :: "dbvalue \<Rightarrow> ObjectInfo result" where
  "unmarshal_obj (VObj i) = Inr i"
| "unmarshal_obj _ = Inl ErrUnmarshal"

definition marshal_mp :: "MultipartMeta \<Rightarrow> dbvalue" where
  "marshal_mp m = VMp (json_mp m)"

fun unmarshal_mp :: "dbvalue \<Rightarrow> MultipartMeta result" where
  "unmarshal_mp (VMp m) = Inr m"
| "unmarshal_mp _ = Inl ErrUnmarshal"

definition marshal_bkt :: "BucketInfo \<Rightarrow> dbvalue" where
  "marshal_bkt b = VBkt (json_bkt b)"

fun unmarshal_bkt :: "dbvalue \<Rightarrow> BucketInfo result" where
  "unmarshal_bkt (VBkt b) = Inr b"
| "unmarshal_bkt _ = Inl ErrUnmarshal"

fun value_bytes :: "dbvalue \<Rightarrow> string" where
  "value_bytes (VBytes s) = s"
| "value_bytes _ = []"

text \<open>The records which encoding leaves unchanged.\<close>

definition obj_utf8 :: "ObjectInfo \<Rightarrow> bool" where
  "obj_utf8 i \<longleftrightarrow> utf8_valid (oiBucket i) \<and> utf8_valid (oiKey i) \<and> utf8_valid (oiETag i)
     \<and> utf8_valid (oiContentType i) \<and> utf8_valid (oiVersionID i) \<and> utf8_valid (oiSSECustomerAlgorithm i)
     \<and> utf8_valid (oiSSECustomerKeyMD5 i) \<and> utf8_valid (oiBlobID i)"

lemma json_obj_utf8: "obj_utf8 i \<Longrightarrow> json_obj i = i"
  by (simp add: json_obj_def obj_utf8_def json_str_valid)

lemma unmarshal_marshal_obj: "obj_utf8 i \<Longrightarrow> unmarshal_obj (marshal_obj i) = Inr i"
  by (simp add: marshal_obj_def json_obj_utf8)

lemma json_obj_simps [simp]:
  "oiIsLatest (json_obj i) = oiIsLatest i" "oiSize (json_obj i) = oiSize i"
  "oiLastModified (json_obj i) = oiLastModified i" "oiIsDeleteMarker (json_obj i) = oiIsDeleteMarker i"
  "oiNoncurrentSince (json_obj i) = oiNoncurrentSince i" "oiCompressed (json_obj i) = oiCompressed i"
  "oiVersionID (json_obj i) = json_str (oiVersionID i)" "oiKey (json_obj i) = json_str (oiKey i)"
  "oiBucket (json_obj i) = json_str (oiBucket i)" "oiBlobID (json_obj i) = json_str (oiBlobID i)"
  by (simp_all add: json_obj_def)

lemma unmarshal_obj_iff: "unmarshal_obj v = Inr i \<longleftrightarrow> v = VObj i"
  by (cases v) auto

end
