(* ===== verification/Bolt.thy ===== *)
theory Bolt
  imports Storage_Types
begin

text \<open>
  The interface of the embedded key/value store (bbolt, a third-party package),
  as far as the sources use it: one bucket is a value of an abstract type 'b
  with the operations of the record bolt. What the code relies on is the locale
  bolt_laws (a bucket is a finite map whose cursor visits the keys in byte
  order, a failed operation gives an error of the package's own, NextSequence counts up), extended by
  bolt_ok (the documented cases in which an operation cannot fail). An
  executable instance on association lists discharges both.
\<close>

record 'b bolt =
  bk_empty :: 'b
  bk_get :: "'b \<Rightarrow> string \<Rightarrow> dbvalue option"
  bk_put :: "'b \<Rightarrow> string \<Rightarrow> dbvalue \<Rightarrow> 'b result"
  bk_delete :: "'b \<Rightarrow> string \<Rightarrow> 'b result"
  bk_entries :: "'b \<Rightarrow> (string \<times> dbvalue) list"
  bk_seq :: "'b \<Rightarrow> int"
  bk_next_seq :: "'b \<Rightarrow> (int \<times> 'b) result"

subsection \<open>Cursors\<close>

text \<open>c.Seek(k) followed by c.Next() until the end: the entries from the first
  key at or after k. The prefix loop of the sources stops at the first key
  without the prefix.\<close>

definition cur_seek :: "'b bolt \<Rightarrow> 'b \<Rightarrow> string \<Rightarrow> (string \<times> dbvalue) list" where
  "cur_seek B b k = dropWhile (\<lambda>e. fst e < k) (bk_entries B b)"

definition cur_prefix :: "'b bolt \<Rightarrow> 'b \<Rightarrow> string \<Rightarrow> (string \<times> dbvalue) list" where
  "cur_prefix B b p = takeWhile (\<lambda>e. HasPrefix (fst e) p) (cur_seek B b p)"

fun delete_keys :: "'b bolt \<Rightarrow> 'b \<Rightarrow> string list \<Rightarrow> 'b result" where
  "delete_keys B b [] = Inr b"
| "delete_keys B b (k # ks) = (case bk_delete B b k of Inl e \<Rightarrow> Inl e | Inr b' \<Rightarrow> delete_keys B b' ks)"

lemma dropWhile_less_filter:
  "sorted_wrt (<) (map fst es) \<Longrightarrow>
   dropWhile (\<lambda>e. fst e < k) es = filter (\<lambda>e. k \<le> (fst e :: string)) es"
proof (induction es)
  case Nil
  then show ?case by simp
next
  case (Cons e es)
  then have "\<forall>x\<in>set es. fst e < fst x" by auto
  then have "\<not> fst e < k \<Longrightarrow> filter (\<lambda>e. k \<le> fst e) es = es"
    by (auto simp: filter_id_conv dest: less_trans)
  with Cons show ?case by auto
qed

lemma takeWhile_prefix_filter:
  "sorted_wrt (<) (map fst es) \<Longrightarrow> \<forall>e\<in>set es. p \<le> (fst e :: string) \<Longrightarrow>
   takeWhile (\<lambda>e. prefix p (fst e)) es = filter (\<lambda>e. prefix p (fst e)) es"
proof (induction es)
  case Nil
  then show ?case by simp
next
  case (Cons e es)
  show ?case
  proof (cases "prefix p (fst e)")
    case True
    with Cons show ?thesis by simp
  next
    case False
    have "\<not> prefix p (fst x)" if x: "x \<in> set es" for x
    proof
      assume "prefix p (fst x)"
      moreover from Cons.prems x have "fst e \<le> fst x" by (simp add: less_imp_le)
      moreover have "p \<le> fst e" using Cons.prems by simp
      ultimately have "prefix p (fst e)" using prefix_convex [of p p "fst x" "fst e"] by simp
      with False show False ..
    qed
    then have "filter (\<lambda>e. prefix p (fst e)) es = []" by (simp add: filter_empty_conv)
    with False show ?thesis by simp
  qed
qed

subsection \<open>What the code relies on\<close>

locale bolt_laws =
  fixes B :: "'b bolt"
  assumes get_empty: "bk_get B (bk_empty B) k = None"
    and get_put: "bk_put B b k v = Inr b' \<Longrightarrow> bk_get B b' = (bk_get B b)(k \<mapsto> v)"
    and get_delete: "bk_delete B b k = Inr b' \<Longrightarrow> bk_get B b' = (bk_get B b)(k := None)"
    and entries_sorted: "sorted_wrt (<) (map fst (bk_entries B b))"
    and entries_get: "map_of (bk_entries B b) = bk_get B b"
    and next_seq: "bk_next_seq B b = Inr (n, b') \<Longrightarrow>
          n = bk_seq B b + 1 \<and> bk_seq B b' = n \<and> 0 < n \<and> n < 2 ^ 64 \<and> bk_get B b' = bk_get B b"
    and seq_put: "bk_put B b k v = Inr b' \<Longrightarrow> bk_seq B b' = bk_seq B b"
    and seq_delete: "bk_delete B b k = Inr b' \<Longrightarrow> bk_seq B b' = bk_seq B b"
    and put_err: "bk_put B b k v = Inl x \<Longrightarrow> \<exists>t. x = ErrText t"
begin

lemma entries_distinct: "distinct (map fst (bk_entries B b))"
  using entries_sorted sorted_wrt_less_distinct by blast

lemma entries_iff: "(k, v) \<in> set (bk_entries B b) \<longleftrightarrow> bk_get B b k = Some v"
  using entries_distinct entries_get by (metis map_of_eq_Some_iff)

lemma finite_dom: "finite (dom (bk_get B b))"
  by (metis entries_get finite_dom_map_of)

lemma entries_keys: "set (map fst (bk_entries B b)) = dom (bk_get B b)"
  by (metis dom_map_of_conv_image_fst entries_get set_map)

lemma entries_Nil_iff: "bk_entries B b = [] \<longleftrightarrow> bk_get B b = Map.empty"
  by (metis entries_get map_of_eq_empty_iff)

lemma seek_filter: "cur_seek B b k = filter (\<lambda>e. k \<le> fst e) (bk_entries B b)"
  unfolding cur_seek_def using entries_sorted by (rule dropWhile_less_filter)

lemma sorted_filter: "sorted_wrt (<) (map fst (filter P (bk_entries B b)))"
proof -
  have "sorted_wrt (\<lambda>x y. fst x < fst y) (bk_entries B b)"
    using entries_sorted by (simp add: sorted_wrt_map)
  then show ?thesis by (simp add: sorted_wrt_map sorted_wrt_filter)
qed

lemma prefix_filter: "cur_prefix B b p = filter (\<lambda>e. prefix p (fst e)) (bk_entries B b)"
proof -
  have "cur_prefix B b p = filter (\<lambda>e. prefix p (fst e)) (filter (\<lambda>e. p \<le> fst e) (bk_entries B b))"
    unfolding cur_prefix_def seek_filter
    by (rule takeWhile_prefix_filter [OF sorted_filter]) simp
  also have "\<dots> = filter (\<lambda>e. prefix p (fst e)) (bk_entries B b)"
    by (auto intro: filter_cong dest: prefix_imp_le)
  finally show ?thesis .
qed

lemma prefix_iff: "(k, v) \<in> set (cur_prefix B b p) \<longleftrightarrow> prefix p k \<and> bk_get B b k = Some v"
  by (auto simp: prefix_filter entries_iff)

lemma prefix_sorted: "sorted_wrt (<) (map fst (cur_prefix B b p))"
  unfolding prefix_filter by (rule sorted_filter)

lemma prefix_distinct: "distinct (map fst (cur_prefix B b p))"
  using prefix_sorted sorted_wrt_less_distinct by blast

lemma prefix_keys: "set (map fst (cur_prefix B b p)) = {k \<in> dom (bk_get B b). prefix p k}"
  using prefix_iff [where b = b and p = p] by force

lemma delete_keys_get:
  "delete_keys B b ks = Inr b' \<Longrightarrow>
   bk_get B b' = (\<lambda>k. if k \<in> set ks then None else bk_get B b k) \<and> bk_seq B b' = bk_seq B b"
  by (induction ks arbitrary: b) (auto simp: fun_eq_iff get_delete seq_delete split: sum.splits)

end

locale bolt_ok = bolt_laws +
  assumes put_ok: "k \<noteq> [] \<Longrightarrow> int (length k) \<le> 32768 \<Longrightarrow> is_ok (bk_put B b k v)"
    and delete_ok: "is_ok (bk_delete B b k)"
    and next_seq_ok: "0 \<le> bk_seq B b \<Longrightarrow> bk_seq B b < 2 ^ 64 - 1 \<Longrightarrow> is_ok (bk_next_seq B b)"
begin

lemma put_total: "k \<noteq> [] \<Longrightarrow> length k \<le> 32768 \<Longrightarrow> \<exists>b'. bk_put B b k v = Inr b'"
  using put_ok [of k b v] by (simp add: is_ok_iff)

lemma delete_total: "\<exists>b'. bk_delete B b k = Inr b'"
  using delete_ok [of b k] by (simp add: is_ok_iff)

lemma delete_keys_total: "\<exists>b'. delete_keys B b ks = Inr b'"
proof (induction ks arbitrary: b)
  case Nil
  then show ?case by simp
next
  case (Cons k ks)
  obtain b' where "bk_delete B b k = Inr b'" using delete_total by blast
  with Cons show ?case by simp
qed

end

subsection \<open>An executable instance\<close>

text \<open>A bucket is its sequence number and an association list, newest binding
  first; the cursor visits the distinct keys sorted.\<close>

type_synonym alist_bucket = "int \<times> (string \<times> dbvalue) list"

definition al_entries :: "(string \<times> dbvalue) list \<Rightarrow> (string \<times> dbvalue) list" where
  "al_entries xs = map (\<lambda>k. (k, the (map_of xs k))) (sort (remdups (map fst xs)))"

definition alist_bolt :: "alist_bucket bolt" where
  "alist_bolt = \<lparr>
     bk_empty = (0, []),
     bk_get = (\<lambda>b k. map_of (snd b) k),
     bk_put = (\<lambda>b k v. if k = [] then Inl (ErrText ''key required'')
        else if 32768 < int (length k) then Inl (ErrText ''key too large'')
        else Inr (fst b, (k, v) # filter (\<lambda>e. fst e \<noteq> k) (snd b))),
     bk_delete = (\<lambda>b k. Inr (fst b, filter (\<lambda>e. fst e \<noteq> k) (snd b))),
     bk_entries = (\<lambda>b. al_entries (snd b)),
     bk_seq = fst,
     bk_next_seq = (\<lambda>b. if 0 \<le> fst b \<and> fst b + 1 < 2 ^ 64 then Inr (fst b + 1, (fst b + 1, snd b))
        else Inl (ErrText ''sequence exhausted''))\<rparr>"

lemma map_of_filter_neq: "map_of (filter (\<lambda>e. fst e \<noteq> k) xs) = (map_of xs)(k := None)"
  by (induction xs) (auto simp: fun_eq_iff)

lemma map_of_map_the:
  "map_of (map (\<lambda>k. (k, the (m k))) ks) k = (if k \<in> set ks then Some (the (m k)) else None)"
  by (induction ks) auto

lemma al_entries_map_of: "map_of (al_entries xs) = map_of xs"
proof
  fix k
  have "k \<in> fst ` set xs \<Longrightarrow> Some (the (map_of xs k)) = map_of xs k"
    by (metis domD dom_map_of_conv_image_fst option.sel)
  moreover have "k \<notin> fst ` set xs \<Longrightarrow> map_of xs k = None"
    by (simp add: map_of_eq_None_iff)
  ultimately show "map_of (al_entries xs) k = map_of xs k"
    by (auto simp: al_entries_def map_of_map_the)
qed

lemma al_entries_sorted: "sorted_wrt (<) (map fst (al_entries xs))"
  by (simp add: al_entries_def comp_def strict_sorted_iff)

interpretation al: bolt_laws alist_bolt
  by unfold_locales
     (auto simp: alist_bolt_def al_entries_sorted al_entries_map_of map_of_filter_neq fun_eq_iff
        split: if_splits)

interpretation alk: bolt_ok alist_bolt
  by unfold_locales (auto simp: alist_bolt_def)

lemma alist_laws: "bolt_laws alist_bolt"
  by (rule al.bolt_laws_axioms)

lemma alist_ok: "bolt_ok alist_bolt"
  by (rule alk.bolt_ok_axioms)

end
