(* ===== verification/Object_Meta.thy ===== *)
theory Object_Meta
  imports Bolt
begin

text \<open>
  The per-bucket metadata database: internal/storage/object_metadata.go and the
  transactions of metadata.go and outbox.go on objects, the stored object count
  and the replication journal. Every definition here is the body of one bbolt
  transaction: it maps the database to an error (rolled back) or to the
  database it commits. Object_Spec abstracts the database to the current record and the
  history of each key, and Object_Refine shows that every transaction implements its
  specification there.
\<close>

subsection \<open>The database of one bucket\<close>

record 'b bdb =
  dbObjects :: 'b
  dbMultipart :: 'b
  dbStats :: "'b option"
  dbReplication :: "'b option"

definition objectCountKey :: string where "objectCountKey = ''objects''"

definition objectMetaKey :: "string \<Rightarrow> string \<Rightarrow> string" where
  "objectMetaKey bucket key = bucket @ [nul] @ key"

definition objectMetaKeyVersion :: "string \<Rightarrow> string \<Rightarrow> string \<Rightarrow> string" where
  "objectMetaKeyVersion bucket key versionID = bucket @ [nul] @ key @ [nul] @ versionID"

subsection \<open>The stored object count\<close>

definition CreateBucketIfNotExists :: "'b bolt \<Rightarrow> 'b option \<Rightarrow> 'b" where
  "CreateBucketIfNotExists B o' = (case o' of None \<Rightarrow> bk_empty B | Some b \<Rightarrow> b)"

definition setObjectCount :: "'b bolt \<Rightarrow> 'b bdb \<Rightarrow> int \<Rightarrow> 'b bdb result" where
  "setObjectCount B tx n =
    bindE (bk_put B (CreateBucketIfNotExists B (dbStats tx)) objectCountKey (VBytes (PutUint64 n)))
      (\<lambda>sb. Inr (tx\<lparr>dbStats := Some sb\<rparr>))"

definition initObjectCount :: "'b bolt \<Rightarrow> 'b bdb \<Rightarrow> 'b bdb result" where
  "initObjectCount B tx =
    (let sb = CreateBucketIfNotExists B (dbStats tx); tx = tx\<lparr>dbStats := Some sb\<rparr> in
     if bk_get B sb objectCountKey \<noteq> None then Inr tx
     else if bk_entries B (dbObjects tx) \<noteq> [] then Inr tx
     else setObjectCount B tx 0)"

definition adjustObjectCount :: "'b bolt \<Rightarrow> 'b bdb \<Rightarrow> int \<Rightarrow> 'b bdb result" where
  "adjustObjectCount B tx delta =
    (case dbStats tx of
       None \<Rightarrow> Inr tx
     | Some sb \<Rightarrow>
        (case bk_get B sb objectCountKey of
           None \<Rightarrow> Inr tx
         | Some v \<Rightarrow>
            (let n = int64 (int64 (Uint64 (value_bytes v)) + delta) in
             if n < 0 then bindE (bk_delete B sb objectCountKey) (\<lambda>sb. Inr (tx\<lparr>dbStats := Some sb\<rparr>))
             else setObjectCount B tx n)))"

definition scanObjectCount :: "'b bolt \<Rightarrow> 'b bdb \<Rightarrow> string \<Rightarrow> nat" where
  "scanObjectCount B tx bucket =
    (let prefix = bucket @ [nul] in
     length (filter (\<lambda>e. \<not> HasByte (drop (length prefix) (fst e)) nul) (cur_prefix B (dbObjects tx) prefix)))"

text \<open>CountObjectMetas: the stored count, or a scan whose result is stored. The
  count is read as a signed int, so a stored value of 2^63 or more reads as
  absent.\<close>

definition countObjectMetasTx :: "'b bolt \<Rightarrow> 'b bdb \<Rightarrow> string \<Rightarrow> (int \<times> 'b bdb) result" where
  "countObjectMetasTx B tx bucket =
    (let count = (case dbStats tx of None \<Rightarrow> -1
                  | Some sb \<Rightarrow> (case bk_get B sb objectCountKey of None \<Rightarrow> -1
                               | Some v \<Rightarrow> int64 (Uint64 (value_bytes v)))) in
     if count \<ge> 0 then Inr (count, tx)
     else let n = int (scanObjectCount B tx bucket) in
       bindE (setObjectCount B tx n) (\<lambda>tx. Inr (n, tx)))"

subsection \<open>The replication journal\<close>

definition markReplication :: "'b bolt \<Rightarrow> bool \<Rightarrow> 'b bdb \<Rightarrow> string \<Rightarrow> 'b bdb result" where
  "markReplication B replication tx key =
    (if \<not> replication then Inr tx
     else bindE (bk_next_seq B (CreateBucketIfNotExists B (dbReplication tx)))
       (\<lambda>(seq, b). bindE (bk_put B b key (VBytes (PutUint64 seq)))
         (\<lambda>b. Inr (tx\<lparr>dbReplication := Some b\<rparr>))))"

subsection \<open>Writing an object record\<close>

definition deleteVersionRecords :: "'b bolt \<Rightarrow> 'b \<Rightarrow> string \<Rightarrow> string \<Rightarrow> 'b result" where
  "deleteVersionRecords B b bucket key =
    delete_keys B b (map fst (cur_prefix B b (bucket @ [nul] @ key @ [nul])))"

text \<open>The step of PutObjectMeta that turns the replaced current record into a
  noncurrent version.\<close>

definition retireOldLatest :: "'b bolt \<Rightarrow> ObjectInfo \<Rightarrow> dbvalue option \<Rightarrow> 'b \<Rightarrow> 'b result" where
  "retireOldLatest B info oldData b =
    (case oldData of
       None \<Rightarrow> Inr b
     | Some d \<Rightarrow> bindE (unmarshal_obj d) (\<lambda>oldInfo.
         if oiVersionID oldInfo \<noteq> [] \<and> oiVersionID oldInfo \<noteq> oiVersionID info then
           (let oldInfo = oldInfo\<lparr>oiIsLatest := False, oiNoncurrentSince := oiLastModified info\<rparr> in
            bk_put B b (objectMetaKeyVersion (oiBucket oldInfo) (oiKey oldInfo) (oiVersionID oldInfo))
              (marshal_obj oldInfo))
         else Inr b))"

definition putObjectMetaTx :: "'b bolt \<Rightarrow> bool \<Rightarrow> ObjectInfo \<Rightarrow> 'b bdb \<Rightarrow> 'b bdb result" where
  "putObjectMetaTx B replication info tx =
    bindE (markReplication B replication tx (oiKey info)) (\<lambda>tx.
    let info = info\<lparr>oiIsLatest := True\<rparr>;
        oldData = bk_get B (dbObjects tx) (objectMetaKey (oiBucket info) (oiKey info)) in
    bindE (if oldData = None then adjustObjectCount B tx 1 else Inr tx) (\<lambda>tx.
    bindE (retireOldLatest B info oldData (dbObjects tx)) (\<lambda>b.
    let data = marshal_obj info in
    bindE (if oiVersionID info \<noteq> [] then
             bk_put B b (objectMetaKeyVersion (oiBucket info) (oiKey info) (oiVersionID info)) data
           else deleteVersionRecords B b (oiBucket info) (oiKey info)) (\<lambda>b.
    bindE (bk_put B b (objectMetaKey (oiBucket info) (oiKey info)) data) (\<lambda>b.
    Inr (tx\<lparr>dbObjects := b\<rparr>))))))"

definition putObjectMetaRawTx :: "'b bolt \<Rightarrow> ObjectInfo \<Rightarrow> 'b bdb \<Rightarrow> 'b bdb result" where
  "putObjectMetaRawTx B info tx =
    (let data = marshal_obj info in
     bindE (if oiVersionID info \<noteq> [] then
              bk_put B (dbObjects tx)
                (objectMetaKeyVersion (oiBucket info) (oiKey info) (oiVersionID info)) data
            else Inr (dbObjects tx)) (\<lambda>b.
     let tx = tx\<lparr>dbObjects := b\<rparr> in
     if oiIsLatest info then
       bindE (if bk_get B b (objectMetaKey (oiBucket info) (oiKey info)) = None
              then adjustObjectCount B tx 1 else Inr tx) (\<lambda>tx.
       bindE (bk_put B (dbObjects tx) (objectMetaKey (oiBucket info) (oiKey info)) data) (\<lambda>b.
       Inr (tx\<lparr>dbObjects := b\<rparr>)))
     else Inr tx))"

subsection \<open>Reading object records\<close>

definition getObjectMetaTx :: "'b bolt \<Rightarrow> 'b bdb \<Rightarrow> string \<Rightarrow> string \<Rightarrow> string \<Rightarrow> ObjectInfo result" where
  "getObjectMetaTx B tx bucket key versionID =
    (let b = dbObjects tx;
         data = (if versionID \<noteq> [] then bk_get B b (objectMetaKeyVersion bucket key versionID)
                 else bk_get B b (objectMetaKey bucket key)) in
     bindE (if data = None \<and> versionID = ''null'' then
              (case bk_get B b (objectMetaKey bucket key) of
                 None \<Rightarrow> Inr data
               | Some legacy \<Rightarrow> bindE (unmarshal_obj legacy) (\<lambda>candidate.
                   Inr (if oiVersionID candidate = [] then Some legacy else data)))
            else Inr data) (\<lambda>data.
     case data of None \<Rightarrow> Inl ErrObjectMetaNotFound | Some d \<Rightarrow> unmarshal_obj d))"

fun unmarshal_all :: "dbvalue list \<Rightarrow> ObjectInfo list result" where
  "unmarshal_all [] = Inr []"
| "unmarshal_all (v # vs) = bindE (unmarshal_obj v) (\<lambda>i. bindE (unmarshal_all vs) (\<lambda>is. Inr (i # is)))"

text \<open>ListAllObjectMetas and the two iterators; the iterators' callback only
  observes, so what is streamed to it is the list.\<close>

definition listAllObjectMetasTx :: "'b bolt \<Rightarrow> 'b bdb \<Rightarrow> string \<Rightarrow> ObjectInfo list result" where
  "listAllObjectMetasTx B tx bucket =
    (let prefix = bucket @ [nul] in
     unmarshal_all (map snd (filter (\<lambda>e. \<not> HasByte (drop (length prefix) (fst e)) nul)
       (cur_prefix B (dbObjects tx) prefix))))"

definition iterateObjectVersionsTx :: "'b bolt \<Rightarrow> 'b bdb \<Rightarrow> string \<Rightarrow> ObjectInfo list result" where
  "iterateObjectVersionsTx B tx bucket =
    (let prefix = bucket @ [nul] in
     unmarshal_all (map snd (filter (\<lambda>e. HasByte (drop (length prefix) (fst e)) nul)
       (cur_prefix B (dbObjects tx) prefix))))"

fun dedup_versions :: "string list \<Rightarrow> ObjectInfo list \<Rightarrow> ObjectInfo list" where
  "dedup_versions seen [] = []"
| "dedup_versions seen (i # is) = (if oiVersionID i \<in> set seen then dedup_versions seen is
     else i # dedup_versions (oiVersionID i # seen) is)"

definition getObjectVersionsTx :: "'b bolt \<Rightarrow> 'b bdb \<Rightarrow> string \<Rightarrow> string \<Rightarrow> ObjectInfo list result" where
  "getObjectVersionsTx B tx bucket key =
    (let b = dbObjects tx;
         latest = (case bk_get B b (objectMetaKey bucket key) of None \<Rightarrow> [] | Some d \<Rightarrow> [d]) in
     bindE (unmarshal_all (latest @ map snd (cur_prefix B b (objectMetaKeyVersion bucket key []))))
       (\<lambda>is. Inr (dedup_versions [] is)))"

subsection \<open>Deleting object records\<close>

fun newest_loop :: "(string \<times> dbvalue) list \<Rightarrow> string \<Rightarrow> ObjectInfo option \<Rightarrow> ObjectInfo option result" where
  "newest_loop [] deletedVersionID newest = Inr newest"
| "newest_loop (e # es) deletedVersionID newest =
    bindE (unmarshal_obj (snd e)) (\<lambda>info.
      if oiVersionID info \<noteq> deletedVersionID then
        (case newest of
           None \<Rightarrow> newest_loop es deletedVersionID (Some info)
         | Some n \<Rightarrow> if oiLastModified info > oiLastModified n
             then newest_loop es deletedVersionID (Some info)
             else newest_loop es deletedVersionID (Some n))
      else newest_loop es deletedVersionID newest)"

definition findNextNewestVersion :: "'b bolt \<Rightarrow> 'b \<Rightarrow> string \<Rightarrow> string \<Rightarrow> string \<Rightarrow> ObjectInfo option result" where
  "findNextNewestVersion B b bucket key deletedVersionID =
    newest_loop (cur_prefix B b (bucket @ [nul] @ key @ [nul])) deletedVersionID None"

definition deleteVersionTx :: "'b bolt \<Rightarrow> string \<Rightarrow> string \<Rightarrow> string \<Rightarrow> 'b bdb \<Rightarrow> 'b bdb result" where
  "deleteVersionTx B bucket key versionID tx =
    bindE (bk_delete B (dbObjects tx) (objectMetaKeyVersion bucket key versionID)) (\<lambda>b.
    case bk_get B b (objectMetaKey bucket key) of
      None \<Rightarrow> Inr (tx\<lparr>dbObjects := b\<rparr>)
    | Some latestData \<Rightarrow> bindE (unmarshal_obj latestData) (\<lambda>latestInfo.
        if oiVersionID latestInfo = versionID then
          bindE (findNextNewestVersion B b bucket key versionID) (\<lambda>nextLatest.
            case nextLatest of
              Some i \<Rightarrow>
                (let i = i\<lparr>oiIsLatest := True\<rparr>; nextData = marshal_obj i in
                 bindE (bk_put B b (objectMetaKey bucket key) nextData) (\<lambda>b.
                 bindE (if oiVersionID i \<noteq> [] then
                          bk_put B b (objectMetaKeyVersion bucket key (oiVersionID i)) nextData
                        else Inr b) (\<lambda>b.
                 Inr (tx\<lparr>dbObjects := b\<rparr>))))
            | None \<Rightarrow>
                bindE (bk_delete B b (objectMetaKey bucket key)) (\<lambda>b.
                adjustObjectCount B (tx\<lparr>dbObjects := b\<rparr>) (- 1)))
        else Inr (tx\<lparr>dbObjects := b\<rparr>)))"

definition deleteKeyTx :: "'b bolt \<Rightarrow> string \<Rightarrow> string \<Rightarrow> 'b bdb \<Rightarrow> 'b bdb result" where
  "deleteKeyTx B bucket key tx =
    bindE (if bk_get B (dbObjects tx) (objectMetaKey bucket key) \<noteq> None then
             bindE (bk_delete B (dbObjects tx) (objectMetaKey bucket key)) (\<lambda>b.
             adjustObjectCount B (tx\<lparr>dbObjects := b\<rparr>) (- 1))
           else Inr tx) (\<lambda>tx.
    bindE (delete_keys B (dbObjects tx) (map fst (cur_prefix B (dbObjects tx) (bucket @ [nul] @ key @ [nul]))))
      (\<lambda>b. Inr (tx\<lparr>dbObjects := b\<rparr>)))"

definition deleteObjectMetaTx ::
  "'b bolt \<Rightarrow> bool \<Rightarrow> string \<Rightarrow> string \<Rightarrow> string \<Rightarrow> 'b bdb \<Rightarrow> 'b bdb result" where
  "deleteObjectMetaTx B replication bucket key versionID tx =
    bindE (markReplication B replication tx key) (\<lambda>tx.
      if versionID \<noteq> [] then deleteVersionTx B bucket key versionID tx
      else deleteKeyTx B bucket key tx)"

definition deleteAllObjectMetasTx :: "'b bolt \<Rightarrow> string \<Rightarrow> 'b bdb \<Rightarrow> 'b bdb result" where
  "deleteAllObjectMetasTx B bucket tx =
    bindE (delete_keys B (dbObjects tx) (map fst (cur_prefix B (dbObjects tx) (bucket @ [nul]))))
      (\<lambda>b. setObjectCount B (tx\<lparr>dbObjects := b\<rparr>) 0)"

end
