(* ===== verification/Object_Spec.thy ===== *)
theory Object_Spec
  imports Object_Meta
begin

text \<open>
  What the object transactions promise. The objects bucket is abstracted to the
  current record and the history of each key; store_wf is the well-formedness
  every transaction keeps, count_wf says that the stored count is the number
  of current records, and spec_put, spec_raw, spec_delete_version and
  spec_delete_key are the transactions on the abstraction.
\<close>

subsection \<open>Composed keys\<close>

lemma split_at_first:
  "x \<notin> set a \<Longrightarrow> x \<notin> set a' \<Longrightarrow> (a @ x # b = a' @ x # b') \<longleftrightarrow> a = a' \<and> b = b'"
proof (induction a arbitrary: a')
  case Nil
  then show ?case by (cases a') auto
next
  case (Cons c a)
  then show ?case by (cases a') auto
qed

lemma ptr_eq_iff [key_simps]: "objectMetaKey b k = objectMetaKey b k' \<longleftrightarrow> k = k'"
  by (simp add: objectMetaKey_def)

lemma ver_eq_iff [key_simps]:
  "nul \<notin> set k \<Longrightarrow> nul \<notin> set k' \<Longrightarrow>
   objectMetaKeyVersion b k v = objectMetaKeyVersion b k' v' \<longleftrightarrow> k = k' \<and> v = v'"
  by (simp add: objectMetaKeyVersion_def split_at_first)

lemma ptr_ver_neq [key_simps]:
  "nul \<notin> set k \<Longrightarrow> objectMetaKey b k \<noteq> objectMetaKeyVersion b k' v"
  "nul \<notin> set k \<Longrightarrow> objectMetaKeyVersion b k' v \<noteq> objectMetaKey b k"
  by (auto simp: objectMetaKey_def objectMetaKeyVersion_def)

lemma prefix_ver_ver [key_simps]:
  "nul \<notin> set k \<Longrightarrow> nul \<notin> set k' \<Longrightarrow>
   prefix (objectMetaKeyVersion b k []) (objectMetaKeyVersion b k' v) \<longleftrightarrow> k = k'"
  by (auto simp: objectMetaKeyVersion_def prefix_def split_at_first)

lemma prefix_ver_ptr [key_simps]:
  "nul \<notin> set k' \<Longrightarrow> \<not> prefix (objectMetaKeyVersion b k []) (objectMetaKey b k')"
  by (auto simp: objectMetaKeyVersion_def objectMetaKey_def prefix_def)

lemma prefix_key_string: "bucket @ [nul] @ key @ [nul] = objectMetaKeyVersion bucket key []"
  by (simp add: objectMetaKeyVersion_def)

text \<open>A NUL byte in a key makes its record another key's version record: the
  aliasing that validateNewKey exists to prevent.\<close>

lemma nul_key_aliases: "objectMetaKey b (k @ [nul] @ v) = objectMetaKeyVersion b k v"
  by (simp add: objectMetaKey_def objectMetaKeyVersion_def)

subsection \<open>The abstraction\<close>

type_synonym dbmap = "string \<Rightarrow> dbvalue option"
type_synonym history = "string \<Rightarrow> ObjectInfo option"

fun as_obj :: "dbvalue option \<Rightarrow> ObjectInfo option" where
  "as_obj (Some (VObj i)) = Some i"
| "as_obj _ = None"

definition cur_of :: "dbmap \<Rightarrow> string \<Rightarrow> string \<Rightarrow> ObjectInfo option" where
  "cur_of m b key = as_obj (m (objectMetaKey b key))"

definition hist_of :: "dbmap \<Rightarrow> string \<Rightarrow> string \<Rightarrow> history" where
  "hist_of m b key = (\<lambda>v. as_obj (m (objectMetaKeyVersion b key v)))"

definition rec_ok :: "string \<Rightarrow> string \<Rightarrow> ObjectInfo \<Rightarrow> bool" where
  "rec_ok b key i \<longleftrightarrow> oiBucket i = b \<and> oiKey i = key \<and> obj_utf8 i \<and> nul \<notin> set (oiVersionID i)"

definition key_wf :: "string \<Rightarrow> string \<Rightarrow> ObjectInfo option \<Rightarrow> history \<Rightarrow> bool" where
  "key_wf b key c h \<longleftrightarrow>
     (\<forall>i. c = Some i \<longrightarrow> rec_ok b key i \<and> oiIsLatest i \<and>
        (if oiVersionID i = [] then h = Map.empty else h (oiVersionID i) = Some i)) \<and>
     (\<forall>v i. h v = Some i \<longrightarrow> rec_ok b key i \<and> v \<noteq> [] \<and> oiVersionID i = v \<and>
        (\<exists>j. c = Some j \<and> (oiVersionID j \<noteq> v \<longrightarrow> \<not> oiIsLatest i)))"

definition shape_ok :: "string \<Rightarrow> dbmap \<Rightarrow> bool" where
  "shape_ok b m \<longleftrightarrow> (\<forall>k v. m k = Some v \<longrightarrow> (\<exists>i. v = VObj i) \<and>
     (\<exists>key. nul \<notin> set key \<and> (k = objectMetaKey b key \<or> (\<exists>vid. k = objectMetaKeyVersion b key vid))))"

definition store_wf :: "string \<Rightarrow> dbmap \<Rightarrow> bool" where
  "store_wf b m \<longleftrightarrow> shape_ok b m \<and>
     (\<forall>key. nul \<notin> set key \<longrightarrow> key_wf b key (cur_of m b key) (hist_of m b key))"

lemma as_obj_Some: "as_obj x = Some i \<longleftrightarrow> x = Some (VObj i)"
  by (cases x rule: as_obj.cases) auto

lemma cur_of_Some: "cur_of m b key = Some i \<longleftrightarrow> m (objectMetaKey b key) = Some (VObj i)"
  by (simp add: cur_of_def as_obj_Some)

lemma hist_of_Some: "hist_of m b key v = Some i \<longleftrightarrow> m (objectMetaKeyVersion b key v) = Some (VObj i)"
  by (simp add: hist_of_def as_obj_Some)

lemma shape_okD: "shape_ok b m \<Longrightarrow> m k = Some v \<Longrightarrow> \<exists>i. v = VObj i"
  by (auto simp: shape_ok_def)

lemma cur_of_None: "shape_ok b m \<Longrightarrow> cur_of m b key = None \<longleftrightarrow> m (objectMetaKey b key) = None"
  by (metis cur_of_Some not_None_eq shape_okD)

lemma hist_of_None:
  "shape_ok b m \<Longrightarrow> hist_of m b key v = None \<longleftrightarrow> m (objectMetaKeyVersion b key v) = None"
  by (metis hist_of_Some not_None_eq shape_okD)

text \<open>How one write or delete shows in the abstraction.\<close>

lemma abs_put_ptr [key_simps]:
  assumes "nul \<notin> set key" "nul \<notin> set key'"
  shows "cur_of (m(objectMetaKey b key \<mapsto> VObj i)) b key' = (if key' = key then Some i else cur_of m b key')"
    and "hist_of (m(objectMetaKey b key \<mapsto> VObj i)) b key' = hist_of m b key'"
  using assms by (auto simp: cur_of_def hist_of_def key_simps fun_eq_iff)

lemma abs_put_ver [key_simps]:
  assumes "nul \<notin> set key" "nul \<notin> set key'"
  shows "cur_of (m(objectMetaKeyVersion b key v \<mapsto> VObj i)) b key' = cur_of m b key'"
    and "hist_of (m(objectMetaKeyVersion b key v \<mapsto> VObj i)) b key' =
         (if key' = key then (hist_of m b key)(v \<mapsto> i) else hist_of m b key')"
  using assms by (auto simp: cur_of_def hist_of_def key_simps fun_eq_iff)

lemma abs_del_ptr [key_simps]:
  assumes "nul \<notin> set key" "nul \<notin> set key'"
  shows "cur_of (m(objectMetaKey b key := None)) b key' = (if key' = key then None else cur_of m b key')"
    and "hist_of (m(objectMetaKey b key := None)) b key' = hist_of m b key'"
  using assms by (auto simp: cur_of_def hist_of_def key_simps fun_eq_iff)

lemma abs_del_ver [key_simps]:
  assumes "nul \<notin> set key" "nul \<notin> set key'"
  shows "cur_of (m(objectMetaKeyVersion b key v := None)) b key' = cur_of m b key'"
    and "hist_of (m(objectMetaKeyVersion b key v := None)) b key' =
         (if key' = key then (hist_of m b key)(v := None) else hist_of m b key')"
  using assms by (auto simp: cur_of_def hist_of_def key_simps fun_eq_iff)

definition drop_prefix :: "string \<Rightarrow> dbmap \<Rightarrow> dbmap" where
  "drop_prefix p m = (\<lambda>k. if prefix p k then None else m k)"

lemma abs_drop_vers [key_simps]:
  assumes "nul \<notin> set key" "nul \<notin> set key'"
  shows "cur_of (drop_prefix (objectMetaKeyVersion b key []) m) b key' = cur_of m b key'"
    and "hist_of (drop_prefix (objectMetaKeyVersion b key []) m) b key' =
         (if key' = key then Map.empty else hist_of m b key')"
  using assms by (auto simp: cur_of_def hist_of_def key_simps fun_eq_iff drop_prefix_def)

lemma shape_put:
  "shape_ok b m \<Longrightarrow> nul \<notin> set key \<Longrightarrow> shape_ok b (m(objectMetaKey b key \<mapsto> VObj i))"
  "shape_ok b m \<Longrightarrow> nul \<notin> set key \<Longrightarrow> shape_ok b (m(objectMetaKeyVersion b key v \<mapsto> VObj i))"
  by (auto simp: shape_ok_def)

lemma shape_del:
  "shape_ok b m \<Longrightarrow> shape_ok b (m(k := None))"
  "shape_ok b m \<Longrightarrow> shape_ok b (drop_prefix p m)"
  by (auto simp: shape_ok_def drop_prefix_def)

lemma shape_empty: "shape_ok b Map.empty"
  by (simp add: shape_ok_def)

lemma store_wf_empty: "store_wf b Map.empty"
  by (simp add: store_wf_def shape_empty key_wf_def cur_of_def hist_of_def)

subsection \<open>The transactions on the abstraction\<close>

definition retire :: "ObjectInfo \<Rightarrow> ObjectInfo option \<Rightarrow> history \<Rightarrow> history" where
  "retire info c h = (case c of
     None \<Rightarrow> h
   | Some old \<Rightarrow> if oiVersionID old \<noteq> [] \<and> oiVersionID old \<noteq> oiVersionID info
       then h(oiVersionID old \<mapsto> old\<lparr>oiIsLatest := False, oiNoncurrentSince := oiLastModified info\<rparr>)
       else h)"

definition spec_put :: "ObjectInfo \<Rightarrow> ObjectInfo option \<times> history \<Rightarrow> ObjectInfo option \<times> history" where
  "spec_put info s = (let new = info\<lparr>oiIsLatest := True\<rparr> in
     (Some new, if oiVersionID info = [] then Map.empty
                else (retire info (fst s) (snd s))(oiVersionID info \<mapsto> new)))"

definition spec_raw :: "ObjectInfo \<Rightarrow> ObjectInfo option \<times> history \<Rightarrow> ObjectInfo option \<times> history" where
  "spec_raw info s =
     (if oiIsLatest info then Some info else fst s,
      if oiVersionID info = [] then snd s else (snd s)(oiVersionID info \<mapsto> info))"

text \<open>The newest of the versions left, by last-modified time.\<close>

definition is_newest :: "history \<Rightarrow> ObjectInfo \<Rightarrow> bool" where
  "is_newest h i \<longleftrightarrow> (\<exists>v. h v = Some i) \<and> (\<forall>v j. h v = Some j \<longrightarrow> oiLastModified j \<le> oiLastModified i)"

definition spec_delete_version ::
  "string \<Rightarrow> ObjectInfo option \<times> history \<Rightarrow> ObjectInfo option \<times> history \<Rightarrow> bool" where
  "spec_delete_version v s s' =
     (let h = (snd s)(v := None) in
      case fst s of
        None \<Rightarrow> s' = (None, h)
      | Some c \<Rightarrow> if oiVersionID c \<noteq> v then s' = (Some c, h)
          else if h = Map.empty then s' = (None, h)
          else (\<exists>i. is_newest h i \<and>
                 s' = (Some (i\<lparr>oiIsLatest := True\<rparr>), h(oiVersionID i \<mapsto> i\<lparr>oiIsLatest := True\<rparr>))))"

text \<open>Well-formedness of one key, by its three parts.\<close>

lemma key_wfI:
  assumes "\<And>i. c = Some i \<Longrightarrow> rec_ok b key i \<and> oiIsLatest i"
    and "\<And>i. c = Some i \<Longrightarrow> if oiVersionID i = [] then h = Map.empty else h (oiVersionID i) = Some i"
    and "\<And>v i. h v = Some i \<Longrightarrow> rec_ok b key i \<and> v \<noteq> [] \<and> oiVersionID i = v"
    and "\<And>v i. h v = Some i \<Longrightarrow> \<exists>j. c = Some j \<and> (oiVersionID j \<noteq> v \<longrightarrow> \<not> oiIsLatest i)"
  shows "key_wf b key c h"
  using assms unfolding key_wf_def by blast

lemma key_wf_cur:
  "key_wf b key c h \<Longrightarrow> c = Some i \<Longrightarrow> rec_ok b key i \<and> oiIsLatest i \<and>
     (if oiVersionID i = [] then h = Map.empty else h (oiVersionID i) = Some i)"
  unfolding key_wf_def by blast

lemma key_wf_hist:
  "key_wf b key c h \<Longrightarrow> h v = Some i \<Longrightarrow> rec_ok b key i \<and> v \<noteq> [] \<and> oiVersionID i = v \<and>
     (\<exists>j. c = Some j \<and> (oiVersionID j \<noteq> v \<longrightarrow> \<not> oiIsLatest i))"
  unfolding key_wf_def by blast

lemma store_wf_key:
  "store_wf b m \<Longrightarrow> nul \<notin> set key \<Longrightarrow> key_wf b key (cur_of m b key) (hist_of m b key)"
  by (simp add: store_wf_def)

lemma rec_ok_update:
  "rec_ok b key (i\<lparr>oiIsLatest := x\<rparr>) = rec_ok b key i"
  "rec_ok b key (i\<lparr>oiIsLatest := x, oiNoncurrentSince := t\<rparr>) = rec_ok b key i"
  by (simp_all add: rec_ok_def obj_utf8_def)

lemma retire_cases:
  assumes "retire info c h v = Some i"
  obtains "h v = Some i" "\<forall>old. c = Some old \<longrightarrow> oiVersionID old = v \<longrightarrow> v = [] \<or> v = oiVersionID info"
  | old where "c = Some old" "v = oiVersionID old" "v \<noteq> []"
      "i = old\<lparr>oiIsLatest := False, oiNoncurrentSince := oiLastModified info\<rparr>"
  using assms by (cases c) (auto simp: retire_def split: if_splits)

lemma retire_other:
  assumes wf: "key_wf b key c h" and v: "v \<noteq> oiVersionID info" and r: "retire info c h v = Some i"
  shows "rec_ok b key i \<and> v \<noteq> [] \<and> oiVersionID i = v \<and> \<not> oiIsLatest i"
  using r
proof (cases rule: retire_cases)
  case 1
  from key_wf_hist [OF wf 1(1)] obtain j where "c = Some j" "rec_ok b key i" "v \<noteq> []" "oiVersionID i = v"
    "oiVersionID j \<noteq> v \<longrightarrow> \<not> oiIsLatest i" by blast
  with 1(2) v show ?thesis by blast
next
  case (2 old)
  with key_wf_cur [OF wf 2(1)] show ?thesis by (simp add: rec_ok_update)
qed

lemma spec_put_simps:
  "fst (spec_put info s) = Some (info\<lparr>oiIsLatest := True\<rparr>)"
  "snd (spec_put info s) = (if oiVersionID info = [] then Map.empty
     else (retire info (fst s) (snd s))(oiVersionID info \<mapsto> info\<lparr>oiIsLatest := True\<rparr>))"
  by (simp_all add: spec_put_def Let_def)

lemma key_wf_put:
  assumes "key_wf b key c h" and "rec_ok b key info"
  shows "key_wf b key (fst (spec_put info (c, h))) (snd (spec_put info (c, h)))"
proof (cases "oiVersionID info = []")
  case True
  with assms(2) show ?thesis by (intro key_wfI) (auto simp: spec_put_simps rec_ok_update)
next
  case False
  show ?thesis
  proof (rule key_wfI)
    fix v i assume h: "snd (spec_put info (c, h)) v = Some i"
    show "rec_ok b key i \<and> v \<noteq> [] \<and> oiVersionID i = v"
      using h False assms(2) retire_other [OF assms(1), of v info i]
      by (cases "v = oiVersionID info") (auto simp: spec_put_simps rec_ok_update)
    show "\<exists>j. fst (spec_put info (c, h)) = Some j \<and> (oiVersionID j \<noteq> v \<longrightarrow> \<not> oiIsLatest i)"
      using h False retire_other [OF assms(1), of v info i]
      by (cases "v = oiVersionID info") (auto simp: spec_put_simps)
  qed (use False assms(2) in \<open>auto simp: spec_put_simps rec_ok_update\<close>)
qed

lemma key_wf_delete_version:
  assumes wf: "key_wf b key c h" and sp: "spec_delete_version v (c, h) (c', h')" and v: "v \<noteq> []"
  shows "key_wf b key c' h'"
proof (cases c)
  case None
  with wf have "h = Map.empty" using key_wf_hist [OF wf] by (metis option.distinct(1) not_None_eq ext)
  with None sp show ?thesis by (intro key_wfI) (auto simp: spec_delete_version_def)
next
  case (Some j)
  note C = key_wf_cur [OF wf Some]
  let ?h = "h(v := None)"
  have H: "\<And>w i. ?h w = Some i \<Longrightarrow> rec_ok b key i \<and> w \<noteq> [] \<and> oiVersionID i = w \<and> (oiVersionID j \<noteq> w \<longrightarrow> \<not> oiIsLatest i)"
    using key_wf_hist [OF wf] Some by (auto split: if_splits)
  consider "oiVersionID j \<noteq> v" | "oiVersionID j = v" "?h = Map.empty" | "oiVersionID j = v" "?h \<noteq> Map.empty"
    by blast
  then show ?thesis
  proof cases
    case 1
    with sp Some have "c' = c" "h' = ?h" by (auto simp: spec_delete_version_def)
    show ?thesis unfolding \<open>c' = c\<close> \<open>h' = ?h\<close>
    proof (rule key_wfI)
      fix i assume "c = Some i"
      with C Some show "rec_ok b key i \<and> oiIsLatest i" by simp
      from C Some \<open>c = Some i\<close> 1 show "if oiVersionID i = [] then ?h = Map.empty else ?h (oiVersionID i) = Some i"
        by (simp split: if_splits)
    next
      fix u x assume h: "?h u = Some x"
      from H [OF h] show "rec_ok b key x \<and> u \<noteq> [] \<and> oiVersionID x = u" by blast
      from H [OF h] Some show "\<exists>i. c = Some i \<and> (oiVersionID i \<noteq> u \<longrightarrow> \<not> oiIsLatest x)" by blast
    qed
  next
    case 2
    with sp Some have "c' = None" "h' = Map.empty" by (auto simp: spec_delete_version_def)
    then show ?thesis by (intro key_wfI) auto
  next
    case 3
    with sp Some obtain i w where i: "?h w = Some i"
      and e: "c' = Some (i\<lparr>oiIsLatest := True\<rparr>)" "h' = ?h(oiVersionID i \<mapsto> i\<lparr>oiIsLatest := True\<rparr>)"
      by (auto simp: spec_delete_version_def is_newest_def Let_def)
    from H [OF i] have w: "oiVersionID i = w" "w \<noteq> []" "rec_ok b key i" by auto
    let ?i = "i\<lparr>oiIsLatest := True\<rparr>"
    have e': "c' = Some ?i" "h' = ?h(w \<mapsto> ?i)" using e w by auto
    have o: "rec_ok b key x \<and> u \<noteq> [] \<and> oiVersionID x = u \<and> \<not> oiIsLatest x"
      if "h' u = Some x" "u \<noteq> w" for u x
      using that H [of u x] e'(2) 3(1) by (cases "u = v") auto
    have s: "h' w = Some ?i" using e' by simp
    have s': "x = ?i" if "h' w = Some x" for x using that s by simp
    show ?thesis unfolding e'(1)
    proof (rule key_wfI)
      fix u x assume h: "h' u = Some x"
      show "rec_ok b key x \<and> u \<noteq> [] \<and> oiVersionID x = u"
        using o [OF h] s' h w by (cases "u = w") (auto simp: rec_ok_update)
      show "\<exists>j. Some ?i = Some j \<and> (oiVersionID j \<noteq> u \<longrightarrow> \<not> oiIsLatest x)"
        using o [OF h] w by (cases "u = w") auto
    qed (use w s in \<open>auto simp: rec_ok_update\<close>)
  qed
qed

subsection \<open>Transactions as updates of one key\<close>

text \<open>upd_key says that a transaction changed nothing in the abstraction but
  one key, which now has the record c and the history h.\<close>

definition upd_key ::
  "string \<Rightarrow> string \<Rightarrow> dbmap \<Rightarrow> dbmap \<Rightarrow> ObjectInfo option \<Rightarrow> history \<Rightarrow> bool" where
  "upd_key b key m m' c h \<longleftrightarrow> shape_ok b m' \<and> (\<forall>key'. nul \<notin> set key' \<longrightarrow>
     cur_of m' b key' = (if key' = key then c else cur_of m b key') \<and>
     hist_of m' b key' = (if key' = key then h else hist_of m b key'))"

lemma upd_refl: "shape_ok b m \<Longrightarrow> upd_key b key m m (cur_of m b key) (hist_of m b key)"
  by (auto simp: upd_key_def)

lemma upd_put_ptr: "upd_key b key m m1 c h \<Longrightarrow> nul \<notin> set key \<Longrightarrow>
   upd_key b key m (m1(objectMetaKey b key \<mapsto> VObj i)) (Some i) h"
  by (auto simp: upd_key_def key_simps intro: shape_put)

lemma upd_put_ver: "upd_key b key m m1 c h \<Longrightarrow> nul \<notin> set key \<Longrightarrow>
   upd_key b key m (m1(objectMetaKeyVersion b key v \<mapsto> VObj i)) c (h(v \<mapsto> i))"
  by (auto simp: upd_key_def key_simps intro: shape_put)

lemma upd_del_ptr: "upd_key b key m m1 c h \<Longrightarrow> nul \<notin> set key \<Longrightarrow>
   upd_key b key m (m1(objectMetaKey b key := None)) None h"
  by (auto simp: upd_key_def key_simps intro: shape_del)

lemma upd_del_ver: "upd_key b key m m1 c h \<Longrightarrow> nul \<notin> set key \<Longrightarrow>
   upd_key b key m (m1(objectMetaKeyVersion b key v := None)) c (h(v := None))"
  by (auto simp: upd_key_def key_simps intro: shape_del)

lemma upd_drop_vers: "upd_key b key m m1 c h \<Longrightarrow> nul \<notin> set key \<Longrightarrow>
   upd_key b key m (drop_prefix (objectMetaKeyVersion b key []) m1) c Map.empty"
  by (auto simp: upd_key_def key_simps intro: shape_del)

lemmas upd_intros = upd_put_ptr upd_put_ver upd_del_ptr upd_del_ver upd_drop_vers

lemma upd_key_at: "upd_key b key m m' c h \<Longrightarrow> nul \<notin> set key \<Longrightarrow> cur_of m' b key = c \<and> hist_of m' b key = h"
  by (simp add: upd_key_def)

lemma upd_key_other: "upd_key b key m m' c h \<Longrightarrow> nul \<notin> set key' \<Longrightarrow> key' \<noteq> key \<Longrightarrow>
   cur_of m' b key' = cur_of m b key' \<and> hist_of m' b key' = hist_of m b key'"
  by (simp add: upd_key_def)

lemma upd_store_wf: "upd_key b key m m' c h \<Longrightarrow> store_wf b m \<Longrightarrow> key_wf b key c h \<Longrightarrow> store_wf b m'"
  by (auto simp: store_wf_def upd_key_def)

subsection \<open>Counting current records\<close>

definition live :: "string \<Rightarrow> dbmap \<Rightarrow> string set" where
  "live b m = {key. nul \<notin> set key \<and> m (objectMetaKey b key) \<noteq> None}"

definition stats_val :: "'b bolt \<Rightarrow> 'b bdb \<Rightarrow> dbvalue option" where
  "stats_val B tx = (case dbStats tx of None \<Rightarrow> None | Some sb \<Rightarrow> bk_get B sb objectCountKey)"

definition count_is :: "'b bolt \<Rightarrow> 'b bdb \<Rightarrow> nat \<Rightarrow> bool" where
  "count_is B tx n \<longleftrightarrow> stats_val B tx = None \<or> (stats_val B tx = Some (VBytes (PutUint64 (int n))) \<and> n < 2 ^ 63)"

definition count_wf :: "'b bolt \<Rightarrow> string \<Rightarrow> 'b bdb \<Rightarrow> bool" where
  "count_wf B b tx \<longleftrightarrow> count_is B tx (card (live b (bk_get B (dbObjects tx))))"

lemma live_cur: "shape_ok b m \<Longrightarrow> live b m = {key. nul \<notin> set key \<and> cur_of m b key \<noteq> None}"
  by (simp add: live_def cur_of_None)

lemma upd_live: "upd_key b key m m' c h \<Longrightarrow> shape_ok b m \<Longrightarrow> nul \<notin> set key \<Longrightarrow>
   live b m' = (if c = None then live b m - {key} else insert key (live b m))"
proof -
  assume u: "upd_key b key m m' c h" and "shape_ok b m" "nul \<notin> set key"
  from u have "\<And>k. nul \<notin> set k \<Longrightarrow> cur_of m' b k = (if k = key then c else cur_of m b k)"
    and "shape_ok b m'" by (simp_all add: upd_key_def)
  with \<open>shape_ok b m\<close> \<open>nul \<notin> set key\<close> show ?thesis by (auto simp: live_cur split: if_splits)
qed

lemma finite_live: "finite (dom m) \<Longrightarrow> finite (live b m)"
proof -
  assume "finite (dom m)"
  moreover have "objectMetaKey b ` live b m \<subseteq> dom m" by (auto simp: live_def)
  moreover have "inj_on (objectMetaKey b) (live b m)" by (auto simp: inj_on_def key_simps)
  ultimately show ?thesis by (meson finite_imageD finite_subset)
qed

subsection \<open>The transactions refine their specifications\<close>

lemma newest_loop_Some:
  "newest_loop es d n = Inr (Some i) \<Longrightarrow>
   (n = Some i \<or> (\<exists>k. (k, VObj i) \<in> set es \<and> oiVersionID i \<noteq> d)) \<and>
   (\<forall>j. n = Some j \<longrightarrow> oiLastModified j \<le> oiLastModified i) \<and>
   (\<forall>k j. (k, VObj j) \<in> set es \<longrightarrow> oiVersionID j \<noteq> d \<longrightarrow> oiLastModified j \<le> oiLastModified i)"
proof (induction es arbitrary: n)
  case Nil
  then show ?case by simp
next
  case (Cons e es)
  obtain k v where e: "e = (k, v)" by (cases e)
  with Cons.prems obtain x where x: "v = VObj x" by (auto simp: bindE_Inr_iff unmarshal_obj_iff)
  show ?case
  proof (cases "oiVersionID x = d")
    case True
    with Cons.prems e x have "newest_loop es d n = Inr (Some i)" by simp
    from Cons.IH [OF this] True e x show ?thesis by auto
  next
    case False
    show ?thesis
    proof (cases n)
      case None
      with Cons.prems e x False have "newest_loop es d (Some x) = Inr (Some i)" by simp
      from Cons.IH [OF this] None False e x show ?thesis by auto
    next
      case (Some y)
      then have "newest_loop es d (if oiLastModified x > oiLastModified y then Some x else Some y) = Inr (Some i)"
        using Cons.prems e x False by (simp split: if_splits)
      from Cons.IH [OF this] Some False e x show ?thesis by (auto split: if_splits)
    qed
  qed
qed

lemma newest_loop_None:
  "newest_loop es d n = Inr None \<Longrightarrow> n = None \<and> (\<forall>k j. (k, VObj j) \<in> set es \<longrightarrow> oiVersionID j = d)"
proof (induction es arbitrary: n)
  case Nil
  then show ?case by simp
next
  case (Cons e es)
  obtain k v where e: "e = (k, v)" by (cases e)
  with Cons.prems obtain x where x: "v = VObj x" by (auto simp: bindE_Inr_iff unmarshal_obj_iff)
  with Cons.prems e Cons.IH show ?case by (fastforce split: if_splits option.splits)
qed

lemma newest_loop_total:
  "\<forall>e\<in>set es. \<exists>i. snd e = VObj i \<Longrightarrow> \<exists>r. newest_loop es d n = Inr r"
  by (induction es arbitrary: n) (auto split: option.splits)

lemma rec_ok_json: "rec_ok b key i \<Longrightarrow> json_obj i = i"
  by (simp add: rec_ok_def json_obj_utf8)

lemma mark_frame:
  "markReplication B r tx k = Inr tx' \<Longrightarrow>
   dbObjects tx' = dbObjects tx \<and> dbStats tx' = dbStats tx \<and> dbMultipart tx' = dbMultipart tx"
  by (auto simp: markReplication_def bindE_Inr_iff split: if_splits prod.splits)

lemma setcount_frame:
  "setObjectCount B tx n = Inr tx' \<Longrightarrow>
   dbObjects tx' = dbObjects tx \<and> dbReplication tx' = dbReplication tx \<and> dbMultipart tx' = dbMultipart tx"
  by (auto simp: setObjectCount_def bindE_Inr_iff)

lemma adjust_frame:
  "adjustObjectCount B tx d = Inr tx' \<Longrightarrow>
   dbObjects tx' = dbObjects tx \<and> dbReplication tx' = dbReplication tx \<and> dbMultipart tx' = dbMultipart tx"
  by (auto simp: adjustObjectCount_def Let_def bindE_Inr_iff dest: setcount_frame
      split: option.splits if_splits)

end
