(* ===== verification/Object_Refine.thy ===== *)
theory Object_Refine
  imports Object_Spec
begin

text \<open>
  The object transactions of Object_Meta implement the specifications of
  Object_Spec, for every database with the laws of bolt_laws: each one is an
  update of one key, keeps the records well-formed and the stored count exact.
  With bolt_ok they also succeed on keys of the sizes S3 allows.
\<close>

context bolt_laws
begin

lemma delete_keys_drop:
  "delete_keys B b (map fst (cur_prefix B b p)) = Inr b' \<Longrightarrow> bk_get B b' = drop_prefix p (bk_get B b)"
  by (auto dest!: delete_keys_get simp: prefix_keys [unfolded set_map] drop_prefix_def fun_eq_iff)

lemma retire_upd:
  assumes u: "upd_key b key m (bk_get B db) c h" and n: "nul \<notin> set key"
    and r: "retireOldLatest B info (m (objectMetaKey b key)) db = Inr db'"
    and s: "shape_ok b m" and w: "\<And>i. cur_of m b key = Some i \<Longrightarrow> rec_ok b key i"
  shows "upd_key b key m (bk_get B db') c (retire info (cur_of m b key) h)"
proof (cases "m (objectMetaKey b key)")
  case None
  then have "cur_of m b key = None" by (simp add: cur_of_def)
  with None r u show ?thesis by (simp add: retireOldLatest_def retire_def)
next
  case (Some v)
  with s obtain i where v: "v = VObj i" by (auto dest: shape_okD)
  with Some have c: "cur_of m b key = Some i" by (simp add: cur_of_Some)
  let ?i = "i\<lparr>oiIsLatest := False, oiNoncurrentSince := oiLastModified info\<rparr>"
  from w [OF c] have o: "rec_ok b key ?i" "oiBucket i = b" "oiKey i = key"
    by (auto simp: rec_ok_update) (auto simp: rec_ok_def)
  show ?thesis
  proof (cases "oiVersionID i \<noteq> [] \<and> oiVersionID i \<noteq> oiVersionID info")
    case True
    with r Some v o have "bk_put B db (objectMetaKeyVersion b key (oiVersionID i)) (VObj ?i) = Inr db'"
      by (simp add: retireOldLatest_def marshal_obj_def rec_ok_json)
    from get_put [OF this] upd_put_ver [OF u n] c True show ?thesis by (simp add: retire_def)
  next
    case False
    with r Some v u c show ?thesis by (auto simp: retireOldLatest_def retire_def)
  qed
qed

lemma put_upd:
  assumes p: "putObjectMetaTx B r info tx = Inr tx'"
    and wf: "store_wf b (bk_get B (dbObjects tx))" and o: "rec_ok b key info" and n: "nul \<notin> set key"
  shows "upd_key b key (bk_get B (dbObjects tx)) (bk_get B (dbObjects tx'))
     (fst (spec_put info (cur_of (bk_get B (dbObjects tx)) b key, hist_of (bk_get B (dbObjects tx)) b key)))
     (snd (spec_put info (cur_of (bk_get B (dbObjects tx)) b key, hist_of (bk_get B (dbObjects tx)) b key)))"
proof -
  let ?m = "bk_get B (dbObjects tx)"
  let ?i = "info\<lparr>oiIsLatest := True\<rparr>"
  have s: "shape_ok b ?m" using wf by (simp add: store_wf_def)
  have w: "\<And>i. cur_of ?m b key = Some i \<Longrightarrow> rec_ok b key i"
    using wf n by (auto simp: store_wf_def dest: key_wf_cur)
  have bk: "oiBucket info = b" "oiKey info = key" "rec_ok b key ?i"
    using o by (auto simp: rec_ok_update) (auto simp: rec_ok_def)
  have sel: "oiBucket ?i = b" "oiKey ?i = key" "oiVersionID ?i = oiVersionID info" using bk by simp_all
  from p obtain t1 t2 b1 b2 b3 where
    m: "markReplication B r tx key = Inr t1"
    and a: "(if bk_get B (dbObjects t1) (objectMetaKey b key) = None then adjustObjectCount B t1 1 else Inr t1) = Inr t2"
    and b1: "retireOldLatest B ?i (bk_get B (dbObjects t1) (objectMetaKey b key)) (dbObjects t2) = Inr b1"
    and b2: "(if oiVersionID info \<noteq> [] then
             bk_put B b1 (objectMetaKeyVersion b key (oiVersionID info)) (marshal_obj ?i)
           else deleteVersionRecords B b1 b key) = Inr b2"
    and b3: "bk_put B b2 (objectMetaKey b key) (marshal_obj ?i) = Inr b3"
    and t': "tx' = t2\<lparr>dbObjects := b3\<rparr>"
    unfolding putObjectMetaTx_def Let_def bk sel bindE_Inr_iff by blast
  have e: "dbObjects t2 = dbObjects tx" "dbObjects t1 = dbObjects tx"
    using mark_frame [OF m] a adjust_frame [of B t1 1 t2] by (auto split: if_splits)
  have "upd_key b key ?m (bk_get B b1) (cur_of ?m b key) (retire ?i (cur_of ?m b key) (hist_of ?m b key))"
    using retire_upd [OF upd_refl [OF s] n b1 [unfolded e] s w] .
  moreover have "retire ?i (cur_of ?m b key) (hist_of ?m b key) = retire info (cur_of ?m b key) (hist_of ?m b key)"
    by (simp add: retire_def split: option.split)
  ultimately have u1: "upd_key b key ?m (bk_get B b1) (cur_of ?m b key) (retire info (cur_of ?m b key) (hist_of ?m b key))"
    by simp
  have mo: "marshal_obj ?i = VObj ?i" using bk by (simp add: marshal_obj_def rec_ok_json)
  have "upd_key b key ?m (bk_get B b2) (cur_of ?m b key) (snd (spec_put info (cur_of ?m b key, hist_of ?m b key)))"
  proof (cases "oiVersionID info = []")
    case True
    with b2 have "bk_get B b2 = drop_prefix (objectMetaKeyVersion b key []) (bk_get B b1)"
      unfolding deleteVersionRecords_def prefix_key_string by (simp add: delete_keys_drop)
    with upd_drop_vers [OF u1 n] True show ?thesis by (simp add: spec_put_simps)
  next
    case False
    with b2 mo have "bk_get B b2 = (bk_get B b1)(objectMetaKeyVersion b key (oiVersionID info) \<mapsto> VObj ?i)"
      by (simp add: get_put)
    with upd_put_ver [OF u1 n] False show ?thesis by (simp add: spec_put_simps)
  qed
  from upd_put_ptr [OF this n, of ?i] get_put [OF b3] mo t' show ?thesis
    by (simp add: spec_put_simps)
qed

lemma raw_upd:
  assumes p: "putObjectMetaRawTx B info tx = Inr tx'"
    and s: "shape_ok b (bk_get B (dbObjects tx))" and o: "rec_ok b key info" and n: "nul \<notin> set key"
  shows "upd_key b key (bk_get B (dbObjects tx)) (bk_get B (dbObjects tx'))
     (fst (spec_raw info (cur_of (bk_get B (dbObjects tx)) b key, hist_of (bk_get B (dbObjects tx)) b key)))
     (snd (spec_raw info (cur_of (bk_get B (dbObjects tx)) b key, hist_of (bk_get B (dbObjects tx)) b key)))"
proof -
  let ?m = "bk_get B (dbObjects tx)"
  have bk: "oiBucket info = b" "oiKey info = key" using o by (auto simp: rec_ok_def)
  have mo: "marshal_obj info = VObj info" using o by (simp add: marshal_obj_def rec_ok_json)
  from p obtain b1 where
    b1: "(if oiVersionID info \<noteq> [] then bk_put B (dbObjects tx) (objectMetaKeyVersion b key (oiVersionID info)) (VObj info)
          else Inr (dbObjects tx)) = Inr b1"
    and rest: "(if oiIsLatest info then
       bindE (if bk_get B b1 (objectMetaKey b key) = None
              then adjustObjectCount B (tx\<lparr>dbObjects := b1\<rparr>) 1 else Inr (tx\<lparr>dbObjects := b1\<rparr>)) (\<lambda>tx.
       bindE (bk_put B (dbObjects tx) (objectMetaKey b key) (VObj info)) (\<lambda>b.
       Inr (tx\<lparr>dbObjects := b\<rparr>)))
     else Inr (tx\<lparr>dbObjects := b1\<rparr>)) = Inr tx'"
    unfolding putObjectMetaRawTx_def Let_def bk mo bindE_Inr_iff by blast
  have u1: "upd_key b key ?m (bk_get B b1) (cur_of ?m b key)
     (snd (spec_raw info (cur_of ?m b key, hist_of ?m b key)))"
    using b1 upd_refl [OF s, of key] upd_put_ver [OF upd_refl [OF s] n]
    by (auto simp: spec_raw_def get_put split: if_splits)
  show ?thesis
  proof (cases "oiIsLatest info")
    case False
    with rest u1 show ?thesis by (auto simp: spec_raw_def)
  next
    case True
    with rest obtain t2 b2 where t2: "(if bk_get B b1 (objectMetaKey b key) = None
              then adjustObjectCount B (tx\<lparr>dbObjects := b1\<rparr>) 1 else Inr (tx\<lparr>dbObjects := b1\<rparr>)) = Inr t2"
      and b2: "bk_put B (dbObjects t2) (objectMetaKey b key) (VObj info) = Inr b2" and "tx' = t2\<lparr>dbObjects := b2\<rparr>"
      by (simp only: if_True bindE_Inr_iff) blast
    moreover from t2 have "dbObjects t2 = b1"
      by (cases "bk_get B b1 (objectMetaKey b key)") (auto dest: adjust_frame)
    ultimately show ?thesis using upd_put_ptr [OF u1 n, of info] True by (simp add: get_put spec_raw_def)
  qed
qed

lemma vers_entries:
  assumes s: "shape_ok b (bk_get B db)" and n: "nul \<notin> set key"
  shows "(k, VObj i) \<in> set (cur_prefix B db (objectMetaKeyVersion b key [])) \<longleftrightarrow>
    (\<exists>v. k = objectMetaKeyVersion b key v \<and> hist_of (bk_get B db) b key v = Some i)"
proof
  assume "(k, VObj i) \<in> set (cur_prefix B db (objectMetaKeyVersion b key []))"
  then have "prefix (objectMetaKeyVersion b key []) k" and g: "bk_get B db k = Some (VObj i)"
    by (auto simp: prefix_iff)
  then obtain v where "k = objectMetaKeyVersion b key v"
    by (auto simp: prefix_def objectMetaKeyVersion_def)
  with g show "\<exists>v. k = objectMetaKeyVersion b key v \<and> hist_of (bk_get B db) b key v = Some i"
    by (auto simp: hist_of_Some)
next
  assume "\<exists>v. k = objectMetaKeyVersion b key v \<and> hist_of (bk_get B db) b key v = Some i"
  then show "(k, VObj i) \<in> set (cur_prefix B db (objectMetaKeyVersion b key []))"
    by (auto simp: prefix_iff hist_of_Some prefix_def objectMetaKeyVersion_def)
qed

lemma vers_entries_obj:
  assumes s: "shape_ok b (bk_get B db)" and e: "e \<in> set (cur_prefix B db p)"
  shows "\<exists>i. snd e = VObj i"
  using assms by (cases e) (auto simp: prefix_iff dest: shape_okD)

lemma find_newest:
  assumes s: "shape_ok b (bk_get B db)" and n: "nul \<notin> set key"
    and f: "findNextNewestVersion B db b key d = Inr r"
    and h: "\<And>v i. hist_of (bk_get B db) b key v = Some i \<Longrightarrow> oiVersionID i = v \<and> v \<noteq> d"
  shows "case r of None \<Rightarrow> hist_of (bk_get B db) b key = Map.empty
    | Some i \<Rightarrow> is_newest (hist_of (bk_get B db) b key) i"
proof -
  let ?h = "hist_of (bk_get B db) b key"
  from f have l: "newest_loop (cur_prefix B db (objectMetaKeyVersion b key [])) d None = Inr r"
    by (simp only: findNextNewestVersion_def prefix_key_string)
  have E: "\<And>k j. (k, VObj j) \<in> set (cur_prefix B db (objectMetaKeyVersion b key [])) \<longleftrightarrow>
      (\<exists>v. k = objectMetaKeyVersion b key v \<and> ?h v = Some j)"
    by (rule vers_entries [OF s n])
  show ?thesis
  proof (cases r)
    case None
    have "?h v = None" for v
    proof (rule ccontr)
      assume "?h v \<noteq> None"
      then obtain j where j: "?h v = Some j" by blast
      with E newest_loop_None [OF l [unfolded None]] have "oiVersionID j = d" by blast
      with h [OF j] show False by metis
    qed
    with None show ?thesis by (simp add: fun_eq_iff)
  next
    case (Some i)
    note L = newest_loop_Some [OF l [unfolded Some]]
    from L E have "\<exists>v. ?h v = Some i" by blast
    moreover have "oiLastModified j \<le> oiLastModified i" if "?h v = Some j" for v j
      using L E h [OF that] that by blast
    ultimately show ?thesis using Some by (simp add: is_newest_def)
  qed
qed

text \<open>Deleting one version, and deleting a key.\<close>

lemma delete_version_upd:
  assumes d: "deleteVersionTx B b key v tx = Inr tx'"
    and wf: "store_wf b (bk_get B (dbObjects tx))" and n: "nul \<notin> set key" and v: "v \<noteq> []"
  obtains c h where
    "spec_delete_version v (cur_of (bk_get B (dbObjects tx)) b key, hist_of (bk_get B (dbObjects tx)) b key) (c, h)"
    "upd_key b key (bk_get B (dbObjects tx)) (bk_get B (dbObjects tx')) c h"
proof -
  let ?m = "bk_get B (dbObjects tx)"
  have s: "shape_ok b ?m" and k: "key_wf b key (cur_of ?m b key) (hist_of ?m b key)"
    using wf n by (auto simp: store_wf_def)
  let ?h = "(hist_of ?m b key)(v := None)"
  from d obtain b1 where b1: "bk_delete B (dbObjects tx) (objectMetaKeyVersion b key v) = Inr b1"
    by (auto simp: deleteVersionTx_def bindE_Inr_iff)
  have u: "upd_key b key ?m (bk_get B b1) (cur_of ?m b key) ?h"
    using upd_del_ver [OF upd_refl [OF s] n] get_delete [OF b1] by simp
  have s1: "shape_ok b (bk_get B b1)" using u by (simp add: upd_key_def)
  have c1: "cur_of (bk_get B b1) b key = cur_of ?m b key" "hist_of (bk_get B b1) b key = ?h"
    using upd_key_at [OF u n] by auto
  show thesis
  proof (cases "cur_of ?m b key")
    case None
    with c1 s1 have "bk_get B b1 (objectMetaKey b key) = None" by (metis cur_of_None)
    with d b1 have "tx' = tx\<lparr>dbObjects := b1\<rparr>" by (simp add: deleteVersionTx_def)
    with u None show thesis by (intro that [of None ?h]) (auto simp: spec_delete_version_def)
  next
    case (Some i)
    with c1 have g: "bk_get B b1 (objectMetaKey b key) = Some (VObj i)" by (metis cur_of_Some)
    show thesis
    proof (cases "oiVersionID i = v")
      case False
      with d b1 g have "tx' = tx\<lparr>dbObjects := b1\<rparr>" by (simp add: deleteVersionTx_def)
      with u Some False show thesis by (intro that [of "Some i" ?h]) (auto simp: spec_delete_version_def)
    next
      case True
      from d b1 g True obtain r where r: "findNextNewestVersion B b1 b key v = Inr r"
        by (auto simp: deleteVersionTx_def bindE_Inr_iff)
      have H: "hist_of (bk_get B b1) b key w = Some j \<Longrightarrow> oiVersionID j = w \<and> w \<noteq> v" for w j
        unfolding c1 using key_wf_hist [OF k, of w j] by (cases "w = v") auto
      have nw: "case r of None \<Rightarrow> ?h = Map.empty | Some i \<Rightarrow> is_newest ?h i"
        using find_newest [OF s1 n r H] unfolding c1 .
      show thesis
      proof (cases r)
        case None
        with d b1 g True r obtain b2 where b2: "bk_delete B b1 (objectMetaKey b key) = Inr b2"
          and a: "adjustObjectCount B (tx\<lparr>dbObjects := b2\<rparr>) (- 1) = Inr tx'"
          by (auto simp: deleteVersionTx_def bindE_Inr_iff)
        from adjust_frame [OF a] have "dbObjects tx' = b2" by simp
        with upd_del_ptr [OF u n] get_delete [OF b2] have "upd_key b key ?m (bk_get B (dbObjects tx')) None ?h" by simp
        with None nw Some True show thesis by (intro that [of None ?h]) (auto simp: spec_delete_version_def)
      next
        case (Some x)
        let ?x = "x\<lparr>oiIsLatest := True\<rparr>"
        from nw Some obtain w where w: "?h w = Some x" and new: "is_newest ?h x" by (auto simp: is_newest_def)
        with key_wf_hist [OF k, of w x] have x: "rec_ok b key x" "oiVersionID x = w" "w \<noteq> []"
          by (auto split: if_splits)
        then have mx: "marshal_obj ?x = VObj ?x"
          by (simp add: marshal_obj_def rec_ok_update rec_ok_json [of b key])
        from d b1 g True r Some x mx obtain b2 b3 where
          b2: "bk_put B b1 (objectMetaKey b key) (VObj ?x) = Inr b2" and
          b3: "bk_put B b2 (objectMetaKeyVersion b key w) (VObj ?x) = Inr b3" and t: "tx' = tx\<lparr>dbObjects := b3\<rparr>"
        proof -
          have sel: "oiVersionID ?x = w" "\<not> w = []" using x by simp_all
          from d have "bindE (bk_put B b1 (objectMetaKey b key) (VObj ?x)) (\<lambda>b'.
              bindE (bk_put B b' (objectMetaKeyVersion b key w) (VObj ?x)) (\<lambda>b'. Inr (tx\<lparr>dbObjects := b'\<rparr>))) = Inr tx'"
            by (simp only: deleteVersionTx_def b1 g r True Some bindE_simps option.case unmarshal_obj.simps
                Let_def mx sel simp_thms if_True)
          then show thesis unfolding bindE_Inr_iff using that by blast
        qed
        have "upd_key b key ?m (bk_get B (dbObjects tx')) (Some ?x) (?h(w \<mapsto> ?x))"
          using upd_put_ver [OF upd_put_ptr [OF u n] n] get_put [OF b2] get_put [OF b3] t by simp
        moreover have "?h \<noteq> Map.empty" using w by (metis option.distinct(1))
        then have "spec_delete_version v (cur_of ?m b key, hist_of ?m b key) (Some ?x, ?h(w \<mapsto> ?x))"
          unfolding spec_delete_version_def Let_def \<open>cur_of ?m b key = Some i\<close> fst_conv snd_conv option.case
          using True new x by (simp only: if_False simp_thms not_True_eq_False) (metis x(2))
        ultimately show thesis using that by blast
      qed
    qed
  qed
qed

lemma delete_key_upd:
  assumes d: "deleteKeyTx B b key tx = Inr tx'"
    and s: "shape_ok b (bk_get B (dbObjects tx))" and n: "nul \<notin> set key"
  shows "upd_key b key (bk_get B (dbObjects tx)) (bk_get B (dbObjects tx')) None Map.empty"
proof -
  let ?m = "bk_get B (dbObjects tx)"
  from d obtain t1 b2 where
    t1: "(if bk_get B (dbObjects tx) (objectMetaKey b key) \<noteq> None then
             bindE (bk_delete B (dbObjects tx) (objectMetaKey b key)) (\<lambda>b.
             adjustObjectCount B (tx\<lparr>dbObjects := b\<rparr>) (- 1))
           else Inr tx) = Inr t1"
    and b2: "delete_keys B (dbObjects t1) (map fst (cur_prefix B (dbObjects t1) (objectMetaKeyVersion b key []))) = Inr b2"
    and t: "tx' = t1\<lparr>dbObjects := b2\<rparr>"
    unfolding deleteKeyTx_def prefix_key_string bindE_Inr_iff by blast
  have "upd_key b key ?m (bk_get B (dbObjects t1)) None (hist_of ?m b key)"
  proof (cases "?m (objectMetaKey b key)")
    case None
    with t1 have "t1 = tx" by simp
    with None upd_refl [OF s, of key] show ?thesis by (simp add: cur_of_def)
  next
    case (Some x)
    with t1 obtain b1 where b1: "bk_delete B (dbObjects tx) (objectMetaKey b key) = Inr b1"
      and "adjustObjectCount B (tx\<lparr>dbObjects := b1\<rparr>) (- 1) = Inr t1" by (auto simp: bindE_Inr_iff)
    then have "dbObjects t1 = b1" by (auto dest: adjust_frame)
    with upd_del_ptr [OF upd_refl [OF s] n] get_delete [OF b1] show ?thesis by simp
  qed
  from upd_drop_vers [OF this n] delete_keys_drop [OF b2] t show ?thesis by simp
qed

subsection \<open>The stored count\<close>

lemma set_count_val: "setObjectCount B tx n = Inr tx' \<Longrightarrow> stats_val B tx' = Some (VBytes (PutUint64 n))"
  by (auto simp: setObjectCount_def bindE_Inr_iff stats_val_def get_put)

lemma adjust_count:
  assumes c: "count_is B tx n" and a: "adjustObjectCount B tx d = Inr tx'"
    and d: "int n' = int n + d" and b: "\<bar>d\<bar> \<le> 1"
  shows "count_is B tx' n'"
proof (cases "stats_val B tx")
  case None
  with a have "tx' = tx" by (auto simp: adjustObjectCount_def stats_val_def split: option.splits)
  with None show ?thesis by (simp add: count_is_def)
next
  case (Some v)
  with c have v: "v = VBytes (PutUint64 (int n))" and n: "n < 2 ^ 63" by (auto simp: count_is_def)
  from Some obtain sb where sb: "dbStats tx = Some sb" and g: "bk_get B sb objectCountKey = Some v"
    by (auto simp: stats_val_def split: option.splits)
  have u: "int64 (Uint64 (value_bytes v)) = int n"
    using n v by (simp add: Uint64_PutUint64 int64_id)
  show ?thesis
  proof (cases "int64 (int n + d) < 0")
    case True
    with a sb g u obtain sb' where "bk_delete B sb objectCountKey = Inr sb'" "tx' = tx\<lparr>dbStats := Some sb'\<rparr>"
      by (auto simp: adjustObjectCount_def bindE_Inr_iff)
    then have "stats_val B tx' = None" by (simp add: stats_val_def get_delete)
    then show ?thesis by (simp add: count_is_def)
  next
    case False
    have lt: "int n' < 2 ^ 63"
    proof (rule ccontr)
      assume "\<not> int n' < 2 ^ 63"
      moreover have "int n < 2 ^ 63" using n by (metis of_nat_less_iff of_nat_numeral of_nat_power)
      ultimately have "int n + d = 2 ^ 63" using d b by (simp add: abs_le_iff)
      moreover have "int64 (2 ^ 63) < 0" by (simp add: int64_def sint_sbintrunc' signed_take_bit_int_eq_self_iff)
      ultimately show False using False by simp
    qed
    with d have "int64 (int n + d) = int n'" by (simp add: int64_id)
    with a sb g u False have "setObjectCount B tx (int n') = Inr tx'" by (simp add: adjustObjectCount_def)
    from set_count_val [OF this] lt show ?thesis by (simp add: count_is_def)
  qed
qed

lemma count_is_objects: "count_is B (tx\<lparr>dbObjects := b\<rparr>) n = count_is B tx n"
  by (simp add: count_is_def stats_val_def)

lemma mark_count: "markReplication B r tx k = Inr tx' \<Longrightarrow> count_is B tx' n = count_is B tx n"
  by (auto dest!: mark_frame simp: count_is_def stats_val_def)

lemma put_stats:
  assumes p: "putObjectMetaTx B r info tx = Inr tx'" and c: "count_is B tx n"
  shows "count_is B tx' (if bk_get B (dbObjects tx) (objectMetaKey (oiBucket info) (oiKey info)) = None
     then n + 1 else n)"
proof -
  let ?i = "info\<lparr>oiIsLatest := True\<rparr>"
  have sel: "oiBucket ?i = oiBucket info" "oiKey ?i = oiKey info" by simp_all
  let ?k = "objectMetaKey (oiBucket info) (oiKey info)"
  from p obtain t1 t2 b3 where m: "markReplication B r tx (oiKey info) = Inr t1"
    and a: "(if bk_get B (dbObjects t1) ?k = None then adjustObjectCount B t1 1 else Inr t1) = Inr t2"
    and t': "tx' = t2\<lparr>dbObjects := b3\<rparr>"
    unfolding putObjectMetaTx_def Let_def sel bindE_Inr_iff by blast
  have c1: "count_is B t1 n" using c mark_count [OF m] by simp
  have "dbObjects t1 = dbObjects tx" using mark_frame [OF m] by simp
  then show ?thesis using a t' c1 adjust_count [OF c1, of 1 t2 "n + 1"]
    by (cases "bk_get B (dbObjects tx) ?k") (auto simp: count_is_objects)
qed

lemma raw_stats:
  assumes p: "putObjectMetaRawTx B info tx = Inr tx'" and c: "count_is B tx n"
    and n: "nul \<notin> set (oiKey info)"
  shows "count_is B tx' (if oiIsLatest info \<and> bk_get B (dbObjects tx) (objectMetaKey (oiBucket info) (oiKey info)) = None
     then n + 1 else n)"
proof -
  let ?k = "objectMetaKey (oiBucket info) (oiKey info)"
  from p obtain b1 where
    b1: "(if oiVersionID info \<noteq> [] then bk_put B (dbObjects tx) (objectMetaKeyVersion (oiBucket info) (oiKey info) (oiVersionID info)) (marshal_obj info)
          else Inr (dbObjects tx)) = Inr b1"
    and rest: "(if oiIsLatest info then
       bindE (if bk_get B b1 ?k = None
              then adjustObjectCount B (tx\<lparr>dbObjects := b1\<rparr>) 1 else Inr (tx\<lparr>dbObjects := b1\<rparr>)) (\<lambda>tx.
       bindE (bk_put B (dbObjects tx) ?k (marshal_obj info)) (\<lambda>b.
       Inr (tx\<lparr>dbObjects := b\<rparr>)))
     else Inr (tx\<lparr>dbObjects := b1\<rparr>)) = Inr tx'"
    unfolding putObjectMetaRawTx_def Let_def bindE_Inr_iff by blast
  have g: "bk_get B b1 ?k = bk_get B (dbObjects tx) ?k"
    using b1 n by (auto simp: get_put key_simps split: if_splits)
  have c1: "count_is B (tx\<lparr>dbObjects := b1\<rparr>) n" using c by (simp add: count_is_objects)
  show ?thesis
  proof (cases "oiIsLatest info")
    case False
    with rest c1 show ?thesis by auto
  next
    case True
    with rest obtain t2 b2 where t2: "(if bk_get B b1 ?k = None
              then adjustObjectCount B (tx\<lparr>dbObjects := b1\<rparr>) 1 else Inr (tx\<lparr>dbObjects := b1\<rparr>)) = Inr t2"
      and t': "tx' = t2\<lparr>dbObjects := b2\<rparr>"
      by (simp only: if_True bindE_Inr_iff) blast
    have "count_is B t2 (if bk_get B b1 ?k = None then n + 1 else n)"
      using t2 c1 adjust_count [OF c1, of 1 t2 "n + 1"] by (cases "bk_get B b1 ?k") auto
    with t' g True show ?thesis by (simp add: count_is_objects)
  qed
qed

lemma delete_version_stats:
  assumes d: "deleteVersionTx B b key v tx = Inr tx'" and c: "count_is B tx n" and k: "nul \<notin> set key"
    and p: "bk_get B (dbObjects tx) (objectMetaKey b key) \<noteq> None \<Longrightarrow> 0 < n"
  shows "count_is B tx' (if bk_get B (dbObjects tx) (objectMetaKey b key) \<noteq> None
       \<and> bk_get B (dbObjects tx') (objectMetaKey b key) = None then n - 1 else n)"
proof -
  from d obtain b1 where b1: "bk_delete B (dbObjects tx) (objectMetaKeyVersion b key v) = Inr b1"
    by (auto simp: deleteVersionTx_def bindE_Inr_iff)
  have g1: "bk_get B b1 (objectMetaKey b key) = bk_get B (dbObjects tx) (objectMetaKey b key)"
    using get_delete [OF b1] k by (simp add: key_simps)
  have c1: "count_is B (tx\<lparr>dbObjects := x\<rparr>) n" for x using c by (simp add: count_is_objects)
  show ?thesis
  proof (cases "bk_get B b1 (objectMetaKey b key)")
    case None
    with d b1 g1 c1 show ?thesis by (auto simp: deleteVersionTx_def)
  next
    case (Some l)
    with d b1 obtain i where i: "unmarshal_obj l = Inr i"
      by (auto simp: deleteVersionTx_def bindE_Inr_iff)
    show ?thesis
    proof (cases "oiVersionID i = v")
      case False
      with d b1 Some i have "tx' = tx\<lparr>dbObjects := b1\<rparr>" by (simp add: deleteVersionTx_def)
      moreover have "bk_get B b1 (objectMetaKey b key) \<noteq> None" using Some by simp
      ultimately show ?thesis using c1 by auto
    next
      case True
      from d b1 Some i True obtain r where r: "findNextNewestVersion B b1 b key v = Inr r"
        by (auto simp: deleteVersionTx_def bindE_Inr_iff)
      show ?thesis
      proof (cases r)
        case None
        with d b1 Some i True r obtain b2 where b2: "bk_delete B b1 (objectMetaKey b key) = Inr b2"
          and a: "adjustObjectCount B (tx\<lparr>dbObjects := b2\<rparr>) (- 1) = Inr tx'"
          by (auto simp: deleteVersionTx_def bindE_Inr_iff)
        from adjust_frame [OF a] get_delete [OF b2] have "bk_get B (dbObjects tx') (objectMetaKey b key) = None" by simp
        moreover have "0 < n" using p Some g1 by simp
        ultimately show ?thesis using adjust_count [OF c1 a, of "n - 1"] Some g1 by (simp add: of_nat_diff)
      next
        case (Some x)
        let ?x = "x\<lparr>oiIsLatest := True\<rparr>"
        from d have "bindE (bk_put B b1 (objectMetaKey b key) (marshal_obj ?x)) (\<lambda>b'.
            bindE (if oiVersionID ?x \<noteq> [] then bk_put B b' (objectMetaKeyVersion b key (oiVersionID ?x)) (marshal_obj ?x) else Inr b')
              (\<lambda>b'. Inr (tx\<lparr>dbObjects := b'\<rparr>))) = Inr tx'"
          by (simp only: deleteVersionTx_def b1 \<open>bk_get B b1 (objectMetaKey b key) = Some l\<close> i r True Some
              bindE_simps option.case Let_def simp_thms if_True)
        then obtain b2 b3 where b2: "bk_put B b1 (objectMetaKey b key) (marshal_obj ?x) = Inr b2"
          and b3: "(if oiVersionID ?x \<noteq> [] then bk_put B b2 (objectMetaKeyVersion b key (oiVersionID ?x)) (marshal_obj ?x) else Inr b2) = Inr b3"
          and t: "tx' = tx\<lparr>dbObjects := b3\<rparr>"
          unfolding bindE_Inr_iff by blast
        have "bk_get B b3 (objectMetaKey b key) \<noteq> None"
          using get_put [OF b2] b3 k by (auto simp: get_put key_simps split: if_splits)
        with t c1 show ?thesis by auto
      qed
    qed
  qed
qed

lemma delete_key_stats:
  assumes d: "deleteKeyTx B b key tx = Inr tx'" and c: "count_is B tx n"
    and p: "bk_get B (dbObjects tx) (objectMetaKey b key) \<noteq> None \<Longrightarrow> 0 < n"
  shows "count_is B tx' (if bk_get B (dbObjects tx) (objectMetaKey b key) \<noteq> None then n - 1 else n)"
proof -
  from d obtain t1 b2 where
    t1: "(if bk_get B (dbObjects tx) (objectMetaKey b key) \<noteq> None then
             bindE (bk_delete B (dbObjects tx) (objectMetaKey b key)) (\<lambda>b.
             adjustObjectCount B (tx\<lparr>dbObjects := b\<rparr>) (- 1))
           else Inr tx) = Inr t1"
    and t: "tx' = t1\<lparr>dbObjects := b2\<rparr>"
    unfolding deleteKeyTx_def bindE_Inr_iff by blast
  show ?thesis
  proof (cases "bk_get B (dbObjects tx) (objectMetaKey b key)")
    case None
    with t1 t c show ?thesis by (simp add: count_is_objects)
  next
    case (Some x)
    with t1 obtain b1 where a: "adjustObjectCount B (tx\<lparr>dbObjects := b1\<rparr>) (- 1) = Inr t1"
      by (auto simp: bindE_Inr_iff)
    have "count_is B (tx\<lparr>dbObjects := b1\<rparr>) n" using c by (simp add: count_is_objects)
    from adjust_count [OF this a, of "n - 1"] p Some t show ?thesis
      by (simp add: count_is_objects of_nat_diff)
  qed
qed

lemma finite_live_db: "finite (live b (bk_get B db))"
  by (rule finite_live) (rule finite_dom)

lemma live_pos: "nul \<notin> set key \<Longrightarrow> bk_get B db (objectMetaKey b key) \<noteq> None \<Longrightarrow> 0 < card (live b (bk_get B db))"
  using finite_live_db by (auto simp: card_gt_0_iff live_def)

lemma card_live_upd:
  assumes u: "upd_key b key (bk_get B db) (bk_get B db') c h" and s: "shape_ok b (bk_get B db)" and n: "nul \<notin> set key"
  shows "card (live b (bk_get B db')) =
    (if c = None then (if cur_of (bk_get B db) b key = None then card (live b (bk_get B db))
                       else card (live b (bk_get B db)) - 1)
     else if cur_of (bk_get B db) b key = None then card (live b (bk_get B db)) + 1
     else card (live b (bk_get B db)))"
proof -
  have "key \<in> live b (bk_get B db) \<longleftrightarrow> cur_of (bk_get B db) b key \<noteq> None" using s n by (simp add: live_cur)
  with upd_live [OF u s n] finite_live_db [of b db] show ?thesis
    by (auto simp: card_Diff_singleton_if insert_absorb)
qed

lemma scan_count: "scanObjectCount B tx b = card (live b (bk_get B (dbObjects tx)))"
proof -
  let ?m = "bk_get B (dbObjects tx)"
  let ?P = "\<lambda>e. \<not> HasByte (drop (length (b @ [nul])) (fst e)) nul"
  let ?es = "filter ?P (cur_prefix B (dbObjects tx) (b @ [nul]))"
  have "distinct (map fst ?es)"
    using prefix_distinct by (rule distinct_map_filter)
  then have "length ?es = card (set (map fst ?es))"
    using distinct_card by fastforce
  also have "set (map fst ?es) = objectMetaKey b ` live b ?m"
  proof (intro set_eqI iffI)
    fix k assume "k \<in> set (map fst ?es)"
    then obtain v where "(k, v) \<in> set (cur_prefix B (dbObjects tx) (b @ [nul]))"
      and n: "\<not> HasByte (drop (length (b @ [nul])) k) nul" by auto
    then have p: "prefix (b @ [nul]) k" and g: "?m k = Some v" by (auto simp: prefix_iff)
    then obtain key where "k = objectMetaKey b key" by (auto simp: prefix_def objectMetaKey_def)
    with n g show "k \<in> objectMetaKey b ` live b ?m" by (auto simp: HasByte_def live_def objectMetaKey_def)
  next
    fix k assume "k \<in> objectMetaKey b ` live b ?m"
    then obtain key v where k: "k = objectMetaKey b key" "nul \<notin> set key" and g: "?m k = Some v"
      by (auto simp: live_def)
    then have "(k, v) \<in> set (cur_prefix B (dbObjects tx) (b @ [nul]))"
      by (auto simp: prefix_iff objectMetaKey_def)
    moreover have "?P (k, v)" using k by (simp add: objectMetaKey_def HasByte_def)
    ultimately show "k \<in> set (map fst ?es)" by force
  qed
  also have "card \<dots> = card (live b ?m)"
    by (rule card_image) (auto simp: inj_on_def key_simps)
  finally show ?thesis unfolding scanObjectCount_def Let_def .
qed

end

end
