(* ===== verification/Object_Props.thy ===== *)
theory Object_Props
  imports Object_Refine
begin

text \<open>
  The properties of the object transactions: what each of them does to the
  current record and the history of a key, that no other key changes, that the
  records stay well-formed and the stored count exact, that reads return what
  the abstraction holds, and that the operations succeed when the database does.
\<close>

definition db_wf :: "'b bolt \<Rightarrow> string \<Rightarrow> 'b bdb \<Rightarrow> bool" where
  "db_wf B b tx \<longleftrightarrow> store_wf b (bk_get B (dbObjects tx)) \<and> count_wf B b tx"

abbreviation cur_db :: "'b bolt \<Rightarrow> 'b bdb \<Rightarrow> string \<Rightarrow> string \<Rightarrow> ObjectInfo option" where
  "cur_db B tx b key \<equiv> cur_of (bk_get B (dbObjects tx)) b key"

abbreviation hist_db :: "'b bolt \<Rightarrow> 'b bdb \<Rightarrow> string \<Rightarrow> string \<Rightarrow> history" where
  "hist_db B tx b key \<equiv> hist_of (bk_get B (dbObjects tx)) b key"

text \<open>No key but one changes.\<close>

definition others_same :: "'b bolt \<Rightarrow> 'b bdb \<Rightarrow> 'b bdb \<Rightarrow> string \<Rightarrow> string \<Rightarrow> bool" where
  "others_same B tx tx' b key \<longleftrightarrow> (\<forall>k. nul \<in> set k \<or> k = key \<or>
     (cur_db B tx' b k = cur_db B tx b k \<and> hist_db B tx' b k = hist_db B tx b k))"

lemma upd_others: "upd_key b key (bk_get B (dbObjects tx)) (bk_get B (dbObjects tx')) c h \<Longrightarrow>
   others_same B tx tx' b key"
  by (auto simp: others_same_def upd_key_def)

context bolt_laws
begin

lemma put_db:
  assumes p: "putObjectMetaTx B r info tx = Inr tx'" and wf: "db_wf B b tx"
    and o: "rec_ok b key info" and n: "nul \<notin> set key"
  shows "db_wf B b tx' \<and> others_same B tx tx' b key \<and>
     (cur_db B tx' b key, hist_db B tx' b key) = spec_put info (cur_db B tx b key, hist_db B tx b key)"
proof -
  let ?s = "spec_put info (cur_db B tx b key, hist_db B tx b key)"
  have w: "store_wf b (bk_get B (dbObjects tx))" and c: "count_is B tx (card (live b (bk_get B (dbObjects tx))))"
    using wf by (auto simp: db_wf_def count_wf_def)
  have s: "shape_ok b (bk_get B (dbObjects tx))" and k: "key_wf b key (cur_db B tx b key) (hist_db B tx b key)"
    using w n by (auto simp: store_wf_def)
  have u: "upd_key b key (bk_get B (dbObjects tx)) (bk_get B (dbObjects tx')) (fst ?s) (snd ?s)"
    using put_upd [OF p w o n] .
  have bk: "oiBucket info = b" "oiKey info = key" using o by (auto simp: rec_ok_def)
  have "count_wf B b tx'" using put_stats [OF p c]
    unfolding count_wf_def card_live_upd [OF u s n] bk cur_of_None [OF s, symmetric] by (simp add: spec_put_simps)
  with upd_store_wf [OF u w key_wf_put [OF k o]] upd_others [OF u] upd_key_at [OF u n]
  show ?thesis by (simp add: db_wf_def)
qed

lemma raw_db:
  assumes p: "putObjectMetaRawTx B info tx = Inr tx'" and wf: "db_wf B b tx"
    and o: "rec_ok b key info" and n: "nul \<notin> set key"
    and kw: "key_wf b key (fst (spec_raw info (cur_db B tx b key, hist_db B tx b key)))
       (snd (spec_raw info (cur_db B tx b key, hist_db B tx b key)))"
  shows "db_wf B b tx' \<and> others_same B tx tx' b key \<and>
     (cur_db B tx' b key, hist_db B tx' b key) = spec_raw info (cur_db B tx b key, hist_db B tx b key)"
proof -
  let ?s = "spec_raw info (cur_db B tx b key, hist_db B tx b key)"
  have w: "store_wf b (bk_get B (dbObjects tx))" and c: "count_is B tx (card (live b (bk_get B (dbObjects tx))))"
    using wf by (auto simp: db_wf_def count_wf_def)
  have s: "shape_ok b (bk_get B (dbObjects tx))" using w by (auto simp: store_wf_def)
  have u: "upd_key b key (bk_get B (dbObjects tx)) (bk_get B (dbObjects tx')) (fst ?s) (snd ?s)"
    using raw_upd [OF p s o n] .
  have bk: "oiBucket info = b" "oiKey info = key" using o by (auto simp: rec_ok_def)
  have "count_wf B b tx'" using raw_stats [OF p c] n
    unfolding count_wf_def card_live_upd [OF u s n] bk cur_of_None [OF s, symmetric]
    by (cases "oiIsLatest info"; cases "cur_db B tx b key") (simp_all add: spec_raw_def)
  with upd_store_wf [OF u w kw] upd_others [OF u] upd_key_at [OF u n]
  show ?thesis by (simp add: db_wf_def)
qed

lemma mark_db: "markReplication B r tx k = Inr t1 \<Longrightarrow> db_wf B b t1 = db_wf B b tx"
  using mark_frame [of B r tx k t1] mark_count [of r tx k t1]
  by (simp add: db_wf_def count_wf_def)

lemma delete_version_db:
  assumes d: "deleteObjectMetaTx B r b key v tx = Inr tx'" and wf: "db_wf B b tx"
    and n: "nul \<notin> set key" and v: "v \<noteq> []"
  shows "db_wf B b tx' \<and> others_same B tx tx' b key \<and>
     spec_delete_version v (cur_db B tx b key, hist_db B tx b key) (cur_db B tx' b key, hist_db B tx' b key)"
proof -
  from d v obtain t1 where m: "markReplication B r tx key = Inr t1" and d1: "deleteVersionTx B b key v t1 = Inr tx'"
    by (auto simp: deleteObjectMetaTx_def bindE_Inr_iff)
  have e: "dbObjects t1 = dbObjects tx" using mark_frame [OF m] by simp
  have w: "store_wf b (bk_get B (dbObjects t1))" and c: "count_is B t1 (card (live b (bk_get B (dbObjects t1))))"
    using wf mark_db [OF m] by (auto simp: db_wf_def count_wf_def)
  have s: "shape_ok b (bk_get B (dbObjects t1))" and k: "key_wf b key (cur_db B t1 b key) (hist_db B t1 b key)"
    using w n by (auto simp: store_wf_def)
  obtain c' h' where sp: "spec_delete_version v (cur_db B t1 b key, hist_db B t1 b key) (c', h')"
    and u: "upd_key b key (bk_get B (dbObjects t1)) (bk_get B (dbObjects tx')) c' h'"
    using delete_version_upd [OF d1 w n v] by blast
  have s': "shape_ok b (bk_get B (dbObjects tx'))" using u by (simp add: upd_key_def)
  have a: "cur_db B tx' b key = c'" "hist_db B tx' b key = h'" using upd_key_at [OF u n] by auto
  have nc: "cur_db B t1 b key = None \<Longrightarrow> c' = None"
    using sp by (auto simp: spec_delete_version_def)
  have "count_is B tx' (if bk_get B (dbObjects t1) (objectMetaKey b key) \<noteq> None
       \<and> bk_get B (dbObjects tx') (objectMetaKey b key) = None
     then card (live b (bk_get B (dbObjects t1))) - 1 else card (live b (bk_get B (dbObjects t1))))"
    by (rule delete_version_stats [OF d1 c n]) (rule live_pos [OF n])
  then have "count_wf B b tx'"
    unfolding count_wf_def card_live_upd [OF u s n] cur_of_None [OF s, symmetric] cur_of_None [OF s', symmetric] a
    using nc by (cases c'; cases "cur_db B t1 b key") simp_all
  with upd_store_wf [OF u w key_wf_delete_version [OF k sp v]] upd_others [OF u] a sp e
  show ?thesis by (auto simp: db_wf_def others_same_def)
qed

lemma delete_key_db:
  assumes d: "deleteObjectMetaTx B r b key [] tx = Inr tx'" and wf: "db_wf B b tx" and n: "nul \<notin> set key"
  shows "db_wf B b tx' \<and> others_same B tx tx' b key \<and> cur_db B tx' b key = None \<and> hist_db B tx' b key = Map.empty"
proof -
  from d obtain t1 where m: "markReplication B r tx key = Inr t1" and d1: "deleteKeyTx B b key t1 = Inr tx'"
    by (auto simp: deleteObjectMetaTx_def bindE_Inr_iff)
  have e: "dbObjects t1 = dbObjects tx" using mark_frame [OF m] by simp
  have w: "store_wf b (bk_get B (dbObjects t1))" and c: "count_is B t1 (card (live b (bk_get B (dbObjects t1))))"
    using wf mark_db [OF m] by (auto simp: db_wf_def count_wf_def)
  have s: "shape_ok b (bk_get B (dbObjects t1))" using w by (auto simp: store_wf_def)
  have u: "upd_key b key (bk_get B (dbObjects t1)) (bk_get B (dbObjects tx')) None Map.empty"
    using delete_key_upd [OF d1 s n] .
  have "count_is B tx' (if bk_get B (dbObjects t1) (objectMetaKey b key) \<noteq> None
     then card (live b (bk_get B (dbObjects t1))) - 1 else card (live b (bk_get B (dbObjects t1))))"
    by (rule delete_key_stats [OF d1 c]) (rule live_pos [OF n])
  then have "count_wf B b tx'"
    using card_live_upd [OF u s n] cur_of_None [OF s] by (auto simp: count_wf_def split: if_splits)
  moreover have "key_wf b key None Map.empty" by (simp add: key_wf_def)
  ultimately show ?thesis using upd_store_wf [OF u w] upd_others [OF u] upd_key_at [OF u n] e
    by (auto simp: db_wf_def others_same_def)
qed

lemma count_db:
  assumes c: "countObjectMetasTx B tx b = Inr (n, tx')" and wf: "db_wf B b tx"
    and lt: "card (live b (bk_get B (dbObjects tx))) < 2 ^ 63"
  shows "n = int (card (live b (bk_get B (dbObjects tx)))) \<and> db_wf B b tx' \<and> dbObjects tx' = dbObjects tx"
proof -
  let ?c = "card (live b (bk_get B (dbObjects tx)))"
  have ci: "count_is B tx ?c" using wf by (simp add: db_wf_def count_wf_def)
  show ?thesis
  proof (cases "stats_val B tx")
    case (Some v)
    with ci have "v = VBytes (PutUint64 (int ?c))" by (auto simp: count_is_def)
    with Some lt have "countObjectMetasTx B tx b = Inr (int ?c, tx)"
      by (auto simp: countObjectMetasTx_def stats_val_def Uint64_PutUint64 int64_id split: option.splits)
    with c wf show ?thesis by (metis Inr_inject prod.inject)
  next
    case None
    then have e: "countObjectMetasTx B tx b = bindE (setObjectCount B tx (int ?c)) (\<lambda>tx. Inr (int ?c, tx))"
      by (auto simp: countObjectMetasTx_def stats_val_def scan_count Let_def split: option.splits)
    from c obtain t where t: "setObjectCount B tx (int ?c) = Inr t" "n = int ?c" "tx' = t"
      unfolding e bindE_Inr_iff by blast
    have o: "dbObjects t = dbObjects tx" using setcount_frame [OF t(1)] by simp
    have "count_is B t ?c" using set_count_val [OF t(1)] lt by (simp add: count_is_def)
    with wf o have "db_wf B b t" by (simp add: db_wf_def count_wf_def)
    with t o show ?thesis by simp
  qed
qed

subsection \<open>Reads\<close>

lemma get_db:
  assumes wf: "store_wf b (bk_get B (dbObjects tx))" and n: "nul \<notin> set key"
  shows "getObjectMetaTx B tx b key v =
    (case (if v = [] then cur_db B tx b key
           else case hist_db B tx b key v of
               Some i \<Rightarrow> Some i
             | None \<Rightarrow> if v = ''null'' \<and> (\<exists>c. cur_db B tx b key = Some c \<and> oiVersionID c = [])
                       then cur_db B tx b key else None) of
       None \<Rightarrow> Inl ErrObjectMetaNotFound
     | Some i \<Rightarrow> Inr i)"
proof -
  let ?m = "bk_get B (dbObjects tx)"
  have s: "shape_ok b ?m" using wf by (simp add: store_wf_def)
  have P: "?m (objectMetaKey b key) = map_option VObj (cur_db B tx b key)"
    using cur_of_None [OF s, of key] cur_of_Some [of ?m b key] by (cases "cur_db B tx b key") auto
  have V: "?m (objectMetaKeyVersion b key v) = map_option VObj (hist_db B tx b key v)"
    using hist_of_None [OF s, of key v] hist_of_Some [of ?m b key v] by (cases "hist_db B tx b key v") auto
  show ?thesis
    by (cases "v = []"; cases "cur_db B tx b key"; cases "hist_db B tx b key v")
       (auto simp: getObjectMetaTx_def P V)
qed

lemma unmarshal_all_objs: "unmarshal_all (map VObj is) = Inr is"
  by (induction "is") auto

lemma objs_list: "\<forall>v\<in>set vs. \<exists>i. v = VObj i \<Longrightarrow> \<exists>is. vs = map VObj is"
  by (induction vs) (auto, metis list.simps(9))

lemma dedup_set:
  "(\<forall>x\<in>set is. \<forall>y\<in>set is. oiVersionID x = oiVersionID y \<longrightarrow> x = y) \<Longrightarrow>
   set (dedup_versions seen is) = {x \<in> set is. oiVersionID x \<notin> set seen} \<and>
   distinct (map oiVersionID (dedup_versions seen is))"
proof (induction "is" arbitrary: seen)
  case Nil
  then show ?case by simp
next
  case (Cons i "is")
  then have IH: "\<And>seen. set (dedup_versions seen is) = {x \<in> set is. oiVersionID x \<notin> set seen} \<and>
      distinct (map oiVersionID (dedup_versions seen is))" by simp
  show ?case
  proof (cases "oiVersionID i \<in> set seen")
    case True
    with IH [of seen] show ?thesis by auto
  next
    case False
    with IH [of "oiVersionID i # seen"] Cons.prems show ?thesis by auto
  qed
qed

lemma versions_db:
  assumes wf: "store_wf b (bk_get B (dbObjects tx))" and n: "nul \<notin> set key"
  shows "\<exists>is. getObjectVersionsTx B tx b key = Inr is \<and> distinct (map oiVersionID is) \<and>
     set is = set_option (cur_db B tx b key) \<union> ran (hist_db B tx b key) \<and>
     (\<forall>c. cur_db B tx b key = Some c \<longrightarrow> is \<noteq> [] \<and> hd is = c)"
proof -
  let ?m = "bk_get B (dbObjects tx)" and ?c = "cur_db B tx b key" and ?h = "hist_db B tx b key"
  have s: "shape_ok b ?m" and k: "key_wf b key ?c ?h" using wf n by (auto simp: store_wf_def)
  let ?es = "cur_prefix B (dbObjects tx) (objectMetaKeyVersion b key [])"
  have "\<forall>v\<in>set (map snd ?es). \<exists>i. v = VObj i" using vers_entries_obj [OF s] by auto
  then obtain vs where vs: "map snd ?es = map VObj vs" using objs_list by blast
  have "i \<in> set vs \<longleftrightarrow> VObj i \<in> set (map snd ?es)" for i using vs by auto
  also have "\<dots> i \<longleftrightarrow> (\<exists>kk. (kk, VObj i) \<in> set ?es)" for i by (force simp: image_iff)
  also have "\<dots> i \<longleftrightarrow> i \<in> ran ?h" for i unfolding vers_entries [OF s n] by (auto simp: ran_def)
  finally have sv: "set vs = ran ?h" by blast
  let ?l = "(case ?c of None \<Rightarrow> [] | Some c \<Rightarrow> [c]) @ vs"
  have "bk_get B (dbObjects tx) (objectMetaKey b key) = map_option VObj ?c"
    using cur_of_None [OF s, of key] cur_of_Some [of ?m b key] by (cases ?c) auto
  then have g: "getObjectVersionsTx B tx b key = Inr (dedup_versions [] ?l)"
    using unmarshal_all_objs [of ?l] vs by (cases ?c) (simp_all add: getObjectVersionsTx_def)
  have H: "?h v = Some i \<Longrightarrow> oiVersionID i = v" for v i using key_wf_hist [OF k] by blast
  have C: "?c = Some c \<Longrightarrow> (if oiVersionID c = [] then ?h = Map.empty else ?h (oiVersionID c) = Some c)" for c
    using key_wf_cur [OF k] by blast
  have ls: "set ?l = set_option ?c \<union> ran ?h" using sv by (cases ?c) auto
  have "\<forall>x\<in>set ?l. \<forall>y\<in>set ?l. oiVersionID x = oiVersionID y \<longrightarrow> x = y"
  proof (intro ballI impI)
    fix x y assume "x \<in> set ?l" "y \<in> set ?l" "oiVersionID x = oiVersionID y"
    moreover have "(oiVersionID z = [] \<and> ?c = Some z \<and> ?h = Map.empty) \<or> ?h (oiVersionID z) = Some z"
      if z: "z \<in> set ?l" for z
    proof -
      from z ls consider "?c = Some z" | v where "?h v = Some z" by (auto simp: ran_def)
      then show ?thesis
      proof cases
        case 1
        from C [OF 1] 1 show ?thesis by argo
      next
        case (2 v)
        with H [OF 2] show ?thesis by blast
      qed
    qed
    ultimately show "x = y" by (metis option.distinct(1) option.inject)
  qed
  from dedup_set [OF this, of "[]"] ls g show ?thesis
    by (intro exI [of _ "dedup_versions [] ?l"]) auto
qed

end

subsection \<open>Success\<close>

context bolt_ok
begin

lemma set_count_total: "\<exists>t. setObjectCount B tx n = Inr t"
  using put_total [of objectCountKey "CreateBucketIfNotExists B (dbStats tx)" "VBytes (PutUint64 n)"]
  by (auto simp: setObjectCount_def objectCountKey_def)

lemma adjust_total: "\<exists>t. adjustObjectCount B tx d = Inr t"
proof -
  have "\<exists>t. bindE (bk_delete B sb objectCountKey) (\<lambda>sb. Inr (tx\<lparr>dbStats := Some sb\<rparr>)) = Inr t" for sb
    using delete_total [of sb objectCountKey] by auto
  with set_count_total show ?thesis
    by (simp add: adjustObjectCount_def Let_def split: option.split)
qed

lemma mark_total:
  assumes "key \<noteq> []" "length key \<le> 32768"
    "0 \<le> bk_seq B (CreateBucketIfNotExists B (dbReplication tx))"
    "bk_seq B (CreateBucketIfNotExists B (dbReplication tx)) < 2 ^ 64 - 1"
  shows "\<exists>t. markReplication B r tx key = Inr t"
proof -
  obtain q b where q: "bk_next_seq B (CreateBucketIfNotExists B (dbReplication tx)) = Inr (q, b)"
    using next_seq_ok [OF assms(3,4)] by (auto simp: is_ok_iff)
  obtain b' where "bk_put B b key (VBytes (PutUint64 q)) = Inr b'" using put_total [OF assms(1,2)] by blast
  with q show ?thesis by (cases r) (simp_all add: markReplication_def)
qed

lemma put_db_total:
  assumes wf: "store_wf b (bk_get B (dbObjects tx))" and o: "rec_ok b key info" and n: "nul \<notin> set key"
    and sz: "length b \<le> 63" "key \<noteq> []" "length key \<le> 1024" "length (oiVersionID info) \<le> 1024"
    and osz: "\<And>c. cur_db B tx b key = Some c \<Longrightarrow> length (oiVersionID c) \<le> 1024"
    and seq: "0 \<le> bk_seq B (CreateBucketIfNotExists B (dbReplication tx))"
      "bk_seq B (CreateBucketIfNotExists B (dbReplication tx)) < 2 ^ 64 - 1"
  shows "\<exists>tx'. putObjectMetaTx B r info tx = Inr tx'"
proof -
  let ?i = "info\<lparr>oiIsLatest := True\<rparr>" and ?k = "objectMetaKey b key"
  have bk: "oiBucket info = b" "oiKey info = key" using o by (auto simp: rec_ok_def)
  have sel: "oiBucket ?i = b" "oiKey ?i = key" "oiVersionID ?i = oiVersionID info" using bk by simp_all
  have PV: "\<exists>b'. bk_put B db (objectMetaKeyVersion b key v) x = Inr b'" if "length v \<le> 1024" for db v x
    using that sz by (intro put_total) (auto simp: objectMetaKeyVersion_def)
  have PK: "\<exists>b'. bk_put B db ?k x = Inr b'" for db x
    using sz by (intro put_total) (auto simp: objectMetaKey_def)
  obtain t1 where m: "markReplication B r tx key = Inr t1" using mark_total [OF sz(2) _ seq, of r] sz by auto
  have e: "dbObjects t1 = dbObjects tx" using mark_frame [OF m] by simp
  obtain t2 where a: "(if bk_get B (dbObjects t1) ?k = None then adjustObjectCount B t1 1 else Inr t1) = Inr t2"
    using adjust_total by (metis (full_types))
  have "\<exists>b1. retireOldLatest B ?i (bk_get B (dbObjects t1) ?k) (dbObjects t2) = Inr b1"
  proof (cases "bk_get B (dbObjects tx) ?k")
    case None
    with e show ?thesis by (simp add: retireOldLatest_def)
  next
    case (Some x)
    with wf obtain c where x: "x = VObj c" by (auto simp: store_wf_def dest: shape_okD)
    with Some have c: "cur_db B tx b key = Some c" by (simp add: cur_of_Some)
    have "oiBucket c = b \<and> oiKey c = key"
      using key_wf_cur [OF store_wf_key [OF wf n] c] by (simp add: rec_ok_def)
    with Some e x PV [OF osz [OF c]] show ?thesis by (auto simp: retireOldLatest_def Let_def)
  qed
  then obtain b1 where b1: "retireOldLatest B ?i (bk_get B (dbObjects t1) ?k) (dbObjects t2) = Inr b1" by blast
  obtain b2 where b2: "(if oiVersionID info \<noteq> [] then
             bk_put B b1 (objectMetaKeyVersion b key (oiVersionID info)) (marshal_obj ?i)
           else deleteVersionRecords B b1 b key) = Inr b2"
    unfolding deleteVersionRecords_def using PV [OF sz(4)] delete_keys_total by (metis (full_types))
  obtain b3 where "bk_put B b2 ?k (marshal_obj ?i) = Inr b3" using PK by blast
  with m a b1 b2 show ?thesis
    unfolding putObjectMetaTx_def Let_def bk sel by simp
qed

end

subsection \<open>A sample bucket\<close>

definition ex_obj :: "string \<Rightarrow> string \<Rightarrow> int \<Rightarrow> ObjectInfo" where
  "ex_obj key vid t = \<lparr>oiBucket = ''bkt'', oiKey = key, oiSize = 3, oiETag = ''e'', oiContentType = ''t'',
     oiLastModified = t, oiVersionID = vid, oiIsLatest = False, oiNoncurrentSince = 0,
     oiIsDeleteMarker = False, oiSSECustomerAlgorithm = [], oiSSECustomerKeyMD5 = [],
     oiCompressed = False, oiBlobID = ''id''\<rparr>"

definition ex_db0 :: "alist_bucket bdb" where
  "ex_db0 = \<lparr>dbObjects = (0, []), dbMultipart = (0, []), dbStats = Some (0, [(objectCountKey, VBytes (PutUint64 0))]),
     dbReplication = None\<rparr>"

fun the_ok :: "'e + 'a \<Rightarrow> 'a" where
  "the_ok (Inr x) = x"
| "the_ok (Inl e) = undefined"

text \<open>After two versions of one key.\<close>

definition ex_db1 :: "alist_bucket bdb" where
  "ex_db1 = the_ok (putObjectMetaTx alist_bolt True (ex_obj ''k'' ''v1'' 5) ex_db0)"

definition ex_db2 :: "alist_bucket bdb" where
  "ex_db2 = the_ok (putObjectMetaTx alist_bolt True (ex_obj ''k'' ''v2'' 7) ex_db1)"

lemma ex_rec_ok: "rec_ok ''bkt'' ''k'' (ex_obj ''k'' ''v1'' 5)" "rec_ok ''bkt'' ''k'' (ex_obj ''k'' ''v2'' 7)"
  by code_simp+

lemma ex_key: "nul \<notin> set ''k''" by simp

lemma ex_db0_wf: "db_wf alist_bolt ''bkt'' ex_db0"
proof -
  have e: "bk_get alist_bolt (dbObjects ex_db0) = Map.empty" by (simp add: alist_bolt_def ex_db0_def)
  have "stats_val alist_bolt ex_db0 = Some (VBytes (PutUint64 (int 0)))" by code_simp
  then have "count_is alist_bolt ex_db0 0" by (simp add: count_is_def)
  moreover have "live ''bkt'' Map.empty = {}" by (simp add: live_def)
  ultimately show ?thesis unfolding db_wf_def count_wf_def e by (simp add: store_wf_empty)
qed

lemma ok_the_ok: "is_ok r \<Longrightarrow> r = Inr (the_ok r)"
  by (cases r) auto

lemma ex_put1: "putObjectMetaTx alist_bolt True (ex_obj ''k'' ''v1'' 5) ex_db0 = Inr ex_db1"
  unfolding ex_db1_def by (rule ok_the_ok) code_simp

lemma ex_put2: "putObjectMetaTx alist_bolt True (ex_obj ''k'' ''v2'' 7) ex_db1 = Inr ex_db2"
  unfolding ex_db2_def by (rule ok_the_ok) code_simp

lemma ex_db1_wf: "db_wf alist_bolt ''bkt'' ex_db1"
  using al.put_db [OF ex_put1 ex_db0_wf ex_rec_ok(1) ex_key] by simp

lemma ex_db2_wf: "db_wf alist_bolt ''bkt'' ex_db2"
  using al.put_db [OF ex_put2 ex_db1_wf ex_rec_ok(2) ex_key] by simp

lemma db_wf_store: "db_wf B b tx \<Longrightarrow> store_wf b (bk_get B (dbObjects tx))"
  by (simp add: db_wf_def)

subsection \<open>Properties\<close>

text \<open>C4: PutObjectMeta. When the transaction commits, the written record is the
  current one of its key and is marked latest; a versioned write files it in the
  history and turns the record it replaces into a noncurrent version stamped with the
  time of the write, an unversioned write drops the history; no other key
  changes, every record stays well-formed and the stored object count stays equal to
  the number of current records.\<close>

theorem put_object_meta_correct:
  assumes "bolt_laws B" and "db_wf B b tx" and "rec_ok b key info" and "nul \<notin> set key"
    and "putObjectMetaTx B replication info tx = Inr tx'"
  shows "db_wf B b tx' \<and> others_same B tx tx' b key \<and>
    (cur_db B tx' b key, hist_db B tx' b key) = spec_put info (cur_db B tx b key, hist_db B tx b key)"
  using bolt_laws.put_db [OF assms(1,5,2,3,4)] .

theorem put_object_meta_correct_witness:
  "db_wf alist_bolt ''bkt'' ex_db2 \<and> others_same alist_bolt ex_db1 ex_db2 ''bkt'' ''k'' \<and>
   (cur_db alist_bolt ex_db2 ''bkt'' ''k'', hist_db alist_bolt ex_db2 ''bkt'' ''k'') =
     spec_put (ex_obj ''k'' ''v2'' 7) (cur_db alist_bolt ex_db1 ''bkt'' ''k'', hist_db alist_bolt ex_db1 ''bkt'' ''k'')"
  by (rule put_object_meta_correct [OF alist_laws ex_db1_wf ex_rec_ok(2) ex_key ex_put2])

text \<open>C5: DeleteObjectMeta of one version. The version leaves the history; when it
  was the current one, the newest remaining version by last-modified time becomes
  current and latest, and with no version left the key has no current record. No
  other key changes, and records and count stay well-formed.\<close>

theorem delete_version_correct:
  assumes "bolt_laws B" and "db_wf B b tx" and "nul \<notin> set key" and "v \<noteq> []"
    and "deleteObjectMetaTx B replication b key v tx = Inr tx'"
  shows "db_wf B b tx' \<and> others_same B tx tx' b key \<and>
    spec_delete_version v (cur_db B tx b key, hist_db B tx b key) (cur_db B tx' b key, hist_db B tx' b key)"
  using bolt_laws.delete_version_db [OF assms(1,5,2,3,4)] .

definition ex_db3 :: "alist_bucket bdb" where
  "ex_db3 = the_ok (deleteObjectMetaTx alist_bolt True ''bkt'' ''k'' ''v2'' ex_db2)"

lemma ex_del: "deleteObjectMetaTx alist_bolt True ''bkt'' ''k'' ''v2'' ex_db2 = Inr ex_db3"
  unfolding ex_db3_def by (rule ok_the_ok) code_simp

theorem delete_version_correct_witness:
  "db_wf alist_bolt ''bkt'' ex_db3 \<and> map_option oiVersionID (cur_db alist_bolt ex_db3 ''bkt'' ''k'') = Some ''v1''"
proof
  show "db_wf alist_bolt ''bkt'' ex_db3"
    using delete_version_correct [OF alist_laws ex_db2_wf ex_key _ ex_del] by simp
  show "map_option oiVersionID (cur_db alist_bolt ex_db3 ''bkt'' ''k'') = Some ''v1''"
    by code_simp
qed

text \<open>DeleteObjectMeta without a version ID removes the current record and the
  whole history of the key, and nothing else.\<close>

theorem delete_key_correct:
  assumes "bolt_laws B" and "db_wf B b tx" and "nul \<notin> set key"
    and "deleteObjectMetaTx B replication b key [] tx = Inr tx'"
  shows "db_wf B b tx' \<and> others_same B tx tx' b key \<and> cur_db B tx' b key = None \<and> hist_db B tx' b key = Map.empty"
  using bolt_laws.delete_key_db [OF assms(1,4,2,3)] .

theorem delete_key_correct_witness:
  "\<exists>tx'. deleteObjectMetaTx alist_bolt True ''bkt'' ''k'' [] ex_db2 = Inr tx' \<and> db_wf alist_bolt ''bkt'' tx' \<and>
     cur_db alist_bolt ex_db2 ''bkt'' ''k'' \<noteq> None \<and> cur_db alist_bolt tx' ''bkt'' ''k'' = None"
proof -
  have "is_ok (deleteObjectMetaTx alist_bolt True ''bkt'' ''k'' [] ex_db2)" by code_simp
  then obtain tx' where d: "deleteObjectMetaTx alist_bolt True ''bkt'' ''k'' [] ex_db2 = Inr tx'"
    by (auto simp: is_ok_iff)
  have "cur_db alist_bolt ex_db2 ''bkt'' ''k'' \<noteq> None" by code_simp
  with d delete_key_correct [OF alist_laws ex_db2_wf ex_key d] show ?thesis by auto
qed

text \<open>CountObjectMetas returns the number of keys with a current record,
  from the stored count or by the scan when none is stored, and changes no record.\<close>

theorem count_object_metas_exact:
  assumes "bolt_laws B" and "db_wf B b tx" and "card (live b (bk_get B (dbObjects tx))) < 2 ^ 63"
    and "countObjectMetasTx B tx b = Inr (n, tx')"
  shows "n = int (card (live b (bk_get B (dbObjects tx)))) \<and> db_wf B b tx' \<and> dbObjects tx' = dbObjects tx"
  using bolt_laws.count_db [OF assms(1,4,2,3)] .

theorem count_object_metas_exact_witness:
  "1 = int (card (live ''bkt'' (bk_get alist_bolt (dbObjects ex_db2))))"
proof -
  have l: "live ''bkt'' (bk_get alist_bolt (dbObjects ex_db2)) = {''k''}"
  proof -
    have s: "shape_ok ''bkt'' (bk_get alist_bolt (dbObjects db))" if "db_wf alist_bolt ''bkt'' db" for db
      using that by (simp add: db_wf_def store_wf_def)
    have z: "live ''bkt'' (bk_get alist_bolt (dbObjects ex_db0)) = {}"
      by (simp add: live_def alist_bolt_def ex_db0_def)
    have "live ''bkt'' (bk_get alist_bolt (dbObjects ex_db1)) = {''k''}"
      using upd_live [OF al.put_upd [OF ex_put1 db_wf_store [OF ex_db0_wf] ex_rec_ok(1) ex_key]
          s [OF ex_db0_wf] ex_key] z by (simp add: spec_put_simps)
    with upd_live [OF al.put_upd [OF ex_put2 db_wf_store [OF ex_db1_wf] ex_rec_ok(2) ex_key]
        s [OF ex_db1_wf] ex_key] show ?thesis by (simp add: spec_put_simps)
  qed
  have "fst (the_ok (countObjectMetasTx alist_bolt ex_db2 ''bkt'')) = 1"
    "is_ok (countObjectMetasTx alist_bolt ex_db2 ''bkt'')" by code_simp+
  then obtain t where "countObjectMetasTx alist_bolt ex_db2 ''bkt'' = Inr (1, t)"
    by (cases "countObjectMetasTx alist_bolt ex_db2 ''bkt''") auto
  from count_object_metas_exact [OF alist_laws ex_db2_wf _ this] l show ?thesis by simp
qed

text \<open>GetObjectMeta returns the current record for an empty version ID, the
  record of that version otherwise, and for the version null also an unversioned
  current record; in every other case it reports that the object is not found.\<close>

theorem get_object_meta_correct:
  assumes "bolt_laws B" and "db_wf B b tx" and "nul \<notin> set key"
  shows "getObjectMetaTx B tx b key v =
    (case (if v = [] then cur_db B tx b key
           else case hist_db B tx b key v of
               Some i \<Rightarrow> Some i
             | None \<Rightarrow> if v = ''null'' \<and> (\<exists>c. cur_db B tx b key = Some c \<and> oiVersionID c = [])
                       then cur_db B tx b key else None) of
       None \<Rightarrow> Inl ErrObjectMetaNotFound
     | Some i \<Rightarrow> Inr i)"
  using bolt_laws.get_db [OF assms(1) db_wf_store [OF assms(2)] assms(3)] .

theorem get_object_meta_correct_witness:
  "getObjectMetaTx alist_bolt ex_db2 ''bkt'' ''k'' ''v1'' =
     Inr ((ex_obj ''k'' ''v1'' 5)\<lparr>oiIsLatest := False, oiNoncurrentSince := 7\<rparr>)"
proof -
  have "hist_db alist_bolt ex_db2 ''bkt'' ''k'' ''v1'' =
      Some ((ex_obj ''k'' ''v1'' 5)\<lparr>oiIsLatest := False, oiNoncurrentSince := 7\<rparr>)" by code_simp
  with get_object_meta_correct [OF alist_laws ex_db2_wf ex_key, of "''v1''"] show ?thesis by simp
qed

text \<open>GetObjectVersions lists the current record and every version of a key
  exactly once, the current record first.\<close>

theorem object_versions_complete:
  assumes "bolt_laws B" and "db_wf B b tx" and "nul \<notin> set key"
  shows "\<exists>is. getObjectVersionsTx B tx b key = Inr is \<and> distinct (map oiVersionID is) \<and>
     set is = set_option (cur_db B tx b key) \<union> ran (hist_db B tx b key) \<and>
     (\<forall>c. cur_db B tx b key = Some c \<longrightarrow> is \<noteq> [] \<and> hd is = c)"
  using bolt_laws.versions_db [OF assms(1) db_wf_store [OF assms(2)] assms(3)] .

theorem object_versions_complete_witness:
  "\<exists>is. getObjectVersionsTx alist_bolt ex_db2 ''bkt'' ''k'' = Inr is \<and> distinct (map oiVersionID is) \<and>
     oiVersionID (hd is) = ''v2''"
proof -
  have c: "map_option oiVersionID (cur_db alist_bolt ex_db2 ''bkt'' ''k'') = Some ''v2''" by code_simp
  with object_versions_complete [OF alist_laws ex_db2_wf ex_key] show ?thesis by fastforce
qed

text \<open>PutObjectMeta succeeds on every well-formed database for a bucket name,
  a key and version IDs of the sizes the code allows, whenever the database's own
  documented conditions hold.\<close>

theorem put_object_meta_succeeds:
  assumes "bolt_ok B" and "db_wf B b tx" and "rec_ok b key info" and "nul \<notin> set key"
    and "length b \<le> 63" and "key \<noteq> []" and "length key \<le> 1024" and "length (oiVersionID info) \<le> 1024"
    and "\<And>c. cur_db B tx b key = Some c \<Longrightarrow> length (oiVersionID c) \<le> 1024"
    and "0 \<le> bk_seq B (CreateBucketIfNotExists B (dbReplication tx))"
    and "bk_seq B (CreateBucketIfNotExists B (dbReplication tx)) < 2 ^ 64 - 1"
  shows "\<exists>tx'. putObjectMetaTx B replication info tx = Inr tx'"
  using bolt_ok.put_db_total [OF assms(1) db_wf_store [OF assms(2)] assms(3-11)] .

theorem put_object_meta_succeeds_witness:
  "\<exists>tx'. putObjectMetaTx alist_bolt True (ex_obj ''k'' ''v2'' 7) ex_db1 = Inr tx'"
proof -
  have c: "map_option (\<lambda>c. length (oiVersionID c)) (cur_db alist_bolt ex_db1 ''bkt'' ''k'') = Some 2" by code_simp
  have q: "bk_seq alist_bolt (CreateBucketIfNotExists alist_bolt (dbReplication ex_db1)) = 1" by code_simp
  have l: "length (oiVersionID (ex_obj ''k'' ''v2'' 7)) = 2" by code_simp
  show ?thesis
    by (rule put_object_meta_succeeds [OF alist_ok ex_db1_wf ex_rec_ok(2) ex_key])
       (use c q l in auto)
qed

end
