(* ===== verification/Bucket_Registry.thy ===== *)
theory Bucket_Registry
  imports Object_Meta "HOL-Library.AList"
begin

text \<open>
  The metadata store of internal/storage/metadata.go: the registry of buckets
  in the central database, the per-bucket databases, the cache of bucket
  configurations with its generation guard, and every operation on them, as
  functions of one store value. An operation that can change the store and
  then fail returns the result beside the store it leaves.

  A handle of a per-bucket database adds reference counts and eviction, which decide only
  when a file is closed; here the list of open handles, least recently used first, records
  which databases are already initialised.
\<close>

record 'b mstore =
  msReplication :: bool
  msRegistry :: 'b
  msDbs :: "string \<Rightarrow> 'b bdb option"
  msActive :: "string list"
  msCache :: "(string \<times> BucketInfo option) list"
  msCacheGen :: int
  msInMigration :: bool

type_synonym ('a, 'b) mresult = "'a result \<times> 'b mstore"

definition maxOpenBucketDBs :: nat where "maxOpenBucketDBs = 100"
definition maxBucketCacheEntries :: nat where "maxBucketCacheEntries = 1024"

subsection \<open>Opening a bucket's database\<close>

definition emptyDB :: "'b bolt \<Rightarrow> 'b bdb" where
  "emptyDB B = \<lparr>dbObjects = bk_empty B, dbMultipart = bk_empty B, dbStats = None, dbReplication = None\<rparr>"

text \<open>With no transaction in flight every handle is idle, so evictLocked drops the
  least recently used one when the cache is full.\<close>

definition evictIdle :: "string list \<Rightarrow> string list" where
  "evictIdle active = (if length active < maxOpenBucketDBs then active else tl active)"

definition acquireBucketDB :: "'b bolt \<Rightarrow> 'b mstore \<Rightarrow> string \<Rightarrow> ('b bdb \<times> 'b mstore) result" where
  "acquireBucketDB B m bucket =
    (if bucket \<in> set (msActive m) \<and> msDbs m bucket \<noteq> None then
       Inr (the (msDbs m bucket), m\<lparr>msActive := filter (\<lambda>n. n \<noteq> bucket) (msActive m) @ [bucket]\<rparr>)
     else if \<not> msInMigration m \<and> bk_get B (msRegistry m) bucket = None then
       Inl (ErrText ''bucket not found in registry'')
     else
       bindE (initObjectCount B (case msDbs m bucket of None \<Rightarrow> emptyDB B | Some db \<Rightarrow> db)) (\<lambda>db.
       Inr (db, m\<lparr>msDbs := (msDbs m)(bucket \<mapsto> db), msActive := evictIdle (msActive m) @ [bucket]\<rparr>)))"

text \<open>db.View and db.Update on a bucket's database: an error rolls back.\<close>

definition viewDB :: "'b bolt \<Rightarrow> 'b mstore \<Rightarrow> string \<Rightarrow> ('b bdb \<Rightarrow> 'a result) \<Rightarrow> ('a, 'b) mresult" where
  "viewDB B m bucket f = (case acquireBucketDB B m bucket of
     Inl e \<Rightarrow> (Inl e, m)
   | Inr (db, m) \<Rightarrow> (f db, m))"

definition updateDB :: "'b bolt \<Rightarrow> 'b mstore \<Rightarrow> string \<Rightarrow> ('b bdb \<Rightarrow> ('a \<times> 'b bdb) result) \<Rightarrow> ('a, 'b) mresult" where
  "updateDB B m bucket f = (case acquireBucketDB B m bucket of
     Inl e \<Rightarrow> (Inl e, m)
   | Inr (db, m) \<Rightarrow> (case f db of
        Inl e \<Rightarrow> (Inl e, m)
      | Inr (a, db') \<Rightarrow> (Inr a, m\<lparr>msDbs := (msDbs m)(bucket \<mapsto> db')\<rparr>)))"

definition updateDB_unit :: "'b bolt \<Rightarrow> 'b mstore \<Rightarrow> string \<Rightarrow> ('b bdb \<Rightarrow> 'b bdb result) \<Rightarrow> (unit, 'b) mresult" where
  "updateDB_unit B m bucket f = updateDB B m bucket (\<lambda>db. bindE (f db) (\<lambda>db. Inr ((), db)))"

subsection \<open>The cache of bucket configurations\<close>

definition bucketCacheGeneration :: "'b mstore \<Rightarrow> int" where
  "bucketCacheGeneration m = msCacheGen m"

definition fillBucketCache :: "'b mstore \<Rightarrow> string \<Rightarrow> BucketInfo result \<Rightarrow> int \<Rightarrow> 'b mstore" where
  "fillBucketCache m name r gen =
    (if msCacheGen m \<noteq> gen then m
     else
       let m = (if length (msCache m) \<ge> maxBucketCacheEntries then m\<lparr>msCache := []\<rparr> else m) in
       case r of
         Inr info \<Rightarrow> m\<lparr>msCache := AList.update name (Some info) (msCache m)\<rparr>
       | Inl e \<Rightarrow> if e = ErrNoSuchBucketRecord then m\<lparr>msCache := AList.update name None (msCache m)\<rparr> else m)"

definition invalidateBucketCache :: "'b mstore \<Rightarrow> string \<Rightarrow> 'b mstore" where
  "invalidateBucketCache m name =
    m\<lparr>msCacheGen := (msCacheGen m + 1) mod 2 ^ 64, msCache := AList.delete name (msCache m)\<rparr>"

subsection \<open>The registry\<close>

definition cachePutBucket :: "'b mstore \<Rightarrow> BucketInfo \<Rightarrow> 'b mstore" where
  "cachePutBucket m info = m\<lparr>msCacheGen := (msCacheGen m + 1) mod 2 ^ 64,
     msCache := AList.update (biName info) (Some info) (msCache m)\<rparr>"

definition PutBucket :: "'b bolt \<Rightarrow> 'b mstore \<Rightarrow> BucketInfo \<Rightarrow> (unit, 'b) mresult" where
  "PutBucket B m info =
    (case bk_put B (msRegistry m) (biName info) (marshal_bkt info) of
       Inl e \<Rightarrow> (Inl e, m)
     | Inr reg \<Rightarrow> (Inr (), cachePutBucket (m\<lparr>msRegistry := reg\<rparr>) info))"

definition GetBucket :: "'b bolt \<Rightarrow> 'b mstore \<Rightarrow> string \<Rightarrow> BucketInfo result" where
  "GetBucket B m name =
    (case bk_get B (msRegistry m) name of
       None \<Rightarrow> Inl ErrNoSuchBucketRecord
     | Some data \<Rightarrow> unmarshal_bkt data)"

definition GetBucketCached :: "'b bolt \<Rightarrow> 'b mstore \<Rightarrow> string \<Rightarrow> (BucketInfo, 'b) mresult" where
  "GetBucketCached B m name =
    (case map_of (msCache m) name of
       Some None \<Rightarrow> (Inl ErrNoSuchBucketRecord, m)
     | Some (Some info) \<Rightarrow> (Inr info, m)
     | None \<Rightarrow>
        (let gen = bucketCacheGeneration m; r = GetBucket B m name in
         (r, fillBucketCache m name r gen)))"

definition BucketExists :: "'b bolt \<Rightarrow> 'b mstore \<Rightarrow> string \<Rightarrow> (bool, 'b) mresult" where
  "BucketExists B m name =
    (case GetBucketCached B m name of
       (Inr _, m) \<Rightarrow> (Inr True, m)
     | (Inl e, m) \<Rightarrow> if e = ErrNoSuchBucketRecord then (Inr False, m) else (Inl e, m))"

text \<open>The transaction of updateBucketInfo, and the operation.\<close>

definition updateBucketInfoTx :: "'b bolt \<Rightarrow> 'b \<Rightarrow> string \<Rightarrow> (BucketInfo \<Rightarrow> BucketInfo) \<Rightarrow> 'b result" where
  "updateBucketInfoTx B reg bucket mutate =
    (case bk_get B reg bucket of
       None \<Rightarrow> Inl ErrNoSuchBucketRecord
     | Some data \<Rightarrow> bindE (unmarshal_bkt data) (\<lambda>info. bk_put B reg bucket (marshal_bkt (mutate info))))"

definition updateBucketInfo ::
  "'b bolt \<Rightarrow> 'b mstore \<Rightarrow> string \<Rightarrow> (BucketInfo \<Rightarrow> BucketInfo) \<Rightarrow> (unit, 'b) mresult" where
  "updateBucketInfo B m bucket mutate =
    (case updateBucketInfoTx B (msRegistry m) bucket mutate of
       Inl e \<Rightarrow> (Inl e, m)
     | Inr reg \<Rightarrow> (Inr (), invalidateBucketCache (m\<lparr>msRegistry := reg\<rparr>) bucket))"

definition closeAndRemoveBucketDB :: "'b mstore \<Rightarrow> string \<Rightarrow> (unit, 'b) mresult" where
  "closeAndRemoveBucketDB m bucket =
    (let m' = m\<lparr>msActive := filter (\<lambda>n. n \<noteq> bucket) (msActive m), msDbs := (msDbs m)(bucket := None)\<rparr> in
     if msDbs m bucket = None then (Inl (ErrText ''remove: file does not exist''), m') else (Inr (), m'))"

definition DeleteBucketMeta :: "'b bolt \<Rightarrow> 'b mstore \<Rightarrow> string \<Rightarrow> (unit, 'b) mresult" where
  "DeleteBucketMeta B m name =
    (case bk_delete B (msRegistry m) name of
       Inl e \<Rightarrow> (Inl e, m)
     | Inr reg \<Rightarrow> closeAndRemoveBucketDB (invalidateBucketCache (m\<lparr>msRegistry := reg\<rparr>) name) name)"

fun unmarshal_bkts :: "(string \<times> dbvalue) list \<Rightarrow> BucketInfo list result" where
  "unmarshal_bkts [] = Inr []"
| "unmarshal_bkts ((k, v) # es) =
    (if HasPrefix k ''_sys_'' then unmarshal_bkts es
     else bindE (unmarshal_bkt v) (\<lambda>i. bindE (unmarshal_bkts es) (\<lambda>is. Inr (i # is))))"

definition ListBucketsMeta :: "'b bolt \<Rightarrow> 'b mstore \<Rightarrow> BucketInfo list result" where
  "ListBucketsMeta B m = unmarshal_bkts (bk_entries B (msRegistry m))"

definition GetSystemValue :: "'b bolt \<Rightarrow> 'b mstore \<Rightarrow> string \<Rightarrow> string" where
  "GetSystemValue B m key =
    (case bk_get B (msRegistry m) (''_sys_'' @ key) of None \<Rightarrow> [] | Some v \<Rightarrow> value_bytes v)"

definition PutSystemValue :: "'b bolt \<Rightarrow> 'b mstore \<Rightarrow> string \<Rightarrow> string \<Rightarrow> (unit, 'b) mresult" where
  "PutSystemValue B m key val =
    (case bk_put B (msRegistry m) (''_sys_'' @ key) (VBytes val) of
       Inl e \<Rightarrow> (Inl e, m)
     | Inr reg \<Rightarrow> (Inr (), m\<lparr>msRegistry := reg\<rparr>))"

subsection \<open>Bucket settings\<close>

definition getCached :: "'b bolt \<Rightarrow> 'b mstore \<Rightarrow> string \<Rightarrow> (BucketInfo \<Rightarrow> 'a) \<Rightarrow> ('a, 'b) mresult" where
  "getCached B m bucket f = (case GetBucketCached B m bucket of
     (Inl e, m) \<Rightarrow> (Inl e, m) | (Inr info, m) \<Rightarrow> (Inr (f info), m))"

definition PutBucketCORS :: "'b bolt \<Rightarrow> 'b mstore \<Rightarrow> string \<Rightarrow> CORSConfiguration option \<Rightarrow> (unit, 'b) mresult" where
  "PutBucketCORS B m bucket cors = updateBucketInfo B m bucket (\<lambda>info. info\<lparr>biCORS := cors\<rparr>)"

definition GetBucketCORS :: "'b bolt \<Rightarrow> 'b mstore \<Rightarrow> string \<Rightarrow> (CORSConfiguration option, 'b) mresult" where
  "GetBucketCORS B m bucket = getCached B m bucket biCORS"

definition DeleteBucketCORS :: "'b bolt \<Rightarrow> 'b mstore \<Rightarrow> string \<Rightarrow> (unit, 'b) mresult" where
  "DeleteBucketCORS B m bucket = updateBucketInfo B m bucket (\<lambda>info. info\<lparr>biCORS := None\<rparr>)"

definition PutBucketVersioning :: "'b bolt \<Rightarrow> 'b mstore \<Rightarrow> string \<Rightarrow> string \<Rightarrow> (unit, 'b) mresult" where
  "PutBucketVersioning B m bucket status = updateBucketInfo B m bucket (\<lambda>info. info\<lparr>biVersioning := status\<rparr>)"

definition GetBucketVersioning :: "'b bolt \<Rightarrow> 'b mstore \<Rightarrow> string \<Rightarrow> (string, 'b) mresult" where
  "GetBucketVersioning B m bucket = getCached B m bucket biVersioning"

definition SetBucketPublic :: "'b bolt \<Rightarrow> 'b mstore \<Rightarrow> string \<Rightarrow> bool \<Rightarrow> (unit, 'b) mresult" where
  "SetBucketPublic B m bucket public = updateBucketInfo B m bucket (\<lambda>info. info\<lparr>biIsPublic := public\<rparr>)"

definition IsBucketPublic :: "'b bolt \<Rightarrow> 'b mstore \<Rightarrow> string \<Rightarrow> (bool, 'b) mresult" where
  "IsBucketPublic B m bucket = getCached B m bucket biIsPublic"

definition PutBucketLifecycle ::
  "'b bolt \<Rightarrow> 'b mstore \<Rightarrow> string \<Rightarrow> LifecycleConfiguration option \<Rightarrow> (unit, 'b) mresult" where
  "PutBucketLifecycle B m bucket lc = updateBucketInfo B m bucket (\<lambda>info. info\<lparr>biLifecycle := lc\<rparr>)"

definition GetBucketLifecycle ::
  "'b bolt \<Rightarrow> 'b mstore \<Rightarrow> string \<Rightarrow> (LifecycleConfiguration option, 'b) mresult" where
  "GetBucketLifecycle B m bucket = getCached B m bucket biLifecycle"

definition DeleteBucketLifecycle :: "'b bolt \<Rightarrow> 'b mstore \<Rightarrow> string \<Rightarrow> (unit, 'b) mresult" where
  "DeleteBucketLifecycle B m bucket = updateBucketInfo B m bucket (\<lambda>info. info\<lparr>biLifecycle := None\<rparr>)"

definition PutBucketLogging ::
  "'b bolt \<Rightarrow> 'b mstore \<Rightarrow> string \<Rightarrow> LoggingEnabled option option \<Rightarrow> (unit, 'b) mresult" where
  "PutBucketLogging B m bucket lg = updateBucketInfo B m bucket (\<lambda>info. info\<lparr>biLogging := lg\<rparr>)"

definition GetBucketLogging ::
  "'b bolt \<Rightarrow> 'b mstore \<Rightarrow> string \<Rightarrow> (LoggingEnabled option option, 'b) mresult" where
  "GetBucketLogging B m bucket = getCached B m bucket biLogging"

subsection \<open>Objects and multipart uploads of a bucket\<close>

definition firstKey :: "'b bolt \<Rightarrow> 'b \<Rightarrow> string option" where
  "firstKey B b = (case bk_entries B b of [] \<Rightarrow> None | e # _ \<Rightarrow> Some (fst e))"

definition isBucketEmptyTx :: "'b bolt \<Rightarrow> 'b bdb \<Rightarrow> bool" where
  "isBucketEmptyTx B db =
    (if (case dbReplication db of None \<Rightarrow> False | Some p \<Rightarrow> firstKey B p \<noteq> None) then False
     else if firstKey B (dbObjects db) \<noteq> None then False
     else if firstKey B (dbMultipart db) \<noteq> None then False
     else True)"

definition IsBucketEmpty :: "'b bolt \<Rightarrow> 'b mstore \<Rightarrow> string \<Rightarrow> (bool, 'b) mresult" where
  "IsBucketEmpty B m bucket = viewDB B m bucket (\<lambda>db. Inr (isBucketEmptyTx B db))"

definition PutObjectMeta :: "'b bolt \<Rightarrow> 'b mstore \<Rightarrow> ObjectInfo \<Rightarrow> (unit, 'b) mresult" where
  "PutObjectMeta B m info = updateDB_unit B m (oiBucket info) (putObjectMetaTx B (msReplication m) info)"

definition PutObjectMetaRaw :: "'b bolt \<Rightarrow> 'b mstore \<Rightarrow> ObjectInfo \<Rightarrow> (unit, 'b) mresult" where
  "PutObjectMetaRaw B m info = updateDB_unit B m (oiBucket info) (putObjectMetaRawTx B info)"

definition GetObjectMeta :: "'b bolt \<Rightarrow> 'b mstore \<Rightarrow> string \<Rightarrow> string \<Rightarrow> string \<Rightarrow> (ObjectInfo, 'b) mresult" where
  "GetObjectMeta B m bucket key versionID = viewDB B m bucket (\<lambda>db. getObjectMetaTx B db bucket key versionID)"

definition DeleteObjectMeta :: "'b bolt \<Rightarrow> 'b mstore \<Rightarrow> string \<Rightarrow> string \<Rightarrow> string \<Rightarrow> (unit, 'b) mresult" where
  "DeleteObjectMeta B m bucket key versionID =
    updateDB_unit B m bucket (deleteObjectMetaTx B (msReplication m) bucket key versionID)"

definition GetObjectVersions :: "'b bolt \<Rightarrow> 'b mstore \<Rightarrow> string \<Rightarrow> string \<Rightarrow> (ObjectInfo list, 'b) mresult" where
  "GetObjectVersions B m bucket key = viewDB B m bucket (\<lambda>db. getObjectVersionsTx B db bucket key)"

definition ListAllObjectMetas :: "'b bolt \<Rightarrow> 'b mstore \<Rightarrow> string \<Rightarrow> (ObjectInfo list, 'b) mresult" where
  "ListAllObjectMetas B m bucket = viewDB B m bucket (\<lambda>db. listAllObjectMetasTx B db bucket)"

definition IterateObjectMetas :: "'b bolt \<Rightarrow> 'b mstore \<Rightarrow> string \<Rightarrow> (ObjectInfo list, 'b) mresult" where
  "IterateObjectMetas B m bucket = viewDB B m bucket (\<lambda>db. listAllObjectMetasTx B db bucket)"

definition IterateObjectVersions :: "'b bolt \<Rightarrow> 'b mstore \<Rightarrow> string \<Rightarrow> (ObjectInfo list, 'b) mresult" where
  "IterateObjectVersions B m bucket = viewDB B m bucket (\<lambda>db. iterateObjectVersionsTx B db bucket)"

definition CountObjectMetas :: "'b bolt \<Rightarrow> 'b mstore \<Rightarrow> string \<Rightarrow> (int, 'b) mresult" where
  "CountObjectMetas B m bucket = updateDB B m bucket (\<lambda>db. countObjectMetasTx B db bucket)"

definition DeleteAllObjectMetas :: "'b bolt \<Rightarrow> 'b mstore \<Rightarrow> string \<Rightarrow> (unit, 'b) mresult" where
  "DeleteAllObjectMetas B m bucket = updateDB_unit B m bucket (deleteAllObjectMetasTx B bucket)"

definition multipartKey :: "string \<Rightarrow> string \<Rightarrow> string \<Rightarrow> string" where
  "multipartKey bucket key uploadID = bucket @ [nul] @ key @ [nul] @ uploadID"

definition PutMultipartMeta :: "'b bolt \<Rightarrow> 'b mstore \<Rightarrow> MultipartMeta \<Rightarrow> (unit, 'b) mresult" where
  "PutMultipartMeta B m mt = updateDB_unit B m (mpBucket mt) (\<lambda>db.
     bindE (bk_put B (dbMultipart db) (multipartKey (mpBucket mt) (mpKey mt) (mpUploadID mt)) (marshal_mp mt))
       (\<lambda>b. Inr (db\<lparr>dbMultipart := b\<rparr>)))"

definition GetMultipartMeta :: "'b bolt \<Rightarrow> 'b mstore \<Rightarrow> string \<Rightarrow> string \<Rightarrow> string \<Rightarrow> (MultipartMeta, 'b) mresult" where
  "GetMultipartMeta B m bucket key uploadID = viewDB B m bucket (\<lambda>db.
     case bk_get B (dbMultipart db) (multipartKey bucket key uploadID) of
       None \<Rightarrow> Inl ErrMultipartMetaNotFound
     | Some data \<Rightarrow> unmarshal_mp data)"

definition DeleteMultipartMeta :: "'b bolt \<Rightarrow> 'b mstore \<Rightarrow> string \<Rightarrow> string \<Rightarrow> string \<Rightarrow> (unit, 'b) mresult" where
  "DeleteMultipartMeta B m bucket key uploadID = updateDB_unit B m bucket (\<lambda>db.
     bindE (bk_delete B (dbMultipart db) (multipartKey bucket key uploadID)) (\<lambda>b. Inr (db\<lparr>dbMultipart := b\<rparr>)))"

fun unmarshal_mps :: "(string \<times> dbvalue) list \<Rightarrow> MultipartMeta list result" where
  "unmarshal_mps [] = Inr []"
| "unmarshal_mps (e # es) = bindE (unmarshal_mp (snd e)) (\<lambda>i. bindE (unmarshal_mps es) (\<lambda>is. Inr (i # is)))"

definition IterateMultipartMetas :: "'b bolt \<Rightarrow> 'b mstore \<Rightarrow> string \<Rightarrow> (MultipartMeta list, 'b) mresult" where
  "IterateMultipartMetas B m bucket = viewDB B m bucket (\<lambda>db. unmarshal_mps (bk_entries B (dbMultipart db)))"

subsection \<open>Migration of a single-file database\<close>

text \<open>migrateRecords: the records of one old top-level bucket, in key order, are
  copied in batches of at most migrationBatchSize records of one bucket.
  flushBatch is the closure flush.\<close>

definition migrationBatchSize :: nat where "migrationBatchSize = 1000"

datatype mig_src = MigObjects | MigMultipart

fun put_all :: "'b bolt \<Rightarrow> 'b \<Rightarrow> (string \<times> dbvalue) list \<Rightarrow> 'b result" where
  "put_all B b [] = Inr b"
| "put_all B b (r # rs) = bindE (bk_put B b (fst r) (snd r)) (\<lambda>b. put_all B b rs)"

definition migrateBatchTx :: "'b bolt \<Rightarrow> mig_src \<Rightarrow> (string \<times> dbvalue) list \<Rightarrow> 'b bdb \<Rightarrow> 'b bdb result" where
  "migrateBatchTx B src batch db =
    bindE (case src of
        MigObjects \<Rightarrow> bindE (put_all B (dbObjects db) batch) (\<lambda>b. Inr (db\<lparr>dbObjects := b\<rparr>))
      | MigMultipart \<Rightarrow> bindE (put_all B (dbMultipart db) batch) (\<lambda>b. Inr (db\<lparr>dbMultipart := b\<rparr>))) (\<lambda>db.
    case dbStats db of
      None \<Rightarrow> Inr db
    | Some sb \<Rightarrow> bindE (bk_delete B sb objectCountKey) (\<lambda>sb. Inr (db\<lparr>dbStats := Some sb\<rparr>)))"

definition flushBatch ::
  "'b bolt \<Rightarrow> mig_src \<Rightarrow> string \<Rightarrow> (string \<times> dbvalue) list \<Rightarrow> 'b mstore \<Rightarrow> (unit, 'b) mresult" where
  "flushBatch B src batchBucket batch m =
    (if batch = [] then (Inr (), m)
     else updateDB_unit B m batchBucket (migrateBatchTx B src batch))"

fun migrateRecords_loop ::
  "'b bolt \<Rightarrow> mig_src \<Rightarrow> (string \<times> dbvalue) list \<Rightarrow> string \<Rightarrow> (string \<times> dbvalue) list \<Rightarrow> 'b mstore \<Rightarrow> (unit, 'b) mresult" where
  "migrateRecords_loop B src [] batchBucket batch m = flushBatch B src batchBucket batch m"
| "migrateRecords_loop B src ((k, v) # es) batchBucket batch m =
    (let (name, _, found) = CutByte nul k in
     if \<not> found \<and> src = MigObjects then migrateRecords_loop B src es batchBucket batch m
     else if batch \<noteq> [] \<and> (name \<noteq> batchBucket \<or> length batch \<ge> migrationBatchSize) then
       (case flushBatch B src batchBucket batch m of
          (Inl e, m) \<Rightarrow> (Inl e, m)
        | (Inr _, m) \<Rightarrow> migrateRecords_loop B src es name [(k, v)] m)
     else migrateRecords_loop B src es name (batch @ [(k, v)]) m)"

definition migrateRecords :: "'b bolt \<Rightarrow> mig_src \<Rightarrow> 'b \<Rightarrow> 'b mstore \<Rightarrow> (unit, 'b) mresult" where
  "migrateRecords B src old m = migrateRecords_loop B src (bk_entries B old) [] [] m"

text \<open>migrateIfNecessary: the old top-level buckets, when the central database has
  them, are migrated and only then deleted; the result carries which are left.\<close>

definition migrateIfNecessary ::
  "'b bolt \<Rightarrow> 'b option \<Rightarrow> 'b option \<Rightarrow> 'b mstore \<Rightarrow> ('b option \<times> 'b option, 'b) mresult" where
  "migrateIfNecessary B oldObjects oldMultipart m =
    (if oldObjects = None \<and> oldMultipart = None then (Inr (None, None), m)
     else
       let m = m\<lparr>msInMigration := True\<rparr>; fin = (\<lambda>m. m\<lparr>msInMigration := False\<rparr>) in
       case (case oldObjects of None \<Rightarrow> (Inr (), m) | Some o' \<Rightarrow> migrateRecords B MigObjects o' m) of
         (Inl e, m) \<Rightarrow> (Inl e, fin m)
       | (Inr _, m) \<Rightarrow>
           (case (case oldMultipart of None \<Rightarrow> (Inr (), m) | Some o' \<Rightarrow> migrateRecords B MigMultipart o' m) of
              (Inl e, m) \<Rightarrow> (Inl e, fin m)
            | (Inr _, m) \<Rightarrow> (Inr (None, None), fin m)))"

end
