(* ===== verification/Bucket_Cache.thy ===== *)
theory Bucket_Cache
  imports Bucket_Registry
begin

text \<open>
  The cache of bucket configurations never serves a configuration older than a
  finished write. First for the operations run one after another, then for
  any interleaving of cache fills and configuration writes, split at the points
  where the code releases its locks: a fill reads the generation, reads the
  database under the bucket's read lock and stores under the cache lock; a
  write commits and invalidates while it holds the bucket's write lock.
\<close>

subsection \<open>Sequential coherence\<close>

definition entry_agrees :: "'b bolt \<Rightarrow> 'b \<Rightarrow> string \<Rightarrow> BucketInfo option \<Rightarrow> bool" where
  "entry_agrees B reg name e \<longleftrightarrow> bk_get B reg name = map_option VBkt e"

definition cache_ok :: "'b bolt \<Rightarrow> 'b mstore \<Rightarrow> bool" where
  "cache_ok B m \<longleftrightarrow> (\<forall>name e. map_of (msCache m) name = Some e \<longrightarrow> \<not> HasPrefix name ''_sys_'' \<longrightarrow>
     entry_agrees B (msRegistry m) name e)"

text \<open>The configurations that JSON encoding leaves unchanged.\<close>

definition bkt_utf8 :: "BucketInfo \<Rightarrow> bool" where
  "bkt_utf8 i \<longleftrightarrow> json_bkt i = i"

lemma fill_cache:
  "map_of (msCache (fillBucketCache m n r g)) name = Some e \<Longrightarrow>
   map_of (msCache m) name = Some e \<or> (name = n \<and> msCacheGen m = g \<and>
     ((\<exists>i. r = Inr i \<and> e = Some i) \<or> (r = Inl ErrNoSuchBucketRecord \<and> e = None)))"
  by (auto simp: fillBucketCache_def Let_def update_conv' split: if_splits sum.splits)

lemma fill_frame [simp]:
  "msRegistry (fillBucketCache m n r g) = msRegistry m" "msDbs (fillBucketCache m n r g) = msDbs m"
  "msCacheGen (fillBucketCache m n r g) = msCacheGen m" "msReplication (fillBucketCache m n r g) = msReplication m"
  "msActive (fillBucketCache m n r g) = msActive m" "msInMigration (fillBucketCache m n r g) = msInMigration m"
  by (auto simp: fillBucketCache_def Let_def split: sum.splits)

lemma invalidate_cache:
  "map_of (msCache (invalidateBucketCache m n)) name = (if name = n then None else map_of (msCache m) name)"
  by (auto simp: invalidateBucketCache_def delete_conv')

lemma unmarshal_bkt_iff: "unmarshal_bkt v = Inr i \<longleftrightarrow> v = VBkt i"
  by (cases v) auto

lemma unmarshal_bkt_err: "unmarshal_bkt v \<noteq> Inl ErrNoSuchBucketRecord"
  by (cases v) auto

lemma GetBucket_agrees:
  "GetBucket B m name = Inr i \<longleftrightarrow> entry_agrees B (msRegistry m) name (Some i)"
  "GetBucket B m name = Inl ErrNoSuchBucketRecord \<longleftrightarrow> entry_agrees B (msRegistry m) name None"
  by (auto simp: GetBucket_def entry_agrees_def unmarshal_bkt_iff unmarshal_bkt_err split: option.splits)

lemma cache_fill_ok: "cache_ok B m \<Longrightarrow> cache_ok B (fillBucketCache m n (GetBucket B m n) g)"
  unfolding cache_ok_def fill_frame by (auto dest!: fill_cache simp: GetBucket_agrees)

lemma GetBucketCached_ok:
  assumes "cache_ok B m" and "\<not> HasPrefix name ''_sys_''"
  shows "fst (GetBucketCached B m name) = GetBucket B m name \<and> cache_ok B (snd (GetBucketCached B m name))"
proof (cases "map_of (msCache m) name")
  case None
  with assms cache_fill_ok [OF assms(1)] show ?thesis by (simp add: GetBucketCached_def Let_def)
next
  case (Some e)
  with assms have "entry_agrees B (msRegistry m) name e" by (auto simp: cache_ok_def)
  then have "GetBucket B m name = (case e of None \<Rightarrow> Inl ErrNoSuchBucketRecord | Some i \<Rightarrow> Inr i)"
    by (cases e) (simp_all add: GetBucket_agrees)
  with Some assms(1) show ?thesis by (cases e) (simp_all add: GetBucketCached_def)
qed

lemma GetBucketCached_frame:
  "msRegistry (snd (GetBucketCached B m name)) = msRegistry m"
  "msDbs (snd (GetBucketCached B m name)) = msDbs m"
  by (auto simp: GetBucketCached_def Let_def split: option.splits)

context bolt_laws
begin

lemma update_info_ok:
  assumes "cache_ok B m" and "updateBucketInfo B m bucket mutate = (Inr (), m')"
  shows "cache_ok B m' \<and> (\<exists>i. GetBucket B m bucket = Inr i \<and> GetBucket B m' bucket = Inr (json_bkt (mutate i)))
    \<and> (\<forall>n. n \<noteq> bucket \<longrightarrow> GetBucket B m' n = GetBucket B m n)"
proof -
  from assms(2) obtain reg i where g: "bk_get B (msRegistry m) bucket = Some (VBkt i)"
    and p: "bk_put B (msRegistry m) bucket (marshal_bkt (mutate i)) = Inr reg"
    and m': "m' = invalidateBucketCache (m\<lparr>msRegistry := reg\<rparr>) bucket"
    by (auto simp: updateBucketInfo_def updateBucketInfoTx_def bindE_Inr_iff unmarshal_bkt_iff
        split: sum.splits option.splits)
  have r: "bk_get B (msRegistry m') = (bk_get B (msRegistry m))(bucket \<mapsto> marshal_bkt (mutate i))"
    using get_put [OF p] m' by (simp add: invalidateBucketCache_def)
  have "cache_ok B m'"
    using assms(1) unfolding cache_ok_def m' invalidate_cache entry_agrees_def
    using r m' by (auto split: if_splits)
  moreover have "GetBucket B m bucket = Inr i" using g by (simp add: GetBucket_def)
  moreover have "GetBucket B m' bucket = Inr (json_bkt (mutate i))"
    using r by (simp add: GetBucket_def marshal_bkt_def)
  moreover have "\<forall>n. n \<noteq> bucket \<longrightarrow> GetBucket B m' n = GetBucket B m n"
    using r by (simp add: GetBucket_def)
  ultimately show ?thesis by blast
qed

lemma put_bucket_ok:
  assumes "cache_ok B m" and "bkt_utf8 info" and "PutBucket B m info = (Inr (), m')"
  shows "cache_ok B m' \<and> GetBucket B m' (biName info) = Inr info
    \<and> (\<forall>n. n \<noteq> biName info \<longrightarrow> GetBucket B m' n = GetBucket B m n)"
proof -
  from assms(3) obtain reg where p: "bk_put B (msRegistry m) (biName info) (marshal_bkt info) = Inr reg"
    and m': "m' = cachePutBucket (m\<lparr>msRegistry := reg\<rparr>) info"
    by (auto simp: PutBucket_def split: sum.splits)
  have mi: "marshal_bkt info = VBkt info" using assms(2) by (simp add: marshal_bkt_def bkt_utf8_def)
  have r: "bk_get B (msRegistry m') = (bk_get B (msRegistry m))(biName info \<mapsto> VBkt info)"
    using get_put [OF p] m' mi by (simp add: cachePutBucket_def)
  have c: "map_of (msCache m') n = (if n = biName info then Some (Some info) else map_of (msCache m) n)" for n
    using m' by (simp add: cachePutBucket_def update_conv')
  have "cache_ok B m'"
    using assms(1) r c unfolding cache_ok_def entry_agrees_def by (auto split: if_splits)
  then show ?thesis using r by (simp add: GetBucket_def)
qed

lemma delete_bucket_ok:
  assumes "cache_ok B m" and "DeleteBucketMeta B m name = (r, m')"
    and "is_ok (bk_delete B (msRegistry m) name)"
  shows "cache_ok B m' \<and> GetBucket B m' name = Inl ErrNoSuchBucketRecord \<and> msDbs m' name = None
    \<and> (\<forall>n. n \<noteq> name \<longrightarrow> GetBucket B m' n = GetBucket B m n \<and> msDbs m' n = msDbs m n)"
proof -
  from assms(3) obtain reg where p: "bk_delete B (msRegistry m) name = Inr reg" by (auto simp: is_ok_iff)
  with assms(2) have m': "msRegistry m' = reg" "msDbs m' = (msDbs m)(name := None)"
    "msCache m' = msCache (invalidateBucketCache m name)"
    by (auto simp: DeleteBucketMeta_def closeAndRemoveBucketDB_def Let_def invalidateBucketCache_def split: if_splits)
  have r: "bk_get B (msRegistry m') = (bk_get B (msRegistry m))(name := None)"
    using get_delete [OF p] m' by simp
  have "cache_ok B m'"
    using assms(1) r unfolding cache_ok_def m'(3) invalidate_cache entry_agrees_def by (auto split: if_splits)
  then show ?thesis using r m' by (simp add: GetBucket_def)
qed

end

subsection \<open>Interleaved fills and writes\<close>

text \<open>A thread between two of its steps: it has read the generation (TGen), it
  has read the database (TRead), or it has committed a write and still has to
  update the cache, holding the bucket's write lock (TCommitted, TCommittedPut).\<close>

datatype cthread =
    TIdle
  | TGen string int
  | TRead string "BucketInfo result" int
  | TCommitted string
  | TCommittedPut BucketInfo

fun pending_on :: "cthread \<Rightarrow> string \<Rightarrow> bool" where
  "pending_on (TCommitted n) name = (n = name)"
| "pending_on (TCommittedPut i) name = (biName i = name)"
| "pending_on _ name = False"

type_synonym 'b cstate = "'b mstore \<times> (nat \<Rightarrow> cthread)"

definition locked :: "(nat \<Rightarrow> cthread) \<Rightarrow> string \<Rightarrow> bool" where
  "locked th name \<longleftrightarrow> (\<exists>t. pending_on (th t) name)"

inductive cstep :: "'b bolt \<Rightarrow> 'b cstate \<Rightarrow> 'b cstate \<Rightarrow> bool" for B where
  gen: "th t = TIdle \<Longrightarrow> cstep B (m, th) (m, th(t := TGen name (bucketCacheGeneration m)))"
| read: "th t = TGen name g \<Longrightarrow> \<not> locked th name \<Longrightarrow>
    cstep B (m, th) (m, th(t := TRead name (GetBucket B m name) g))"
| fill: "th t = TRead name r g \<Longrightarrow> cstep B (m, th) (fillBucketCache m name r g, th(t := TIdle))"
| commit: "th t = TIdle \<Longrightarrow> \<not> locked th bucket \<Longrightarrow> updateBucketInfoTx B (msRegistry m) bucket mutate = Inr reg \<Longrightarrow>
    cstep B (m, th) (m\<lparr>msRegistry := reg\<rparr>, th(t := TCommitted bucket))"
| commit_delete: "th t = TIdle \<Longrightarrow> \<not> locked th bucket \<Longrightarrow> bk_delete B (msRegistry m) bucket = Inr reg \<Longrightarrow>
    cstep B (m, th) (m\<lparr>msRegistry := reg\<rparr>, th(t := TCommitted bucket))"
| invalidate: "th t = TCommitted bucket \<Longrightarrow> msCacheGen m < 2 ^ 64 - 1 \<Longrightarrow>
    cstep B (m, th) (invalidateBucketCache m bucket, th(t := TIdle))"
| commit_put: "th t = TIdle \<Longrightarrow> \<not> locked th (biName info) \<Longrightarrow> bkt_utf8 info \<Longrightarrow>
    bk_put B (msRegistry m) (biName info) (marshal_bkt info) = Inr reg \<Longrightarrow>
    cstep B (m, th) (m\<lparr>msRegistry := reg\<rparr>, th(t := TCommittedPut info))"
| cache_put: "th t = TCommittedPut info \<Longrightarrow> msCacheGen m < 2 ^ 64 - 1 \<Longrightarrow>
    cstep B (m, th) (cachePutBucket m info, th(t := TIdle))"

inductive creach :: "'b bolt \<Rightarrow> 'b cstate \<Rightarrow> bool" for B where
  start: "msCache m = [] \<Longrightarrow> msCacheGen m = 0 \<Longrightarrow> creach B (m, \<lambda>_. TIdle)"
| step: "creach B s \<Longrightarrow> cstep B s s' \<Longrightarrow> creach B s'"

inductive_cases cstepE: "cstep B (m, th) s'"

definition cinv :: "'b bolt \<Rightarrow> 'b cstate \<Rightarrow> bool" where
  "cinv B s \<longleftrightarrow> (case s of (m, th) \<Rightarrow>
     0 \<le> msCacheGen m \<and> msCacheGen m < 2 ^ 64 \<and>
     (\<forall>name e. map_of (msCache m) name = Some e \<longrightarrow> entry_agrees B (msRegistry m) name e \<or> locked th name) \<and>
     (\<forall>t name r g. th t = TRead name r g \<longrightarrow> g \<le> msCacheGen m \<and>
        (g = msCacheGen m \<longrightarrow> r = GetBucket B m name \<or> locked th name)) \<and>
     (\<forall>t name g. th t = TGen name g \<longrightarrow> g \<le> msCacheGen m) \<and>
     (\<forall>t info. th t = TCommittedPut info \<longrightarrow> bk_get B (msRegistry m) (biName info) = Some (VBkt info)) \<and>
     (\<forall>t t' name. pending_on (th t) name \<longrightarrow> pending_on (th t') name \<longrightarrow> t = t'))"

lemma cinvI:
  assumes "0 \<le> msCacheGen m" "msCacheGen m < 2 ^ 64"
    "\<And>name e. map_of (msCache m) name = Some e \<Longrightarrow> entry_agrees B (msRegistry m) name e \<or> locked th name"
    "\<And>t name r g. th t = TRead name r g \<Longrightarrow> g \<le> msCacheGen m"
    "\<And>t name r. th t = TRead name r (msCacheGen m) \<Longrightarrow> r = GetBucket B m name \<or> locked th name"
    "\<And>t name g. th t = TGen name g \<Longrightarrow> g \<le> msCacheGen m"
    "\<And>t info. th t = TCommittedPut info \<Longrightarrow> bk_get B (msRegistry m) (biName info) = Some (VBkt info)"
    "\<And>t t' name. pending_on (th t) name \<Longrightarrow> pending_on (th t') name \<Longrightarrow> t = t'"
  shows "cinv B (m, th)"
  using assms unfolding cinv_def by (simp only: prod.case) blast

lemma cinvD:
  assumes "cinv B (m, th)"
  shows "0 \<le> msCacheGen m" "msCacheGen m < 2 ^ 64"
    "map_of (msCache m) name = Some e \<Longrightarrow> entry_agrees B (msRegistry m) name e \<or> locked th name"
    "th t = TRead name r g \<Longrightarrow> g \<le> msCacheGen m"
    "th t = TRead name r (msCacheGen m) \<Longrightarrow> r = GetBucket B m name \<or> locked th name"
    "th t = TGen name g \<Longrightarrow> g \<le> msCacheGen m"
    "th t = TCommittedPut info \<Longrightarrow> bk_get B (msRegistry m) (biName info) = Some (VBkt info)"
    "pending_on (th t) name \<Longrightarrow> pending_on (th t') name \<Longrightarrow> t = t'"
  using assms unfolding cinv_def by (simp_all only: prod.case)

lemma locked_upd_idle: "\<not> pending_on (th t) name \<Longrightarrow> locked (th(t := x)) name \<longleftrightarrow> pending_on x name \<or> locked th name"
  by (auto simp: locked_def)

lemma locked_upd: "locked (th(t := x)) name \<longleftrightarrow> pending_on x name \<or> (\<exists>t'. t' \<noteq> t \<and> pending_on (th t') name)"
  by (auto simp: locked_def)

lemma cinv_quiet:
  assumes c: "cinv B (m, th)" and q: "\<And>n. \<not> pending_on (th t) n" "\<And>n. \<not> pending_on x n"
    and g: "\<And>name g. x = TGen name g \<Longrightarrow> g \<le> msCacheGen m"
    and r: "\<And>name r g. x = TRead name r g \<Longrightarrow> g \<le> msCacheGen m \<and> r = GetBucket B m name"
  shows "cinv B (m, th(t := x))"
proof -
  have L: "locked (th(t := x)) n = locked th n" for n using q by (auto simp: locked_upd_idle)
  have nq: "x \<noteq> TCommittedPut i" for i using q(2) [of "biName i"] by auto
  note D = cinvD [OF c]
  show ?thesis
  proof (rule cinvI)
    fix t' info assume "(th(t := x)) t' = TCommittedPut info"
    with nq have "th t' = TCommittedPut info" by (auto split: if_splits)
    then show "bk_get B (msRegistry m) (biName info) = Some (VBkt info)" by (rule D(7))
  qed (use D g r q in \<open>auto simp: L split: if_splits\<close>)
qed

lemma cinv_commit:
  assumes c: "cinv B (m, th)" and i: "th t = TIdle" and l: "\<not> locked th bucket"
    and x: "x = TCommitted bucket \<or> (\<exists>info. x = TCommittedPut info \<and> biName info = bucket \<and>
        bk_get B reg bucket = Some (VBkt info))"
    and o: "\<And>n. n \<noteq> bucket \<Longrightarrow> bk_get B reg n = bk_get B (msRegistry m) n"
  shows "cinv B (m\<lparr>msRegistry := reg\<rparr>, th(t := x))"
proof -
  have px: "pending_on x n \<longleftrightarrow> n = bucket" for n using x by auto
  have L: "locked (th(t := x)) n = (n = bucket \<or> locked th n)" for n
    using i px by (auto simp: locked_upd_idle)
  have G: "n \<noteq> bucket \<Longrightarrow> GetBucket B (m\<lparr>msRegistry := reg\<rparr>) n = GetBucket B m n" for n
    using o by (simp add: GetBucket_def)
  note D = cinvD [OF c]
  show ?thesis
  proof (rule cinvI)
    fix t' info assume a: "(th(t := x)) t' = TCommittedPut info"
    show "bk_get B (msRegistry (m\<lparr>msRegistry := reg\<rparr>)) (biName info) = Some (VBkt info)"
    proof (cases "t' = t")
      case True
      with a x show ?thesis by auto
    next
      case False
      with a have "th t' = TCommittedPut info" by simp
      moreover from this have "pending_on (th t') (biName info)" by simp
      with l have "biName info \<noteq> bucket" by (auto simp: locked_def)
      ultimately show ?thesis using D(7) o by simp
    qed
  next
    fix t1 t2 name assume "pending_on ((th(t := x)) t1) name" "pending_on ((th(t := x)) t2) name"
    with D(8) [of t1 name t2] px l show "t1 = t2" by (auto simp: locked_def split: if_splits)
  next
    fix name e assume "map_of (msCache (m\<lparr>msRegistry := reg\<rparr>)) name = Some e"
    with D(3) [of name e] o show "entry_agrees B (msRegistry (m\<lparr>msRegistry := reg\<rparr>)) name e \<or> locked (th(t := x)) name"
      unfolding L by (cases "name = bucket") (auto simp: entry_agrees_def)
  next
    fix t' name r assume "(th(t := x)) t' = TRead name r (msCacheGen (m\<lparr>msRegistry := reg\<rparr>))"
    then have "th t' = TRead name r (msCacheGen m)" using x by (auto split: if_splits)
    with D(5) G show "r = GetBucket B (m\<lparr>msRegistry := reg\<rparr>) name \<or> locked (th(t := x)) name"
      unfolding L by (cases "name = bucket") auto
  next
    fix t' name r g assume "(th(t := x)) t' = TRead name r g"
    then have "th t' = TRead name r g" using x by (auto split: if_splits)
    with D(4) show "g \<le> msCacheGen (m\<lparr>msRegistry := reg\<rparr>)" by auto
  next
    fix t' name g assume "(th(t := x)) t' = TGen name g"
    then have "th t' = TGen name g" using x by (auto split: if_splits)
    with D(6) show "g \<le> msCacheGen (m\<lparr>msRegistry := reg\<rparr>)" by auto
  qed (use D(1,2) in simp_all)
qed

lemma cinv_finish:
  assumes c: "cinv B (m, th)" and p: "\<And>n. pending_on (th t) n \<longleftrightarrow> n = bucket"
    and gen: "msCacheGen m < 2 ^ 64 - 1" "msCacheGen m' = msCacheGen m + 1" "msRegistry m' = msRegistry m"
    and cache: "\<And>n e. map_of (msCache m') n = Some e \<Longrightarrow>
        (if n = bucket then entry_agrees B (msRegistry m) n e else map_of (msCache m) n = Some e)"
  shows "cinv B (m', th(t := TIdle))"
proof -
  note D = cinvD [OF c]
  have L: "locked (th(t := TIdle)) n" if "locked th n" "n \<noteq> bucket" for n
  proof -
    from that(1) obtain t' where "pending_on (th t') n" by (auto simp: locked_def)
    moreover from this that(2) p have "t' \<noteq> t" by auto
    ultimately show ?thesis by (auto simp: locked_upd)
  qed
  show ?thesis
  proof (rule cinvI)
    fix name e assume "map_of (msCache m') name = Some e"
    from cache [OF this] D(3) [of name e] L gen(3)
    show "entry_agrees B (msRegistry m') name e \<or> locked (th(t := TIdle)) name"
      by (auto split: if_splits)
  next
    fix t' name r assume "(th(t := TIdle)) t' = TRead name r (msCacheGen m')"
    then have "th t' = TRead name r (msCacheGen m + 1)" using gen by (auto split: if_splits)
    from D(4) [OF this] show "r = GetBucket B m' name \<or> locked (th(t := TIdle)) name" by simp
  next
    fix t' name r g assume "(th(t := TIdle)) t' = TRead name r g"
    then have "th t' = TRead name r g" by (auto split: if_splits)
    from D(4) [OF this] gen show "g \<le> msCacheGen m'" by simp
  next
    fix t' name g assume "(th(t := TIdle)) t' = TGen name g"
    then have "th t' = TGen name g" by (auto split: if_splits)
    from D(6) [OF this] gen show "g \<le> msCacheGen m'" by simp
  next
    fix t1 t2 name assume "pending_on ((th(t := TIdle)) t1) name" "pending_on ((th(t := TIdle)) t2) name"
    with D(8) [of t1 name t2] show "t1 = t2" by (auto split: if_splits)
  next
    fix t' info assume "(th(t := TIdle)) t' = TCommittedPut info"
    then have "th t' = TCommittedPut info" by (auto split: if_splits)
    from D(7) [OF this] gen show "bk_get B (msRegistry m') (biName info) = Some (VBkt info)" by simp
  qed (use D(1) gen in auto)
qed

lemma cinv_fill:
  assumes c: "cinv B (m, th)" and r: "th t = TRead name r g"
  shows "cinv B (fillBucketCache m name r g, th(t := TIdle))"
proof -
  note D = cinvD [OF c]
  have L: "locked (th(t := TIdle)) n = locked th n" for n using r by (auto simp: locked_upd_idle)
  have G: "GetBucket B (fillBucketCache m name r g) n = GetBucket B m n" for n by (simp add: GetBucket_def)
  show ?thesis
  proof (rule cinvI)
    fix n e assume "map_of (msCache (fillBucketCache m name r g)) n = Some e"
    from fill_cache [OF this] D(3) [of n e] D(5) [of t n r] r GetBucket_agrees [of B m n]
    show "entry_agrees B (msRegistry (fillBucketCache m name r g)) n e \<or> locked (th(t := TIdle)) n"
      unfolding L fill_frame by metis
  qed (use D in \<open>auto simp: L G split: if_splits\<close>)
qed

context bolt_laws
begin

lemma cinv_step: "cstep B s s' \<Longrightarrow> cinv B s \<Longrightarrow> cinv B s'"
proof (induction rule: cstep.induct)
  case (gen th t m name)
  then show ?case by (intro cinv_quiet) (auto simp: bucketCacheGeneration_def)
next
  case (read th t name g m)
  then show ?case using cinvD(6) [OF read.prems read.hyps(1)] by (intro cinv_quiet) auto
next
  case (fill th t name r g m)
  then show ?case by (intro cinv_fill)
next
  case (commit th t bucket m mutate reg)
  then have "n \<noteq> bucket \<Longrightarrow> bk_get B reg n = bk_get B (msRegistry m) n" for n
    by (auto simp: updateBucketInfoTx_def bindE_Inr_iff get_put split: option.splits)
  with commit show ?case by (intro cinv_commit) auto
next
  case (commit_delete th t bucket m reg)
  then show ?case by (intro cinv_commit) (auto simp: get_delete)
next
  case (invalidate th t bucket m)
  show ?case
    by (rule cinv_finish [OF invalidate.prems, where bucket = bucket])
       (use invalidate.hyps cinvD(1) [OF invalidate.prems] in
         \<open>auto simp: invalidate_cache split: if_splits, auto simp: invalidateBucketCache_def\<close>)
next
  case (commit_put th t info m reg)
  then show ?case
    by (intro cinv_commit [where bucket = "biName info"]) (auto simp: get_put marshal_bkt_def bkt_utf8_def)
next
  case (cache_put th t info m)
  show ?case
    by (rule cinv_finish [OF cache_put.prems, where bucket = "biName info"])
       (use cache_put.hyps cinvD(1) [OF cache_put.prems] cinvD(7) [OF cache_put.prems cache_put.hyps(1)] in
         \<open>auto simp: cachePutBucket_def update_conv' entry_agrees_def split: if_splits\<close>)
qed

lemma creach_inv: "creach B s \<Longrightarrow> cinv B s"
proof (induction rule: creach.induct)
  case (start m)
  then show ?case by (intro cinvI) auto
next
  case (step s s')
  then show ?case using cinv_step by blast
qed

lemma creach_coherent:
  assumes "creach B (m, th)" and "\<not> locked th name"
  shows "fst (GetBucketCached B m name) = GetBucket B m name"
proof (cases "map_of (msCache m) name")
  case None
  then show ?thesis by (simp add: GetBucketCached_def Let_def)
next
  case (Some e)
  with cinvD(3) [OF creach_inv [OF assms(1)] Some] assms(2)
  have "entry_agrees B (msRegistry m) name e" by blast
  then have "GetBucket B m name = (case e of None \<Rightarrow> Inl ErrNoSuchBucketRecord | Some i \<Rightarrow> Inr i)"
    by (cases e) (simp_all add: GetBucket_agrees)
  with Some show ?thesis by (cases e) (simp_all add: GetBucketCached_def)
qed

end

subsection \<open>Properties\<close>

text \<open>A setting changed by updateBucketInfo (public access, versioning, CORS,
  lifecycle, logging) is what the next cached read of the bucket returns, no other
  bucket's configuration changes, and the cache stays coherent with the registry.\<close>

theorem bucket_setting_takes_effect:
  assumes "bolt_laws B" and "cache_ok B m" and "\<not> HasPrefix bucket ''_sys_''"
    and "updateBucketInfo B m bucket mutate = (Inr (), m')"
  shows "\<exists>i. GetBucket B m bucket = Inr i \<and> fst (GetBucketCached B m' bucket) = Inr (json_bkt (mutate i)) \<and>
    cache_ok B m' \<and> (\<forall>n. n = bucket \<or> GetBucket B m' n = GetBucket B m n)"
proof -
  note U = bolt_laws.update_info_ok [OF assms(1,2,4)]
  then have c: "cache_ok B m'" by simp
  from U GetBucketCached_ok [OF c assms(3)] show ?thesis by auto
qed

definition ex_bkt :: BucketInfo where
  "ex_bkt = \<lparr>biName = ''bkt'', biCreationDate = 1, biCORS = None, biVersioning = [], biIsPublic = True,
     biLifecycle = None, biLogging = None\<rparr>"

definition ex_store :: "alist_bucket mstore" where
  "ex_store = \<lparr>msReplication = False, msRegistry = (0, [(''bkt'', VBkt ex_bkt)]), msDbs = Map.empty, msActive = [],
     msCache = [], msCacheGen = 0, msInMigration = False\<rparr>"

lemma ex_store_cache: "cache_ok alist_bolt ex_store"
  by (simp add: cache_ok_def ex_store_def)

lemma ex_public: "updateBucketInfo alist_bolt ex_store ''bkt'' (\<lambda>i. i\<lparr>biIsPublic := False\<rparr>) =
    (Inr (), ex_store\<lparr>msRegistry := (0, [(''bkt'', VBkt (ex_bkt\<lparr>biIsPublic := False\<rparr>))]), msCacheGen := 1\<rparr>)"
proof -
  have j: "json_bkt (ex_bkt\<lparr>biIsPublic := False\<rparr>) = ex_bkt\<lparr>biIsPublic := False\<rparr>"
    by (simp add: json_bkt_def ex_bkt_def json_str_valid utf8_ascii byte_def)
  show ?thesis
    by (simp add: updateBucketInfo_def updateBucketInfoTx_def ex_store_def alist_bolt_def
        invalidateBucketCache_def marshal_bkt_def j)
qed

theorem bucket_setting_takes_effect_witness:
  "\<exists>m'. updateBucketInfo alist_bolt ex_store ''bkt'' (\<lambda>i. i\<lparr>biIsPublic := False\<rparr>) = (Inr (), m') \<and> cache_ok alist_bolt m' \<and>
     (\<exists>i. fst (GetBucketCached alist_bolt m' ''bkt'') = Inr i)"
  using bucket_setting_takes_effect [OF alist_laws ex_store_cache _ ex_public] ex_public by (auto simp: prefix_def)

text \<open>C9: in every interleaving of cache fills and configuration writes, a lookup
  through the cache returns what the registry holds, whenever no write to that bucket
  is between its commit and its cache update: a fill that raced a write never
  leaves the old configuration behind.\<close>

theorem bucket_cache_never_stale:
  assumes "bolt_laws B" and "creach B (m, th)" and "\<not> locked th name"
  shows "fst (GetBucketCached B m name) = GetBucket B m name"
  using bolt_laws.creach_coherent [OF assms] .

text \<open>The race the generation guards against: thread 0 reads the public bucket, thread
  1 makes it private, then thread 0 fills.\<close>

definition ex_priv :: "alist_bucket mstore" where
  "ex_priv = ex_store\<lparr>msRegistry := (0, [(''bkt'', VBkt (ex_bkt\<lparr>biIsPublic := False\<rparr>))]), msCacheGen := 1\<rparr>"

lemma ex_race: "creach alist_bolt (ex_priv, \<lambda>_. TIdle)"
proof -
  let ?th0 = "\<lambda>_::nat. TIdle"
  let ?m1 = "ex_store\<lparr>msRegistry := (0, [(''bkt'', VBkt (ex_bkt\<lparr>biIsPublic := False\<rparr>))])\<rparr>"
  have u: "updateBucketInfoTx alist_bolt (msRegistry ex_store) ''bkt'' (\<lambda>i. i\<lparr>biIsPublic := False\<rparr>) =
      Inr (msRegistry ?m1)"
    using ex_public by (auto simp: updateBucketInfo_def invalidateBucketCache_def ex_store_def split: sum.splits)
  let ?r = "GetBucket alist_bolt ex_store ''bkt''"
  have 0: "creach alist_bolt (ex_store, ?th0)" by (rule creach.start) (simp_all add: ex_store_def)
  have 1: "creach alist_bolt (ex_store, ?th0(0 := TGen ''bkt'' 0))"
    using creach.step [OF 0 cstep.gen [of ?th0 0 _ ex_store "''bkt''"]] by (simp add: bucketCacheGeneration_def ex_store_def)
  have 2: "creach alist_bolt (ex_store, ?th0(0 := TRead ''bkt'' ?r 0))"
    using creach.step [OF 1 cstep.read [of "?th0(0 := TGen ''bkt'' 0)" 0 "''bkt''" 0]]
    by (simp add: locked_def)
  have 3: "creach alist_bolt (?m1, (?th0(0 := TRead ''bkt'' ?r 0))(1 := TCommitted ''bkt''))"
    using creach.step [OF 2 cstep.commit [OF _ _ u, of _ 1]] by (simp add: locked_def)
  have 4: "creach alist_bolt (invalidateBucketCache ?m1 ''bkt'', ?th0(0 := TRead ''bkt'' ?r 0))"
    using creach.step [OF 3 cstep.invalidate [of _ 1 "''bkt''" ?m1]] by (simp add: ex_store_def fun_upd_twist fun_upd_idem)
  have 5: "invalidateBucketCache ?m1 ''bkt'' = ex_priv"
    by (simp add: invalidateBucketCache_def ex_priv_def ex_store_def)
  have 6: "fillBucketCache ex_priv ''bkt'' ?r 0 = ex_priv"
    by (simp add: fillBucketCache_def ex_priv_def)
  have 7: "?th0(0 := TIdle) = ?th0" by (rule fun_upd_idem) simp
  show ?thesis
    using creach.step [OF 4 [unfolded 5] cstep.fill [of "?th0(0 := TRead ''bkt'' ?r 0)" 0 "''bkt''" ?r 0 _ ex_priv]] 6
    by (simp only: 7 fun_upd_upd) (simp add: 7)
qed

theorem bucket_cache_never_stale_witness:
  "map_option biIsPublic (case fst (GetBucketCached alist_bolt ex_priv ''bkt'') of Inr i \<Rightarrow> Some i | Inl _ \<Rightarrow> None) = Some False"
  using bucket_cache_never_stale [OF alist_laws ex_race, of "''bkt''"]
  by (simp add: locked_def GetBucket_def ex_priv_def ex_store_def alist_bolt_def)

end
