(* ===== verification/Go_Path.thy ===== *)
theory Go_Path
  imports Go_Base
begin

text \<open>
  path/filepath of the Go library on a Unix system, as far as the sources use
  it. A path is cleaned component by component: empty and dot components vanish,
  a dot-dot component removes the one before it and is dropped at the root.
\<close>

definition dotdot :: string where "dotdot = ''..''"

fun clean_comps :: "bool \<Rightarrow> string list \<Rightarrow> string list \<Rightarrow> string list" where
  "clean_comps rooted acc [] = rev acc"
| "clean_comps rooted acc (c # cs) =
    (if c = [] \<or> c = ''.'' then clean_comps rooted acc cs
     else if c = ''..'' then
       (case acc of
          [] \<Rightarrow> if rooted then clean_comps rooted [] cs else clean_comps rooted [''..''] cs
        | a # as \<Rightarrow> if a = ''..'' then clean_comps rooted (''..'' # acc) cs else clean_comps rooted as cs)
     else clean_comps rooted (c # acc) cs)"

definition is_rooted :: "string \<Rightarrow> bool" where
  "is_rooted p \<longleftrightarrow> HasPrefix p ''/''"

definition path_comps :: "string \<Rightarrow> string list" where
  "path_comps p = clean_comps (is_rooted p) [] (SplitByte CHR ''/'' p)"

definition render_path :: "bool \<Rightarrow> string list \<Rightarrow> string" where
  "render_path rooted cs = (if rooted then CHR ''/'' # JoinByte CHR ''/'' cs
     else if cs = [] then ''.'' else JoinByte CHR ''/'' cs)"

definition Clean :: "string \<Rightarrow> string" where
  "Clean p = render_path (is_rooted p) (path_comps p)"

definition JoinPath :: "string list \<Rightarrow> string" where
  "JoinPath elems = (case dropWhile (\<lambda>e. e = []) elems of [] \<Rightarrow> [] | es \<Rightarrow> Clean (JoinByte CHR ''/'' es))"

definition IsAbs :: "string \<Rightarrow> bool" where
  "IsAbs p \<longleftrightarrow> is_rooted p"

definition IsLocal :: "string \<Rightarrow> bool" where
  "IsLocal path =
    (if IsAbs path \<or> path = [] then False
     else
       let dots = (\<exists>c\<in>set (SplitByte CHR ''/'' path). c = ''.'' \<or> c = ''..'');
           path = (if dots then Clean path else path) in
       \<not> (path = ''..'' \<or> HasPrefix path ''../''))"

fun strip_common :: "string list \<Rightarrow> string list \<Rightarrow> string list \<times> string list" where
  "strip_common (a # as) (b # bs) = (if a = b then strip_common as bs else (a # as, b # bs))"
| "strip_common as bs = (as, bs)"

definition Rel :: "string \<Rightarrow> string \<Rightarrow> string option" where
  "Rel basepath targpath =
    (if Clean targpath = Clean basepath then Some ''.''
     else if is_rooted basepath \<noteq> is_rooted targpath then None
     else case strip_common (path_comps basepath) (path_comps targpath) of (b, t) \<Rightarrow>
       if b \<noteq> [] \<and> hd b = ''..'' then None
       else Some (JoinByte CHR ''/'' (replicate (length b) ''..'' @ t)))"

definition Dir :: "string \<Rightarrow> string" where
  "Dir p = Clean (rev (dropWhile (\<lambda>c. c \<noteq> CHR ''/'') (rev p)))"

subsection \<open>What cleaning guarantees\<close>

definition comp_ok :: "string \<Rightarrow> bool" where
  "comp_ok c \<longleftrightarrow> c \<noteq> [] \<and> c \<noteq> ''.'' \<and> CHR ''/'' \<notin> set c"

lemma Split_no_sep: "w \<in> set (SplitByte c s) \<Longrightarrow> c \<notin> set w"
proof (induction s arbitrary: w)
  case Nil
  then show ?case by simp
next
  case (Cons x s)
  obtain v vs where v: "SplitByte c s = v # vs" by (cases "SplitByte c s") auto
  with Cons.IH have "\<forall>w\<in>set (v # vs). c \<notin> set w" by simp
  with Cons.prems v show ?case by (auto split: if_splits)
qed

lemma clean_comps_ok:
  "\<forall>c\<in>set cs. CHR ''/'' \<notin> set c \<Longrightarrow> \<forall>c\<in>set acc. comp_ok c \<Longrightarrow>
   \<forall>c\<in>set (clean_comps rooted acc cs). comp_ok c"
proof (induction cs arbitrary: acc)
  case Nil
  then show ?case by simp
next
  case (Cons c cs)
  have d: "comp_ok ''..''" by (simp add: comp_ok_def)
  show ?case
  proof (cases "c = [] \<or> c = ''.''")
    case True
    with Cons show ?thesis by auto
  next
    case False
    show ?thesis
    proof (cases "c = ''..''")
      case True
      have n: "\<forall>x\<in>set cs. CHR ''/'' \<notin> set x" using Cons.prems by simp
      have "\<exists>a\<in>{[], [''..''], ''..'' # acc, tl acc}. clean_comps rooted acc (c # cs) = clean_comps rooted a cs"
        unfolding True by (cases acc) simp_all
      then obtain a where a: "a \<in> {[], [''..''], ''..'' # acc, tl acc}"
        and e: "clean_comps rooted acc (c # cs) = clean_comps rooted a cs" by blast
      have "\<forall>x\<in>set a. comp_ok x" using a d Cons.prems(2) by (cases acc) auto
      from Cons.IH [OF n this] show ?thesis unfolding e .
    next
      case c: False
      from False Cons.prems have "comp_ok c" by (simp add: comp_ok_def)
      with Cons.prems have "\<forall>x\<in>set (c # acc). comp_ok x" "\<forall>x\<in>set cs. CHR ''/'' \<notin> set x" by auto
      from Cons.IH [OF this(2,1)] False c show ?thesis by simp
    qed
  qed
qed

lemma clean_comps_rooted:
  "''..'' \<notin> set acc \<Longrightarrow> ''..'' \<notin> set (clean_comps True acc cs)"
proof (induction cs arbitrary: acc)
  case Nil
  then show ?case by simp
next
  case (Cons c cs)
  then show ?case
    by (cases "c = [] \<or> c = ''.''"; cases "c = ''..''"; cases acc) auto
qed

lemma path_comps_ok: "\<forall>c\<in>set (path_comps p). comp_ok c"
  unfolding path_comps_def by (rule clean_comps_ok) (auto dest: Split_no_sep)

lemma path_comps_rooted: "is_rooted p \<Longrightarrow> ''..'' \<notin> set (path_comps p)"
  unfolding path_comps_def using clean_comps_rooted [of "[]"] by simp

lemma Split_append_sep: "SplitByte c (a @ c # b) = SplitByte c a @ SplitByte c b"
proof (induction a)
  case Nil
  then show ?case by simp
next
  case (Cons x a)
  obtain v vs where "SplitByte c a = v # vs" by (cases "SplitByte c a") auto
  with Cons show ?case by auto
qed

lemma Split_single: "c \<notin> set w \<Longrightarrow> SplitByte c w = [w]"
  by (induction w) auto

lemma Split_Join: "ws \<noteq> [] \<Longrightarrow> \<forall>w\<in>set ws. c \<notin> set w \<Longrightarrow> SplitByte c (JoinByte c ws) = ws"
proof (induction c ws rule: JoinByte.induct)
  case (3 c w v ws)
  then show ?case by (simp add: Split_append_sep Split_single)
qed (auto simp: Split_single)

lemma clean_comps_append:
  "clean_comps rooted acc (cs @ ds) = clean_comps rooted (rev (clean_comps rooted acc cs)) ds"
  by (induction rooted acc cs rule: clean_comps.induct) (auto split: list.splits)

lemma clean_comps_plain:
  "\<forall>c\<in>set cs. comp_ok c \<and> c \<noteq> ''..'' \<Longrightarrow> clean_comps rooted acc cs = rev acc @ cs"
  by (induction cs arbitrary: acc) (auto simp: comp_ok_def)

text \<open>Joining plain components below a rooted directory appends them.\<close>

lemma JoinByte_Cons: "ws \<noteq> [] \<Longrightarrow> JoinByte c (w # ws) = w @ c # JoinByte c ws"
  by (cases ws) auto

lemma JoinPath_comps:
  assumes "is_rooted d" and "\<forall>c\<in>set cs. comp_ok c \<and> c \<noteq> ''..''" and "cs \<noteq> []"
  shows "JoinPath (d # cs) = render_path True (path_comps d @ cs)"
proof -
  have d: "d \<noteq> []" using assms(1) by (auto simp: is_rooted_def)
  have J: "JoinByte CHR ''/'' (d # cs) = d @ CHR ''/'' # JoinByte CHR ''/'' cs"
    using assms(3) by (rule JoinByte_Cons)
  have r: "is_rooted (JoinByte CHR ''/'' (d # cs))"
    unfolding J using assms(1) by (auto simp: is_rooted_def prefix_def)
  have "SplitByte CHR ''/'' (JoinByte CHR ''/'' (d # cs)) = SplitByte CHR ''/'' d @ cs"
    unfolding J using Split_Join [OF assms(3), of "CHR ''/''"] assms(2)
    by (simp add: Split_append_sep comp_ok_def)
  then have "path_comps (JoinByte CHR ''/'' (d # cs)) = path_comps d @ cs"
    using r assms(1) by (simp add: path_comps_def clean_comps_append clean_comps_plain [OF assms(2)])
  with r d show ?thesis by (simp add: JoinPath_def Clean_def)
qed

lemma render_inj:
  assumes "\<forall>c\<in>set a. comp_ok c" "\<forall>c\<in>set b. comp_ok c" "render_path True a = render_path True b"
  shows "a = b"
proof -
  from assms(3) have e: "JoinByte CHR ''/'' a = JoinByte CHR ''/'' b" by (simp add: render_path_def)
  have z: "JoinByte CHR ''/'' cs = [] \<Longrightarrow> \<forall>c\<in>set cs. comp_ok c \<Longrightarrow> cs = []" for cs
    by (cases cs; cases "tl cs") (auto simp: comp_ok_def)
  show ?thesis
  proof (cases "a = [] \<or> b = []")
    case True
    with e z [of a] z [of b] assms(1,2) show ?thesis by auto
  next
    case False
    have "\<forall>c\<in>set a. CHR ''/'' \<notin> set c" "\<forall>c\<in>set b. CHR ''/'' \<notin> set c"
      using assms(1,2) by (simp_all add: comp_ok_def)
    with False Split_Join [of a "CHR ''/''"] Split_Join [of b "CHR ''/''"] e show ?thesis by metis
  qed
qed

end
