(* ===== verification/Paths.thy ===== *)
theory Paths
  imports Go_Path Bucket_Registry
begin

text \<open>
  internal/storage/paths.go: where the data of objects and uploads is kept, the
  checks on bucket names, keys and IDs before they become paths, and the
  preambles of the engine's operations. A path operation returns the resolved
  path or the error; dataDir is the engine's data directory.
\<close>

definition errInvalidBucketTraversal :: string where
  "errInvalidBucketTraversal = ''invalid bucket name: path traversal detected''"
definition errInvalidKeyTraversal :: string where
  "errInvalidKeyTraversal = ''invalid object key: path traversal detected''"
definition errInvalidUploadID :: string where
  "errInvalidUploadID = ''invalid upload ID: path traversal detected''"

definition maxKeyLength :: nat where "maxKeyLength = 1024"

definition bucketPath :: "string \<Rightarrow> string \<Rightarrow> string" where
  "bucketPath dataDir name = JoinPath [dataDir, ''buckets'', name]"

definition blobDir :: "string \<Rightarrow> string \<Rightarrow> string" where
  "blobDir dataDir bucket = JoinPath [dataDir, ''blobs'', bucket]"

text \<open>newBlobID draws sixteen random bytes, an argument here, and writes them in hex.\<close>

definition hex_digit :: "nat \<Rightarrow> char" where
  "hex_digit n = ''0123456789abcdef'' ! (n mod 16)"

fun hex_encode :: "string \<Rightarrow> string" where
  "hex_encode [] = []"
| "hex_encode (c # s) = hex_digit (byte c div 16) # hex_digit (byte c) # hex_encode s"

definition newBlobID :: "string \<Rightarrow> string" where
  "newBlobID rnd = hex_encode (take 16 rnd)"

definition isBlobID :: "string \<Rightarrow> bool" where
  "isBlobID i \<longleftrightarrow> length i = 32 \<and> (\<forall>c\<in>set i. is_hex c)"

definition blobPath :: "string \<Rightarrow> string \<Rightarrow> string \<Rightarrow> string" where
  "blobPath dataDir bucket i = JoinPath [blobDir dataDir bucket, take 2 i, take 2 (drop 2 i), i]"

definition validateNewKey :: "string \<Rightarrow> unit result" where
  "validateNewKey key =
    (if length key > maxKeyLength then Inl (S3Error ''KeyTooLongError'' ''Your key is too long.'')
     else if HasByte key nul then Inl (S3Error ''InvalidArgument'' ''Object keys cannot contain NUL characters.'')
     else Inr ())"

definition hasPathTraversal :: "string \<Rightarrow> bool" where
  "hasPathTraversal s =
    (if s = ''..'' \<or> HasPrefix s ''../'' \<or> HasPrefix s (''..'' @ [CHR 0x5C]) \<or> HasSuffix s ''/..''
        \<or> HasSuffix s (CHR 0x5C # ''..'') then True
     else if Contains s ''/../'' \<or> Contains s (CHR 0x5C # ''..'' @ [CHR 0x5C])
        \<or> Contains s (''/..'' @ [CHR 0x5C]) \<or> Contains s (CHR 0x5C # ''../'') then True
     else False)"

definition isRelTraversal :: "string \<Rightarrow> bool" where
  "isRelTraversal rel \<longleftrightarrow> rel = ''..'' \<or> HasPrefix rel ''../'' \<or> HasPrefix rel (''..'' @ [CHR 0x5C])
     \<or> hasPathTraversal rel"

definition slashes :: string where "slashes = ''/'' @ [CHR 0x5C]"

definition validatePathSafety :: "string \<Rightarrow> string \<Rightarrow> string \<Rightarrow> unit result" where
  "validatePathSafety bucket key versionID =
    (if \<not> IsLocal bucket \<or> hasPathTraversal bucket then Inl (ErrText errInvalidBucketTraversal)
     else if hasPathTraversal key then Inl (ErrText errInvalidKeyTraversal)
     else
       let normalizedKey = ReplaceByte CHR 0x5C CHR ''/'' key;
           trimmedKey = TrimLeft normalizedKey ''/'' in
       if trimmedKey \<noteq> [] \<and> (\<not> IsLocal trimmedKey \<or> hasPathTraversal trimmedKey)
       then Inl (ErrText errInvalidKeyTraversal)
       else if trimmedKey = [] \<and> key \<noteq> [] then Inl (ErrText errInvalidKeyTraversal)
       else if versionID \<noteq> [] \<and> (\<not> IsLocal versionID \<or> hasPathTraversal versionID \<or> ContainsAny versionID slashes)
       then Inl (ErrText ''invalid version ID: path traversal detected'')
       else Inr ())"

text \<open>The check that a resolved path stays within its base, which every path
  operation ends with.\<close>

definition within :: "string \<Rightarrow> string \<Rightarrow> bool" where
  "within base resolved \<longleftrightarrow>
     (case Rel base resolved of None \<Rightarrow> False | Some rel \<Rightarrow> \<not> IsAbs rel \<and> \<not> isRelTraversal rel)
     \<and> (resolved = base \<or> HasPrefix resolved (base @ ''/''))"

definition objectPath :: "string \<Rightarrow> string \<Rightarrow> string \<Rightarrow> string result" where
  "objectPath dataDir bucket key =
    bindE (validatePathSafety bucket key []) (\<lambda>_.
      let normalizedKey = ReplaceByte CHR 0x5C CHR ''/'' key;
          base = Clean (bucketPath dataDir bucket);
          resolved = Clean (JoinPath [base, normalizedKey]) in
      if \<not> within base resolved then Inl (ErrText errInvalidKeyTraversal) else Inr resolved)"

definition objectPathWithVersion :: "string \<Rightarrow> string \<Rightarrow> string \<Rightarrow> string \<Rightarrow> string result" where
  "objectPathWithVersion dataDir bucket key versionID =
    bindE (validatePathSafety bucket key versionID) (\<lambda>_.
    bindE (objectPath dataDir bucket key) (\<lambda>base.
      let resolved = Clean (if versionID \<noteq> [] then base @ ''.'' @ versionID else base);
          bucketBase = Clean (bucketPath dataDir bucket) in
      if \<not> within bucketBase resolved
      then Inl (ErrText ''invalid object key or version: path traversal detected'')
      else Inr resolved))"

definition dataPath :: "string \<Rightarrow> ObjectInfo \<Rightarrow> string result" where
  "dataPath dataDir info =
    (if oiBlobID info = [] then objectPathWithVersion dataDir (oiBucket info) (oiKey info) (oiVersionID info)
     else if \<not> isBlobID (oiBlobID info) then Inl (ErrText ''invalid blob ID in metadata'')
     else Inr (blobPath dataDir (oiBucket info) (oiBlobID info)))"

definition validateBucketName :: "string \<Rightarrow> unit result" where
  "validateBucketName name =
    (if \<not> IsValidBucketName name then Inl (S3Error ''InvalidBucketName'' ''The specified bucket is not valid.'')
     else Inr ())"

text \<open>newBlob: the new blob's ID and path. The directories it creates need no
  state of their own; mkdir_ok says whether creating them succeeded.\<close>

definition newBlob :: "string \<Rightarrow> string \<Rightarrow> string \<Rightarrow> bool \<Rightarrow> (string \<times> string) result" where
  "newBlob dataDir bucket rnd mkdir_ok =
    bindE (validateBucketName bucket) (\<lambda>_.
      let i = newBlobID rnd in
      if \<not> mkdir_ok then Inl (ErrText ''failed to create blob directory'')
      else Inr (i, blobPath dataDir bucket i))"

definition errBucketNotFound :: string where
  "errBucketNotFound = ''The specified bucket does not exist''"

definition bucketMustExist :: "'b bolt \<Rightarrow> 'b mstore \<Rightarrow> string \<Rightarrow> (unit, 'b) mresult" where
  "bucketMustExist B m name =
    (case BucketExists B m name of
       (Inl e, m) \<Rightarrow> (Inl e, m)
     | (Inr exists', m) \<Rightarrow> if \<not> exists' then (Inl (S3Error ''NoSuchBucket'' errBucketNotFound), m) else (Inr (), m))"

definition requireBucket :: "'b bolt \<Rightarrow> 'b mstore \<Rightarrow> string \<Rightarrow> (unit, 'b) mresult" where
  "requireBucket B m name =
    (case validateBucketName name of
       Inl e \<Rightarrow> (Inl e, m)
     | Inr _ \<Rightarrow> bucketMustExist B m name)"

subsection \<open>Multipart directories\<close>

definition multipartUploadPath :: "string \<Rightarrow> string \<Rightarrow> string \<Rightarrow> string result" where
  "multipartUploadPath dataDir bucket uploadID =
    (if \<not> IsLocal bucket \<or> hasPathTraversal bucket then Inl (ErrText errInvalidBucketTraversal)
     else if \<not> IsLocal uploadID \<or> hasPathTraversal uploadID \<or> ContainsAny uploadID slashes
     then Inl (ErrText errInvalidUploadID)
     else
       let base = Clean (JoinPath [dataDir, ''multipart'', bucket]);
           resolved = Clean (JoinPath [base, uploadID]) in
       if \<not> within base resolved then Inl (ErrText errInvalidUploadID) else Inr resolved)"

definition multipartDir :: "string \<Rightarrow> string \<Rightarrow> string \<Rightarrow> string \<Rightarrow> string result" where
  "multipartDir dataDir bucket key uploadID =
    (let trimmedKey = TrimLeft key slashes in
     if \<not> IsLocal bucket \<or> hasPathTraversal bucket then Inl (ErrText errInvalidBucketTraversal)
     else if hasPathTraversal key then Inl (ErrText errInvalidKeyTraversal)
     else if trimmedKey \<noteq> [] \<and> (\<not> IsLocal trimmedKey \<or> hasPathTraversal trimmedKey)
     then Inl (ErrText errInvalidKeyTraversal)
     else if trimmedKey = [] \<and> key \<noteq> [] then Inl (ErrText errInvalidKeyTraversal)
     else if \<not> IsLocal uploadID \<or> hasPathTraversal uploadID then Inl (ErrText errInvalidUploadID)
     else bindE (multipartUploadPath dataDir bucket uploadID) (\<lambda>uploadPath.
       let cleanUploadPath = Clean uploadPath;
           resolved = Clean (JoinPath [cleanUploadPath, key]) in
       if \<not> within cleanUploadPath resolved then Inl (ErrText errInvalidKeyTraversal) else Inr resolved))"

subsection \<open>Removing emptied directories\<close>

text \<open>The directory tree is the list of the paths that exist. The loop climbs
  from the removed file while directories are empty; each turn shortens the
  path, so its length bounds the loop.\<close>

definition ReadDir :: "string list \<Rightarrow> string \<Rightarrow> string list option" where
  "ReadDir ps d = (if d \<in> set ps then Some (filter (\<lambda>p. Dir p = d \<and> p \<noteq> d) ps) else None)"

fun cleanup_loop :: "nat \<Rightarrow> string \<Rightarrow> string \<Rightarrow> string list \<Rightarrow> string list" where
  "cleanup_loop 0 bucketDir dir ps = ps"
| "cleanup_loop (Suc fuel) bucketDir dir ps =
    (if dir = bucketDir then ps
     else
       let cleanDir = Clean dir in
       if \<not> HasPrefix cleanDir (bucketDir @ ''/'') then ps
       else if (case Rel bucketDir cleanDir of None \<Rightarrow> True | Some r \<Rightarrow> IsAbs r \<or> isRelTraversal r) then ps
       else case ReadDir ps cleanDir of
              None \<Rightarrow> ps
            | Some entries \<Rightarrow>
                if entries \<noteq> [] then ps
                else
                  let ps = filter (\<lambda>p. p \<noteq> cleanDir) ps; parent = Dir cleanDir in
                  if parent = cleanDir then ps else cleanup_loop fuel bucketDir parent ps)"

definition cleanupParentDirs :: "string \<Rightarrow> string \<Rightarrow> string \<Rightarrow> string list \<Rightarrow> string list" where
  "cleanupParentDirs dataDir objPath bucket ps =
    (if \<not> IsLocal bucket \<or> hasPathTraversal bucket then ps
     else
       let bucketDir = Clean (bucketPath dataDir bucket);
           cleanObjPath = Clean objPath in
       if \<not> HasPrefix cleanObjPath (bucketDir @ ''/'') then ps
       else if (case Rel bucketDir cleanObjPath of None \<Rightarrow> True | Some r \<Rightarrow> IsAbs r \<or> isRelTraversal r) then ps
       else cleanup_loop (length cleanObjPath) bucketDir (Dir cleanObjPath) ps)"

subsection \<open>Where blobs live\<close>

lemma hex_digit_is_hex: "is_hex (hex_digit n)"
proof -
  have "\<forall>c\<in>set ''0123456789abcdef''. is_hex c" by code_simp
  moreover have "hex_digit n \<in> set ''0123456789abcdef''"
    unfolding hex_digit_def by (rule nth_mem) simp
  ultimately show ?thesis by blast
qed

lemma hex_encode_props: "length (hex_encode s) = 2 * length s \<and> (\<forall>c\<in>set (hex_encode s). is_hex c)"
  by (induction s) (auto simp: hex_digit_is_hex)

lemma newBlobID_is: "16 \<le> length rnd \<Longrightarrow> isBlobID (newBlobID rnd)"
  using hex_encode_props [of "take 16 rnd"] by (simp add: isBlobID_def newBlobID_def)

lemma is_hex_cases: "is_hex c \<Longrightarrow> c \<noteq> CHR ''/'' \<and> c \<noteq> CHR ''.''"
  by (auto simp: is_hex_def hex_val_def is_digit_def split: if_splits)

lemma hex_comp: "w \<noteq> [] \<Longrightarrow> \<forall>c\<in>set w. is_hex c \<Longrightarrow> comp_ok w \<and> w \<noteq> ''..''"
  by (cases w) (auto simp: comp_ok_def dest: is_hex_cases)

lemma bucket_comp:
  assumes "IsValidBucketName b" shows "comp_ok b \<and> b \<noteq> ''..''"
proof -
  have "3 \<le> length b" using IsValidBucketName_length [OF assms] by simp
  then have "b \<noteq> []" "b \<noteq> ''.''" "b \<noteq> ''..''" by auto
  with IsValidBucketName_no_slash [OF assms] show ?thesis by (simp add: comp_ok_def)
qed

lemma isBlobID_parts:
  assumes "isBlobID i"
  shows "comp_ok i \<and> i \<noteq> ''..''" "comp_ok (take 2 i) \<and> take 2 i \<noteq> ''..''"
    "comp_ok (take 2 (drop 2 i)) \<and> take 2 (drop 2 i) \<noteq> ''..''"
proof -
  have h: "\<forall>c\<in>set i. is_hex c" and l: "length i = 32" using assms by (auto simp: isBlobID_def)
  have "\<forall>c\<in>set (take 2 i). is_hex c" "\<forall>c\<in>set (take 2 (drop 2 i)). is_hex c"
    using h by (auto dest: in_set_takeD in_set_dropD)
  moreover have "i \<noteq> []" "take 2 i \<noteq> []" "take 2 (drop 2 i) \<noteq> []" using l by auto
  ultimately show "comp_ok i \<and> i \<noteq> ''..''" "comp_ok (take 2 i) \<and> take 2 i \<noteq> ''..''"
    "comp_ok (take 2 (drop 2 i)) \<and> take 2 (drop 2 i) \<noteq> ''..''"
    using h hex_comp by blast+
qed

lemma render_rooted: "is_rooted (render_path True cs)"
  by (simp add: is_rooted_def render_path_def)

lemma path_comps_render:
  assumes "\<forall>c\<in>set cs. comp_ok c \<and> c \<noteq> ''..''" shows "path_comps (render_path True cs) = cs"
proof (cases "cs = []")
  case True
  then show ?thesis by (simp add: path_comps_def render_path_def)
next
  case False
  have "SplitByte CHR ''/'' (CHR ''/'' # JoinByte CHR ''/'' cs) = [] # cs"
    using Split_Join [OF False] assms by (simp add: comp_ok_def)
  then show ?thesis using render_rooted [of cs] clean_comps_plain [OF assms, of True "[]"]
    by (simp add: path_comps_def render_path_def)
qed

lemma path_comps_rooted_ok: "is_rooted d \<Longrightarrow> \<forall>c\<in>set (path_comps d). comp_ok c \<and> c \<noteq> ''..''"
  using path_comps_ok path_comps_rooted by metis

lemma blobPath_comps:
  assumes d: "is_rooted dataDir" and b: "IsValidBucketName bucket" and i: "isBlobID i"
  shows "blobPath dataDir bucket i =
    render_path True (path_comps dataDir @ [''blobs'', bucket, take 2 i, take 2 (drop 2 i), i])"
proof -
  have bl: "comp_ok ''blobs'' \<and> ''blobs'' \<noteq> ''..''" by (simp add: comp_ok_def)
  have 1: "blobDir dataDir bucket = render_path True (path_comps dataDir @ [''blobs'', bucket])"
    unfolding blobDir_def by (rule JoinPath_comps) (use d bl bucket_comp [OF b] in auto)
  have 2: "path_comps (blobDir dataDir bucket) = path_comps dataDir @ [''blobs'', bucket]"
    unfolding 1 by (rule path_comps_render) (use path_comps_rooted_ok [OF d] bl bucket_comp [OF b] in auto)
  have "blobPath dataDir bucket i =
      render_path True (path_comps (blobDir dataDir bucket) @ [take 2 i, take 2 (drop 2 i), i])"
    unfolding blobPath_def
    by (rule JoinPath_comps) (use isBlobID_parts [OF i] in \<open>auto simp: 1 render_rooted\<close>)
  with 2 show ?thesis by simp
qed

lemma blobPath_inject:
  assumes "is_rooted dataDir" "IsValidBucketName b" "IsValidBucketName b'" "isBlobID i" "isBlobID i'"
    and "blobPath dataDir b i = blobPath dataDir b' i'"
  shows "b = b' \<and> i = i'"
proof -
  have ok: "\<forall>c\<in>set (path_comps dataDir @ [''blobs'', x, take 2 j, take 2 (drop 2 j), j]). comp_ok c"
    if "IsValidBucketName x" "isBlobID j" for x j
    using path_comps_ok [of dataDir] bucket_comp [OF that(1)] isBlobID_parts [OF that(2)]
    by (auto simp: comp_ok_def)
  from render_inj [OF ok ok] assms blobPath_comps show ?thesis by fastforce
qed

subsection \<open>Confinement\<close>

lemma Clean_render: "is_rooted p \<Longrightarrow> Clean p = render_path True (path_comps p)"
  by (simp add: Clean_def)

lemma path_comps_Clean: "is_rooted p \<Longrightarrow> path_comps (Clean p) = path_comps p"
  by (simp add: Clean_render path_comps_render path_comps_rooted_ok)

lemma prefix_render_comps:
  assumes a: "\<forall>c\<in>set a. comp_ok c \<and> c \<noteq> ''..''" and b: "\<forall>c\<in>set b. comp_ok c \<and> c \<noteq> ''..''"
    and ne: "a \<noteq> []" and p: "render_path True b = render_path True a \<or> HasPrefix (render_path True b) (render_path True a @ ''/'')"
  shows "prefix a b"
  using p
proof
  assume "render_path True b = render_path True a"
  then have "b = a" using render_inj a b by blast
  then show ?thesis by simp
next
  assume "HasPrefix (render_path True b) (render_path True a @ ''/'')"
  then obtain r where "render_path True b = render_path True a @ CHR ''/'' # r" by (auto simp: prefix_def)
  then have e: "SplitByte CHR ''/'' (render_path True b) = SplitByte CHR ''/'' (render_path True a) @ SplitByte CHR ''/'' r"
    by (simp add: Split_append_sep)
  have S: "SplitByte CHR ''/'' (render_path True x) = [] # x" if "x \<noteq> []" "\<forall>c\<in>set x. comp_ok c \<and> c \<noteq> ''..''" for x
    using Split_Join [OF that(1), of "CHR ''/''"] that(2) by (simp add: render_path_def comp_ok_def)
  show ?thesis
  proof (cases "b = []")
    case True
    with e S [OF ne a] have "length [[] :: string] = length a + length (SplitByte CHR ''/'' r)"
      by (metis JoinByte.simps(1) SplitByte.simps length_append list.inject append_Cons render_path_def)
    with ne show ?thesis by (cases a) auto
  next
    case False
    with e S [OF ne a] S [OF False b] show ?thesis by (auto simp: prefix_def)
  qed
qed

lemma within_comps:
  assumes "is_rooted base" "is_rooted p" "path_comps base \<noteq> []" "within (Clean base) (Clean p)"
  shows "prefix (path_comps base) (path_comps p)"
  using assms unfolding within_def
  by (intro prefix_render_comps) (auto simp: Clean_render dest: path_comps_rooted_ok)

lemma JoinByte_append: "as \<noteq> [] \<Longrightarrow> bs \<noteq> [] \<Longrightarrow> JoinByte c (as @ bs) = JoinByte c as @ c # JoinByte c bs"
  by (induction c as rule: JoinByte.induct) (auto simp: JoinByte_Cons)

lemma Clean_rooted: "is_rooted p \<Longrightarrow> is_rooted (Clean p)"
  by (simp add: Clean_render render_rooted)

lemma JoinPath_rooted: "is_rooted d \<Longrightarrow> is_rooted (JoinPath (d # es))"
proof -
  assume d: "is_rooted d"
  then have "d \<noteq> []" by (auto simp: is_rooted_def)
  then have e: "JoinPath (d # es) = Clean (JoinByte CHR ''/'' (d # es))" by (simp add: JoinPath_def)
  have "is_rooted (JoinByte CHR ''/'' (d # es))"
    using d by (cases es) (auto simp: is_rooted_def prefix_def)
  then show ?thesis unfolding e by (rule Clean_rooted)
qed

lemma bucketPath_comps:
  assumes "is_rooted dataDir" "IsValidBucketName b"
  shows "path_comps (bucketPath dataDir b) = path_comps dataDir @ [''buckets'', b]" "is_rooted (bucketPath dataDir b)"
proof -
  have bl: "comp_ok ''buckets'' \<and> ''buckets'' \<noteq> ''..''" by (simp add: comp_ok_def)
  have 1: "bucketPath dataDir b = render_path True (path_comps dataDir @ [''buckets'', b])"
    unfolding bucketPath_def by (rule JoinPath_comps) (use assms bl bucket_comp [OF assms(2)] in auto)
  show "path_comps (bucketPath dataDir b) = path_comps dataDir @ [''buckets'', b]"
    unfolding 1 by (rule path_comps_render) (use path_comps_rooted_ok [OF assms(1)] bl bucket_comp [OF assms(2)] in auto)
  show "is_rooted (bucketPath dataDir b)" unfolding 1 by (rule render_rooted)
qed

lemma objectPath_rooted: "objectPath dataDir b key = Inr p \<Longrightarrow> is_rooted dataDir \<Longrightarrow> is_rooted p"
  by (auto simp: objectPath_def Let_def bindE_Inr_iff bucketPath_def
      intro!: Clean_rooted JoinPath_rooted split: if_splits)

lemma objectPathWithVersion_within:
  assumes d: "is_rooted dataDir" and b: "IsValidBucketName b"
    and p: "objectPathWithVersion dataDir b key v = Inr p"
  shows "prefix (path_comps dataDir @ [''buckets'', b]) (path_comps p) \<and> is_rooted p"
proof -
  note B = bucketPath_comps [OF d b]
  from p obtain q where q: "objectPath dataDir b key = Inr q"
    and w: "within (Clean (bucketPath dataDir b)) (Clean (if v \<noteq> [] then q @ ''.'' @ v else q))"
    and pe: "p = Clean (if v \<noteq> [] then q @ ''.'' @ v else q)"
    unfolding objectPathWithVersion_def Let_def bindE_Inr_iff if_Inl_iff by (clarsimp simp del: split_paired_Ex)
  have r: "is_rooted (if v \<noteq> [] then q @ ''.'' @ v else q)"
    using objectPath_rooted [OF q d] by (auto simp: is_rooted_def prefix_def)
  have "prefix (path_comps (bucketPath dataDir b)) (path_comps (if v \<noteq> [] then q @ ''.'' @ v else q))"
    by (rule within_comps [OF B(2) r _ w]) (simp add: B)
  with B r pe show ?thesis by (simp add: path_comps_Clean Clean_rooted)
qed

lemma dataPath_within:
  assumes d: "is_rooted dataDir" and b: "IsValidBucketName (oiBucket info)" and p: "dataPath dataDir info = Inr p"
  shows "(prefix (path_comps dataDir @ [''blobs'', oiBucket info]) (path_comps p)
     \<or> prefix (path_comps dataDir @ [''buckets'', oiBucket info]) (path_comps p))
     \<and> ''..'' \<notin> set (path_comps p)"
proof (cases "oiBlobID info = []")
  case True
  with p have "objectPathWithVersion dataDir (oiBucket info) (oiKey info) (oiVersionID info) = Inr p"
    by (simp add: dataPath_def)
  from objectPathWithVersion_within [OF d b this] path_comps_rooted show ?thesis by blast
next
  case False
  with p have i: "isBlobID (oiBlobID info)" and p': "p = blobPath dataDir (oiBucket info) (oiBlobID info)"
    by (auto simp: dataPath_def split: if_splits)
  let ?cs = "path_comps dataDir @ [''blobs'', oiBucket info, take 2 (oiBlobID info),
      take 2 (drop 2 (oiBlobID info)), oiBlobID info]"
  have "p = render_path True ?cs" unfolding p' by (rule blobPath_comps [OF d b i])
  moreover have "\<forall>c\<in>set ?cs. comp_ok c \<and> c \<noteq> ''..''"
    using path_comps_rooted_ok [OF d] bucket_comp [OF b] isBlobID_parts [OF i] by (auto simp: comp_ok_def)
  ultimately have e: "path_comps p = ?cs" and n: "''..'' \<notin> set ?cs" using path_comps_render by blast+
  have "prefix (path_comps dataDir @ [''blobs'', oiBucket info]) ?cs"
    by (rule prefixI [of _ _ "[take 2 (oiBlobID info), take 2 (drop 2 (oiBlobID info)), oiBlobID info]"]) simp
  with n show ?thesis unfolding e by blast
qed

subsection \<open>Properties\<close>

text \<open>C28: whatever a record's key, version and blob ID are, the path its data is read
  from, written to or removed from lies below the bucket's own blob directory or its
  own legacy directory and has no parent component.\<close>

theorem data_path_confined:
  assumes "is_rooted dataDir" and "IsValidBucketName (oiBucket info)" and "dataPath dataDir info = Inr p"
  shows "(prefix (path_comps dataDir @ [''blobs'', oiBucket info]) (path_comps p)
     \<or> prefix (path_comps dataDir @ [''buckets'', oiBucket info]) (path_comps p))
     \<and> ''..'' \<notin> set (path_comps p)"
  using dataPath_within [OF assms] .

definition ex_info :: "string \<Rightarrow> string \<Rightarrow> string \<Rightarrow> ObjectInfo" where
  "ex_info key vid blob = \<lparr>oiBucket = ''bkt'', oiKey = key, oiSize = 3, oiETag = ''e'', oiContentType = ''t'',
     oiLastModified = 5, oiVersionID = vid, oiIsLatest = True, oiNoncurrentSince = 0,
     oiIsDeleteMarker = False, oiSSECustomerAlgorithm = [], oiSSECustomerKeyMD5 = [],
     oiCompressed = False, oiBlobID = blob\<rparr>"

theorem data_path_confined_witness:
  "dataPath ''/data'' (ex_info ''a/b'' ''v1'' []) = Inr ''/data/buckets/bkt/a/b.v1'' \<and>
   ''..'' \<notin> set (path_comps ''/data/buckets/bkt/a/b.v1'')"
proof
  show e: "dataPath ''/data'' (ex_info ''a/b'' ''v1'' []) = Inr ''/data/buckets/bkt/a/b.v1''" by code_simp
  have b: "IsValidBucketName (oiBucket (ex_info ''a/b'' ''v1'' []))" by code_simp
  have r: "is_rooted ''/data''" by code_simp
  from data_path_confined [OF r b e] show "''..'' \<notin> set (path_comps ''/data/buckets/bkt/a/b.v1'')" by simp
qed

text \<open>Two blobs share a path only if they are the same blob of the same bucket, so
  a new version's data never overwrites another's.\<close>

theorem blob_path_injective:
  assumes "is_rooted dataDir" and "IsValidBucketName b" and "IsValidBucketName b'" and "isBlobID i" and "isBlobID i'"
    and "blobPath dataDir b i = blobPath dataDir b' i'"
  shows "b = b' \<and> i = i'"
  using blobPath_inject [OF assms] .

theorem blob_path_injective_witness:
  "blobPath ''/data'' ''bkt'' ''0123456789abcdef0123456789abcdef'' =
     ''/data/blobs/bkt/01/23/0123456789abcdef0123456789abcdef'' \<and>
   (''bkt'' = ''bkt'' \<and> ''0123456789abcdef0123456789abcdef'' = ''0123456789abcdef0123456789abcdef'')"
proof
  have r: "is_rooted ''/data''" and b: "IsValidBucketName ''bkt''"
    and i: "isBlobID ''0123456789abcdef0123456789abcdef''" by code_simp+
  show "''bkt'' = ''bkt'' \<and> ''0123456789abcdef0123456789abcdef'' = ''0123456789abcdef0123456789abcdef''"
    by (rule blob_path_injective [OF r b b i i refl])
  show "blobPath ''/data'' ''bkt'' ''0123456789abcdef0123456789abcdef'' =
     ''/data/blobs/bkt/01/23/0123456789abcdef0123456789abcdef''" by code_simp
qed

end
