(* ===== verification/Listing.thy ===== *)
theory Listing
  imports Paths Object_Spec
begin

text \<open>
  ListObjects (filesystem.go), ListObjectVersions, ListMultipartUploads and
  ListParts (listing.go). The cursor is the list of the entries from its
  position on. The loops of the first two re-seek the cursor, so they are
  defined with fuel: None is a loop that has not ended yet. Listing_Props shows
  how much fuel is enough, and where no fuel is.
\<close>

definition advanceToken :: "string \<Rightarrow> string \<Rightarrow> string" where
  "advanceToken current candidate = (if candidate > current then candidate else current)"

subsection \<open>ListObjects\<close>

record lo_state =
  loObjects :: "ObjectInfo list"
  loCommonPrefixes :: "string list"
  loIsTruncated :: bool
  loNextToken :: string

text \<open>One turn of the loop: Inl is a break or an error, Inr the next state and
  cursor. commonPrefixSet holds exactly the prefixes appended to commonPrefixes.\<close>

definition lo_step ::
  "(string \<times> dbvalue) list \<Rightarrow> string \<Rightarrow> ListObjectsInput \<Rightarrow> string \<Rightarrow> int \<Rightarrow> lo_state \<Rightarrow>
   (string \<times> dbvalue) list \<Rightarrow> lo_state result + (lo_state \<times> (string \<times> dbvalue) list)" where
  "lo_step es bucketPrefix input startAfter maxKeys st cur =
    (case cur of
       [] \<Rightarrow> Inl (Inr st)
     | (k, v) # rest \<Rightarrow>
        if \<not> HasPrefix k bucketPrefix then Inl (Inr st)
        else
          let objectKey = drop (length bucketPrefix) k in
          if HasByte objectKey nul then Inr (st, rest)
          else if startAfter \<noteq> [] \<and> objectKey \<le> startAfter then Inr (st, rest)
          else if inPrefix input \<noteq> [] \<and> \<not> HasPrefix objectKey (inPrefix input) then Inl (Inr st)
          else case unmarshal_obj v of
            Inl e \<Rightarrow> Inl (Inl e)
          | Inr obj \<Rightarrow>
             if oiIsDeleteMarker obj then Inr (st, rest)
             else
               let remaining = drop (length (inPrefix input)) objectKey;
                   full = (int (length (loObjects st) + length (loCommonPrefixes st)) \<ge> maxKeys) in
               case (if inDelimiter input \<noteq> [] then Index remaining (inDelimiter input) else None) of
                 Some delimIdx \<Rightarrow>
                   (let dirPrefix = inPrefix input @ take (delimIdx + length (inDelimiter input)) remaining;
                        next = dropWhile (\<lambda>e. fst e < bucketPrefix @ dirPrefix @ [CHR 0xFF]) es in
                    if dirPrefix \<notin> set (loCommonPrefixes st) then
                      if full then Inl (Inr (st\<lparr>loIsTruncated := True\<rparr>))
                      else Inr (st\<lparr>loCommonPrefixes := loCommonPrefixes st @ [dirPrefix],
                                   loNextToken := advanceToken (loNextToken st) dirPrefix\<rparr>, next)
                    else Inr (st, next))
               | None \<Rightarrow>
                   if full then Inl (Inr (st\<lparr>loIsTruncated := True\<rparr>))
                   else Inr (st\<lparr>loObjects := loObjects st @ [obj],
                                loNextToken := advanceToken (loNextToken st) (oiKey obj)\<rparr>, rest))"

fun lo_loop ::
  "nat \<Rightarrow> (string \<times> dbvalue) list \<Rightarrow> string \<Rightarrow> ListObjectsInput \<Rightarrow> string \<Rightarrow> int \<Rightarrow> lo_state \<Rightarrow>
   (string \<times> dbvalue) list \<Rightarrow> lo_state result option" where
  "lo_loop 0 es bucketPrefix input startAfter maxKeys st cur = None"
| "lo_loop (Suc fuel) es bucketPrefix input startAfter maxKeys st cur =
    (case lo_step es bucketPrefix input startAfter maxKeys st cur of
       Inl r \<Rightarrow> Some r
     | Inr (st', cur') \<Rightarrow> lo_loop fuel es bucketPrefix input startAfter maxKeys st' cur')"

definition lo_startAfter :: "ListObjectsInput \<Rightarrow> string" where
  "lo_startAfter input = (if inContinuationToken input \<noteq> [] then inContinuationToken input else inStartAfter input)"

definition lo_maxKeys :: "ListObjectsInput \<Rightarrow> int" where
  "lo_maxKeys input = (if inMaxKeys input \<le> 0 then 1000 else inMaxKeys input)"

definition lo_seekKey :: "string \<Rightarrow> ListObjectsInput \<Rightarrow> string" where
  "lo_seekKey bucketPrefix input =
    (let startAfter = lo_startAfter input;
         seekKey = (if inPrefix input \<noteq> [] then bucketPrefix @ inPrefix input else bucketPrefix) in
     if startAfter \<noteq> [] then
       advanceToken seekKey
         (if inDelimiter input \<noteq> [] \<and> HasSuffix startAfter (inDelimiter input)
          then bucketPrefix @ startAfter @ [CHR 0xFF] else bucketPrefix @ startAfter @ [nul])
     else seekKey)"

definition lo_finish :: "lo_state \<Rightarrow> ListObjectsOutput" where
  "lo_finish st = \<lparr>outObjects = loObjects st, outCommonPrefixes = sort (loCommonPrefixes st),
     outIsTruncated = loIsTruncated st,
     outNextContinuationToken = (if \<not> loIsTruncated st then [] else loNextToken st),
     outKeyCount = int (length (loObjects st) + length (loCommonPrefixes st))\<rparr>"

definition listObjectsTx :: "nat \<Rightarrow> 'b bolt \<Rightarrow> 'b bdb \<Rightarrow> ListObjectsInput \<Rightarrow> ListObjectsOutput result option" where
  "listObjectsTx fuel B db input =
    (let bucketPrefix = inBucket input @ [nul];
         es = bk_entries B (dbObjects db);
         st = \<lparr>loObjects = [], loCommonPrefixes = [], loIsTruncated = False, loNextToken = []\<rparr> in
     case lo_loop fuel es bucketPrefix input (lo_startAfter input) (lo_maxKeys input) st
            (cur_seek B (dbObjects db) (lo_seekKey bucketPrefix input)) of
       None \<Rightarrow> None
     | Some (Inl e) \<Rightarrow> Some (Inl e)
     | Some (Inr st) \<Rightarrow> Some (Inr (lo_finish st)))"

definition ListObjects ::
  "nat \<Rightarrow> 'b bolt \<Rightarrow> 'b mstore \<Rightarrow> ListObjectsInput \<Rightarrow> (ListObjectsOutput, 'b) mresult option" where
  "ListObjects fuel B m input =
    (case requireBucket B m (inBucket input) of
       (Inl e, m) \<Rightarrow> Some (Inl e, m)
     | (Inr _, m) \<Rightarrow>
        (case acquireBucketDB B m (inBucket input) of
           Inl e \<Rightarrow> Some (Inl e, m)
         | Inr (db, m) \<Rightarrow> map_option (\<lambda>r. (r, m)) (listObjectsTx fuel B db input)))"

subsection \<open>ListObjectVersions\<close>

record ListVersionsInput =
  lvBucket :: string
  lvPrefix :: string
  lvDelimiter :: string
  lvMaxKeys :: int
  lvKeyMarker :: string
  lvVersionIDMarker :: string

record ListVersionsOutput =
  voVersions :: "ObjectInfo list"
  voDeleteMarkers :: "ObjectInfo list"
  voCommonPrefixes :: "string list"
  voIsTruncated :: bool
  voNextKeyMarker :: string
  voNextVersionIDMarker :: string

text \<open>The loop's own variables beside the output: the number of entries emitted and
  the last of them.\<close>

record lv_state =
  lvOut :: ListVersionsOutput
  lvCount :: int
  lvLastKey :: string
  lvLastVersionID :: string

definition markerVersionID :: "string \<Rightarrow> string" where
  "markerVersionID versionID = (if versionID = [] then ''null'' else versionID)"

definition versionsAfterMarker :: "ObjectInfo list \<Rightarrow> string \<Rightarrow> ObjectInfo list" where
  "versionsAfterMarker versions versionIDMarker =
    (if versionIDMarker = [] then []
     else drop 1 (dropWhile (\<lambda>i. markerVersionID (oiVersionID i) \<noteq> versionIDMarker) versions))"

definition objectKeyOf :: "string \<Rightarrow> string \<Rightarrow> string" where
  "objectKeyOf bucketPrefix raw = takeWhile (\<lambda>c. c \<noteq> nul) (drop (length bucketPrefix) raw)"

definition pageFull :: "lv_state \<Rightarrow> lv_state" where
  "pageFull st = st\<lparr>lvOut := (lvOut st)\<lparr>voIsTruncated := True, voNextKeyMarker := lvLastKey st,
     voNextVersionIDMarker := lvLastVersionID st\<rparr>\<rparr>"

fun lv_emit :: "int \<Rightarrow> lv_state \<Rightarrow> ObjectInfo list \<Rightarrow> lv_state \<times> bool" where
  "lv_emit maxKeys st [] = (st, False)"
| "lv_emit maxKeys st (info # is) =
    (if lvCount st \<ge> maxKeys then (pageFull st, True)
     else lv_emit maxKeys
       (st\<lparr>lvOut := (if oiIsDeleteMarker info
              then (lvOut st)\<lparr>voDeleteMarkers := voDeleteMarkers (lvOut st) @ [info]\<rparr>
              else (lvOut st)\<lparr>voVersions := voVersions (lvOut st) @ [info]\<rparr>),
            lvLastKey := oiKey info, lvLastVersionID := markerVersionID (oiVersionID info),
            lvCount := lvCount st + 1\<rparr>) is)"

definition lv_markerIsPrefix :: "ListVersionsInput \<Rightarrow> bool" where
  "lv_markerIsPrefix input \<longleftrightarrow> lvKeyMarker input \<noteq> [] \<and> lvDelimiter input \<noteq> []
     \<and> HasSuffix (lvKeyMarker input) (lvDelimiter input)"

definition lv_step ::
  "(string \<times> dbvalue) list \<Rightarrow> string \<Rightarrow> ListVersionsInput \<Rightarrow> int \<Rightarrow> lv_state \<Rightarrow>
   (string \<times> dbvalue) list \<Rightarrow> lv_state result + (lv_state \<times> (string \<times> dbvalue) list)" where
  "lv_step es bucketPrefix input maxKeys st cur =
    (case cur of
       [] \<Rightarrow> Inl (Inr st)
     | (k, v) # _ \<Rightarrow>
        if \<not> HasPrefix k bucketPrefix then Inl (Inr st)
        else
          let objectKey = objectKeyOf bucketPrefix k in
          if \<not> HasPrefix objectKey (lvPrefix input) then Inl (Inr st)
          else
            let remaining = drop (length (lvPrefix input)) objectKey in
            case (if lvDelimiter input \<noteq> [] then Index remaining (lvDelimiter input) else None) of
              Some idx \<Rightarrow>
                (let dirPrefix = lvPrefix input @ take (idx + length (lvDelimiter input)) remaining in
                 if lvCount st \<ge> maxKeys then Inl (Inr (pageFull st))
                 else Inr
                   (st\<lparr>lvOut := (lvOut st)\<lparr>voCommonPrefixes := voCommonPrefixes (lvOut st) @ [dirPrefix]\<rparr>,
                       lvLastKey := dirPrefix, lvLastVersionID := [], lvCount := lvCount st + 1\<rparr>,
                    dropWhile (\<lambda>e. fst e < bucketPrefix @ dirPrefix @ [CHR 0xFF]) es))
            | None \<Rightarrow>
                (let same = (\<lambda>e. HasPrefix (fst e) bucketPrefix \<and> objectKeyOf bucketPrefix (fst e) = objectKey) in
                 case unmarshal_all (map snd (takeWhile same cur)) of
                   Inl e \<Rightarrow> Inl (Inl e)
                 | Inr infos \<Rightarrow>
                    (let keyVersions = sort_key (\<lambda>i. - oiLastModified i) (dedup_versions [] infos);
                         keyVersions = (if objectKey = lvKeyMarker input \<and> \<not> lv_markerIsPrefix input
                           then versionsAfterMarker keyVersions (lvVersionIDMarker input) else keyVersions) in
                     case lv_emit maxKeys st keyVersions of
                       (st, full) \<Rightarrow> if full then Inl (Inr st) else Inr (st, dropWhile same cur))))"

fun lv_loop ::
  "nat \<Rightarrow> (string \<times> dbvalue) list \<Rightarrow> string \<Rightarrow> ListVersionsInput \<Rightarrow> int \<Rightarrow> lv_state \<Rightarrow>
   (string \<times> dbvalue) list \<Rightarrow> lv_state result option" where
  "lv_loop 0 es bucketPrefix input maxKeys st cur = None"
| "lv_loop (Suc fuel) es bucketPrefix input maxKeys st cur =
    (case lv_step es bucketPrefix input maxKeys st cur of
       Inl r \<Rightarrow> Some r
     | Inr (st', cur') \<Rightarrow> lv_loop fuel es bucketPrefix input maxKeys st' cur')"

definition lv_start :: "ListVersionsInput \<Rightarrow> string" where
  "lv_start input =
    (if lvKeyMarker input \<noteq> [] then
       advanceToken (lvPrefix input)
         (if lv_markerIsPrefix input then lvKeyMarker input @ [CHR 0xFF] else lvKeyMarker input)
     else lvPrefix input)"

definition listObjectVersionsTx ::
  "nat \<Rightarrow> 'b bolt \<Rightarrow> 'b bdb \<Rightarrow> ListVersionsInput \<Rightarrow> ListVersionsOutput result option" where
  "listObjectVersionsTx fuel B db input =
    (let bucketPrefix = lvBucket input @ [nul];
         maxKeys = (if lvMaxKeys input \<le> 0 then 1000 else lvMaxKeys input);
         st = \<lparr>lvOut = \<lparr>voVersions = [], voDeleteMarkers = [], voCommonPrefixes = [], voIsTruncated = False,
                 voNextKeyMarker = [], voNextVersionIDMarker = []\<rparr>,
               lvCount = 0, lvLastKey = [], lvLastVersionID = []\<rparr> in
     case lv_loop fuel (bk_entries B (dbObjects db)) bucketPrefix input maxKeys st
            (cur_seek B (dbObjects db) (bucketPrefix @ lv_start input)) of
       None \<Rightarrow> None
     | Some (Inl e) \<Rightarrow> Some (Inl e)
     | Some (Inr st) \<Rightarrow> Some (Inr (lvOut st)))"

definition ListObjectVersions ::
  "nat \<Rightarrow> 'b bolt \<Rightarrow> 'b mstore \<Rightarrow> ListVersionsInput \<Rightarrow> (ListVersionsOutput, 'b) mresult option" where
  "ListObjectVersions fuel B m input =
    (case requireBucket B m (lvBucket input) of
       (Inl e, m) \<Rightarrow> Some (Inl e, m)
     | (Inr _, m) \<Rightarrow>
        (case acquireBucketDB B m (lvBucket input) of
           Inl e \<Rightarrow> Some (Inl e, m)
         | Inr (db, m) \<Rightarrow> map_option (\<lambda>r. (r, m)) (listObjectVersionsTx fuel B db input)))"

subsection \<open>ListMultipartUploads and ListParts\<close>

fun lm_loop ::
  "string \<Rightarrow> string \<Rightarrow> string \<Rightarrow> string \<Rightarrow> int \<Rightarrow> MultipartUploadInfo list \<Rightarrow> (string \<times> dbvalue) list \<Rightarrow>
   (MultipartUploadInfo list \<times> bool) result" where
  "lm_loop bucketPrefix pfx keyMarker uploadIDMarker maxUploads uploads [] = Inr (uploads, False)"
| "lm_loop bucketPrefix pfx keyMarker uploadIDMarker maxUploads uploads ((k, v) # rest) =
    (if \<not> HasPrefix k bucketPrefix then Inr (uploads, False)
     else bindE (unmarshal_mp v) (\<lambda>mt.
       if pfx \<noteq> [] \<and> \<not> HasPrefix (mpKey mt) pfx then Inr (uploads, False)
       else if keyMarker \<noteq> [] \<and> mpKey mt = keyMarker \<and> mpUploadID mt = uploadIDMarker
       then lm_loop bucketPrefix pfx keyMarker uploadIDMarker maxUploads uploads rest
       else if int (length uploads) \<ge> maxUploads then Inr (uploads, True)
       else lm_loop bucketPrefix pfx keyMarker uploadIDMarker maxUploads
         (uploads @ [\<lparr>muUploadID = mpUploadID mt, muBucket = mpBucket mt, muKey = mpKey mt,
                      muCreated = mpCreated mt\<rparr>]) rest))"

definition listMultipartUploadsTx ::
  "'b bolt \<Rightarrow> 'b bdb \<Rightarrow> string \<Rightarrow> string \<Rightarrow> string \<Rightarrow> string \<Rightarrow> int \<Rightarrow> (MultipartUploadInfo list \<times> bool) result" where
  "listMultipartUploadsTx B db bucket pfx keyMarker uploadIDMarker maxUploads =
    (let maxUploads = (if maxUploads \<le> 0 then 1000 else maxUploads);
         bucketPrefix = bucket @ [nul];
         seekKey = (if keyMarker \<noteq> [] then bucketPrefix @ keyMarker @ [nul] @ uploadIDMarker
                    else if pfx \<noteq> [] then bucketPrefix @ pfx
                    else bucketPrefix) in
     lm_loop bucketPrefix pfx keyMarker uploadIDMarker maxUploads [] (cur_seek B (dbMultipart db) seekKey))"

definition ListMultipartUploads ::
  "'b bolt \<Rightarrow> 'b mstore \<Rightarrow> string \<Rightarrow> string \<Rightarrow> string \<Rightarrow> string \<Rightarrow> int \<Rightarrow>
   (MultipartUploadInfo list \<times> bool, 'b) mresult" where
  "ListMultipartUploads B m bucket pfx keyMarker uploadIDMarker maxUploads =
    (case requireBucket B m bucket of
       (Inl e, m) \<Rightarrow> (Inl e, m)
     | (Inr _, m) \<Rightarrow>
        viewDB B m bucket (\<lambda>db. listMultipartUploadsTx B db bucket pfx keyMarker uploadIDMarker maxUploads))"

definition errUploadNotFound :: string where
  "errUploadNotFound = ''The specified multipart upload does not exist.''"

definition err_text :: "gerr \<Rightarrow> string" where
  "err_text e = (case e of ErrText t \<Rightarrow> t | S3Error c t \<Rightarrow> c @ '': '' @ t | _ \<Rightarrow> [])"

definition ListParts ::
  "'b bolt \<Rightarrow> 'b mstore \<Rightarrow> string \<Rightarrow> string \<Rightarrow> string \<Rightarrow> string \<Rightarrow> (PartInfo list, 'b) mresult" where
  "ListParts B m dataDir bucket key uploadID =
    (case validateBucketName bucket of
       Inl e \<Rightarrow> (Inl e, m)
     | Inr _ \<Rightarrow>
        (case objectPath dataDir bucket key of
           Inl e \<Rightarrow> (Inl (S3Error ''InvalidArgument'' (err_text e)), m)
         | Inr _ \<Rightarrow>
            (case GetMultipartMeta B m bucket key uploadID of
               (Inl e, m) \<Rightarrow> (Inl (if e = ErrMultipartMetaNotFound then S3Error ''NoSuchUpload'' errUploadNotFound else e), m)
             | (Inr mt, m) \<Rightarrow> (Inr (sort_key piPartNumber (mpParts mt)), m))))"

end
