(* ===== verification/Listing_Props.thy ===== *)
theory Listing_Props
  imports Listing Object_Props
begin

text \<open>
  What a listing returns. The visible objects of a bucket are turned into items
  (an object, or the common prefix it rolls up to); a page is the first
  maxKeys of the items after the marker. On a well-formed bucket ListObjects
  ends and returns exactly that page, and the pages chained by their tokens are
  all the items; the two exceptions the code has are stated at the end.
\<close>

subsection \<open>Items\<close>

type_synonym item = "ObjectInfo + string"

definition lo_vis :: "string \<Rightarrow> ListObjectsInput \<Rightarrow> string \<Rightarrow> string \<times> dbvalue \<Rightarrow> ObjectInfo option" where
  "lo_vis bp input sa e =
    (let key = drop (length bp) (fst e) in
     if HasPrefix (fst e) bp \<and> \<not> HasByte key nul \<and> \<not> (sa \<noteq> [] \<and> key \<le> sa) \<and> HasPrefix key (inPrefix input)
     then (case as_obj (Some (snd e)) of Some i \<Rightarrow> if oiIsDeleteMarker i then None else Some i | None \<Rightarrow> None)
     else None)"

definition item_of :: "ListObjectsInput \<Rightarrow> ObjectInfo \<Rightarrow> item" where
  "item_of input i =
    (let remaining = drop (length (inPrefix input)) (oiKey i) in
     case (if inDelimiter input \<noteq> [] then Index remaining (inDelimiter input) else None) of
       Some idx \<Rightarrow> Inr (inPrefix input @ take (idx + length (inDelimiter input)) remaining)
     | None \<Rightarrow> Inl i)"

definition items_of :: "ListObjectsInput \<Rightarrow> ObjectInfo list \<Rightarrow> item list" where
  "items_of input is = remdups_adj (map (item_of input) is)"

fun add_item :: "item \<Rightarrow> lo_state \<Rightarrow> lo_state" where
  "add_item (Inl i) st = st\<lparr>loObjects := loObjects st @ [i], loNextToken := advanceToken (loNextToken st) (oiKey i)\<rparr>"
| "add_item (Inr p) st = st\<lparr>loCommonPrefixes := loCommonPrefixes st @ [p],
     loNextToken := advanceToken (loNextToken st) p\<rparr>"

fun take_items :: "int \<Rightarrow> lo_state \<Rightarrow> item list \<Rightarrow> lo_state" where
  "take_items maxKeys st [] = st"
| "take_items maxKeys st (x # xs) =
    (if int (length (loObjects st) + length (loCommonPrefixes st)) \<ge> maxKeys then st\<lparr>loIsTruncated := True\<rparr>
     else take_items maxKeys (add_item x st) xs)"

lemma Index_stable:
  "Index s d = Some i \<Longrightarrow> prefix (take (i + length d) s) s' \<Longrightarrow> Index s' d = Some i"
proof (induction s arbitrary: i s')
  case Nil
  then show ?case by (cases s') (auto split: if_splits)
next
  case (Cons c s)
  show ?case
  proof (cases "prefix d (c # s)")
    case True
    with Cons.prems have i: "i = 0" by simp
    from True obtain r where "c # s = d @ r" by (auto simp: prefix_def)
    with Cons.prems i have "prefix d s'" by simp
    with i show ?thesis by (cases s') auto
  next
    case False
    with Cons.prems(1) obtain j where j: "i = Suc j" "Index s d = Some j" by auto
    with Cons.prems(2) obtain s'' where s': "s' = c # s''" and p: "prefix (take (j + length d) s) s''"
      by (cases s') auto
    have l: "j + length d \<le> length s" using Index_Some_prefix [OF j(2)] by simp
    have "\<not> prefix d (c # s'')"
    proof
      assume d: "prefix d (c # s'')"
      have "prefix (c # take (j + length d) s) (c # s'')" using p by simp
      with d have "prefix d (c # take (j + length d) s)"
        using l prefix_length_prefix [OF d, of "c # take (j + length d) s"] by simp
      then have "prefix d (c # s)"
        by (metis append_prefixD prefix_order.trans take_is_prefix Cons_prefix_Cons)
      with False show False ..
    qed
    with Cons.IH [OF j(2) p] j s' show ?thesis by simp
  qed
qed

lemma item_prefix: "item_of input i = Inr p \<Longrightarrow> prefix (inPrefix input) (oiKey i) \<Longrightarrow>
   prefix p (oiKey i) \<and> prefix (inPrefix input) p"
  by (auto simp: item_of_def Let_def prefix_def split: option.splits if_splits)
     (metis append.assoc append_take_drop_id)

lemma item_same:
  assumes "item_of input i = Inr p" "prefix (inPrefix input) (oiKey i)" "prefix p (oiKey j)"
  shows "item_of input j = Inr p \<and> prefix (inPrefix input) (oiKey j)"
proof -
  let ?P = "inPrefix input" and ?d = "inDelimiter input"
  from assms(1) obtain idx where d: "?d \<noteq> []" and I: "Index (drop (length ?P) (oiKey i)) ?d = Some idx"
    and p: "p = ?P @ take (idx + length ?d) (drop (length ?P) (oiKey i))"
    by (auto simp: item_of_def Let_def split: option.splits if_splits)
  from assms(3) p obtain r where k: "oiKey j = ?P @ take (idx + length ?d) (drop (length ?P) (oiKey i)) @ r"
    by (auto simp: prefix_def)
  have J: "Index (drop (length ?P) (oiKey j)) ?d = Some idx"
    by (rule Index_stable [OF I]) (simp add: k)
  have "idx + length ?d \<le> length (drop (length ?P) (oiKey i))" using Index_Some_prefix [OF I] by simp
  then have "take (idx + length ?d) (drop (length ?P) (oiKey j)) = take (idx + length ?d) (drop (length ?P) (oiKey i))"
    by (simp add: k)
  with J d p k show ?thesis by (simp add: item_of_def Let_def)
qed

lemma remdups_adj_block:
  "xs \<noteq> [] \<Longrightarrow> \<forall>x\<in>set xs. x = p \<Longrightarrow> p \<notin> set ys \<Longrightarrow> remdups_adj (xs @ ys) = p # remdups_adj ys"
proof (induction xs)
  case Nil
  then show ?case by simp
next
  case (Cons x xs)
  then have x: "x = p" by simp
  show ?case
  proof (cases "xs = []")
    case True
    have "p \<notin> set ys" using Cons.prems by simp
    then have "remdups_adj (p # ys) = p # remdups_adj ys" by (cases ys) simp_all
    with True x show ?thesis by simp
  next
    case False
    with Cons have "remdups_adj (xs @ ys) = p # remdups_adj ys" by simp
    with x show ?thesis by (simp add: remdups_adj_Cons)
  qed
qed

lemma no_FF_less: "CHR 0xFF \<notin> set s \<Longrightarrow> s < [CHR 0xFF]"
proof (cases s)
  case (Cons c t)
  assume "CHR 0xFF \<notin> set s"
  with Cons have "c \<noteq> CHR 0xFF" by auto
  moreover have "byte (CHR 0xFF) = 255" by (simp add: byte_def)
  ultimately have "byte c < byte (CHR 0xFF)" using byte_less [of c] byte_inject [of c "CHR 0xFF"] by linarith
  then have "c < CHR 0xFF" by (simp add: byte_def less_char_def)
  with Cons show ?thesis by simp
qed simp

subsection \<open>The loop lists items\<close>

text \<open>What the loop relies on of the entries below a bucket prefix: they are sorted,
  the current records decode, and keys are free of the byte FF (as all UTF-8 is).\<close>

definition entries_ok :: "string \<Rightarrow> (string \<times> dbvalue) list \<Rightarrow> bool" where
  "entries_ok bp es \<longleftrightarrow> sorted_wrt (<) (map fst es) \<and>
     (\<forall>k v. (k, v) \<in> set es \<longrightarrow> HasPrefix k bp \<longrightarrow> nul \<notin> set (drop (length bp) k) \<longrightarrow>
        (\<exists>i. v = VObj i \<and> oiKey i = drop (length bp) k \<and> CHR 0xFF \<notin> set (oiKey i)))"

definition visible :: "string \<Rightarrow> ListObjectsInput \<Rightarrow> string \<Rightarrow> (string \<times> dbvalue) list \<Rightarrow> ObjectInfo list" where
  "visible bp input sa es = List.map_filter (lo_vis bp input sa) es"

lemma visible_Nil: "visible bp input sa [] = []"
  by (simp add: visible_def map_filter_simps)

lemma visible_Cons: "visible bp input sa (e # es) =
    (case lo_vis bp input sa e of None \<Rightarrow> visible bp input sa es | Some i \<Rightarrow> i # visible bp input sa es)"
  by (simp add: visible_def map_filter_simps split: option.split)

lemma visible_append: "visible bp input sa (xs @ ys) = visible bp input sa xs @ visible bp input sa ys"
  by (induction xs) (auto simp: visible_Nil visible_Cons split: option.splits)

lemma visible_empty: "\<forall>e\<in>set es. lo_vis bp input sa e = None \<Longrightarrow> visible bp input sa es = []"
  by (induction es) (auto simp: visible_Nil visible_Cons)

lemma visible_set: "i \<in> set (visible bp input sa es) \<longleftrightarrow> (\<exists>e\<in>set es. lo_vis bp input sa e = Some i)"
  by (induction es) (auto simp: visible_Nil visible_Cons split: option.splits)

lemma visible_mono: "set xs \<subseteq> set ys \<Longrightarrow> set (visible bp input sa xs) \<subseteq> set (visible bp input sa ys)"
  unfolding subset_iff visible_set by blast

lemma lo_vis_Some:
  "lo_vis bp input sa e = Some i \<Longrightarrow> HasPrefix (fst e) bp \<and> nul \<notin> set (drop (length bp) (fst e)) \<and>
     \<not> (sa \<noteq> [] \<and> drop (length bp) (fst e) \<le> sa) \<and> HasPrefix (drop (length bp) (fst e)) (inPrefix input) \<and>
     snd e = VObj i \<and> \<not> oiIsDeleteMarker i"
  by (auto simp: lo_vis_def Let_def as_obj_Some HasByte_def split: if_splits option.splits)

lemma sorted_dropWhile: "sorted_wrt (<) (map fst es) \<Longrightarrow> sorted_wrt (<) (map fst (dropWhile P es))"
  by (metis dropWhile_eq_drop drop_map sorted_wrt_drop)

lemma sorted_after: "sorted_wrt (<) (map fst (e # es)) \<Longrightarrow> x \<in> set (e # es) \<Longrightarrow> fst e \<le> (fst x :: string)"
  by (auto simp: less_imp_le)

text \<open>After a key outside the prefix nothing more is visible.\<close>

lemma break_visible:
  assumes s: "sorted_wrt (<) (map fst (e # es))" and lo: "p \<le> fst e" and n: "\<not> prefix p (fst e)"
    and p: "p = bp \<or> p = bp @ inPrefix input"
  shows "visible bp input sa (e # es) = []"
proof (rule visible_empty, rule ballI)
  fix x assume x: "x \<in> set (e # es)"
  have "\<not> prefix p (fst x)"
    using prefix_convex [of p p "fst x" "fst e"] sorted_after [OF s x] lo n by blast
  then show "lo_vis bp input sa x = None"
  proof (rule contrapos_np)
    assume "lo_vis bp input sa x \<noteq> None"
    then obtain i where "lo_vis bp input sa x = Some i" by blast
    from lo_vis_Some [OF this] obtain r where "fst x = bp @ r" "HasPrefix r (inPrefix input)"
      by (auto simp: prefix_def)
    with p show "prefix p (fst x)" by auto
  qed
qed

lemma suffix_dropWhile_less:
  assumes s: "sorted_wrt (<) (map fst es)" and e: "es = pre @ c # cs" and lt: "fst c < t"
  shows "dropWhile (\<lambda>x. fst x < t) es = dropWhile (\<lambda>x. fst x < (t :: string)) cs"
proof -
  have "\<forall>x\<in>set pre. fst x < t"
  proof
    fix x assume "x \<in> set pre"
    with s e have "fst x < fst c" by (simp add: sorted_wrt_append)
    from this lt show "fst x < t" by (rule less_trans)
  qed
  with e lt show ?thesis by (simp add: dropWhile_append1 dropWhile_append2)
qed

lemma vis_key:
  assumes E: "entries_ok bp es" and e: "e \<in> set es" and v: "lo_vis bp input sa e = Some j"
  shows "fst e = bp @ oiKey j \<and> CHR 0xFF \<notin> set (oiKey j) \<and> prefix (inPrefix input) (oiKey j)"
proof -
  note L = lo_vis_Some [OF v]
  obtain k w where kw: "e = (k, w)" by (cases e)
  with L E e obtain i where "w = VObj i" "oiKey i = drop (length bp) k" "CHR 0xFF \<notin> set (oiKey i)"
    unfolding entries_ok_def by fastforce
  with L kw show ?thesis by (auto simp: prefix_def)
qed

lemma seek_items:
  assumes E: "entries_ok bp es" and es: "es = pre @ e # rest" and v: "lo_vis bp input sa e = Some i"
    and it: "item_of input i = Inr p"
  defines "cs' \<equiv> dropWhile (\<lambda>x. fst x < bp @ p @ [CHR 0xFF]) es"
  shows "items_of input (visible bp input sa (e # rest)) = Inr p # items_of input (visible bp input sa cs') \<and>
     Inr p \<notin> set (map (item_of input) (visible bp input sa cs')) \<and>
     set cs' \<subseteq> set rest \<and> length cs' \<le> length rest \<and> (\<exists>pre'. es = pre' @ cs')"
proof -
  let ?t = "bp @ p @ [CHR 0xFF]"
  have s: "sorted_wrt (<) (map fst es)" using E by (simp add: entries_ok_def)
  have se: "sorted_wrt (<) (map fst (e # rest))" using s es by (simp add: sorted_wrt_append)
  have ei: "fst e = bp @ oiKey i" "CHR 0xFF \<notin> set (oiKey i)" "prefix (inPrefix input) (oiKey i)"
    using vis_key [OF E _ v] es by auto
  from item_prefix [OF it ei(3)] obtain r where r: "oiKey i = p @ r" by (auto simp: prefix_def)
  have FF: "q < [CHR 0xFF]" if "CHR 0xFF \<notin> set (p @ q)" for q using that no_FF_less by simp
  have lt: "fst e < ?t" unfolding ei(1) r using FF [of r] ei(2) r by (simp add: append_less_iff)
  have cs': "cs' = dropWhile (\<lambda>x. fst x < ?t) rest"
    unfolding cs'_def by (rule suffix_dropWhile_less [OF s es lt])
  let ?tw = "takeWhile (\<lambda>x. fst x < ?t) rest"
  have sp: "rest = ?tw @ cs'" unfolding cs' by simp
  have tw: "item_of input j = Inr p" if j: "j \<in> set (visible bp input sa ?tw)" for j
  proof -
    from j obtain x where x: "x \<in> set ?tw" "lo_vis bp input sa x = Some j" by (auto simp: visible_set)
    then have xr: "x \<in> set rest" "fst x < ?t" by (auto dest: set_takeWhileD)
    have xj: "fst x = bp @ oiKey j" using vis_key [OF E _ x(2)] xr es by auto
    have "fst e \<le> fst x" using sorted_after [OF se] xr by simp
    then have "prefix (bp @ p) (fst x)"
      using prefix_convex [of "bp @ p" "fst e" ?t "fst x"] xr(2) ei(1) r by simp
    with xj have "prefix p (oiKey j)" by simp
    from item_same [OF it ei(3) this] show ?thesis by simp
  qed
  have nin: "Inr p \<notin> set (map (item_of input) (visible bp input sa cs'))"
  proof
    assume "Inr p \<in> set (map (item_of input) (visible bp input sa cs'))"
    then obtain j x where x: "x \<in> set cs'" "lo_vis bp input sa x = Some j" and ij: "item_of input j = Inr p"
      by (auto simp: visible_set)
    from x(1) have xs: "x \<in> set es" unfolding cs'_def by (rule set_dropWhileD)
    note K = vis_key [OF E xs x(2)]
    from item_prefix [OF ij] K obtain q where q: "oiKey j = p @ q" by (auto simp: prefix_def)
    then have "fst x < ?t" using K FF [of q] by (simp add: append_less_iff)
    moreover have "?t \<le> fst x"
      using x(1) unfolding cs'_def dropWhile_less_filter [OF s] by simp
    ultimately show False by simp
  qed
  have "map (item_of input) (visible bp input sa (e # rest)) =
      (Inr p # map (item_of input) (visible bp input sa ?tw)) @ map (item_of input) (visible bp input sa cs')"
    by (subst sp) (simp add: visible_Cons v visible_append it)
  then have "items_of input (visible bp input sa (e # rest)) = Inr p # items_of input (visible bp input sa cs')"
    unfolding items_of_def using remdups_adj_block [of "Inr p # map (item_of input) (visible bp input sa ?tw)" "Inr p"] tw nin
    by auto
  moreover have "set cs' \<subseteq> set rest \<and> length cs' \<le> length rest"
    using sp by (metis Un_upper2 set_append length_append le_add2)
  moreover have "\<exists>pre'. es = pre' @ cs'" unfolding es by (subst sp) (metis append.assoc append_Cons)
  ultimately show ?thesis using nin by blast
qed

lemma item_cases:
  "item_of input i = (case (if inDelimiter input \<noteq> [] then Index (drop (length (inPrefix input)) (oiKey i)) (inDelimiter input) else None) of
     Some idx \<Rightarrow> Inr (inPrefix input @ take (idx + length (inDelimiter input)) (drop (length (inPrefix input)) (oiKey i)))
   | None \<Rightarrow> Inl i)"
  by (simp add: item_of_def Let_def)

lemma lo_step_visible:
  assumes "HasPrefix k bp" "drop (length bp) k = oiKey i" "\<not> HasByte (oiKey i) nul"
    "\<not> (sa \<noteq> [] \<and> oiKey i \<le> sa)" "HasPrefix (oiKey i) (inPrefix input)" "\<not> oiIsDeleteMarker i"
  shows "lo_step es bp input sa mx st ((k, VObj i) # rest) =
    (case item_of input i of
       Inr p \<Rightarrow>
        (let next = dropWhile (\<lambda>x. fst x < bp @ p @ [CHR 0xFF]) es in
         if p \<in> set (loCommonPrefixes st) then Inr (st, next)
         else if int (length (loObjects st) + length (loCommonPrefixes st)) \<ge> mx then Inl (Inr (st\<lparr>loIsTruncated := True\<rparr>))
         else Inr (add_item (Inr p) st, next))
     | Inl _ \<Rightarrow>
        if int (length (loObjects st) + length (loCommonPrefixes st)) \<ge> mx then Inl (Inr (st\<lparr>loIsTruncated := True\<rparr>))
        else Inr (add_item (Inl i) st, rest))"
  using assms by (auto simp: lo_step_def Let_def item_cases split: option.split)

text \<open>One turn of the loop, by what it does to the items.\<close>

lemma lo_step_items:
  assumes E: "entries_ok bp es" and es: "es = pre @ e # rest" and lo: "bp @ inPrefix input \<le> fst e"
    and new: "\<forall>p\<in>set (loCommonPrefixes st). Inr p \<notin> set (map (item_of input) (visible bp input sa (e # rest)))"
    and full: "full \<longleftrightarrow> int (length (loObjects st) + length (loCommonPrefixes st)) \<ge> mx"
  shows "(lo_step es bp input sa mx st (e # rest) = Inl (Inr st) \<and> visible bp input sa (e # rest) = []) \<or>
    (lo_step es bp input sa mx st (e # rest) = Inr (st, rest) \<and> visible bp input sa (e # rest) = visible bp input sa rest) \<or>
    (\<exists>x xs cs'. items_of input (visible bp input sa (e # rest)) = x # xs \<and>
       lo_step es bp input sa mx st (e # rest) =
         (if full then Inl (Inr (st\<lparr>loIsTruncated := True\<rparr>)) else Inr (add_item x st, cs')) \<and>
       xs = items_of input (visible bp input sa cs') \<and> x \<notin> set (map (item_of input) (visible bp input sa cs')) \<and>
       set cs' \<subseteq> set rest \<and> length cs' \<le> length rest \<and> (\<exists>pre'. es = pre' @ cs') \<and>
       set (map (item_of input) (visible bp input sa cs')) \<subseteq> set (map (item_of input) (visible bp input sa (e # rest))))"
proof -
  obtain k v where kv: "e = (k, v)" by (cases e)
  let ?key = "drop (length bp) k"
  have s: "sorted_wrt (<) (map fst es)" using E by (simp add: entries_ok_def)
  have se: "sorted_wrt (<) (map fst (e # rest))" using s es by (simp add: sorted_wrt_append)
  have bl: "bp \<le> fst e" using prefix_imp_le [of bp "bp @ inPrefix input"] lo by (simp add: prefix_def) 
  consider (nobp) "\<not> HasPrefix k bp" | (hasnul) "HasPrefix k bp" "HasByte ?key nul"
    | (after) "HasPrefix k bp" "\<not> HasByte ?key nul" "sa \<noteq> []" "?key \<le> sa"
    | (nopre) "HasPrefix k bp" "\<not> HasByte ?key nul" "\<not> (sa \<noteq> [] \<and> ?key \<le> sa)" "\<not> HasPrefix ?key (inPrefix input)"
    | (ok) "HasPrefix k bp" "\<not> HasByte ?key nul" "\<not> (sa \<noteq> [] \<and> ?key \<le> sa)" "HasPrefix ?key (inPrefix input)"
    by blast
  then show ?thesis
  proof cases
    case nobp
    with kv have "lo_step es bp input sa mx st (e # rest) = Inl (Inr st)" by (simp add: lo_step_def)
    moreover have "visible bp input sa (e # rest) = []"
      using break_visible [OF se bl] nobp kv by simp
    ultimately show ?thesis by blast
  next
    case hasnul
    with kv have "lo_step es bp input sa mx st (e # rest) = Inr (st, rest)" "lo_vis bp input sa e = None"
      by (simp_all add: lo_step_def lo_vis_def)
    then show ?thesis by (simp add: visible_Cons)
  next
    case after
    with kv have "lo_step es bp input sa mx st (e # rest) = Inr (st, rest)" "lo_vis bp input sa e = None"
      by (simp_all add: lo_step_def lo_vis_def)
    then show ?thesis by (simp add: visible_Cons)
  next
    case nopre
    then have "inPrefix input \<noteq> []" by auto
    with nopre kv have "lo_step es bp input sa mx st (e # rest) = Inl (Inr st)" by (simp add: lo_step_def Let_def)
    moreover have "visible bp input sa (e # rest) = []"
      by (rule break_visible [OF se lo]) (use nopre kv in \<open>auto simp: prefix_def\<close>)
    ultimately show ?thesis by blast
  next
    case ok
    have "(k, v) \<in> set es" using es kv by simp
    with E ok obtain i where i: "v = VObj i" "oiKey i = ?key" unfolding entries_ok_def HasByte_def by blast
    show ?thesis
    proof (cases "oiIsDeleteMarker i")
      case True
      with ok kv i have "lo_step es bp input sa mx st (e # rest) = Inr (st, rest)" "lo_vis bp input sa e = None"
        by (auto simp: lo_step_def lo_vis_def Let_def)
      then show ?thesis by (simp add: visible_Cons)
    next
      case False
      have vis: "lo_vis bp input sa e = Some i" using ok kv i False by (simp add: lo_vis_def Let_def)
      have ok': "HasPrefix k bp" "\<not> HasByte (oiKey i) nul" "\<not> (sa \<noteq> [] \<and> oiKey i \<le> sa)"
        "HasPrefix (oiKey i) (inPrefix input)" using ok i(2) by simp_all
      have ine: "i \<in> set (visible bp input sa (e # rest))" by (simp add: visible_Cons vis)
      show ?thesis
      proof (cases "item_of input i")
        case (Inr p)
        have np: "p \<notin> set (loCommonPrefixes st)" using new ine Inr by force
        let ?cs = "dropWhile (\<lambda>x. fst x < bp @ p @ [CHR 0xFF]) es"
        have st: "lo_step es bp input sa mx st (e # rest) =
            (if full then Inl (Inr (st\<lparr>loIsTruncated := True\<rparr>)) else Inr (add_item (Inr p) st, ?cs))"
          using lo_step_visible [OF ok'(1) i(2) [symmetric] ok'(2-4) False] np full unfolding kv i(1) Inr
          by (simp add: Let_def)
        note S = seek_items [OF E es vis Inr]
        have "set (visible bp input sa ?cs) \<subseteq> set (visible bp input sa (e # rest))"
          by (rule visible_mono) (use S in auto)
        with S st show ?thesis by (intro disjI2 exI [of _ "Inr p"] exI [of _ "items_of input (visible bp input sa ?cs)"] exI [of _ ?cs]) auto
      next
        case (Inl j)
        then have j: "j = i" by (auto simp: item_cases split: option.splits)
        have st: "lo_step es bp input sa mx st (e # rest) =
            (if full then Inl (Inr (st\<lparr>loIsTruncated := True\<rparr>)) else Inr (add_item (Inl i) st, rest))"
          using lo_step_visible [OF ok'(1) i(2) [symmetric] ok'(2-4) False] full unfolding kv i(1) Inl by simp
        have ni: "Inl i \<notin> set (map (item_of input) (visible bp input sa rest))"
        proof
          assume "Inl i \<in> set (map (item_of input) (visible bp input sa rest))"
          then obtain x j where x: "x \<in> set rest" "lo_vis bp input sa x = Some j" "item_of input j = Inl i"
            by (auto simp: visible_set)
          then have "j = i" by (auto simp: item_cases split: option.splits)
          with vis_key [OF E _ x(2)] vis_key [OF E _ vis] x(1) es have "fst x = fst e" by auto
          moreover have "fst e < fst x" using se x(1) by simp
          ultimately show False by simp
        qed
        have "items_of input (visible bp input sa (e # rest)) = Inl i # items_of input (visible bp input sa rest)"
          using remdups_adj_block [of "[Inl i]" "Inl i" "map (item_of input) (visible bp input sa rest)"] ni Inl j
          by (simp add: items_of_def visible_Cons vis)
        moreover have "\<exists>pre'. es = pre' @ rest" using es by (metis append.assoc append_Cons append_Nil)
        ultimately show ?thesis using st ni
          by (intro disjI2 exI [of _ "Inl i"] exI [of _ "items_of input (visible bp input sa rest)"] exI [of _ rest])
             (auto simp: visible_Cons vis)
      qed
    qed
  qed
qed

lemma lo_loop_items:
  assumes E: "entries_ok bp es"
  shows "length cs < fuel \<Longrightarrow> es = pre @ cs \<Longrightarrow> \<forall>e\<in>set cs. bp @ inPrefix input \<le> fst e \<Longrightarrow>
    \<forall>p\<in>set (loCommonPrefixes st). Inr p \<notin> set (map (item_of input) (visible bp input sa cs)) \<Longrightarrow>
    lo_loop fuel es bp input sa mx st cs = Some (Inr (take_items mx st (items_of input (visible bp input sa cs))))"
proof (induction fuel arbitrary: pre cs st)
  case 0
  then show ?case by simp
next
  case (Suc fuel)
  show ?case
  proof (cases cs)
    case Nil
    then show ?thesis by (simp add: lo_step_def visible_Nil items_of_def)
  next
    case (Cons e rest)
    note S = lo_step_items [OF E Suc.prems(2) [unfolded Cons], of input st sa _ mx]
    have lo: "bp @ inPrefix input \<le> fst e" using Suc.prems(3) Cons by simp
    from S [OF lo Suc.prems(4) [unfolded Cons] refl] show ?thesis
    proof (elim disjE exE conjE)
      assume "lo_step es bp input sa mx st (e # rest) = Inl (Inr st)" "visible bp input sa (e # rest) = []"
      with Cons show ?thesis by (simp add: items_of_def)
    next
      assume a: "lo_step es bp input sa mx st (e # rest) = Inr (st, rest)"
        "visible bp input sa (e # rest) = visible bp input sa rest"
      have "lo_loop fuel es bp input sa mx st rest = Some (Inr (take_items mx st (items_of input (visible bp input sa rest))))"
        by (rule Suc.IH [of _ "pre @ [e]"]) (use Suc.prems Cons a in auto)
      with Cons a show ?thesis by simp
    next
      fix x xs cs' pre'
      assume a: "items_of input (visible bp input sa (e # rest)) = x # xs"
        "lo_step es bp input sa mx st (e # rest) =
          (if mx \<le> int (length (loObjects st) + length (loCommonPrefixes st)) then Inl (Inr (st\<lparr>loIsTruncated := True\<rparr>))
           else Inr (add_item x st, cs'))"
        "xs = items_of input (visible bp input sa cs')" "x \<notin> set (map (item_of input) (visible bp input sa cs'))"
        "set cs' \<subseteq> set rest" "length cs' \<le> length rest" "es = pre' @ cs'"
        "set (map (item_of input) (visible bp input sa cs')) \<subseteq> set (map (item_of input) (visible bp input sa (e # rest)))"
      show ?thesis
      proof (cases "mx \<le> int (length (loObjects st) + length (loCommonPrefixes st))")
        case True
        with Cons a show ?thesis by simp
      next
        case False
        have "lo_loop fuel es bp input sa mx (add_item x st) cs' =
            Some (Inr (take_items mx (add_item x st) (items_of input (visible bp input sa cs'))))"
        proof (rule Suc.IH [OF _ a(7)])
          show "length cs' < fuel" using a(6) Suc.prems(1) Cons by simp
          show "\<forall>e\<in>set cs'. bp @ inPrefix input \<le> fst e" using a(5) Suc.prems(3) Cons by auto
          show "\<forall>p\<in>set (loCommonPrefixes (add_item x st)). Inr p \<notin> set (map (item_of input) (visible bp input sa cs'))"
          proof
            fix p assume "p \<in> set (loCommonPrefixes (add_item x st))"
            then have "p \<in> set (loCommonPrefixes st) \<or> x = Inr p" by (cases x) auto
            with Suc.prems(4) Cons a(4,8) show "Inr p \<notin> set (map (item_of input) (visible bp input sa cs'))"
              by blast
          qed
        qed
        with Cons a False show ?thesis by simp
      qed
    qed
  qed
qed

subsection \<open>Items in order\<close>

fun item_name :: "item \<Rightarrow> string" where
  "item_name (Inl i) = oiKey i"
| "item_name (Inr p) = p"

abbreviation item_less :: "item \<Rightarrow> item \<Rightarrow> bool" where
  "item_less x y \<equiv> item_name x < item_name y"

lemma item_of_Inl: "item_of input i = Inl j \<Longrightarrow> j = i"
  by (auto simp: item_cases split: option.splits)

lemma item_name_le: "prefix (inPrefix input) (oiKey i) \<Longrightarrow> item_name (item_of input i) \<le> oiKey i"
  by (cases "item_of input i") (auto dest: item_of_Inl item_prefix prefix_imp_le)

lemma item_mono:
  assumes lt: "oiKey i < oiKey j" and pi: "prefix (inPrefix input) (oiKey i)" and pj: "prefix (inPrefix input) (oiKey j)"
  shows "item_of input i = item_of input j \<or> item_less (item_of input i) (item_of input j)"
proof (cases "item_of input j")
  case (Inl j')
  then have "item_name (item_of input j) = oiKey j" by (auto dest: item_of_Inl)
  with item_name_le [OF pi] lt show ?thesis by (metis le_less_trans)
next
  case (Inr q)
  note Q = item_prefix [OF Inr pj]
  show ?thesis
  proof (cases "prefix q (oiKey i)")
    case True
    from item_same [OF Inr pj True] Inr show ?thesis by simp
  next
    case nq: False
    have "item_name (item_of input i) < q"
    proof (rule ccontr)
      assume "\<not> item_name (item_of input i) < q"
      then have le: "q \<le> item_name (item_of input i)" by simp
      have "item_name (item_of input i) \<le> oiKey j" using item_name_le [OF pi] lt by simp
      with le Q have pq: "prefix q (item_name (item_of input i))"
        using prefix_convex [of q q "oiKey j" "item_name (item_of input i)"] by simp
      have "prefix (item_name (item_of input i)) (oiKey i)"
        using item_prefix [OF _ pi] by (cases "item_of input i") (auto dest: item_of_Inl)
      with pq have "prefix q (oiKey i)" using prefix_order.trans by blast
      with nq show False ..
    qed
    with Inr show ?thesis by simp
  qed
qed

lemma remdups_adj_strict:
  assumes irr: "\<And>x. \<not> R x x" and tr: "\<And>x y z. R x y \<Longrightarrow> R y z \<Longrightarrow> R x z"
  shows "sorted_wrt (\<lambda>x y. x = y \<or> R x y) xs \<Longrightarrow> sorted_wrt R (remdups_adj xs)"
proof (induction xs rule: remdups_adj.induct)
  case (3 x y xs)
  show ?case
  proof (cases "x = y")
    case True
    with 3 show ?thesis by simp
  next
    case False
    have "R x z" if z: "z \<in> set (y # xs)" for z
    proof -
      have xy: "R x y" using 3(3) False by simp
      have "z = y \<or> R y z" using 3(3) z by auto
      with xy tr show ?thesis by blast
    qed
    with False 3 show ?thesis by simp
  qed
qed simp_all

lemma strict_unique:
  assumes irr: "\<And>x. \<not> R x x" and tr: "\<And>x y z. R x y \<Longrightarrow> R y z \<Longrightarrow> R x z"
  shows "sorted_wrt R xs \<Longrightarrow> sorted_wrt R ys \<Longrightarrow> set xs = set ys \<Longrightarrow> xs = ys"
proof (induction xs arbitrary: ys)
  case Nil
  then show ?case by simp
next
  case (Cons x xs)
  then obtain y zs where ys: "ys = y # zs" by (cases ys) auto
  have "x = y"
  proof (rule ccontr)
    assume n: "x \<noteq> y"
    with Cons.prems ys have "y \<in> set xs" "x \<in> set zs" by auto
    with Cons.prems ys have "R x y" "R y x" by auto
    with tr irr show False by blast
  qed
  moreover have "x \<notin> set xs" "y \<notin> set zs" using Cons.prems ys irr by auto
  ultimately have "set xs = set zs" using Cons.prems ys by auto
  with Cons ys \<open>x = y\<close> show ?case by simp
qed

lemma items_sorted:
  assumes "sorted_wrt (<) (map oiKey is)" and "\<forall>i\<in>set is. prefix (inPrefix input) (oiKey i)"
  shows "sorted_wrt item_less (items_of input is)"
proof -
  have "sorted_wrt (\<lambda>i j. oiKey i < oiKey j) is" using assms(1) by (simp add: sorted_wrt_map)
  then have "sorted_wrt (\<lambda>i j. item_of input i = item_of input j \<or> item_less (item_of input i) (item_of input j)) is"
    by (rule sorted_wrt_mono_rel [rotated]) (use item_mono assms(2) in blast)
  then have "sorted_wrt (\<lambda>x y. x = y \<or> item_less x y) (map (item_of input) is)" by (simp add: sorted_wrt_map)
  then show ?thesis unfolding items_of_def by (rule remdups_adj_strict [rotated 2]) auto
qed

subsection \<open>Pages\<close>

fun lefts :: "('a + 'b) list \<Rightarrow> 'a list" where
  "lefts [] = []" | "lefts (Inl x # xs) = x # lefts xs" | "lefts (Inr y # xs) = lefts xs"

fun rights :: "('a + 'b) list \<Rightarrow> 'b list" where
  "rights [] = []" | "rights (Inl x # xs) = rights xs" | "rights (Inr y # xs) = y # rights xs"

text \<open>The page of at most n items: what ListObjects should return.\<close>

definition page_of :: "nat \<Rightarrow> item list \<Rightarrow> ListObjectsOutput" where
  "page_of n its = \<lparr>outObjects = lefts (take n its), outCommonPrefixes = rights (take n its),
     outIsTruncated = (n < length its),
     outNextContinuationToken = (if n < length its then item_name (last (take n its)) else []),
     outKeyCount = int (length (take n its))\<rparr>"

lemma lefts_append: "lefts (xs @ ys) = lefts xs @ lefts ys" "rights (xs @ ys) = rights xs @ rights ys"
  by (induction xs rule: lefts.induct) auto

lemma lefts_length: "length (lefts xs) + length (rights xs) = length xs"
  by (induction xs rule: lefts.induct) auto

lemma rights_sorted: "sorted_wrt item_less xs \<Longrightarrow> sorted_wrt (<) (rights xs)"
proof (induction xs rule: rights.induct)
  case (3 y xs)
  have "\<And>p. p \<in> set (rights zs) \<Longrightarrow> Inr p \<in> set zs" for zs :: "item list"
    by (induction zs rule: rights.induct) auto
  with 3 show ?case by fastforce
qed auto

lemma take_items_page:
  assumes "sorted_wrt item_less (done @ its)" and "length done \<le> n" and "0 < n"
    and "loObjects st = lefts done" "loCommonPrefixes st = rights done" "\<not> loIsTruncated st"
    and "done \<noteq> [] \<Longrightarrow> loNextToken st = item_name (last done)" "done = [] \<Longrightarrow> loNextToken st = []"
  shows "lo_finish (take_items (int n) st its) = page_of n (done @ its)"
  using assms
proof (induction its arbitrary: st "done")
  case Nil
  have "sorted_wrt (<) (rights done)" using Nil.prems(1) rights_sorted by simp
  then have "sort (rights done) = rights done" using sorted_sort_id strict_sorted_imp_sorted by blast
  with Nil show ?case by (simp add: lo_finish_def page_of_def lefts_length)
next
  case (Cons x its)
  have l: "length (loObjects st) + length (loCommonPrefixes st) = length done"
    using Cons.prems(4,5) lefts_length by metis
  show ?case
  proof (cases "n \<le> length done")
    case True
    with Cons.prems(2) have n: "n = length done" by simp
    with Cons.prems(3) have "done \<noteq> []" by auto
    moreover have "sorted_wrt (<) (rights done)" using Cons.prems(1) rights_sorted by (simp add: sorted_wrt_append)
    then have "sort (rights done) = rights done" using sorted_sort_id strict_sorted_imp_sorted by blast
    ultimately show ?thesis using Cons.prems l n by (simp add: lo_finish_def page_of_def)
  next
    case False
    have "take_items (int n) st (x # its) = take_items (int n) (add_item x st) its" using False l by simp
    moreover have "lo_finish (take_items (int n) (add_item x st) its) = page_of n ((done @ [x]) @ its)"
    proof (rule Cons.IH)
      show "loNextToken (add_item x st) = item_name (last (done @ [x]))"
      proof (cases "done = []")
        case True
        have "advanceToken [] w = w" for w by (cases w) (simp_all add: advanceToken_def)
        with True Cons.prems(8) show ?thesis by (cases x) simp_all
      next
        case d: False
        then have "item_less (last done) x" using Cons.prems(1) by (auto simp: sorted_wrt_append)
        with Cons.prems(7) d show ?thesis by (cases x) (auto simp: advanceToken_def)
      qed
    qed (use Cons.prems False in \<open>cases x; auto simp: lefts_append\<close>)+
    ultimately show ?thesis by simp
  qed
qed

subsection \<open>The listed objects\<close>

text \<open>An object is wanted when its key has the prefix and comes after the marker; a
  marker that ends in the delimiter stands for everything below it.\<close>

definition marker_is_prefix :: "ListObjectsInput \<Rightarrow> bool" where
  "marker_is_prefix input \<longleftrightarrow> inDelimiter input \<noteq> [] \<and> HasSuffix (lo_startAfter input) (inDelimiter input)"

definition wanted :: "ListObjectsInput \<Rightarrow> string \<Rightarrow> bool" where
  "wanted input key \<longleftrightarrow> HasPrefix key (inPrefix input) \<and>
     (lo_startAfter input = [] \<or>
      (lo_startAfter input < key \<and> \<not> (marker_is_prefix input \<and> HasPrefix key (lo_startAfter input))))"

text \<open>The objects to list: exactly the current records of the bucket that are no delete
  markers and are wanted, in key order.\<close>

definition is_listing :: "string \<Rightarrow> dbmap \<Rightarrow> ListObjectsInput \<Rightarrow> ObjectInfo list \<Rightarrow> bool" where
  "is_listing b m input is \<longleftrightarrow> sorted_wrt (<) (map oiKey is) \<and>
     (\<forall>i. i \<in> set is \<longleftrightarrow> (\<exists>key. nul \<notin> set key \<and> cur_of m b key = Some i \<and> \<not> oiIsDeleteMarker i \<and> wanted input key))"

lemma nul_least: "nul \<le> c"
  by (simp add: less_eq_char_def)

lemma after_nul: "key < (sa @ [nul] :: string) \<longleftrightarrow> key \<le> sa"
proof (induction sa arbitrary: key)
  case Nil
  then show ?case by (cases key) (auto simp: nul_least leD)
next
  case (Cons c sa)
  then show ?case by (cases key) auto
qed

lemma after_FF:
  assumes "CHR 0xFF \<notin> set key"
  shows "key < (sa @ [CHR 0xFF] :: string) \<longleftrightarrow> key \<le> sa \<or> prefix sa key"
proof
  assume l: "key < sa @ [CHR 0xFF]"
  show "key \<le> sa \<or> prefix sa key"
  proof (rule disjCI)
    assume "\<not> prefix sa key"
    with less_not_prefix_less [of sa key "[CHR 0xFF]"] l show "key \<le> sa" by (metis less_asym linear)
  qed
next
  assume "key \<le> sa \<or> prefix sa key"
  then show "key < sa @ [CHR 0xFF]"
  proof
    assume "key \<le> sa"
    with less_append [of "[CHR 0xFF]" sa] show ?thesis by (metis le_less_trans list.distinct(1))
  next
    assume "prefix sa key"
    then obtain r where "key = sa @ r" by (auto simp: prefix_def)
    with assms no_FF_less [of r] show ?thesis by (simp add: append_less_iff)
  qed
qed

lemma seek_wanted:
  assumes "CHR 0xFF \<notin> set key" and "HasPrefix key (inPrefix input)"
  shows "lo_seekKey bp input \<le> bp @ key \<and> \<not> (lo_startAfter input \<noteq> [] \<and> key \<le> lo_startAfter input) \<longleftrightarrow> wanted input key"
proof -
  have P: "inPrefix input \<le> key" using assms(2) by (rule prefix_imp_le)
  have A: "bp @ x \<le> bp @ key \<longleftrightarrow> x \<le> key" for x by (simp add: append_le_iff)
  have N: "sa @ [nul] \<le> key \<longleftrightarrow> sa < key" for sa using after_nul [of key sa] by (metis not_le)
  have F: "sa @ [CHR 0xFF] \<le> key \<longleftrightarrow> sa < key \<and> \<not> prefix sa key" for sa
    using after_FF [OF assms(1), of sa] by (metis not_le)
  have T: "advanceToken (bp @ x) (bp @ y) = bp @ advanceToken x y" for x y
    by (simp add: advanceToken_def append_less_iff)
  have P0: "(if inPrefix input \<noteq> [] then bp @ inPrefix input else bp) = bp @ inPrefix input" by simp
  have S: "lo_seekKey bp input = bp @ (if lo_startAfter input = [] then inPrefix input
      else advanceToken (inPrefix input) (lo_startAfter input @ (if marker_is_prefix input then [CHR 0xFF] else [nul])))"
    unfolding lo_seekKey_def P0 Let_def marker_is_prefix_def by (simp add: T)
  show ?thesis
    unfolding S A wanted_def using P assms(2) N [of "lo_startAfter input"] F [of "lo_startAfter input"]
    by (auto simp: advanceToken_def)
qed

context bolt_laws
begin

lemma entries_ok_store:
  assumes wf: "store_wf b (bk_get B db)"
  shows "entries_ok (b @ [nul]) (bk_entries B db)"
  unfolding entries_ok_def
proof (intro conjI allI impI)
  show "sorted_wrt (<) (map fst (bk_entries B db))" by (rule entries_sorted)
next
  fix k v assume e: "(k, v) \<in> set (bk_entries B db)" and p: "HasPrefix k (b @ [nul])"
    and n: "nul \<notin> set (drop (length (b @ [nul])) k)"
  let ?key = "drop (length (b @ [nul])) k"
  from p have k: "k = objectMetaKey b ?key" by (auto simp: prefix_def objectMetaKey_def)
  from e have g: "bk_get B db k = Some v" by (simp add: entries_iff)
  from wf have s: "shape_ok b (bk_get B db)" by (simp add: store_wf_def)
  from shape_okD [OF s g] obtain i where i: "v = VObj i" by blast
  from g k i have "cur_of (bk_get B db) b ?key = Some i" by (metis cur_of_Some)
  from key_wf_cur [OF store_wf_key [OF wf n] this] have "oiKey i = ?key" "utf8_valid (oiKey i)"
    by (auto simp: rec_ok_def obj_utf8_def)
  with i utf8_valid_no_FF show "\<exists>i. v = VObj i \<and> oiKey i = ?key \<and> CHR 0xFF \<notin> set (oiKey i)" by blast
qed

lemma vis_iff_cur:
  assumes wf: "store_wf b (bk_get B db)"
  shows "(\<exists>e\<in>set (bk_entries B db). lo_vis (b @ [nul]) input sa e = Some i) \<longleftrightarrow>
    (\<exists>key. nul \<notin> set key \<and> cur_of (bk_get B db) b key = Some i \<and> \<not> oiIsDeleteMarker i \<and>
       \<not> (sa \<noteq> [] \<and> key \<le> sa) \<and> HasPrefix key (inPrefix input))" (is "?l = ?r")
proof
  assume ?l
  then obtain k v where e: "(k, v) \<in> set (bk_entries B db)" and l: "lo_vis (b @ [nul]) input sa (k, v) = Some i" by auto
  note V = lo_vis_Some [OF l]
  let ?key = "drop (length (b @ [nul])) k"
  have k: "k = objectMetaKey b ?key" using V by (auto simp: prefix_def objectMetaKey_def)
  have "bk_get B db k = Some (VObj i)" using e V by (simp add: entries_iff)
  then have "cur_of (bk_get B db) b ?key = Some i" using k by (metis cur_of_Some)
  with V show ?r by (intro exI [of _ ?key]) auto
next
  assume ?r
  then obtain key where K: "nul \<notin> set key" "cur_of (bk_get B db) b key = Some i" "\<not> oiIsDeleteMarker i"
    "\<not> (sa \<noteq> [] \<and> key \<le> sa)" "HasPrefix key (inPrefix input)" by blast
  then have "(objectMetaKey b key, VObj i) \<in> set (bk_entries B db)" by (simp add: cur_of_Some entries_iff)
  moreover have "lo_vis (b @ [nul]) input sa (objectMetaKey b key, VObj i) = Some i"
    using K by (simp add: lo_vis_def Let_def objectMetaKey_def HasByte_def)
  ultimately show ?l by blast
qed

lemma visible_listing:
  assumes wf: "store_wf b (bk_get B db)"
  shows "is_listing b (bk_get B db) input
    (visible (b @ [nul]) input (lo_startAfter input) (cur_seek B db (lo_seekKey (b @ [nul]) input)))"
proof -
  let ?bp = "b @ [nul]" and ?sa = "lo_startAfter input" and ?cs = "cur_seek B db (lo_seekKey (b @ [nul]) input)"
  note E = entries_ok_store [OF wf]
  have cs: "set ?cs = {e \<in> set (bk_entries B db). lo_seekKey ?bp input \<le> fst e}"
    by (auto simp: seek_filter)
  have sub: "\<And>e. e \<in> set ?cs \<Longrightarrow> e \<in> set (bk_entries B db)" using cs by auto
  have s: "sorted_wrt (<) (map fst ?cs)" unfolding seek_filter by (rule sorted_filter)
  have "sorted_wrt (<) (map oiKey (visible ?bp input ?sa xs))"
    if "set xs \<subseteq> set (bk_entries B db)" "sorted_wrt (<) (map fst xs)" for xs
    using that
  proof (induction xs)
    case Nil
    then show ?case by (simp add: visible_Nil)
  next
    case (Cons e xs)
    show ?case
    proof (cases "lo_vis ?bp input ?sa e")
      case None
      with Cons show ?thesis by (simp add: visible_Cons)
    next
      case (Some i)
      have "oiKey i < oiKey j" if "j \<in> set (visible ?bp input ?sa xs)" for j
      proof -
        from that obtain x where x: "x \<in> set xs" "lo_vis ?bp input ?sa x = Some j" by (auto simp: visible_set)
        then have "fst e < fst x" using Cons.prems by simp
        moreover have "fst e = ?bp @ oiKey i" "fst x = ?bp @ oiKey j"
          using vis_key [OF E _ Some] vis_key [OF E _ x(2)] x(1) Cons.prems(1) by auto
        ultimately show ?thesis by (simp add: append_less_iff del: append_assoc)
      qed
      with Some Cons show ?thesis by (simp add: visible_Cons)
    qed
  qed
  from this [OF _ s] sub have srt: "sorted_wrt (<) (map oiKey (visible ?bp input ?sa ?cs))" by blast
  have "i \<in> set (visible ?bp input ?sa ?cs) \<longleftrightarrow>
      (\<exists>key. nul \<notin> set key \<and> cur_of (bk_get B db) b key = Some i \<and> \<not> oiIsDeleteMarker i \<and> wanted input key)" for i
  proof
    assume "i \<in> set (visible ?bp input ?sa ?cs)"
    then obtain e where e: "e \<in> set ?cs" and v: "lo_vis ?bp input ?sa e = Some i" by (auto simp: visible_set)
    note K = vis_key [OF E sub [OF e] v]
    have sk: "lo_seekKey ?bp input \<le> ?bp @ oiKey i" using e cs K by auto
    obtain key where kk: "nul \<notin> set key" "cur_of (bk_get B db) b key = Some i" "\<not> oiIsDeleteMarker i"
      "\<not> (?sa \<noteq> [] \<and> key \<le> ?sa)" "HasPrefix key (inPrefix input)"
      using vis_iff_cur [OF wf] sub [OF e] v by blast
    have "oiKey i = key" using key_wf_cur [OF store_wf_key [OF wf kk(1)] kk(2)] by (simp add: rec_ok_def)
    with seek_wanted [of key input ?bp] K kk sk show "\<exists>key. nul \<notin> set key \<and> cur_of (bk_get B db) b key = Some i \<and> \<not> oiIsDeleteMarker i \<and> wanted input key"
      by (intro exI [of _ key]) auto
  next
    assume "\<exists>key. nul \<notin> set key \<and> cur_of (bk_get B db) b key = Some i \<and> \<not> oiIsDeleteMarker i \<and> wanted input key"
    then obtain key where k: "nul \<notin> set key" "cur_of (bk_get B db) b key = Some i" "\<not> oiIsDeleteMarker i" "wanted input key" by blast
    have ok: "oiKey i = key \<and> CHR 0xFF \<notin> set key"
      using key_wf_cur [OF store_wf_key [OF wf k(1)] k(2)] utf8_valid_no_FF by (auto simp: rec_ok_def obj_utf8_def)
    have P: "HasPrefix key (inPrefix input)" using k(4) by (simp add: wanted_def)
    from seek_wanted [of key input ?bp] ok P k(4)
    have sk: "lo_seekKey ?bp input \<le> ?bp @ key" "\<not> (?sa \<noteq> [] \<and> key \<le> ?sa)" by auto
    with vis_iff_cur [OF wf] k P obtain e where e: "e \<in> set (bk_entries B db)" "lo_vis ?bp input ?sa e = Some i" by blast
    from vis_key [OF E this] ok sk have "e \<in> set ?cs" using e(1) cs by auto
    with e show "i \<in> set (visible ?bp input ?sa ?cs)" by (auto simp: visible_set)
  qed
  with srt show ?thesis by (simp add: is_listing_def)
qed

lemma lo_maxKeys_pos: "0 < lo_maxKeys input"
  by (simp add: lo_maxKeys_def)

lemma seek_ge_prefix: "bp @ inPrefix input \<le> lo_seekKey bp input"
  by (auto simp: lo_seekKey_def advanceToken_def Let_def)

lemma list_objects_page:
  assumes wf: "store_wf (inBucket input) (bk_get B (dbObjects db))"
    and f: "length (bk_entries B (dbObjects db)) < fuel"
    and l: "is_listing (inBucket input) (bk_get B (dbObjects db)) input is"
  shows "listObjectsTx fuel B db input = Some (Inr (page_of (nat (lo_maxKeys input)) (items_of input is)))"
proof -
  let ?bp = "inBucket input @ [nul]" and ?sa = "lo_startAfter input" and ?es = "bk_entries B (dbObjects db)"
  let ?cs = "cur_seek B (dbObjects db) (lo_seekKey ?bp input)"
  let ?st = "\<lparr>loObjects = [], loCommonPrefixes = [], loIsTruncated = False, loNextToken = []\<rparr>"
  note V = visible_listing [OF wf, of input]
  have inj: "inj_on oiKey (set is)" if "is_listing b m input is" for b m and "is" :: "ObjectInfo list"
    using that unfolding is_listing_def by (metis strict_sorted_iff distinct_map)
  have "is = visible ?bp input ?sa ?cs"
  proof (rule strict_unique [where R = "\<lambda>i j. oiKey i < oiKey j"])
    show "sorted_wrt (\<lambda>i j. oiKey i < oiKey j) is"
      "sorted_wrt (\<lambda>i j. oiKey i < oiKey j) (visible ?bp input ?sa ?cs)"
      using l V by (simp_all add: is_listing_def sorted_wrt_map)
    show "set is = set (visible ?bp input ?sa ?cs)" using l V unfolding is_listing_def by blast
  qed auto
  moreover have "lo_loop fuel ?es ?bp input ?sa (lo_maxKeys input) ?st ?cs =
      Some (Inr (take_items (lo_maxKeys input) ?st (items_of input (visible ?bp input ?sa ?cs))))"
  proof (rule lo_loop_items [OF entries_ok_store [OF wf]])
    show "length ?cs < fuel" using f by (simp add: cur_seek_def le_less_trans [OF length_dropWhile_le])
    show "?es = takeWhile (\<lambda>e. fst e < lo_seekKey ?bp input) ?es @ ?cs" by (simp add: cur_seek_def)
    show "\<forall>e\<in>set ?cs. ?bp @ inPrefix input \<le> fst e"
      unfolding seek_filter using seek_ge_prefix [of ?bp input] by (auto intro: order_trans)
  qed simp
  moreover have "sorted_wrt item_less (items_of input is)"
    by (rule items_sorted) (use l in \<open>auto simp: is_listing_def wanted_def dest!: key_wf_cur [OF store_wf_key [OF wf]] simp: rec_ok_def\<close>)
  ultimately have "listObjectsTx fuel B db input = Some (Inr (lo_finish (take_items (lo_maxKeys input) ?st (items_of input is))))"
    by (simp add: listObjectsTx_def Let_def)
  moreover have "lo_finish (take_items (int (nat (lo_maxKeys input))) ?st ([] @ items_of input is)) = page_of (nat (lo_maxKeys input)) ([] @ items_of input is)"
    if "sorted_wrt item_less (items_of input is)"
    using take_items_page [of "[]" "items_of input is" "nat (lo_maxKeys input)" ?st] that
      lo_maxKeys_pos [of input] by simp
  moreover have "0 \<le> lo_maxKeys input" by (simp add: lo_maxKeys_def)
  ultimately show ?thesis using \<open>sorted_wrt item_less (items_of input is)\<close> by simp
qed

end

subsection \<open>Pages chained by their tokens\<close>

text \<open>A folder marker listed as an object: its key ends in the delimiter, so as a token
  it stands for a common prefix. marker_clash says that the listing has one.\<close>

definition marker_clash :: "ListObjectsInput \<Rightarrow> ObjectInfo list \<Rightarrow> bool" where
  "marker_clash input is \<longleftrightarrow> (\<exists>i\<in>set is. item_of input i = Inl i \<and> inDelimiter input \<noteq> []
     \<and> HasSuffix (oiKey i) (inDelimiter input))"

lemma item_suffix: "item_of input i = Inr p \<Longrightarrow> inDelimiter input \<noteq> [] \<and> HasSuffix p (inDelimiter input)"
proof -
  let ?r = "drop (length (inPrefix input)) (oiKey i)" and ?d = "inDelimiter input"
  assume "item_of input i = Inr p"
  then obtain idx where d: "?d \<noteq> []" and I: "Index ?r ?d = Some idx" and p: "p = inPrefix input @ take (idx + length ?d) ?r"
    by (auto simp: item_cases split: option.splits if_splits)
  from Index_Some_prefix [OF I] obtain q where "drop idx ?r = ?d @ q" by (auto simp: prefix_def)
  then have "take (idx + length ?d) ?r = take idx ?r @ ?d" by (simp add: take_add)
  with p d show ?thesis by (auto simp: suffix_def)
qed

lemma item_of_token [simp]: "item_of (input\<lparr>inContinuationToken := t\<rparr>) i = item_of input i"
  by (simp add: item_of_def Let_def split: option.split)

lemma listing_key:
  assumes "store_wf b m" and "is_listing b m input is" and "i \<in> set is"
  shows "nul \<notin> set (oiKey i) \<and> cur_of m b (oiKey i) = Some i \<and> \<not> oiIsDeleteMarker i \<and> wanted input (oiKey i)"
proof -
  from assms(2,3) obtain key where k: "nul \<notin> set key" "cur_of m b key = Some i" "\<not> oiIsDeleteMarker i" "wanted input key"
    unfolding is_listing_def by blast
  from key_wf_cur [OF store_wf_key [OF assms(1) k(1)] k(2)] have "oiKey i = key" by (simp add: rec_ok_def)
  with k show ?thesis by simp
qed

lemma listing_mem:
  assumes "store_wf b m" and "is_listing b m input is"
  shows "i \<in> set is \<longleftrightarrow> nul \<notin> set (oiKey i) \<and> cur_of m b (oiKey i) = Some i \<and> \<not> oiIsDeleteMarker i \<and> wanted input (oiKey i)"
  using listing_key [OF assms] assms(2) unfolding is_listing_def by blast

lemma items_set: "set (items_of input is) = item_of input ` set is"
  by (simp add: items_of_def)

lemma token_after:
  assumes i: "wanted input ki" "item_of input i = x" "oiKey i = ki"
    and t: "t = item_name x" "t \<noteq> []"
    and c: "x = Inl i \<longrightarrow> \<not> (inDelimiter input \<noteq> [] \<and> HasSuffix ki (inDelimiter input))"
    and j: "oiKey j = kj"
  shows "wanted (input\<lparr>inContinuationToken := t\<rparr>) kj \<longleftrightarrow> wanted input kj \<and> t < item_name (item_of input j)"
    (is "wanted ?in' kj \<longleftrightarrow> _")
proof -
  have sa': "lo_startAfter ?in' = t" using t(2) by (simp add: lo_startAfter_def)
  have Pi: "prefix (inPrefix input) ki" using i(1) by (simp add: wanted_def)
  have mip: "marker_is_prefix ?in' \<longleftrightarrow> (\<exists>p. x = Inr p)"
  proof (cases x)
    case (Inl i')
    with item_of_Inl i have "i' = i" by blast
    with Inl c t i sa' show ?thesis by (simp add: marker_is_prefix_def)
  next
    case (Inr p)
    with item_suffix [of input i p] i(2) t sa' show ?thesis by (simp add: marker_is_prefix_def)
  qed
  show ?thesis
  proof
    assume w: "wanted ?in' kj"
    then have Pj: "prefix (inPrefix input) kj" and lt: "t < kj" and np: "\<not> ((\<exists>p. x = Inr p) \<and> prefix t kj)"
      using sa' t(2) mip by (auto simp: wanted_def)
    have gt: "ki < kj"
    proof (cases x)
      case (Inl i')
      with item_of_Inl i t lt show ?thesis by fastforce
    next
      case (Inr p)
      with item_prefix [of input i p] i Pi obtain r where "ki = p @ r" by (auto simp: prefix_def)
      with less_not_prefix_less [of p kj r] lt np Inr t show ?thesis by simp
    qed
    have "wanted input kj"
    proof -
      have "\<not> (marker_is_prefix input \<and> HasPrefix kj (lo_startAfter input))" if "lo_startAfter input \<noteq> []"
      proof
        assume m: "marker_is_prefix input \<and> HasPrefix kj (lo_startAfter input)"
        from i(1) that have "lo_startAfter input < ki" by (simp add: wanted_def)
        with gt m have "prefix (lo_startAfter input) ki"
          using prefix_convex [of "lo_startAfter input" "lo_startAfter input" kj ki] by simp
        with i(1) that m show False by (simp add: wanted_def)
      qed
      moreover have "lo_startAfter input \<noteq> [] \<Longrightarrow> lo_startAfter input < kj"
        using i(1) gt by (auto simp: wanted_def intro: less_trans)
      ultimately show ?thesis using Pj by (auto simp: wanted_def)
    qed
    moreover have "t < item_name (item_of input j)"
    proof -
      have "item_of input i = item_of input j \<or> item_less (item_of input i) (item_of input j)"
        using item_mono [of i j input] gt i(3) j Pi Pj by simp
      moreover have "item_of input i \<noteq> item_of input j"
      proof
        assume e: "item_of input i = item_of input j"
        show False
        proof (cases x)
          case (Inl i')
          with e i(2) item_of_Inl have "i = j" by metis
          with gt i(3) j show False by simp
        next
          case (Inr p)
          with e i(2) have "item_of input j = Inr p" by simp
          with item_prefix [of input j p] Pj j have "prefix p kj" by simp
          with Inr np t show False by simp
        qed
      qed
      ultimately show ?thesis using i(2) t by simp
    qed
    ultimately show "wanted input kj \<and> t < item_name (item_of input j)" ..
  next
    assume w: "wanted input kj \<and> t < item_name (item_of input j)"
    then have Pj: "prefix (inPrefix input) kj" by (simp add: wanted_def)
    have "t < kj" using w item_name_le [of input j] Pj j by (metis less_le_trans)
    moreover have "\<not> ((\<exists>p. x = Inr p) \<and> prefix t kj)"
    proof
      assume "(\<exists>p. x = Inr p) \<and> prefix t kj"
      then obtain p where p: "x = Inr p" "prefix p kj" using t by auto
      with item_same [of input i p j] i Pi j have "item_of input j = Inr p" by simp
      with w t p show False by simp
    qed
    ultimately show "wanted ?in' kj" using Pj sa' mip by (auto simp: wanted_def)
  qed
qed

lemma next_page_items:
  assumes wf: "store_wf b m" and l: "is_listing b m input is"
    and n: "0 < n" "n < length (items_of input is)"
    and nc: "\<not> marker_clash input is" and ne: "\<forall>i\<in>set is. oiKey i \<noteq> []"
    and l': "is_listing b m (input\<lparr>inContinuationToken := item_name (last (take n (items_of input is)))\<rparr>) is'"
  shows "items_of (input\<lparr>inContinuationToken := item_name (last (take n (items_of input is)))\<rparr>) is' = drop n (items_of input is)
     \<and> set is' \<subseteq> set is"
proof -
  let ?its = "items_of input is"
  let ?x = "last (take n ?its)" and ?in' = "input\<lparr>inContinuationToken := item_name (last (take n (items_of input is)))\<rparr>"
  have tk: "take n ?its \<noteq> []" using n by auto
  then have "?x \<in> set (take n ?its)" by (rule last_in_set)
  then have "?x \<in> set ?its" by (rule in_set_takeD)
  then obtain i where i: "i \<in> set is" "item_of input i = ?x" by (auto simp: items_set)
  note K = listing_key [OF wf l i(1)]
  have P: "\<forall>i\<in>set is. prefix (inPrefix input) (oiKey i)" using listing_key [OF wf l] by (auto simp: wanted_def)
  have t: "item_name ?x \<noteq> []"
  proof (cases ?x)
    case (Inl i')
    with i item_of_Inl ne show ?thesis by force
  next
    case (Inr p)
    with item_suffix [of input i p] i show ?thesis by auto
  qed
  have cl: "?x = Inl i \<longrightarrow> \<not> (inDelimiter input \<noteq> [] \<and> HasSuffix (oiKey i) (inDelimiter input))"
    using nc i unfolding marker_clash_def by metis
  have W: "wanted ?in' (oiKey j) \<longleftrightarrow> wanted input (oiKey j) \<and> item_name ?x < item_name (item_of input j)" for j
    using token_after [of input "oiKey i" i ?x "item_name ?x" j "oiKey j"] K i t cl by blast
  have S: "j \<in> set is' \<longleftrightarrow> j \<in> set is \<and> item_name ?x < item_name (item_of input j)" for j
    unfolding listing_mem [OF wf l] listing_mem [OF wf l'] W by blast
  have srt: "sorted_wrt item_less ?its"
    by (rule items_sorted) (use l P in \<open>auto simp: is_listing_def\<close>)
  have srt': "sorted_wrt item_less (items_of ?in' is')"
    by (rule items_sorted) (use l' P S in \<open>auto simp: is_listing_def\<close>)
  have sp: "?its = butlast (take n ?its) @ [?x] @ drop n ?its"
    using tk by (metis append.assoc append_butlast_last_id append_take_drop_id)
  have D: "y \<in> set (drop n ?its) \<longleftrightarrow> y \<in> set ?its \<and> item_name ?x < item_name y" for y
  proof -
    have s: "sorted_wrt item_less (butlast (take n ?its) @ [?x] @ drop n ?its)" using srt sp by simp
    have a: "z \<in> set (butlast (take n ?its)) \<Longrightarrow> item_less z ?x" "z \<in> set (drop n ?its) \<Longrightarrow> item_less ?x z" for z
      using s by (auto simp: sorted_wrt_append)
    have m: "z \<in> set ?its \<longleftrightarrow> z \<in> set (butlast (take n ?its)) \<or> z = ?x \<or> z \<in> set (drop n ?its)" for z
      by (subst sp) auto
    show ?thesis using a(1) [of y] a(2) [of y] m [of y] by (metis less_asym)
  qed
  have "items_of ?in' is' = drop n ?its"
  proof (rule strict_unique [where R = item_less])
    show "sorted_wrt item_less (drop n ?its)" using srt by (rule sorted_wrt_drop)
    have "set (items_of ?in' is') = item_of input ` set is'" unfolding items_set by simp
    also have "\<dots> = {y \<in> set ?its. item_name ?x < item_name y}" unfolding items_set using S by auto
    also have "\<dots> = set (drop n ?its)" using D by auto
    finally show "set (items_of ?in' is') = set (drop n ?its)" .
  qed (use srt' in auto)
  with S show ?thesis by blast
qed

text \<open>A client that follows the continuation tokens, at most k pages.\<close>

fun list_pages :: "nat \<Rightarrow> nat \<Rightarrow> 'b bolt \<Rightarrow> 'b bdb \<Rightarrow> ListObjectsInput \<Rightarrow> (ObjectInfo list \<times> string list) option" where
  "list_pages 0 fuel B db input = None"
| "list_pages (Suc k) fuel B db input = (case listObjectsTx fuel B db input of
     Some (Inr out) \<Rightarrow>
       if outIsTruncated out then
         map_option (\<lambda>(os, ps). (outObjects out @ os, outCommonPrefixes out @ ps))
           (list_pages k fuel B db (input\<lparr>inContinuationToken := outNextContinuationToken out\<rparr>))
       else Some (outObjects out, outCommonPrefixes out)
   | _ \<Rightarrow> None)"

context bolt_laws
begin

lemma list_pages_all:
  "length (items_of input is) < k \<Longrightarrow> store_wf (inBucket input) (bk_get B (dbObjects db)) \<Longrightarrow>
   length (bk_entries B (dbObjects db)) < fuel \<Longrightarrow>
   is_listing (inBucket input) (bk_get B (dbObjects db)) input is \<Longrightarrow> \<not> marker_clash input is \<Longrightarrow>
   \<forall>i\<in>set is. oiKey i \<noteq> [] \<Longrightarrow>
   list_pages k fuel B db input = Some (lefts (items_of input is), rights (items_of input is))"
proof (induction k arbitrary: input "is")
  case 0
  then show ?case by simp
next
  case (Suc k)
  let ?its = "items_of input is" and ?n = "nat (lo_maxKeys input)"
  have pg: "listObjectsTx fuel B db input = Some (Inr (page_of ?n ?its))"
    using list_objects_page [OF Suc.prems(2,3,4)] .
  have n: "0 < ?n" using lo_maxKeys_pos [of input] by simp
  show ?case
  proof (cases "?n < length ?its")
    case False
    with pg show ?thesis by (simp add: page_of_def)
  next
    case True
    let ?in' = "input\<lparr>inContinuationToken := item_name (last (take ?n ?its))\<rparr>"
    obtain is' where l': "is_listing (inBucket input) (bk_get B (dbObjects db)) ?in' is'"
      using visible_listing [OF Suc.prems(2)] by blast
    note N = next_page_items [OF Suc.prems(2,4) n True Suc.prems(5,6) l']
    have "list_pages k fuel B db ?in' = Some (lefts (items_of ?in' is'), rights (items_of ?in' is'))"
    proof (rule Suc.IH)
      show "length (items_of ?in' is') < k" using N Suc.prems(1) n True by simp
      show "\<not> marker_clash ?in' is'" using N Suc.prems(5) unfolding marker_clash_def by auto
      show "\<forall>i\<in>set is'. oiKey i \<noteq> []" using N Suc.prems(6) by blast
    qed (use Suc.prems l' in simp_all)
    moreover have "lefts (take ?n ?its) @ lefts (drop ?n ?its) = lefts ?its" "rights (take ?n ?its) @ rights (drop ?n ?its) = rights ?its"
      by (metis append_take_drop_id lefts_append)+
    ultimately show ?thesis using pg True N by (simp add: page_of_def)
  qed
qed

end

subsection \<open>Sample buckets\<close>

definition ex_in :: "string \<Rightarrow> string \<Rightarrow> int \<Rightarrow> string \<Rightarrow> ListObjectsInput" where
  "ex_in pfx delim n token = \<lparr>inBucket = ''bkt'', inPrefix = pfx, inDelimiter = delim, inMaxKeys = n,
     inContinuationToken = token, inStartAfter = []\<rparr>"

fun put_keys :: "string list \<Rightarrow> alist_bucket bdb \<Rightarrow> alist_bucket bdb" where
  "put_keys [] db = db"
| "put_keys (k # ks) db = put_keys ks (the_ok (putObjectMetaTx alist_bolt False (ex_obj k [] 5) db))"

definition ex_list :: "alist_bucket bdb" where
  "ex_list = put_keys [''a/1'', ''a/2'', ''b''] ex_db0"

lemma put_key_wf:
  assumes "db_wf alist_bolt ''bkt'' db" "rec_ok ''bkt'' k (ex_obj k [] 5)" "nul \<notin> set k"
    "is_ok (putObjectMetaTx alist_bolt False (ex_obj k [] 5) db)"
  shows "db_wf alist_bolt ''bkt'' (the_ok (putObjectMetaTx alist_bolt False (ex_obj k [] 5) db))"
  using al.put_db [OF ok_the_ok [OF assms(4)] assms(1-3)] by simp

lemma ex_list_wf: "db_wf alist_bolt ''bkt'' ex_list"
  unfolding ex_list_def put_keys.simps
  by (intro put_key_wf ex_db0_wf) code_simp+

lemma ex_list_small: "length (bk_entries alist_bolt (dbObjects ex_list)) < 4"
  by code_simp

subsection \<open>Properties\<close>

text \<open>C26: ListObjects on a well-formed bucket ends, within one turn per stored entry,
  and returns exactly the first max-keys items of the wanted objects in key order: each
  wanted object once, or once the common prefix it rolls up to; it says truncated
  exactly when items are left, and its token names the last item of the page.\<close>

theorem list_objects_correct:
  assumes "bolt_laws B" and "db_wf B (inBucket input) db" and "length (bk_entries B (dbObjects db)) < fuel"
  shows "\<exists>is. is_listing (inBucket input) (bk_get B (dbObjects db)) input is \<and>
    listObjectsTx fuel B db input = Some (Inr (page_of (nat (lo_maxKeys input)) (items_of input is)))"
  using bolt_laws.visible_listing [OF assms(1) db_wf_store [OF assms(2)]]
    bolt_laws.list_objects_page [OF assms(1) db_wf_store [OF assms(2)] assms(3)] by blast

theorem list_objects_correct_witness:
  "\<exists>is. is_listing ''bkt'' (bk_get alist_bolt (dbObjects ex_list)) (ex_in [] ''/'' 10 []) is \<and>
     outCommonPrefixes (page_of 10 (items_of (ex_in [] ''/'' 10 []) is)) = [''a/'']"
proof -
  have w: "db_wf alist_bolt (inBucket (ex_in [] ''/'' 10 [])) ex_list" using ex_list_wf by (simp add: ex_in_def)
  have n: "nat (lo_maxKeys (ex_in [] ''/'' 10 [])) = 10" by (simp add: lo_maxKeys_def ex_in_def)
  have b: "inBucket (ex_in [] ''/'' 10 []) = ''bkt''" by (simp add: ex_in_def)
  have c: "map_option (\<lambda>r. outCommonPrefixes (the_ok r)) (listObjectsTx 4 alist_bolt ex_list (ex_in [] ''/'' 10 [])) = Some [''a/'']"
    by code_simp
  from list_objects_correct [OF alist_laws w ex_list_small] c show ?thesis unfolding n b by auto
qed

text \<open>C10: a client that follows the continuation tokens receives, over all pages, exactly
  the items of the listing in order: no object and no common prefix is lost or
  repeated, whatever the page size, unless an object listed as such has a key that
  ends in the delimiter.\<close>

theorem list_objects_pagination:
  assumes "bolt_laws B" and "db_wf B (inBucket input) db" and "length (bk_entries B (dbObjects db)) < fuel"
    and "is_listing (inBucket input) (bk_get B (dbObjects db)) input is" and "\<not> marker_clash input is"
    and "\<And>i. i \<in> set is \<Longrightarrow> oiKey i \<noteq> []" and "length (items_of input is) < pages"
  shows "list_pages pages fuel B db input = Some (lefts (items_of input is), rights (items_of input is))"
  using bolt_laws.list_pages_all [OF assms(1,7) db_wf_store [OF assms(2)] assms(3,4,5)] assms(6) by blast

theorem list_objects_pagination_witness:
  "\<exists>is. is_listing ''bkt'' (bk_get alist_bolt (dbObjects ex_list)) (ex_in [] ''/'' 1 []) is \<and>
     list_pages 4 4 alist_bolt ex_list (ex_in [] ''/'' 1 []) =
       Some (lefts (items_of (ex_in [] ''/'' 1 []) is), rights (items_of (ex_in [] ''/'' 1 []) is))"
proof -
  let ?in = "ex_in [] ''/'' 1 []" and ?m = "bk_get alist_bolt (dbObjects ex_list)"
  have w: "db_wf alist_bolt (inBucket ?in) ex_list" using ex_list_wf by (simp add: ex_in_def)
  have b: "inBucket ?in = ''bkt''" by (simp add: ex_in_def)
  define os where "os = visible (''bkt'' @ [nul]) ?in (lo_startAfter ?in)
     (cur_seek alist_bolt (dbObjects ex_list) (lo_seekKey (''bkt'' @ [nul]) ?in))"
  have l: "is_listing (inBucket ?in) ?m ?in os"
    unfolding os_def b by (rule al.visible_listing [OF db_wf_store [OF ex_list_wf]])
  have keys: "map oiKey os = [''a/1'', ''a/2'', ''b'']" unfolding os_def by code_simp
  have nl: "length (items_of ?in os) < 4" unfolding os_def by code_simp
  have nc: "\<not> marker_clash ?in os" unfolding os_def marker_clash_def by code_simp
  have ne: "i \<in> set os \<Longrightarrow> oiKey i \<noteq> []" for i
  proof -
    assume "i \<in> set os"
    then have "oiKey i \<in> set (map oiKey os)" by simp
    then show ?thesis unfolding keys by auto
  qed
  have "list_pages 4 4 alist_bolt ex_list ?in = Some (lefts (items_of ?in os), rights (items_of ?in os))"
    by (rule list_objects_pagination [OF alist_laws w ex_list_small l nc ne nl])
  with l b show ?thesis by auto
qed

text \<open>C38: one object whose key has a byte FF after the delimiter makes a listing with that
  delimiter run forever: after the common prefix is emitted the cursor is sent to the
  prefix followed by FF, which does not sort after the key, and the loop revisits it.
  PutObject's checks accept such a key.\<close>

definition ex_bad :: "alist_bucket bdb" where
  "ex_bad = put_keys [''a/'' @ [CHR 0xFF]] ex_db0"

theorem list_objects_hangs_on_FF_key:
  "validateNewKey (''a/'' @ [CHR 0xFF]) = Inr () \<and> validatePathSafety ''bkt'' (''a/'' @ [CHR 0xFF]) [] = Inr () \<and>
   listObjectsTx fuel alist_bolt ex_bad (ex_in [] ''/'' 10 []) = None"
proof (intro conjI)
  show "validateNewKey (''a/'' @ [CHR 0xFF]) = Inr ()" by code_simp
  show "validatePathSafety ''bkt'' (''a/'' @ [CHR 0xFF]) [] = Inr ()" by code_simp
  let ?in = "ex_in [] ''/'' 10 []" and ?es = "bk_entries alist_bolt (dbObjects ex_bad)"
  let ?st0 = "\<lparr>loObjects = [], loCommonPrefixes = [], loIsTruncated = False, loNextToken = []\<rparr>"
  let ?st1 = "\<lparr>loObjects = [], loCommonPrefixes = [''a/''], loIsTruncated = False, loNextToken = ''a/''\<rparr>"
  have s: "cur_seek alist_bolt (dbObjects ex_bad) (lo_seekKey (inBucket ?in @ [nul]) ?in) = ?es" by code_simp
  have 0: "lo_step ?es (inBucket ?in @ [nul]) ?in (lo_startAfter ?in) (lo_maxKeys ?in) ?st0 ?es = Inr (?st1, ?es)" by code_simp
  have 1: "lo_step ?es (inBucket ?in @ [nul]) ?in (lo_startAfter ?in) (lo_maxKeys ?in) ?st1 ?es = Inr (?st1, ?es)" by code_simp
  have L: "lo_loop n ?es (inBucket ?in @ [nul]) ?in (lo_startAfter ?in) (lo_maxKeys ?in) ?st1 ?es = None" for n
    by (induction n) (simp_all add: 1)
  have "lo_loop fuel ?es (inBucket ?in @ [nul]) ?in (lo_startAfter ?in) (lo_maxKeys ?in) ?st0 ?es = None"
    by (cases fuel) (simp_all add: 0 L)
  then show "listObjectsTx fuel alist_bolt ex_bad ?in = None" by (simp add: listObjectsTx_def Let_def s)
qed

text \<open>With a folder marker the pages lose objects: a bucket with the keys dir/ and
  dir/a, listed below dir/ with delimiter / and one key a page, gives the marker and a
  token dir/ on the first page and an empty last page on the second.\<close>

definition ex_folder :: "alist_bucket bdb" where
  "ex_folder = put_keys [''dir/'', ''dir/a''] ex_db0"

theorem folder_marker_loses_objects:
  "map_option (\<lambda>r. map oiKey (outObjects (the_ok r))) (listObjectsTx 3 alist_bolt ex_folder (ex_in ''dir/'' ''/'' 10 [])) =
     Some [''dir/'', ''dir/a''] \<and>
   map_option (\<lambda>r. map oiKey (fst r)) (list_pages 3 3 alist_bolt ex_folder (ex_in ''dir/'' ''/'' 1 [])) = Some [''dir/'']"
  by (rule conjI) code_simp+

end
