(* ===== verification/Meta_Ids.thy ===== *)
theory Meta_Ids
  imports Paths Object_Props Bucket_Cache
begin

text \<open>
  Which data the metadata store refers to. The identity of a stored object
  (bucket, key, version, blob) determines the path of its data; ids is the set of
  the identities of all records with data. Here: how each operation of the
  metadata store changes that set, and that every database stays well-formed.
\<close>

type_synonym ident = "string \<times> string \<times> string \<times> string"

definition ident_of :: "ObjectInfo \<Rightarrow> ident" where
  "ident_of i = (oiBucket i, oiKey i, oiVersionID i, oiBlobID i)"

fun ident_path :: "string \<Rightarrow> ident \<Rightarrow> string result" where
  "ident_path dd (b, k, v, x) =
    (if x = [] then objectPathWithVersion dd b k v
     else if \<not> isBlobID x then Inl (ErrText ''invalid blob ID in metadata'')
     else Inr (blobPath dd b x))"

lemma dataPath_ident: "dataPath dd i = ident_path dd (ident_of i)"
  by (simp add: dataPath_def ident_of_def)

declare ident_path.simps [simp del]

text \<open>The identities of one key's records, from its current record and history.\<close>

definition key_ids :: "ObjectInfo option \<times> history \<Rightarrow> ident set" where
  "key_ids s = ident_of ` {i. (fst s = Some i \<or> i \<in> ran (snd s)) \<and> \<not> oiIsDeleteMarker i}"

definition map_ids :: "string \<Rightarrow> dbmap \<Rightarrow> ident set" where
  "map_ids b mp = (\<Union>k\<in>{k. nul \<notin> set k}. key_ids (cur_of mp b k, hist_of mp b k))"

text \<open>The records of every bucket: what opening its database would find.\<close>

definition obj_at :: "'b bolt \<Rightarrow> 'b mstore \<Rightarrow> string \<Rightarrow> dbmap" where
  "obj_at B m b = (case msDbs m b of None \<Rightarrow> Map.empty | Some db \<Rightarrow> bk_get B (dbObjects db))"

definition ids :: "'b bolt \<Rightarrow> 'b mstore \<Rightarrow> ident set" where
  "ids B m = (\<Union>b. map_ids b (obj_at B m b))"

definition meta_ok :: "'b bolt \<Rightarrow> 'b mstore \<Rightarrow> bool" where
  "meta_ok B m \<longleftrightarrow> (\<forall>b db. msDbs m b = Some db \<longrightarrow> db_wf B b db \<and> IsValidBucketName b)"

text \<open>A bucket whose database is open, so that acquiring it cannot fail.\<close>

definition opened :: "'b mstore \<Rightarrow> string \<Rightarrow> bool" where
  "opened m b \<longleftrightarrow> b \<in> set (msActive m) \<and> msDbs m b \<noteq> None"

text \<open>The slots a write or delete of version v replaces: all of them for v empty.\<close>

definition in_slot :: "string \<Rightarrow> string \<Rightarrow> string \<Rightarrow> ident \<Rightarrow> bool" where
  "in_slot b k v x \<longleftrightarrow> fst x = b \<and> fst (snd x) = k \<and> (v = [] \<or> fst (snd (snd x)) = v)"

lemma ident_sel [simp]:
  "fst (ident_of i) = oiBucket i" "fst (snd (ident_of i)) = oiKey i"
  "fst (snd (snd (ident_of i))) = oiVersionID i" "snd (snd (snd (ident_of i))) = oiBlobID i"
  by (simp_all add: ident_of_def)

lemma ident_of_flags [simp]:
  "ident_of (i\<lparr>oiIsLatest := x\<rparr>) = ident_of i"
  "ident_of (i\<lparr>oiIsLatest := x, oiNoncurrentSince := t\<rparr>) = ident_of i"
  by (simp_all add: ident_of_def)

lemma key_ids_iff:
  "x \<in> key_ids (c, h) \<longleftrightarrow> (\<exists>i. x = ident_of i \<and> \<not> oiIsDeleteMarker i \<and> (c = Some i \<or> (\<exists>v. h v = Some i)))"
  by (auto simp: key_ids_def ran_def)

lemma key_ids_slot:
  assumes "key_wf b k c h" "x \<in> key_ids (c, h)" shows "in_slot b k [] x"
proof -
  from assms(2) obtain i where "x = ident_of i" "c = Some i \<or> (\<exists>v. h v = Some i)" by (auto simp: key_ids_iff)
  moreover from this have "rec_ok b k i" using key_wf_cur [OF assms(1)] key_wf_hist [OF assms(1)] by blast
  ultimately show ?thesis by (simp add: in_slot_def rec_ok_def)
qed

abbreviation db_ids :: "'b bolt \<Rightarrow> string \<Rightarrow> 'b bdb \<Rightarrow> ident set" where
  "db_ids B b db \<equiv> map_ids b (bk_get B (dbObjects db))"

lemmas db_ids_def = map_ids_def

lemma db_ids_key:
  assumes "db_wf B b db" "x \<in> db_ids B b db" "nul \<notin> set k" "in_slot b k [] x"
  shows "x \<in> key_ids (cur_db B db b k, hist_db B db b k)"
proof -
  from assms(2) obtain k' where k': "nul \<notin> set k'" "x \<in> key_ids (cur_db B db b k', hist_db B db b k')"
    by (auto simp: db_ids_def)
  have "in_slot b k' [] x" using key_ids_slot [OF store_wf_key [OF db_wf_store [OF assms(1)] k'(1)] k'(2)] .
  with assms(4) have "k' = k" by (simp add: in_slot_def)
  with k' show ?thesis by simp
qed

lemma db_ids_slot: "db_wf B b db \<Longrightarrow> x \<in> db_ids B b db \<Longrightarrow> \<exists>k. nul \<notin> set k \<and> in_slot b k [] x"
  unfolding db_ids_def by (auto intro: key_ids_slot dest: store_wf_key [OF db_wf_store])

subsection \<open>One key at a time\<close>

lemma key_ids_put:
  assumes "key_wf b k c h" "rec_ok b k info"
  shows "key_ids (spec_put info (c, h)) \<subseteq>
    (if oiIsDeleteMarker info then {} else {ident_of info}) \<union> {x \<in> key_ids (c, h). \<not> in_slot b k (oiVersionID info) x}"
proof
  fix x assume "x \<in> key_ids (spec_put info (c, h))"
  then obtain i where i: "x = ident_of i" "\<not> oiIsDeleteMarker i"
    and o: "fst (spec_put info (c, h)) = Some i \<or> (\<exists>v. snd (spec_put info (c, h)) v = Some i)"
    unfolding key_ids_def ran_def by blast
  consider "i = info\<lparr>oiIsLatest := True\<rparr>"
    | v where "v \<noteq> oiVersionID info" "oiVersionID info \<noteq> []" "retire info c h v = Some i"
    using o by (auto simp: spec_put_simps split: if_splits)
  then show "x \<in> (if oiIsDeleteMarker info then {} else {ident_of info}) \<union> {x \<in> key_ids (c, h). \<not> in_slot b k (oiVersionID info) x}"
  proof cases
    case 1
    with i show ?thesis by simp
  next
    case (2 v)
    have v: "oiVersionID i = v" using retire_other [OF assms(1) 2(1,3)] by simp
    have "x \<in> key_ids (c, h)" using 2(3)
    proof (cases rule: retire_cases)
      case 1
      with i show ?thesis by (auto simp: key_ids_iff)
    next
      case (2 old)
      then have "ident_of i = ident_of old" "oiIsDeleteMarker i = oiIsDeleteMarker old" by simp_all
      with i 2(1) show ?thesis unfolding key_ids_iff by blast
    qed
    with 2 v i show ?thesis by (simp add: in_slot_def)
  qed
qed

lemma key_ids_put_new:
  "\<not> oiIsDeleteMarker info \<Longrightarrow> ident_of info \<in> key_ids (spec_put info s)"
  unfolding key_ids_def by (auto simp: spec_put_simps intro!: image_eqI [where x = "info\<lparr>oiIsLatest := True\<rparr>"])

lemma key_ids_delete_version:
  assumes wf: "key_wf b k c h" and sp: "spec_delete_version v (c, h) (c', h')" and v: "v \<noteq> []"
  shows "key_ids (c', h') \<subseteq> {x \<in> key_ids (c, h). \<not> in_slot b k v x}"
proof
  fix x assume "x \<in> key_ids (c', h')"
  then obtain i where i: "x = ident_of i" "\<not> oiIsDeleteMarker i" "c' = Some i \<or> (\<exists>w. h' w = Some i)"
    by (auto simp: key_ids_iff)
  let ?h = "h(v := None)"
  have H: "oiVersionID j = w" if "h w = Some j" for w j using key_wf_hist [OF wf that] by blast
  have P: "\<exists>j. ident_of i = ident_of j \<and> \<not> oiIsDeleteMarker j \<and> oiVersionID j \<noteq> v \<and> (c = Some j \<or> (\<exists>w. h w = Some j))"
  proof (cases c)
    case None
    with sp i(3) have "\<exists>w. ?h w = Some i" by (simp add: spec_delete_version_def)
    then obtain w where "w \<noteq> v" "h w = Some i" by (auto split: if_splits)
    with H i show ?thesis by blast
  next
    case (Some j)
    note sp' = sp [unfolded spec_delete_version_def Let_def fst_conv snd_conv Some option.case]
    show ?thesis
    proof (cases "oiVersionID j = v")
      case False
      with sp' i(3) have "j = i \<or> (\<exists>w. ?h w = Some i)" by auto
      then show ?thesis using False Some i H by (auto split: if_splits)
    next
      case True
      with sp' i(3) obtain n where n: "is_newest ?h n"
        and e: "c' = Some (n\<lparr>oiIsLatest := True\<rparr>)" "h' = ?h(oiVersionID n \<mapsto> n\<lparr>oiIsLatest := True\<rparr>)"
        by (auto split: if_splits)
      then obtain w where w: "h w = Some n" "w \<noteq> v" by (auto simp: is_newest_def split: if_splits)
      have "i = n\<lparr>oiIsLatest := True\<rparr> \<or> (\<exists>u. u \<noteq> v \<and> h u = Some i)" using i(3) e by (auto split: if_splits)
      then show ?thesis
      proof
        assume "i = n\<lparr>oiIsLatest := True\<rparr>"
        then have "ident_of i = ident_of n" "oiIsDeleteMarker i = oiIsDeleteMarker n" by simp_all
        with w H i show ?thesis by blast
      next
        assume "\<exists>u. u \<noteq> v \<and> h u = Some i"
        with H i show ?thesis by blast
      qed
    qed
  qed
  then obtain j where "ident_of i = ident_of j" "\<not> oiIsDeleteMarker j" "oiVersionID j \<noteq> v" "c = Some j \<or> (\<exists>w. h w = Some j)" by blast
  with i v show "x \<in> {x \<in> key_ids (c, h). \<not> in_slot b k v x}" by (auto simp: key_ids_iff in_slot_def)
qed

subsection \<open>One database\<close>

text \<open>A change of one key changes the identities of one database accordingly.\<close>

lemma db_ids_upd:
  assumes o: "others_same B db db' b k" and wf: "db_wf B b db" and n: "nul \<notin> set k"
    and s: "key_ids (cur_db B db' b k, hist_db B db' b k) \<subseteq> N \<union> {x \<in> key_ids (cur_db B db b k, hist_db B db b k). \<not> in_slot b k v x}"
  shows "db_ids B b db' \<subseteq> N \<union> {x \<in> db_ids B b db. \<not> in_slot b k v x}"
proof
  fix x assume "x \<in> db_ids B b db'"
  then obtain k' where k': "nul \<notin> set k'" "x \<in> key_ids (cur_db B db' b k', hist_db B db' b k')"
    by (auto simp: db_ids_def)
  show "x \<in> N \<union> {x \<in> db_ids B b db. \<not> in_slot b k v x}"
  proof (cases "k' = k")
    case True
    with k' s n show ?thesis by (auto simp: db_ids_def)
  next
    case False
    with o k' have x: "x \<in> key_ids (cur_db B db b k', hist_db B db b k')" by (auto simp: others_same_def)
    have "in_slot b k' [] x" using key_ids_slot [OF store_wf_key [OF db_wf_store [OF wf] k'(1)] x] .
    with False have "\<not> in_slot b k v x" by (simp add: in_slot_def)
    with x k' show ?thesis by (auto simp: db_ids_def)
  qed
qed

lemma utf8_null: "utf8_valid ''null''"
  by code_simp

context bolt_laws
begin

lemma put_ids:
  assumes "putObjectMetaTx B r info db = Inr db'" "db_wf B b db" "rec_ok b k info" "nul \<notin> set k"
  shows "db_wf B b db' \<and> db_ids B b db' \<subseteq> (if oiIsDeleteMarker info then {} else {ident_of info}) \<union>
      {x \<in> db_ids B b db. \<not> in_slot b k (oiVersionID info) x}"
proof -
  note P = put_db [OF assms]
  have "key_ids (spec_put info (cur_db B db b k, hist_db B db b k)) \<subseteq>
      (if oiIsDeleteMarker info then {} else {ident_of info}) \<union>
      {x \<in> key_ids (cur_db B db b k, hist_db B db b k). \<not> in_slot b k (oiVersionID info) x}"
    using key_ids_put [OF store_wf_key [OF db_wf_store [OF assms(2)] assms(4)] assms(3)] .
  with P have "db_ids B b db' \<subseteq> (if oiIsDeleteMarker info then {} else {ident_of info}) \<union>
      {x \<in> db_ids B b db. \<not> in_slot b k (oiVersionID info) x}"
    by (intro db_ids_upd [OF _ assms(2,4)]) auto
  with P show ?thesis by simp
qed

lemma delete_ids:
  assumes "deleteObjectMetaTx B r b k v db = Inr db'" "db_wf B b db" "nul \<notin> set k"
  shows "db_wf B b db' \<and> db_ids B b db' \<subseteq> {x \<in> db_ids B b db. \<not> in_slot b k v x}"
proof (cases "v = []")
  case True
  note P = delete_key_db [OF assms(1) [unfolded True] assms(2,3)]
  have "key_ids (cur_db B db' b k, hist_db B db' b k) = {}" using P by (simp add: key_ids_def)
  with P show ?thesis using db_ids_upd [OF _ assms(2,3), of db' "{}" v] by simp
next
  case False
  note P = delete_version_db [OF assms(1,2,3) False]
  have "key_ids (cur_db B db' b k, hist_db B db' b k) \<subseteq> {x \<in> key_ids (cur_db B db b k, hist_db B db b k). \<not> in_slot b k v x}"
    using P key_ids_delete_version [OF store_wf_key [OF db_wf_store [OF assms(2)] assms(3)] _ False] by blast
  with P show ?thesis using db_ids_upd [OF _ assms(2,3), of db' "{}" v] by simp
qed

text \<open>Promotion of an unversioned record to the version null.\<close>

lemma promote_ids:
  assumes p: "putObjectMetaRawTx B (i\<lparr>oiVersionID := ''null'', oiIsLatest := True, oiBlobID := x\<rparr>) db = Inr db'"
    and wf: "db_wf B b db" and n: "nul \<notin> set k" and c: "cur_db B db b k = Some i" and v: "oiVersionID i = []"
    and x: "utf8_valid x"
  shows "db_wf B b db' \<and> db_ids B b db' \<subseteq>
    insert (b, k, ''null'', x) {y \<in> db_ids B b db. \<not> in_slot b k [] y}
    \<and> cur_db B db' b k = Some (i\<lparr>oiVersionID := ''null'', oiIsLatest := True, oiBlobID := x\<rparr>)"
proof -
  let ?i = "i\<lparr>oiVersionID := ''null'', oiIsLatest := True, oiBlobID := x\<rparr>"
  note K = store_wf_key [OF db_wf_store [OF wf] n]
  have i: "rec_ok b k i" and h: "hist_db B db b k = Map.empty"
    using key_wf_cur [OF K c] v by auto
  have r: "rec_ok b k ?i" using i x utf8_null by (auto simp: rec_ok_def obj_utf8_def simp del: utf8_valid.simps)
  have s: "spec_raw ?i (cur_db B db b k, hist_db B db b k) = (Some ?i, [''null'' \<mapsto> ?i])"
    unfolding h spec_raw_def by simp
  have w: "key_wf b k (Some ?i) [''null'' \<mapsto> ?i]"
    by (rule key_wfI) (use r in \<open>auto split: if_splits\<close>)
  have P: "db_wf B b db' \<and> others_same B db db' b k \<and> (cur_db B db' b k, hist_db B db' b k) = (Some ?i, [''null'' \<mapsto> ?i])"
    using raw_db [OF p wf r n] w unfolding s by simp
  have "ident_of ?i = (b, k, ''null'', x)" using i by (simp add: ident_of_def rec_ok_def)
  then have "key_ids (Some ?i, [''null'' \<mapsto> ?i]) \<subseteq> {(b, k, ''null'', x)}" by (auto simp: key_ids_iff split: if_splits)
  with P show ?thesis using db_ids_upd [OF _ wf n, of db' "{(b, k, ''null'', x)}" "[]"] by (simp, blast)
qed

lemma init_db:
  assumes "initObjectCount B db = Inr db'" "db_wf B b db"
  shows "db_wf B b db' \<and> dbObjects db' = dbObjects db"
proof -
  let ?s = "CreateBucketIfNotExists B (dbStats db)" and ?d = "db\<lparr>dbStats := Some (CreateBucketIfNotExists B (dbStats db))\<rparr>"
  have sv: "stats_val B ?d = stats_val B db"
    by (simp add: stats_val_def CreateBucketIfNotExists_def get_empty split: option.split)
  then have c: "count_is B ?d n = count_is B db n" for n by (simp add: count_is_def)
  then have w: "db_wf B b ?d" using assms(2) by (simp add: db_wf_def count_wf_def)
  consider "db' = ?d" | "bk_entries B (dbObjects db) = []" "setObjectCount B ?d 0 = Inr db'"
    using assms(1) by (auto simp: initObjectCount_def Let_def split: if_splits)
  then show ?thesis
  proof cases
    case 1
    with w show ?thesis by simp
  next
    case 2
    have o: "dbObjects db' = dbObjects db" using setcount_frame [OF 2(2)] by simp
    have "bk_get B (dbObjects db) = Map.empty" using 2(1) entries_Nil_iff by blast
    then have "live b (bk_get B (dbObjects db)) = {}" by (simp add: live_def)
    with set_count_val [OF 2(2)] o have "count_wf B b db'" by (simp add: count_wf_def count_is_def)
    with o assms(2) show ?thesis by (simp add: db_wf_def)
  qed
qed

lemma empty_db_wf: "db_wf B b (emptyDB B) \<and> bk_get B (dbObjects (emptyDB B)) = Map.empty"
proof -
  have "bk_get B (bk_empty B) = Map.empty" by (rule ext) (simp add: get_empty)
  then show ?thesis
    by (simp add: db_wf_def emptyDB_def store_wf_empty count_wf_def count_is_def stats_val_def)
qed

end

subsection \<open>The store\<close>

lemma meta_okD: "meta_ok B m \<Longrightarrow> msDbs m b = Some db \<Longrightarrow> db_wf B b db \<and> IsValidBucketName b"
  by (simp add: meta_ok_def)

lemma meta_ok_store: "meta_ok B m \<Longrightarrow> store_wf b (obj_at B m b)"
  by (auto simp: meta_ok_def obj_at_def db_wf_def store_wf_empty split: option.split)

lemma meta_ok_key: "meta_ok B m \<Longrightarrow> nul \<notin> set k \<Longrightarrow>
   key_wf b k (cur_of (obj_at B m b) b k) (hist_of (obj_at B m b) b k)"
  using meta_ok_store by (rule store_wf_key)

lemma map_ids_slot: "store_wf b mp \<Longrightarrow> x \<in> map_ids b mp \<Longrightarrow> \<exists>k. nul \<notin> set k \<and> in_slot b k [] x"
  unfolding map_ids_def by (auto intro: key_ids_slot dest: store_wf_key)

lemma ids_bucket: "meta_ok B m \<Longrightarrow> x \<in> ids B m \<longleftrightarrow> x \<in> map_ids (fst x) (obj_at B m (fst x))"
proof
  assume m: "meta_ok B m" and "x \<in> ids B m"
  then obtain b where b: "x \<in> map_ids b (obj_at B m b)" by (auto simp: ids_def)
  then have "fst x = b" using map_ids_slot [OF meta_ok_store [OF m]] by (fastforce simp: in_slot_def)
  with b show "x \<in> map_ids (fst x) (obj_at B m (fst x))" by simp
qed (auto simp: ids_def)

lemma ids_I:
  "nul \<notin> set k \<Longrightarrow> \<not> oiIsDeleteMarker i \<Longrightarrow>
   cur_of (obj_at B m b) b k = Some i \<or> hist_of (obj_at B m b) b k v = Some i \<Longrightarrow> ident_of i \<in> ids B m"
  unfolding ids_def map_ids_def by (auto simp: key_ids_iff)

text \<open>One bucket's records change, in one slot.\<close>

lemma ids_upd:
  assumes m: "meta_ok B m" and o: "obj_at B m' = (obj_at B m)(b := mp)"
    and s: "map_ids b mp \<subseteq> N \<union> {x \<in> map_ids b (obj_at B m b). \<not> in_slot b k v x}"
  shows "ids B m' \<subseteq> N \<union> {x \<in> ids B m. \<not> in_slot b k v x}"
proof
  fix x assume "x \<in> ids B m'"
  then obtain b' where b': "x \<in> map_ids b' (obj_at B m' b')" by (auto simp: ids_def)
  show "x \<in> N \<union> {x \<in> ids B m. \<not> in_slot b k v x}"
  proof (cases "b' = b")
    case True
    with b' o s show ?thesis by (auto simp: ids_def)
  next
    case False
    with b' o have x: "x \<in> map_ids b' (obj_at B m b')" by simp
    then have "fst x = b'" using map_ids_slot [OF meta_ok_store [OF m]] by (fastforce simp: in_slot_def)
    with False x show ?thesis by (auto simp: ids_def in_slot_def)
  qed
qed

lemma ids_cong: "obj_at B m' = obj_at B m \<Longrightarrow> ids B m' = ids B m"
  by (simp add: ids_def)

text \<open>What depends on the databases only.\<close>

lemma dbs_same: "msDbs m' = msDbs m \<Longrightarrow> obj_at B m' = obj_at B m \<and> meta_ok B m' = meta_ok B m"
  by (simp add: obj_at_def meta_ok_def fun_eq_iff)

context bolt_laws
begin

lemma acquire_obj:
  assumes "acquireBucketDB B m b = Inr (db, m')" "meta_ok B m" "IsValidBucketName b"
  shows "meta_ok B m' \<and> obj_at B m' = obj_at B m \<and> bk_get B (dbObjects db) = obj_at B m b
    \<and> db_wf B b db \<and> msDbs m' b = Some db \<and> b \<in> set (msActive m')"
proof (cases "b \<in> set (msActive m) \<and> msDbs m b \<noteq> None")
  case True
  with assms(1) have "m' = m\<lparr>msActive := filter (\<lambda>n. n \<noteq> b) (msActive m) @ [b]\<rparr>" "msDbs m b = Some db"
    by (auto simp: acquireBucketDB_def)
  with True assms(2) dbs_same [of m' m B] meta_okD [of B m b db] show ?thesis by (auto simp: obj_at_def)
next
  case False
  let ?d = "case msDbs m b of None \<Rightarrow> emptyDB B | Some db \<Rightarrow> db"
  from assms(1) False have i: "initObjectCount B ?d = Inr db"
    and m': "m' = m\<lparr>msDbs := (msDbs m)(b \<mapsto> db), msActive := evictIdle (msActive m) @ [b]\<rparr>"
    unfolding acquireBucketDB_def if_not_P [OF False] if_Inl_iff bindE_Inr_iff by auto
  have w: "db_wf B b ?d" using empty_db_wf meta_okD [OF assms(2)] by (cases "msDbs m b") auto
  have db: "db_wf B b db" "dbObjects db = dbObjects ?d" using init_db [OF i w] by auto
  have o: "bk_get B (dbObjects db) = obj_at B m b"
    unfolding db(2) using empty_db_wf by (simp add: obj_at_def split: option.split)
  then have "obj_at B m' = obj_at B m" using m' by (auto simp: obj_at_def fun_eq_iff)
  moreover have "meta_ok B m'" using m' db(1) assms(2,3) by (auto simp: meta_ok_def)
  ultimately show ?thesis using m' o db(1) by auto
qed

lemma view_obj:
  assumes "viewDB B m b f = (r, m')" "meta_ok B m" "IsValidBucketName b"
  shows "meta_ok B m' \<and> obj_at B m' = obj_at B m"
    and "r = Inr a \<Longrightarrow> \<exists>db. bk_get B (dbObjects db) = obj_at B m b \<and> db_wf B b db \<and> f db = Inr a"
  using assms acquire_obj [OF _ assms(2,3)]
  by (auto simp: viewDB_def split: sum.splits prod.splits)

text \<open>An update either fails and changes no record, or commits its transaction.\<close>

lemma update_obj:
  assumes u: "updateDB_unit B m b f = (r, m')" and m: "meta_ok B m" "IsValidBucketName b"
    and f: "\<forall>db db'. db_wf B b db \<longrightarrow> bk_get B (dbObjects db) = obj_at B m b \<longrightarrow> f db = Inr db' \<longrightarrow> db_wf B b db'"
  shows "meta_ok B m'" and "\<not> is_ok r \<Longrightarrow> obj_at B m' = obj_at B m"
    and "is_ok r \<Longrightarrow> \<exists>db db'. f db = Inr db' \<and> db_wf B b db \<and> bk_get B (dbObjects db) = obj_at B m b \<and>
       obj_at B m' = (obj_at B m)(b := bk_get B (dbObjects db')) \<and> msDbs m' b = Some db' \<and> b \<in> set (msActive m')"
proof -
  have "meta_ok B m' \<and> (\<not> is_ok r \<longrightarrow> obj_at B m' = obj_at B m) \<and>
    (is_ok r \<longrightarrow> (\<exists>db db'. f db = Inr db' \<and> db_wf B b db \<and> bk_get B (dbObjects db) = obj_at B m b \<and>
       obj_at B m' = (obj_at B m)(b := bk_get B (dbObjects db')) \<and> msDbs m' b = Some db' \<and> b \<in> set (msActive m')))"
  proof (cases "acquireBucketDB B m b")
    case (Inl e)
    with u m show ?thesis by (auto simp: updateDB_unit_def updateDB_def)
  next
    case (Inr p)
    obtain db m1 where p: "p = (db, m1)" by (cases p)
    note A = acquire_obj [OF Inr [unfolded p] m]
    show ?thesis
    proof (cases "f db")
      case (Inl e)
      with u Inr p A show ?thesis by (auto simp: updateDB_unit_def updateDB_def)
    next
      case (Inr db')
      with u \<open>acquireBucketDB B m b = Inr p\<close> p
      have e: "r = Inr ()" "m' = m1\<lparr>msDbs := (msDbs m1)(b \<mapsto> db')\<rparr>"
        by (auto simp: updateDB_unit_def updateDB_def)
      have w: "db_wf B b db'" using f Inr A by blast
      have "meta_ok B m'" using A w e m(2) by (auto simp: meta_ok_def)
      moreover have "obj_at B m' = (obj_at B m)(b := bk_get B (dbObjects db'))"
        using A e by (auto simp: obj_at_def fun_eq_iff split: option.splits)
      ultimately show ?thesis using A e Inr by auto
    qed
  qed
  then show "meta_ok B m'" and "\<not> is_ok r \<Longrightarrow> obj_at B m' = obj_at B m"
    and "is_ok r \<Longrightarrow> \<exists>db db'. f db = Inr db' \<and> db_wf B b db \<and> bk_get B (dbObjects db) = obj_at B m b \<and>
       obj_at B m' = (obj_at B m)(b := bk_get B (dbObjects db')) \<and> msDbs m' b = Some db' \<and> b \<in> set (msActive m')"
    by blast+
qed

subsection \<open>The operations\<close>

lemma GetObjectMeta_obj:
  assumes "GetObjectMeta B m b k v = (r, m')" "meta_ok B m" "IsValidBucketName b"
  shows "meta_ok B m' \<and> obj_at B m' = obj_at B m"
    and "nul \<notin> set k \<Longrightarrow> r = Inr i \<Longrightarrow>
      (v = [] \<and> cur_of (obj_at B m b) b k = Some i) \<or> (v \<noteq> [] \<and> hist_of (obj_at B m b) b k v = Some i)
      \<or> (v = ''null'' \<and> cur_of (obj_at B m b) b k = Some i \<and> oiVersionID i = [])"
proof -
  note V = view_obj [OF assms(1) [unfolded GetObjectMeta_def] assms(2,3)]
  show "meta_ok B m' \<and> obj_at B m' = obj_at B m" using V(1) .
  assume n: "nul \<notin> set k" and "r = Inr i"
  then obtain db where db: "bk_get B (dbObjects db) = obj_at B m b" "db_wf B b db" "getObjectMetaTx B db b k v = Inr i"
    using V(2) by blast
  with get_db [OF db_wf_store [OF db(2)] n, of v]
  show "(v = [] \<and> cur_of (obj_at B m b) b k = Some i) \<or> (v \<noteq> [] \<and> hist_of (obj_at B m b) b k v = Some i)
      \<or> (v = ''null'' \<and> cur_of (obj_at B m b) b k = Some i \<and> oiVersionID i = [])"
    by (auto split: option.splits if_splits)
qed

lemma acquire_err: "acquireBucketDB B m b = Inl x \<Longrightarrow> \<exists>t. x = ErrText t"
  using put_err
  by (auto simp: acquireBucketDB_def initObjectCount_def setObjectCount_def Let_def bindE_def
      split: if_splits sum.splits)

lemma GetObjectMeta_absent:
  assumes "GetObjectMeta B m b k [] = (Inl ErrObjectMetaNotFound, m')" "meta_ok B m" "IsValidBucketName b" "nul \<notin> set k"
  shows "cur_of (obj_at B m b) b k = None"
proof (cases "acquireBucketDB B m b")
  case (Inl x)
  with assms(1) acquire_err [OF Inl] show ?thesis by (auto simp: GetObjectMeta_def viewDB_def)
next
  case (Inr p)
  obtain db m1 where p: "p = (db, m1)" by (cases p)
  note A = acquire_obj [OF Inr [unfolded p] assms(2,3)]
  from assms(1) Inr p have "getObjectMetaTx B db b k [] = Inl ErrObjectMetaNotFound"
    by (simp add: GetObjectMeta_def viewDB_def)
  with get_db [OF db_wf_store assms(4), of b db "[]"] A show ?thesis by (auto split: option.splits)
qed

lemma GetObjectVersions_obj:
  assumes "GetObjectVersions B m b k = (r, m')" "meta_ok B m" "IsValidBucketName b"
  shows "meta_ok B m' \<and> obj_at B m' = obj_at B m"
    and "nul \<notin> set k \<Longrightarrow> r = Inr is \<Longrightarrow>
      set is = set_option (cur_of (obj_at B m b) b k) \<union> ran (hist_of (obj_at B m b) b k)"
proof -
  note V = view_obj [OF assms(1) [unfolded GetObjectVersions_def] assms(2,3)]
  show "meta_ok B m' \<and> obj_at B m' = obj_at B m" using V(1) .
  assume n: "nul \<notin> set k" and "r = Inr is"
  then obtain db where db: "bk_get B (dbObjects db) = obj_at B m b" "db_wf B b db" "getObjectVersionsTx B db b k = Inr is"
    using V(2) by blast
  with versions_db [OF db_wf_store [OF db(2)] n]
  show "set is = set_option (cur_of (obj_at B m b) b k) \<union> ran (hist_of (obj_at B m b) b k)" by auto
qed

lemma PutObjectMeta_obj:
  assumes u: "PutObjectMeta B m info = (r, m')" and m: "meta_ok B m" "IsValidBucketName b"
    and i: "rec_ok b k info" "nul \<notin> set k"
  shows "meta_ok B m'" and "\<not> is_ok r \<Longrightarrow> obj_at B m' = obj_at B m"
    and "is_ok r \<Longrightarrow> ids B m' \<subseteq> (if oiIsDeleteMarker info then {} else {ident_of info}) \<union>
      {x \<in> ids B m. \<not> in_slot b k (oiVersionID info) x}"
    and "is_ok r \<Longrightarrow> (cur_of (obj_at B m' b) b k, hist_of (obj_at B m' b) b k) =
      spec_put info (cur_of (obj_at B m b) b k, hist_of (obj_at B m b) b k)"
    and "is_ok r \<Longrightarrow> opened m' b"
    and "is_ok r \<Longrightarrow> \<forall>b' k'. nul \<notin> set k' \<longrightarrow> (b', k') \<noteq> (b, k) \<longrightarrow>
      cur_of (obj_at B m' b') b' k' = cur_of (obj_at B m b') b' k' \<and> hist_of (obj_at B m' b') b' k' = hist_of (obj_at B m b') b' k'"
proof -
  have bk: "oiBucket info = b" using i by (simp add: rec_ok_def)
  have W: "\<forall>db db'. db_wf B b db \<longrightarrow> bk_get B (dbObjects db) = obj_at B m b \<longrightarrow>
      putObjectMetaTx B (msReplication m) info db = Inr db' \<longrightarrow> db_wf B b db'"
    using put_ids [OF _ _ i] by blast
  note U = update_obj [OF u [unfolded PutObjectMeta_def bk] m W]
  show "meta_ok B m'" "\<not> is_ok r \<Longrightarrow> obj_at B m' = obj_at B m" using U(1,2) by blast+
  assume "is_ok r"
  with U(3) obtain db db' where d: "putObjectMetaTx B (msReplication m) info db = Inr db'" "db_wf B b db"
    "bk_get B (dbObjects db) = obj_at B m b" "obj_at B m' = (obj_at B m)(b := bk_get B (dbObjects db'))"
    "msDbs m' b = Some db'" "b \<in> set (msActive m')" by blast
  show "opened m' b" using d(5,6) by (simp add: opened_def)
  show "\<forall>b' k'. nul \<notin> set k' \<longrightarrow> (b', k') \<noteq> (b, k) \<longrightarrow>
      cur_of (obj_at B m' b') b' k' = cur_of (obj_at B m b') b' k' \<and> hist_of (obj_at B m' b') b' k' = hist_of (obj_at B m b') b' k'"
    using put_db [OF d(1,2) i] d(3,4) by (auto simp: others_same_def)
  show "ids B m' \<subseteq> (if oiIsDeleteMarker info then {} else {ident_of info}) \<union>
      {x \<in> ids B m. \<not> in_slot b k (oiVersionID info) x}"
    by (rule ids_upd [OF m(1) d(4)]) (use put_ids [OF d(1,2) i] d(3) in simp)
  show "(cur_of (obj_at B m' b) b k, hist_of (obj_at B m' b) b k) =
      spec_put info (cur_of (obj_at B m b) b k, hist_of (obj_at B m b) b k)"
    using put_db [OF d(1,2) i] d(3,4) by simp
qed

lemma DeleteObjectMeta_obj:
  assumes u: "DeleteObjectMeta B m b k v = (r, m')" and m: "meta_ok B m" "IsValidBucketName b" and n: "nul \<notin> set k"
  shows "meta_ok B m'" and "\<not> is_ok r \<Longrightarrow> obj_at B m' = obj_at B m"
    and "is_ok r \<Longrightarrow> ids B m' \<subseteq> {x \<in> ids B m. \<not> in_slot b k v x}"
    and "is_ok r \<Longrightarrow> v = [] \<Longrightarrow> cur_of (obj_at B m' b) b k = None \<and> hist_of (obj_at B m' b) b k = Map.empty"
    and "is_ok r \<Longrightarrow> v \<noteq> [] \<Longrightarrow> spec_delete_version v (cur_of (obj_at B m b) b k, hist_of (obj_at B m b) b k)
       (cur_of (obj_at B m' b) b k, hist_of (obj_at B m' b) b k)"
proof -
  have W: "\<forall>db db'. db_wf B b db \<longrightarrow> bk_get B (dbObjects db) = obj_at B m b \<longrightarrow>
      deleteObjectMetaTx B (msReplication m) b k v db = Inr db' \<longrightarrow> db_wf B b db'"
    using delete_ids [OF _ _ n] by blast
  note U = update_obj [OF u [unfolded DeleteObjectMeta_def] m W]
  show "meta_ok B m'" "\<not> is_ok r \<Longrightarrow> obj_at B m' = obj_at B m" using U(1,2) by blast+
  assume "is_ok r"
  with U(3) obtain db db' where d: "deleteObjectMetaTx B (msReplication m) b k v db = Inr db'" "db_wf B b db"
    "bk_get B (dbObjects db) = obj_at B m b" "obj_at B m' = (obj_at B m)(b := bk_get B (dbObjects db'))" by blast
  show "ids B m' \<subseteq> {x \<in> ids B m. \<not> in_slot b k v x}"
    using ids_upd [OF m(1) d(4), of "{}" k v] delete_ids [OF d(1,2) n] d(3) by simp
  show "v = [] \<Longrightarrow> cur_of (obj_at B m' b) b k = None \<and> hist_of (obj_at B m' b) b k = Map.empty"
    using delete_key_db [OF _ d(2) n] d(1,4) by simp
  show "v \<noteq> [] \<Longrightarrow> spec_delete_version v (cur_of (obj_at B m b) b k, hist_of (obj_at B m b) b k)
       (cur_of (obj_at B m' b) b k, hist_of (obj_at B m' b) b k)"
    using delete_version_db [OF d(1,2) n] d(3,4) by simp
qed

lemma promote_obj:
  assumes u: "PutObjectMetaRaw B m (i\<lparr>oiVersionID := ''null'', oiIsLatest := True, oiBlobID := x\<rparr>) = (r, m')"
    and m: "meta_ok B m" "IsValidBucketName b" and n: "nul \<notin> set k"
    and c: "cur_of (obj_at B m b) b k = Some i" and v: "oiVersionID i = []" and x: "utf8_valid x"
  shows "meta_ok B m'" and "\<not> is_ok r \<Longrightarrow> obj_at B m' = obj_at B m"
    and "is_ok r \<Longrightarrow> ids B m' \<subseteq> {(b, k, ''null'', x)} \<union> {y \<in> ids B m. \<not> in_slot b k [] y}"
proof -
  have bk: "oiBucket i = b" using key_wf_cur [OF meta_ok_key [OF m(1) n] c] by (simp add: rec_ok_def)
  have P: "db_wf B b db' \<and> db_ids B b db' \<subseteq> insert (b, k, ''null'', x) {y \<in> db_ids B b db. \<not> in_slot b k [] y}"
    if "db_wf B b db" "bk_get B (dbObjects db) = obj_at B m b"
      "putObjectMetaRawTx B (i\<lparr>oiVersionID := ''null'', oiIsLatest := True, oiBlobID := x\<rparr>) db = Inr db'" for db db'
    using promote_ids [OF that(3,1) n _ v x] that(2) c by simp
  have u': "updateDB_unit B m b (putObjectMetaRawTx B (i\<lparr>oiVersionID := ''null'', oiIsLatest := True, oiBlobID := x\<rparr>)) = (r, m')"
    using u bk by (simp add: PutObjectMetaRaw_def)
  have W: "\<forall>db db'. db_wf B b db \<longrightarrow> bk_get B (dbObjects db) = obj_at B m b \<longrightarrow>
      putObjectMetaRawTx B (i\<lparr>oiVersionID := ''null'', oiIsLatest := True, oiBlobID := x\<rparr>) db = Inr db' \<longrightarrow> db_wf B b db'"
    using P by blast
  note U = update_obj [OF u' m W]
  show "meta_ok B m'" "\<not> is_ok r \<Longrightarrow> obj_at B m' = obj_at B m" using U(1,2) by blast+
  assume "is_ok r"
  with U(3) obtain db db' where d: "putObjectMetaRawTx B (i\<lparr>oiVersionID := ''null'', oiIsLatest := True, oiBlobID := x\<rparr>) db = Inr db'"
    "db_wf B b db" "bk_get B (dbObjects db) = obj_at B m b" "obj_at B m' = (obj_at B m)(b := bk_get B (dbObjects db'))" by blast
  show "ids B m' \<subseteq> {(b, k, ''null'', x)} \<union> {y \<in> ids B m. \<not> in_slot b k [] y}"
    by (rule ids_upd [OF m(1) d(4)]) (use P [OF d(2,3,1)] d(3) in auto)
qed

end

end
