(* ===== verification/Seek_CTR.thy ===== *)
theory Seek_CTR
  imports Go_Base
begin

text \<open>
  Random access into encrypted objects: ctrReadSeeker and addCtr of
  internal/storage/filesystem.go. The block cipher is a parameter (the key's
  permutation of 16-byte blocks); CTR mode, which the Go library builds on
  it, is spelled out: keystream block i is the encryption of the initial counter
  incremented i times, and a stream is the counter it starts from with the
  number of keystream bytes already used.
\<close>

unbundle bit_operations_syntax

type_synonym block_cipher = "string \<Rightarrow> string"

subsection \<open>CTR mode of the library\<close>

text \<open>The counter is incremented as a big-endian number; inc_le works on the
  reversed bytes.\<close>

fun inc_le :: "string \<Rightarrow> string" where
  "inc_le [] = []"
| "inc_le (c # s) = (if byte c = 255 then CHR 0x00 # inc_le s else char_of (byte c + 1) # s)"

definition ctr_inc :: "string \<Rightarrow> string" where
  "ctr_inc s = rev (inc_le (rev s))"

definition ks_byte :: "block_cipher \<Rightarrow> string \<Rightarrow> nat \<Rightarrow> char" where
  "ks_byte E iv j = E ((ctr_inc ^^ (j div 16)) iv) ! (j mod 16)"

definition xor_byte :: "char \<Rightarrow> char \<Rightarrow> char" where
  "xor_byte a b = char_of (byte a XOR byte b)"

definition ctr_xor :: "block_cipher \<Rightarrow> string \<Rightarrow> nat \<Rightarrow> string \<Rightarrow> string" where
  "ctr_xor E iv used s = map (\<lambda>(j, c). xor_byte c (ks_byte E iv j)) (enumerate used s)"

subsection \<open>The seekable reader\<close>

fun add_le :: "string \<Rightarrow> int \<Rightarrow> string" where
  "add_le [] val = []"
| "add_le (c # s) val =
    (let val = (val + int (byte c)) mod 2 ^ 64 in
     char_of (nat (val mod 256)) # add_le s (val div 256))"

definition addCtr :: "string \<Rightarrow> int \<Rightarrow> string" where
  "addCtr ctr val = rev (add_le (rev ctr) val)"

record ctrReadSeeker =
  crFile :: string
  crPos :: nat
  crIV :: string
  crOffset :: int
  crStream :: "(string \<times> nat) option"

text \<open>Reading up to n bytes: the file's bytes at its position, decrypted.\<close>

definition crRead :: "block_cipher \<Rightarrow> ctrReadSeeker \<Rightarrow> nat \<Rightarrow> string \<times> ctrReadSeeker" where
  "crRead E crs n =
    (case crStream crs of
       None \<Rightarrow> ([], crs)
     | Some (ctr, used) \<Rightarrow>
        (let p = take n (drop (crPos crs) (crFile crs)) in
         if length p > 0 then
           (ctr_xor E ctr used p,
            crs\<lparr>crPos := crPos crs + length p, crStream := Some (ctr, used + length p),
                crOffset := crOffset crs + int (length p)\<rparr>)
         else ([], crs)))"

datatype whence = SeekStart | SeekCurrent | SeekEnd | SeekOther

text \<open>The second component is the reader the call leaves, moved even when it fails
  on a short read.\<close>

definition crSeek :: "block_cipher \<Rightarrow> ctrReadSeeker \<Rightarrow> int \<Rightarrow> whence \<Rightarrow> int result \<times> ctrReadSeeker" where
  "crSeek E crs offset w =
    (let contentSize = max 0 (int (length (crFile crs)) - 16);
         target = (case w of SeekStart \<Rightarrow> offset | SeekCurrent \<Rightarrow> int64 (crOffset crs + offset)
                   | SeekEnd \<Rightarrow> int64 (contentSize + offset) | SeekOther \<Rightarrow> 0) in
     if w = SeekOther then (Inl (ErrText ''invalid whence''), crs)
     else if target < 0 then (Inl (ErrText ''negative seek offset''), crs)
     else
       let blockIndex = target div 16; remainder = target mod 16;
           ctr = addCtr (crIV crs) blockIndex;
           crs = crs\<lparr>crPos := nat (16 + blockIndex * 16), crStream := Some (ctr, 0), crOffset := blockIndex * 16\<rparr> in
       if remainder > 0 then
         let (p, crs) = crRead E crs (nat remainder) in
         (if length p < nat remainder then Inl (ErrText ''unexpected EOF'') else Inr target, crs)
       else (Inr target, crs))"

definition newCTRReadSeeker :: "block_cipher \<Rightarrow> string \<Rightarrow> string \<Rightarrow> ctrReadSeeker result" where
  "newCTRReadSeeker E file iv =
    (case crSeek E \<lparr>crFile = file, crPos = 16, crIV = iv, crOffset = 0, crStream = None\<rparr> 0 SeekStart of
       (Inl e, _) \<Rightarrow> Inl e
     | (Inr _, crs) \<Rightarrow> Inr crs)"

subsection \<open>Counter arithmetic\<close>

definition le_val :: "string \<Rightarrow> int" where
  "le_val s = foldr (\<lambda>c a. int (byte c) + 256 * a) s 0"

lemma le_val_simps [simp]: "le_val [] = 0" "le_val (c # s) = int (byte c) + 256 * le_val s"
  by (simp_all add: le_val_def)

lemma le_val_bounds: "0 \<le> le_val s \<and> le_val s < 256 ^ length s"
proof (induction s)
  case Nil
  then show ?case by simp
next
  case (Cons c s)
  have "byte c < 256" by simp
  with Cons show ?case by (simp; linarith)
qed

lemma byte_char_of: "n < 256 \<Longrightarrow> byte (char_of n) = n"
  by (simp add: byte_def)

lemma le_val_inj: "length s = length t \<Longrightarrow> le_val s = le_val t \<Longrightarrow> s = t"
proof (induction s t rule: list_induct2)
  case Nil
  then show ?case by simp
next
  case (Cons c s d t)
  have b: "byte c < 256" "byte d < 256" by simp_all
  from Cons.prems have e: "int (byte c) + 256 * le_val s = int (byte d) + 256 * le_val t" by simp
  from e have "(int (byte c) + 256 * le_val s) mod 256 = (int (byte d) + 256 * le_val t) mod 256" by simp
  with b have "byte c = byte d" by simp
  moreover from this e have "le_val s = le_val t" by simp
  ultimately show ?case using Cons.IH by (simp add: byte_inject)
qed

lemma length_inc_le [simp]: "length (inc_le s) = length s"
  by (induction s) auto

lemma length_add_le [simp]: "length (add_le s v) = length s"
  by (induction s arbitrary: v) (auto simp: Let_def)

lemma mod_lift: "(256 * (a::int)) mod 256 ^ Suc n = 256 * (a mod 256 ^ n)"
  by simp

lemma inc_le_val: "le_val (inc_le s) = (le_val s + 1) mod 256 ^ length s"
proof (induction s)
  case Nil
  then show ?case by simp
next
  case (Cons c s)
  have b: "byte c < 256" by simp
  note v = le_val_bounds [of s]
  show ?case
  proof (cases "byte c = 255")
    case True
    then have e: "le_val (c # s) + 1 = 256 * (le_val s + 1)" by simp
    have "(le_val (c # s) + 1) mod 256 ^ length (c # s) = 256 * ((le_val s + 1) mod 256 ^ length s)"
      unfolding e list.size(4) add_Suc_right add_0_right by (rule mod_lift)
    moreover have "le_val (inc_le (c # s)) = 256 * ((le_val s + 1) mod 256 ^ length s)"
      using True Cons by (simp add: byte_def)
    ultimately show ?thesis by (simp only:)
  next
    case False
    then have l: "byte c + 1 < 256" using b by linarith
    then have "le_val (c # s) + 1 < 256 ^ length (c # s)" using v by (simp; linarith)
    with v have "(le_val (c # s) + 1) mod 256 ^ length (c # s) = le_val (c # s) + 1" by (simp add: mod_pos_pos_trivial)
    with False l show ?thesis by (simp add: byte_char_of)
  qed
qed

lemma add_le_val: "0 \<le> v \<Longrightarrow> v < 2 ^ 63 \<Longrightarrow> le_val (add_le s v) = (le_val s + v) mod 256 ^ length s"
proof (induction s arbitrary: v)
  case Nil
  then show ?case by simp
next
  case (Cons c s)
  let ?w = "v + int (byte c)"
  have b: "byte c < 256" by simp
  have w: "0 \<le> ?w" "?w < 2 ^ 63 + 256" using Cons.prems b by linarith+
  then have m: "?w mod 2 ^ 64 = ?w" by (simp add: mod_pos_pos_trivial)
  have d: "0 \<le> ?w div 256" "?w div 256 < 2 ^ 63" using w by auto
  have "le_val (add_le (c # s) v) = ?w mod 256 + 256 * ((le_val s + ?w div 256) mod 256 ^ length s)"
    using m Cons.IH [OF d] by (simp add: Let_def byte_char_of nat_less_iff)
  also have "\<dots> = (le_val s + ?w div 256) mod 256 ^ length s * 256 + (?w + 256 * le_val s) mod 256" by simp
  also have "\<dots> = (?w + 256 * le_val s) mod 256 ^ length (c # s)"
  proof -
    have "(?w + 256 * le_val s) div 256 = le_val s + ?w div 256"
      using div_mult_self2 [of 256 ?w "le_val s"] by simp
    then show ?thesis by (simp add: zmod_zmult2_eq)
  qed
  finally show ?case by (simp add: algebra_simps)
qed

lemma ctr_inc_pow: "le_val (rev ((ctr_inc ^^ n) iv)) = (le_val (rev iv) + int n) mod 256 ^ length iv \<and>
   length ((ctr_inc ^^ n) iv) = length iv"
proof (induction n)
  case 0
  then show ?case using le_val_bounds [of "rev iv"] by (simp add: mod_pos_pos_trivial)
next
  case (Suc n)
  then show ?case by (simp add: ctr_inc_def inc_le_val mod_simps algebra_simps)
qed

lemma addCtr_pow: "int n < 2 ^ 63 \<Longrightarrow> addCtr iv (int n) = (ctr_inc ^^ n) iv"
proof -
  assume n: "int n < 2 ^ 63"
  have "le_val (rev (addCtr iv (int n))) = le_val (rev ((ctr_inc ^^ n) iv))"
    using add_le_val [of "int n" "rev iv"] n ctr_inc_pow [of n iv] by (simp add: addCtr_def)
  moreover have "length (rev (addCtr iv (int n))) = length (rev ((ctr_inc ^^ n) iv))"
    using ctr_inc_pow [of n iv] by (simp add: addCtr_def)
  ultimately show ?thesis using le_val_inj by (metis rev_is_rev_conv)
qed

subsection \<open>The keystream\<close>

lemma ks_byte_shift: "ks_byte E ((ctr_inc ^^ n) iv) j = ks_byte E iv (16 * n + j)"
  by (simp add: ks_byte_def funpow_add [symmetric, THEN fun_cong, unfolded comp_def] add.commute)

lemma ctr_xor_shift: "ctr_xor E ((ctr_inc ^^ n) iv) used s = ctr_xor E iv (16 * n + used) s"
  by (auto simp: ctr_xor_def ks_byte_shift intro!: nth_equalityI simp: nth_enumerate_eq add.assoc)

lemma length_ctr_xor [simp]: "length (ctr_xor E iv u s) = length s"
  by (simp add: ctr_xor_def)

lemma ctr_xor_nth: "i < length s \<Longrightarrow> ctr_xor E iv u s ! i = xor_byte (s ! i) (ks_byte E iv (u + i))"
  by (simp add: ctr_xor_def nth_enumerate_eq)

lemma ctr_xor_drop: "drop n (ctr_xor E iv u s) = ctr_xor E iv (u + n) (drop n s)"
  by (rule nth_equalityI) (auto simp: ctr_xor_nth add.assoc)

lemma ctr_xor_take: "take n (ctr_xor E iv u s) = ctr_xor E iv u (take n s)"
  by (rule nth_equalityI) (auto simp: ctr_xor_nth)

lemma xor_byte_invol: "xor_byte (xor_byte a b) b = a"
proof -
  have m: "byte a = byte a mod 256" "byte b = byte b mod 256" by simp_all
  have "byte a XOR byte b < 256"
  proof -
    have "take_bit 8 (byte a XOR byte b) = take_bit 8 (byte a) XOR take_bit 8 (byte b)"
      by (rule take_bit_xor)
    also have "\<dots> = byte a XOR byte b" using m by (simp only: take_bit_eq_mod) simp
    finally have "take_bit 8 (byte a XOR byte b) = byte a XOR byte b" .
    then show ?thesis using take_bit_nat_less_exp [of 8 "byte a XOR byte b"] by simp
  qed
  then have "byte (xor_byte a b) = byte a XOR byte b" by (simp add: xor_byte_def byte_char_of)
  then have "xor_byte (xor_byte a b) b = char_of (byte a)"
    by (simp add: xor_byte_def [of "xor_byte a b"] xor.assoc)
  then show ?thesis by (simp add: byte_def)
qed

lemma ctr_xor_invol: "ctr_xor E iv u (ctr_xor E iv u s) = s"
  by (rule nth_equalityI) (auto simp: ctr_xor_nth xor_byte_invol)

subsection \<open>Random access\<close>

text \<open>A reader in use: the counter it has reached fits its position.\<close>

definition cr_at :: "string \<Rightarrow> string \<Rightarrow> ctrReadSeeker \<Rightarrow> bool" where
  "cr_at file iv r \<longleftrightarrow> crFile r = file \<and> crIV r = iv \<and> 0 \<le> crOffset r \<and> crPos r = 16 + nat (crOffset r) \<and>
     (\<exists>b u. crStream r = Some ((ctr_inc ^^ b) iv, u) \<and> int (16 * b + u) = crOffset r)"

lemma cr_read_at:
  assumes a: "cr_at (iv @ ctr_xor E iv 0 d) iv r" and l: "length iv = 16"
  shows "fst (crRead E r n) = take n (drop (nat (crOffset r)) d)"
    "cr_at (iv @ ctr_xor E iv 0 d) iv (snd (crRead E r n))"
    "crOffset (snd (crRead E r n)) = crOffset r + int (length (take n (drop (nat (crOffset r)) d)))"
proof -
  let ?f = "iv @ ctr_xor E iv 0 d" and ?o = "nat (crOffset r)"
  from a obtain b u where s: "crStream r = Some ((ctr_inc ^^ b) iv, u)" and o: "int (16 * b + u) = crOffset r"
    and f: "crFile r = ?f" "crPos r = 16 + ?o" "crIV r = iv" by (auto simp: cr_at_def)
  from o have o': "?o = 16 * b + u" by (metis nat_int)
  let ?p = "take n (drop (crPos r) (crFile r))"
  have "drop (16 + ?o) ?f = ctr_xor E iv ?o (drop ?o d)" using l by (simp add: ctr_xor_drop)
  then have p: "?p = ctr_xor E iv ?o (take n (drop ?o d))" using f by (simp add: ctr_xor_take)
  have x: "ctr_xor E ((ctr_inc ^^ b) iv) u ?p = take n (drop ?o d)"
    unfolding p ctr_xor_shift o' [symmetric] by (rule ctr_xor_invol)
  have lp: "length ?p = length (take n (drop ?o d))" unfolding p by simp
  have e: "crRead E r n = (ctr_xor E ((ctr_inc ^^ b) iv) u ?p, if ?p = [] then r else
      r\<lparr>crPos := crPos r + length ?p, crStream := Some ((ctr_inc ^^ b) iv, u + length ?p),
        crOffset := crOffset r + int (length ?p)\<rparr>)"
  proof (cases "?p = []")
    case True
    then have "\<not> length ?p > 0" "ctr_xor E ((ctr_inc ^^ b) iv) u ?p = []" unfolding True by (simp_all add: ctr_xor_def)
    with True show ?thesis using s unfolding crRead_def Let_def by (simp only: option.case prod.case if_True if_False simp_thms)
  next
    case False
    then have "length ?p > 0" by blast
    with False show ?thesis using s unfolding crRead_def Let_def by (simp only: option.case prod.case if_True if_False)
  qed
  show "fst (crRead E r n) = take n (drop ?o d)" unfolding e fst_conv by (rule x)
  show "crOffset (snd (crRead E r n)) = crOffset r + int (length (take n (drop ?o d)))"
  proof (cases "?p = []")
    case True
    then have "length ?p = 0" by (simp only: list.size)
    with True show ?thesis unfolding e snd_conv lp [symmetric] by (simp only: if_True) simp
  next
    case False
    then show ?thesis unfolding e snd_conv lp [symmetric] by (simp only: if_False) simp
  qed
  show "cr_at ?f iv (snd (crRead E r n))"
  proof (cases "?p = []")
    case True
    show ?thesis unfolding e snd_conv if_P [OF True] by (rule a)
  next
    case False
    have "cr_at ?f iv (r\<lparr>crPos := crPos r + length ?p, crStream := Some ((ctr_inc ^^ b) iv, u + length ?p),
        crOffset := crOffset r + int (length ?p)\<rparr>)"
    proof -
      obtain L where L: "length ?p = L" by blast
      show ?thesis unfolding L cr_at_def using f o by (auto intro!: exI [of _ b] simp: nat_add_distrib)
    qed
    then show ?thesis unfolding e snd_conv if_not_P [OF False] .
  qed
qed

lemma cr_seek_at:
  assumes a: "crFile r = iv @ ctr_xor E iv 0 d" "crIV r = iv" and l: "length iv = 16"
    and off: "- (2 ^ 63) \<le> off" "off < 2 ^ 63"
    and t: "t = (case w of SeekStart \<Rightarrow> off | SeekCurrent \<Rightarrow> int64 (crOffset r + off) | _ \<Rightarrow> int64 (int (length d) + off))"
    and w: "w \<noteq> SeekOther"
  shows "t < 0 \<Longrightarrow> snd (crSeek E r off w) = r \<and> \<not> is_ok (fst (crSeek E r off w))"
    "0 \<le> t \<Longrightarrow> cr_at (iv @ ctr_xor E iv 0 d) iv (snd (crSeek E r off w))"
    "0 \<le> t \<Longrightarrow> t \<le> int (length d) \<Longrightarrow>
       fst (crSeek E r off w) = Inr t \<and> crOffset (snd (crSeek E r off w)) = t"
proof -
  have cs: "max 0 (int (length (crFile r)) - 16) = int (length d)" using a l by simp
  have tt: "(case w of SeekStart \<Rightarrow> off | SeekCurrent \<Rightarrow> int64 (crOffset r + off)
      | SeekEnd \<Rightarrow> int64 (int (length d) + off) | SeekOther \<Rightarrow> 0) = t" using t w by (cases w) simp_all
  have tb: "t < 2 ^ 63" using t off int64_bounds by (cases w) auto
  show "t < 0 \<Longrightarrow> snd (crSeek E r off w) = r \<and> \<not> is_ok (fst (crSeek E r off w))"
    using w unfolding crSeek_def Let_def cs tt by simp
  assume t0: "0 \<le> t"
  let ?b = "nat (t div 16)"
  have b: "int ?b = t div 16" "int ?b < 2 ^ 63" using t0 tb by auto
  let ?r = "r\<lparr>crPos := nat (16 + t div 16 * 16), crStream := Some ((ctr_inc ^^ ?b) iv, 0), crOffset := t div 16 * 16\<rparr>"
  have ad: "addCtr (crIV r) (t div 16) = (ctr_inc ^^ ?b) iv" using addCtr_pow [OF b(2), of iv] b(1) a by simp
  have ra: "cr_at (iv @ ctr_xor E iv 0 d) iv ?r" unfolding cr_at_def using a t0 b
    by (auto intro!: exI [of _ ?b] simp: nat_add_distrib)
  note R = cr_read_at [OF ra l, of "nat (t mod 16)"]
  have e: "crSeek E r off w = (if t mod 16 > 0 then
      (if length (fst (crRead E ?r (nat (t mod 16)))) < nat (t mod 16) then Inl (ErrText ''unexpected EOF'') else Inr t,
        snd (crRead E ?r (nat (t mod 16)))) else (Inr t, ?r))"
    using w t0 unfolding crSeek_def Let_def cs tt ad by (simp add: case_prod_beta)
  show "cr_at (iv @ ctr_xor E iv 0 d) iv (snd (crSeek E r off w))"
    unfolding e using R(2) ra by simp
  assume tl: "t \<le> int (length d)"
  have "t div 16 * 16 + t mod 16 = t" by simp
  then have ln: "length (take (nat (t mod 16)) (drop (nat (t div 16 * 16)) d)) = nat (t mod 16)"
  proof -
    have "nat (t div 16 * 16) + nat (t mod 16) = nat t" using t0 by (simp add: nat_add_distrib [symmetric])
    moreover have "nat t \<le> length d" using tl by simp
    ultimately have "nat (t mod 16) \<le> length (drop (nat (t div 16 * 16)) d)" unfolding length_drop by linarith
    then show ?thesis by (simp only: length_take min_absorb2)
  qed
  show "fst (crSeek E r off w) = Inr t \<and> crOffset (snd (crSeek E r off w)) = t"
  proof (cases "t mod 16 > 0")
    case True
    have o: "crOffset ?r = t div 16 * 16" by simp
    have "length (fst (crRead E ?r (nat (t mod 16)))) = nat (t mod 16)" unfolding R(1) o ln ..
    moreover have "crOffset (snd (crRead E ?r (nat (t mod 16)))) = t"
      unfolding R(3) o ln using True by simp
    ultimately show ?thesis unfolding e if_P [OF True] by (simp only: fst_conv snd_conv less_irrefl if_False simp_thms)
  next
    case False
    then have "t mod 16 = 0" using pos_mod_sign [of 16 t] by linarith
    with False show ?thesis unfolding e if_not_P [OF False] by auto
  qed
qed

text \<open>The states of a reader of an encrypted file: opened, then read and moved any
  number of times.\<close>

inductive cr_reach :: "block_cipher \<Rightarrow> string \<Rightarrow> string \<Rightarrow> ctrReadSeeker \<Rightarrow> bool" for E f iv where
  opened: "newCTRReadSeeker E f iv = Inr r \<Longrightarrow> cr_reach E f iv r"
| read: "cr_reach E f iv r \<Longrightarrow> cr_reach E f iv (snd (crRead E r n))"
| moved: "cr_reach E f iv r \<Longrightarrow> - (2 ^ 63) \<le> off \<Longrightarrow> off < 2 ^ 63 \<Longrightarrow>
    cr_reach E f iv (snd (crSeek E r off w))"

inductive_cases cr_reachE: "cr_reach E f iv r"

lemma seek_other: "crSeek E r off SeekOther = (Inl (ErrText ''invalid whence''), r)"
  by (simp add: crSeek_def Let_def)

lemma cr_reach_at:
  assumes "cr_reach E (iv @ ctr_xor E iv 0 d) iv r" and l: "length iv = 16"
  shows "cr_at (iv @ ctr_xor E iv 0 d) iv r"
  using assms(1)
proof (induction rule: cr_reach.induct)
  case (opened r)
  let ?z = "\<lparr>crFile = iv @ ctr_xor E iv 0 d, crPos = 16, crIV = iv, crOffset = 0, crStream = None\<rparr>"
  from opened obtain t where "crSeek E ?z 0 SeekStart = (Inr t, r)"
    by (auto simp: newCTRReadSeeker_def split: prod.splits sum.splits)
  with cr_seek_at(2) [of ?z iv E d 0 0 SeekStart] l show ?case by simp
next
  case (read r n)
  then show ?case using cr_read_at(2) [OF _ l] by blast
next
  case (moved r off w)
  then have f: "crFile r = iv @ ctr_xor E iv 0 d" "crIV r = iv" by (auto simp: cr_at_def)
  show ?case
  proof (cases "w = SeekOther")
    case True
    with moved show ?thesis by (simp add: seek_other)
  next
    case False
    note S = cr_seek_at [OF f l moved.hyps(2,3) refl False]
    show ?thesis using S(1,2) moved.IH by (metis not_le)
  qed
qed

subsection \<open>Properties\<close>

text \<open>C27: random access into an encrypted object. However a reader has been read and
  moved before, reading returns the plaintext at its offset, and moving it anywhere
  within the object succeeds and sets that offset; so a range request decrypts exactly
  the range.\<close>

theorem ctr_random_access:
  assumes "length iv = 16" and "cr_reach E (iv @ ctr_xor E iv 0 d) iv r"
    and "0 \<le> off" and "off \<le> int (length d)" and "off < 2 ^ 63"
  shows "fst (crRead E r n) = take n (drop (nat (crOffset r)) d) \<and>
    fst (crSeek E r off SeekStart) = Inr off \<and>
    fst (crRead E (snd (crSeek E r off SeekStart)) n) = take n (drop (nat off) d)"
proof -
  note a = cr_reach_at [OF assms(2,1)]
  have f: "crFile r = iv @ ctr_xor E iv 0 d" "crIV r = iv" using a by (auto simp: cr_at_def)
  have s: "fst (crSeek E r off SeekStart) = Inr off \<and> crOffset (snd (crSeek E r off SeekStart)) = off"
    and c: "cr_at (iv @ ctr_xor E iv 0 d) iv (snd (crSeek E r off SeekStart))"
    using cr_seek_at(2,3) [OF f assms(1), of off off SeekStart] assms by auto
  with cr_read_at(1) [OF c assms(1), of n] cr_read_at(1) [OF a assms(1)] show ?thesis by simp
qed

definition ex_cipher :: block_cipher where
  "ex_cipher = rev"

definition ex_iv :: string where "ex_iv = replicate 15 CHR 0xFF @ [CHR 0xFE]"

definition ex_plain :: string where "ex_plain = ''the very lazy old dog''"

definition ex_reader :: ctrReadSeeker where
  "ex_reader = snd (crSeek ex_cipher \<lparr>crFile = ex_iv @ ctr_xor ex_cipher ex_iv 0 ex_plain, crPos = 16,
     crIV = ex_iv, crOffset = 0, crStream = None\<rparr> 0 SeekStart)"

theorem ctr_random_access_witness:
  "fst (crRead ex_cipher (snd (crSeek ex_cipher ex_reader 18 SeekStart)) 4) = ''dog''"
proof -
  have "newCTRReadSeeker ex_cipher (ex_iv @ ctr_xor ex_cipher ex_iv 0 ex_plain) ex_iv = Inr ex_reader"
    by (simp add: newCTRReadSeeker_def crSeek_def ex_reader_def)
  then have r: "cr_reach ex_cipher (ex_iv @ ctr_xor ex_cipher ex_iv 0 ex_plain) ex_iv ex_reader" by (rule opened)
  have l: "length ex_iv = 16" "18 \<le> int (length ex_plain)" by code_simp+
  from ctr_random_access [OF l(1) r _ l(2), of 4]
  have "fst (crRead ex_cipher (snd (crSeek ex_cipher ex_reader 18 SeekStart)) 4) = take 4 (drop 18 ex_plain)" by simp
  also have "\<dots> = ''dog''" by code_simp
  finally show ?thesis .
qed

end
