(* ===== verification/Engine.thy ===== *)
theory Engine
  imports Paths Seek_CTR
begin

text \<open>
  The engine of internal/storage/filesystem.go and publication.go: buckets,
  reading, writing, copying and deleting objects. Its state joins the metadata
  store with the data files (path to content). An operation is a function of the
  state to a result and a new state, and opM, retM and failM compose them with the
  code's early returns. Everything the operations draw from outside - UUIDs,
  random bytes, the clock, which system calls fail - is the argument env; MD5,
  gzip and the block cipher are the argument codec.

  egDisks records every state of the metadata and files an operation passes
  through, newest first: the states in which a crash could leave the disk.
  egEvents records the webhook and replication events in order.
\<close>

subsection \<open>State and environment\<close>

datatype event =
    EvWebhook string ObjectInfo
  | EvMirror string string string

type_synonym files = "string \<Rightarrow> string option"

record 'b engine =
  egDataDir :: string
  egMeta :: "'b mstore"
  egFiles :: files
  egMaxObjectSize :: int
  egDisableMinPartSize :: bool
  egEvents :: "event list"
  egDisks :: "('b mstore \<times> files) list"

datatype syscall = CMkdir | CTemp | CRand | CWrite | CFsync | CRename | CSyncParents | COpen | CCopy | CRemoveAll

record env =
  evUUID :: string
  evNow :: int
  evBlobRnd :: string
  evIV :: string
  evPromoteRnd :: string
  evFails :: "syscall \<Rightarrow> bool"

record codec =
  cdMD5 :: "string \<Rightarrow> string"
  cdGzip :: "string \<Rightarrow> string"
  cdGunzip :: "string \<Rightarrow> string option"
  cdAES :: "string \<Rightarrow> block_cipher"

text \<open>A request body: the bytes it yields, and whether it then fails instead of ending.\<close>

record reader =
  rdData :: string
  rdFails :: bool

type_synonym ('a, 'b) eop = "'b engine \<Rightarrow> 'a result \<times> 'b engine"

definition retM :: "'a \<Rightarrow> ('a, 'b) eop" where "retM a e = (Inr a, e)"
definition failM :: "gerr \<Rightarrow> ('a, 'b) eop" where "failM x e = (Inl x, e)"

definition opM :: "('a, 'b) eop \<Rightarrow> ('a \<Rightarrow> ('c, 'b) eop) \<Rightarrow> ('c, 'b) eop" where
  "opM f g e = (case f e of (Inl x, e) \<Rightarrow> (Inl x, e) | (Inr a, e) \<Rightarrow> g a e)"

definition liftM :: "'a result \<Rightarrow> ('a, 'b) eop" where "liftM r e = (r, e)"

text \<open>The result of an operation, error included, as a value.\<close>

definition tryM :: "('a, 'b) eop \<Rightarrow> ('a result, 'b) eop" where
  "tryM f e = (case f e of (r, e) \<Rightarrow> (Inr r, e))"

definition sysM :: "env \<Rightarrow> syscall \<Rightarrow> string \<Rightarrow> (unit, 'b) eop" where
  "sysM ev c msg = (if evFails ev c then failM (ErrText msg) else retM ())"

definition snapshot :: "'b engine \<Rightarrow> 'b engine" where
  "snapshot e = e\<lparr>egDisks := (egMeta e, egFiles e) # egDisks e\<rparr>"

definition metaM :: "('b mstore \<Rightarrow> 'a result \<times> 'b mstore) \<Rightarrow> ('a, 'b) eop" where
  "metaM f e = (case f (egMeta e) of (r, m) \<Rightarrow> (r, snapshot (e\<lparr>egMeta := m\<rparr>)))"

definition filesM :: "(files \<Rightarrow> files) \<Rightarrow> (unit, 'b) eop" where
  "filesM f e = (Inr (), snapshot (e\<lparr>egFiles := f (egFiles e)\<rparr>))"

definition eventM :: "event \<Rightarrow> (unit, 'b) eop" where
  "eventM x e = (Inr (), e\<lparr>egEvents := egEvents e @ [x]\<rparr>)"

definition triggerWebhook :: "string \<Rightarrow> ObjectInfo \<Rightarrow> (unit, 'b) eop" where
  "triggerWebhook name info = eventM (EvWebhook name info)"

definition MirrorSync :: "string \<Rightarrow> string \<Rightarrow> string \<Rightarrow> (unit, 'b) eop" where
  "MirrorSync bucket key action = eventM (EvMirror bucket key action)"

subsection \<open>Buckets\<close>

definition errKeyNotFound :: string where
  "errKeyNotFound = ''The specified key does not exist.''"

definition ErrNoSuchKey :: gerr where
  "ErrNoSuchKey = S3Error ''NoSuchKey'' errKeyNotFound"

definition RemoveAll :: "string \<Rightarrow> files \<Rightarrow> files" where
  "RemoveAll p fs = (\<lambda>q. if q = p \<or> HasPrefix q (p @ ''/'') then None else fs q)"

definition CreateBucket :: "'b bolt \<Rightarrow> env \<Rightarrow> string \<Rightarrow> (unit, 'b) eop" where
  "CreateBucket B ev name =
    opM (liftM (validateBucketName name)) (\<lambda>_.
    opM (metaM (\<lambda>m. BucketExists B m name)) (\<lambda>exists'.
    if exists' then failM (S3Error ''BucketAlreadyOwnedByYou'' ''Your previous request to create the named bucket succeeded and you already own it.'')
    else
      opM (sysM ev CMkdir ''failed to create bucket directory'') (\<lambda>_.
      opM (sysM ev CSyncParents ''sync'') (\<lambda>_.
      metaM (\<lambda>m. PutBucket B m \<lparr>biName = name, biCreationDate = evNow ev, biCORS = None, biVersioning = [],
        biIsPublic = False, biLifecycle = None, biLogging = None\<rparr>)))))"

definition DeleteBucket :: "'b bolt \<Rightarrow> env \<Rightarrow> string \<Rightarrow> (unit, 'b) eop" where
  "DeleteBucket B ev name =
    opM (liftM (validateBucketName name)) (\<lambda>_.
    opM (metaM (\<lambda>m. bucketMustExist B m name)) (\<lambda>_.
    opM (metaM (\<lambda>m. IsBucketEmpty B m name)) (\<lambda>empty.
    if \<not> empty then failM (S3Error ''BucketNotEmpty'' ''The bucket you tried to delete is not empty'')
    else
      opM (sysM ev CRemoveAll ''failed to remove bucket directory'') (\<lambda>_.
      opM (\<lambda>e. filesM (RemoveAll (bucketPath (egDataDir e) name)) e) (\<lambda>_.
      opM (\<lambda>e. filesM (RemoveAll (blobDir (egDataDir e) name)) e) (\<lambda>_.
      metaM (\<lambda>m. DeleteBucketMeta B m name)))))))"

definition BucketExistsE :: "'b bolt \<Rightarrow> string \<Rightarrow> (bool, 'b) eop" where
  "BucketExistsE B name =
    opM (liftM (validateBucketName name)) (\<lambda>_. metaM (\<lambda>m. BucketExists B m name))"

definition ListBuckets :: "'b bolt \<Rightarrow> (BucketInfo list, 'b) eop" where
  "ListBuckets B = metaM (\<lambda>m. (ListBucketsMeta B m, m))"

text \<open>The settings operations all have this form: requireBucket, then the operation
  of the metadata store.\<close>

definition withBucket :: "'b bolt \<Rightarrow> string \<Rightarrow> ('b mstore \<Rightarrow> 'a result \<times> 'b mstore) \<Rightarrow> ('a, 'b) eop" where
  "withBucket B bucket f = opM (metaM (\<lambda>m. requireBucket B m bucket)) (\<lambda>_. metaM f)"

definition PutBucketCORSE :: "'b bolt \<Rightarrow> string \<Rightarrow> CORSConfiguration option \<Rightarrow> (unit, 'b) eop" where
  "PutBucketCORSE B bucket cors = withBucket B bucket (\<lambda>m. PutBucketCORS B m bucket cors)"

definition GetBucketCORSE :: "'b bolt \<Rightarrow> string \<Rightarrow> (CORSConfiguration option, 'b) eop" where
  "GetBucketCORSE B bucket = withBucket B bucket (\<lambda>m. GetBucketCORS B m bucket)"

definition DeleteBucketCORSE :: "'b bolt \<Rightarrow> string \<Rightarrow> (unit, 'b) eop" where
  "DeleteBucketCORSE B bucket = withBucket B bucket (\<lambda>m. DeleteBucketCORS B m bucket)"

definition CountObjects :: "'b bolt \<Rightarrow> string \<Rightarrow> (int, 'b) eop" where
  "CountObjects B bucket = withBucket B bucket (\<lambda>m. CountObjectMetas B m bucket)"

definition SetBucketPublicE :: "'b bolt \<Rightarrow> string \<Rightarrow> bool \<Rightarrow> (unit, 'b) eop" where
  "SetBucketPublicE B bucket public = withBucket B bucket (\<lambda>m. SetBucketPublic B m bucket public)"

definition IsBucketPublicE :: "'b bolt \<Rightarrow> string \<Rightarrow> (bool, 'b) eop" where
  "IsBucketPublicE B bucket = withBucket B bucket (\<lambda>m. IsBucketPublic B m bucket)"

subsection \<open>Compression and encryption of object data\<close>

definition isCompressibleContentType :: "string \<Rightarrow> bool" where
  "isCompressibleContentType contentType =
    (let ct = ToLower (TrimSpace contentType);
         ct = (case Index ct '';'' of None \<Rightarrow> ct | Some idx \<Rightarrow> TrimSpace (take idx ct)) in
     if HasPrefix ct ''text/'' then True
     else ct \<in> {''application/json'', ''application/xml'', ''application/javascript'',
                ''application/x-javascript'', ''image/svg+xml''})"

definition maxCompressibleSize :: int where "maxCompressibleSize = 8388608"

definition shouldCompress :: "string \<Rightarrow> int \<Rightarrow> bool" where
  "shouldCompress contentType size' =
    (if \<not> isCompressibleContentType contentType then False
     else size' \<ge> 0 \<and> size' \<le> maxCompressibleSize)"

text \<open>aes.NewCipher accepts these key lengths.\<close>

definition aes_key_ok :: "string \<Rightarrow> bool" where
  "aes_key_ok key \<longleftrightarrow> length key \<in> {16, 24, 32}"

definition validateSSECParams :: "ObjectInfo \<Rightarrow> SSECParams option \<Rightarrow> unit result" where
  "validateSSECParams info params =
    (if oiSSECustomerAlgorithm info \<noteq> [] then
       (case params of
          None \<Rightarrow> Inl (S3Error ''InvalidArgument'' ''The object was stored using a Server-side Encryption with Customer-provided Keys (SSE-C) and cannot be retrieved without it'')
        | Some p \<Rightarrow> if scKeyMD5 p \<noteq> oiSSECustomerKeyMD5 info
            then Inl (S3Error ''InvalidDigest'' ''The customer-provided encryption key MD5 does not match'')
            else Inr ())
     else if params \<noteq> None then
       Inl (S3Error ''InvalidArgument'' ''The object was not stored using a Server-side Encryption with Customer-provided Keys (SSE-C) and cannot be retrieved with it'')
     else Inr ())"

subsection \<open>Reading objects\<close>

text \<open>HeadObject returns the record beside the error for a delete marker and for wrong
  encryption parameters, so its result is an error with an optional record, or a
  record.\<close>

type_synonym head_result = "(gerr \<times> ObjectInfo option) + ObjectInfo"

definition HeadObject ::
  "'b bolt \<Rightarrow> SSECParams option \<Rightarrow> string \<Rightarrow> string \<Rightarrow> string \<Rightarrow> 'b engine \<Rightarrow> head_result \<times> 'b engine" where
  "HeadObject B ssec bucket key versionID e =
    (case validateBucketName bucket of
       Inl x \<Rightarrow> (Inl (x, None), e)
     | Inr _ \<Rightarrow>
    (case objectPathWithVersion (egDataDir e) bucket key versionID of
       Inl _ \<Rightarrow> (Inl (S3Error ''InvalidArgument'' errInvalidKeyTraversal, None), e)
     | Inr _ \<Rightarrow>
    (case metaM (\<lambda>m. GetObjectMeta B m bucket key versionID) e of
       (Inl x, e) \<Rightarrow> (if x = ErrObjectMetaNotFound then Inl (ErrNoSuchKey, None) else Inl (x, None), e)
     | (Inr info, e) \<Rightarrow>
         if oiIsDeleteMarker info then (Inl (ErrNoSuchKey, Some info), e)
         else (case validateSSECParams info ssec of
                 Inl x \<Rightarrow> (Inl (x, Some info), e)
               | Inr _ \<Rightarrow> (Inr info, e)))))"

datatype reader_kind = FileReader | SeekReader | StreamReader

text \<open>The bytes behind an opened object: what reading its reader to the end yields,
  and which interfaces the reader has.\<close>

definition openData ::
  "codec \<Rightarrow> ObjectInfo \<Rightarrow> SSECParams option \<Rightarrow> string \<Rightarrow> (string \<times> reader_kind) result" where
  "openData cd info ssec file_bytes =
    bindE (case ssec of
        Some p \<Rightarrow> if oiSSECustomerAlgorithm info \<noteq> [] then
            (if length file_bytes < 16 then Inl (ErrText ''failed to read IV'')
             else if \<not> aes_key_ok (scKey p) then Inl (ErrText ''failed to create AES cipher'')
             else bindE (newCTRReadSeeker (cdAES cd (scKey p)) file_bytes (take 16 file_bytes)) (\<lambda>crs.
               Inr (fst (crRead (cdAES cd (scKey p)) crs (length file_bytes)), SeekReader)))
          else Inr (file_bytes, FileReader)
      | None \<Rightarrow> Inr (file_bytes, FileReader)) (\<lambda>(bytes, kind).
    if oiCompressed info then
      (case cdGunzip cd bytes of
         None \<Rightarrow> Inl (ErrText ''failed to initialize gzip reader'')
       | Some bytes \<Rightarrow> Inr (bytes, StreamReader))
    else Inr (bytes, kind))"

definition GetObject ::
  "'b bolt \<Rightarrow> codec \<Rightarrow> env \<Rightarrow> SSECParams option \<Rightarrow> string \<Rightarrow> string \<Rightarrow> string
   \<Rightarrow> 'b engine \<Rightarrow> ((gerr \<times> ObjectInfo option) + (string \<times> reader_kind \<times> ObjectInfo)) \<times> 'b engine" where
  "GetObject B cd ev ssec bucket key versionID e =
    (case validateBucketName bucket of
       Inl x \<Rightarrow> (Inl (x, None), e)
     | Inr _ \<Rightarrow>
    (case HeadObject B ssec bucket key versionID e of
       (Inl (x, i), e) \<Rightarrow> (Inl (x, i), e)
     | (Inr info, e) \<Rightarrow>
    (case dataPath (egDataDir e) info of
       Inl _ \<Rightarrow> (Inl (S3Error ''InvalidArgument'' errInvalidKeyTraversal, None), e)
     | Inr objPath \<Rightarrow>
    (case egFiles e objPath of
       None \<Rightarrow> (Inl (ErrNoSuchKey, None), e)
     | Some bytes \<Rightarrow>
         if evFails ev COpen then (Inl (ErrText ''open object data'', None), e)
         else (case openData cd info ssec bytes of
             Inl x \<Rightarrow> (Inl (x, None), e)
           | Inr (d, kind) \<Rightarrow> (Inr (d, kind, info), e))))))"

end
