(* ===== verification/Publication.thy ===== *)
theory Publication
  imports Engine
begin

text \<open>
  Writing and deleting objects: publication.go (how a written temporary file
  becomes a version of a key, and how the data it replaces goes away) and
  PutObject, DeleteObject and CopyObject of filesystem.go. The temporary file of a
  write is the byte string its rename publishes. PutObject is split where the
  code takes its locks: writeObjectData and preparePut run without them,
  commitPut holds the key lock and the shared bucket lock.
\<close>

subsection \<open>What is stored under a key\<close>

definition storedRecord :: "'b bolt \<Rightarrow> string \<Rightarrow> string \<Rightarrow> string \<Rightarrow> (ObjectInfo option, 'b) eop" where
  "storedRecord B bucket key versionID =
    opM (tryM (metaM (\<lambda>m. GetObjectMeta B m bucket key versionID))) (\<lambda>r.
    case r of
      Inl x \<Rightarrow> if x = ErrObjectMetaNotFound then retM None else failM x
    | Inr rec \<Rightarrow> if oiIsDeleteMarker rec \<or> oiVersionID rec \<noteq> versionID then retM None else retM (Some rec))"

definition removeObjectFile :: "string \<Rightarrow> (unit, 'b) eop" where
  "removeObjectFile p = filesM (\<lambda>fs. fs(p := None))"

text \<open>The directories that removeData tidies up after a legacy file are
  Paths.cleanupParentDirs; they hold no data and are not part of the state.\<close>

definition removeData :: "ObjectInfo option \<Rightarrow> (unit, 'b) eop" where
  "removeData r = (case r of
     None \<Rightarrow> retM ()
   | Some rec \<Rightarrow> if oiIsDeleteMarker rec then retM ()
       else (\<lambda>e. case dataPath (egDataDir e) rec of
               Inl _ \<Rightarrow> retM () e
             | Inr p \<Rightarrow> removeObjectFile p e))"

fun removeAllData :: "ObjectInfo list \<Rightarrow> (unit, 'b) eop" where
  "removeAllData [] = retM ()"
| "removeAllData (r # rs) = opM (removeData (Some r)) (\<lambda>_. removeAllData rs)"

text \<open>The part of promoteLegacyNullVersion that copies a file of the old layout to a
  blob: the copy is removed again unless the metadata commits, the old file after it
  has.\<close>

definition promoteLegacyFile :: "'b bolt \<Rightarrow> env \<Rightarrow> string \<Rightarrow> string \<Rightarrow> ObjectInfo \<Rightarrow> (unit, 'b) eop" where
  "promoteLegacyFile B ev bucket key latest =
    opM (\<lambda>e. liftM (objectPathWithVersion (egDataDir e) bucket key []) e) (\<lambda>src.
    opM (\<lambda>e. let base = JoinPath [egDataDir e, ''buckets''] in
          (case Rel base src of
             None \<Rightarrow> failM (ErrText ''invalid legacy object path'') e
           | Some rel \<Rightarrow> if \<not> IsLocal rel then failM (ErrText ''invalid legacy object path'') e else retM () e)) (\<lambda>_.
    opM (\<lambda>e. if evFails ev COpen then failM (ErrText ''open'') e
          else (case egFiles e src of None \<Rightarrow> failM (ErrText ''file does not exist'') e | Some c \<Rightarrow> retM c e)) (\<lambda>input.
    opM (\<lambda>e. liftM (newBlob (egDataDir e) bucket (evPromoteRnd ev) (\<not> evFails ev CMkdir)) e) (\<lambda>(i, path).
    opM (\<lambda>e. if egFiles e path \<noteq> None then failM (ErrText ''file exists'') e else retM () e) (\<lambda>_.
    opM (tryM (
      opM (filesM (\<lambda>fs. fs(path \<mapsto> input))) (\<lambda>_.
      opM (sysM ev CCopy ''copy'') (\<lambda>_.
      opM (sysM ev CSyncParents ''sync'') (\<lambda>_.
      metaM (\<lambda>m. PutObjectMetaRaw B m (latest\<lparr>oiVersionID := ''null'', oiIsLatest := True, oiBlobID := i\<rparr>))))))) (\<lambda>r.
    case r of
      Inl x \<Rightarrow> opM (removeObjectFile path) (\<lambda>_. failM x)
    | Inr _ \<Rightarrow> removeObjectFile src))))))"

definition promoteLegacyNullVersion :: "'b bolt \<Rightarrow> env \<Rightarrow> string \<Rightarrow> string \<Rightarrow> (unit, 'b) eop" where
  "promoteLegacyNullVersion B ev bucket key =
    opM (tryM (metaM (\<lambda>m. GetObjectMeta B m bucket key []))) (\<lambda>r.
    case r of
      Inl x \<Rightarrow> if x = ErrObjectMetaNotFound then retM () else failM x
    | Inr latest \<Rightarrow>
        if oiVersionID latest \<noteq> [] \<or> oiIsDeleteMarker latest then retM ()
        else if oiBlobID latest \<noteq> [] then
          metaM (\<lambda>m. PutObjectMetaRaw B m (latest\<lparr>oiVersionID := ''null'', oiIsLatest := True\<rparr>))
        else promoteLegacyFile B ev bucket key latest)"

definition prepareKeyForWrite :: "'b bolt \<Rightarrow> env \<Rightarrow> string \<Rightarrow> string \<Rightarrow> string \<Rightarrow> (ObjectInfo option, 'b) eop" where
  "prepareKeyForWrite B ev bucket key versionID =
    (if versionID = [] then storedRecord B bucket key []
     else opM (promoteLegacyNullVersion B ev bucket key) (\<lambda>_.
       if versionID = ''null'' then storedRecord B bucket key ''null'' else retM None))"

definition commitObject :: "'b bolt \<Rightarrow> env \<Rightarrow> string \<Rightarrow> string \<Rightarrow> string \<Rightarrow> ObjectInfo \<Rightarrow> (ObjectInfo, 'b) eop" where
  "commitObject B ev tmp blobID blobPath' info =
    opM (if oiVersionID info = [] then metaM (\<lambda>m. GetObjectVersions B m (oiBucket info) (oiKey info)) else retM []) (\<lambda>obsolete.
    opM (prepareKeyForWrite B ev (oiBucket info) (oiKey info) (oiVersionID info)) (\<lambda>replaced.
    opM (sysM ev CRename ''failed to rename temp file'') (\<lambda>_.
    opM (filesM (\<lambda>fs. fs(blobPath' \<mapsto> tmp))) (\<lambda>_.
    opM (sysM ev CSyncParents ''sync'') (\<lambda>_.
    let info = info\<lparr>oiBlobID := blobID\<rparr> in
    opM (tryM (metaM (\<lambda>m. PutObjectMeta B m info))) (\<lambda>r.
    case r of
      Inl x \<Rightarrow> opM (removeObjectFile blobPath') (\<lambda>_. failM x)
    | Inr _ \<Rightarrow> opM (removeData replaced) (\<lambda>_. opM (removeAllData obsolete) (\<lambda>_. retM info))))))))"

subsection \<open>PutObject\<close>

definition ErrEntityTooLarge :: gerr where
  "ErrEntityTooLarge = S3Error ''EntityTooLarge'' ''Your proposed upload exceeds the maximum allowed object size.''"

definition versionFor :: "env \<Rightarrow> string \<Rightarrow> string" where
  "versionFor ev status = (if status = ''Enabled'' then evUUID ev else if status = ''Suspended'' then ''null'' else [])"

text \<open>io.Copy from a body, through a LimitReader when a size cap is set: the bytes it
  yields and whether it fails.\<close>

definition limitReader :: "reader \<Rightarrow> int \<Rightarrow> reader" where
  "limitReader r n = (if int (length (rdData r)) < n then r else \<lparr>rdData = take (nat n) (rdData r), rdFails = False\<rparr>)"

record written =
  wrTemp :: string
  wrSize :: int
  wrETag :: string
  wrCompressed :: bool

definition writeObjectData ::
  "codec \<Rightarrow> env \<Rightarrow> int \<Rightarrow> SSECParams option \<Rightarrow> reader \<Rightarrow> int \<Rightarrow> string \<Rightarrow> written result" where
  "writeObjectData cd ev maxObjectSize ssec rd size' contentType =
    (if evFails ev CTemp then Inl (ErrText ''failed to create temp file'')
     else if ssec \<noteq> None \<and> evFails ev CRand then Inl (ErrText ''failed to generate random IV'')
     else if (case ssec of None \<Rightarrow> False | Some p \<Rightarrow> \<not> aes_key_ok (scKey p)) then Inl (ErrText ''failed to create AES cipher'')
     else
       let compressed = shouldCompress contentType size';
           capped = (if maxObjectSize > 0 then limitReader rd (int64 (maxObjectSize + 1)) else rd);
           n = int (length (rdData capped)) in
       if rdFails capped \<or> evFails ev CWrite then Inl (ErrText ''failed to write object data'')
       else if maxObjectSize > 0 \<and> n > maxObjectSize then Inl ErrEntityTooLarge
       else if size' \<ge> 0 \<and> n \<noteq> size' then Inl (S3Error ''BadRequest'' ''Size mismatch'')
       else if evFails ev CFsync then Inl (ErrText ''sync object data'')
       else
         let body = (if compressed then cdGzip cd (rdData capped) else rdData capped);
             stored = (case ssec of None \<Rightarrow> body
               | Some p \<Rightarrow> evIV ev @ ctr_xor (cdAES cd (scKey p)) (evIV ev) 0 body) in
         Inr \<lparr>wrTemp = stored, wrSize = n, wrETag = hex_encode (cdMD5 cd (rdData capped)), wrCompressed = compressed\<rparr>)"

definition preparePut ::
  "'b bolt \<Rightarrow> codec \<Rightarrow> env \<Rightarrow> SSECParams option \<Rightarrow> string \<Rightarrow> string \<Rightarrow> reader \<Rightarrow> int \<Rightarrow> string
   \<Rightarrow> (string \<times> string \<times> written, 'b) eop" where
  "preparePut B cd ev ssec bucket key rd size' contentType =
    (if hasPathTraversal key \<or> hasPathTraversal bucket then failM (S3Error ''InvalidArgument'' errInvalidKeyTraversal)
     else
    opM (liftM (validateBucketName bucket)) (\<lambda>_.
    opM (liftM (validateNewKey key)) (\<lambda>_.
    opM (\<lambda>e. if egMaxObjectSize e > 0 \<and> size' > egMaxObjectSize e then failM ErrEntityTooLarge e else retM () e) (\<lambda>_.
    opM (metaM (\<lambda>m. bucketMustExist B m bucket)) (\<lambda>_.
    opM (metaM (\<lambda>m. GetBucketVersioning B m bucket)) (\<lambda>status.
    opM (\<lambda>e. case objectPathWithVersion (egDataDir e) bucket key (versionFor ev status) of
               Inl _ \<Rightarrow> failM (S3Error ''InvalidArgument'' errInvalidKeyTraversal) e
             | Inr _ \<Rightarrow> retM () e) (\<lambda>_.
    opM (\<lambda>e. liftM (newBlob (egDataDir e) bucket (evBlobRnd ev) (\<not> evFails ev CMkdir)) e) (\<lambda>(blobID, path).
    opM (\<lambda>e. liftM (writeObjectData cd ev (egMaxObjectSize e) ssec rd size' contentType) e) (\<lambda>w.
    retM (blobID, path, w))))))))))"

definition lockBucketForCommit :: "'b bolt \<Rightarrow> string \<Rightarrow> (unit, 'b) eop" where
  "lockBucketForCommit B bucket = metaM (\<lambda>m. bucketMustExist B m bucket)"

definition putInfo :: "env \<Rightarrow> SSECParams option \<Rightarrow> string \<Rightarrow> string \<Rightarrow> string \<Rightarrow> string \<Rightarrow> written \<Rightarrow> ObjectInfo" where
  "putInfo ev ssec bucket key versionID contentType w =
    \<lparr>oiBucket = bucket, oiKey = key, oiSize = wrSize w, oiETag = wrETag w,
     oiContentType = (if contentType = [] then ''application/octet-stream'' else contentType),
     oiLastModified = evNow ev, oiVersionID = versionID, oiIsLatest = False, oiNoncurrentSince = 0,
     oiIsDeleteMarker = False,
     oiSSECustomerAlgorithm = (case ssec of None \<Rightarrow> [] | Some p \<Rightarrow> scAlgorithm p),
     oiSSECustomerKeyMD5 = (case ssec of None \<Rightarrow> [] | Some p \<Rightarrow> scKeyMD5 p),
     oiCompressed = wrCompressed w, oiBlobID = []\<rparr>"

definition commitPut ::
  "'b bolt \<Rightarrow> env \<Rightarrow> SSECParams option \<Rightarrow> string \<Rightarrow> string \<Rightarrow> string \<Rightarrow> string \<times> string \<times> written
   \<Rightarrow> (ObjectInfo, 'b) eop" where
  "commitPut B ev ssec bucket key contentType p =
    (case p of (blobID, path, w) \<Rightarrow>
    opM (lockBucketForCommit B bucket) (\<lambda>_.
    opM (metaM (\<lambda>m. GetBucketVersioning B m bucket)) (\<lambda>status.
    opM (commitObject B ev (wrTemp w) blobID path (putInfo ev ssec bucket key (versionFor ev status) contentType w)) (\<lambda>info.
    opM (triggerWebhook ''ObjectCreated:Put'' info) (\<lambda>_.
    opM (MirrorSync bucket key ''PUT'') (\<lambda>_.
    retM info))))))"

definition PutObject ::
  "'b bolt \<Rightarrow> codec \<Rightarrow> env \<Rightarrow> SSECParams option \<Rightarrow> string \<Rightarrow> string \<Rightarrow> reader \<Rightarrow> int \<Rightarrow> string
   \<Rightarrow> (ObjectInfo, 'b) eop" where
  "PutObject B cd ev ssec bucket key rd size' contentType =
    opM (preparePut B cd ev ssec bucket key rd size' contentType) (commitPut B ev ssec bucket key contentType)"

subsection \<open>DeleteObject\<close>

definition mirrorAfterVersionDelete :: "'b bolt \<Rightarrow> string \<Rightarrow> string \<Rightarrow> bool \<Rightarrow> (unit, 'b) eop" where
  "mirrorAfterVersionDelete B bucket key wasLatest =
    (if \<not> wasLatest then retM ()
     else opM (tryM (metaM (\<lambda>m. GetObjectMeta B m bucket key []))) (\<lambda>r.
       case r of
         Inr next' \<Rightarrow> if \<not> oiIsDeleteMarker next' then MirrorSync bucket key ''PUT'' else MirrorSync bucket key ''DELETE''
       | Inl _ \<Rightarrow> MirrorSync bucket key ''DELETE''))"

definition emptyInfo :: "string \<Rightarrow> string \<Rightarrow> string \<Rightarrow> ObjectInfo" where
  "emptyInfo bucket key versionID =
    \<lparr>oiBucket = bucket, oiKey = key, oiSize = 0, oiETag = [], oiContentType = [], oiLastModified = 0,
     oiVersionID = versionID, oiIsLatest = False, oiNoncurrentSince = 0, oiIsDeleteMarker = False,
     oiSSECustomerAlgorithm = [], oiSSECustomerKeyMD5 = [], oiCompressed = False, oiBlobID = []\<rparr>"

text \<open>The three branches of deleteObjectLocked: one version, a versioned bucket's delete
  marker, an unversioned key.\<close>

definition deleteOneVersion :: "'b bolt \<Rightarrow> env \<Rightarrow> string \<Rightarrow> string \<Rightarrow> string \<Rightarrow> (bool \<times> string, 'b) eop" where
  "deleteOneVersion B ev bucket key versionID =
    opM (if versionID = ''null'' then promoteLegacyNullVersion B ev bucket key else retM ()) (\<lambda>_.
    opM (\<lambda>e. case objectPathWithVersion (egDataDir e) bucket key versionID of
               Inl _ \<Rightarrow> failM (S3Error ''InvalidArgument'' errInvalidKeyTraversal) e
             | Inr _ \<Rightarrow> retM () e) (\<lambda>_.
    opM (tryM (metaM (\<lambda>m. GetObjectMeta B m bucket key []))) (\<lambda>latest.
    if (case latest of Inl x \<Rightarrow> x \<noteq> ErrObjectMetaNotFound | Inr _ \<Rightarrow> False)
    then (case latest of Inl x \<Rightarrow> failM x | Inr _ \<Rightarrow> retM (False, []))
    else
    let wasLatest = (case latest of Inr l \<Rightarrow> oiVersionID l = versionID | Inl _ \<Rightarrow> False) in
    opM (storedRecord B bucket key versionID) (\<lambda>removed.
    opM (metaM (\<lambda>m. DeleteObjectMeta B m bucket key versionID)) (\<lambda>_.
    opM (removeData removed) (\<lambda>_.
    opM (triggerWebhook ''ObjectRemoved:Delete'' (emptyInfo bucket key versionID)) (\<lambda>_.
    opM (mirrorAfterVersionDelete B bucket key wasLatest) (\<lambda>_.
    retM (False, [])))))))))"

definition markerInfo :: "env \<Rightarrow> string \<Rightarrow> string \<Rightarrow> string \<Rightarrow> ObjectInfo" where
  "markerInfo ev bucket key versionID =
    (emptyInfo bucket key versionID)\<lparr>oiLastModified := evNow ev, oiIsDeleteMarker := True\<rparr>"

definition createDeleteMarker :: "'b bolt \<Rightarrow> env \<Rightarrow> string \<Rightarrow> string \<Rightarrow> string \<Rightarrow> (bool \<times> string, 'b) eop" where
  "createDeleteMarker B ev bucket key status =
    opM (promoteLegacyNullVersion B ev bucket key) (\<lambda>_.
    let delVersionID = versionFor ev status in
    opM (if status = ''Suspended'' then storedRecord B bucket key ''null'' else retM None) (\<lambda>replaced.
    let info = markerInfo ev bucket key delVersionID in
    opM (metaM (\<lambda>m. PutObjectMeta B m info)) (\<lambda>_.
    opM (removeData replaced) (\<lambda>_.
    opM (triggerWebhook ''ObjectRemoved:DeleteMarkerCreated'' info) (\<lambda>_.
    opM (MirrorSync bucket key ''DELETE'') (\<lambda>_.
    retM (True, delVersionID)))))))"

definition deleteUnversioned :: "'b bolt \<Rightarrow> string \<Rightarrow> string \<Rightarrow> (bool \<times> string, 'b) eop" where
  "deleteUnversioned B bucket key =
    opM (tryM (metaM (\<lambda>m. GetObjectMeta B m bucket key []))) (\<lambda>r.
    case r of
      Inl x \<Rightarrow> if x = ErrObjectMetaNotFound then retM (False, []) else failM x
    | Inr info \<Rightarrow>
    opM (metaM (\<lambda>m. GetObjectVersions B m bucket key)) (\<lambda>versions.
    opM (metaM (\<lambda>m. DeleteObjectMeta B m bucket key [])) (\<lambda>_.
    opM (removeAllData versions) (\<lambda>_.
    opM (triggerWebhook ''ObjectRemoved:Delete'' info) (\<lambda>_.
    opM (MirrorSync bucket key ''DELETE'') (\<lambda>_.
    retM (False, [])))))))"

definition deleteObjectLocked :: "'b bolt \<Rightarrow> env \<Rightarrow> string \<Rightarrow> string \<Rightarrow> string \<Rightarrow> (bool \<times> string, 'b) eop" where
  "deleteObjectLocked B ev bucket key versionID =
    opM (metaM (\<lambda>m. GetBucketVersioning B m bucket)) (\<lambda>status.
    if versionID \<noteq> [] then deleteOneVersion B ev bucket key versionID
    else if status = ''Enabled'' \<or> status = ''Suspended'' then createDeleteMarker B ev bucket key status
    else deleteUnversioned B bucket key)"

definition DeleteObject :: "'b bolt \<Rightarrow> env \<Rightarrow> string \<Rightarrow> string \<Rightarrow> string \<Rightarrow> (bool \<times> string, 'b) eop" where
  "DeleteObject B ev bucket key versionID =
    opM (metaM (\<lambda>m. requireBucket B m bucket)) (\<lambda>_. deleteObjectLocked B ev bucket key versionID)"

subsection \<open>CopyObject\<close>

text \<open>The source is read with its own key, the destination written with that of the
  request.\<close>

definition CopyObject ::
  "'b bolt \<Rightarrow> codec \<Rightarrow> env \<Rightarrow> SSECParams option \<Rightarrow> CopySource \<Rightarrow> string \<Rightarrow> string \<Rightarrow> (ObjectInfo, 'b) eop" where
  "CopyObject B cd ev ssec src dstBucket dstKey =
    opM (liftM (validateBucketName (csBucket src))) (\<lambda>_.
    opM (liftM (validateBucketName dstBucket)) (\<lambda>_.
    opM (\<lambda>e. case GetObject B cd ev (csSSEC src) (csBucket src) (csKey src) (csVersionID src) e of
               (Inl (x, _), e) \<Rightarrow> (Inl x, e)
             | (Inr r, e) \<Rightarrow> (Inr r, e)) (\<lambda>(data, _, srcInfo).
    PutObject B cd ev ssec dstBucket dstKey \<lparr>rdData = data, rdFails = False\<rparr> (oiSize srcInfo) (oiContentType srcInfo))))"

end
