(* ===== verification/Engine_Inv.thy ===== *)
theory Engine_Inv
  imports Meta_Ids Publication
begin

text \<open>
  Referential integrity of the store: every record with data points at a file
  that exists, no two records share a file, and every bucket's database is
  well-formed - in every state of the disk an operation passes through, so also
  in whatever state a crash leaves. The proofs compose triples of the engine's
  operations: trip P f Q E says that from a state with P, f ends in Q when it
  succeeds and in E when it fails.
\<close>

named_theorems trip_rules "rules that take an engine operation apart"

subsection \<open>Disk states\<close>

definition disk_ok :: "'b bolt \<Rightarrow> string \<Rightarrow> 'b mstore \<times> files \<Rightarrow> bool" where
  "disk_ok B dd d \<longleftrightarrow> meta_ok B (fst d) \<and>
     (\<forall>x\<in>ids B (fst d). \<exists>p. ident_path dd x = Inr p \<and> snd d p \<noteq> None) \<and>
     inj_on (ident_path dd) (ids B (fst d))"

definition inv :: "'b bolt \<Rightarrow> string \<Rightarrow> 'b engine \<Rightarrow> bool" where
  "inv B dd e \<longleftrightarrow> egDataDir e = dd \<and> disk_ok B dd (egMeta e, egFiles e) \<and> (\<forall>d\<in>set (egDisks e). disk_ok B dd d)"

lemma disk_shrink: "disk_ok B dd (m, fs) \<Longrightarrow> meta_ok B m' \<Longrightarrow> ids B m' \<subseteq> ids B m \<Longrightarrow> disk_ok B dd (m', fs)"
  by (auto simp: disk_ok_def intro: inj_on_subset)

lemma disk_view: "disk_ok B dd (m, fs) \<Longrightarrow> meta_ok B m' \<Longrightarrow> obj_at B m' = obj_at B m \<Longrightarrow> disk_ok B dd (m', fs)"
  by (rule disk_shrink) (auto dest: ids_cong)

lemma disk_add:
  assumes "disk_ok B dd (m, fs)" "meta_ok B m'" "ids B m' \<subseteq> insert n S" "S \<subseteq> ids B m"
    and "ident_path dd n = Inr p" "fs p \<noteq> None" "\<forall>y\<in>S. ident_path dd y \<noteq> Inr p"
  shows "disk_ok B dd (m', fs)"
proof -
  have "inj_on (ident_path dd) (insert n S)"
    unfolding inj_on_insert
  proof
    show "inj_on (ident_path dd) S" using assms(1,4) by (auto simp: disk_ok_def intro: inj_on_subset)
    show "ident_path dd n \<notin> ident_path dd ` (S - {n})" using assms(5,7) by auto
  qed
  then have "inj_on (ident_path dd) (ids B m')" using assms(3) inj_on_subset by blast
  moreover have "\<forall>x\<in>ids B m'. \<exists>p. ident_path dd x = Inr p \<and> fs p \<noteq> None"
    using assms(1,3,4,5,6) unfolding disk_ok_def fst_conv snd_conv by blast
  ultimately show ?thesis using assms(2) by (simp add: disk_ok_def)
qed

lemma disk_put: "disk_ok B dd (m, fs) \<Longrightarrow> disk_ok B dd (m, fs(p \<mapsto> c))"
  by (fastforce simp: disk_ok_def)

lemma disk_rm: "disk_ok B dd (m, fs) \<Longrightarrow> \<forall>y\<in>ids B m. ident_path dd y \<noteq> Inr p \<Longrightarrow> disk_ok B dd (m, fs(p := None))"
  by (fastforce simp: disk_ok_def)

text \<open>A path with no file belongs to no record.\<close>

lemma fresh_path: "disk_ok B dd (m, fs) \<Longrightarrow> fs p = None \<Longrightarrow> \<forall>y\<in>ids B m. ident_path dd y \<noteq> Inr p"
  by (fastforce simp: disk_ok_def)

lemma disk_inj: "disk_ok B dd (m, fs) \<Longrightarrow> x \<in> ids B m \<Longrightarrow> y \<in> ids B m \<Longrightarrow> ident_path dd x = ident_path dd y \<Longrightarrow> x = y"
  by (auto simp: disk_ok_def inj_on_def)

subsection \<open>Triples\<close>

definition trip :: "('b engine \<Rightarrow> bool) \<Rightarrow> ('a, 'b) eop \<Rightarrow> ('a \<Rightarrow> 'b engine \<Rightarrow> bool) \<Rightarrow> (gerr \<Rightarrow> 'b engine \<Rightarrow> bool) \<Rightarrow> bool" where
  "trip P f Q E \<longleftrightarrow> (\<forall>e. P e \<longrightarrow> (case f e of (Inl x, e') \<Rightarrow> E x e' | (Inr a, e') \<Rightarrow> Q a e'))"

lemma trip_op [trip_rules]: "trip P f R E \<Longrightarrow> (\<And>a. trip (R a) (g a) Q E) \<Longrightarrow> trip P (opM f g) Q E"
  by (fastforce simp: trip_def opM_def split: prod.splits sum.splits)

lemma trip_ret [trip_rules]: "trip (Q a) (retM a) Q E"
  by (simp add: trip_def retM_def)

lemma trip_fail [trip_rules]: "trip (E x) (failM x) Q E"
  by (simp add: trip_def failM_def)

lemma trip_lift: "(\<And>e a. P e \<Longrightarrow> r = Inr a \<Longrightarrow> Q a e) \<Longrightarrow> (\<And>e x. P e \<Longrightarrow> r = Inl x \<Longrightarrow> E x e) \<Longrightarrow> trip P (liftM r) Q E"
  by (cases r) (auto simp: trip_def liftM_def)

lemma trip_try: "trip P f Q E \<Longrightarrow> trip P (tryM f) (\<lambda>r. case r of Inl x \<Rightarrow> E x | Inr a \<Rightarrow> Q a) E'"
  by (fastforce simp: trip_def tryM_def split: prod.splits sum.splits)

text \<open>An operation whose error the code inspects.\<close>

lemma trip_try_case:
  assumes "trip P f Q E" and "\<And>a. trip (Q a) (g a) Q' E'" and "\<And>x. trip (E x) (h x) Q' E'"
  shows "trip P (opM (tryM f) (\<lambda>r. case r of Inl x \<Rightarrow> h x | Inr a \<Rightarrow> g a)) Q' E'"
proof (rule trip_op [OF trip_try [OF assms(1)]])
  fix r
  show "trip (case r of Inl x \<Rightarrow> E x | Inr a \<Rightarrow> Q a) (case r of Inl x \<Rightarrow> h x | Inr a \<Rightarrow> g a) Q' E'"
    using assms(2,3) by (cases r) simp_all
qed

lemma trip_conseq:
  "trip P f Q E \<Longrightarrow> (\<And>e. P' e \<Longrightarrow> P e) \<Longrightarrow> (\<And>a e. Q a e \<Longrightarrow> Q' a e) \<Longrightarrow> (\<And>x e. E x e \<Longrightarrow> E' x e) \<Longrightarrow> trip P' f Q' E'"
  by (fastforce simp: trip_def split: prod.splits sum.splits)

lemma trip_pre: "(\<And>e. P' e \<Longrightarrow> P e) \<Longrightarrow> trip P f Q E \<Longrightarrow> trip P' f Q E"
  by (auto simp: trip_def)

lemma trip_state: "(\<And>e. P e \<Longrightarrow> trip (\<lambda>e'. e' = e) f Q E) \<Longrightarrow> trip P f Q E"
  by (auto simp: trip_def)

lemma trip_pure: "(\<And>e. P e \<Longrightarrow> c) \<Longrightarrow> (c \<Longrightarrow> trip P f Q E) \<Longrightarrow> trip P f Q E"
  by (auto simp: trip_def)

lemma trip_if: "(c \<Longrightarrow> trip P f Q E) \<Longrightarrow> (\<not> c \<Longrightarrow> trip P g Q E) \<Longrightarrow> trip P (if c then f else g) Q E"
  by simp

lemma trip_sys: "(\<And>e x. P e \<Longrightarrow> E x e) \<Longrightarrow> (\<And>e. P e \<Longrightarrow> Q () e) \<Longrightarrow> trip P (sysM ev c msg) Q E"
  by (auto simp: sysM_def trip_def retM_def failM_def)

lemma trip_at: "(\<And>e. P e \<Longrightarrow> trip P (f e) Q E) \<Longrightarrow> trip P (\<lambda>e. f e e) Q E"
  by (simp add: trip_def)

lemma trip_meta:
  assumes "\<And>e r m. P e \<Longrightarrow> f (egMeta e) = (r, m) \<Longrightarrow>
      (case r of Inl x \<Rightarrow> E x | Inr a \<Rightarrow> Q a) (snapshot (e\<lparr>egMeta := m\<rparr>))"
  shows "trip P (metaM f) Q E"
  unfolding trip_def metaM_def using assms by (fastforce split: prod.splits sum.splits)

lemma trip_files:
  "(\<And>e. P e \<Longrightarrow> Q () (snapshot (e\<lparr>egFiles := f (egFiles e)\<rparr>))) \<Longrightarrow> trip P (filesM f) Q E"
  by (simp add: trip_def filesM_def)

lemma trip_event: "(\<And>e. P e \<Longrightarrow> Q () (e\<lparr>egEvents := egEvents e @ [x]\<rparr>)) \<Longrightarrow> trip P (eventM x) Q E"
  by (simp add: trip_def eventM_def)

lemma tripD: "trip P f Q E \<Longrightarrow> P e \<Longrightarrow> f e = (Inr a, e') \<Longrightarrow> Q a e'"
  by (fastforce simp: trip_def)

lemma tripD_any: "trip P f (\<lambda>_. R) (\<lambda>_. R) \<Longrightarrow> P e \<Longrightarrow> R (snd (f e))"
  by (cases "f e"; cases "fst (f e)") (auto simp: trip_def)

lemma tripD_post: "trip P f Q (\<lambda>_. R) \<Longrightarrow> P e \<Longrightarrow> (\<And>a e. Q a e \<Longrightarrow> R e) \<Longrightarrow> R (snd (f e))"
  by (cases "f e"; cases "fst (f e)") (auto simp: trip_def)

lemma snapshot_sel [simp]:
  "egMeta (snapshot e) = egMeta e" "egFiles (snapshot e) = egFiles e" "egDataDir (snapshot e) = egDataDir e"
  "egEvents (snapshot e) = egEvents e" "egDisks (snapshot e) = (egMeta e, egFiles e) # egDisks e"
  "egMaxObjectSize (snapshot e) = egMaxObjectSize e"
  by (simp_all add: snapshot_def)

lemma inv_meta: "inv B dd e \<Longrightarrow> disk_ok B dd (m, egFiles e) \<Longrightarrow> inv B dd (snapshot (e\<lparr>egMeta := m\<rparr>))"
  by (simp add: inv_def)

lemma inv_files: "inv B dd e \<Longrightarrow> disk_ok B dd (egMeta e, fs) \<Longrightarrow> inv B dd (snapshot (e\<lparr>egFiles := fs\<rparr>))"
  by (simp add: inv_def)

lemma inv_disk: "inv B dd e \<Longrightarrow> disk_ok B dd (egMeta e, egFiles e) \<and> meta_ok B (egMeta e) \<and> egDataDir e = dd"
  by (simp add: inv_def disk_ok_def)

lemma inv_event [simp]: "inv B dd (e\<lparr>egEvents := x\<rparr>) = inv B dd e"
  by (simp add: inv_def)

text \<open>What an operation leaves that only reads: the same records and files.\<close>

definition same_data :: "'b bolt \<Rightarrow> 'b engine \<Rightarrow> 'b engine \<Rightarrow> bool" where
  "same_data B e e' \<longleftrightarrow> obj_at B (egMeta e') = obj_at B (egMeta e) \<and> egFiles e' = egFiles e \<and> egDataDir e' = egDataDir e
     \<and> egMaxObjectSize e' = egMaxObjectSize e"

text \<open>An assertion that looks only at records and files.\<close>

definition data_only :: "'b bolt \<Rightarrow> ('b engine \<Rightarrow> bool) \<Rightarrow> bool" where
  "data_only B P \<longleftrightarrow> (\<forall>e e'. same_data B e e' \<longrightarrow> P e \<longrightarrow> P e')"

definition reads :: "'b bolt \<Rightarrow> ('b mstore \<Rightarrow> 'a result \<times> 'b mstore) \<Rightarrow> bool" where
  "reads B f \<longleftrightarrow> (\<forall>m r m'. f m = (r, m') \<longrightarrow> meta_ok B m \<longrightarrow> meta_ok B m' \<and> obj_at B m' = obj_at B m)"

text \<open>Some store with the same records gave the result a.\<close>

definition got :: "'b bolt \<Rightarrow> ('b mstore \<Rightarrow> 'a result \<times> 'b mstore) \<Rightarrow> 'a result \<Rightarrow> 'b engine \<Rightarrow> bool" where
  "got B f r e \<longleftrightarrow> (\<exists>m m'. f m = (r, m') \<and> meta_ok B m \<and> obj_at B m = obj_at B (egMeta e))"

lemma trip_read:
  assumes f: "reads B f" and P: "data_only B P"
  shows "trip (\<lambda>e. inv B dd e \<and> P e) (metaM f) (\<lambda>a e. inv B dd e \<and> P e \<and> got B f (Inr a) e)
    (\<lambda>x e. inv B dd e \<and> P e \<and> got B f (Inl x) e)"
proof (rule trip_meta)
  fix e r m assume h: "inv B dd e \<and> P e" "f (egMeta e) = (r, m)"
  let ?e = "snapshot (e\<lparr>egMeta := m\<rparr>)"
  have k: "meta_ok B (egMeta e)" using inv_disk h(1) by blast
  have o: "meta_ok B m" "obj_at B m = obj_at B (egMeta e)" using f h(2) k unfolding reads_def by blast+
  have i: "inv B dd ?e" using inv_meta disk_view o inv_disk h(1) by blast
  have "same_data B e ?e" using o by (simp add: same_data_def)
  with P h(1) have p: "P ?e" unfolding data_only_def by blast
  have g: "got B f r ?e" unfolding got_def using h(2) k o by auto
  show "(case r of Inl x \<Rightarrow> \<lambda>e. inv B dd e \<and> P e \<and> got B f (Inl x) e | Inr a \<Rightarrow> \<lambda>e. inv B dd e \<and> P e \<and> got B f (Inr a) e) ?e"
    using i p g by (cases r) auto
qed

lemma reads_dbs: "(\<And>m r m'. f m = (r, m') \<Longrightarrow> msDbs m' = msDbs m) \<Longrightarrow> reads B f"
  unfolding reads_def using dbs_same by blast

lemma BucketExists_dbs: "msDbs (snd (BucketExists B m n)) = msDbs m"
  using GetBucketCached_frame(2) [of B m n]
  by (cases "GetBucketCached B m n"; cases "fst (GetBucketCached B m n)") (auto simp: BucketExists_def)

lemma getCached_dbs: "msDbs (snd (getCached B m n f)) = msDbs m"
  using GetBucketCached_frame(2) [of B m n]
  by (cases "GetBucketCached B m n"; cases "fst (GetBucketCached B m n)") (auto simp: getCached_def)

lemma bucketMustExist_dbs: "msDbs (snd (bucketMustExist B m n)) = msDbs m"
  using BucketExists_dbs [of B m n]
  by (cases "BucketExists B m n"; cases "fst (BucketExists B m n)") (auto simp: bucketMustExist_def)

lemma requireBucket_dbs: "msDbs (snd (requireBucket B m n)) = msDbs m"
  using bucketMustExist_dbs [of B m n] by (cases "validateBucketName n") (auto simp: requireBucket_def)

lemma reads_registry:
  "reads B (\<lambda>m. bucketMustExist B m n)" "reads B (\<lambda>m. requireBucket B m n)" "reads B (\<lambda>m. GetBucketVersioning B m n)"
  "reads B (\<lambda>m. BucketExists B m n)"
  using bucketMustExist_dbs requireBucket_dbs getCached_dbs BucketExists_dbs
  by (metis (no_types, lifting) reads_dbs snd_conv GetBucketVersioning_def)+

context bolt_laws
begin

lemma reads_objects:
  "IsValidBucketName b \<Longrightarrow> reads B (\<lambda>m. GetObjectMeta B m b k v)"
  "IsValidBucketName b \<Longrightarrow> reads B (\<lambda>m. GetObjectVersions B m b k)"
  using GetObjectMeta_obj(1) GetObjectVersions_obj(1) unfolding reads_def by blast+

lemma got_meta:
  assumes "got B (\<lambda>m. GetObjectMeta B m b k v) (Inr i) e" "IsValidBucketName b" "nul \<notin> set k"
  shows "(v = [] \<and> cur_of (obj_at B (egMeta e) b) b k = Some i) \<or> (v \<noteq> [] \<and> hist_of (obj_at B (egMeta e) b) b k v = Some i)
      \<or> (v = ''null'' \<and> cur_of (obj_at B (egMeta e) b) b k = Some i \<and> oiVersionID i = [])"
  using assms GetObjectMeta_obj(2) unfolding got_def by metis

lemma got_ident:
  assumes g: "got B (\<lambda>m. GetObjectMeta B m b k v) (Inr i) e" and v: "IsValidBucketName b" "nul \<notin> set k"
    and d: "\<not> oiIsDeleteMarker i" and m: "meta_ok B (egMeta e)"
  shows "ident_of i \<in> ids B (egMeta e) \<and> in_slot b k [] (ident_of i)"
proof -
  from got_meta [OF g v] obtain w where o: "cur_of (obj_at B (egMeta e) b) b k = Some i \<or> hist_of (obj_at B (egMeta e) b) b k w = Some i"
    by blast
  with key_wf_cur [OF meta_ok_key [OF m v(2)]] key_wf_hist [OF meta_ok_key [OF m v(2)]] have "rec_ok b k i" by blast
  with ids_I [OF v(2) d o] show ?thesis by (simp add: in_slot_def rec_ok_def)
qed

lemma got_versions:
  assumes g: "got B (\<lambda>m. GetObjectVersions B m b k) (Inr is) e" and v: "IsValidBucketName b" "nul \<notin> set k"
    and i: "i \<in> set is" "\<not> oiIsDeleteMarker i" and m: "meta_ok B (egMeta e)"
  shows "ident_of i \<in> ids B (egMeta e) \<and> in_slot b k [] (ident_of i)"
proof -
  from g obtain m0 m1 where "GetObjectVersions B m0 b k = (Inr is, m1)" "meta_ok B m0" "obj_at B m0 = obj_at B (egMeta e)"
    by (auto simp: got_def)
  with GetObjectVersions_obj(2) [OF this(1,2) v(1,2) refl] i obtain w
    where o: "cur_of (obj_at B (egMeta e) b) b k = Some i \<or> hist_of (obj_at B (egMeta e) b) b k w = Some i"
    by (auto simp: ran_def)
  with key_wf_cur [OF meta_ok_key [OF m v(2)]] key_wf_hist [OF meta_ok_key [OF m v(2)]] have "rec_ok b k i" by blast
  with ids_I [OF v(2) i(2) o] show ?thesis by (simp add: in_slot_def rec_ok_def)
qed

end

end
