(* ===== verification/Engine_Refs.thy ===== *)
theory Engine_Refs
  imports Engine_Inv
begin

text \<open>
  The triples of the engine's building blocks: reading what is stored under a key,
  promoting a legacy record, removing data that nothing refers to any more,
  committing a new version, deleting. Each keeps the disk invariant in every
  state it passes through.
\<close>

text \<open>No file exists at these paths: the names drawn for data not yet published.\<close>

definition clear :: "string set \<Rightarrow> 'b engine \<Rightarrow> bool" where
  "clear S e \<longleftrightarrow> (\<forall>p\<in>S. egFiles e p = None)"

text \<open>A record found in a slot, and data nothing refers to.\<close>

definition found :: "'b bolt \<Rightarrow> string \<Rightarrow> string \<Rightarrow> string \<Rightarrow> ObjectInfo option \<Rightarrow> 'b engine \<Rightarrow> bool" where
  "found B b k v r e \<longleftrightarrow> (\<forall>i. r = Some i \<longrightarrow> \<not> oiIsDeleteMarker i \<longrightarrow>
     ident_of i \<in> ids B (egMeta e) \<and> in_slot b k v (ident_of i))"

definition unreferenced :: "'b bolt \<Rightarrow> string \<Rightarrow> string result \<Rightarrow> 'b engine \<Rightarrow> bool" where
  "unreferenced B dd p e \<longleftrightarrow> (\<forall>x\<in>ids B (egMeta e). ident_path dd x \<noteq> p)"

definition dead :: "'b bolt \<Rightarrow> string \<Rightarrow> ObjectInfo list \<Rightarrow> 'b engine \<Rightarrow> bool" where
  "dead B dd os e \<longleftrightarrow> (\<forall>i\<in>set os. \<not> oiIsDeleteMarker i \<longrightarrow> unreferenced B dd (ident_path dd (ident_of i)) e)"

text \<open>The file of a record, and assertions that removing unreferenced files keeps.\<close>

definition content :: "'b bolt \<Rightarrow> string \<Rightarrow> ident \<Rightarrow> string \<Rightarrow> 'b engine \<Rightarrow> bool" where
  "content B dd x c e \<longleftrightarrow> x \<in> ids B (egMeta e) \<and> (\<exists>q. ident_path dd x = Inr q \<and> egFiles e q = Some c)"

definition stable :: "'b bolt \<Rightarrow> string \<Rightarrow> ('b engine \<Rightarrow> bool) \<Rightarrow> bool" where
  "stable B dd G \<longleftrightarrow> (\<forall>e p. G e \<longrightarrow> unreferenced B dd (Inr p) e \<longrightarrow>
     G (snapshot (e\<lparr>egFiles := (egFiles e)(p := None)\<rparr>)))"

lemma stable_simps [intro]:
  "stable B dd (clear S)" "stable B dd (content B dd x c)" "stable B dd (\<lambda>_. True)"
  "stable B dd (\<lambda>e. H (egMeta e))"
  by (auto simp: stable_def clear_def content_def unreferenced_def) metis

lemma stable_conj [intro]: "stable B dd G \<Longrightarrow> stable B dd H \<Longrightarrow> stable B dd (\<lambda>e. G e \<and> H e)"
  by (simp add: stable_def)

text \<open>Records that a write or delete of version v of a key is about to replace.\<close>

definition replaceable :: "'b bolt \<Rightarrow> string \<Rightarrow> string \<Rightarrow> string \<Rightarrow> ObjectInfo list \<Rightarrow> 'b engine \<Rightarrow> bool" where
  "replaceable B b k v os e \<longleftrightarrow> (\<forall>i\<in>set os. found B b k v (Some i) e)"

lemma data_only_simps [intro]:
  "data_only B (clear S)" "data_only B (found B b k v r)" "data_only B (replaceable B b k v os)" "data_only B (unreferenced B dd p)"
  "data_only B (\<lambda>e. cur_of (obj_at B (egMeta e) b) b k = c)" "data_only B (\<lambda>_. True)"
  by (auto simp: data_only_def same_data_def clear_def found_def replaceable_def unreferenced_def dest: ids_cong)

lemma data_only_conj [intro]: "data_only B P \<Longrightarrow> data_only B Q \<Longrightarrow> data_only B (\<lambda>e. P e \<and> Q e)"
  unfolding data_only_def by blast

lemma clear_snapshot [simp]:
  "clear S (snapshot e) = clear S e" "clear S (e\<lparr>egMeta := m\<rparr>) = clear S e" "clear S (e\<lparr>egEvents := x\<rparr>) = clear S e"
  by (simp_all add: clear_def)

lemma isBlobID_utf8: "isBlobID x \<Longrightarrow> utf8_valid x"
proof -
  have "byte c < 128" if "is_hex c" for c
  proof -
    have "c \<le> CHR ''f''" using that by (auto simp: is_hex_def hex_val_def is_digit_def less_eq_char_def split: if_splits)
    then have "byte c \<le> byte CHR ''f''" by (simp add: byte_def less_eq_char_def)
    then show ?thesis by (simp add: byte_def)
  qed
  then show "isBlobID x \<Longrightarrow> utf8_valid x" by (intro utf8_ascii) (auto simp: isBlobID_def)
qed

lemma blob_ident_path: "isBlobID x \<Longrightarrow> ident_path dd (b, k, v, x) = Inr (blobPath dd b x)"
  by (auto simp: ident_path.simps isBlobID_def)

text \<open>A UUID and a random blob name as the code draws them.\<close>

definition env_ok :: "env \<Rightarrow> bool" where
  "env_ok ev \<longleftrightarrow> utf8_valid (evUUID ev) \<and> nul \<notin> set (evUUID ev) \<and> evUUID ev \<noteq> [] \<and> evUUID ev \<noteq> ''null'' \<and>
     16 \<le> length (evBlobRnd ev) \<and> 16 \<le> length (evPromoteRnd ev) \<and>
     newBlobID (evBlobRnd ev) \<noteq> newBlobID (evPromoteRnd ev) \<and> length (evIV ev) = 16"

definition prepared :: "int \<Rightarrow> codec \<Rightarrow> env \<Rightarrow> SSECParams option \<Rightarrow> string \<Rightarrow> string \<Rightarrow> string \<Rightarrow> reader \<Rightarrow> int \<Rightarrow> string
   \<Rightarrow> string \<times> string \<times> written \<Rightarrow> bool" where
  "prepared mx cd ev ssec dd b k rd size' ct q \<longleftrightarrow> IsValidBucketName b \<and> validateNewKey k = Inr () \<and>
     (\<exists>v. is_ok (objectPathWithVersion dd b k v)) \<and>
     fst q = newBlobID (evBlobRnd ev) \<and> fst (snd q) = blobPath dd b (newBlobID (evBlobRnd ev)) \<and>
     writeObjectData cd ev mx ssec rd size' ct = Inr (snd (snd q))"

text \<open>The strings a request carries into a record are valid UTF-8.\<close>

definition req_ok :: "SSECParams option \<Rightarrow> string \<Rightarrow> string \<Rightarrow> bool" where
  "req_ok ssec k ct \<longleftrightarrow> utf8_valid k \<and> utf8_valid ct \<and>
     (\<forall>p. ssec = Some p \<longrightarrow> utf8_valid (scAlgorithm p) \<and> utf8_valid (scKeyMD5 p) \<and> scAlgorithm p \<noteq> [])"

context bolt_laws
begin

lemma stored_trip:
  assumes v: "IsValidBucketName b" "nul \<notin> set k" and P: "data_only B P"
  shows "trip (\<lambda>e. inv B dd e \<and> P e) (storedRecord B b k v)
    (\<lambda>r e. inv B dd e \<and> P e \<and> found B b k v r e) (\<lambda>_ e. inv B dd e \<and> P e)"
  unfolding storedRecord_def
proof (rule trip_try_case [OF trip_read [OF reads_objects(1) [OF v(1)] P]])
  fix x
  show "trip (\<lambda>e. inv B dd e \<and> P e \<and> got B (\<lambda>m. GetObjectMeta B m b k v) (Inl x) e)
      (if x = ErrObjectMetaNotFound then retM None else failM x)
      (\<lambda>r e. inv B dd e \<and> P e \<and> found B b k v r e) (\<lambda>_ e. inv B dd e \<and> P e)"
    by (auto simp: trip_def retM_def failM_def found_def)
next
  fix i
  have "found B b k v (Some i) e" if "inv B dd e" "got B (\<lambda>m. GetObjectMeta B m b k v) (Inr i) e"
    "\<not> oiIsDeleteMarker i" "oiVersionID i = v" for e
    using got_ident [OF that(2) v that(3)] inv_disk [OF that(1)] that(4) by (auto simp: found_def in_slot_def)
  then show "trip (\<lambda>e. inv B dd e \<and> P e \<and> got B (\<lambda>m. GetObjectMeta B m b k v) (Inr i) e)
      (if oiIsDeleteMarker i \<or> oiVersionID i \<noteq> v then retM None else retM (Some i))
      (\<lambda>r e. inv B dd e \<and> P e \<and> found B b k v r e) (\<lambda>_ e. inv B dd e \<and> P e)"
    by (auto simp: trip_def retM_def found_def)
qed

lemma remove_file_trip:
  "trip (\<lambda>e. inv B dd e \<and> clear S e \<and> unreferenced B dd (Inr p) e) (removeObjectFile p)
     (\<lambda>_ e. inv B dd e \<and> clear S e) (\<lambda>_ e. inv B dd e \<and> clear S e)"
  unfolding removeObjectFile_def
  by (rule trip_files) (auto simp: clear_def unreferenced_def intro: inv_files disk_rm dest: inv_disk)

text \<open>Promotion. The path of the new blob is not one of the clear ones.\<close>

lemma promote_raw_trip:
  assumes v: "IsValidBucketName b" "nul \<notin> set k" and i: "oiVersionID i = []" "\<not> oiIsDeleteMarker i"
    and x: "isBlobID x" and p: "p = blobPath dd b x" and D: "data_only B D"
    and f: "\<And>e. D e \<Longrightarrow> egFiles e p \<noteq> None \<and> (\<forall>y\<in>ids B (egMeta e). \<not> in_slot b k [] y \<longrightarrow> ident_path dd y \<noteq> Inr p)"
  shows "trip (\<lambda>e. inv B dd e \<and> clear S e \<and> cur_of (obj_at B (egMeta e) b) b k = Some i \<and> D e)
     (metaM (\<lambda>m. PutObjectMetaRaw B m (i\<lparr>oiVersionID := ''null'', oiIsLatest := True, oiBlobID := x\<rparr>)))
     (\<lambda>_ e. inv B dd e \<and> clear S e \<and> (\<forall>s. s \<noteq> p \<longrightarrow> ident_path dd (ident_of i) = Inr s \<longrightarrow> unreferenced B dd (Inr s) e))
     (\<lambda>_ e. inv B dd e \<and> clear S e \<and> D e)"
proof (rule trip_meta)
  fix e r m
  assume e: "inv B dd e \<and> clear S e \<and> cur_of (obj_at B (egMeta e) b) b k = Some i \<and> D e"
    and u: "PutObjectMetaRaw B (egMeta e) (i\<lparr>oiVersionID := ''null'', oiIsLatest := True, oiBlobID := x\<rparr>) = (r, m)"
  have d: "disk_ok B dd (egMeta e, egFiles e)" "meta_ok B (egMeta e)" using inv_disk e by blast+
  have c: "cur_of (obj_at B (egMeta e) b) b k = Some i" using e by blast
  note U = promote_obj [OF u d(2) v c i(1) isBlobID_utf8 [OF x]]
  let ?e = "snapshot (e\<lparr>egMeta := m\<rparr>)"
  have old: "ident_of i \<in> ids B (egMeta e)" "in_slot b k [] (ident_of i)"
  proof -
    show "ident_of i \<in> ids B (egMeta e)" using ids_I [OF v(2) i(2)] c by blast
    have "rec_ok b k i" using key_wf_cur [OF meta_ok_key [OF d(2) v(2)] c] by blast
    then show "in_slot b k [] (ident_of i)" by (simp add: in_slot_def rec_ok_def)
  qed
  have fe: "egFiles e p \<noteq> None" "\<forall>y\<in>ids B (egMeta e). \<not> in_slot b k [] y \<longrightarrow> ident_path dd y \<noteq> Inr p"
    using f e by blast+
  show "(case r of Inl x \<Rightarrow> \<lambda>e. inv B dd e \<and> clear S e \<and> D e
      | Inr a \<Rightarrow> \<lambda>e. inv B dd e \<and> clear S e \<and> (\<forall>s. s \<noteq> p \<longrightarrow> ident_path dd (ident_of i) = Inr s \<longrightarrow> unreferenced B dd (Inr s) e)) ?e"
  proof (cases r)
    case (Inl y)
    then have "obj_at B m = obj_at B (egMeta e)" using U(2) by simp
    moreover from this have "inv B dd ?e" using inv_meta disk_view [OF d(1) U(1)] e by blast
    moreover have "D ?e"
    proof -
      have "same_data B e ?e" using calculation(1) by (simp add: same_data_def)
      with D e show ?thesis unfolding data_only_def by blast
    qed
    ultimately show ?thesis using Inl e by simp
  next
    case (Inr a)
    let ?n = "(b, k, ''null'', x)" and ?S = "{y \<in> ids B (egMeta e). \<not> in_slot b k [] y}"
    have s: "ids B m \<subseteq> insert ?n ?S" using U(3) Inr by auto
    have np: "ident_path dd ?n = Inr p" using blob_ident_path [OF x] p by simp
    have ok: "disk_ok B dd (m, egFiles e)"
      by (rule disk_add [OF d(1) U(1) s _ np]) (use fe in auto)
    have "unreferenced B dd (Inr s) ?e" if "s \<noteq> p" "ident_path dd (ident_of i) = Inr s" for s
      unfolding unreferenced_def
    proof
      fix y assume "y \<in> ids B (egMeta ?e)"
      with s have "y = ?n \<or> (y \<in> ids B (egMeta e) \<and> y \<noteq> ident_of i)" using old(2) by auto
      then show "ident_path dd y \<noteq> Inr s" using np that disk_inj [OF d(1) _ old(1), of y] by auto
    qed
    with Inr ok e show ?thesis by (auto intro: inv_meta)
  qed
qed

lemma legacy_put_trip:
  "trip (\<lambda>e. inv B dd e \<and> clear S e \<and> C e \<and> egFiles e p = None \<and> egFiles e src \<noteq> None)
     (filesM (\<lambda>fs. fs(p \<mapsto> c)))
     (\<lambda>_ e. inv B dd e \<and> clear S e \<and> C e \<and> egFiles e p \<noteq> None \<and> unreferenced B dd (Inr p) e \<and> src \<noteq> p)
     (\<lambda>_ _. False)"
  if "p \<notin> S" and C: "\<And>e fs. C (snapshot (e\<lparr>egFiles := fs\<rparr>)) = C e"
proof (rule trip_files)
  fix e assume e: "inv B dd e \<and> clear S e \<and> C e \<and> egFiles e p = None \<and> egFiles e src \<noteq> None"
  have d: "disk_ok B dd (egMeta e, egFiles e)" using inv_disk e by blast
  have "unreferenced B dd (Inr p) e" using fresh_path [OF d] e by (simp add: unreferenced_def)
  then show "inv B dd (snapshot (e\<lparr>egFiles := (egFiles e)(p \<mapsto> c)\<rparr>)) \<and> clear S (snapshot (e\<lparr>egFiles := (egFiles e)(p \<mapsto> c)\<rparr>)) \<and>
      C (snapshot (e\<lparr>egFiles := (egFiles e)(p \<mapsto> c)\<rparr>)) \<and> egFiles (snapshot (e\<lparr>egFiles := (egFiles e)(p \<mapsto> c)\<rparr>)) p \<noteq> None \<and>
      unreferenced B dd (Inr p) (snapshot (e\<lparr>egFiles := (egFiles e)(p \<mapsto> c)\<rparr>)) \<and> src \<noteq> p"
    using e that(1) inv_files [OF conjunct1 [OF e] disk_put [OF d]] unfolding C
    by (auto simp: clear_def unreferenced_def)
qed

lemma promote_file_trip:
  assumes v: "IsValidBucketName b" "nul \<notin> set k" and i: "oiVersionID i = []" "\<not> oiIsDeleteMarker i" "oiBlobID i = []"
    and r: "16 \<le> length (evPromoteRnd ev)" and S: "blobPath dd b (newBlobID (evPromoteRnd ev)) \<notin> S"
  shows "trip (\<lambda>e. inv B dd e \<and> clear S e \<and> cur_of (obj_at B (egMeta e) b) b k = Some i)
     (promoteLegacyFile B ev b k i) (\<lambda>_ e. inv B dd e \<and> clear S e) (\<lambda>_ e. inv B dd e \<and> clear S e)"
proof -
  let ?x = "newBlobID (evPromoteRnd ev)" and ?c = "\<lambda>e. cur_of (obj_at B (egMeta e) b) b k = Some i"
  let ?p = "blobPath dd b ?x"
  let ?I = "\<lambda>e. inv B dd e \<and> clear S e" and ?P = "\<lambda>e. inv B dd e \<and> clear S e \<and> cur_of (obj_at B (egMeta e) b) b k = Some i"
  let ?R = "\<lambda>src e. ?P e \<and> objectPathWithVersion dd b k [] = Inr src"
  have x: "isBlobID ?x" using newBlobID_is [OF r] .
  show ?thesis
    unfolding promoteLegacyFile_def
  proof (rule trip_op [where R = ?R])
    show "trip ?P (\<lambda>e. liftM (objectPathWithVersion (egDataDir e) b k []) e) ?R (\<lambda>_. ?I)"
      by (cases "objectPathWithVersion dd b k []") (auto simp: trip_def liftM_def inv_def)
    fix src
    show "trip (?R src) (opM (\<lambda>e. let base = JoinPath [egDataDir e, ''buckets''] in
          (case Rel base src of
             None \<Rightarrow> failM (ErrText ''invalid legacy object path'') e
           | Some rel \<Rightarrow> if \<not> IsLocal rel then failM (ErrText ''invalid legacy object path'') e else retM () e)) (\<lambda>_.
    opM (\<lambda>e. if evFails ev COpen then failM (ErrText ''open'') e
          else (case egFiles e src of None \<Rightarrow> failM (ErrText ''file does not exist'') e | Some c \<Rightarrow> retM c e)) (\<lambda>input.
    opM (\<lambda>e. liftM (newBlob (egDataDir e) b (evPromoteRnd ev) (\<not> evFails ev CMkdir)) e) (\<lambda>(j, path).
    opM (\<lambda>e. if egFiles e path \<noteq> None then failM (ErrText ''file exists'') e else retM () e) (\<lambda>_.
    opM (tryM (
      opM (filesM (\<lambda>fs. fs(path \<mapsto> input))) (\<lambda>_.
      opM (sysM ev CCopy ''copy'') (\<lambda>_.
      opM (sysM ev CSyncParents ''sync'') (\<lambda>_.
      metaM (\<lambda>m. PutObjectMetaRaw B m (i\<lparr>oiVersionID := ''null'', oiIsLatest := True, oiBlobID := j\<rparr>))))))) (\<lambda>r.
    case r of
      Inl x \<Rightarrow> opM (removeObjectFile path) (\<lambda>_. failM x)
    | Inr _ \<Rightarrow> removeObjectFile src)))))) (\<lambda>_. ?I) (\<lambda>_. ?I)"
    proof (rule trip_op [where R = "\<lambda>_. ?R src"], goal_cases)
      case 1
      then show ?case by (auto simp: trip_def Let_def retM_def failM_def split: option.split)
    next
      case (2 a)
      show ?case
      proof (rule trip_op [where R = "\<lambda>_ e. ?R src e \<and> egFiles e src \<noteq> None"], goal_cases)
        case 1
        then show ?case by (auto simp: trip_def retM_def failM_def split: option.split)
      next
        case (2 input)
        show ?case
        proof (rule trip_op [where R = "\<lambda>q e. ?R src e \<and> egFiles e src \<noteq> None \<and> q = (?x, ?p)"], goal_cases)
          case 1
          then show ?case by (auto simp: trip_def liftM_def newBlob_def bindE_def Let_def inv_def split: sum.split)
        next
          case (2 q)
          show ?case
          proof (cases "q = (?x, ?p)")
            case False
            then show ?thesis by (auto simp: trip_def)
          next
            case True
            let ?o = "objectPathWithVersion dd b k [] = Inr src \<and> src \<noteq> ?p"
            let ?D = "\<lambda>e. egFiles e ?p \<noteq> None \<and> unreferenced B dd (Inr ?p) e"
            let ?A = "\<lambda>e. ?P e \<and> ?D e"
            have D: "data_only B ?D" by (auto simp: data_only_def same_data_def unreferenced_def dest: ids_cong)
            have un: "egFiles e ?p \<noteq> None \<and> (\<forall>y\<in>ids B (egMeta e). \<not> in_slot b k [] y \<longrightarrow> ident_path dd y \<noteq> Inr ?p)" if "?D e" for e
              using that by (auto simp: unreferenced_def)
            have put: "trip (\<lambda>e. ?R src e \<and> egFiles e src \<noteq> None \<and> egFiles e ?p = None) (filesM (\<lambda>fs. fs(?p \<mapsto> input)))
                (\<lambda>_ e. ?A e \<and> ?o) (\<lambda>_ e. ?I e \<and> unreferenced B dd (Inr ?p) e)"
              by (rule trip_conseq [OF legacy_put_trip [OF S, of "\<lambda>e. cur_of (obj_at B (egMeta e) b) b k = Some i
                      \<and> objectPathWithVersion dd b k [] = Inr src" dd src input]]) auto
            have raw: "trip (\<lambda>e. ?A e \<and> ?o)
                (metaM (\<lambda>m. PutObjectMetaRaw B m (i\<lparr>oiVersionID := ''null'', oiIsLatest := True, oiBlobID := ?x\<rparr>)))
                (\<lambda>_ e. ?I e \<and> unreferenced B dd (Inr src) e) (\<lambda>_ e. ?I e \<and> unreferenced B dd (Inr ?p) e)"
            proof (rule trip_pure [where c = "?o \<and> ident_of i = (b, k, [], [])"], goal_cases)
              case (1 e)
              then have "rec_ok b k i"
                using key_wf_cur [OF meta_ok_key [OF _ v(2)]] inv_disk by blast
              with 1 i show ?case by (simp add: ident_of_def rec_ok_def)
            next
              case 2
              then have o: "src \<noteq> ?p" "ident_path dd (ident_of i) = Inr src" by (auto simp: ident_path.simps)
              show ?case
                by (rule trip_conseq [OF promote_raw_trip [OF v i(1,2) x refl D un]]) (use o in auto)
            qed
            have sys: "trip (\<lambda>e. ?A e \<and> ?o) (sysM ev c msg) (\<lambda>_ e. ?A e \<and> ?o) (\<lambda>_ e. ?I e \<and> unreferenced B dd (Inr ?p) e)" for c msg
              by (rule trip_sys) auto
            have chk: "trip (\<lambda>e. ?R src e \<and> egFiles e src \<noteq> None \<and> q = (?x, ?p))
                (\<lambda>e. if egFiles e ?p \<noteq> None then failM (ErrText ''file exists'') e else retM () e)
                (\<lambda>_ e. ?R src e \<and> egFiles e src \<noteq> None \<and> egFiles e ?p = None) (\<lambda>_. ?I)"
              by (auto simp: trip_def retM_def failM_def)
            have undo: "trip (\<lambda>e. ?I e \<and> unreferenced B dd (Inr ?p) e) (opM (removeObjectFile ?p) (\<lambda>_. failM y)) (\<lambda>_. ?I) (\<lambda>_. ?I)" for y
              by (rule trip_pre [OF _ trip_op [OF remove_file_trip trip_fail]]) auto
            have fin: "trip (\<lambda>e. ?I e \<and> unreferenced B dd (Inr src) e) (removeObjectFile src) (\<lambda>_. ?I) (\<lambda>_. ?I)"
              by (rule trip_conseq [OF remove_file_trip]) auto
            show ?thesis
              unfolding True prod.case
              by (rule trip_op [OF chk [unfolded True]], rule trip_try_case [OF trip_op [OF put trip_op [OF sys trip_op [OF sys raw]]]])
                 (rule fin undo)+
          qed
        qed
      qed
    qed
  qed
qed

lemma promote_blob_trip:
  assumes v: "IsValidBucketName b" "nul \<notin> set k" and i: "oiVersionID i = []" "\<not> oiIsDeleteMarker i" "oiBlobID i \<noteq> []"
  shows "trip (\<lambda>e. inv B dd e \<and> clear S e \<and> cur_of (obj_at B (egMeta e) b) b k = Some i)
     (metaM (\<lambda>m. PutObjectMetaRaw B m (i\<lparr>oiVersionID := ''null'', oiIsLatest := True\<rparr>)))
     (\<lambda>_ e. inv B dd e \<and> clear S e) (\<lambda>_ e. inv B dd e \<and> clear S e)"
proof -
  let ?x = "oiBlobID i" and ?p = "blobPath dd b (oiBlobID i)"
  let ?D = "\<lambda>e. egFiles e ?p \<noteq> None \<and> (\<forall>y\<in>ids B (egMeta e). \<not> in_slot b k [] y \<longrightarrow> ident_path dd y \<noteq> Inr ?p)"
  have key: "isBlobID ?x \<and> ?D e" if e: "inv B dd e" and c: "cur_of (obj_at B (egMeta e) b) b k = Some i" for e
  proof -
    have d: "disk_ok B dd (egMeta e, egFiles e)" and m: "meta_ok B (egMeta e)" using inv_disk [OF e] by blast+
    have o: "oiBucket i = b" "oiKey i = k"
      using key_wf_cur [OF meta_ok_key [OF m v(2)] c] by (auto simp: rec_ok_def)
    have n: "ident_of i \<in> ids B (egMeta e)" using ids_I [OF v(2) i(2)] c by blast
    with d obtain q where q: "ident_path dd (ident_of i) = Inr q" "egFiles e q \<noteq> None" by (auto simp: disk_ok_def)
    have x: "isBlobID ?x" using q(1) i(3) by (auto simp: ident_of_def ident_path.simps split: if_splits)
    have q': "ident_path dd (ident_of i) = Inr ?p" using blob_ident_path [OF x] o by (simp add: ident_of_def)
    have "ident_path dd y \<noteq> Inr ?p" if "y \<in> ids B (egMeta e)" "\<not> in_slot b k [] y" for y
    proof
      assume "ident_path dd y = Inr ?p"
      with q' disk_inj [OF d that(1) n] have "y = ident_of i" by simp
      with that(2) o show False by (simp add: in_slot_def)
    qed
    with x q q' show ?thesis by auto
  qed
  have D: "data_only B ?D" by (auto simp: data_only_def same_data_def dest: ids_cong)
  have e: "i\<lparr>oiVersionID := ''null'', oiIsLatest := True, oiBlobID := ?x\<rparr> = i\<lparr>oiVersionID := ''null'', oiIsLatest := True\<rparr>" by simp
  show ?thesis
  proof (rule trip_pure [where c = "isBlobID ?x"], goal_cases)
    case (1 e)
    with key show ?case by blast
  next
    case 2
    show ?case
      by (rule trip_conseq [OF promote_raw_trip [OF v i(1,2) 2 refl D, unfolded e]]) (use key in auto)
  qed
qed

lemma promote_trip:
  assumes v: "IsValidBucketName b" "nul \<notin> set k"
    and r: "16 \<le> length (evPromoteRnd ev)" and S: "blobPath dd b (newBlobID (evPromoteRnd ev)) \<notin> S"
  shows "trip (\<lambda>e. inv B dd e \<and> clear S e) (promoteLegacyNullVersion B ev b k)
     (\<lambda>_ e. inv B dd e \<and> clear S e) (\<lambda>_ e. inv B dd e \<and> clear S e)"
  unfolding promoteLegacyNullVersion_def
proof (rule trip_try_case [OF trip_read [OF reads_objects(1) [OF v(1)]]], goal_cases)
  case 1
  then show ?case by (rule data_only_simps)
next
  case (2 i)
  have c: "cur_of (obj_at B (egMeta e) b) b k = Some i" if "got B (\<lambda>m. GetObjectMeta B m b k []) (Inr i) e" for e
    using got_meta [OF that v] by simp
  have "trip (\<lambda>e. inv B dd e \<and> clear S e \<and> cur_of (obj_at B (egMeta e) b) b k = Some i)
      (if oiVersionID i \<noteq> [] \<or> oiIsDeleteMarker i then retM ()
       else if oiBlobID i \<noteq> [] then metaM (\<lambda>m. PutObjectMetaRaw B m (i\<lparr>oiVersionID := ''null'', oiIsLatest := True\<rparr>))
       else promoteLegacyFile B ev b k i) (\<lambda>_ e. inv B dd e \<and> clear S e) (\<lambda>_ e. inv B dd e \<and> clear S e)"
    using promote_blob_trip [OF v, of i dd S] promote_file_trip [OF v _ _ _ r S, of i]
    by (auto simp: trip_def [of _ "retM ()"] retM_def)
  then show ?case by (rule trip_pre [rotated]) (use c in auto)
next
  case (3 x)
  then show ?case by (auto simp: trip_def retM_def failM_def)
qed

subsection \<open>Removing data\<close>

lemma remove_data_trip:
  assumes G: "stable B dd G"
  shows "trip (\<lambda>e. inv B dd e \<and> G e \<and> dead B dd (i # os) e) (removeData (Some i))
     (\<lambda>_ e. inv B dd e \<and> G e \<and> dead B dd os e) E"
proof (cases "oiIsDeleteMarker i")
  case True
  then show ?thesis by (auto simp: removeData_def trip_def retM_def dead_def)
next
  case False
  show ?thesis
    unfolding removeData_def option.case if_not_P [OF False] trip_def
  proof (intro allI impI)
    fix e assume e: "inv B dd e \<and> G e \<and> dead B dd (i # os) e"
    then have dd: "egDataDir e = dd" by (simp add: inv_def)
    show "case (case dataPath (egDataDir e) i of Inl x \<Rightarrow> retM () e | Inr p \<Rightarrow> removeObjectFile p e) of
        (Inl x, e') \<Rightarrow> E x e' | (Inr a, e') \<Rightarrow> inv B dd e' \<and> G e' \<and> dead B dd os e'"
    proof (cases "ident_path dd (ident_of i)")
      case (Inl x)
      with e dd show ?thesis by (simp add: dataPath_ident retM_def dead_def)
    next
      case (Inr p)
      let ?e = "snapshot (e\<lparr>egFiles := (egFiles e)(p := None)\<rparr>)"
      have u: "unreferenced B dd (Inr p) e" using e False Inr by (simp add: dead_def)
      have "inv B dd ?e" using inv_files [OF conjunct1 [OF e]] disk_rm inv_disk [OF conjunct1 [OF e]] u
        unfolding unreferenced_def by blast
      moreover have "G ?e" using G e u unfolding stable_def by blast
      moreover have "dead B dd os ?e" using e by (simp add: dead_def unreferenced_def)
      ultimately show ?thesis using dd Inr by (simp add: dataPath_ident removeObjectFile_def filesM_def)
    qed
  qed
qed

lemma remove_opt_trip:
  assumes G: "stable B dd G"
  shows "trip (\<lambda>e. inv B dd e \<and> G e \<and> dead B dd (case r of None \<Rightarrow> os | Some i \<Rightarrow> i # os) e) (removeData r)
     (\<lambda>_ e. inv B dd e \<and> G e \<and> dead B dd os e) E"
  using remove_data_trip [OF G] by (cases r) (auto simp: removeData_def trip_def [of _ "retM ()"] retM_def)

lemma remove_all_trip:
  assumes G: "stable B dd G"
  shows "trip (\<lambda>e. inv B dd e \<and> G e \<and> dead B dd os e) (removeAllData os) (\<lambda>_ e. inv B dd e \<and> G e) E"
proof (induction os)
  case Nil
  then show ?case by (simp add: trip_def retM_def)
next
  case (Cons i os)
  show ?case unfolding removeAllData.simps
    by (rule trip_op [OF remove_data_trip [OF G] Cons])
qed

subsection \<open>Committing a version\<close>

lemma prepare_trip:
  assumes v: "IsValidBucketName b" "nul \<notin> set k" and r: "16 \<le> length (evPromoteRnd ev)"
    and S: "blobPath dd b (newBlobID (evPromoteRnd ev)) \<notin> S" and P: "data_only B P"
  shows "trip (\<lambda>e. inv B dd e \<and> clear S e \<and> (w = [] \<longrightarrow> P e)) (prepareKeyForWrite B ev b k w)
     (\<lambda>r e. inv B dd e \<and> clear S e \<and> (w = [] \<longrightarrow> P e) \<and> found B b k w r e) (\<lambda>_. inv B dd)"
proof (cases "w = []")
  case True
  show ?thesis unfolding prepareKeyForWrite_def if_P [OF True] using True
    by (intro trip_conseq [OF stored_trip [OF v data_only_conj [OF _ P]]]) auto
next
  case False
  have p: "trip (\<lambda>e. inv B dd e \<and> clear S e) (promoteLegacyNullVersion B ev b k)
     (\<lambda>_ e. inv B dd e \<and> clear S e) (\<lambda>_. inv B dd)"
    by (rule trip_conseq [OF promote_trip [OF v r S]]) auto
  have q: "trip (\<lambda>e. inv B dd e \<and> clear S e) (if w = ''null'' then storedRecord B b k ''null'' else retM None)
     (\<lambda>r e. inv B dd e \<and> clear S e \<and> found B b k w r e) (\<lambda>_. inv B dd)"
  proof (cases "w = ''null''")
    case True
    show ?thesis unfolding if_P [OF True] unfolding True
      by (rule trip_conseq [OF stored_trip [OF v, of "clear S"]]) auto
  qed (simp add: trip_def retM_def found_def)
  show ?thesis unfolding prepareKeyForWrite_def if_not_P [OF False]
    by (rule trip_conseq [OF trip_op [OF p q]]) (use False in auto)
qed

text \<open>Once a slot's records are replaced in the metadata, nothing refers to their data.\<close>

lemma replaced_dead:
  assumes d: "disk_ok B dd (egMeta e, egFiles e)" and r: "replaceable B b k v os e"
    and s: "ids B (egMeta e') \<subseteq> N \<union> {x \<in> ids B (egMeta e). \<not> in_slot b k v x}"
    and N: "\<And>x y. x \<in> N \<Longrightarrow> y \<in> ids B (egMeta e) \<Longrightarrow> ident_path dd x \<noteq> ident_path dd y"
  shows "dead B dd os e'"
  unfolding dead_def unreferenced_def
proof (intro ballI impI)
  fix i x assume i: "i \<in> set os" "\<not> oiIsDeleteMarker i" and x: "x \<in> ids B (egMeta e')"
  have o: "ident_of i \<in> ids B (egMeta e)" "in_slot b k v (ident_of i)" using r i by (auto simp: replaceable_def found_def)
  show "ident_path dd x \<noteq> ident_path dd (ident_of i)"
  proof (cases "x \<in> N")
    case True
    with N o show ?thesis by blast
  next
    case False
    with s x have "x \<in> ids B (egMeta e)" "\<not> in_slot b k v x" by auto
    with disk_inj [OF d this(1) o(1)] o(2) show ?thesis by auto
  qed
qed

lemma put_meta_trip:
  assumes v: "IsValidBucketName b" "nul \<notin> set k" and i: "rec_ok b k info" "\<not> oiIsDeleteMarker info"
    and p: "ident_path dd (ident_of info) = Inr p"
  shows "trip (\<lambda>e. inv B dd e \<and> egFiles e p = Some c \<and> unreferenced B dd (Inr p) e \<and> replaceable B b k (oiVersionID info) os e)
     (metaM (\<lambda>m. PutObjectMeta B m info))
     (\<lambda>_ e. inv B dd e \<and> (content B dd (ident_of info) c e \<and>
        cur_of (obj_at B (egMeta e) b) b k = Some (info\<lparr>oiIsLatest := True\<rparr>) \<and> opened (egMeta e) b) \<and> dead B dd os e)
     (\<lambda>_ e. inv B dd e \<and> unreferenced B dd (Inr p) e)"
proof (rule trip_meta)
  fix e r m
  assume e: "inv B dd e \<and> egFiles e p = Some c \<and> unreferenced B dd (Inr p) e \<and> replaceable B b k (oiVersionID info) os e"
    and u: "PutObjectMeta B (egMeta e) info = (r, m)"
  have d: "disk_ok B dd (egMeta e, egFiles e)" "meta_ok B (egMeta e)" using inv_disk e by blast+
  note U = PutObjectMeta_obj [OF u d(2) v(1) i(1) v(2)]
  let ?e = "snapshot (e\<lparr>egMeta := m\<rparr>)"
  show "(case r of Inl x \<Rightarrow> \<lambda>e. inv B dd e \<and> unreferenced B dd (Inr p) e
      | Inr a \<Rightarrow> \<lambda>e. inv B dd e \<and> (content B dd (ident_of info) c e \<and>
        cur_of (obj_at B (egMeta e) b) b k = Some (info\<lparr>oiIsLatest := True\<rparr>) \<and> opened (egMeta e) b) \<and> dead B dd os e) ?e"
  proof (cases r)
    case (Inl x)
    then have o: "obj_at B m = obj_at B (egMeta e)" using U(2) by simp
    then have "inv B dd ?e" using inv_meta disk_view [OF d(1) U(1)] e by blast
    with Inl o e show ?thesis by (simp add: unreferenced_def ids_cong [OF o])
  next
    case (Inr a)
    let ?S = "{x \<in> ids B (egMeta e). \<not> in_slot b k (oiVersionID info) x}"
    have s: "ids B m \<subseteq> {ident_of info} \<union> ?S" using U(3) Inr i(2) by simp
    have u: "\<forall>y\<in>ids B (egMeta e). ident_path dd y \<noteq> Inr p" using e by (simp add: unreferenced_def)
    have ok: "disk_ok B dd (m, egFiles e)"
      by (rule disk_add [OF d(1) U(1) s [unfolded insert_is_Un [symmetric]] _ p]) (use e u in auto)
    then have i1: "inv B dd ?e" using inv_meta e by blast
    have c: "cur_of (obj_at B m b) b k = Some (info\<lparr>oiIsLatest := True\<rparr>)"
      using U(4) Inr by (simp add: spec_put_def Let_def)
    have "ident_of (info\<lparr>oiIsLatest := True\<rparr>) \<in> ids B m" by (rule ids_I [OF v(2)]) (use c i(2) in auto)
    then have ct: "content B dd (ident_of info) c ?e" using p e by (simp add: content_def)
    have "dead B dd os ?e"
      by (rule replaced_dead [OF d(1), where N = "{ident_of info}"]) (use e s u p in auto)
    with Inr i1 c ct U(5) show ?thesis by simp
  qed
qed

lemma publish_file_trip:
  "trip (\<lambda>e. inv B dd e \<and> clear {p} e \<and> replaceable B b k v os e) (filesM (\<lambda>fs. fs(p \<mapsto> c)))
     (\<lambda>_ e. inv B dd e \<and> egFiles e p = Some c \<and> unreferenced B dd (Inr p) e \<and> replaceable B b k v os e) E"
proof (rule trip_files)
  fix e assume e: "inv B dd e \<and> clear {p} e \<and> replaceable B b k v os e"
  then have d: "disk_ok B dd (egMeta e, egFiles e)" using inv_disk by blast
  from fresh_path [OF d] e have u: "unreferenced B dd (Inr p) e" by (simp add: unreferenced_def clear_def)
  with e inv_files [OF conjunct1 [OF e] disk_put [OF d]]
  show "inv B dd (snapshot (e\<lparr>egFiles := (egFiles e)(p \<mapsto> c)\<rparr>)) \<and>
      egFiles (snapshot (e\<lparr>egFiles := (egFiles e)(p \<mapsto> c)\<rparr>)) p = Some c \<and>
      unreferenced B dd (Inr p) (snapshot (e\<lparr>egFiles := (egFiles e)(p \<mapsto> c)\<rparr>)) \<and>
      replaceable B b k v os (snapshot (e\<lparr>egFiles := (egFiles e)(p \<mapsto> c)\<rparr>))"
    by (simp add: unreferenced_def replaceable_def found_def)
qed

lemma versions_trip:
  assumes v: "IsValidBucketName b" "nul \<notin> set k"
  shows "trip (\<lambda>e. inv B dd e \<and> clear S e) (metaM (\<lambda>m. GetObjectVersions B m b k))
     (\<lambda>os e. inv B dd e \<and> clear S e \<and> replaceable B b k [] os e) (\<lambda>_. inv B dd)"
proof -
  have f: "replaceable B b k [] os e" if "inv B dd e" "got B (\<lambda>m. GetObjectVersions B m b k) (Inr os) e" for os e
    using got_versions [OF that(2) v] inv_disk [OF that(1)] by (auto simp: replaceable_def found_def)
  show ?thesis
    by (rule trip_conseq [OF trip_read [OF reads_objects(2) [OF v(1)] data_only_simps(1)]]) (use f in auto)
qed

lemma commit_trip:
  assumes v: "IsValidBucketName b" "nul \<notin> set k" and r: "16 \<le> length (evPromoteRnd ev)"
    and i: "rec_ok b k (info\<lparr>oiBlobID := x\<rparr>)" "\<not> oiIsDeleteMarker info" and x: "isBlobID x"
    and p: "p = blobPath dd b x" "p \<noteq> blobPath dd b (newBlobID (evPromoteRnd ev))"
  shows "trip (\<lambda>e. inv B dd e \<and> clear {p} e) (commitObject B ev tmp x p info)
     (\<lambda>info' e. inv B dd e \<and> info' = info\<lparr>oiBlobID := x\<rparr> \<and> content B dd (ident_of info') tmp e \<and>
        cur_of (obj_at B (egMeta e) b) b k = Some (info'\<lparr>oiIsLatest := True\<rparr>) \<and> opened (egMeta e) b) (\<lambda>_. inv B dd)"
proof -
  let ?i = "info\<lparr>oiBlobID := x\<rparr>" and ?w = "oiVersionID info"
  have bk: "oiBucket info = b" "oiKey info = k" using i(1) by (auto simp: rec_ok_def)
  have w: "oiVersionID ?i = ?w" by simp
  have ip: "ident_path dd (ident_of ?i) = Inr p" using blob_ident_path [OF x] p(1) by (simp add: ident_of_def bk)
  have np: "blobPath dd b (newBlobID (evPromoteRnd ev)) \<notin> {p}" using p(2) by simp
  let ?os = "\<lambda>R ob. case R of None \<Rightarrow> ob | Some i \<Rightarrow> i # ob"
  let ?Q = "\<lambda>info' e. inv B dd e \<and> info' = ?i \<and> content B dd (ident_of info') tmp e \<and>
        cur_of (obj_at B (egMeta e) b) b k = Some (info'\<lparr>oiIsLatest := True\<rparr>) \<and> opened (egMeta e) b"
  have s1: "trip (\<lambda>e. inv B dd e \<and> clear {p} e)
      (if ?w = [] then metaM (\<lambda>m. GetObjectVersions B m b k) else retM [])
      (\<lambda>ob e. inv B dd e \<and> clear {p} e \<and> (?w = [] \<longrightarrow> replaceable B b k [] ob e) \<and> (?w \<noteq> [] \<longrightarrow> ob = [])) (\<lambda>_. inv B dd)"
  proof (cases "?w = []")
    case True
    then show ?thesis unfolding if_P [OF True] by (intro trip_conseq [OF versions_trip [OF v]]) auto
  next
    case False
    then show ?thesis by (simp add: trip_def retM_def)
  qed
  have s2: "trip (\<lambda>e. inv B dd e \<and> clear {p} e \<and> (?w = [] \<longrightarrow> replaceable B b k [] ob e) \<and> (?w \<noteq> [] \<longrightarrow> ob = []))
      (prepareKeyForWrite B ev b k ?w)
      (\<lambda>R e. inv B dd e \<and> clear {p} e \<and> replaceable B b k ?w (?os R ob) e) (\<lambda>_. inv B dd)" for ob
  proof (rule trip_pure [where c = "?w \<noteq> [] \<longrightarrow> ob = []"], blast)
    assume "?w \<noteq> [] \<longrightarrow> ob = []"
    then show ?thesis
      by (intro trip_conseq [OF prepare_trip [OF v r np, of "replaceable B b k [] ob" ?w]])
        (auto simp: replaceable_def split: option.split)
  qed
  have s3: "trip (\<lambda>e. inv B dd e \<and> clear {p} e \<and> replaceable B b k ?w (?os R ob) e) (sysM ev CRename msg)
      (\<lambda>_ e. inv B dd e \<and> clear {p} e \<and> replaceable B b k ?w (?os R ob) e) (\<lambda>_. inv B dd)" for R ob msg
    by (rule trip_sys) auto
  have s5: "trip (\<lambda>e. inv B dd e \<and> egFiles e p = Some tmp \<and> unreferenced B dd (Inr p) e \<and> replaceable B b k ?w (?os R ob) e)
      (sysM ev CSyncParents msg)
      (\<lambda>_ e. inv B dd e \<and> egFiles e p = Some tmp \<and> unreferenced B dd (Inr p) e \<and> replaceable B b k ?w (?os R ob) e)
      (\<lambda>_. inv B dd)" for R ob msg
    by (rule trip_sys) auto
  have m: "\<not> oiIsDeleteMarker ?i" using i(2) by simp
  note s6 = put_meta_trip [OF v i(1) m ip, unfolded w]
  let ?G = "\<lambda>e. content B dd (ident_of ?i) tmp e \<and> cur_of (obj_at B (egMeta e) b) b k = Some (?i\<lparr>oiIsLatest := True\<rparr>)
      \<and> opened (egMeta e) b"
  have G: "stable B dd ?G" by (intro stable_conj stable_simps)
  have ok: "trip (\<lambda>e. inv B dd e \<and> ?G e \<and> dead B dd (?os R ob) e)
      (opM (removeData R) (\<lambda>_. opM (removeAllData ob) (\<lambda>_. retM ?i))) ?Q (\<lambda>_. inv B dd)" for R ob
    by (rule trip_op [OF remove_opt_trip [OF G] trip_op [OF remove_all_trip [OF G]]]) (auto simp: trip_def retM_def)
  have rm: "trip (\<lambda>e. inv B dd e \<and> unreferenced B dd (Inr p) e) (removeObjectFile p) (\<lambda>_. inv B dd) (\<lambda>_. inv B dd)"
    by (rule trip_conseq [OF remove_file_trip [where S = "{}"]]) (auto simp: clear_def)
  have undo: "trip (\<lambda>e. inv B dd e \<and> unreferenced B dd (Inr p) e) (opM (removeObjectFile p) (\<lambda>_. failM y)) ?Q (\<lambda>_. inv B dd)" for y
    by (rule trip_op [OF rm trip_fail])
  show ?thesis
    unfolding commitObject_def bk Let_def
    by (rule trip_op [OF s1 trip_op [OF s2 trip_op [OF s3 trip_op [OF publish_file_trip trip_op [OF s5
          trip_try_case [OF s6 ok undo]]]]]])
qed

subsection \<open>Deleting\<close>

lemma delete_meta_trip:
  assumes v: "IsValidBucketName b" "nul \<notin> set k"
  shows "trip (\<lambda>e. inv B dd e \<and> replaceable B b k w os e) (metaM (\<lambda>m. DeleteObjectMeta B m b k w))
     (\<lambda>_ e. inv B dd e \<and> (w = [] \<longrightarrow> cur_of (obj_at B (egMeta e) b) b k = None) \<and> dead B dd os e) (\<lambda>_. inv B dd)"
proof (rule trip_meta)
  fix e r m
  assume e: "inv B dd e \<and> replaceable B b k w os e" and u: "DeleteObjectMeta B (egMeta e) b k w = (r, m)"
  have d: "disk_ok B dd (egMeta e, egFiles e)" "meta_ok B (egMeta e)" using inv_disk e by blast+
  note U = DeleteObjectMeta_obj [OF u d(2) v]
  let ?e = "snapshot (e\<lparr>egMeta := m\<rparr>)"
  show "(case r of Inl x \<Rightarrow> inv B dd
      | Inr a \<Rightarrow> \<lambda>e. inv B dd e \<and> (w = [] \<longrightarrow> cur_of (obj_at B (egMeta e) b) b k = None) \<and> dead B dd os e) ?e"
  proof (cases r)
    case (Inl x)
    then have "obj_at B m = obj_at B (egMeta e)" using U(2) by simp
    then have "inv B dd ?e" using inv_meta disk_view [OF d(1) U(1)] e by blast
    with Inl show ?thesis by simp
  next
    case (Inr a)
    have s: "ids B m \<subseteq> {x \<in> ids B (egMeta e). \<not> in_slot b k w x}" using U(3) Inr by simp
    then have "disk_ok B dd (m, egFiles e)" by (intro disk_shrink [OF d(1) U(1)]) auto
    then have "inv B dd ?e" using inv_meta e by blast
    moreover have "dead B dd os ?e" by (rule replaced_dead [OF d(1), where N = "{}"]) (use e s in auto)
    ultimately show ?thesis using Inr U(4) by simp
  qed
qed

lemma marker_trip:
  assumes v: "IsValidBucketName b" "nul \<notin> set k" and i: "rec_ok b k info" "oiIsDeleteMarker info"
  shows "trip (\<lambda>e. inv B dd e \<and> replaceable B b k (oiVersionID info) os e) (metaM (\<lambda>m. PutObjectMeta B m info))
     (\<lambda>_ e. inv B dd e \<and> cur_of (obj_at B (egMeta e) b) b k = Some (info\<lparr>oiIsLatest := True\<rparr>) \<and> dead B dd os e)
     (\<lambda>_. inv B dd)"
proof (rule trip_meta)
  fix e r m
  assume e: "inv B dd e \<and> replaceable B b k (oiVersionID info) os e" and u: "PutObjectMeta B (egMeta e) info = (r, m)"
  have d: "disk_ok B dd (egMeta e, egFiles e)" "meta_ok B (egMeta e)" using inv_disk e by blast+
  note U = PutObjectMeta_obj [OF u d(2) v(1) i(1) v(2)]
  let ?e = "snapshot (e\<lparr>egMeta := m\<rparr>)"
  show "(case r of Inl x \<Rightarrow> inv B dd
      | Inr a \<Rightarrow> \<lambda>e. inv B dd e \<and> cur_of (obj_at B (egMeta e) b) b k = Some (info\<lparr>oiIsLatest := True\<rparr>) \<and> dead B dd os e) ?e"
  proof (cases r)
    case (Inl x)
    then have "obj_at B m = obj_at B (egMeta e)" using U(2) by simp
    then have "inv B dd ?e" using inv_meta disk_view [OF d(1) U(1)] e by blast
    with Inl show ?thesis by simp
  next
    case (Inr a)
    have s: "ids B m \<subseteq> {x \<in> ids B (egMeta e). \<not> in_slot b k (oiVersionID info) x}" using U(3) Inr i(2) by simp
    then have "disk_ok B dd (m, egFiles e)" by (intro disk_shrink [OF d(1) U(1)]) auto
    then have "inv B dd ?e" using inv_meta e by blast
    moreover have "dead B dd os ?e" by (rule replaced_dead [OF d(1), where N = "{}"]) (use e s in auto)
    moreover have "cur_of (obj_at B m b) b k = Some (info\<lparr>oiIsLatest := True\<rparr>)"
      using U(4) Inr by (simp add: spec_put_def Let_def)
    ultimately show ?thesis using Inr by simp
  qed
qed

lemma inv_snapshot: "inv B dd e \<Longrightarrow> inv B dd (snapshot e)"
  by (simp add: inv_def)

lemma event_trip: "(\<And>e x. G (e\<lparr>egEvents := x\<rparr>) = G e) \<Longrightarrow>
   trip (\<lambda>e. inv B dd e \<and> G e) (eventM x) (\<lambda>_ e. inv B dd e \<and> G e) E"
  by (rule trip_event) simp

lemma mirror_version_trip:
  assumes "IsValidBucketName b"
  shows "trip (inv B dd) (mirrorAfterVersionDelete B b k l) (\<lambda>_. inv B dd) (\<lambda>_. inv B dd)"
proof (cases l)
  case True
  have ev: "trip (inv B dd) (eventM x) (\<lambda>_. inv B dd) (\<lambda>_. inv B dd)" for x by (rule trip_event) simp
  have rd: "trip (inv B dd) (metaM (\<lambda>m. GetObjectMeta B m b k [])) (\<lambda>_. inv B dd) (\<lambda>_. inv B dd)"
    by (rule trip_conseq [OF trip_read [OF reads_objects(1) [OF assms] data_only_simps(6)]]) auto
  show ?thesis unfolding mirrorAfterVersionDelete_def using True
    by (simp, intro trip_try_case [OF rd]) (auto simp: MirrorSync_def intro: ev)
qed (simp add: mirrorAfterVersionDelete_def trip_def retM_def)

lemma delete_unversioned_trip:
  assumes v: "IsValidBucketName b" "nul \<notin> set k"
  shows "trip (inv B dd) (deleteUnversioned B b k)
     (\<lambda>_ e. inv B dd e \<and> cur_of (obj_at B (egMeta e) b) b k = None) (\<lambda>_. inv B dd)"
proof -
  let ?N = "\<lambda>e. cur_of (obj_at B (egMeta e) b) b k = None"
  have absent: "?N e" if "got B (\<lambda>m. GetObjectMeta B m b k []) (Inl ErrObjectMetaNotFound) e" for e
    using that GetObjectMeta_absent [OF _ _ v] unfolding got_def by metis
  have rd: "trip (inv B dd) (metaM (\<lambda>m. GetObjectMeta B m b k []))
      (\<lambda>_. inv B dd) (\<lambda>x e. inv B dd e \<and> (x = ErrObjectMetaNotFound \<longrightarrow> ?N e))"
    by (rule trip_conseq [OF trip_read [OF reads_objects(1) [OF v(1)] data_only_simps(6)]]) (use absent in auto)
  have miss: "trip (\<lambda>e. inv B dd e \<and> (x = ErrObjectMetaNotFound \<longrightarrow> ?N e))
      (if x = ErrObjectMetaNotFound then retM (False, []) else failM x) (\<lambda>_ e. inv B dd e \<and> ?N e) (\<lambda>_. inv B dd)" for x
    by (auto simp: trip_def retM_def failM_def)
  have vs: "trip (inv B dd) (metaM (\<lambda>m. GetObjectVersions B m b k))
      (\<lambda>os e. inv B dd e \<and> replaceable B b k [] os e) (\<lambda>_. inv B dd)"
    by (rule trip_conseq [OF versions_trip [OF v, where S = "{}"]]) (auto simp: clear_def)
  have dl: "trip (\<lambda>e. inv B dd e \<and> replaceable B b k [] os e) (metaM (\<lambda>m. DeleteObjectMeta B m b k []))
      (\<lambda>_ e. inv B dd e \<and> ?N e \<and> dead B dd os e) (\<lambda>_. inv B dd)" for os
    by (rule trip_conseq [OF delete_meta_trip [OF v]]) auto
  have ev: "trip (\<lambda>e. inv B dd e \<and> ?N e) (eventM x) (\<lambda>_ e. inv B dd e \<and> ?N e) (\<lambda>_. inv B dd)" for x
    by (rule event_trip) simp
  have rt: "trip (\<lambda>e. inv B dd e \<and> ?N e) (retM (False, [])) (\<lambda>_ e. inv B dd e \<and> ?N e) (\<lambda>_. inv B dd)"
    by (simp add: trip_def retM_def)
  have G: "stable B dd ?N" by (rule stable_simps)
  show ?thesis
    unfolding deleteUnversioned_def triggerWebhook_def MirrorSync_def
    by (rule trip_try_case [OF rd trip_op [OF vs trip_op [OF dl trip_op [OF remove_all_trip [OF G]
          trip_op [OF ev trip_op [OF ev rt]]]]] miss])
qed

lemma markerInfo_ok: "IsValidBucketName b \<Longrightarrow> utf8_valid k \<Longrightarrow> utf8_valid w \<Longrightarrow> nul \<notin> set w \<Longrightarrow>
   rec_ok b k (markerInfo ev b k w)"
proof -
  assume b: "IsValidBucketName b" "utf8_valid k" "utf8_valid w" "nul \<notin> set w"
  have "byte c < 128" if "c \<in> set b" for c
  proof -
    have "c \<le> CHR ''z''" using IsValidBucketName_chars [OF b(1)] that
      by (auto simp: name_inner_def name_edge_def is_digit_def less_eq_char_def)
    then have "byte c \<le> byte CHR ''z''" by (simp add: byte_def less_eq_char_def)
    then show ?thesis by (simp add: byte_def)
  qed
  then have "utf8_valid b" by (intro utf8_ascii) simp
  with b show ?thesis by (simp add: rec_ok_def obj_utf8_def markerInfo_def emptyInfo_def)
qed

lemma versionFor_ok: "env_ok ev \<Longrightarrow> utf8_valid (versionFor ev s) \<and> nul \<notin> set (versionFor ev s)"
  using utf8_null by (auto simp: versionFor_def env_ok_def simp del: utf8_valid.simps(2))

lemma delete_marker_trip:
  assumes v: "IsValidBucketName b" "nul \<notin> set k" and u: "utf8_valid k" and ev: "env_ok ev"
    and s: "status = ''Enabled'' \<or> status = ''Suspended''"
  shows "trip (inv B dd) (createDeleteMarker B ev b k status)
     (\<lambda>r e. inv B dd e \<and> r = (True, versionFor ev status) \<and>
        cur_of (obj_at B (egMeta e) b) b k = Some ((markerInfo ev b k (versionFor ev status))\<lparr>oiIsLatest := True\<rparr>))
     (\<lambda>_. inv B dd)"
proof -
  let ?w = "versionFor ev status"
  let ?i = "markerInfo ev b k ?w"
  let ?N = "\<lambda>e. cur_of (obj_at B (egMeta e) b) b k = Some (?i\<lparr>oiIsLatest := True\<rparr>)"
  let ?os = "\<lambda>R. case R of None \<Rightarrow> [] | Some i \<Rightarrow> [i]"
  have r: "16 \<le> length (evPromoteRnd ev)" using ev by (simp add: env_ok_def)
  have i: "rec_ok b k ?i" "oiIsDeleteMarker ?i" "oiVersionID ?i = ?w"
    using markerInfo_ok [OF v(1) u] versionFor_ok [OF ev] by (auto simp: markerInfo_def emptyInfo_def)
  have p: "trip (inv B dd) (promoteLegacyNullVersion B ev b k) (\<lambda>_. inv B dd) (\<lambda>_. inv B dd)"
    by (rule trip_conseq [OF promote_trip [OF v r, where S = "{}"]]) (auto simp: clear_def)
  have st: "trip (inv B dd) (if status = ''Suspended'' then storedRecord B b k ''null'' else retM None)
      (\<lambda>R e. inv B dd e \<and> replaceable B b k ?w (?os R) e) (\<lambda>_. inv B dd)"
  proof (cases "status = ''Suspended''")
    case True
    then have "?w = ''null''" by (simp add: versionFor_def)
    then show ?thesis unfolding if_P [OF True]
      by (intro trip_conseq [OF stored_trip [OF v data_only_simps(6)]]) (auto simp: replaceable_def split: option.split)
  qed (simp add: trip_def retM_def replaceable_def)
  have mk: "trip (\<lambda>e. inv B dd e \<and> replaceable B b k ?w (?os R) e) (metaM (\<lambda>m. PutObjectMeta B m ?i))
      (\<lambda>_ e. inv B dd e \<and> ?N e \<and> dead B dd (?os R) e) (\<lambda>_. inv B dd)" for R
    using marker_trip [OF v i(1,2), of dd "?os R"] i(3) by simp
  have G: "stable B dd ?N" by (rule stable_simps)
  have rm: "trip (\<lambda>e. inv B dd e \<and> ?N e \<and> dead B dd (?os R) e) (removeData R) (\<lambda>_ e. inv B dd e \<and> ?N e) (\<lambda>_. inv B dd)" for R
    by (rule trip_conseq [OF remove_opt_trip [OF G, where r = R and os = "[]"]]) (auto split: option.splits)
  have ev': "trip (\<lambda>e. inv B dd e \<and> ?N e) (eventM x) (\<lambda>_ e. inv B dd e \<and> ?N e) (\<lambda>_. inv B dd)" for x
    by (rule event_trip) simp
  have rt: "trip (\<lambda>e. inv B dd e \<and> ?N e) (retM (True, ?w)) (\<lambda>r e. inv B dd e \<and> r = (True, ?w) \<and> ?N e) (\<lambda>_. inv B dd)"
    by (simp add: trip_def retM_def)
  show ?thesis
    unfolding createDeleteMarker_def triggerWebhook_def MirrorSync_def Let_def
    by (rule trip_op [OF p trip_op [OF st trip_op [OF mk trip_op [OF rm trip_op [OF ev' trip_op [OF ev' rt]]]]]])
qed

lemma delete_version_trip:
  assumes v: "IsValidBucketName b" "nul \<notin> set k" and ev: "env_ok ev"
  shows "trip (inv B dd) (deleteOneVersion B ev b k w) (\<lambda>_. inv B dd) (\<lambda>_. inv B dd)"
proof -
  have r: "16 \<le> length (evPromoteRnd ev)" using ev by (simp add: env_ok_def)
  let ?os = "\<lambda>R. case R of None \<Rightarrow> [] | Some i \<Rightarrow> [i]"
  have p: "trip (inv B dd) (if w = ''null'' then promoteLegacyNullVersion B ev b k else retM ()) (\<lambda>_. inv B dd) (\<lambda>_. inv B dd)"
    using trip_conseq [OF promote_trip [OF v r, where S = "{}"]] by (auto simp: clear_def trip_def [of _ "retM ()"] retM_def)
  have ck: "trip (inv B dd) (\<lambda>e. case objectPathWithVersion (egDataDir e) b k w of
       Inl _ \<Rightarrow> failM (S3Error ''InvalidArgument'' errInvalidKeyTraversal) e | Inr _ \<Rightarrow> retM () e) (\<lambda>_. inv B dd) (\<lambda>_. inv B dd)"
    by (auto simp: trip_def retM_def failM_def split: sum.splits)
  have tr: "trip (inv B dd) (tryM (metaM (\<lambda>m. GetObjectMeta B m b k []))) (\<lambda>_. inv B dd) (\<lambda>_. inv B dd)"
    by (rule trip_conseq [OF trip_try [OF trip_read [OF reads_objects(1) [OF v(1)] data_only_simps(6)]]]) (auto split: sum.splits)
  have st: "trip (inv B dd) (storedRecord B b k w) (\<lambda>R e. inv B dd e \<and> replaceable B b k w (?os R) e) (\<lambda>_. inv B dd)"
    by (rule trip_conseq [OF stored_trip [OF v data_only_simps(6)]]) (auto simp: replaceable_def split: option.split)
  have dl: "trip (\<lambda>e. inv B dd e \<and> replaceable B b k w (?os R) e) (metaM (\<lambda>m. DeleteObjectMeta B m b k w))
      (\<lambda>_ e. inv B dd e \<and> True \<and> dead B dd (?os R) e) (\<lambda>_. inv B dd)" for R
    by (rule trip_conseq [OF delete_meta_trip [OF v]]) auto
  have rm: "trip (\<lambda>e. inv B dd e \<and> True \<and> dead B dd (?os R) e) (removeData R) (\<lambda>_. inv B dd) (\<lambda>_. inv B dd)" for R
    by (rule trip_conseq [OF remove_opt_trip [OF stable_simps(3), where r = R and os = "[]"]]) (auto split: option.splits)
  have ev': "trip (inv B dd) (eventM x) (\<lambda>_. inv B dd) (\<lambda>_. inv B dd)" for x by (rule trip_event) simp
  have rt: "trip (inv B dd) (retM a) (\<lambda>_. inv B dd) (\<lambda>_. inv B dd)" for a by (simp add: trip_def retM_def)
  note tail = trip_op [OF st trip_op [OF dl trip_op [OF rm trip_op [OF ev' trip_op [OF mirror_version_trip [OF v(1)] rt]]]]]
  show ?thesis
    unfolding deleteOneVersion_def triggerWebhook_def Let_def
  proof (rule trip_op [OF p trip_op [OF ck trip_op [OF tr]]], rule trip_if, goal_cases)
    case (1 _ _ l)
    then show ?case by (cases l) (auto simp: trip_def failM_def)
  next
    case (2 _ _ l)
    show ?case by (rule tail)
  qed
qed

text \<open>DeleteObject keeps the disk invariant; without a version ID it leaves no object
  to read.\<close>

lemma delete_object_trip:
  assumes n: "nul \<notin> set k" and u: "utf8_valid k" and ev: "env_ok ev"
  shows "trip (inv B dd) (DeleteObject B ev b k w)
    (\<lambda>r e. inv B dd e \<and> (w = [] \<longrightarrow> (\<forall>c. cur_of (obj_at B (egMeta e) b) b k = Some c \<longrightarrow> oiIsDeleteMarker c))) (\<lambda>_. inv B dd)"
proof (cases "IsValidBucketName b")
  case False
  then show ?thesis
    by (auto simp: DeleteObject_def trip_def opM_def metaM_def requireBucket_def validateBucketName_def
        intro: inv_snapshot)
next
  case True
  note v = True n
  have rq: "trip (inv B dd) (metaM (\<lambda>m. requireBucket B m b)) (\<lambda>_. inv B dd) (\<lambda>_. inv B dd)"
    by (rule trip_conseq [OF trip_read [OF reads_registry(2) data_only_simps(6)]]) auto
  have vs: "trip (inv B dd) (metaM (\<lambda>m. GetBucketVersioning B m b)) (\<lambda>_. inv B dd) (\<lambda>_. inv B dd)"
    by (rule trip_conseq [OF trip_read [OF reads_registry(3) data_only_simps(6)]]) auto
  let ?Q = "\<lambda>r e. inv B dd e \<and> (w = [] \<longrightarrow> (\<forall>c. cur_of (obj_at B (egMeta e) b) b k = Some c \<longrightarrow> oiIsDeleteMarker c))"
  have br: "trip (inv B dd) (if w \<noteq> [] then deleteOneVersion B ev b k w
      else if s = ''Enabled'' \<or> s = ''Suspended'' then createDeleteMarker B ev b k s else deleteUnversioned B b k)
      ?Q (\<lambda>_. inv B dd)" for s
  proof (intro trip_if)
    assume "w \<noteq> []"
    then show "trip (inv B dd) (deleteOneVersion B ev b k w) ?Q (\<lambda>_. inv B dd)"
      by (intro trip_conseq [OF delete_version_trip [OF v ev]]) auto
  next
    assume "s = ''Enabled'' \<or> s = ''Suspended''"
    then show "trip (inv B dd) (createDeleteMarker B ev b k s) ?Q (\<lambda>_. inv B dd)"
      by (intro trip_conseq [OF delete_marker_trip [OF v u ev]]) (auto simp: markerInfo_def)
  next
    show "trip (inv B dd) (deleteUnversioned B b k) ?Q (\<lambda>_. inv B dd)"
      by (rule trip_conseq [OF delete_unversioned_trip [OF v]]) auto
  qed
  show ?thesis unfolding DeleteObject_def deleteObjectLocked_def by (rule trip_op [OF rq trip_op [OF vs br]])
qed

subsection \<open>Writing\<close>

lemma read_trip:
  assumes "reads B f" "data_only B P"
  shows "trip (\<lambda>e. inv B dd e \<and> P e) (metaM f) (\<lambda>_ e. inv B dd e \<and> P e) (\<lambda>_. inv B dd)"
  by (rule trip_conseq [OF trip_read [OF assms]]) auto

lemma prepare_put_trip:
  "trip (\<lambda>e. inv B dd e \<and> clear S e \<and> egMaxObjectSize e = mx) (preparePut B cd ev ssec b k rd size' ct)
     (\<lambda>q e. inv B dd e \<and> clear S e \<and> prepared mx cd ev ssec dd b k rd size' ct q) (\<lambda>_. inv B dd)"
proof (cases "hasPathTraversal k \<or> hasPathTraversal b")
  case True
  then show ?thesis by (simp add: preparePut_def trip_def failM_def)
next
  case False
  let ?I = "\<lambda>e. inv B dd e \<and> clear S e \<and> egMaxObjectSize e = mx"
  have 1: "trip ?I (liftM (validateBucketName b)) (\<lambda>_ e. inv B dd e \<and> clear S e \<and> egMaxObjectSize e = mx \<and> IsValidBucketName b) (\<lambda>_. inv B dd)"
    by (auto simp: trip_def liftM_def validateBucketName_def)
  have 2: "trip (\<lambda>e. inv B dd e \<and> clear S e \<and> egMaxObjectSize e = mx \<and> IsValidBucketName b) (liftM (validateNewKey k))
      (\<lambda>_ e. inv B dd e \<and> clear S e \<and> egMaxObjectSize e = mx \<and> IsValidBucketName b \<and> validateNewKey k = Inr ()) (\<lambda>_. inv B dd)"
    by (cases "validateNewKey k") (auto simp: trip_def liftM_def)
  let ?C = "\<lambda>e. clear S e \<and> egMaxObjectSize e = mx \<and> IsValidBucketName b \<and> validateNewKey k = Inr ()"
  have D: "data_only B ?C" by (auto simp: data_only_def same_data_def clear_def)
  have 3: "trip (\<lambda>e. inv B dd e \<and> ?C e) (\<lambda>e. if egMaxObjectSize e > 0 \<and> size' > egMaxObjectSize e then failM ErrEntityTooLarge e else retM () e)
      (\<lambda>_ e. inv B dd e \<and> ?C e) (\<lambda>_. inv B dd)"
    by (auto simp: trip_def failM_def retM_def)
  note 4 = read_trip [OF reads_registry(1) D] and 5 = read_trip [OF reads_registry(3) D]
  let ?E = "\<lambda>e. ?C e \<and> (\<exists>v. is_ok (objectPathWithVersion dd b k v))"
  have 6: "trip (\<lambda>e. inv B dd e \<and> ?C e) (\<lambda>e. case objectPathWithVersion (egDataDir e) b k w of
       Inl _ \<Rightarrow> failM (S3Error ''InvalidArgument'' errInvalidKeyTraversal) e | Inr _ \<Rightarrow> retM () e)
      (\<lambda>_ e. inv B dd e \<and> ?E e) (\<lambda>_. inv B dd)" for w
    by (auto simp: trip_def failM_def retM_def inv_def [of B dd] is_ok_iff split: sum.split)
  have 7: "trip (\<lambda>e. inv B dd e \<and> ?E e) (\<lambda>e. liftM (newBlob (egDataDir e) b (evBlobRnd ev) mk) e)
      (\<lambda>q e. inv B dd e \<and> ?E e \<and> q = (newBlobID (evBlobRnd ev), blobPath dd b (newBlobID (evBlobRnd ev)))) (\<lambda>_. inv B dd)" for mk
    by (auto simp: trip_def liftM_def newBlob_def Let_def bindE_def inv_def [of B dd] split: sum.splits)
  have 8: "trip (\<lambda>e. inv B dd e \<and> ?E e \<and> q = (newBlobID (evBlobRnd ev), blobPath dd b (newBlobID (evBlobRnd ev))))
      (case q of (x, p) \<Rightarrow> opM (\<lambda>e. liftM (writeObjectData cd ev (egMaxObjectSize e) ssec rd size' ct) e) (\<lambda>w. retM (x, p, w)))
      (\<lambda>q e. inv B dd e \<and> clear S e \<and> prepared mx cd ev ssec dd b k rd size' ct q) (\<lambda>_. inv B dd)" for q
    by (auto simp: trip_def liftM_def opM_def retM_def prepared_def split: prod.splits sum.splits)
  show ?thesis
    unfolding preparePut_def if_not_P [OF False]
    by (rule trip_op [OF 1 trip_op [OF 2 trip_op [OF 3 trip_op [OF 4 trip_op [OF 5 trip_op [OF 6 trip_op [OF 7 8]]]]]]])
qed

lemma hex_utf8: "utf8_valid (hex_encode s)"
proof -
  have "byte c < 128" if "is_hex c" for c
  proof -
    have "c \<le> CHR ''f''" using that by (auto simp: is_hex_def hex_val_def is_digit_def less_eq_char_def split: if_splits)
    then have "byte c \<le> byte CHR ''f''" by (simp add: byte_def less_eq_char_def)
    then show ?thesis by (simp add: byte_def)
  qed
  then show ?thesis using hex_encode_props [of s] by (intro utf8_ascii) auto
qed

lemma octet_utf8: "utf8_valid ''application/octet-stream''"
  by code_simp

lemma writeObjectData_etag: "writeObjectData cd ev mx ssec rd size' ct = Inr w \<Longrightarrow> utf8_valid (wrETag w)"
  by (auto simp: writeObjectData_def Let_def hex_utf8 split: if_splits)

lemma bucket_utf8: "IsValidBucketName b \<Longrightarrow> utf8_valid b"
  using markerInfo_ok [of b "[]" "[]"] by (auto simp: rec_ok_def obj_utf8_def markerInfo_def emptyInfo_def)

lemma putInfo_ok:
  assumes "IsValidBucketName b" "req_ok ssec k ct" "env_ok ev" "utf8_valid (wrETag w)" "isBlobID x"
  shows "rec_ok b k ((putInfo ev ssec b k (versionFor ev s) ct w)\<lparr>oiBlobID := x\<rparr>)"
  using assms bucket_utf8 versionFor_ok [of ev s] isBlobID_utf8 octet_utf8
  by (auto simp: rec_ok_def obj_utf8_def putInfo_def req_ok_def simp del: utf8_valid.simps(2) split: option.split)

lemma put_object_trip:
  assumes ev: "env_ok ev" and rq: "req_ok ssec k ct" and dd: "is_rooted dd"
  shows "trip (\<lambda>e. inv B dd e \<and> clear {blobPath dd b (newBlobID (evBlobRnd ev))} e \<and> egMaxObjectSize e = mx) (PutObject B cd ev ssec b k rd size' ct)
    (\<lambda>info e. inv B dd e \<and> (\<exists>w s. prepared mx cd ev ssec dd b k rd size' ct
         (newBlobID (evBlobRnd ev), blobPath dd b (newBlobID (evBlobRnd ev)), w) \<and>
       info = (putInfo ev ssec b k (versionFor ev s) ct w)\<lparr>oiBlobID := newBlobID (evBlobRnd ev)\<rparr> \<and>
       content B dd (ident_of info) (wrTemp w) e) \<and>
       cur_of (obj_at B (egMeta e) b) b k = Some (info\<lparr>oiIsLatest := True\<rparr>) \<and> opened (egMeta e) b) (\<lambda>_. inv B dd)"
    (is "trip ?P _ ?Q _")
proof -
  let ?x = "newBlobID (evBlobRnd ev)"
  let ?p = "blobPath dd b ?x"
  have r: "16 \<le> length (evPromoteRnd ev)" and x: "isBlobID ?x" "isBlobID (newBlobID (evPromoteRnd ev))"
    and ne: "?x \<noteq> newBlobID (evPromoteRnd ev)"
    using ev newBlobID_is by (auto simp: env_ok_def)
  let ?C = "\<lambda>q. prepared mx cd ev ssec dd b k rd size' ct q"
  have cm: "trip (\<lambda>e. inv B dd e \<and> clear {?p} e \<and> ?C q) (commitPut B ev ssec b k ct q) ?Q (\<lambda>_. inv B dd)" for q
  proof (rule trip_pure [where c = "?C q"], blast)
    assume C: "?C q"
    obtain w where q: "q = (?x, ?p, w)" using C by (cases q) (auto simp: prepared_def)
    have v: "IsValidBucketName b" "nul \<notin> set k" using C by (auto simp: prepared_def validateNewKey_def HasByte_def split: if_splits)
    have np: "?p \<noteq> blobPath dd b (newBlobID (evPromoteRnd ev))"
      using blobPath_inject [OF dd v(1) v(1) x] ne by blast
    have et: "utf8_valid (wrETag w)" using C q writeObjectData_etag by (auto simp: prepared_def)
    note rd = read_trip [OF reads_registry(1) data_only_simps(1), of dd "{?p}" b]
      and gv = read_trip [OF reads_registry(3) data_only_simps(1), of dd "{?p}" b]
    have rd': "trip (\<lambda>e. inv B dd e \<and> clear {?p} e \<and> ?C q) (lockBucketForCommit B b) (\<lambda>_ e. inv B dd e \<and> clear {?p} e) (\<lambda>_. inv B dd)"
      unfolding lockBucketForCommit_def by (rule trip_pre [OF _ rd]) auto
    have dm: "\<not> oiIsDeleteMarker (putInfo ev ssec b k (versionFor ev s) ct w)" for s by (simp add: putInfo_def)
    have cm: "trip (\<lambda>e. inv B dd e \<and> clear {?p} e) (commitObject B ev (wrTemp w) ?x ?p (putInfo ev ssec b k (versionFor ev s) ct w))
       ?Q (\<lambda>_. inv B dd)" for s
      by (rule trip_conseq [OF commit_trip [OF v r putInfo_ok [OF v(1) rq ev et x(1)] dm x(1) refl np]]) (use C q in auto)
    have evt: "trip (?Q info) (eventM y) (\<lambda>_. ?Q info) (\<lambda>_. inv B dd)" for info y
      by (rule trip_event) (auto simp: content_def)
    have rt: "trip (?Q info) (retM info) ?Q (\<lambda>_. inv B dd)" for info by (rule trip_ret)
    show ?thesis
      unfolding commitPut_def q prod.case triggerWebhook_def MirrorSync_def
      by (rule trip_op [OF rd' [unfolded q] trip_op [OF gv trip_op [OF cm trip_op [OF evt trip_op [OF evt rt]]]]])
  qed
  show ?thesis unfolding PutObject_def by (rule trip_op [OF prepare_put_trip cm])
qed

end

end
