(* ===== verification/Engine_Props.thy ===== *)
theory Engine_Props
  imports Engine_Refs
begin

text \<open>
  The properties of the engine: writes and deletes keep every record's data on disk
  in every state a crash can leave, what was written is what is read back, and a
  deleted object is gone.
\<close>

lemma objectPathWithVersion_base:
  assumes "is_rooted dd" and "is_ok (objectPathWithVersion dd b k v)"
  shows "is_ok (objectPathWithVersion dd b k [])"
proof -
  from assms(2) obtain q base where v: "validatePathSafety b k v = Inr q" and p: "objectPath dd b k = Inr base"
    by (cases "validatePathSafety b k v"; cases "objectPath dd b k") (auto simp: objectPathWithVersion_def bindE_def)
  from v have v': "validatePathSafety b k [] = Inr q"
    by (auto simp: validatePathSafety_def Let_def split: if_splits)
  from p obtain c where c: "base = Clean (JoinPath [Clean (bucketPath dd b), c])" "within (Clean (bucketPath dd b)) base"
    by (auto simp: objectPath_def bindE_Inr_iff Let_def split: if_splits)
  have "is_rooted (Clean (bucketPath dd b))"
    using assms(1) unfolding bucketPath_def by (intro Clean_rooted JoinPath_rooted)
  then have r: "is_rooted (JoinPath [Clean (bucketPath dd b), c])" by (rule JoinPath_rooted)
  have "Clean base = base"
    unfolding c(1) Clean_render [OF Clean_rooted [OF r]] path_comps_Clean [OF r] using Clean_render [OF r] by simp
  with v' p c(2) show ?thesis by (simp add: objectPathWithVersion_def Let_def)
qed

text \<open>Opening what a write stored gives the written bytes back.\<close>

lemma read_all:
  assumes "length iv = 16" "newCTRReadSeeker E (iv @ ctr_xor E iv 0 d) iv = Inr r" "length d \<le> n"
  shows "fst (crRead E r n) = d"
proof -
  have "cr_at (iv @ ctr_xor E iv 0 d) iv r" using cr_reach_at [OF cr_reach.opened [OF assms(2)] assms(1)] .
  note R = cr_read_at(1) [OF this assms(1), of n]
  have "crOffset r = 0" using assms(2) by (auto simp: newCTRReadSeeker_def crSeek_def)
  with R assms(3) show ?thesis by simp
qed

lemma new_reader: "\<exists>r. newCTRReadSeeker E f iv = Inr r"
  by (simp add: newCTRReadSeeker_def crSeek_def)

lemma write_whole:
  assumes w: "writeObjectData cd ev mx ssec rd size' ct = Inr w" and mx: "mx < 2 ^ 63 - 1"
  shows "wrSize w = int (length (rdData rd)) \<and> (if mx > 0 then limitReader rd (int64 (mx + 1)) else rd) = rd"
proof (cases "mx > 0")
  case True
  then have e: "int64 (mx + 1) = mx + 1" using mx by (intro int64_id) auto
  from w True have l: "int (length (rdData (limitReader rd (mx + 1)))) \<le> mx"
    "wrSize w = int (length (rdData (limitReader rd (mx + 1))))"
    by (auto simp: writeObjectData_def Let_def e split: if_splits)
  then have "limitReader rd (mx + 1) = rd" using True by (auto simp: limitReader_def split: if_splits)
  with l True e show ?thesis by simp
next
  case False
  with w show ?thesis by (auto simp: writeObjectData_def Let_def split: if_splits)
qed

lemma open_stored:
  assumes t: "t = (case ssec of None \<Rightarrow> body | Some p \<Rightarrow> iv @ ctr_xor (cdAES cd (scKey p)) iv 0 body)"
    and b: "body = (if oiCompressed info then cdGzip cd d else d)" and iv: "length iv = 16"
    and z: "\<And>x. cdGunzip cd (cdGzip cd x) = Some x" and k: "\<And>p. ssec = Some p \<Longrightarrow> aes_key_ok (scKey p)"
    and a: "oiSSECustomerAlgorithm info \<noteq> [] \<longleftrightarrow> ssec \<noteq> None"
  shows "\<exists>kind. openData cd info ssec t = Inr (d, kind)"
proof (cases ssec)
  case None
  then show ?thesis using t b z by (simp add: openData_def)
next
  case (Some p)
  let ?E = "cdAES cd (scKey p)"
  have T: "t = iv @ ctr_xor ?E iv 0 body" using t Some by simp
  obtain c where c: "newCTRReadSeeker ?E t iv = Inr c" using new_reader by blast
  have "fst (crRead ?E c (length t)) = body"
    by (rule read_all [OF iv c [unfolded T]]) (simp add: T)
  moreover have "take 16 t = iv" "\<not> length t < 16" using T iv by auto
  ultimately show ?thesis using Some a b k c z by (simp add: openData_def)
qed

lemma open_written:
  assumes w: "writeObjectData cd ev mx ssec rd size' ct = Inr w" and mx: "mx < 2 ^ 63 - 1"
    and z: "\<And>x. cdGunzip cd (cdGzip cd x) = Some x" and iv: "length (evIV ev) = 16"
    and i: "oiCompressed info = wrCompressed w" "oiSSECustomerAlgorithm info = (case ssec of None \<Rightarrow> [] | Some p \<Rightarrow> scAlgorithm p)"
    and a: "\<And>p. ssec = Some p \<Longrightarrow> scAlgorithm p \<noteq> []"
  shows "\<exists>kind. openData cd info ssec (wrTemp w) = Inr (rdData rd, kind)"
proof -
  let ?r = "if mx > 0 then limitReader rd (int64 (mx + 1)) else rd"
  have r: "?r = rd" using write_whole [OF w mx] by blast
  from w have k: "\<And>p. ssec = Some p \<Longrightarrow> aes_key_ok (scKey p)"
    and t: "wrTemp w = (case ssec of None \<Rightarrow> if wrCompressed w then cdGzip cd (rdData rd) else rdData rd
      | Some p \<Rightarrow> evIV ev @ ctr_xor (cdAES cd (scKey p)) (evIV ev) 0 (if wrCompressed w then cdGzip cd (rdData rd) else rdData rd))"
    unfolding writeObjectData_def Let_def r if_Inl_iff by auto
  show ?thesis
    by (rule open_stored [OF t _ iv z k]) (use i a in \<open>auto split: option.split\<close>)
qed

context bolt_laws
begin

lemma GetObjectMeta_opened:
  assumes m: "meta_ok B m" "IsValidBucketName b" and o: "opened m b" and n: "nul \<notin> set k"
    and c: "cur_of (obj_at B m b) b k = Some i"
  shows "\<exists>m'. GetObjectMeta B m b k [] = (Inr i, m') \<and> obj_at B m' = obj_at B m"
proof -
  obtain db where db: "msDbs m b = Some db" using o by (auto simp: opened_def)
  obtain m' where a: "acquireBucketDB B m b = Inr (db, m')" using o db by (simp add: acquireBucketDB_def opened_def)
  note A = acquire_obj [OF a m]
  from get_db [OF db_wf_store n, of b db "[]"] A c have "getObjectMetaTx B db b k [] = Inr i" by simp
  with a A show ?thesis by (simp add: GetObjectMeta_def viewDB_def)
qed

lemma get_current:
  assumes e: "inv B dd e" and b: "IsValidBucketName b" "nul \<notin> set k" and o: "opened (egMeta e) b"
    and p: "is_ok (objectPathWithVersion dd b k [])"
    and c: "cur_of (obj_at B (egMeta e) b) b k = Some i" "\<not> oiIsDeleteMarker i" and s: "validateSSECParams i ssec = Inr ()"
    and ct: "content B dd (ident_of i) t e" and d: "openData cd i ssec t = Inr (dt, kind)" and f: "\<not> evFails ev COpen"
  shows "\<exists>e'. GetObject B cd ev ssec b k [] e = (Inr (dt, kind, i), e')"
proof -
  have dd: "egDataDir e = dd" and m: "meta_ok B (egMeta e)" using inv_disk [OF e] by auto
  obtain m' where g: "GetObjectMeta B (egMeta e) b k [] = (Inr i, m')" using GetObjectMeta_opened [OF m b(1) o b(2) c(1)] by blast
  obtain q where q: "objectPathWithVersion dd b k [] = Inr q" using p by (auto simp: is_ok_iff)
  have h: "HeadObject B ssec b k [] e = (Inr i, snapshot (e\<lparr>egMeta := m'\<rparr>))"
    using b(1) q g c(2) s dd by (simp add: HeadObject_def validateBucketName_def metaM_def)
  obtain r where r: "ident_path dd (ident_of i) = Inr r" "egFiles e r = Some t" using ct by (auto simp: content_def)
  then show ?thesis using h b(1) d f dd by (simp add: GetObject_def validateBucketName_def dataPath_ident)
qed

lemma get_absent:
  assumes e: "inv B dd e" and b: "nul \<notin> set k" and c: "\<forall>i. cur_of (obj_at B (egMeta e) b) b k = Some i \<longrightarrow> oiIsDeleteMarker i"
  shows "\<not> is_ok (fst (GetObject B cd ev ssec b k [] e))"
proof (cases "IsValidBucketName b")
  case False
  then show ?thesis by (simp add: GetObject_def validateBucketName_def)
next
  case v: True
  have m: "meta_ok B (egMeta e)" using inv_disk [OF e] by auto
  obtain r m' where g: "GetObjectMeta B (egMeta e) b k [] = (r, m')" by (cases "GetObjectMeta B (egMeta e) b k []")
  have "\<not> is_ok (fst (HeadObject B ssec b k [] e))"
  proof (cases r)
    case (Inl x)
    with g show ?thesis by (auto simp: HeadObject_def validateBucketName_def metaM_def split: sum.split)
  next
    case (Inr i)
    with GetObjectMeta_obj(2) [OF g m v b] c have "oiIsDeleteMarker i" by auto
    with g Inr show ?thesis by (auto simp: HeadObject_def validateBucketName_def metaM_def split: sum.split)
  qed
  then show ?thesis using v by (auto simp: GetObject_def validateBucketName_def split: prod.splits sum.splits)
qed

lemma put_get:
  assumes e: "inv B dd e" and ev: "env_ok ev" and rq: "req_ok ssec k ct" and dd: "is_rooted dd"
    and fr: "egFiles e (blobPath dd b (newBlobID (evBlobRnd ev))) = None" and mx: "egMaxObjectSize e < 2 ^ 63 - 1"
    and z: "\<And>x. cdGunzip cd (cdGzip cd x) = Some x" and f: "\<not> evFails ev' COpen"
    and p: "PutObject B cd ev ssec b k rd size' ct e = (Inr info, e')"
  shows "oiSize info = int (length (rdData rd)) \<and>
    (\<exists>kind e''. GetObject B cd ev' ssec b k [] e' = (Inr (rdData rd, kind, info\<lparr>oiIsLatest := True\<rparr>), e''))"
proof -
  have pre: "inv B dd e \<and> clear {blobPath dd b (newBlobID (evBlobRnd ev))} e \<and> egMaxObjectSize e = egMaxObjectSize e"
    using e fr by (simp add: clear_def)
  from tripD [OF put_object_trip [OF ev rq dd] pre p] obtain w s
    where i: "inv B dd e'" and pr: "prepared (egMaxObjectSize e) cd ev ssec dd b k rd size' ct
         (newBlobID (evBlobRnd ev), blobPath dd b (newBlobID (evBlobRnd ev)), w)"
      and inf: "info = (putInfo ev ssec b k (versionFor ev s) ct w)\<lparr>oiBlobID := newBlobID (evBlobRnd ev)\<rparr>"
      and c: "content B dd (ident_of info) (wrTemp w) e'" "cur_of (obj_at B (egMeta e') b) b k = Some (info\<lparr>oiIsLatest := True\<rparr>)"
      and o: "opened (egMeta e') b" by blast
  have v: "IsValidBucketName b" "nul \<notin> set k" using pr by (auto simp: prepared_def validateNewKey_def HasByte_def split: if_splits)
  have path: "is_ok (objectPathWithVersion dd b k [])" using pr objectPathWithVersion_base [OF dd] by (auto simp: prepared_def)
  have w: "writeObjectData cd ev (egMaxObjectSize e) ssec rd size' ct = Inr w" using pr by (simp add: prepared_def)
  let ?i = "info\<lparr>oiIsLatest := True\<rparr>"
  have a: "scAlgorithm q \<noteq> []" if "ssec = Some q" for q using rq that by (simp add: req_ok_def)
  have "\<exists>kind. openData cd ?i ssec (wrTemp w) = Inr (rdData rd, kind)"
    by (rule open_written [OF w mx z _ _ _ a]) (use ev inf in \<open>auto simp: env_ok_def putInfo_def\<close>)
  then obtain kind where d: "openData cd ?i ssec (wrTemp w) = Inr (rdData rd, kind)" ..
  have s: "validateSSECParams ?i ssec = Inr ()"
    using inf a by (cases ssec) (auto simp: validateSSECParams_def putInfo_def)
  have dm: "\<not> oiIsDeleteMarker ?i" using inf by (simp add: putInfo_def)
  have ct': "content B dd (ident_of ?i) (wrTemp w) e'" using c(1) by simp
  have "oiSize info = int (length (rdData rd))" using write_whole [OF w mx] inf by (simp add: putInfo_def)
  with get_current [OF i v o path c(2) dm s ct' d f] show ?thesis by blast
qed

end

subsection \<open>A sample store\<close>

definition ex_env :: env where
  "ex_env = \<lparr>evUUID = ''u1'', evNow = 9, evBlobRnd = ''0123456789abcdef'', evIV = ''ABCDEFGHIJKLMNOP'',
     evPromoteRnd = ''fedcba9876543210'', evFails = (\<lambda>_. False)\<rparr>"

definition ex_codec :: codec where
  "ex_codec = \<lparr>cdMD5 = take 4, cdGzip = (\<lambda>s. CHR ''z'' # s), cdGunzip = (\<lambda>s. Some (tl s)), cdAES = (\<lambda>k. rev)\<rparr>"

definition ex_bucket :: "string \<Rightarrow> BucketInfo" where
  "ex_bucket status = \<lparr>biName = ''bkt'', biCreationDate = 1, biCORS = None, biVersioning = status, biIsPublic = False,
     biLifecycle = None, biLogging = None\<rparr>"

definition ex_store :: "string \<Rightarrow> alist_bucket mstore" where
  "ex_store status = \<lparr>msReplication = False, msRegistry = (0, [(''bkt'', VBkt (ex_bucket status))]), msDbs = Map.empty,
     msActive = [], msCache = [], msCacheGen = 0, msInMigration = False\<rparr>"

definition ex_eng :: "string \<Rightarrow> alist_bucket engine" where
  "ex_eng status = \<lparr>egDataDir = ''/d'', egMeta = ex_store status, egFiles = Map.empty, egMaxObjectSize = 100,
     egDisableMinPartSize = False, egEvents = [], egDisks = []\<rparr>"

definition ex_ssec :: SSECParams where
  "ex_ssec = \<lparr>scAlgorithm = ''AES256'', scKey = ''0123456789abcdef'', scKeyMD5 = ''m''\<rparr>"

definition ex_rd :: "string \<Rightarrow> reader" where "ex_rd s = \<lparr>rdData = s, rdFails = False\<rparr>"

lemma ex_eng_inv: "inv alist_bolt ''/d'' (ex_eng s)"
proof -
  have "ids alist_bolt (ex_store s) = {}"
    by (simp add: ids_def ex_store_def obj_at_def map_ids_def key_ids_def cur_of_def hist_of_def)
  then show ?thesis by (simp add: inv_def ex_eng_def disk_ok_def) (simp add: meta_ok_def ex_store_def)
qed

lemma ex_env_ok: "env_ok ex_env"
  by code_simp

lemma ex_req_ok: "req_ok None ''k'' ''text/plain''" "req_ok (Some ex_ssec) ''k'' ''text/plain''"
proof -
  have "utf8_valid ''k''" "utf8_valid ''text/plain''" "utf8_valid ''AES256''" "utf8_valid ''m''" by code_simp+
  then show "req_ok None ''k'' ''text/plain''" "req_ok (Some ex_ssec) ''k'' ''text/plain''"
    by (auto simp: req_ok_def ex_ssec_def simp del: utf8_valid.simps)
qed

subsection \<open>Properties\<close>

text \<open>C1: writing keeps the store's referential integrity. Whatever PutObject meets - a
  full disk, a failed rename, a failed transaction - and in every state of the disk it
  passes through, every record with data points at an existing file and no two records
  share one; so a crash at any point never leaves a record whose data is gone.\<close>

theorem put_object_keeps_data:
  assumes "bolt_laws B" and "inv B dd e" and "env_ok ev" and "req_ok ssec k ct" and "is_rooted dd"
    and "egFiles e (blobPath dd b (newBlobID (evBlobRnd ev))) = None"
  shows "inv B dd (snd (PutObject B cd ev ssec b k rd size' ct e))"
proof -
  have pre: "inv B dd e \<and> clear {blobPath dd b (newBlobID (evBlobRnd ev))} e \<and> egMaxObjectSize e = egMaxObjectSize e"
    using assms(2,6) by (simp add: clear_def)
  show ?thesis by (rule tripD_post [OF bolt_laws.put_object_trip [OF assms(1,3,4,5)] pre]) blast
qed

theorem put_object_keeps_data_witness:
  "inv alist_bolt ''/d'' (snd (PutObject alist_bolt ex_codec ex_env None ''bkt'' ''k'' (ex_rd ''abc'') 3 ''text/plain'' (ex_eng ''Enabled'')))"
proof -
  have "is_rooted ''/d''" by code_simp
  moreover have "egFiles (ex_eng ''Enabled'') (blobPath ''/d'' ''bkt'' (newBlobID (evBlobRnd ex_env))) = None" by (simp add: ex_eng_def)
  ultimately show ?thesis by (intro put_object_keeps_data [OF alist_laws ex_eng_inv ex_env_ok ex_req_ok(1)])
qed

text \<open>C2: what PutObject stored is what GetObject returns, with any combination of
  compression and customer-key encryption: the bytes of the body, of the recorded size,
  under the record PutObject returned.\<close>

theorem put_then_get:
  assumes "bolt_laws B" and "inv B dd e" and "env_ok ev" and "req_ok ssec k ct" and "is_rooted dd"
    and "egFiles e (blobPath dd b (newBlobID (evBlobRnd ev))) = None" and "egMaxObjectSize e < 2 ^ 63 - 1"
    and "\<And>x. cdGunzip cd (cdGzip cd x) = Some x" and "\<not> evFails ev' COpen"
    and "PutObject B cd ev ssec b k rd size' ct e = (Inr info, e')"
  shows "oiSize info = int (length (rdData rd)) \<and>
    (\<exists>kind e''. GetObject B cd ev' ssec b k [] e' = (Inr (rdData rd, kind, info\<lparr>oiIsLatest := True\<rparr>), e''))"
  using bolt_laws.put_get [OF assms] .

theorem put_then_get_witness:
  "\<exists>info e' kind e''. PutObject alist_bolt ex_codec ex_env None ''bkt'' ''k'' (ex_rd ''abc'') 3 ''text/plain'' (ex_eng ''Enabled'') = (Inr info, e') \<and>
     GetObject alist_bolt ex_codec ex_env None ''bkt'' ''k'' [] e' = (Inr (''abc'', kind, info\<lparr>oiIsLatest := True\<rparr>), e'')"
proof -
  let ?r = "PutObject alist_bolt ex_codec ex_env None ''bkt'' ''k'' (ex_rd ''abc'') 3 ''text/plain'' (ex_eng ''Enabled'')"
  have "is_ok (fst ?r)" by code_simp
  then obtain info e' where p: "?r = (Inr info, e')" by (cases ?r) (auto simp: is_ok_iff)
  have r: "is_rooted ''/d''" by code_simp
  have fr: "egFiles (ex_eng ''Enabled'') (blobPath ''/d'' ''bkt'' (newBlobID (evBlobRnd ex_env))) = None" by (simp add: ex_eng_def)
  have mx: "egMaxObjectSize (ex_eng ''Enabled'') < 2 ^ 63 - 1" by (simp add: ex_eng_def)
  have z: "\<And>x. cdGunzip ex_codec (cdGzip ex_codec x) = Some x" by (simp add: ex_codec_def)
  have f: "\<not> evFails ex_env COpen" by (simp add: ex_env_def)
  from put_then_get [OF alist_laws ex_eng_inv ex_env_ok ex_req_ok(1) r fr mx z f p] p
  show ?thesis by (auto simp: ex_rd_def)
qed

text \<open>C18: deleting keeps the store's referential integrity in every state of the disk,
  whatever fails: metadata goes before the data it points at.\<close>

theorem delete_object_keeps_data:
  assumes "bolt_laws B" and "inv B dd e" and "env_ok ev" and "nul \<notin> set k" and "utf8_valid k"
  shows "inv B dd (snd (DeleteObject B ev b k v e))"
  by (rule tripD_post [OF bolt_laws.delete_object_trip [OF assms(1,4,5,3)] assms(2)]) blast

definition ex_put :: "string \<Rightarrow> alist_bucket engine" where
  "ex_put s = snd (PutObject alist_bolt ex_codec ex_env None ''bkt'' ''k'' (ex_rd ''abc'') 3 ''text/plain'' (ex_eng s))"

lemma ex_put_inv: "inv alist_bolt ''/d'' (ex_put s)"
  unfolding ex_put_def
proof (rule tripD_post [OF al.put_object_trip [OF ex_env_ok ex_req_ok(1)]])
  show "is_rooted ''/d''" by code_simp
  show "inv alist_bolt ''/d'' (ex_eng s) \<and> clear {blobPath ''/d'' ''bkt'' (newBlobID (evBlobRnd ex_env))} (ex_eng s)
      \<and> egMaxObjectSize (ex_eng s) = 100"
    using ex_eng_inv by (simp add: clear_def ex_eng_def)
qed auto

theorem delete_object_keeps_data_witness:
  "inv alist_bolt ''/d'' (snd (DeleteObject alist_bolt ex_env ''bkt'' ''k'' [] (ex_put [])))"
proof -
  have "nul \<notin> set ''k''" "utf8_valid ''k''" by code_simp+
  then show ?thesis by (rule delete_object_keeps_data [OF alist_laws ex_put_inv ex_env_ok])
qed

text \<open>C21: after a successful DeleteObject without a version ID, reading the object
  fails, whatever the bucket's versioning status: its record is gone or a delete
  marker is on top.\<close>

theorem deleted_object_is_gone:
  assumes "bolt_laws B" and "inv B dd e" and "env_ok ev" and "nul \<notin> set k" and "utf8_valid k"
    and "DeleteObject B ev b k [] e = (Inr r, e')"
  shows "\<not> is_ok (fst (GetObject B cd ev' ssec b k [] e'))"
proof -
  have "inv B dd e'" "\<forall>c. cur_of (obj_at B (egMeta e') b) b k = Some c \<longrightarrow> oiIsDeleteMarker c"
    using tripD [OF bolt_laws.delete_object_trip [OF assms(1,4,5,3)] assms(2,6)] by auto
  then show ?thesis by (rule bolt_laws.get_absent [OF assms(1) _ assms(4)])
qed

theorem deleted_object_is_gone_witness:
  "\<not> is_ok (fst (GetObject alist_bolt ex_codec ex_env None ''bkt'' ''k'' [] (snd (DeleteObject alist_bolt ex_env ''bkt'' ''k'' [] (ex_put ''Enabled''))))) \<and>
   is_ok (fst (GetObject alist_bolt ex_codec ex_env None ''bkt'' ''k'' [] (ex_put ''Enabled'')))"
proof
  let ?r = "DeleteObject alist_bolt ex_env ''bkt'' ''k'' [] (ex_put ''Enabled'')"
  have "is_ok (fst ?r)" by code_simp
  then obtain r e' where d: "?r = (Inr r, e')" by (cases ?r) (auto simp: is_ok_iff)
  have k: "nul \<notin> set ''k''" "utf8_valid ''k''" by code_simp+
  from deleted_object_is_gone [OF alist_laws ex_put_inv ex_env_ok k d] d
  show "\<not> is_ok (fst (GetObject alist_bolt ex_codec ex_env None ''bkt'' ''k'' [] (snd ?r)))" by simp
  show "is_ok (fst (GetObject alist_bolt ex_codec ex_env None ''bkt'' ''k'' [] (ex_put ''Enabled'')))" by code_simp
qed

subsection \<open>Two ways to lose data\<close>

definition ex_env2 :: env where
  "ex_env2 = ex_env\<lparr>evUUID := ''u2'', evNow := 10\<rparr>"

text \<open>DeleteObject does not check the key for NUL bytes, as writes do. Deleting, in a
  versioning bucket, the key made of k, a NUL and the ID of a version of k succeeds and puts a
  delete marker where the metadata keeps that version of k: the version can be read
  before and not after, though no request named it.\<close>

theorem nul_delete_destroys_version:
  "is_ok (fst (GetObject alist_bolt ex_codec ex_env None ''bkt'' ''k'' ''u1'' (ex_put ''Enabled''))) \<and>
   is_ok (fst (DeleteObject alist_bolt ex_env2 ''bkt'' (''k'' @ [nul] @ ''u1'') [] (ex_put ''Enabled''))) \<and>
   \<not> is_ok (fst (GetObject alist_bolt ex_codec ex_env None ''bkt'' ''k'' ''u1''
      (snd (DeleteObject alist_bolt ex_env2 ''bkt'' (''k'' @ [nul] @ ''u1'') [] (ex_put ''Enabled'')))))"
proof (intro conjI)
  show "is_ok (fst (GetObject alist_bolt ex_codec ex_env None ''bkt'' ''k'' ''u1'' (ex_put ''Enabled'')))" by code_simp
  show "is_ok (fst (DeleteObject alist_bolt ex_env2 ''bkt'' (''k'' @ [nul] @ ''u1'') [] (ex_put ''Enabled'')))" by code_simp
  show "\<not> is_ok (fst (GetObject alist_bolt ex_codec ex_env None ''bkt'' ''k'' ''u1''
      (snd (DeleteObject alist_bolt ex_env2 ''bkt'' (''k'' @ [nul] @ ''u1'') [] (ex_put ''Enabled'')))))" by code_simp
qed

text \<open>With the largest int64 as the size cap, the limit passed to the reader wraps to
  a negative number and every body of undeclared length is stored as empty.\<close>

lemma max_cap_stores_nothing:
  assumes "\<not> evFails ev CTemp" and "\<not> evFails ev CWrite" and "\<not> evFails ev CFsync" and "size' < 0"
  shows "\<exists>w. writeObjectData cd ev (2 ^ 63 - 1) None rd size' ct = Inr w \<and> wrSize w = 0"
proof -
  have i: "int64 (2 ^ 63 - 1 + 1) = - (2 ^ 63)" by code_simp
  have "limitReader rd (int64 (2 ^ 63 - 1 + 1)) = \<lparr>rdData = [], rdFails = False\<rparr>" unfolding i by (simp add: limitReader_def)
  then show ?thesis using assms by (simp add: writeObjectData_def Let_def)
qed

end
