(* ===== verification/Go_Fmt.thy ===== *)
theory Go_Fmt
  imports Paths
begin

text \<open>
  Prelude, formatting: the decimal verbs of fmt, hex.DecodeString and
  strings.Trim, with the facts the components share - a decimal determines its
  number, decoding inverts encoding.
\<close>

subsection \<open>Decimals\<close>

definition dec_digit :: "nat \<Rightarrow> char" where
  "dec_digit n = ''0123456789'' ! (n mod 10)"

fun nat_dec :: "nat \<Rightarrow> string" where
  "nat_dec n = (if n < 10 then [dec_digit n] else nat_dec (n div 10) @ [dec_digit n])"

declare nat_dec.simps [simp del]

text \<open>fmt's verb %d, and %05d, which pads with zeros after the sign.\<close>

definition Itoa :: "int \<Rightarrow> string" where
  "Itoa n = (if n < 0 then CHR ''-'' # nat_dec (nat (- n)) else nat_dec (nat n))"

definition pad_zeros :: "nat \<Rightarrow> string \<Rightarrow> string" where
  "pad_zeros w s = replicate (w - length s) CHR ''0'' @ s"

definition Itoa5 :: "int \<Rightarrow> string" where
  "Itoa5 n = (if n < 0 then CHR ''-'' # pad_zeros 4 (nat_dec (nat (- n))) else pad_zeros 5 (nat_dec (nat n)))"

definition dec_value :: "string \<Rightarrow> nat" where
  "dec_value s = foldl (\<lambda>a c. a * 10 + (byte c - 48)) 0 s"

lemma dec_digit_props: "is_digit (dec_digit n) \<and> byte (dec_digit n) = n mod 10 + 48"
proof -
  have "\<forall>m<10. is_digit (''0123456789'' ! m) \<and> byte (''0123456789'' ! m) = m + 48"
    by code_simp
  moreover have "n mod 10 < 10" by simp
  ultimately show ?thesis unfolding dec_digit_def by blast
qed

lemma dec_value_snoc: "dec_value (s @ [c]) = dec_value s * 10 + (byte c - 48)"
  by (simp add: dec_value_def)

lemma dec_value_nat_dec: "dec_value (nat_dec n) = n"
proof (induction n rule: nat_dec.induct)
  case (1 n)
  show ?case
  proof (cases "n < 10")
    case True
    then show ?thesis using dec_digit_props [of n] by (simp add: nat_dec.simps dec_value_def)
  next
    case False
    have "dec_value (nat_dec n) = n div 10 * 10 + n mod 10"
      using 1 [OF False] False dec_digit_props [of n] by (subst nat_dec.simps) (simp add: dec_value_snoc)
    then show ?thesis by simp
  qed
qed

lemma dec_value_zeros: "dec_value (replicate k CHR ''0'' @ s) = dec_value s"
proof (induction k)
  case 0
  then show ?case by simp
next
  case (Suc k)
  have "byte CHR ''0'' = 48" by code_simp
  with Suc show ?case by (simp add: dec_value_def)
qed

lemma nat_dec_digits: "nat_dec n \<noteq> [] \<and> (\<forall>c\<in>set (nat_dec n). is_digit c)"
proof (induction n rule: nat_dec.induct)
  case (1 n)
  then show ?case using dec_digit_props [of n] by (subst (1 2) nat_dec.simps) auto
qed

lemma nat_dec_inject: "nat_dec m = nat_dec n \<longleftrightarrow> m = n"
  by (metis dec_value_nat_dec)

lemma nat_dec_no_minus: "nat_dec m \<noteq> CHR ''-'' # s"
proof
  assume "nat_dec m = CHR ''-'' # s"
  with nat_dec_digits [of m] have "is_digit CHR ''-''" by simp
  then show False by (simp add: is_digit_def)
qed

lemma Itoa_inject: "Itoa m = Itoa n \<longleftrightarrow> m = n"
  using nat_dec_no_minus nat_dec_no_minus [symmetric] by (auto simp: Itoa_def nat_dec_inject)

lemma Itoa_no_colon: "CHR '':'' \<notin> set (Itoa n)"
proof -
  have "\<not> is_digit CHR '':''" by code_simp
  then show ?thesis using nat_dec_digits by (auto simp: Itoa_def)
qed

lemma Itoa5_value: "0 \<le> n \<Longrightarrow> dec_value (Itoa5 n) = nat n \<and> (\<forall>c\<in>set (Itoa5 n). is_digit c) \<and> Itoa5 n \<noteq> []"
  using nat_dec_digits [of "nat n"]
  by (auto simp: Itoa5_def pad_zeros_def dec_value_zeros dec_value_nat_dec is_digit_def)

lemma Itoa5_inject: "0 \<le> m \<Longrightarrow> 0 \<le> n \<Longrightarrow> Itoa5 m = Itoa5 n \<longleftrightarrow> m = n"
  using Itoa5_value by (metis eq_nat_nat_iff)

subsection \<open>Hexadecimal\<close>

fun hex_decode :: "string \<Rightarrow> string option" where
  "hex_decode [] = Some []"
| "hex_decode [c] = None"
| "hex_decode (a # b # s) = (case (hex_val a, hex_val b, hex_decode s) of
     (Some x, Some y, Some t) \<Rightarrow> Some (char_of (x * 16 + y) # t)
   | _ \<Rightarrow> None)"

lemma hex_val_digit: "hex_val (hex_digit n) = Some (n mod 16)"
proof -
  have "\<forall>m<16. hex_val (''0123456789abcdef'' ! m) = Some m" by code_simp
  then show ?thesis by (simp add: hex_digit_def)
qed

lemma hex_decode_encode: "hex_decode (hex_encode s) = Some s"
proof (induction s)
  case Nil
  then show ?case by simp
next
  case (Cons c s)
  have "(byte c div 16) mod 16 * 16 + byte c mod 16 = byte c"
    using byte_less [of c] by (simp add: less_mult_imp_div_less)
  moreover have "char_of (byte c) = c" by (simp add: byte_def)
  ultimately show ?case using Cons by (simp add: hex_val_digit)
qed

subsection \<open>Trimming\<close>

text \<open>strings.Trim with a cutset.\<close>

definition Trim :: "string \<Rightarrow> string \<Rightarrow> string" where
  "Trim s cs = rev (TrimLeft (rev (TrimLeft s cs)) cs)"

lemma Trim_id: "\<forall>c\<in>set s. c \<notin> set cs \<Longrightarrow> Trim s cs = s"
proof -
  assume h: "\<forall>c\<in>set s. c \<notin> set cs"
  have "dropWhile (\<lambda>c. c \<in> set cs) t = t" if "\<forall>c\<in>set t. c \<notin> set cs" for t :: string
    using that by (cases t) auto
  from this [of s] this [of "rev s"] h show ?thesis by (simp add: Trim_def TrimLeft_def)
qed

subsection \<open>Encoded strings\<close>

lemma rune_width_le: "rune_width (a # s) \<le> Suc (length s)"
  by (auto simp: Let_def is_cont_def split: list.split)

lemma rune_width_prefix:
  "rune_width (a # s) = Suc n \<Longrightarrow> rune_width (a # take n s @ t) = Suc n"
  by (auto simp: Let_def split: if_splits list.splits)

text \<open>What encoding/json writes is always valid UTF-8.\<close>

lemma json_str_utf8: "utf8_valid (json_str s)"
proof (induction s rule: json_str.induct)
  case 1
  then show ?case by simp
next
  case (2 a s)
  show ?case
  proof (cases "rune_width (a # s)")
    case 0
    have "byte CHR 0xEF = 239" "byte CHR 0xBF = 191" "byte CHR 0xBD = 189" by code_simp+
    with 0 2(1) show ?thesis by (simp add: is_cont_def)
  next
    case (Suc n)
    note r = rune_width_prefix [OF Suc, of "json_str (drop n s)"]
    have "n \<le> length s" using rune_width_le [of a s] Suc by simp
    then have "drop n (take n s @ json_str (drop n s)) = json_str (drop n s)" by simp
    with r Suc 2(2) [OF Suc] show ?thesis by (simp del: rune_width.simps)
  qed
qed

lemma utf8_append: "utf8_valid s \<Longrightarrow> utf8_valid t \<Longrightarrow> utf8_valid (s @ t)"
proof (induction s rule: utf8_valid.induct)
  case 1
  then show ?case by simp
next
  case (2 a s)
  then obtain n where n: "rune_width (a # s) = Suc n" "utf8_valid (drop n s)" by (auto split: nat.splits)
  have l: "n \<le> length s" using rune_width_le [of a s] n by simp
  have e: "a # s @ t = a # take n s @ (drop n s @ t)" by simp
  have "rune_width (a # s @ t) = Suc n" unfolding e by (rule rune_width_prefix [OF n(1)])
  moreover have "utf8_valid (drop n s @ t)" using 2 n by blast
  ultimately show ?case using l by (simp del: rune_width.simps)
qed

lemma Itoa_utf8: "utf8_valid (Itoa n)"
proof (rule utf8_ascii)
  have d: "byte c < 128" if "is_digit c" for c
    using that by (simp add: is_digit_def less_eq_char_def byte_def)
  have "byte CHR ''-'' < 128" by code_simp
  then show "\<forall>c\<in>set (Itoa n). byte c < 128" using nat_dec_digits d by (auto simp: Itoa_def)
qed

end
