(* ===== verification/Multipart.thy ===== *)
theory Multipart
  imports Publication Listing Go_Fmt
begin

text \<open>
  Multipart uploads: internal/storage/multipart.go. The parts of an upload are
  files below the upload's directory, listed in the upload's metadata record;
  completing it concatenates the requested parts into a new object version and
  publishes that as PutObject does. UploadPart and CompleteMultipartUpload are
  split where the code takes its locks, as PutObject is in Publication.
\<close>

subsection \<open>Part files\<close>

definition MaxPartNumber :: int where "MaxPartNumber = 10000"

definition partDataPath :: "string \<Rightarrow> PartInfo \<Rightarrow> string result" where
  "partDataPath directory part =
    (let name = ''part-'' @ Itoa5 (piPartNumber part) in
     if piBlobID part \<noteq> [] then
       (if \<not> isBlobID (piBlobID part) then Inl (ErrText ''invalid multipart blob ID'')
        else Inr (JoinPath [directory, name @ ''-'' @ piBlobID part]))
     else Inr (JoinPath [directory, name]))"

definition multipartBase :: "string \<Rightarrow> string \<Rightarrow> string" where
  "multipartBase dataDir bucket = Clean (JoinPath [dataDir, ''multipart'', bucket])"

text \<open>The directory of an upload's parts, with the check that it lies below the
  bucket's multipart directory.\<close>

definition uploadDir :: "string \<Rightarrow> string \<Rightarrow> string \<Rightarrow> string \<Rightarrow> string result" where
  "uploadDir dataDir bucket key uploadID =
    (case multipartDir dataDir bucket key uploadID of
       Inl x \<Rightarrow> Inl (S3Error ''InvalidArgument'' (err_text x))
     | Inr partDir \<Rightarrow>
         if \<not> HasPrefix partDir (multipartBase dataDir bucket @ ''/'')
         then Inl (S3Error ''InvalidArgument'' errInvalidUploadID) else Inr partDir)"

definition checkObjectPath :: "string \<Rightarrow> string \<Rightarrow> string \<Rightarrow> unit result" where
  "checkObjectPath dataDir bucket key =
    (case objectPath dataDir bucket key of
       Inl x \<Rightarrow> Inl (S3Error ''InvalidArgument'' (err_text x)) | Inr _ \<Rightarrow> Inr ())"

definition ErrNoSuchUpload :: gerr where
  "ErrNoSuchUpload = S3Error ''NoSuchUpload'' errUploadNotFound"

text \<open>GetMultipartMeta with the not-found error as every operation reports it.\<close>

definition findUpload :: "'b bolt \<Rightarrow> string \<Rightarrow> string \<Rightarrow> string \<Rightarrow> (MultipartMeta, 'b) eop" where
  "findUpload B bucket key uploadID =
    opM (tryM (metaM (\<lambda>m. GetMultipartMeta B m bucket key uploadID))) (\<lambda>r.
    case r of
      Inl x \<Rightarrow> if x = ErrMultipartMetaNotFound then failM ErrNoSuchUpload else failM x
    | Inr meta \<Rightarrow> retM meta)"

subsection \<open>CreateMultipartUpload\<close>

definition newUpload :: "env \<Rightarrow> SSECParams option \<Rightarrow> string \<Rightarrow> string \<Rightarrow> string \<Rightarrow> MultipartMeta" where
  "newUpload ev ssec bucket key contentType =
    \<lparr>mpUploadID = evUUID ev, mpBucket = bucket, mpKey = key, mpContentType = contentType,
     mpCreated = evNow ev, mpParts = [],
     mpSSECustomerAlgorithm = (case ssec of None \<Rightarrow> [] | Some p \<Rightarrow> scAlgorithm p),
     mpSSECustomerKeyMD5 = (case ssec of None \<Rightarrow> [] | Some p \<Rightarrow> scKeyMD5 p)\<rparr>"

definition CreateMultipartUpload ::
  "'b bolt \<Rightarrow> env \<Rightarrow> SSECParams option \<Rightarrow> string \<Rightarrow> string \<Rightarrow> string \<Rightarrow> (MultipartUploadInfo, 'b) eop" where
  "CreateMultipartUpload B ev ssec bucket key contentType =
    opM (liftM (validateBucketName bucket)) (\<lambda>_.
    opM (\<lambda>e. liftM (checkObjectPath (egDataDir e) bucket key) e) (\<lambda>_.
    opM (liftM (validateNewKey key)) (\<lambda>_.
    opM (metaM (\<lambda>m. bucketMustExist B m bucket)) (\<lambda>_.
    opM (\<lambda>e. liftM (uploadDir (egDataDir e) bucket key (evUUID ev)) e) (\<lambda>_.
    opM (sysM ev CMkdir ''failed to create multipart directory'') (\<lambda>_.
    opM (sysM ev CSyncParents ''sync'') (\<lambda>_.
    opM (lockBucketForCommit B bucket) (\<lambda>_.
    opM (metaM (\<lambda>m. PutMultipartMeta B m (newUpload ev ssec bucket key contentType))) (\<lambda>_.
    retM \<lparr>muUploadID = evUUID ev, muBucket = bucket, muKey = key, muCreated = evNow ev\<rparr>)))))))))"

subsection \<open>UploadPart\<close>

definition ErrPartTooLarge :: gerr where
  "ErrPartTooLarge = S3Error ''EntityTooLarge'' ''Your proposed upload exceeds the maximum allowed part size.''"

text \<open>Every part must match the encryption mode declared at creation.\<close>

definition checkPartSSEC :: "MultipartMeta \<Rightarrow> SSECParams option \<Rightarrow> unit result" where
  "checkPartSSEC meta ssec =
    (if mpSSECustomerAlgorithm meta \<noteq> [] \<and> ssec = None then
       Inl (S3Error ''InvalidArgument'' ''This multipart upload was created with SSE-C; every part must supply the customer key'')
     else if mpSSECustomerAlgorithm meta = [] \<and> ssec \<noteq> None then
       Inl (S3Error ''InvalidArgument'' ''This multipart upload was not created with SSE-C and cannot accept a customer key'')
     else if mpSSECustomerAlgorithm meta \<noteq> [] \<and> scKeyMD5 (the ssec) \<noteq> mpSSECustomerKeyMD5 meta then
       Inl (S3Error ''InvalidDigest'' ''The customer-provided encryption key MD5 does not match'')
     else Inr ())"

text \<open>The bytes of a part file, with the length and hash of the part's own data.\<close>

definition writePartData ::
  "codec \<Rightarrow> env \<Rightarrow> int \<Rightarrow> SSECParams option \<Rightarrow> reader \<Rightarrow> int \<Rightarrow> (string \<times> int \<times> string) result" where
  "writePartData cd ev maxObjectSize ssec rd size' =
    (if evFails ev CTemp then Inl (ErrText ''failed to create temp part file'')
     else if ssec \<noteq> None \<and> evFails ev CRand then Inl (ErrText ''failed to generate random IV'')
     else if (case ssec of None \<Rightarrow> False | Some p \<Rightarrow> \<not> aes_key_ok (scKey p)) then Inl (ErrText ''failed to create AES cipher'')
     else
       let capped = (if maxObjectSize > 0 then limitReader rd (int64 (maxObjectSize + 1)) else rd);
           n = int (length (rdData capped)) in
       if rdFails capped \<or> evFails ev CWrite then Inl (ErrText ''failed to write part data'')
       else if maxObjectSize > 0 \<and> n > maxObjectSize then Inl ErrPartTooLarge
       else if evFails ev CFsync then Inl (ErrText ''sync object data'')
       else if size' \<ge> 0 \<and> n \<noteq> size' then Inl (S3Error ''BadRequest'' ''Size mismatch'')
       else
         let stored = (case ssec of None \<Rightarrow> rdData capped
               | Some p \<Rightarrow> evIV ev @ ctr_xor (cdAES cd (scKey p)) (evIV ev) 0 (rdData capped)) in
         Inr (stored, n, hex_encode (cdMD5 cd (rdData capped))))"

text \<open>The entry of a part number in the upload's record is replaced in place, or the
  new one appended; the entry it replaces is returned.\<close>

fun replacePart :: "PartInfo \<Rightarrow> PartInfo list \<Rightarrow> PartInfo option \<times> PartInfo list" where
  "replacePart q [] = (None, [q])"
| "replacePart q (p # ps) =
    (if piPartNumber p = piPartNumber q then (Some p, q # ps)
     else (case replacePart q ps of (old, qs) \<Rightarrow> (old, p # qs)))"

definition removePart :: "string \<Rightarrow> PartInfo option \<Rightarrow> (unit, 'b) eop" where
  "removePart partDir r = (case r of
     None \<Rightarrow> retM ()
   | Some p \<Rightarrow> (case partDataPath partDir p of Inl _ \<Rightarrow> retM () | Inr path \<Rightarrow> removeObjectFile path))"

text \<open>Up to the part lock: the checks. Under the part lock: the part file. Under the
  upload lock: the metadata. The new file is removed again on every error after its
  path is known, the old one only after the metadata has committed.\<close>

definition checkUploadPart ::
  "'b bolt \<Rightarrow> SSECParams option \<Rightarrow> string \<Rightarrow> string \<Rightarrow> string \<Rightarrow> int \<Rightarrow> int \<Rightarrow> (unit, 'b) eop" where
  "checkUploadPart B ssec bucket key uploadID partNumber size' =
    opM (liftM (validateBucketName bucket)) (\<lambda>_.
    if partNumber < 1 \<or> partNumber > MaxPartNumber then
      failM (S3Error ''InvalidArgument'' ''Part number must be an integer between 1 and 10000, inclusive.'')
    else
    opM (\<lambda>e. liftM (checkObjectPath (egDataDir e) bucket key) e) (\<lambda>_.
    opM (\<lambda>e. if egMaxObjectSize e > 0 \<and> size' > egMaxObjectSize e then failM ErrPartTooLarge e else retM () e) (\<lambda>_.
    opM (findUpload B bucket key uploadID) (\<lambda>meta.
    liftM (checkPartSSEC meta ssec)))))"

definition commitPart ::
  "'b bolt \<Rightarrow> string \<Rightarrow> string \<Rightarrow> string \<Rightarrow> PartInfo \<Rightarrow> (PartInfo option, 'b) eop" where
  "commitPart B bucket key uploadID info =
    opM (findUpload B bucket key uploadID) (\<lambda>meta.
    case replacePart info (mpParts meta) of (previous, parts) \<Rightarrow>
    opM (metaM (\<lambda>m. PutMultipartMeta B m (meta\<lparr>mpParts := parts\<rparr>))) (\<lambda>_.
    retM previous))"

definition publishPart ::
  "'b bolt \<Rightarrow> codec \<Rightarrow> env \<Rightarrow> SSECParams option \<Rightarrow> string \<Rightarrow> string \<Rightarrow> string \<Rightarrow> int \<Rightarrow> reader \<Rightarrow> int
   \<Rightarrow> string \<Rightarrow> string \<Rightarrow> (PartInfo \<times> PartInfo option, 'b) eop" where
  "publishPart B cd ev ssec bucket key uploadID partNumber rd size' partID partPath =
    opM (\<lambda>e. liftM (writePartData cd ev (egMaxObjectSize e) ssec rd size') e) (\<lambda>(stored, n, etag).
    opM (\<lambda>e. if \<not> HasPrefix partPath (multipartBase (egDataDir e) bucket @ ''/'')
             then failM (S3Error ''InvalidArgument'' errInvalidUploadID) e else retM () e) (\<lambda>_.
    opM (sysM ev CRename ''failed to rename part file'') (\<lambda>_.
    opM (filesM (\<lambda>fs. fs(partPath \<mapsto> stored))) (\<lambda>_.
    opM (sysM ev CSyncParents ''sync'') (\<lambda>_.
    let info = \<lparr>piBlobID = partID, piPartNumber = partNumber, piETag = etag, piSize = n\<rparr> in
    opM (commitPart B bucket key uploadID info) (\<lambda>previous.
    retM (info, previous)))))))"

definition UploadPart ::
  "'b bolt \<Rightarrow> codec \<Rightarrow> env \<Rightarrow> SSECParams option \<Rightarrow> string \<Rightarrow> string \<Rightarrow> string \<Rightarrow> int \<Rightarrow> reader \<Rightarrow> int
   \<Rightarrow> (PartInfo, 'b) eop" where
  "UploadPart B cd ev ssec bucket key uploadID partNumber rd size' =
    opM (checkUploadPart B ssec bucket key uploadID partNumber size') (\<lambda>_.
    opM (\<lambda>e. liftM (uploadDir (egDataDir e) bucket key uploadID) e) (\<lambda>partDir.
    opM (sysM ev CRand ''rand'') (\<lambda>_.
    let partID = newBlobID (evBlobRnd ev) in
    opM (liftM (partDataPath partDir \<lparr>piBlobID = partID, piPartNumber = partNumber, piETag = [], piSize = 0\<rparr>)) (\<lambda>partPath.
    opM (tryM (publishPart B cd ev ssec bucket key uploadID partNumber rd size' partID partPath)) (\<lambda>r.
    case r of
      Inl x \<Rightarrow> opM (removeObjectFile partPath) (\<lambda>_. failM x)
    | Inr (info, previous) \<Rightarrow> opM (removePart partDir previous) (\<lambda>_. retM info))))))"

subsection \<open>CompleteMultipartUpload\<close>

definition checkCompleteSSEC :: "MultipartMeta \<Rightarrow> SSECParams option \<Rightarrow> unit result" where
  "checkCompleteSSEC meta ssec =
    (if mpSSECustomerAlgorithm meta \<noteq> [] then
       (case ssec of
          None \<Rightarrow> Inl (S3Error ''InvalidArgument'' ''This multipart upload used SSE-C; the customer key must be supplied to complete it'')
        | Some p \<Rightarrow> if scKeyMD5 p \<noteq> mpSSECustomerKeyMD5 meta
            then Inl (S3Error ''InvalidDigest'' ''The customer-provided encryption key MD5 does not match'') else Inr ())
     else if ssec \<noteq> None then
       Inl (S3Error ''InvalidArgument'' ''This multipart upload was not created with SSE-C and cannot be completed with a customer key'')
     else Inr ())"

fun duplicatePart :: "CompletePart list \<Rightarrow> bool" where
  "duplicatePart (p # q # ps) = (cpPartNumber q = cpPartNumber p \<or> duplicatePart (q # ps))"
| "duplicatePart _ = False"

text \<open>The map of uploaded parts: a later entry of the same number wins.\<close>

definition uploadedParts :: "PartInfo list \<Rightarrow> int \<Rightarrow> PartInfo option" where
  "uploadedParts ps = map_of (rev (map (\<lambda>p. (piPartNumber p, p)) ps))"

definition minPartSize :: int where "minPartSize = 5242880"

definition dquote :: string where "dquote = [CHR 0x22]"

fun matchParts :: "bool \<Rightarrow> (int \<Rightarrow> PartInfo option) \<Rightarrow> CompletePart list \<Rightarrow> PartInfo list result" where
  "matchParts nomin up [] = Inr []"
| "matchParts nomin up (p # ps) =
    (case up (cpPartNumber p) of
       None \<Rightarrow> Inl (S3Error ''InvalidPart'' ''One or more of the specified parts could not be found.'')
     | Some u \<Rightarrow>
         if Trim (piETag u) dquote \<noteq> Trim (cpETag p) dquote then Inl (S3Error ''InvalidPart'' ''ETag mismatch'')
         else if \<not> nomin \<and> ps \<noteq> [] \<and> piSize u < minPartSize
         then Inl (S3Error ''EntityTooSmall'' ''Your proposed upload is smaller than the minimum allowed size.'')
         else bindE (matchParts nomin up ps) (\<lambda>us. Inr (u # us)))"

text \<open>The uploaded parts a completion request names, in part order.\<close>

definition requestedParts :: "bool \<Rightarrow> MultipartMeta \<Rightarrow> CompletePart list \<Rightarrow> PartInfo list result" where
  "requestedParts nomin meta parts =
    (let parts = sort_key cpPartNumber parts in
     if duplicatePart parts then Inl (S3Error ''InvalidPartOrder'' ''Part is listed more than once.'')
     else if parts = [] then Inl (S3Error ''InvalidPart'' ''You must specify at least one part.'')
     else matchParts nomin (uploadedParts (mpParts meta)) parts)"

fun partSums :: "PartInfo list \<Rightarrow> string result" where
  "partSums [] = Inr []"
| "partSums (p # ps) = (case hex_decode (Trim (piETag p) dquote) of
     None \<Rightarrow> Inl (ErrText ''part has a malformed stored ETag'')
   | Some sm \<Rightarrow> if length sm \<noteq> 16 then Inl (ErrText ''part has a malformed stored ETag'')
       else bindE (partSums ps) (\<lambda>s. Inr (sm @ s)))"

definition multipartETag :: "codec \<Rightarrow> PartInfo list \<Rightarrow> string result" where
  "multipartETag cd ps = bindE (partSums ps) (\<lambda>s. Inr (hex_encode (cdMD5 cd s) @ ''-'' @ Itoa (int (length ps))))"

text \<open>The data of a part file: with a key, decrypted under the part's own IV.\<close>

definition readPart :: "codec \<Rightarrow> SSECParams option \<Rightarrow> string \<Rightarrow> string result" where
  "readPart cd key bytes = (case key of
     None \<Rightarrow> Inr bytes
   | Some p \<Rightarrow>
       if length bytes < 16 then Inl (ErrText ''failed to read part IV'')
       else if \<not> aes_key_ok (scKey p) then Inl (ErrText ''failed to create AES cipher'')
       else Inr (ctr_xor (cdAES cd (scKey p)) (take 16 bytes) 0 (drop 16 bytes)))"

fun copyParts ::
  "codec \<Rightarrow> env \<Rightarrow> files \<Rightarrow> string \<Rightarrow> string \<Rightarrow> SSECParams option \<Rightarrow> PartInfo list \<Rightarrow> string list result" where
  "copyParts cd ev fs base partDir key [] = Inr []"
| "copyParts cd ev fs base partDir key (p # ps) =
    bindE (partDataPath partDir p) (\<lambda>path.
      if \<not> HasPrefix path base then Inl (S3Error ''InvalidArgument'' errInvalidUploadID)
      else if evFails ev COpen then Inl (ErrText ''part not found'')
      else (case fs path of
          None \<Rightarrow> Inl (ErrText ''part not found'')
        | Some bytes \<Rightarrow> bindE (readPart cd key bytes) (\<lambda>d.
            if evFails ev CCopy then Inl (ErrText ''failed to copy part'')
            else bindE (copyParts cd ev fs base partDir key ps) (\<lambda>ds. Inr (d # ds)))))"

definition sumSizes :: "int list \<Rightarrow> int" where
  "sumSizes ns = foldl (\<lambda>a n. int64 (a + n)) 0 ns"

text \<open>The key the parts were encrypted with, nil unless the upload was created with one.\<close>

definition uploadKey :: "MultipartMeta \<Rightarrow> SSECParams option \<Rightarrow> SSECParams option" where
  "uploadKey meta ssec = (if mpSSECustomerAlgorithm meta \<noteq> [] then ssec else None)"

text \<open>The temporary file of the assembled object.\<close>

definition assembleObject ::
  "codec \<Rightarrow> env \<Rightarrow> string \<Rightarrow> files \<Rightarrow> SSECParams option \<Rightarrow> MultipartMeta \<Rightarrow> string \<Rightarrow> string \<Rightarrow> string
   \<Rightarrow> PartInfo list \<Rightarrow> written result" where
  "assembleObject cd ev dataDir fs ssec meta bucket key uploadID ps =
    (let k = uploadKey meta ssec in
     if evFails ev CTemp then Inl (ErrText ''failed to create temp file'')
     else if k \<noteq> None \<and> evFails ev CRand then Inl (ErrText ''failed to generate random IV'')
     else if (case k of None \<Rightarrow> False | Some p \<Rightarrow> \<not> aes_key_ok (scKey p)) then Inl (ErrText ''failed to create AES cipher'')
     else
       let compressed = shouldCompress (mpContentType meta) (sumSizes (map piSize ps)) in
       bindE (multipartETag cd ps) (\<lambda>etag.
       bindE (uploadDir dataDir bucket key uploadID) (\<lambda>partDir.
       bindE (copyParts cd ev fs (multipartBase dataDir bucket @ ''/'') partDir k ps) (\<lambda>ds.
       if evFails ev CFsync then Inl (ErrText ''sync object data'')
       else
         let body = (if compressed then cdGzip cd (concat ds) else concat ds);
             stored = (case k of None \<Rightarrow> body | Some p \<Rightarrow> evIV ev @ ctr_xor (cdAES cd (scKey p)) (evIV ev) 0 body) in
         Inr \<lparr>wrTemp = stored, wrSize = sumSizes (map (\<lambda>d. int (length d)) ds), wrETag = etag, wrCompressed = compressed\<rparr>))))"

definition prepareComplete ::
  "'b bolt \<Rightarrow> codec \<Rightarrow> env \<Rightarrow> SSECParams option \<Rightarrow> string \<Rightarrow> string \<Rightarrow> string \<Rightarrow> CompletePart list
   \<Rightarrow> (MultipartMeta \<times> string \<times> string \<times> written, 'b) eop" where
  "prepareComplete B cd ev ssec bucket key uploadID parts =
    (if hasPathTraversal key \<or> hasPathTraversal bucket \<or> hasPathTraversal uploadID
     then failM (S3Error ''InvalidArgument'' errInvalidKeyTraversal)
     else
    opM (liftM (validateBucketName bucket)) (\<lambda>_.
    opM (findUpload B bucket key uploadID) (\<lambda>meta.
    opM (liftM (checkCompleteSSEC meta ssec)) (\<lambda>_.
    opM (\<lambda>e. liftM (requestedParts (egDisableMinPartSize e) meta parts) e) (\<lambda>ps.
    opM (metaM (\<lambda>m. GetBucketVersioning B m bucket)) (\<lambda>status.
    opM (liftM (validateNewKey key)) (\<lambda>_.
    opM (\<lambda>e. case objectPathWithVersion (egDataDir e) bucket key (versionFor ev status) of
               Inl x \<Rightarrow> failM (S3Error ''InvalidArgument'' (err_text x)) e
             | Inr _ \<Rightarrow> retM () e) (\<lambda>_.
    opM (\<lambda>e. liftM (newBlob (egDataDir e) bucket (evBlobRnd ev) (\<not> evFails ev CMkdir)) e) (\<lambda>(blobID, path).
    opM (\<lambda>e. liftM (assembleObject cd ev (egDataDir e) (egFiles e) ssec meta bucket key uploadID ps) e) (\<lambda>w.
    retM (meta, blobID, path, w)))))))))))"

definition completeInfo :: "env \<Rightarrow> MultipartMeta \<Rightarrow> string \<Rightarrow> string \<Rightarrow> string \<Rightarrow> written \<Rightarrow> ObjectInfo" where
  "completeInfo ev meta bucket key versionID w =
    \<lparr>oiBucket = bucket, oiKey = key, oiSize = wrSize w, oiETag = wrETag w,
     oiContentType = (if mpContentType meta = [] then ''application/octet-stream'' else mpContentType meta),
     oiLastModified = evNow ev, oiVersionID = versionID, oiIsLatest = False, oiNoncurrentSince = 0,
     oiIsDeleteMarker = False,
     oiSSECustomerAlgorithm = mpSSECustomerAlgorithm meta,
     oiSSECustomerKeyMD5 = (if mpSSECustomerAlgorithm meta \<noteq> [] then mpSSECustomerKeyMD5 meta else []),
     oiCompressed = wrCompressed w, oiBlobID = []\<rparr>"

text \<open>Failures here are only logged: the object is already published.\<close>

definition forgetUpload :: "'b bolt \<Rightarrow> env \<Rightarrow> string \<Rightarrow> string \<Rightarrow> string \<Rightarrow> (unit, 'b) eop" where
  "forgetUpload B ev bucket key uploadID =
    opM (tryM (metaM (\<lambda>m. DeleteMultipartMeta B m bucket key uploadID))) (\<lambda>r.
    case r of
      Inl _ \<Rightarrow> retM ()
    | Inr _ \<Rightarrow> (\<lambda>e. case multipartUploadPath (egDataDir e) bucket uploadID of
          Inl _ \<Rightarrow> retM () e
        | Inr path \<Rightarrow> if evFails ev CRemoveAll then retM () e else filesM (RemoveAll path) e))"

definition commitComplete ::
  "'b bolt \<Rightarrow> env \<Rightarrow> string \<Rightarrow> string \<Rightarrow> string \<Rightarrow> MultipartMeta \<times> string \<times> string \<times> written \<Rightarrow> (ObjectInfo, 'b) eop" where
  "commitComplete B ev bucket key uploadID p =
    (case p of (meta, blobID, path, w) \<Rightarrow>
    opM (lockBucketForCommit B bucket) (\<lambda>_.
    opM (metaM (\<lambda>m. GetBucketVersioning B m bucket)) (\<lambda>status.
    opM (commitObject B ev (wrTemp w) blobID path (completeInfo ev meta bucket key (versionFor ev status) w)) (\<lambda>info.
    opM (forgetUpload B ev bucket key uploadID) (\<lambda>_.
    opM (triggerWebhook ''ObjectCreated:CompleteMultipartUpload'' info) (\<lambda>_.
    opM (MirrorSync bucket key ''PUT'') (\<lambda>_.
    retM info)))))))"

definition CompleteMultipartUpload ::
  "'b bolt \<Rightarrow> codec \<Rightarrow> env \<Rightarrow> SSECParams option \<Rightarrow> string \<Rightarrow> string \<Rightarrow> string \<Rightarrow> CompletePart list
   \<Rightarrow> (ObjectInfo, 'b) eop" where
  "CompleteMultipartUpload B cd ev ssec bucket key uploadID parts =
    opM (prepareComplete B cd ev ssec bucket key uploadID parts) (commitComplete B ev bucket key uploadID)"

subsection \<open>AbortMultipartUpload\<close>

definition removeUploadDir :: "env \<Rightarrow> string \<Rightarrow> (unit, 'b) eop" where
  "removeUploadDir ev path =
    opM (sysM ev CRemoveAll ''remove multipart data'') (\<lambda>_. filesM (RemoveAll path))"

definition AbortMultipartUpload :: "'b bolt \<Rightarrow> env \<Rightarrow> string \<Rightarrow> string \<Rightarrow> string \<Rightarrow> (unit, 'b) eop" where
  "AbortMultipartUpload B ev bucket key uploadID =
    opM (liftM (validateBucketName bucket)) (\<lambda>_.
    opM (\<lambda>e. liftM (checkObjectPath (egDataDir e) bucket key) e) (\<lambda>_.
    opM (findUpload B bucket key uploadID) (\<lambda>_.
    opM (\<lambda>e. case multipartUploadPath (egDataDir e) bucket uploadID of
               Inl x \<Rightarrow> failM (S3Error ''InvalidArgument'' (err_text x)) e
             | Inr path \<Rightarrow> retM path e) (\<lambda>path.
    opM (removeUploadDir ev path) (\<lambda>_.
    metaM (\<lambda>m. DeleteMultipartMeta B m bucket key uploadID))))))"

end
