(* ===== verification/Multipart_Paths.thy ===== *)
theory Multipart_Paths
  imports Multipart Engine_Refs
begin

text \<open>
  Where the files of uploads lie: below the bucket's multipart directory, so that
  none of them is the data of an object, and with a name of its own for every part
  number.
\<close>

subsection \<open>Part names\<close>

lemma takeWhile_digits: "\<forall>c\<in>set s. is_digit c \<Longrightarrow> t = [] \<or> \<not> is_digit (hd t) \<Longrightarrow> takeWhile is_digit (s @ t) = s"
  by (cases t) (auto simp: takeWhile_append)

definition part_name :: "PartInfo \<Rightarrow> string" where
  "part_name p = ''part-'' @ Itoa5 (piPartNumber p) @ (if piBlobID p = [] then [] else ''-'' @ piBlobID p)"

lemma partDataPath_name: "partDataPath dir p = Inr path \<Longrightarrow> path = JoinPath [dir, part_name p] \<and> (piBlobID p \<noteq> [] \<longrightarrow> isBlobID (piBlobID p))"
  by (auto simp: partDataPath_def part_name_def Let_def split: if_splits)

lemma part_name_number:
  assumes "part_name p = part_name q" "0 \<le> piPartNumber p" "0 \<le> piPartNumber q"
  shows "piPartNumber p = piPartNumber q"
proof -
  have m: "\<not> is_digit CHR ''-''" by code_simp
  have "takeWhile is_digit (drop 5 (part_name r)) = Itoa5 (piPartNumber r)" if "0 \<le> piPartNumber r" for r
    using Itoa5_value [OF that] m by (simp add: part_name_def takeWhile_digits)
  with assms Itoa5_inject show ?thesis by metis
qed

lemma part_name_comp:
  assumes "0 \<le> piPartNumber p" "piBlobID p \<noteq> [] \<longrightarrow> isBlobID (piBlobID p)"
  shows "comp_ok (part_name p) \<and> part_name p \<noteq> ''..''"
proof -
  have d: "\<not> is_digit CHR ''/''" by code_simp
  have "CHR ''/'' \<notin> set (Itoa5 (piPartNumber p))" using Itoa5_value [OF assms(1)] d by auto
  moreover have "CHR ''/'' \<notin> set (piBlobID p)" using assms(2) is_hex_cases by (auto simp: isBlobID_def)
  ultimately show ?thesis by (auto simp: comp_ok_def part_name_def)
qed

subsection \<open>Directories\<close>

definition clean_path :: "string \<Rightarrow> bool" where
  "clean_path p \<longleftrightarrow> is_rooted p \<and> p = render_path True (path_comps p)"

lemma Clean_clean: "is_rooted p \<Longrightarrow> clean_path (Clean p)"
  by (simp add: clean_path_def Clean_render render_rooted path_comps_render path_comps_rooted_ok)

lemma render_clean: "\<forall>c\<in>set cs. comp_ok c \<and> c \<noteq> ''..'' \<Longrightarrow> clean_path (render_path True cs)"
  by (simp add: clean_path_def render_rooted path_comps_render)

lemma clean_eq: "clean_path p \<Longrightarrow> clean_path q \<Longrightarrow> path_comps p = path_comps q \<Longrightarrow> p = q"
  by (metis clean_path_def)

lemma clean_prefix:
  assumes "clean_path a" "clean_path b" "path_comps a \<noteq> []" "b = a \<or> HasPrefix b (a @ ''/'')"
  shows "prefix (path_comps a) (path_comps b)"
proof -
  have a: "is_rooted a" "render_path True (path_comps a) = a" and b: "is_rooted b" "render_path True (path_comps b) = b"
    using assms(1,2) unfolding clean_path_def by simp_all
  show ?thesis
    by (rule prefix_render_comps [OF path_comps_rooted_ok [OF a(1)] path_comps_rooted_ok [OF b(1)] assms(3)])
      (use assms(4) a b in simp)
qed

lemma multipartBase_comps:
  assumes "is_rooted dd" "IsValidBucketName b"
  shows "path_comps (multipartBase dd b) = path_comps dd @ [''multipart'', b]" "clean_path (multipartBase dd b)"
proof -
  have m: "comp_ok ''multipart'' \<and> ''multipart'' \<noteq> ''..''" by (simp add: comp_ok_def)
  have r: "is_rooted (JoinPath [dd, ''multipart'', b])" using assms(1) by (rule JoinPath_rooted)
  have 1: "JoinPath [dd, ''multipart'', b] = render_path True (path_comps dd @ [''multipart'', b])"
    by (rule JoinPath_comps) (use assms m bucket_comp [OF assms(2)] in auto)
  show "path_comps (multipartBase dd b) = path_comps dd @ [''multipart'', b]"
    unfolding multipartBase_def path_comps_Clean [OF r] unfolding 1
    by (rule path_comps_render) (use path_comps_rooted_ok [OF assms(1)] m bucket_comp [OF assms(2)] in auto)
  show "clean_path (multipartBase dd b)" unfolding multipartBase_def by (rule Clean_clean [OF r])
qed

text \<open>A path below the multipart directory of a bucket.\<close>

definition multipart_path :: "string \<Rightarrow> string \<Rightarrow> string \<Rightarrow> bool" where
  "multipart_path dd b p \<longleftrightarrow> clean_path p \<and> prefix (path_comps dd @ [''multipart'', b]) (path_comps p)"

lemma uploadPath_multipart:
  assumes d: "is_rooted dd" and b: "IsValidBucketName b" and p: "multipartUploadPath dd b u = Inr p"
  shows "multipart_path dd b p"
proof -
  note B = multipartBase_comps [OF d b]
  have p': "p = Clean (JoinPath [multipartBase dd b, u])" and w: "within (multipartBase dd b) p"
    using p by (auto simp: multipartUploadPath_def multipartBase_def Let_def split: if_splits)
  have r: "is_rooted (JoinPath [multipartBase dd b, u])"
    using B(2) by (auto simp: clean_path_def intro: JoinPath_rooted)
  have c: "clean_path p" unfolding p' by (rule Clean_clean [OF r])
  moreover have "prefix (path_comps (multipartBase dd b)) (path_comps p)"
    by (rule clean_prefix [OF B(2) c]) (use w B in \<open>auto simp: within_def\<close>)
  ultimately show ?thesis by (simp add: multipart_path_def B)
qed

lemma uploadDir_multipart:
  assumes d: "is_rooted dd" and b: "IsValidBucketName b" and p: "uploadDir dd b k u = Inr p"
  shows "multipart_path dd b p"
proof -
  note B = multipartBase_comps [OF d b]
  have m: "multipartDir dd b k u = Inr p" and h: "HasPrefix p (multipartBase dd b @ ''/'')"
    using p by (auto simp: uploadDir_def split: sum.splits if_splits)
  from m obtain q where q: "multipartUploadPath dd b u = Inr q" and p': "p = Clean (JoinPath [Clean q, k])"
    unfolding multipartDir_def Let_def if_Inl_iff bindE_Inr_iff by auto
  have "is_rooted q" using uploadPath_multipart [OF d b q] by (simp add: multipart_path_def clean_path_def)
  then have c: "clean_path p" unfolding p' by (intro Clean_clean JoinPath_rooted Clean_rooted)
  moreover have "prefix (path_comps (multipartBase dd b)) (path_comps p)"
    by (rule clean_prefix [OF B(2) c]) (use h B in auto)
  ultimately show ?thesis by (simp add: multipart_path_def B)
qed

lemma part_path_comps:
  assumes d: "clean_path dir" and n: "0 \<le> piPartNumber p" and p: "partDataPath dir p = Inr path"
  shows "clean_path path \<and> path_comps path = path_comps dir @ [part_name p]"
proof -
  note N = partDataPath_name [OF p]
  have c: "comp_ok (part_name p) \<and> part_name p \<noteq> ''..''" by (rule part_name_comp [OF n]) (use N in blast)
  have r: "is_rooted dir" using d by (simp add: clean_path_def)
  have "path = render_path True (path_comps dir @ [part_name p])"
    using N JoinPath_comps [OF r, of "[part_name p]"] c by simp
  moreover have "\<forall>x\<in>set (path_comps dir @ [part_name p]). comp_ok x \<and> x \<noteq> ''..''"
    using path_comps_rooted_ok [OF r] c by auto
  ultimately show ?thesis using render_clean path_comps_render by simp
qed

lemma part_path_multipart:
  "multipart_path dd b dir \<Longrightarrow> 0 \<le> piPartNumber p \<Longrightarrow> partDataPath dir p = Inr path \<Longrightarrow> multipart_path dd b path"
  using part_path_comps [of dir p path] by (auto simp: multipart_path_def intro: prefix_order.trans)

lemma part_path_inject:
  assumes "clean_path dir" "0 \<le> piPartNumber p" "0 \<le> piPartNumber q"
    and "partDataPath dir p = Inr path" "partDataPath dir q = Inr path"
  shows "piPartNumber p = piPartNumber q"
  using part_path_comps [OF assms(1,2,4)] part_path_comps [OF assms(1,3,5)] part_name_number assms(2,3) by simp

subsection \<open>No upload file is the data of an object\<close>

lemma ident_path_within:
  assumes d: "is_rooted dd" and b: "IsValidBucketName b" and p: "ident_path dd (b, k, v, x) = Inr p"
  shows "clean_path p \<and> (\<exists>s\<in>{''blobs'', ''buckets''}. prefix (path_comps dd @ [s, b]) (path_comps p))"
proof (cases "x = []")
  case True
  with p have o: "objectPathWithVersion dd b k v = Inr p" by (simp add: ident_path.simps)
  then obtain q where q: "objectPath dd b k = Inr q" and p': "p = Clean (if v \<noteq> [] then q @ ''.'' @ v else q)"
    unfolding objectPathWithVersion_def Let_def bindE_Inr_iff if_Inl_iff by (clarsimp simp del: split_paired_Ex)
  have "is_rooted (if v \<noteq> [] then q @ ''.'' @ v else q)"
    using objectPath_rooted [OF q d] by (auto simp: is_rooted_def prefix_def)
  then have "clean_path p" unfolding p' by (rule Clean_clean)
  with objectPathWithVersion_within [OF d b o] show ?thesis by blast
next
  case False
  with p have i: "isBlobID x" and p': "p = blobPath dd b x" by (auto simp: ident_path.simps split: if_splits)
  let ?cs = "path_comps dd @ [''blobs'', b, take 2 x, take 2 (drop 2 x), x]"
  have "\<forall>c\<in>set ?cs. comp_ok c \<and> c \<noteq> ''..''"
    using path_comps_rooted_ok [OF d] bucket_comp [OF b] isBlobID_parts [OF i] by (auto simp: comp_ok_def)
  then have "clean_path p" "path_comps p = ?cs"
    unfolding p' blobPath_comps [OF d b i] using render_clean path_comps_render by blast+
  then show ?thesis by (auto simp: prefix_def)
qed

lemma ids_valid: "meta_ok B m \<Longrightarrow> x \<in> ids B m \<Longrightarrow> IsValidBucketName (fst x)"
proof -
  assume m: "meta_ok B m" and x: "x \<in> ids B m"
  then have "x \<in> map_ids (fst x) (obj_at B m (fst x))" using ids_bucket by blast
  then have "obj_at B m (fst x) \<noteq> Map.empty" by (auto simp: map_ids_def key_ids_def cur_of_def hist_of_def)
  then obtain db where "msDbs m (fst x) = Some db" by (auto simp: obj_at_def split: option.splits)
  with m show ?thesis by (simp add: meta_ok_def)
qed

lemma multipart_not_object:
  assumes d: "is_rooted dd" and x: "meta_ok B m" "x \<in> ids B m" and p: "multipart_path dd b p"
    and q: "ident_path dd x = Inr q"
  shows "q \<noteq> p \<and> \<not> HasPrefix q (p @ ''/'')"
proof -
  obtain b' k v y where e: "x = (b', k, v, y)" by (cases x)
  have b': "IsValidBucketName b'" using ids_valid [OF x] e by simp
  from ident_path_within [OF d b' q [unfolded e]] obtain s where s0: "s \<in> {''blobs'', ''buckets''}"
    and s': "clean_path q" "prefix (path_comps dd @ [s, b']) (path_comps q)" by blast
  have "s \<noteq> ''multipart''" using s0 by auto
  note s = this s'
  have "\<not> prefix (path_comps p) (path_comps q)"
  proof
    assume "prefix (path_comps p) (path_comps q)"
    with p have "prefix (path_comps dd @ [''multipart'', b]) (path_comps q)"
      by (auto simp: multipart_path_def intro: prefix_order.trans)
    with s(3) have "prefix (path_comps dd @ [''multipart'', b]) (path_comps dd @ [s, b']) \<or>
        prefix (path_comps dd @ [s, b']) (path_comps dd @ [''multipart'', b])" using prefix_same_cases by blast
    with s(1) show False by auto
  qed
  moreover have "path_comps p \<noteq> []" using p by (auto simp: multipart_path_def prefix_def)
  ultimately show ?thesis using clean_prefix [OF _ s(2), of p] p by (auto simp: multipart_path_def)
qed

end
