(* ===== verification/Multipart_Inv.thy ===== *)
theory Multipart_Inv
  imports Multipart_Paths
begin

text \<open>
  What the operations on uploads do to the store: the records of uploads (mp_at) as
  a map, how each operation of the metadata store changes it, and that the store's
  referential integrity survives creating, uploading to, completing and aborting an
  upload.
\<close>

definition mp_at :: "'b bolt \<Rightarrow> 'b mstore \<Rightarrow> string \<Rightarrow> dbmap" where
  "mp_at B m b = (case msDbs m b of None \<Rightarrow> Map.empty | Some db \<Rightarrow> bk_get B (dbMultipart db))"

lemma mp_dbs_same: "msDbs m' = msDbs m \<Longrightarrow> mp_at B m' = mp_at B m"
  by (simp add: mp_at_def fun_eq_iff)

text \<open>Operations of the metadata store that change no upload record.\<close>

definition quiet :: "'b bolt \<Rightarrow> ('b mstore \<Rightarrow> 'a result \<times> 'b mstore) \<Rightarrow> bool" where
  "quiet B f \<longleftrightarrow> (\<forall>m r m'. f m = (r, m') \<longrightarrow> mp_at B m' = mp_at B m)"

lemma quiet_dbs: "(\<And>m. msDbs (snd (f m)) = msDbs m) \<Longrightarrow> quiet B f"
  unfolding quiet_def using mp_dbs_same by (metis snd_conv)

lemma quiet_registry:
  "quiet B (\<lambda>m. bucketMustExist B m n)" "quiet B (\<lambda>m. GetBucketVersioning B m n)"
  using bucketMustExist_dbs getCached_dbs by (auto intro!: quiet_dbs simp: GetBucketVersioning_def)

context bolt_laws
begin

lemma init_mp: "initObjectCount B db = Inr db' \<Longrightarrow> dbMultipart db' = dbMultipart db"
  by (auto simp: initObjectCount_def setObjectCount_def Let_def bindE_Inr_iff split: if_splits option.splits)

lemma empty_mp: "bk_get B (dbMultipart (emptyDB B)) = Map.empty"
  by (rule ext) (simp add: emptyDB_def get_empty)

lemma acquire_mp:
  assumes "acquireBucketDB B m b = Inr (db, m')"
  shows "mp_at B m' = mp_at B m \<and> bk_get B (dbMultipart db) = mp_at B m b \<and> msDbs m' b = Some db"
proof (cases "b \<in> set (msActive m) \<and> msDbs m b \<noteq> None")
  case True
  with assms have "m' = m\<lparr>msActive := filter (\<lambda>n. n \<noteq> b) (msActive m) @ [b]\<rparr>" "msDbs m b = Some db"
    by (auto simp: acquireBucketDB_def)
  with mp_dbs_same [of m' m B] show ?thesis by (auto simp: mp_at_def)
next
  case False
  let ?d = "case msDbs m b of None \<Rightarrow> emptyDB B | Some db \<Rightarrow> db"
  from assms have i: "initObjectCount B ?d = Inr db"
    and m': "m' = m\<lparr>msDbs := (msDbs m)(b \<mapsto> db), msActive := evictIdle (msActive m) @ [b]\<rparr>"
    unfolding acquireBucketDB_def if_not_P [OF False] if_Inl_iff bindE_Inr_iff by auto
  have "bk_get B (dbMultipart db) = mp_at B m b"
    unfolding init_mp [OF i] using empty_mp by (simp add: mp_at_def split: option.split)
  with m' show ?thesis by (auto simp: mp_at_def fun_eq_iff)
qed

lemma view_mp:
  assumes "viewDB B m b f = (r, m')"
  shows "mp_at B m' = mp_at B m \<and> ((\<exists>t. r = Inl (ErrText t)) \<or> (\<exists>db. bk_get B (dbMultipart db) = mp_at B m b \<and> r = f db))"
proof (cases "acquireBucketDB B m b")
  case (Inl x)
  with assms acquire_err [OF Inl] show ?thesis by (auto simp: viewDB_def)
next
  case (Inr p)
  obtain db m1 where p: "p = (db, m1)" by (cases p)
  with assms Inr acquire_mp [OF Inr [unfolded p]] show ?thesis by (auto simp: viewDB_def)
qed

lemma update_mp:
  assumes "updateDB_unit B m b f = (r, m')"
  shows "(\<not> is_ok r \<and> mp_at B m' = mp_at B m) \<or>
    (r = Inr () \<and> (\<exists>db db'. f db = Inr db' \<and> bk_get B (dbMultipart db) = mp_at B m b \<and>
        mp_at B m' = (mp_at B m)(b := bk_get B (dbMultipart db'))))"
proof (cases "acquireBucketDB B m b")
  case (Inl x)
  with assms show ?thesis by (auto simp: updateDB_unit_def updateDB_def)
next
  case (Inr p)
  obtain db m1 where p: "p = (db, m1)" by (cases p)
  note A = acquire_mp [OF Inr [unfolded p]]
  show ?thesis
  proof (cases "f db")
    case (Inl x)
    with assms Inr p A show ?thesis by (auto simp: updateDB_unit_def updateDB_def)
  next
    case (Inr db')
    with assms \<open>acquireBucketDB B m b = Inr p\<close> p
    have e: "r = Inr ()" "m' = m1\<lparr>msDbs := (msDbs m1)(b \<mapsto> db')\<rparr>"
      by (auto simp: updateDB_unit_def updateDB_def)
    have "mp_at B m' x = ((mp_at B m)(b := bk_get B (dbMultipart db'))) x" for x
      using A e by (cases "x = b") (simp_all add: mp_at_def fun_eq_iff)
    with A e Inr show ?thesis by blast
  qed
qed

lemma GetMultipartMeta_mp:
  assumes "GetMultipartMeta B m b k u = (r, m')"
  shows "mp_at B m' = mp_at B m \<and> ((\<exists>t. r = Inl (ErrText t)) \<or>
    r = (case mp_at B m b (multipartKey b k u) of None \<Rightarrow> Inl ErrMultipartMetaNotFound | Some v \<Rightarrow> unmarshal_mp v))"
  using view_mp [OF assms [unfolded GetMultipartMeta_def]] by auto

lemma PutMultipartMeta_mp:
  assumes "PutMultipartMeta B m mt = (r, m')"
  shows "(\<not> is_ok r \<and> mp_at B m' = mp_at B m) \<or>
    (r = Inr () \<and> mp_at B m' = (mp_at B m)(mpBucket mt := (mp_at B m (mpBucket mt))
       (multipartKey (mpBucket mt) (mpKey mt) (mpUploadID mt) \<mapsto> marshal_mp mt)))"
proof -
  have "bk_get B b' = (bk_get B b)(k \<mapsto> v)" if "bk_put B b k v = Inr b'" for b b' k v
    using get_put [OF that] by (simp add: fun_eq_iff)
  with update_mp [OF assms [unfolded PutMultipartMeta_def]] show ?thesis
    by (fastforce simp: bindE_Inr_iff)
qed

lemma DeleteMultipartMeta_mp:
  assumes "DeleteMultipartMeta B m b k u = (r, m')"
  shows "(\<not> is_ok r \<and> mp_at B m' = mp_at B m) \<or>
    (r = Inr () \<and> mp_at B m' = (mp_at B m)(b := (mp_at B m b)(multipartKey b k u := None)))"
proof -
  have "bk_get B b' = (bk_get B x)(k := None)" if "bk_delete B x k = Inr b'" for x b' k
    using get_delete [OF that] by (simp add: fun_eq_iff)
  with update_mp [OF assms [unfolded DeleteMultipartMeta_def]] show ?thesis
    by (fastforce simp: bindE_Inr_iff)
qed

text \<open>On the records of objects they have no effect.\<close>

lemma multipart_reads:
  assumes "IsValidBucketName b"
  shows "reads B (\<lambda>m. GetMultipartMeta B m b k u)" "mpBucket mt = b \<Longrightarrow> reads B (\<lambda>m. PutMultipartMeta B m mt)"
    "reads B (\<lambda>m. DeleteMultipartMeta B m b k u)"
proof -
  show "reads B (\<lambda>m. GetMultipartMeta B m b k u)"
    unfolding reads_def GetMultipartMeta_def using view_obj(1) [OF _ _ assms] by blast
  have upd: "reads B (\<lambda>m. updateDB_unit B m b f)"
    if f: "\<And>db db'. f db = Inr db' \<Longrightarrow> \<exists>x. db' = db\<lparr>dbMultipart := x\<rparr>" for f
  proof -
    have w: "\<forall>db db'. db_wf B b db \<longrightarrow> bk_get B (dbObjects db) = obj_at B m b \<longrightarrow> f db = Inr db' \<longrightarrow> db_wf B b db'" for m
      using f by (fastforce simp: db_wf_def count_wf_def count_is_def stats_val_def)
    show ?thesis unfolding reads_def
    proof (intro allI impI)
      fix m r m' assume u: "updateDB_unit B m b f = (r, m')" and m: "meta_ok B m"
      note U = update_obj [OF u m assms w]
      show "meta_ok B m' \<and> obj_at B m' = obj_at B m"
      proof (cases "is_ok r")
        case True
        with U(3) obtain db db' where d: "f db = Inr db'" "bk_get B (dbObjects db) = obj_at B m b"
          "obj_at B m' = (obj_at B m)(b := bk_get B (dbObjects db'))" by blast
        with f [OF d(1)] U(1) show ?thesis by auto
      qed (use U in auto)
    qed
  qed
  show "reads B (\<lambda>m. PutMultipartMeta B m mt)" if e: "mpBucket mt = b"
    unfolding PutMultipartMeta_def e by (rule upd) (auto simp: bindE_Inr_iff)
  show "reads B (\<lambda>m. DeleteMultipartMeta B m b k u)"
    unfolding DeleteMultipartMeta_def by (intro upd) (auto simp: bindE_Inr_iff)
qed

subsection \<open>Referential integrity\<close>

lemma read_inv: "reads B f \<Longrightarrow> trip (inv B dd) (metaM f) (\<lambda>_. inv B dd) (\<lambda>_. inv B dd)"
  by (rule trip_conseq [OF read_trip [where P = "\<lambda>_. True"]]) auto

lemma lift_inv: "trip (inv B dd) (liftM r) (\<lambda>a e. inv B dd e \<and> r = Inr a) (\<lambda>_. inv B dd)"
  by (rule trip_lift) auto

lemma lift_dir_inv: "trip (inv B dd) (\<lambda>e. liftM (f (egDataDir e)) e) (\<lambda>a e. inv B dd e \<and> f dd = Inr a) (\<lambda>_. inv B dd)"
  by (auto simp: trip_def liftM_def inv_def [of B dd] split: sum.split)

lemma ret_inv: "trip (inv B dd) (retM a) (\<lambda>_. inv B dd) (\<lambda>_. inv B dd)"
  and fail_inv: "trip (inv B dd) (failM x) Q (\<lambda>_. inv B dd)"
  and sys_inv: "trip (inv B dd) (sysM ev c msg) (\<lambda>_. inv B dd) (\<lambda>_. inv B dd)"
  and event_inv: "trip (inv B dd) (eventM y) (\<lambda>_. inv B dd) (\<lambda>_. inv B dd)"
  and guard_inv: "trip (inv B dd) (\<lambda>e. if C e then failM x e else retM () e) (\<lambda>_. inv B dd) (\<lambda>_. inv B dd)"
  by (auto simp: trip_def retM_def failM_def sysM_def eventM_def)

lemma put_file_inv: "trip (inv B dd) (filesM (\<lambda>fs. fs(p \<mapsto> c))) (\<lambda>_. inv B dd) (\<lambda>_. inv B dd)"
  by (rule trip_files) (auto intro: inv_files disk_put dest: inv_disk)

text \<open>Sequencing where only the invariant is passed on, with a fact about the value.\<close>

lemma inv_op:
  assumes "trip (inv B dd) f (\<lambda>a e. inv B dd e \<and> C a) (\<lambda>_. inv B dd)"
    and "\<And>a. C a \<Longrightarrow> trip (inv B dd) (g a) Q (\<lambda>_. inv B dd)"
  shows "trip (inv B dd) (opM f g) Q (\<lambda>_. inv B dd)"
proof (rule trip_op [OF assms(1)])
  fix a
  show "trip (\<lambda>e. inv B dd e \<and> C a) (g a) Q (\<lambda>_. inv B dd)"
    by (rule trip_pure [where c = "C a"], blast) (rule trip_pre [OF _ assms(2)], auto)
qed

lemma upload_files_inv:
  assumes d: "is_rooted dd" and p: "multipart_path dd b p"
  shows "trip (inv B dd) (removeObjectFile p) (\<lambda>_. inv B dd) (\<lambda>_. inv B dd)"
    and "trip (inv B dd) (filesM (RemoveAll p)) (\<lambda>_. inv B dd) (\<lambda>_. inv B dd)"
proof -
  have k: "disk_ok B dd (egMeta e, fs)" if e: "inv B dd e"
    and f: "\<And>q. q \<noteq> p \<Longrightarrow> \<not> HasPrefix q (p @ ''/'') \<Longrightarrow> fs q = egFiles e q" for e fs
  proof -
    have m: "disk_ok B dd (egMeta e, egFiles e)" "meta_ok B (egMeta e)" using inv_disk [OF e] by blast+
    have "\<exists>q. ident_path dd x = Inr q \<and> fs q \<noteq> None" if x: "x \<in> ids B (egMeta e)" for x
    proof -
      from m(1) x obtain q where q: "ident_path dd x = Inr q" "egFiles e q \<noteq> None" by (auto simp: disk_ok_def)
      with f multipart_not_object [OF d m(2) x p q(1)] show ?thesis by metis
    qed
    with m(1) show ?thesis by (simp add: disk_ok_def)
  qed
  show "trip (inv B dd) (removeObjectFile p) (\<lambda>_. inv B dd) (\<lambda>_. inv B dd)"
    unfolding removeObjectFile_def by (rule trip_files, rule inv_files [OF _ k]) auto
  show "trip (inv B dd) (filesM (RemoveAll p)) (\<lambda>_. inv B dd) (\<lambda>_. inv B dd)"
    by (rule trip_files, rule inv_files [OF _ k]) (auto simp: RemoveAll_def)
qed

lemma find_inv:
  assumes "IsValidBucketName b"
  shows "trip (inv B dd) (findUpload B b k u) (\<lambda>_. inv B dd) (\<lambda>_. inv B dd)"
  unfolding findUpload_def
  by (rule trip_try_case [OF read_inv [OF multipart_reads(1) [OF assms]]]) (auto intro: ret_inv fail_inv)

end

subsection \<open>Operations that leave the upload records alone\<close>

named_theorems quiet_rules "operations that change no upload record"

definition quietM :: "'b bolt \<Rightarrow> ('a, 'b) eop \<Rightarrow> bool" where
  "quietM B f \<longleftrightarrow> (\<forall>e. mp_at B (egMeta (snd (f e))) = mp_at B (egMeta e))"

lemma quietD: "quietM B f \<Longrightarrow> f e = (r, e') \<Longrightarrow> mp_at B (egMeta e') = mp_at B (egMeta e)"
  unfolding quietM_def by (metis snd_conv)

lemma quietI: "(\<And>e r e'. f e = (r, e') \<Longrightarrow> mp_at B (egMeta e') = mp_at B (egMeta e)) \<Longrightarrow> quietM B f"
  unfolding quietM_def by (metis prod.collapse)

lemma quiet_op [quiet_rules]: "quietM B f \<Longrightarrow> (\<And>a. quietM B (g a)) \<Longrightarrow> quietM B (opM f g)"
proof (rule quietI)
  fix e r e' assume f: "quietM B f" and g: "\<And>a. quietM B (g a)" and h: "opM f g e = (r, e')"
  obtain r1 e1 where e1: "f e = (r1, e1)" by (cases "f e")
  show "mp_at B (egMeta e') = mp_at B (egMeta e)"
    using h e1 quietD [OF f e1] quietD [OF g] by (cases r1) (auto simp: opM_def)
qed

lemma quiet_try [quiet_rules]: "quietM B f \<Longrightarrow> quietM B (tryM f)"
  by (rule quietI) (auto simp: tryM_def dest!: quietD split: prod.splits)

lemma quiet_meta: "quiet B f \<Longrightarrow> quietM B (metaM f)"
  by (fastforce simp: quiet_def quietM_def metaM_def split: prod.split)

lemma quiet_basic [quiet_rules]:
  "quietM B (retM a)" "quietM B (failM x)" "quietM B (liftM r)" "quietM B (sysM ev c msg)" "quietM B (filesM h)"
  "quietM B (eventM y)" "quietM B (removeObjectFile p)"
  by (simp_all add: quietM_def retM_def failM_def liftM_def sysM_def filesM_def eventM_def removeObjectFile_def)

text \<open>Branches on the state.\<close>

lemma quiet_if [quiet_rules]: "quietM B f \<Longrightarrow> quietM B g \<Longrightarrow> quietM B (if c then f else g)"
  by simp

lemma quiet_branch [quiet_rules]:
  "quietM B (\<lambda>e. liftM (h e) e)"
  "(\<And>x. quietM B (f x)) \<Longrightarrow> (\<And>y. quietM B (g y)) \<Longrightarrow> quietM B (\<lambda>e. case s e of Inl x \<Rightarrow> f x e | Inr y \<Rightarrow> g y e)"
  "quietM B f0 \<Longrightarrow> (\<And>y. quietM B (g y)) \<Longrightarrow> quietM B (\<lambda>e. case o' e of None \<Rightarrow> f0 e | Some y \<Rightarrow> g y e)"
  "quietM B f0 \<Longrightarrow> quietM B g0 \<Longrightarrow> quietM B (\<lambda>e. if c e then f0 e else g0 e)"
  by (auto simp: quietM_def liftM_def split: sum.split option.split)

lemma quiet_remove [quiet_rules]: "quietM B (removeData r)" "quietM B (removeAllData os)"
proof -
  have r: "quietM B (removeData r)" for r
    by (cases r) (simp_all add: removeData_def quiet_rules)
  show "quietM B (removeData r)" by (rule r)
  show "quietM B (removeAllData os)" by (induction os) (simp_all add: r quiet_rules)
qed

lemmas quiet_registryM [quiet_rules] = quiet_registry [THEN quiet_meta]

context bolt_laws
begin

lemma quiet_view: "quiet B (\<lambda>m. viewDB B m b f)"
  unfolding quiet_def using view_mp by blast

lemma quiet_update: "(\<And>db db'. f db = Inr db' \<Longrightarrow> dbMultipart db' = dbMultipart db) \<Longrightarrow> quiet B (\<lambda>m. updateDB_unit B m b f)"
  unfolding quiet_def using update_mp by (metis (no_types, lifting) fun_upd_triv)

lemma adjust_mp: "adjustObjectCount B tx n = Inr tx' \<Longrightarrow> dbMultipart tx' = dbMultipart tx"
  by (auto simp: adjustObjectCount_def Let_def bindE_Inr_iff split: option.splits if_splits dest!: setcount_frame)

lemma mark_mp: "markReplication B r tx k = Inr tx' \<Longrightarrow> dbMultipart tx' = dbMultipart tx"
  by (auto simp: markReplication_def bindE_Inr_iff split: if_splits)

lemma put_mp: "putObjectMetaTx B r i tx = Inr tx' \<Longrightarrow> dbMultipart tx' = dbMultipart tx"
  by (fastforce simp: putObjectMetaTx_def Let_def bindE_Inr_iff dest!: adjust_mp mark_mp split: if_splits)

lemma raw_mp: "putObjectMetaRawTx B i tx = Inr tx' \<Longrightarrow> dbMultipart tx' = dbMultipart tx"
  by (fastforce simp: putObjectMetaRawTx_def Let_def bindE_Inr_iff dest!: adjust_mp split: if_splits)

lemma quiet_objects:
  "quietM B (metaM (\<lambda>m. GetObjectMeta B m b k v))" "quietM B (metaM (\<lambda>m. GetObjectVersions B m b k))"
  "quietM B (metaM (\<lambda>m. PutObjectMeta B m i))" "quietM B (metaM (\<lambda>m. PutObjectMetaRaw B m i))"
  "quietM B (metaM (\<lambda>m. GetMultipartMeta B m b k u))"
proof -
  have p: "quiet B (\<lambda>m. updateDB_unit B m (oiBucket i) (putObjectMetaTx B (msReplication m) i))"
    unfolding quiet_def using update_mp put_mp by (metis (no_types, lifting) fun_upd_triv)
  show "quietM B (metaM (\<lambda>m. GetObjectMeta B m b k v))" "quietM B (metaM (\<lambda>m. GetObjectVersions B m b k))"
    "quietM B (metaM (\<lambda>m. PutObjectMeta B m i))" "quietM B (metaM (\<lambda>m. PutObjectMetaRaw B m i))"
    "quietM B (metaM (\<lambda>m. GetMultipartMeta B m b k u))"
    unfolding GetObjectMeta_def GetObjectVersions_def GetMultipartMeta_def PutObjectMeta_def PutObjectMetaRaw_def
    by (intro quiet_meta quiet_view p quiet_update raw_mp, assumption?)+
qed

lemma quiet_stored: "quietM B (storedRecord B b k v)"
  unfolding storedRecord_def by (intro quiet_rules quiet_objects) (auto intro: quiet_rules split: sum.split)

lemma quiet_promote: "quietM B (promoteLegacyNullVersion B ev b k)"
proof -
  have "quietM B (promoteLegacyFile B ev b k i)" for i
    unfolding promoteLegacyFile_def Let_def
    by (intro quiet_rules quiet_objects | split sum.split prod.split, intro conjI allI impI)+
  then show ?thesis
    unfolding promoteLegacyNullVersion_def
    by (intro quiet_rules quiet_objects) (auto intro: quiet_rules quiet_objects split: sum.split)
qed

lemma quiet_commit: "quietM B (commitObject B ev tmp x p info)"
proof -
  have "quietM B (prepareKeyForWrite B ev b k v)" for b k v
    unfolding prepareKeyForWrite_def by (auto intro!: quiet_rules quiet_stored quiet_promote)
  then show ?thesis
    unfolding commitObject_def Let_def
    by (intro quiet_rules quiet_objects) (auto intro: quiet_rules quiet_objects split: sum.split)
qed

end

subsection \<open>The operations keep the store intact\<close>

text \<open>The records of uploads lie under their own bucket and key, and number their parts
  within the limits.\<close>

definition numbered :: "PartInfo list \<Rightarrow> bool" where
  "numbered ps \<longleftrightarrow> (\<forall>p\<in>set ps. 1 \<le> piPartNumber p \<and> piPartNumber p \<le> MaxPartNumber)"

definition mp_wf :: "string \<Rightarrow> MultipartMeta \<Rightarrow> bool" where
  "mp_wf b mt \<longleftrightarrow> mpBucket mt = b \<and> numbered (mpParts mt) \<and> utf8_valid (mpContentType mt) \<and>
     utf8_valid (mpSSECustomerAlgorithm mt) \<and> utf8_valid (mpSSECustomerKeyMD5 mt)"

definition mp_ok :: "(string \<Rightarrow> dbmap) \<Rightarrow> bool" where
  "mp_ok u \<longleftrightarrow> (\<forall>b key v. u b key = Some v \<longrightarrow> (\<exists>mt. v = VMp mt \<and> mp_wf b mt))"

definition minv :: "'b bolt \<Rightarrow> string \<Rightarrow> 'b engine \<Rightarrow> bool" where
  "minv B dd e \<longleftrightarrow> inv B dd e \<and> mp_ok (mp_at B (egMeta e))"

lemma minv_quiet:
  assumes "trip (inv B dd) f (\<lambda>a e. inv B dd e \<and> C a) (\<lambda>_. inv B dd)" and "quietM B f"
  shows "trip (minv B dd) f (\<lambda>a e. minv B dd e \<and> C a) (\<lambda>_. minv B dd)"
  using assms unfolding trip_def minv_def by (fastforce dest: quietD split: prod.splits sum.splits)

text \<open>Sequencing after an operation that leaves the upload records alone.\<close>

lemma minv_op:
  assumes f: "trip (inv B dd) f (\<lambda>a e. inv B dd e \<and> C a) (\<lambda>_. inv B dd)" "quietM B f"
    and g: "\<And>a. C a \<Longrightarrow> trip (minv B dd) (g a) Q (\<lambda>_. minv B dd)"
  shows "trip (minv B dd) (opM f g) Q (\<lambda>_. minv B dd)"
proof (rule trip_op [OF minv_quiet [OF f]])
  fix a
  show "trip (\<lambda>e. minv B dd e \<and> C a) (g a) Q (\<lambda>_. minv B dd)"
    by (rule trip_pure [where c = "C a"], blast) (rule trip_pre [OF _ g], auto)
qed

lemma minv_op0:
  assumes "trip (inv B dd) f (\<lambda>_. inv B dd) (\<lambda>_. inv B dd)" "quietM B f"
    and "\<And>a. trip (minv B dd) (g a) Q (\<lambda>_. minv B dd)"
  shows "trip (minv B dd) (opM f g) Q (\<lambda>_. minv B dd)"
  by (rule minv_op [where C = "\<lambda>_. True"]) (use assms in auto)

lemma minv_ret: "trip (minv B dd) (retM a) (\<lambda>_. minv B dd) (\<lambda>_. minv B dd)"
  by (simp add: trip_def retM_def)

context bolt_laws
begin

lemma mp_ok_json:
  assumes "mp_ok u" "IsValidBucketName (mpBucket mt)"
    and "numbered (mpParts mt)"
  shows "mp_ok (u(mpBucket mt := (u (mpBucket mt))(key \<mapsto> marshal_mp mt)))"
proof -
  have "mpBucket (json_mp mt) = mpBucket mt" using bucket_utf8 [OF assms(2)] by (simp add: json_mp_def json_str_valid)
  moreover have "numbered (mpParts (json_mp mt))"
    using assms(3) by (auto simp: numbered_def json_mp_def json_part_def)
  ultimately have "mp_wf (mpBucket mt) (json_mp mt)" by (simp add: mp_wf_def) (simp add: json_mp_def json_str_utf8)
  then show ?thesis using assms(1) by (auto simp: mp_ok_def marshal_mp_def)
qed

lemma put_upload_minv:
  assumes "IsValidBucketName (mpBucket mt)"
    and "numbered (mpParts mt)"
  shows "trip (minv B dd) (metaM (\<lambda>m. PutMultipartMeta B m mt)) (\<lambda>_. minv B dd) (\<lambda>_. minv B dd)"
proof -
  have i: "trip (inv B dd) (metaM (\<lambda>m. PutMultipartMeta B m mt)) (\<lambda>_. inv B dd) (\<lambda>_. inv B dd)"
    by (rule read_inv [OF multipart_reads(2) [OF assms(1) refl]])
  have "mp_ok (mp_at B m')" if "PutMultipartMeta B m mt = (r, m')" "mp_ok (mp_at B m)" for m r m'
    using PutMultipartMeta_mp [OF that(1)] mp_ok_json [OF that(2) assms] that(2) by auto
  with i show ?thesis unfolding trip_def minv_def metaM_def
    by (fastforce split: prod.splits sum.splits)
qed

lemma delete_upload_minv:
  assumes "IsValidBucketName b"
  shows "trip (minv B dd) (metaM (\<lambda>m. DeleteMultipartMeta B m b k u)) (\<lambda>_. minv B dd) (\<lambda>_. minv B dd)"
proof -
  have i: "trip (inv B dd) (metaM (\<lambda>m. DeleteMultipartMeta B m b k u)) (\<lambda>_. inv B dd) (\<lambda>_. inv B dd)"
    by (rule read_inv [OF multipart_reads(3) [OF assms]])
  have "mp_ok (mp_at B m')" if "DeleteMultipartMeta B m b k u = (r, m')" "mp_ok (mp_at B m)" for m r m'
    using DeleteMultipartMeta_mp [OF that(1)] that(2) by (auto simp: mp_ok_def split: if_splits)
  with i show ?thesis unfolding trip_def minv_def metaM_def
    by (fastforce split: prod.splits sum.splits)
qed

lemma quiet_find: "quietM B (findUpload B b k u)"
  unfolding findUpload_def by (intro quiet_rules quiet_objects) (auto intro: quiet_rules split: sum.split)

lemma find_minv:
  assumes b: "IsValidBucketName b"
  shows "trip (minv B dd) (findUpload B b k u)
    (\<lambda>mt e. minv B dd e \<and> mp_wf b mt)
    (\<lambda>_. minv B dd)"
proof -
  have m: "mp_wf b mt"
    if "GetMultipartMeta B m b k u = (Inr mt, m')" "mp_ok (mp_at B m)" for m mt m'
  proof -
    from GetMultipartMeta_mp [OF that(1)] obtain v
      where "mp_at B m b (multipartKey b k u) = Some v" "unmarshal_mp v = Inr mt" by (auto split: option.splits)
    with that(2) show ?thesis by (fastforce simp: mp_ok_def)
  qed
  have "trip (minv B dd) (findUpload B b k u) (\<lambda>_ e. minv B dd e \<and> True) (\<lambda>_. minv B dd)"
    by (rule minv_quiet [OF _ quiet_find]) (use find_inv [OF b] in simp)
  moreover have "mp_wf b mt"
    if "minv B dd e" "findUpload B b k u e = (Inr mt, e')" for e mt e'
    using that m by (auto simp: findUpload_def opM_def tryM_def metaM_def retM_def failM_def minv_def
        split: prod.splits sum.splits if_splits)
  ultimately show ?thesis unfolding trip_def by (fastforce split: prod.splits sum.splits)
qed

lemma replacePart_parts: "replacePart q ps = (r, qs) \<Longrightarrow> set qs \<subseteq> insert q (set ps) \<and>
    (\<forall>p. r = Some p \<longrightarrow> p \<in> set ps \<and> piPartNumber p = piPartNumber q)"
  by (induction ps arbitrary: r qs) (auto split: if_splits prod.splits)

lemma commit_part_minv:
  assumes b: "IsValidBucketName b" and q: "1 \<le> piPartNumber q" "piPartNumber q \<le> MaxPartNumber"
  shows "trip (minv B dd) (commitPart B b k u q)
    (\<lambda>r e. minv B dd e \<and> (\<forall>p. r = Some p \<longrightarrow> 1 \<le> piPartNumber p)) (\<lambda>_. minv B dd)"
  unfolding commitPart_def
proof (rule trip_op [OF find_minv [OF b]])
  fix mt :: MultipartMeta
  let ?C = "mp_wf b mt"
  obtain r qs where rp: "replacePart q (mpParts mt) = (r, qs)" by (cases "replacePart q (mpParts mt)")
  note R = replacePart_parts [OF rp]
  show "trip (\<lambda>e. minv B dd e \<and> ?C) (case replacePart q (mpParts mt) of (previous, parts) \<Rightarrow>
      opM (metaM (\<lambda>m. PutMultipartMeta B m (mt\<lparr>mpParts := parts\<rparr>))) (\<lambda>_. retM previous))
    (\<lambda>r e. minv B dd e \<and> (\<forall>p. r = Some p \<longrightarrow> 1 \<le> piPartNumber p)) (\<lambda>_. minv B dd)"
  proof (rule trip_pure [where c = ?C], blast)
    assume C: ?C
    have "trip (minv B dd) (metaM (\<lambda>m. PutMultipartMeta B m (mt\<lparr>mpParts := qs\<rparr>))) (\<lambda>_. minv B dd) (\<lambda>_. minv B dd)"
      by (rule put_upload_minv) (use C b q R in \<open>auto simp: numbered_def mp_wf_def\<close>)
    moreover have "trip (minv B dd) (retM r) (\<lambda>r e. minv B dd e \<and> (\<forall>p. r = Some p \<longrightarrow> 1 \<le> piPartNumber p)) (\<lambda>_. minv B dd)"
      using R C q by (auto simp: trip_def retM_def)
    ultimately have "trip (minv B dd) (opM (metaM (\<lambda>m. PutMultipartMeta B m (mt\<lparr>mpParts := qs\<rparr>))) (\<lambda>_. retM r))
        (\<lambda>r e. minv B dd e \<and> (\<forall>p. r = Some p \<longrightarrow> 1 \<le> piPartNumber p)) (\<lambda>_. minv B dd)"
      by (rule trip_op)
    then show "trip (\<lambda>e. minv B dd e \<and> ?C) (case replacePart q (mpParts mt) of (previous, parts) \<Rightarrow>
      opM (metaM (\<lambda>m. PutMultipartMeta B m (mt\<lparr>mpParts := parts\<rparr>))) (\<lambda>_. retM previous))
      (\<lambda>r e. minv B dd e \<and> (\<forall>p. r = Some p \<longrightarrow> 1 \<le> piPartNumber p)) (\<lambda>_. minv B dd)"
      unfolding rp prod.case by (rule trip_pre [rotated]) blast
  qed
qed

lemma create_minv: "trip (minv B dd) (CreateMultipartUpload B ev ssec b k ct) (\<lambda>_. minv B dd) (\<lambda>_. minv B dd)"
proof (cases "IsValidBucketName b")
  case False
  then show ?thesis by (simp add: CreateMultipartUpload_def validateBucketName_def opM_def liftM_def trip_def)
next
  case b: True
  have n: "IsValidBucketName (mpBucket (newUpload ev ssec b k ct))" "numbered (mpParts (newUpload ev ssec b k ct))"
    using b by (simp_all add: newUpload_def numbered_def)
  note lift = minv_op [OF lift_inv quiet_basic(3)] and dir = minv_op [OF lift_dir_inv quiet_branch(1)]
    and sys = minv_op0 [OF sys_inv quiet_basic(4)]
    and ex = minv_op0 [OF read_inv [OF reads_registry(1)] quiet_registryM(1)]
  show ?thesis
    unfolding CreateMultipartUpload_def lockBucketForCommit_def
    by (rule lift, rule dir, rule lift, rule ex, rule dir, rule sys, rule sys, rule ex,
        rule trip_op [OF put_upload_minv [OF n] minv_ret])
qed

lemma abort_minv:
  assumes d: "is_rooted dd"
  shows "trip (minv B dd) (AbortMultipartUpload B ev b k u) (\<lambda>_. minv B dd) (\<lambda>_. minv B dd)"
proof (cases "IsValidBucketName b")
  case False
  then show ?thesis by (simp add: AbortMultipartUpload_def validateBucketName_def opM_def liftM_def trip_def)
next
  case b: True
  have up: "trip (inv B dd) (\<lambda>e. case multipartUploadPath (egDataDir e) b u of
               Inl x \<Rightarrow> failM (S3Error ''InvalidArgument'' (err_text x)) e
             | Inr path \<Rightarrow> retM path e) (\<lambda>p e. inv B dd e \<and> multipart_path dd b p) (\<lambda>_. inv B dd)"
    using uploadPath_multipart [OF d b] by (auto simp: trip_def failM_def retM_def inv_def [of B dd] split: sum.split)
  have qu: "quietM B (\<lambda>e. case multipartUploadPath (egDataDir e) b u of
               Inl x \<Rightarrow> failM (S3Error ''InvalidArgument'' (err_text x)) e | Inr path \<Rightarrow> retM path e)"
    by (intro quiet_rules)
  have rm: "trip (inv B dd) (removeUploadDir ev p) (\<lambda>_. inv B dd) (\<lambda>_. inv B dd)" "quietM B (removeUploadDir ev p)"
    if "multipart_path dd b p" for p
    unfolding removeUploadDir_def by (rule trip_op [OF sys_inv upload_files_inv(2) [OF d that]]) (intro quiet_rules)
  show ?thesis
    unfolding AbortMultipartUpload_def
    by (rule minv_op [OF lift_inv quiet_basic(3)], rule minv_op [OF lift_dir_inv quiet_branch(1)],
        rule minv_op0 [OF find_inv [OF b] quiet_find], rule minv_op [OF up qu], rule minv_op0 [OF rm delete_upload_minv [OF b]])
qed

lemma check_part_inv:
  "trip (inv B dd) (checkUploadPart B ssec b k u n size') (\<lambda>_ e. inv B dd e \<and> IsValidBucketName b \<and> 1 \<le> n \<and> n \<le> MaxPartNumber)
     (\<lambda>_. inv B dd)"
proof (cases "IsValidBucketName b \<and> 1 \<le> n \<and> n \<le> MaxPartNumber")
  case False
  then show ?thesis
    by (auto simp: checkUploadPart_def validateBucketName_def opM_def liftM_def failM_def trip_def)
next
  case True
  then have b: "IsValidBucketName b" and n: "\<not> (n < 1 \<or> n > MaxPartNumber)" by auto
  have l: "trip (inv B dd) (liftM r) (\<lambda>_ e. inv B dd e \<and> IsValidBucketName b \<and> 1 \<le> n \<and> n \<le> MaxPartNumber) (\<lambda>_. inv B dd)" for r
    by (rule trip_conseq [OF lift_inv]) (use True in auto)
  show ?thesis
    unfolding checkUploadPart_def if_not_P [OF n]
    by (rule inv_op [OF lift_inv], rule inv_op [OF lift_dir_inv], rule trip_op [OF guard_inv],
        rule trip_op [OF find_inv [OF b] l])
qed

lemma quiet_check_part: "quietM B (checkUploadPart B ssec b k u n size')"
  unfolding checkUploadPart_def by (intro quiet_rules quiet_find)

lemma publish_part_minv:
  assumes b: "IsValidBucketName b" and n: "1 \<le> n" "n \<le> MaxPartNumber"
  shows "trip (minv B dd) (publishPart B cd ev ssec b k u n rd size' x path)
    (\<lambda>q e. minv B dd e \<and> (\<forall>p. snd q = Some p \<longrightarrow> 1 \<le> piPartNumber p)) (\<lambda>_. minv B dd)"
proof -
  have w: "trip (inv B dd) (\<lambda>e. liftM (writePartData cd ev (egMaxObjectSize e) ssec rd size') e) (\<lambda>_. inv B dd) (\<lambda>_. inv B dd)"
    by (auto simp: trip_def liftM_def split: sum.split)
  have q: "quietM B (\<lambda>e. if c e then failM y e else retM () e)" for c y by (intro quiet_rules)
  have cm: "trip (minv B dd) (opM (commitPart B b k u i) (\<lambda>previous. retM (i, previous)))
      (\<lambda>q e. minv B dd e \<and> (\<forall>p. snd q = Some p \<longrightarrow> 1 \<le> piPartNumber p)) (\<lambda>_. minv B dd)" if "piPartNumber i = n" for i
    by (rule trip_op [OF commit_part_minv [OF b]]) (use n that in \<open>auto simp: trip_def retM_def\<close>)
  show ?thesis
    unfolding publishPart_def Let_def
  proof (rule minv_op0 [OF w quiet_branch(1)])
    fix a :: "string \<times> int \<times> string"
    obtain stored sz etag where a: "a = (stored, sz, etag)" by (cases a)
    show "trip (minv B dd) (case a of (stored, sz, etag) \<Rightarrow>
      opM (\<lambda>e. if \<not> HasPrefix path (multipartBase (egDataDir e) b @ ''/'')
               then failM (S3Error ''InvalidArgument'' errInvalidUploadID) e else retM () e) (\<lambda>_.
      opM (sysM ev CRename ''failed to rename part file'') (\<lambda>_.
      opM (filesM (\<lambda>fs. fs(path \<mapsto> stored))) (\<lambda>_.
      opM (sysM ev CSyncParents ''sync'') (\<lambda>_.
      opM (commitPart B b k u \<lparr>piBlobID = x, piPartNumber = n, piETag = etag, piSize = sz\<rparr>) (\<lambda>previous.
      retM (\<lparr>piBlobID = x, piPartNumber = n, piETag = etag, piSize = sz\<rparr>, previous)))))))
      (\<lambda>q e. minv B dd e \<and> (\<forall>p. snd q = Some p \<longrightarrow> 1 \<le> piPartNumber p)) (\<lambda>_. minv B dd)"
      unfolding a prod.case
      by (rule minv_op0 [OF guard_inv q], rule minv_op0 [OF sys_inv quiet_basic(4)],
          rule minv_op0 [OF put_file_inv quiet_basic(5)], rule minv_op0 [OF sys_inv quiet_basic(4)], rule cm) simp
  qed
qed

lemma remove_part_minv:
  assumes d: "is_rooted dd" and dir: "multipart_path dd b dir"
  shows "trip (\<lambda>e. minv B dd e \<and> (\<forall>p. snd q = Some p \<longrightarrow> 1 \<le> piPartNumber p))
     (case q of (info, previous) \<Rightarrow> opM (removePart dir previous) (\<lambda>_. retM info)) (\<lambda>_. minv B dd) (\<lambda>_. minv B dd)"
proof (rule trip_pure [where c = "\<forall>p. snd q = Some p \<longrightarrow> 1 \<le> piPartNumber p"], blast)
  assume q: "\<forall>p. snd q = Some p \<longrightarrow> 1 \<le> piPartNumber p"
  obtain i r where e: "q = (i, r)" by (cases q)
  have i: "trip (inv B dd) (removePart dir r) (\<lambda>_. inv B dd) (\<lambda>_. inv B dd)"
  proof (cases r)
    case None
    then show ?thesis by (simp add: removePart_def ret_inv)
  next
    case (Some p)
    show ?thesis
    proof (cases "partDataPath dir p")
      case (Inl x)
      with Some show ?thesis by (simp add: removePart_def ret_inv)
    next
      case (Inr path)
      have "0 \<le> piPartNumber p" using q e Some by auto
      with upload_files_inv(1) [OF d part_path_multipart [OF dir _ Inr]] Some Inr show ?thesis by (simp add: removePart_def)
    qed
  qed
  have "quietM B (removePart dir r)"
    by (cases r; cases "partDataPath dir (the r)") (simp_all add: removePart_def quiet_rules)
  then have "trip (minv B dd) (opM (removePart dir r) (\<lambda>_. retM i)) (\<lambda>_. minv B dd) (\<lambda>_. minv B dd)"
    by (rule minv_op0 [OF i]) (rule minv_ret)
  then show "trip (\<lambda>e. minv B dd e \<and> (\<forall>p. snd q = Some p \<longrightarrow> 1 \<le> piPartNumber p))
      (case q of (info, previous) \<Rightarrow> opM (removePart dir previous) (\<lambda>_. retM info)) (\<lambda>_. minv B dd) (\<lambda>_. minv B dd)"
    unfolding e prod.case by (rule trip_pre [rotated]) blast
qed

lemma upload_part_minv:
  assumes d: "is_rooted dd"
  shows "trip (minv B dd) (UploadPart B cd ev ssec b k u n rd size') (\<lambda>_. minv B dd) (\<lambda>_. minv B dd)"
  unfolding UploadPart_def Let_def
proof (rule minv_op [OF check_part_inv quiet_check_part], rule minv_op [OF lift_dir_inv quiet_branch(1)],
    rule minv_op0 [OF sys_inv quiet_basic(4)], rule minv_op [OF lift_inv quiet_basic(3)])
  fix dir path
  let ?x = "newBlobID (evBlobRnd ev)"
  assume bn: "IsValidBucketName b \<and> 1 \<le> n \<and> n \<le> MaxPartNumber" and dir: "uploadDir dd b k u = Inr dir"
    and path: "partDataPath dir \<lparr>piBlobID = ?x, piPartNumber = n, piETag = [], piSize = 0\<rparr> = Inr path"
  then have b: "IsValidBucketName b" and n: "1 \<le> n" "n \<le> MaxPartNumber" by auto
  have md: "multipart_path dd b dir" by (rule uploadDir_multipart [OF d b dir])
  have mp: "multipart_path dd b path" by (rule part_path_multipart [OF md _ path]) (use n in simp)
  have undo: "trip (minv B dd) (opM (removeObjectFile path) (\<lambda>_. failM x)) (\<lambda>_. minv B dd) (\<lambda>_. minv B dd)" for x
    by (rule minv_op0 [OF upload_files_inv(1) [OF d mp] quiet_basic(7)]) (simp add: trip_def failM_def)
  show "trip (minv B dd) (opM (tryM (publishPart B cd ev ssec b k u n rd size' ?x path)) (\<lambda>r.
    case r of
      Inl x \<Rightarrow> opM (removeObjectFile path) (\<lambda>_. failM x)
    | Inr (info, previous) \<Rightarrow> opM (removePart dir previous) (\<lambda>_. retM info)))
    (\<lambda>_. minv B dd) (\<lambda>_. minv B dd)"
    by (rule trip_try_case [OF publish_part_minv [OF b n] remove_part_minv [OF d md] undo])
qed

end

end
