(* ===== verification/Multipart_Complete.thy ===== *)
theory Multipart_Complete
  imports Multipart_Inv Engine_Props
begin

text \<open>
  Completing an upload, step by step: the checks and the assembly of the object
  read the upload and change nothing, the commit is that of every write, and what
  is forgotten afterwards is only the upload.
\<close>

lemma tripE: "trip P f Q E \<Longrightarrow> P e \<Longrightarrow> f e = (Inl x, e') \<Longrightarrow> E x e'"
  by (fastforce simp: trip_def)

lemma trip_result:
  assumes "trip P f Q E" and "\<And>e a e'. P e \<Longrightarrow> f e = (Inr a, e') \<Longrightarrow> C a"
  shows "trip P f (\<lambda>a e. Q a e \<and> C a) E"
  unfolding trip_def
proof (intro allI impI)
  fix e assume e: "P e"
  with assms(1) have t: "case f e of (Inl x, e') \<Rightarrow> E x e' | (Inr a, e') \<Rightarrow> Q a e'" by (simp add: trip_def)
  show "case f e of (Inl x, e') \<Rightarrow> E x e' | (Inr a, e') \<Rightarrow> Q a e' \<and> C a"
    using t assms(2) [OF e] by (cases "f e"; cases "fst (f e)") auto
qed

text \<open>What an operation that only reads leaves: the files, the settings and the
  records of uploads and objects.\<close>

definition keep :: "'b bolt \<Rightarrow> files \<Rightarrow> bool \<Rightarrow> (string \<Rightarrow> dbmap) \<Rightarrow> (string \<Rightarrow> dbmap) \<Rightarrow> 'b engine \<Rightarrow> bool" where
  "keep B fs nm U Ob e \<longleftrightarrow> egFiles e = fs \<and> egDisableMinPartSize e = nm \<and> mp_at B (egMeta e) = U \<and> obj_at B (egMeta e) = Ob"

text \<open>The outcome of the checks and the assembly.\<close>

definition assembled ::
  "codec \<Rightarrow> env \<Rightarrow> SSECParams option \<Rightarrow> string \<Rightarrow> files \<Rightarrow> bool \<Rightarrow> (string \<Rightarrow> dbmap) \<Rightarrow> string \<Rightarrow> string \<Rightarrow> string \<Rightarrow>
   CompletePart list \<Rightarrow> MultipartMeta \<times> string \<times> string \<times> written \<Rightarrow> bool" where
  "assembled cd ev ssec dd fs nm U b k u parts q \<longleftrightarrow>
     (case q of (meta, x, p, w) \<Rightarrow>
        IsValidBucketName b \<and> validateNewKey k = Inr () \<and> (\<exists>v. is_ok (objectPathWithVersion dd b k v)) \<and>
        U b (multipartKey b k u) = Some (VMp meta) \<and> checkCompleteSSEC meta ssec = Inr () \<and>
        x = newBlobID (evBlobRnd ev) \<and> p = blobPath dd b x \<and>
        (\<exists>ps. requestedParts nm meta parts = Inr ps \<and> assembleObject cd ev dd fs ssec meta b k u ps = Inr w))"

context bolt_laws
begin

lemma read_keep:
  assumes "reads B f" "quiet B f"
  shows "trip (\<lambda>e. inv B dd e \<and> clear S e \<and> keep B fs nm U Ob e) (metaM f)
    (\<lambda>_ e. inv B dd e \<and> clear S e \<and> keep B fs nm U Ob e) (\<lambda>_ e. inv B dd e \<and> clear S e \<and> keep B fs nm U Ob e)"
proof (rule trip_meta)
  fix e r m assume e: "inv B dd e \<and> clear S e \<and> keep B fs nm U Ob e" and f: "f (egMeta e) = (r, m)"
  let ?e = "snapshot (e\<lparr>egMeta := m\<rparr>)"
  have "meta_ok B (egMeta e)" using inv_disk e by blast
  then have o: "meta_ok B m" "obj_at B m = obj_at B (egMeta e)" using assms(1) f unfolding reads_def by blast+
  have "inv B dd ?e" using inv_meta disk_view o inv_disk e by blast
  moreover have "keep B fs nm U Ob ?e" using assms(2) f e o by (auto simp: quiet_def keep_def snapshot_def)
  ultimately show "(case r of Inl x \<Rightarrow> \<lambda>e. inv B dd e \<and> clear S e \<and> keep B fs nm U Ob e
      | Inr a \<Rightarrow> \<lambda>e. inv B dd e \<and> clear S e \<and> keep B fs nm U Ob e) ?e"
    using e by (cases r) auto
qed

lemma find_keep:
  assumes "IsValidBucketName b"
  shows "trip (\<lambda>e. inv B dd e \<and> clear S e \<and> keep B fs nm U Ob e) (findUpload B b k u)
    (\<lambda>mt e. inv B dd e \<and> clear S e \<and> keep B fs nm U Ob e \<and> U b (multipartKey b k u) = Some (VMp mt))
    (\<lambda>_ e. inv B dd e \<and> clear S e \<and> keep B fs nm U Ob e)"
proof -
  let ?P = "\<lambda>e. inv B dd e \<and> clear S e \<and> keep B fs nm U Ob e" and ?f = "\<lambda>m. GetMultipartMeta B m b k u"
  have q: "quiet B ?f" unfolding quiet_def using GetMultipartMeta_mp by blast
  have "trip ?P (metaM ?f) (\<lambda>mt e. ?P e \<and> U b (multipartKey b k u) = Some (VMp mt)) (\<lambda>_. ?P)"
  proof -
    have "\<And>e mt e'. ?P e \<Longrightarrow> metaM ?f e = (Inr mt, e') \<Longrightarrow> U b (multipartKey b k u) = Some (VMp mt)"
    proof -
      fix e mt e' assume h: "?P e" "metaM ?f e = (Inr mt, e')"
      obtain m' where "?f (egMeta e) = (Inr mt, m')" using h(2) by (auto simp: metaM_def split: prod.splits)
      from GetMultipartMeta_mp [OF this] obtain v where v: "mp_at B (egMeta e) b (multipartKey b k u) = Some v" "unmarshal_mp v = Inr mt"
        by (auto split: option.splits)
      then have "v = VMp mt" by (cases v) auto
      with v h(1) show "U b (multipartKey b k u) = Some (VMp mt)" by (simp add: keep_def)
    qed
    from trip_result [OF read_keep [OF multipart_reads(1) [OF assms] q, of dd S fs nm U Ob] this]
    show ?thesis by (rule trip_conseq) auto
  qed
  then show ?thesis unfolding findUpload_def
    by (rule trip_try_case) (auto simp: trip_def retM_def failM_def)
qed

lemma prepare_complete_trip:
  "trip (\<lambda>e. inv B dd e \<and> clear S e \<and> keep B fs nm U Ob e) (prepareComplete B cd ev ssec b k u parts)
     (\<lambda>q e. inv B dd e \<and> clear S e \<and> keep B fs nm U Ob e \<and> assembled cd ev ssec dd fs nm U b k u parts q)
     (\<lambda>_ e. inv B dd e \<and> clear S e \<and> keep B fs nm U Ob e)"
proof (cases "(hasPathTraversal k \<or> hasPathTraversal b \<or> hasPathTraversal u) \<or> \<not> IsValidBucketName b")
  case True
  then show ?thesis
    by (auto simp: prepareComplete_def validateBucketName_def opM_def liftM_def failM_def trip_def)
next
  case False
  then have tr: "\<not> (hasPathTraversal k \<or> hasPathTraversal b \<or> hasPathTraversal u)" and b: "IsValidBucketName b" by auto
  let ?I = "\<lambda>e. inv B dd e \<and> clear S e \<and> keep B fs nm U Ob e"
  have pure: "trip (\<lambda>e. ?I e \<and> C) (liftM r) (\<lambda>a e. ?I e \<and> C \<and> r = Inr a) (\<lambda>_. ?I)" for C :: bool and r
    by (cases r) (auto simp: trip_def liftM_def)
  have 1: "trip ?I (liftM (validateBucketName b)) (\<lambda>_. ?I) (\<lambda>_. ?I)"
    by (rule trip_conseq [OF pure [of True]]) auto
  note 2 = find_keep [OF b, of dd S fs nm U Ob k u]
  let ?A = "\<lambda>mt. U b (multipartKey b k u) = Some (VMp mt)"
  let ?B = "\<lambda>mt. ?A mt \<and> checkCompleteSSEC mt ssec = Inr ()"
  have 3: "trip (\<lambda>e. inv B dd e \<and> clear S e \<and> keep B fs nm U Ob e \<and> ?A mt) (liftM (checkCompleteSSEC mt ssec))
      (\<lambda>_ e. ?I e \<and> ?B mt) (\<lambda>_. ?I)" for mt
    by (rule trip_conseq [OF pure [of "?A mt"]]) auto
  let ?C = "\<lambda>mt ps. ?B mt \<and> requestedParts nm mt parts = Inr ps"
  have 4: "trip (\<lambda>e. ?I e \<and> ?B mt) (\<lambda>e. liftM (requestedParts (egDisableMinPartSize e) mt parts) e)
      (\<lambda>ps e. ?I e \<and> ?C mt ps) (\<lambda>_. ?I)" for mt
    by (auto simp: trip_def liftM_def keep_def split: sum.split)
  have 5: "trip (\<lambda>e. ?I e \<and> ?C mt ps) (metaM (\<lambda>m. GetBucketVersioning B m b)) (\<lambda>_ e. ?I e \<and> ?C mt ps) (\<lambda>_. ?I)" for mt ps
    by (rule trip_pure [where c = "?C mt ps"], blast,
        rule trip_conseq [OF read_keep [OF reads_registry(3) quiet_registry(2)]]) auto
  let ?D = "\<lambda>mt ps. ?C mt ps \<and> validateNewKey k = Inr ()"
  have 6: "trip (\<lambda>e. ?I e \<and> ?C mt ps) (liftM (validateNewKey k)) (\<lambda>_ e. ?I e \<and> ?D mt ps) (\<lambda>_. ?I)" for mt ps
    by (rule trip_conseq [OF pure [of "?C mt ps"]]) auto
  let ?E = "\<lambda>mt ps. ?D mt ps \<and> (\<exists>v. is_ok (objectPathWithVersion dd b k v))"
  have 7: "trip (\<lambda>e. ?I e \<and> ?D mt ps) (\<lambda>e. case objectPathWithVersion (egDataDir e) b k w of
      Inl x \<Rightarrow> failM (S3Error ''InvalidArgument'' (err_text x)) e | Inr _ \<Rightarrow> retM () e)
      (\<lambda>_ e. ?I e \<and> ?E mt ps) (\<lambda>_. ?I)" for mt ps w
    by (auto simp: trip_def failM_def retM_def inv_def [of B dd] is_ok_iff split: sum.split)
  let ?q = "(newBlobID (evBlobRnd ev), blobPath dd b (newBlobID (evBlobRnd ev)))"
  have 8: "trip (\<lambda>e. ?I e \<and> ?E mt ps) (\<lambda>e. liftM (newBlob (egDataDir e) b (evBlobRnd ev) mk) e)
      (\<lambda>q e. ?I e \<and> ?E mt ps \<and> q = ?q) (\<lambda>_. ?I)" for mt ps mk
    by (auto simp: trip_def liftM_def newBlob_def Let_def bindE_def inv_def [of B dd] split: sum.splits)
  have 9: "trip (\<lambda>e. ?I e \<and> ?E mt ps \<and> q = ?q)
      (case q of (x, p) \<Rightarrow> opM (\<lambda>e. liftM (assembleObject cd ev (egDataDir e) (egFiles e) ssec mt b k u ps) e) (\<lambda>w. retM (mt, x, p, w)))
      (\<lambda>q e. inv B dd e \<and> clear S e \<and> keep B fs nm U Ob e \<and> assembled cd ev ssec dd fs nm U b k u parts q) (\<lambda>_. ?I)" for mt ps q
    using b by (auto simp: trip_def liftM_def opM_def retM_def assembled_def keep_def inv_def [of B dd] split: prod.splits sum.splits)
  show ?thesis
    unfolding prepareComplete_def if_not_P [OF tr]
    by (rule trip_op [OF 1 trip_op [OF 2 trip_op [OF 3 trip_op [OF 4 trip_op [OF 5 trip_op [OF 6 trip_op [OF 7 trip_op [OF 8 9]]]]]]]])
qed

lemma assembled_etag: "assembleObject cd ev dd fs ssec meta b k u ps = Inr w \<Longrightarrow> utf8_valid (wrETag w)"
proof -
  have d: "utf8_valid ''-''" by code_simp
  assume "assembleObject cd ev dd fs ssec meta b k u ps = Inr w"
  then have "\<exists>s. wrETag w = hex_encode (cdMD5 cd s) @ ''-'' @ Itoa (int (length ps))"
    unfolding assembleObject_def Let_def if_Inl_iff multipartETag_def bindE_Inr_iff by auto
  then show ?thesis using utf8_append [OF hex_utf8 utf8_append [OF d Itoa_utf8]] by metis
qed

lemma completeInfo_ok:
  assumes "IsValidBucketName b" "utf8_valid k" "env_ok ev" "mp_wf b meta" "utf8_valid (wrETag w)" "isBlobID x"
  shows "rec_ok b k ((completeInfo ev meta b k (versionFor ev s) w)\<lparr>oiBlobID := x\<rparr>)"
  using assms bucket_utf8 versionFor_ok [of ev s] isBlobID_utf8 octet_utf8
  by (auto simp: rec_ok_def obj_utf8_def completeInfo_def mp_wf_def simp del: utf8_valid.simps(2))

subsection \<open>Forgetting the upload\<close>

lemma DeleteMultipartMeta_opened:
  assumes "opened m b" "DeleteMultipartMeta B m b k u = (r, m')"
  shows "opened m' b"
  using assms
  by (auto simp: DeleteMultipartMeta_def updateDB_unit_def updateDB_def acquireBucketDB_def opened_def bindE_def split: sum.splits)

lemma data_only_content: "data_only B (content B dd x c)"
  by (auto simp: data_only_def same_data_def content_def dest: ids_cong)

lemma forget_trip:
  assumes d: "is_rooted dd" and b: "IsValidBucketName b"
    and G: "G = (\<lambda>e. content B dd x c e \<and> cur_of (obj_at B (egMeta e) b) b k = j \<and> opened (egMeta e) b)"
  shows "trip (\<lambda>e. inv B dd e \<and> G e) (forgetUpload B ev b k u) (\<lambda>_ e. inv B dd e \<and> G e) (\<lambda>_ _. False)"
proof -
  let ?f = "\<lambda>m. DeleteMultipartMeta B m b k u" and ?I = "\<lambda>e. inv B dd e \<and> G e"
  have del: "trip ?I (metaM ?f) (\<lambda>_. ?I) (\<lambda>_. ?I)"
  proof (rule trip_meta)
    fix e r m assume e: "?I e" and f: "?f (egMeta e) = (r, m)"
    let ?e = "snapshot (e\<lparr>egMeta := m\<rparr>)"
    have "meta_ok B (egMeta e)" using inv_disk e by blast
    then have o: "meta_ok B m" "obj_at B m = obj_at B (egMeta e)" using multipart_reads(3) [OF b] f unfolding reads_def by blast+
    have i: "inv B dd ?e" using inv_meta disk_view o inv_disk e by blast
    have g: "G ?e" using e o ids_cong [OF o(2)] DeleteMultipartMeta_opened [OF _ f] by (simp add: G content_def)
    show "(case r of Inl x \<Rightarrow> ?I | Inr a \<Rightarrow> ?I) ?e" using i g by (cases r) auto
  qed
  have rm: "trip ?I (filesM (RemoveAll path)) (\<lambda>_. ?I) (\<lambda>_ _. False)" if p: "multipart_path dd b path" for path
  proof (rule trip_files)
    fix e assume e: "?I e"
    let ?e = "snapshot (e\<lparr>egFiles := RemoveAll path (egFiles e)\<rparr>)"
    have i: "inv B dd ?e"
      using upload_files_inv(2) [OF d p] e by (simp add: trip_def filesM_def)
    obtain q where q: "x \<in> ids B (egMeta e)" "ident_path dd x = Inr q" "egFiles e q = Some c"
      using e by (auto simp: G content_def)
    have "meta_ok B (egMeta e)" using inv_disk e by blast
    from multipart_not_object [OF d this q(1) p q(2)] have "G ?e"
      using e q by (simp add: G content_def RemoveAll_def)
    with i show "?I ?e" by simp
  qed
  show ?thesis
    unfolding forgetUpload_def
  proof (rule trip_try_case [OF del])
    show "trip ?I (\<lambda>e. case multipartUploadPath (egDataDir e) b u of Inl _ \<Rightarrow> retM () e
        | Inr path \<Rightarrow> if evFails ev CRemoveAll then retM () e else filesM (RemoveAll path) e) (\<lambda>_. ?I) (\<lambda>_ _. False)"
      unfolding trip_def
    proof (intro allI impI)
      fix e assume e: "?I e"
      have dd: "egDataDir e = dd" using e by (simp add: inv_def)
      show "case (case multipartUploadPath (egDataDir e) b u of Inl _ \<Rightarrow> retM () e
        | Inr path \<Rightarrow> if evFails ev CRemoveAll then retM () e else filesM (RemoveAll path) e) of
          (Inl x, e') \<Rightarrow> False | (Inr a, e') \<Rightarrow> ?I e'"
        using e rm uploadPath_multipart [OF d b] unfolding dd
        by (auto simp: trip_def retM_def filesM_def split: sum.split)
    qed
  qed (auto simp: trip_def retM_def)
qed

subsection \<open>The whole operation\<close>

definition completed ::
  "codec \<Rightarrow> env \<Rightarrow> SSECParams option \<Rightarrow> string \<Rightarrow> files \<Rightarrow> bool \<Rightarrow> (string \<Rightarrow> dbmap) \<Rightarrow> string \<Rightarrow> string \<Rightarrow> string \<Rightarrow>
   CompletePart list \<Rightarrow> MultipartMeta \<Rightarrow> written \<Rightarrow> ObjectInfo \<Rightarrow> bool" where
  "completed cd ev ssec dd fs nm U b k u parts meta w info \<longleftrightarrow>
     assembled cd ev ssec dd fs nm U b k u parts
       (meta, newBlobID (evBlobRnd ev), blobPath dd b (newBlobID (evBlobRnd ev)), w) \<and>
     (\<exists>s. info = (completeInfo ev meta b k (versionFor ev s) w)\<lparr>oiBlobID := newBlobID (evBlobRnd ev)\<rparr>)"

lemma complete_trip:
  assumes ev: "env_ok ev" and k: "utf8_valid k" and dd: "is_rooted dd" and U: "mp_ok U"
  shows "trip (\<lambda>e. inv B dd e \<and> clear {blobPath dd b (newBlobID (evBlobRnd ev))} e \<and> keep B fs nm U Ob e)
    (CompleteMultipartUpload B cd ev ssec b k u parts)
    (\<lambda>info e. inv B dd e \<and> (\<exists>meta w. completed cd ev ssec dd fs nm U b k u parts meta w info \<and>
        content B dd (ident_of info) (wrTemp w) e) \<and>
        cur_of (obj_at B (egMeta e) b) b k = Some (info\<lparr>oiIsLatest := True\<rparr>) \<and> opened (egMeta e) b)
    (\<lambda>_. inv B dd)"
    (is "trip ?P _ ?Q _")
proof -
  let ?x = "newBlobID (evBlobRnd ev)"
  let ?p = "blobPath dd b ?x"
  have r: "16 \<le> length (evPromoteRnd ev)" and x: "isBlobID ?x" "isBlobID (newBlobID (evPromoteRnd ev))"
    and ne: "?x \<noteq> newBlobID (evPromoteRnd ev)"
    using ev newBlobID_is by (auto simp: env_ok_def)
  let ?C = "assembled cd ev ssec dd fs nm U b k u parts"
  have cm: "trip (\<lambda>e. inv B dd e \<and> clear {?p} e \<and> keep B fs nm U Ob e \<and> ?C q) (commitComplete B ev b k u q) ?Q (\<lambda>_. inv B dd)" for q
  proof (rule trip_pure [where c = "?C q"], blast)
    assume C: "?C q"
    obtain meta w where q: "q = (meta, ?x, ?p, w)" using C by (cases q) (auto simp: assembled_def)
    have v: "IsValidBucketName b" "nul \<notin> set k" using C by (auto simp: assembled_def validateNewKey_def HasByte_def split: if_splits)
    have mw: "mp_wf b meta" using C U q by (fastforce simp: assembled_def mp_ok_def)
    have et: "utf8_valid (wrETag w)" using C q assembled_etag by (auto simp: assembled_def)
    have np: "?p \<noteq> blobPath dd b (newBlobID (evPromoteRnd ev))" using blobPath_inject [OF dd v(1) v(1) x] ne by blast
    let ?info = "\<lambda>s. completeInfo ev meta b k (versionFor ev s) w"
    note rd = read_trip [OF reads_registry(1) data_only_simps(1), of dd "{?p}" b]
      and gv = read_trip [OF reads_registry(3) data_only_simps(1), of dd "{?p}" b]
    have rd': "trip (\<lambda>e. inv B dd e \<and> clear {?p} e \<and> keep B fs nm U Ob e \<and> ?C q) (lockBucketForCommit B b)
        (\<lambda>_ e. inv B dd e \<and> clear {?p} e) (\<lambda>_. inv B dd)"
      unfolding lockBucketForCommit_def by (rule trip_pre [OF _ rd]) auto
    let ?G = "\<lambda>info e. content B dd (ident_of info) (wrTemp w) e \<and> cur_of (obj_at B (egMeta e) b) b k = Some (info\<lparr>oiIsLatest := True\<rparr>)
        \<and> opened (egMeta e) b"
    let ?D = "completed cd ev ssec dd fs nm U b k u parts meta w"
    have dm: "\<not> oiIsDeleteMarker (?info s)" for s by (simp add: completeInfo_def)
    have co: "trip (\<lambda>e. inv B dd e \<and> clear {?p} e) (commitObject B ev (wrTemp w) ?x ?p (?info s))
       (\<lambda>info e. (inv B dd e \<and> ?G info e) \<and> ?D info) (\<lambda>_. inv B dd)" for s
      by (rule trip_conseq [OF commit_trip [OF v r completeInfo_ok [OF v(1) k ev mw et x(1)] dm x(1) refl np]])
        (use C q in \<open>auto simp: completed_def\<close>)
    have fg: "trip (\<lambda>e. (inv B dd e \<and> ?G info e) \<and> ?D info) (forgetUpload B ev b k u) (\<lambda>_. ?Q info) (\<lambda>_. inv B dd)" for info
    proof (rule trip_pure [where c = "?D info"], blast)
      assume "?D info"
      then show "trip (\<lambda>e. (inv B dd e \<and> ?G info e) \<and> ?D info) (forgetUpload B ev b k u) (\<lambda>_. ?Q info) (\<lambda>_. inv B dd)"
        by (intro trip_conseq [OF forget_trip [OF dd v(1) refl, where k = k and ev = ev and u = u]]) blast+
    qed
    have evt: "trip (?Q info) (eventM y) (\<lambda>_. ?Q info) (\<lambda>_. inv B dd)" for info y
      by (rule trip_event) (auto simp: content_def)
    have rt: "trip (?Q info) (retM info) ?Q (\<lambda>_. inv B dd)" for info by (rule trip_ret)
    show ?thesis
      unfolding commitComplete_def q prod.case triggerWebhook_def MirrorSync_def
      by (rule trip_op [OF rd' [unfolded q] trip_op [OF gv trip_op [OF co trip_op [OF fg trip_op [OF evt trip_op [OF evt rt]]]]]])
  qed
  show ?thesis unfolding CompleteMultipartUpload_def
    by (rule trip_op [OF _ cm]) (rule trip_conseq [OF prepare_complete_trip], auto)
qed

end

end
