(* ===== verification/Multipart_Spec.thy ===== *)
theory Multipart_Spec
  imports Multipart_Complete
begin

text \<open>
  The contract of multipart uploads. An upload in progress is, abstractly, a map
  from part numbers to the data uploaded for them. upload_in says that the
  metadata records U and the files fs implement the map M for one upload;
  UploadPart implements an update of the map, or nothing when it fails.
\<close>

subsection \<open>The abstraction\<close>

definition stored_part :: "codec \<Rightarrow> SSECParams option \<Rightarrow> files \<Rightarrow> string \<Rightarrow> PartInfo \<Rightarrow> string \<Rightarrow> bool" where
  "stored_part cd ssec fs dir p d \<longleftrightarrow> (\<exists>path bytes. partDataPath dir p = Inr path \<and> fs path = Some bytes \<and>
     readPart cd ssec bytes = Inr d \<and> piSize p = int (length d) \<and> piETag p = hex_encode (cdMD5 cd d))"

definition upload_in ::
  "codec \<Rightarrow> SSECParams option \<Rightarrow> string \<Rightarrow> string \<Rightarrow> string \<Rightarrow> string \<Rightarrow> (int \<Rightarrow> string option) \<Rightarrow> (string \<Rightarrow> dbmap) \<Rightarrow> files \<Rightarrow> bool" where
  "upload_in cd ssec dd b k u M U fs \<longleftrightarrow> (\<exists>meta dir. U b (multipartKey b k u) = Some (VMp meta) \<and>
     mpBucket meta = b \<and> mpKey meta = k \<and> mpUploadID meta = u \<and> json_mp meta = meta \<and>
     checkPartSSEC meta ssec = Inr () \<and> uploadDir dd b k u = Inr dir \<and>
     distinct (map piPartNumber (mpParts meta)) \<and> numbered (mpParts meta) \<and>
     (\<forall>n. rel_option (stored_part cd ssec fs dir) (uploadedParts (mpParts meta) n) (M n)))"

subsection \<open>Replacing a part\<close>

lemma uploadedParts_iff:
  "distinct (map piPartNumber ps) \<Longrightarrow> uploadedParts ps n = Some p \<longleftrightarrow> p \<in> set ps \<and> piPartNumber p = n"
proof -
  assume "distinct (map piPartNumber ps)"
  moreover have "map fst (rev (map (\<lambda>p. (piPartNumber p, p)) ps)) = rev (map piPartNumber ps)"
    by (simp add: rev_map comp_def)
  ultimately have "distinct (map fst (rev (map (\<lambda>p. (piPartNumber p, p)) ps)))" by simp
  from map_of_eq_Some_iff [OF this, of n p] show ?thesis by (auto simp: uploadedParts_def)
qed

lemma replacePart_set:
  "distinct (map piPartNumber ps) \<Longrightarrow> replacePart q ps = (old, qs) \<Longrightarrow>
   set qs = insert q {p \<in> set ps. piPartNumber p \<noteq> piPartNumber q} \<and> distinct (map piPartNumber qs) \<and>
   (\<forall>p. old = Some p \<longleftrightarrow> p \<in> set ps \<and> piPartNumber p = piPartNumber q)"
proof (induction ps arbitrary: old qs)
  case Nil
  then show ?case by auto
next
  case (Cons a ps)
  show ?case
  proof (cases "piPartNumber a = piPartNumber q")
    case True
    with Cons.prems show ?thesis by (auto simp: rev_image_eqI)
  next
    case False
    then obtain qs' where r: "replacePart q ps = (old, qs')" "qs = a # qs'"
      using Cons.prems by (auto split: prod.splits)
    from Cons.IH [OF _ r(1)] Cons.prems(1) have IH: "set qs' = insert q {p \<in> set ps. piPartNumber p \<noteq> piPartNumber q}"
      "distinct (map piPartNumber qs')" "\<forall>p. old = Some p \<longleftrightarrow> p \<in> set ps \<and> piPartNumber p = piPartNumber q" by auto
    have "piPartNumber a \<notin> piPartNumber ` set qs'" using IH(1) False Cons.prems(1) by auto
    with IH r False show ?thesis by auto
  qed
qed

lemma uploadedParts_replace:
  assumes "distinct (map piPartNumber ps)" "replacePart q ps = (old, qs)"
  shows "uploadedParts qs = (uploadedParts ps)(piPartNumber q \<mapsto> q)" "old = uploadedParts ps (piPartNumber q)"
proof -
  note R = replacePart_set [OF assms]
  have d: "distinct (map piPartNumber qs)" using R by blast
  have x: "\<And>x y. (\<And>p. (x = Some p) = (y = Some p)) \<Longrightarrow> x = (y :: PartInfo option)"
    by (metis not_Some_eq)
  have "uploadedParts qs n = ((uploadedParts ps)(piPartNumber q \<mapsto> q)) n" for n
  proof (cases "n = piPartNumber q")
    case True
    then show ?thesis using uploadedParts_iff [OF d, of n q] R by simp
  next
    case False
    then show ?thesis
      by (intro x) (use R uploadedParts_iff [OF d, of n] uploadedParts_iff [OF assms(1), of n] in auto)
  qed
  then show "uploadedParts qs = (uploadedParts ps)(piPartNumber q \<mapsto> q)" ..
  show "old = uploadedParts ps (piPartNumber q)"
    using R uploadedParts_iff [OF assms(1), of "piPartNumber q"]
    by (cases old; cases "uploadedParts ps (piPartNumber q)") auto
qed

subsection \<open>One part\<close>

text \<open>What writePartData stores reads back as the data written.\<close>

lemma write_part_read:
  assumes w: "writePartData cd ev mx ssec rd size' = Inr (stored, n, etag)" and mx: "mx < 2 ^ 63 - 1"
    and iv: "length (evIV ev) = 16"
  shows "readPart cd ssec stored = Inr (rdData rd) \<and> n = int (length (rdData rd)) \<and> etag = hex_encode (cdMD5 cd (rdData rd))"
proof -
  let ?r = "if mx > 0 then limitReader rd (int64 (mx + 1)) else rd"
  have r: "?r = rd"
  proof (cases "mx > 0")
    case True
    then have e: "int64 (mx + 1) = mx + 1" using mx by (intro int64_id) auto
    from w True have "int (length (rdData (limitReader rd (mx + 1)))) \<le> mx"
      unfolding writePartData_def Let_def if_Inl_iff e by auto
    then show ?thesis using True e by (auto simp: limitReader_def split: if_splits)
  qed simp
  from w have k: "\<And>p. ssec = Some p \<Longrightarrow> aes_key_ok (scKey p)"
    and t: "stored = (case ssec of None \<Rightarrow> rdData rd | Some p \<Rightarrow> evIV ev @ ctr_xor (cdAES cd (scKey p)) (evIV ev) 0 (rdData rd))"
    and n: "n = int (length (rdData rd))" "etag = hex_encode (cdMD5 cd (rdData rd))"
    unfolding writePartData_def Let_def r if_Inl_iff by auto
  show ?thesis
  proof (cases ssec)
    case None
    then show ?thesis using t n by (simp add: readPart_def)
  next
    case (Some p)
    with t iv k n show ?thesis by (simp add: readPart_def ctr_xor_invol)
  qed
qed

subsection \<open>What UploadPart does to the records and files of uploads\<close>

definition up :: "'b bolt \<Rightarrow> string \<Rightarrow> int \<Rightarrow> (string \<Rightarrow> dbmap) \<Rightarrow> files \<Rightarrow> 'b engine \<Rightarrow> bool" where
  "up B dd mx U fs e \<longleftrightarrow> mp_at B (egMeta e) = U \<and> egFiles e = fs \<and> egDataDir e = dd \<and> egMaxObjectSize e = mx"

text \<open>The file name drawn for a part is not in use.\<close>

definition fresh_part :: "string \<Rightarrow> string \<Rightarrow> string \<Rightarrow> string \<Rightarrow> env \<Rightarrow> int \<Rightarrow> files \<Rightarrow> bool" where
  "fresh_part dd b k u ev n fs \<longleftrightarrow> (\<forall>dir path. uploadDir dd b k u = Inr dir \<longrightarrow>
      partDataPath dir \<lparr>piBlobID = newBlobID (evBlobRnd ev), piPartNumber = n, piETag = [], piSize = 0\<rparr> = Inr path \<longrightarrow> fs path = None)"

definition put_upload :: "MultipartMeta \<Rightarrow> (string \<Rightarrow> dbmap) \<Rightarrow> string \<Rightarrow> dbmap" where
  "put_upload mt U = U(mpBucket mt := (U (mpBucket mt))(multipartKey (mpBucket mt) (mpKey mt) (mpUploadID mt) \<mapsto> marshal_mp mt))"

text \<open>The records and files after a committed part, before the part it replaces is
  removed.\<close>

definition part_put ::
  "codec \<Rightarrow> env \<Rightarrow> SSECParams option \<Rightarrow> int \<Rightarrow> reader \<Rightarrow> int \<Rightarrow> string \<Rightarrow> string \<Rightarrow> string \<Rightarrow> int \<Rightarrow> string \<Rightarrow> string \<Rightarrow>
   (string \<Rightarrow> dbmap) \<Rightarrow> files \<Rightarrow> PartInfo \<times> PartInfo option \<Rightarrow> (string \<Rightarrow> dbmap) \<Rightarrow> files \<Rightarrow> bool" where
  "part_put cd ev ssec mx rd size' b k u n x path U fs q U' fs' \<longleftrightarrow>
     (\<exists>stored sz etag mt ps. writePartData cd ev mx ssec rd size' = Inr (stored, sz, etag) \<and>
        fst q = \<lparr>piBlobID = x, piPartNumber = n, piETag = etag, piSize = sz\<rparr> \<and>
        U b (multipartKey b k u) = Some (VMp mt) \<and> replacePart (fst q) (mpParts mt) = (snd q, ps) \<and>
        U' = put_upload (mt\<lparr>mpParts := ps\<rparr>) U \<and> fs' = fs(path \<mapsto> stored))"

lemma trip_ex2:
  assumes h: "\<And>x y. C x y \<Longrightarrow> trip (P x y) f Q E"
  shows "trip (\<lambda>e. \<exists>x y. C x y \<and> P x y e) f Q E"
  unfolding trip_def
proof (intro allI impI, elim exE conjE)
  fix e x y assume "C x y" "P x y e"
  with h [OF this(1)] show "case f e of (Inl z, e') \<Rightarrow> E z e' | (Inr a, e') \<Rightarrow> Q a e'" by (simp add: trip_def)
qed

lemma up_files: "trip (up B dd mx U fs) (filesM h) (\<lambda>_. up B dd mx U (h fs)) E"
  by (rule trip_files) (simp add: up_def)

lemma up_lift: "trip (up B dd mx U fs) (liftM r) (\<lambda>a e. up B dd mx U fs e \<and> r = Inr a) (\<lambda>_. up B dd mx U fs)"
  by (rule trip_lift) auto

lemma up_state:
  "trip (up B dd mx U fs) (\<lambda>e. liftM (f (egDataDir e) (egMaxObjectSize e)) e)
     (\<lambda>a e. up B dd mx U fs e \<and> f dd mx = Inr a) (\<lambda>_. up B dd mx U fs)"
  by (auto simp: trip_def liftM_def up_def split: sum.split)

lemma up_sys: "trip (up B dd mx U fs) (sysM ev c msg) (\<lambda>_. up B dd mx U fs) (\<lambda>_. up B dd mx U fs)"
  by (rule trip_sys) auto

lemma up_guard: "trip (up B dd mx U fs) (\<lambda>e. if C e then failM x e else retM () e) (\<lambda>_. up B dd mx U fs) (\<lambda>_. up B dd mx U fs)"
  by (simp add: trip_def failM_def retM_def)

context bolt_laws
begin

lemma find_up:
  "trip (up B dd mx U fs) (findUpload B b k u)
     (\<lambda>mt e. up B dd mx U fs e \<and> U b (multipartKey b k u) = Some (VMp mt)) (\<lambda>_. up B dd mx U fs)"
proof -
  have "trip (up B dd mx U fs) (metaM (\<lambda>m. GetMultipartMeta B m b k u))
      (\<lambda>mt e. up B dd mx U fs e \<and> U b (multipartKey b k u) = Some (VMp mt)) (\<lambda>_. up B dd mx U fs)"
  proof (rule trip_meta)
    fix e r m assume e: "up B dd mx U fs e" and g: "GetMultipartMeta B (egMeta e) b k u = (r, m)"
    note G = GetMultipartMeta_mp [OF g]
    have "up B dd mx U fs (snapshot (e\<lparr>egMeta := m\<rparr>))" using e G by (simp add: up_def)
    moreover have "U b (multipartKey b k u) = Some (VMp mt)" if "r = Inr mt" for mt
    proof -
      from G that obtain v where v: "mp_at B (egMeta e) b (multipartKey b k u) = Some v" "unmarshal_mp v = Inr mt"
        by (auto split: option.splits)
      then have "v = VMp mt" by (cases v) auto
      with v e show ?thesis by (simp add: up_def)
    qed
    ultimately show "(case r of Inl x \<Rightarrow> up B dd mx U fs
        | Inr mt \<Rightarrow> \<lambda>e. up B dd mx U fs e \<and> U b (multipartKey b k u) = Some (VMp mt)) (snapshot (e\<lparr>egMeta := m\<rparr>))"
      by (cases r) auto
  qed
  then show ?thesis unfolding findUpload_def
    by (rule trip_try_case) (auto simp: trip_def retM_def failM_def)
qed

text \<open>A conclusion about the value of each step, collected along a sequence.\<close>

lemma up_op:
  assumes "trip P f (\<lambda>a e. up B dd mx U fs e \<and> C a) E"
    and "\<And>a. C a \<Longrightarrow> trip (up B dd mx U fs) (g a) Q E"
  shows "trip P (opM f g) Q E"
proof (rule trip_op [OF assms(1)])
  fix a
  show "trip (\<lambda>e. up B dd mx U fs e \<and> C a) (g a) Q E"
    by (rule trip_pure [where c = "C a"], blast) (rule trip_pre [OF _ assms(2)], auto)
qed

lemma check_part_up:
  "trip (up B dd mx U fs) (checkUploadPart B ssec b k u n size')
     (\<lambda>_ e. up B dd mx U fs e \<and> IsValidBucketName b \<and> 1 \<le> n \<and> n \<le> MaxPartNumber) (\<lambda>_. up B dd mx U fs)"
proof (cases "IsValidBucketName b \<and> 1 \<le> n \<and> n \<le> MaxPartNumber")
  case False
  then show ?thesis
    by (auto simp: checkUploadPart_def validateBucketName_def opM_def liftM_def failM_def trip_def)
next
  case True
  then have n: "\<not> (n < 1 \<or> n > MaxPartNumber)" by auto
  have l: "trip (up B dd mx U fs) (liftM r) (\<lambda>_ e. up B dd mx U fs e \<and> IsValidBucketName b \<and> 1 \<le> n \<and> n \<le> MaxPartNumber)
      (\<lambda>_. up B dd mx U fs)" for r
    by (rule trip_conseq [OF up_lift]) (use True in auto)
  show ?thesis
    unfolding checkUploadPart_def if_not_P [OF n]
    by (rule up_op [OF up_lift], rule up_op [OF up_state [where f = "\<lambda>d _. checkObjectPath d b k"]],
        rule trip_op [OF up_guard], rule up_op [OF find_up l])
qed

lemma commit_part_up:
  "trip (up B dd mx U fs) (commitPart B b k u q)
     (\<lambda>old e. \<exists>mt ps. U b (multipartKey b k u) = Some (VMp mt) \<and> replacePart q (mpParts mt) = (old, ps) \<and>
        up B dd mx (put_upload (mt\<lparr>mpParts := ps\<rparr>) U) fs e) (\<lambda>_. up B dd mx U fs)"
  unfolding commitPart_def
proof (rule up_op [OF find_up])
  fix mt :: MultipartMeta assume mt: "U b (multipartKey b k u) = Some (VMp mt)"
  obtain old ps where r: "replacePart q (mpParts mt) = (old, ps)" by (cases "replacePart q (mpParts mt)")
  have "trip (up B dd mx U fs) (metaM (\<lambda>m. PutMultipartMeta B m (mt\<lparr>mpParts := ps\<rparr>)))
      (\<lambda>_. up B dd mx (put_upload (mt\<lparr>mpParts := ps\<rparr>) U) fs) (\<lambda>_. up B dd mx U fs)"
  proof (rule trip_meta)
    fix e r m assume "up B dd mx U fs e" "PutMultipartMeta B (egMeta e) (mt\<lparr>mpParts := ps\<rparr>) = (r, m)"
    with PutMultipartMeta_mp [OF this(2)]
    show "(case r of Inl x \<Rightarrow> up B dd mx U fs | Inr a \<Rightarrow> up B dd mx (put_upload (mt\<lparr>mpParts := ps\<rparr>) U) fs)
        (snapshot (e\<lparr>egMeta := m\<rparr>))"
      by (cases r) (auto simp: up_def put_upload_def)
  qed
  then have "trip (up B dd mx U fs) (opM (metaM (\<lambda>m. PutMultipartMeta B m (mt\<lparr>mpParts := ps\<rparr>))) (\<lambda>_. retM old))
      (\<lambda>old e. \<exists>mt ps. U b (multipartKey b k u) = Some (VMp mt) \<and> replacePart q (mpParts mt) = (old, ps) \<and>
        up B dd mx (put_upload (mt\<lparr>mpParts := ps\<rparr>) U) fs e) (\<lambda>_. up B dd mx U fs)"
    by (rule trip_op) (use mt r in \<open>auto simp: trip_def retM_def\<close>)
  then show "trip (up B dd mx U fs) (case replacePart q (mpParts mt) of (previous, parts) \<Rightarrow>
      opM (metaM (\<lambda>m. PutMultipartMeta B m (mt\<lparr>mpParts := parts\<rparr>))) (\<lambda>_. retM previous))
      (\<lambda>old e. \<exists>mt ps. U b (multipartKey b k u) = Some (VMp mt) \<and> replacePart q (mpParts mt) = (old, ps) \<and>
        up B dd mx (put_upload (mt\<lparr>mpParts := ps\<rparr>) U) fs e) (\<lambda>_. up B dd mx U fs)"
    unfolding r prod.case .
qed

lemma publish_part_up:
  "trip (up B dd mx U fs) (publishPart B cd ev ssec b k u n rd size' x path)
     (\<lambda>q e. \<exists>U' fs'. part_put cd ev ssec mx rd size' b k u n x path U fs q U' fs' \<and> up B dd mx U' fs' e)
     (\<lambda>_ e. up B dd mx U (egFiles e) e \<and> (\<forall>p. p \<noteq> path \<longrightarrow> egFiles e p = fs p))"
    (is "trip _ _ ?Q ?E")
proof -
  have w: "trip (up B dd mx U fs) (\<lambda>e. liftM (writePartData cd ev (egMaxObjectSize e) ssec rd size') e)
      (\<lambda>a e. up B dd mx U fs e \<and> writePartData cd ev mx ssec rd size' = Inr a) ?E"
    by (rule trip_conseq [OF up_state [where f = "\<lambda>_ m. writePartData cd ev m ssec rd size'"]]) (auto simp: up_def)
  show ?thesis
    unfolding publishPart_def Let_def
  proof (rule up_op [OF w])
    fix a :: "string \<times> int \<times> string" assume wd: "writePartData cd ev mx ssec rd size' = Inr a"
    obtain stored sz etag where a: "a = (stored, sz, etag)" by (cases a)
    let ?i = "\<lparr>piBlobID = x, piPartNumber = n, piETag = etag, piSize = sz\<rparr>" and ?fs = "fs(path \<mapsto> stored)"
    have g: "trip (up B dd mx U fs) (\<lambda>e. if C e then failM y e else retM () e) (\<lambda>_. up B dd mx U fs) ?E" for C y
      by (rule trip_conseq [OF up_guard]) (auto simp: up_def)
    have s: "trip (up B dd mx U fs) (sysM ev c msg) (\<lambda>_. up B dd mx U fs) ?E" for c msg
      by (rule trip_conseq [OF up_sys]) (auto simp: up_def)
    have s': "trip (up B dd mx U ?fs) (sysM ev c msg) (\<lambda>_. up B dd mx U ?fs) ?E" for c msg
      by (rule trip_conseq [OF up_sys]) (auto simp: up_def)
    have pf: "trip (up B dd mx U fs) (filesM (\<lambda>fs. fs(path \<mapsto> stored))) (\<lambda>_. up B dd mx U ?fs) ?E"
      by (rule up_files)
    have cm: "trip (up B dd mx U ?fs) (opM (commitPart B b k u ?i) (\<lambda>previous. retM (?i, previous))) ?Q ?E"
      by (rule trip_op, rule trip_conseq [OF commit_part_up, where E' = ?E], assumption, assumption)
        (use wd a in \<open>auto simp: up_def trip_def retM_def part_put_def\<close>)
    show "trip (up B dd mx U fs) (case a of (stored, sz, etag) \<Rightarrow>
      opM (\<lambda>e. if \<not> HasPrefix path (multipartBase (egDataDir e) b @ ''/'')
               then failM (S3Error ''InvalidArgument'' errInvalidUploadID) e else retM () e) (\<lambda>_.
      opM (sysM ev CRename ''failed to rename part file'') (\<lambda>_.
      opM (filesM (\<lambda>fs. fs(path \<mapsto> stored))) (\<lambda>_.
      opM (sysM ev CSyncParents ''sync'') (\<lambda>_.
      opM (commitPart B b k u \<lparr>piBlobID = x, piPartNumber = n, piETag = etag, piSize = sz\<rparr>) (\<lambda>previous.
      retM (\<lparr>piBlobID = x, piPartNumber = n, piETag = etag, piSize = sz\<rparr>, previous))))))) ?Q ?E"
      unfolding a prod.case by (rule trip_op [OF g trip_op [OF s trip_op [OF pf trip_op [OF s' cm]]]])
  qed
qed

text \<open>The whole operation: on success the records and files of part_put without the
  replaced part's file, on failure those it found.\<close>

lemma upload_part_up:
  assumes fresh: "fresh_part dd b k u ev n fs"
  shows "trip (up B dd mx U fs) (UploadPart B cd ev ssec b k u n rd size')
     (\<lambda>info e. \<exists>dir path old U' fs'. IsValidBucketName b \<and> 1 \<le> n \<and> n \<le> MaxPartNumber \<and> uploadDir dd b k u = Inr dir \<and>
        partDataPath dir \<lparr>piBlobID = newBlobID (evBlobRnd ev), piPartNumber = n, piETag = [], piSize = 0\<rparr> = Inr path \<and>
        part_put cd ev ssec mx rd size' b k u n (newBlobID (evBlobRnd ev)) path U fs (info, old) U' fs' \<and>
        up B dd mx U' (case old of None \<Rightarrow> fs' | Some p \<Rightarrow> (case partDataPath dir p of Inl _ \<Rightarrow> fs' | Inr o' \<Rightarrow> fs'(o' := None))) e)
     (\<lambda>_. up B dd mx U fs)" (is "trip _ _ ?Q ?E")
proof -
  let ?x = "newBlobID (evBlobRnd ev)"
  let ?pi = "\<lparr>piBlobID = ?x, piPartNumber = n, piETag = [], piSize = 0\<rparr>"
  show ?thesis
    unfolding UploadPart_def Let_def
  proof (rule up_op [OF check_part_up], rule up_op [OF up_state [where f = "\<lambda>d _. uploadDir d b k u"]],
      rule trip_op [OF up_sys], rule up_op [OF up_lift])
    fix dir path
    assume bn: "IsValidBucketName b \<and> 1 \<le> n \<and> n \<le> MaxPartNumber" and dir: "uploadDir dd b k u = Inr dir"
      and path: "partDataPath dir ?pi = Inr path"
    have n: "fs path = None" using fresh dir path by (simp add: fresh_part_def)
    have undo: "trip (\<lambda>e. up B dd mx U (egFiles e) e \<and> (\<forall>p. p \<noteq> path \<longrightarrow> egFiles e p = fs p))
        (opM (removeObjectFile path) (\<lambda>_. failM y)) ?Q ?E" for y
    proof -
      have "(egFiles e)(path := None) = fs" if "\<forall>p. p \<noteq> path \<longrightarrow> egFiles e p = fs p" for e :: "'b engine"
        using that n by auto
      then show ?thesis by (auto simp: trip_def opM_def removeObjectFile_def filesM_def failM_def up_def)
    qed
    have fin: "trip (\<lambda>e. \<exists>U' fs'. part_put cd ev ssec mx rd size' b k u n ?x path U fs q U' fs' \<and> up B dd mx U' fs' e)
        (case q of (info, previous) \<Rightarrow> opM (removePart dir previous) (\<lambda>_. retM info)) ?Q ?E" for q
    proof -
      obtain info old where q: "q = (info, old)" by (cases q)
      show ?thesis
      proof (rule trip_ex2)
        fix U' fs' assume p: "part_put cd ev ssec mx rd size' b k u n ?x path U fs q U' fs'"
        have "trip (up B dd mx U' fs') (removePart dir old) (\<lambda>_. up B dd mx U' (case old of None \<Rightarrow> fs'
            | Some p \<Rightarrow> (case partDataPath dir p of Inl _ \<Rightarrow> fs' | Inr o' \<Rightarrow> fs'(o' := None)))) ?E"
          by (cases old; cases "partDataPath dir (the old)")
            (auto simp: removePart_def retM_def removeObjectFile_def filesM_def up_def trip_def)
        then show "trip (up B dd mx U' fs') (case q of (info, previous) \<Rightarrow> opM (removePart dir previous) (\<lambda>_. retM info)) ?Q ?E"
          unfolding q prod.case by (rule trip_op) (use p bn dir path q in \<open>auto simp: trip_def retM_def\<close>)
      qed
    qed
    show "trip (up B dd mx U fs) (opM (tryM (publishPart B cd ev ssec b k u n rd size' ?x path)) (\<lambda>r.
      case r of
        Inl x \<Rightarrow> opM (removeObjectFile path) (\<lambda>_. failM x)
      | Inr (info, previous) \<Rightarrow> opM (removePart dir previous) (\<lambda>_. retM info))) ?Q ?E"
      by (rule trip_try_case [OF publish_part_up fin undo])
  qed
qed

subsection \<open>The map it implements\<close>

lemma partDataPath_cong:
  "piBlobID p = piBlobID q \<Longrightarrow> piPartNumber p = piPartNumber q \<Longrightarrow> partDataPath dir p = partDataPath dir q"
  by (simp add: partDataPath_def Let_def cong: if_cong)

lemma json_mp_parts:
  assumes "json_mp meta = meta" "\<forall>p\<in>set qs. json_part p = p"
  shows "json_mp (meta\<lparr>mpParts := qs\<rparr>) = meta\<lparr>mpParts := qs\<rparr>"
proof -
  have "map json_part qs = qs" using assms(2) by (simp add: map_idI)
  moreover have "json_mp (meta\<lparr>mpParts := qs\<rparr>) = (json_mp meta)\<lparr>mpParts := map json_part qs\<rparr>" by (simp add: json_mp_def)
  ultimately show ?thesis using assms(1) by simp
qed

lemma upload_in_put:
  assumes I: "upload_in cd ssec dd b k u M U fs"
    and p: "part_put cd ev ssec mx rd size' b k u n (newBlobID (evBlobRnd ev)) path U fs (info, old) U' fs'"
    and d: "is_rooted dd" and b: "IsValidBucketName b" and n: "1 \<le> n" "n \<le> MaxPartNumber" and dir: "uploadDir dd b k u = Inr dir"
    and path: "partDataPath dir \<lparr>piBlobID = newBlobID (evBlobRnd ev), piPartNumber = n, piETag = [], piSize = 0\<rparr> = Inr path"
    and fresh: "fs path = None" and r: "16 \<le> length (evBlobRnd ev)" "length (evIV ev) = 16" and mx: "mx < 2 ^ 63 - 1"
  shows "upload_in cd ssec dd b k u (M(n \<mapsto> rdData rd)) U'
      (case old of None \<Rightarrow> fs' | Some p \<Rightarrow> (case partDataPath dir p of Inl _ \<Rightarrow> fs' | Inr o' \<Rightarrow> fs'(o' := None)))"
    and "piETag info = hex_encode (cdMD5 cd (rdData rd)) \<and> piSize info = int (length (rdData rd))"
proof -
  let ?x = "newBlobID (evBlobRnd ev)"
  have cd: "clean_path dir" using uploadDir_multipart [OF d b dir] by (simp add: multipart_path_def)
  from I dir obtain meta where m: "U b (multipartKey b k u) = Some (VMp meta)" "mpBucket meta = b" "mpKey meta = k"
    "mpUploadID meta = u" "json_mp meta = meta" "checkPartSSEC meta ssec = Inr ()" "distinct (map piPartNumber (mpParts meta))"
    "numbered (mpParts meta)" and R: "\<And>n. rel_option (stored_part cd ssec fs dir) (uploadedParts (mpParts meta) n) (M n)"
    unfolding upload_in_def by auto
  from p m(1) obtain stored sz etag ps where w: "writePartData cd ev mx ssec rd size' = Inr (stored, sz, etag)"
    and i: "info = \<lparr>piBlobID = ?x, piPartNumber = n, piETag = etag, piSize = sz\<rparr>"
    and rp: "replacePart info (mpParts meta) = (old, ps)" and U': "U' = put_upload (meta\<lparr>mpParts := ps\<rparr>) U"
    and fs': "fs' = fs(path \<mapsto> stored)" by (auto simp: part_put_def)
  note W = write_part_read [OF w mx r(2)] and RS = replacePart_set [OF m(7) rp] and RU = uploadedParts_replace [OF m(7) rp]
  show "piETag info = hex_encode (cdMD5 cd (rdData rd)) \<and> piSize info = int (length (rdData rd))" using W i by simp
  let ?F = "case old of None \<Rightarrow> fs' | Some p \<Rightarrow> (case partDataPath dir p of Inl _ \<Rightarrow> fs' | Inr o' \<Rightarrow> fs'(o' := None))"
  have keep: "?F q = Some c" if "fs' q = Some c" "\<And>p. old = Some p \<Longrightarrow> partDataPath dir p \<noteq> Inr q" for q c
    using that by (auto split: option.split sum.split)
  have old: "\<exists>c o'. partDataPath dir p = Inr o' \<and> fs o' = Some c" "piPartNumber p = n" "0 \<le> piPartNumber p" if "old = Some p" for p
  proof -
    have u: "uploadedParts (mpParts meta) n = Some p" using RU(2) that i by simp
    with R [of n] show "\<exists>c o'. partDataPath dir p = Inr o' \<and> fs o' = Some c"
      by (auto simp: rel_option_iff stored_part_def split: option.splits)
    have "p \<in> set (mpParts meta) \<and> piPartNumber p = n" using u uploadedParts_iff [OF m(7)] by blast
    then show "piPartNumber p = n" "0 \<le> piPartNumber p" using n by auto
  qed
  have pi: "partDataPath dir info = Inr path" unfolding path [symmetric] by (rule partDataPath_cong) (simp_all add: i)
  have new: "stored_part cd ssec ?F dir info (rdData rd)"
    unfolding stored_part_def
  proof (intro exI conjI)
    show "partDataPath dir info = Inr path" by (rule pi)
    show "?F path = Some stored" by (rule keep) (use fs' old(1) fresh in auto)
  qed (use W i in auto)
  have other: "stored_part cd ssec ?F dir p dt" if h: "stored_part cd ssec fs dir p dt" "p \<in> set (mpParts meta)" "piPartNumber p \<noteq> n" for p dt
  proof -
    from h(1) obtain q bytes where q: "partDataPath dir p = Inr q" "fs q = Some bytes" "readPart cd ssec bytes = Inr dt"
      "piSize p = int (length dt)" "piETag p = hex_encode (cdMD5 cd dt)" by (auto simp: stored_part_def)
    have z: "0 \<le> piPartNumber p" using m(8) h(2) by (auto simp: numbered_def)
    have "?F q = Some bytes"
      by (rule keep) (use q fs' fresh old part_path_inject [OF cd] z h(3) in auto)
    with q show ?thesis unfolding stored_part_def by blast
  qed
  have jm: "json_mp (meta\<lparr>mpParts := ps\<rparr>) = meta\<lparr>mpParts := ps\<rparr>"
  proof (rule json_mp_parts [OF m(5)])
    have "mpParts (json_mp meta) = map json_part (mpParts meta)" by (simp add: json_mp_def)
    then have o: "\<forall>p\<in>set (mpParts meta). json_part p = p" using m(5) by (metis list.map_ident map_eq_conv)
    have "json_part info = info"
      using W i hex_utf8 isBlobID_utf8 [OF newBlobID_is [OF r(1)]] by (simp add: json_part_def json_str_valid)
    with o RS show "\<forall>p\<in>set ps. json_part p = p" by auto
  qed
  have "upload_in cd ssec dd b k u (M(n \<mapsto> rdData rd)) U' ?F"
    unfolding upload_in_def
  proof (intro exI conjI)
    show "U' b (multipartKey b k u) = Some (VMp (meta\<lparr>mpParts := ps\<rparr>))"
      using U' m jm by (simp add: put_upload_def marshal_mp_def)
    show "checkPartSSEC (meta\<lparr>mpParts := ps\<rparr>) ssec = Inr ()"
      unfolding m(6) [symmetric] by (simp add: checkPartSSEC_def cong: if_cong)
    show "uploadDir dd b k u = Inr dir" by (rule dir)
    show "distinct (map piPartNumber (mpParts (meta\<lparr>mpParts := ps\<rparr>)))" using RS by simp
    show "numbered (mpParts (meta\<lparr>mpParts := ps\<rparr>))" using RS m(8) n i by (auto simp: numbered_def)
    show "json_mp (meta\<lparr>mpParts := ps\<rparr>) = meta\<lparr>mpParts := ps\<rparr>" by (rule jm)
    show "\<forall>j. rel_option (stored_part cd ssec ?F dir) (uploadedParts (mpParts (meta\<lparr>mpParts := ps\<rparr>)) j) ((M(n \<mapsto> rdData rd)) j)"
    proof
      fix j
      show "rel_option (stored_part cd ssec ?F dir) (uploadedParts (mpParts (meta\<lparr>mpParts := ps\<rparr>)) j) ((M(n \<mapsto> rdData rd)) j)"
      proof (cases "j = n")
        case True
        then show ?thesis using RU(1) i new by simp
      next
        case False
        with RU(1) i have e: "uploadedParts ps j = uploadedParts (mpParts meta) j" by simp
        show ?thesis
        proof (cases "uploadedParts (mpParts meta) j")
          case None
          with R [of j] e False show ?thesis by (simp add: rel_option_iff)
        next
          case (Some p)
          then have "p \<in> set (mpParts meta)" "piPartNumber p = j" using uploadedParts_iff [OF m(7)] by auto
          with Some R [of j] e False other show ?thesis by (auto simp: rel_option_iff split: option.splits)
        qed
      qed
    qed
  qed (use m in auto)
  then show "upload_in cd ssec dd b k u (M(n \<mapsto> rdData rd)) U' ?F" .
qed

lemma exists_up: "trip (up B dd mx U fs) (metaM (\<lambda>m. bucketMustExist B m b)) (\<lambda>_. up B dd mx U fs) (\<lambda>_. up B dd mx U fs)"
proof (rule trip_meta)
  fix e r m assume "up B dd mx U fs e" "bucketMustExist B (egMeta e) b = (r, m)"
  moreover from this have "mp_at B m = mp_at B (egMeta e)" using quiet_registry(1) [of B b] by (simp add: quiet_def)
  ultimately show "(case r of Inl x \<Rightarrow> up B dd mx U fs | Inr a \<Rightarrow> up B dd mx U fs) (snapshot (e\<lparr>egMeta := m\<rparr>))"
    by (cases r) (simp_all add: up_def)
qed

text \<open>A new upload is the empty map.\<close>

lemma create_up:
  assumes ev: "env_ok ev" and rq: "req_ok ssec k ct"
  shows "trip (up B dd mx U fs) (CreateMultipartUpload B ev ssec b k ct)
    (\<lambda>info e. IsValidBucketName b \<and> muUploadID info = evUUID ev \<and>
       (\<exists>U'. up B dd mx U' fs e \<and> upload_in cd ssec dd b k (evUUID ev) Map.empty U' fs)) (\<lambda>_. up B dd mx U fs)"
proof (cases "IsValidBucketName b")
  case False
  then show ?thesis
    by (simp add: CreateMultipartUpload_def validateBucketName_def opM_def liftM_def trip_def)
next
  case b: True
  let ?mt = "newUpload ev ssec b k ct"
  have n: "mpBucket ?mt = b" "mpKey ?mt = k" "mpUploadID ?mt = evUUID ev" "mpParts ?mt = []" by (simp_all add: newUpload_def)
  have j: "json_mp ?mt = ?mt"
    using ev rq bucket_utf8 [OF b]
    by (auto simp: json_mp_def newUpload_def env_ok_def req_ok_def json_str_valid split: option.split)
  have c: "checkPartSSEC ?mt ssec = Inr ()"
    using rq by (cases ssec) (auto simp: checkPartSSEC_def newUpload_def req_ok_def)
  have put: "trip (up B dd mx U fs) (metaM (\<lambda>m. PutMultipartMeta B m ?mt)) (\<lambda>_. up B dd mx (put_upload ?mt U) fs) (\<lambda>_. up B dd mx U fs)"
  proof (rule trip_meta)
    fix e r m assume "up B dd mx U fs e" "PutMultipartMeta B (egMeta e) ?mt = (r, m)"
    with PutMultipartMeta_mp [OF this(2)]
    show "(case r of Inl x \<Rightarrow> up B dd mx U fs | Inr a \<Rightarrow> up B dd mx (put_upload ?mt U) fs) (snapshot (e\<lparr>egMeta := m\<rparr>))"
      by (cases r) (auto simp: up_def put_upload_def)
  qed
  have I: "upload_in cd ssec dd b k (evUUID ev) Map.empty (put_upload ?mt U) fs" if d: "uploadDir dd b k (evUUID ev) = Inr dir" for dir
    unfolding upload_in_def
  proof (intro exI conjI)
    show "put_upload ?mt U b (multipartKey b k (evUUID ev)) = Some (VMp ?mt)" by (simp add: put_upload_def n j marshal_mp_def)
  qed (use n j c d in \<open>auto simp: numbered_def uploadedParts_def rel_option_iff\<close>)
  have fin: "trip (up B dd mx (put_upload ?mt U) fs) (retM \<lparr>muUploadID = evUUID ev, muBucket = b, muKey = k, muCreated = evNow ev\<rparr>)
      (\<lambda>info e. IsValidBucketName b \<and> muUploadID info = evUUID ev \<and>
       (\<exists>U'. up B dd mx U' fs e \<and> upload_in cd ssec dd b k (evUUID ev) Map.empty U' fs)) (\<lambda>_. up B dd mx U fs)"
    if "uploadDir dd b k (evUUID ev) = Inr dir" for dir
    using I [OF that] b by (auto simp: trip_def retM_def)
  show ?thesis
    unfolding CreateMultipartUpload_def lockBucketForCommit_def
    by (rule up_op [OF up_lift], rule up_op [OF up_state [where f = "\<lambda>d _. checkObjectPath d b k"]], rule up_op [OF up_lift],
        rule trip_op [OF exists_up], rule up_op [OF up_state [where f = "\<lambda>d _. uploadDir d b k (evUUID ev)"]],
        rule trip_op [OF up_sys], rule trip_op [OF up_sys], rule trip_op [OF exists_up], rule trip_op [OF put fin])
qed

end

end
