(* ===== verification/Multipart_Props.thy ===== *)
theory Multipart_Props
  imports Multipart_Spec
begin

text \<open>
  The properties of multipart uploads: every operation keeps the store intact, an
  upload is a map from part numbers to data, completing it publishes the requested
  parts in order under the ETag S3 defines, and a request that does not fit the
  upload changes nothing.
\<close>

subsection \<open>What a completion request selects\<close>

abbreviation part_numbers :: "CompletePart list \<Rightarrow> int list" where
  "part_numbers parts \<equiv> sort (map cpPartNumber parts)"

lemma part_numbers_key: "map cpPartNumber (sort_key cpPartNumber parts) = part_numbers parts"
proof -
  have i: "map cpPartNumber (insort_key cpPartNumber x xs) = insort (cpPartNumber x) (map cpPartNumber xs)" for x xs
    by (induction xs) auto
  show ?thesis by (induction parts) (simp_all add: i)
qed

lemma duplicatePart_iff: "sorted (map cpPartNumber ps) \<Longrightarrow> duplicatePart ps \<longleftrightarrow> \<not> distinct (map cpPartNumber ps)"
proof (induction ps rule: duplicatePart.induct)
  case (1 p q ps)
  have "cpPartNumber p \<in> cpPartNumber ` set ps \<Longrightarrow> cpPartNumber q = cpPartNumber p"
    using 1(2) by (auto intro: antisym)
  with 1 show ?case by auto
qed auto

lemma matchParts_iff:
  "matchParts nm pm cs = Inr ps \<longleftrightarrow>
     list_all2 (\<lambda>c p. pm (cpPartNumber c) = Some p \<and> Trim (piETag p) dquote = Trim (cpETag c) dquote) cs ps \<and>
     (nm \<or> (\<forall>p\<in>set (butlast ps). minPartSize \<le> piSize p))"
proof (induction cs arbitrary: ps)
  case Nil
  then show ?case by auto
next
  case (Cons c cs)
  show ?case
  proof (cases ps)
    case Nil
    then show ?thesis by (auto simp: bindE_Inr_iff split: option.splits)
  next
    case (Cons p qs)
    have l: "list_all2 R cs qs \<Longrightarrow> cs = [] \<longleftrightarrow> qs = []" for R by auto
    show ?thesis
      using Cons.IH [of qs] l unfolding Cons
      by (auto simp: bindE_Inr_iff not_less split: option.splits)
  qed
qed

lemma requestedParts_iff:
  "requestedParts nm meta parts = Inr ps \<longleftrightarrow>
     parts \<noteq> [] \<and> distinct (map cpPartNumber parts) \<and>
     list_all2 (\<lambda>c p. uploadedParts (mpParts meta) (cpPartNumber c) = Some p \<and> Trim (piETag p) dquote = Trim (cpETag c) dquote)
       (sort_key cpPartNumber parts) ps \<and>
     (nm \<or> (\<forall>p\<in>set (butlast ps). minPartSize \<le> piSize p))"
proof -
  have d: "duplicatePart (sort_key cpPartNumber parts) \<longleftrightarrow> \<not> distinct (map cpPartNumber parts)"
    using duplicatePart_iff [of "sort_key cpPartNumber parts"] by (simp add: part_numbers_key)
  have e: "sort_key cpPartNumber parts = [] \<longleftrightarrow> parts = []" by (metis length_0_conv length_sort)
  show ?thesis unfolding requestedParts_def Let_def d e if_Inl_iff matchParts_iff by blast
qed

subsection \<open>What is assembled from an upload\<close>

lemma hex_no_quote: "Trim (hex_encode s) dquote = hex_encode s"
proof (rule Trim_id)
  have "\<not> is_hex CHR 0x22" by code_simp
  then show "\<forall>c\<in>set (hex_encode s). c \<notin> set dquote" using hex_encode_props by (auto simp: dquote_def)
qed

lemma list_all2_determ:
  "list_all2 P xs ys \<Longrightarrow> list_all2 Q xs zs \<Longrightarrow> (\<And>x y z. P x y \<Longrightarrow> Q x z \<Longrightarrow> y = z) \<Longrightarrow> ys = zs"
proof (induction xs ys arbitrary: zs rule: list_all2_induct)
  case (Cons x xs y ys)
  then show ?case by (fastforce simp: list_all2_Cons1)
qed simp

lemma copyParts_data:
  "copyParts cd ev fs base dir key ps = Inr ds \<Longrightarrow>
   list_all2 (\<lambda>p d. \<exists>path bytes. partDataPath dir p = Inr path \<and> fs path = Some bytes \<and> readPart cd key bytes = Inr d) ps ds"
  by (induction ps arbitrary: ds) (auto simp: bindE_Inr_iff split: if_splits option.splits)

lemma partSums_stored:
  "partSums ps = Inr s \<Longrightarrow> list_all2 (\<lambda>p d. piETag p = hex_encode (cdMD5 cd d)) ps ds \<Longrightarrow> s = concat (map (cdMD5 cd) ds)"
proof (induction ps arbitrary: s ds)
  case Nil
  then show ?case by simp
next
  case (Cons p ps)
  then obtain d ds' where ds: "ds = d # ds'" "piETag p = hex_encode (cdMD5 cd d)"
    "list_all2 (\<lambda>p d. piETag p = hex_encode (cdMD5 cd d)) ps ds'" by (auto simp: list_all2_Cons1)
  from Cons.prems(1) ds(2) obtain s' where "partSums ps = Inr s'" "s = cdMD5 cd d @ s'"
    by (auto simp: hex_no_quote hex_decode_encode bindE_Inr_iff split: if_splits)
  with Cons.IH [OF this(1) ds(3)] ds(1) show ?case by simp
qed

lemma sumSizes_exact: "(\<forall>n\<in>set ns. 0 \<le> n) \<Longrightarrow> sum_list ns < 2 ^ 63 \<Longrightarrow> sumSizes ns = sum_list ns"
proof -
  have "(\<forall>n\<in>set ns. 0 \<le> n) \<Longrightarrow> 0 \<le> a \<Longrightarrow> a + sum_list ns < 2 ^ 63 \<Longrightarrow> foldl (\<lambda>a n. int64 (a + n)) a ns = a + sum_list ns" for a :: int
  proof (induction ns arbitrary: a)
    case Nil
    then show ?case by simp
  next
    case (Cons n ns)
    have "0 \<le> sum_list ns" using Cons.prems(1) by (intro sum_list_nonneg) auto
    then have "int64 (a + n) = a + n" using Cons.prems by (intro int64_id) auto
    with Cons.IH [of "a + n"] Cons.prems show ?case by (simp add: add.assoc)
  qed
  then show "(\<forall>n\<in>set ns. 0 \<le> n) \<Longrightarrow> sum_list ns < 2 ^ 63 \<Longrightarrow> sumSizes ns = sum_list ns"
    unfolding sumSizes_def by fastforce
qed

lemma length_concat_int: "sum_list (map (\<lambda>d. int (length d)) ds) = int (length (concat ds))"
  by (induction ds) auto

text \<open>The data the abstract upload holds for the requested parts, in part order.\<close>

definition parts_data :: "(int \<Rightarrow> string option) \<Rightarrow> CompletePart list \<Rightarrow> string list" where
  "parts_data M parts = map (\<lambda>n. the (M n)) (sort (map cpPartNumber parts))"

definition s3_etag :: "codec \<Rightarrow> string list \<Rightarrow> string" where
  "s3_etag cd ds = hex_encode (cdMD5 cd (concat (map (cdMD5 cd) ds))) @ ''-'' @ Itoa (int (length ds))"

lemma upload_inD:
  assumes "upload_in cd ssec dd b k u M U fs" "U b (multipartKey b k u) = Some (VMp meta)" "uploadDir dd b k u = Inr dir"
  shows "uploadedParts (mpParts meta) n = Some p \<Longrightarrow> \<exists>d. M n = Some d \<and> stored_part cd ssec fs dir p d"
    and "uploadedParts (mpParts meta) n = None \<Longrightarrow> M n = None" and "uploadKey meta ssec = ssec"
proof -
  have r: "rel_option (stored_part cd ssec fs dir) (uploadedParts (mpParts meta) n) (M n)"
    using assms unfolding upload_in_def by auto
  then show "uploadedParts (mpParts meta) n = Some p \<Longrightarrow> \<exists>d. M n = Some d \<and> stored_part cd ssec fs dir p d"
    "uploadedParts (mpParts meta) n = None \<Longrightarrow> M n = None"
    by (auto simp: rel_option_iff split: option.splits)
  have "checkPartSSEC meta ssec = Inr ()" using assms(1,2) unfolding upload_in_def by auto
  then show "uploadKey meta ssec = ssec" by (auto simp: checkPartSSEC_def uploadKey_def split: if_splits)
qed

lemma requested_data:
  assumes I: "upload_in cd ssec dd b k u M U fs" "U b (multipartKey b k u) = Some (VMp meta)" "uploadDir dd b k u = Inr dir"
    and r: "requestedParts nm meta parts = Inr ps"
  shows "(\<forall>n\<in>set (map cpPartNumber parts). M n \<noteq> None) \<and> list_all2 (stored_part cd ssec fs dir) ps (parts_data M parts)"
proof -
  let ?cs = "sort_key cpPartNumber parts"
  from r have l: "list_all2 (\<lambda>c p. uploadedParts (mpParts meta) (cpPartNumber c) = Some p \<and> Trim (piETag p) dquote = Trim (cpETag c) dquote) ?cs ps"
    by (simp add: requestedParts_iff)
  have g: "(\<forall>c\<in>set cs. M (cpPartNumber c) \<noteq> None) \<and> list_all2 (stored_part cd ssec fs dir) ps (map (\<lambda>c. the (M (cpPartNumber c))) cs)"
    if "list_all2 (\<lambda>c p. uploadedParts (mpParts meta) (cpPartNumber c) = Some p \<and> Trim (piETag p) dquote = Trim (cpETag c) dquote) cs ps" for cs
    using that
  proof (induction cs ps rule: list_all2_induct)
    case Nil
    then show ?case by simp
  next
    case (Cons c cs p ps)
    from upload_inD(1) [OF I] Cons obtain d where "M (cpPartNumber c) = Some d" "stored_part cd ssec fs dir p d" by blast
    with Cons show ?case by simp
  qed
  have "parts_data M parts = map (\<lambda>c. the (M (cpPartNumber c))) ?cs"
    unfolding parts_data_def part_numbers_key [symmetric] by simp
  moreover have "set ?cs = set parts" by simp
  ultimately show ?thesis using g [OF l] by auto
qed

lemma assembled_data:
  assumes I: "upload_in cd ssec dd b k u M U fs" and a: "assembled cd ev ssec dd fs nm U b k u parts (meta, x, p, w)"
  shows "parts \<noteq> [] \<and> distinct (map cpPartNumber parts) \<and> (\<forall>n\<in>set (map cpPartNumber parts). M n \<noteq> None)"
    and "wrETag w = s3_etag cd (parts_data M parts)"
    and "wrSize w = sumSizes (map (\<lambda>d. int (length d)) (parts_data M parts))"
    and "wrTemp w = (case ssec of None \<Rightarrow> if wrCompressed w then cdGzip cd (concat (parts_data M parts)) else concat (parts_data M parts)
      | Some p \<Rightarrow> evIV ev @ ctr_xor (cdAES cd (scKey p)) (evIV ev) 0
          (if wrCompressed w then cdGzip cd (concat (parts_data M parts)) else concat (parts_data M parts)))"
    and "ssec = Some q \<Longrightarrow> aes_key_ok (scKey q)"
proof -
  let ?D = "parts_data M parts"
  from a obtain ps where U: "U b (multipartKey b k u) = Some (VMp meta)" and r: "requestedParts nm meta parts = Inr ps"
    and o: "assembleObject cd ev dd fs ssec meta b k u ps = Inr w" unfolding assembled_def by auto
  have k: "uploadKey meta ssec = ssec"
  proof -
    from I obtain dir where "uploadDir dd b k u = Inr dir" unfolding upload_in_def by blast
    from upload_inD(3) [OF I U this] show ?thesis .
  qed
  let ?c = "shouldCompress (mpContentType meta) (sumSizes (map piSize ps))"
  from o obtain etag dir ds where e: "multipartETag cd ps = Inr etag" and d: "uploadDir dd b k u = Inr dir"
    and c: "copyParts cd ev fs (multipartBase dd b @ ''/'') dir ssec ps = Inr ds"
    and w: "w = \<lparr>wrTemp = (case ssec of None \<Rightarrow> if ?c then cdGzip cd (concat ds) else concat ds
       | Some p \<Rightarrow> evIV ev @ ctr_xor (cdAES cd (scKey p)) (evIV ev) 0 (if ?c then cdGzip cd (concat ds) else concat ds)),
       wrSize = sumSizes (map (\<lambda>d. int (length d)) ds), wrETag = etag, wrCompressed = ?c\<rparr>"
    unfolding assembleObject_def k Let_def if_Inl_iff bindE_Inr_iff by blast
  from o have ky: "\<not> (case ssec of None \<Rightarrow> False | Some p \<Rightarrow> \<not> aes_key_ok (scKey p))"
    unfolding assembleObject_def k Let_def if_Inl_iff by blast
  have c': "wrCompressed w = ?c" using w by simp
  note R = requested_data [OF I U d r]
  have ds: "ds = ?D"
    by (rule list_all2_determ [OF copyParts_data [OF c] conjunct2 [OF R]]) (auto simp: stored_part_def)
  show "parts \<noteq> [] \<and> distinct (map cpPartNumber parts) \<and> (\<forall>n\<in>set (map cpPartNumber parts). M n \<noteq> None)"
    using R r by (auto simp: requestedParts_iff)
  obtain sm where sm: "partSums ps = Inr sm" "etag = hex_encode (cdMD5 cd sm) @ ''-'' @ Itoa (int (length ps))"
    using e by (auto simp: multipartETag_def bindE_Inr_iff)
  have t: "list_all2 (\<lambda>p d. piETag p = hex_encode (cdMD5 cd d)) ps ?D"
    using R by (auto elim!: list_all2_mono simp: stored_part_def)
  have "length ps = length ?D" using R by (auto dest: list_all2_lengthD)
  with sm partSums_stored [OF sm(1) t] have "etag = s3_etag cd ?D" by (simp add: s3_etag_def)
  moreover have "wrETag w = etag" by (subst w) simp
  ultimately show "wrETag w = s3_etag cd ?D" by simp
  show "wrSize w = sumSizes (map (\<lambda>d. int (length d)) ?D)" by (subst w) (simp add: ds)
  show "wrTemp w = (case ssec of None \<Rightarrow> if wrCompressed w then cdGzip cd (concat ?D) else concat ?D
      | Some p \<Rightarrow> evIV ev @ ctr_xor (cdAES cd (scKey p)) (evIV ev) 0 (if wrCompressed w then cdGzip cd (concat ?D) else concat ?D))"
    unfolding c' by (subst w) (simp only: ds written.select_convs)
  show "ssec = Some q \<Longrightarrow> aes_key_ok (scKey q)" using ky by simp
qed

lemma bad_request:
  assumes I: "upload_in cd ssec dd b k u M U fs" and m: "U b (multipartKey b k u) = Some (VMp meta)"
    and bad: "parts = [] \<or> \<not> distinct (map cpPartNumber parts) \<or>
      (\<exists>c\<in>set parts. case M (cpPartNumber c) of None \<Rightarrow> True
         | Some d \<Rightarrow> Trim (cpETag c) dquote \<noteq> hex_encode (cdMD5 cd d) \<or>
             (\<not> nm \<and> length d < 5242880 \<and> (\<exists>c'\<in>set parts. cpPartNumber c < cpPartNumber c')))"
  shows "requestedParts nm meta parts \<noteq> Inr ps"
proof
  assume r: "requestedParts nm meta parts = Inr ps"
  obtain dir where d: "uploadDir dd b k u = Inr dir" using I unfolding upload_in_def by blast
  let ?cs = "sort_key cpPartNumber parts"
  note Q = r [unfolded requestedParts_iff]
  have l: "length ?cs = length ps" using Q list_all2_lengthD by blast
  have ok: "\<exists>p d. ps ! i = p \<and> M (cpPartNumber (?cs ! i)) = Some d \<and> Trim (piETag p) dquote = Trim (cpETag (?cs ! i)) dquote \<and>
      piETag p = hex_encode (cdMD5 cd d) \<and> piSize p = int (length d)" if i: "i < length ?cs" for i
  proof -
    have "uploadedParts (mpParts meta) (cpPartNumber (?cs ! i)) = Some (ps ! i)" "Trim (piETag (ps ! i)) dquote = Trim (cpETag (?cs ! i)) dquote"
      using Q list_all2_nthD i by blast+
    with upload_inD(1) [OF I m d this(1)] show ?thesis by (auto simp: stored_part_def)
  qed
  from bad Q obtain c where c: "c \<in> set ?cs" and b: "case M (cpPartNumber c) of None \<Rightarrow> True
         | Some d \<Rightarrow> Trim (cpETag c) dquote \<noteq> hex_encode (cdMD5 cd d) \<or>
             (\<not> nm \<and> length d < 5242880 \<and> (\<exists>c'\<in>set parts. cpPartNumber c < cpPartNumber c'))" by auto
  then obtain i where i: "i < length ?cs" "?cs ! i = c" by (metis in_set_conv_nth)
  from ok [OF i(1)] i(2) obtain dt where dt: "M (cpPartNumber c) = Some dt" "Trim (cpETag c) dquote = hex_encode (cdMD5 cd dt)"
    and s: "piSize (ps ! i) = int (length dt)" using hex_no_quote by auto
  from b dt obtain c' where s': "\<not> nm" "length dt < 5242880" and c': "c' \<in> set ?cs" "cpPartNumber c < cpPartNumber c'" by auto
  from c'(1) obtain j where j: "j < length ?cs" "?cs ! j = c'" by (metis in_set_conv_nth)
  have "i < j"
  proof (rule ccontr)
    assume "\<not> i < j"
    with i(1) sorted_nth_mono [of "map cpPartNumber ?cs" j i] have "cpPartNumber (?cs ! j) \<le> cpPartNumber (?cs ! i)" by simp
    with i j c'(2) show False by simp
  qed
  then have ii: "i < length (butlast ps)" using j(1) l by simp
  then have "butlast ps ! i = ps ! i" by (rule nth_butlast)
  with ii nth_mem have "ps ! i \<in> set (butlast ps)" by metis
  with Q s s' show False by (force simp: minPartSize_def)
qed

context bolt_laws
begin

lemma complete_get:
  assumes e: "inv B dd e" and U: "mp_ok (mp_at B (egMeta e))"
    and I: "upload_in cd ssec dd b k u M (mp_at B (egMeta e)) (egFiles e)"
    and ev: "env_ok ev" and k: "utf8_valid k" and dd: "is_rooted dd"
    and fr: "egFiles e (blobPath dd b (newBlobID (evBlobRnd ev))) = None"
    and z: "\<And>x. cdGunzip cd (cdGzip cd x) = Some x" and f: "\<not> evFails ev' COpen"
    and c: "CompleteMultipartUpload B cd ev ssec b k u parts e = (Inr info, e')"
  shows "parts \<noteq> [] \<and> distinct (map cpPartNumber parts) \<and> (\<forall>n\<in>set (map cpPartNumber parts). M n \<noteq> None)"
    and "oiETag info = s3_etag cd (parts_data M parts)"
    and "int (length (concat (parts_data M parts))) < 2 ^ 63 \<Longrightarrow> oiSize info = int (length (concat (parts_data M parts)))"
    and "\<exists>kind e''. GetObject B cd ev' ssec b k [] e' = (Inr (concat (parts_data M parts), kind, info\<lparr>oiIsLatest := True\<rparr>), e'')"
proof -
  let ?U = "mp_at B (egMeta e)" and ?D = "parts_data M parts"
  have pre: "inv B dd e \<and> clear {blobPath dd b (newBlobID (evBlobRnd ev))} e \<and>
      keep B (egFiles e) (egDisableMinPartSize e) ?U (obj_at B (egMeta e)) e"
    using e fr by (simp add: clear_def keep_def)
  from tripD [OF complete_trip [OF ev k dd U] pre c] obtain meta w
    where i: "inv B dd e'" and C: "completed cd ev ssec dd (egFiles e) (egDisableMinPartSize e) ?U b k u parts meta w info"
      and ct: "content B dd (ident_of info) (wrTemp w) e'" "cur_of (obj_at B (egMeta e') b) b k = Some (info\<lparr>oiIsLatest := True\<rparr>)"
      and o: "opened (egMeta e') b" by blast
  from C obtain x p s where a: "assembled cd ev ssec dd (egFiles e) (egDisableMinPartSize e) ?U b k u parts (meta, x, p, w)"
    and inf: "info = (completeInfo ev meta b k (versionFor ev s) w)\<lparr>oiBlobID := newBlobID (evBlobRnd ev)\<rparr>"
    unfolding completed_def by blast
  note A = assembled_data [OF I a]
  show "parts \<noteq> [] \<and> distinct (map cpPartNumber parts) \<and> (\<forall>n\<in>set (map cpPartNumber parts). M n \<noteq> None)" by (rule A(1))
  show "oiETag info = s3_etag cd ?D" using A(2) inf by (simp add: completeInfo_def)
  show "oiSize info = int (length (concat ?D))" if "int (length (concat ?D)) < 2 ^ 63"
    using A(3) inf that sumSizes_exact [of "map (\<lambda>d. int (length d)) ?D"] by (simp add: completeInfo_def length_concat_int)
  have v: "IsValidBucketName b" "nul \<notin> set k" using a by (auto simp: assembled_def validateNewKey_def HasByte_def split: if_splits)
  have path: "is_ok (objectPathWithVersion dd b k [])" using a objectPathWithVersion_base [OF dd] by (auto simp: assembled_def)
  have ss: "mpSSECustomerAlgorithm meta \<noteq> [] \<longleftrightarrow> ssec \<noteq> None" "\<And>q. ssec = Some q \<Longrightarrow> scKeyMD5 q = mpSSECustomerKeyMD5 meta"
    using a by (auto simp: assembled_def checkCompleteSSEC_def split: if_splits option.splits)
  let ?i = "info\<lparr>oiIsLatest := True\<rparr>"
  have "\<exists>kind. openData cd ?i ssec (wrTemp w) = Inr (concat ?D, kind)"
    by (rule open_stored [OF A(4) _ _ z A(5)]) (use ev inf ss in \<open>auto simp: env_ok_def completeInfo_def\<close>)
  then obtain kind where d: "openData cd ?i ssec (wrTemp w) = Inr (concat ?D, kind)" ..
  have s: "validateSSECParams ?i ssec = Inr ()"
    using inf ss by (cases ssec) (auto simp: validateSSECParams_def completeInfo_def)
  have dm: "\<not> oiIsDeleteMarker ?i" using inf by (simp add: completeInfo_def)
  have ct': "content B dd (ident_of ?i) (wrTemp w) e'" using ct(1) by simp
  from get_current [OF i v o path ct(2) dm s ct' d f]
  show "\<exists>kind e''. GetObject B cd ev' ssec b k [] e' = (Inr (concat ?D, kind, ?i), e'')" by blast
qed

lemma complete_rejected:
  assumes e: "inv B dd e" and b: "mp_at B (egMeta e) b (multipartKey b k u) = Some (VMp meta)"
    and r: "requestedParts (egDisableMinPartSize e) meta parts = Inl x"
  shows "\<not> is_ok (fst (CompleteMultipartUpload B cd ev ssec b k u parts e)) \<and>
    keep B (egFiles e) (egDisableMinPartSize e) (mp_at B (egMeta e)) (obj_at B (egMeta e))
      (snd (CompleteMultipartUpload B cd ev ssec b k u parts e))"
proof -
  let ?K = "keep B (egFiles e) (egDisableMinPartSize e) (mp_at B (egMeta e)) (obj_at B (egMeta e))"
  let ?p = "prepareComplete B cd ev ssec b k u parts e"
  have pre: "inv B dd e \<and> clear {} e \<and> ?K e" using e by (simp add: clear_def keep_def)
  have t: "case ?p of (Inl y, e') \<Rightarrow> ?K e' | (Inr q, e') \<Rightarrow> False"
  proof (cases ?p)
    case (Pair y e')
    show ?thesis
    proof (cases y)
      case (Inl z)
      have "trip (\<lambda>e'. inv B dd e' \<and> clear {} e' \<and> ?K e') (prepareComplete B cd ev ssec b k u parts) (\<lambda>_. ?K) (\<lambda>_. ?K)"
        by (rule trip_conseq [OF prepare_complete_trip]) auto
      from tripD_any [OF this pre] have "?K (snd ?p)" .
      with Pair Inl show ?thesis by simp
    next
      case (Inr q)
      from tripD [OF prepare_complete_trip pre, of cd ev ssec b k u parts q e'] Pair Inr
      have "assembled cd ev ssec dd (egFiles e) (egDisableMinPartSize e) (mp_at B (egMeta e)) b k u parts q" by blast
      with b r show ?thesis by (auto simp: assembled_def)
    qed
  qed
  then show ?thesis by (auto simp: CompleteMultipartUpload_def opM_def split: prod.splits sum.splits)
qed

lemma complete_mp:
  "trip (\<lambda>e. mp_ok (mp_at B (egMeta e))) (CompleteMultipartUpload B cd ev ssec b k u parts)
     (\<lambda>_ e. mp_ok (mp_at B (egMeta e))) (\<lambda>_ e. mp_ok (mp_at B (egMeta e)))"
proof -
  let ?P = "\<lambda>e :: 'b engine. mp_ok (mp_at B (egMeta e))"
  have q: "trip ?P f (\<lambda>_. ?P) (\<lambda>_. ?P)" if "quietM B f" for f :: "('x, 'b) eop"
    using that by (auto simp: trip_def dest!: quietD split: prod.splits sum.splits)
  have g: "quietM B (\<lambda>e. case s e of Inl x \<Rightarrow> failM (S3Error ''InvalidArgument'' (err_text x)) e | Inr _ \<Rightarrow> retM () e)" for s
    by (intro quiet_rules)
  have p: "quietM B (prepareComplete B cd ev ssec b k u parts)"
    unfolding prepareComplete_def by (intro quiet_rules quiet_find g | simp split: prod.split, intro allI impI)+
  have d: "trip ?P (metaM (\<lambda>m. DeleteMultipartMeta B m b k u)) (\<lambda>_. ?P) (\<lambda>_. ?P)"
  proof (rule trip_meta)
    fix e r m assume "?P e" "DeleteMultipartMeta B (egMeta e) b k u = (r, m)"
    with DeleteMultipartMeta_mp [OF this(2)]
    show "(case r of Inl x \<Rightarrow> ?P | Inr a \<Rightarrow> ?P) (snapshot (e\<lparr>egMeta := m\<rparr>))"
      by (cases r) (auto simp: mp_ok_def split: if_splits)
  qed
  have fg: "trip ?P (forgetUpload B ev b k u) (\<lambda>_. ?P) (\<lambda>_. ?P)"
    unfolding forgetUpload_def by (rule trip_try_case [OF d]) (intro q quiet_rules)+
  have c: "trip ?P (commitComplete B ev b k u a) (\<lambda>_. ?P) (\<lambda>_. ?P)" for a
  proof -
    obtain meta x path w where a: "a = (meta, x, path, w)" by (cases a)
    show ?thesis
      unfolding commitComplete_def a prod.case lockBucketForCommit_def triggerWebhook_def MirrorSync_def
      by (rule trip_op [OF q [OF quiet_registryM(1)]], rule trip_op [OF q [OF quiet_registryM(2)]],
          rule trip_op [OF q [OF quiet_commit]], rule trip_op [OF fg], (rule q, intro quiet_rules))
  qed
  show ?thesis unfolding CompleteMultipartUpload_def by (rule trip_op [OF q [OF p] c])
qed

lemma abort_up:
  "trip (up B dd mx U fs) (AbortMultipartUpload B ev b k u)
     (\<lambda>_ e. \<exists>path. multipartUploadPath dd b u = Inr path \<and>
        up B dd mx (U(b := (U b)(multipartKey b k u := None))) (RemoveAll path fs) e) (\<lambda>_ _. True)"
proof -
  have p: "trip (up B dd mx U fs) (\<lambda>e. case multipartUploadPath (egDataDir e) b u of
               Inl x \<Rightarrow> failM (S3Error ''InvalidArgument'' (err_text x)) e
             | Inr path \<Rightarrow> retM path e) (\<lambda>p e. up B dd mx U fs e \<and> multipartUploadPath dd b u = Inr p) (\<lambda>_ _. True)"
    by (auto simp: trip_def failM_def retM_def up_def split: sum.split)
  have rm: "trip (up B dd mx U fs) (removeUploadDir ev path) (\<lambda>_. up B dd mx U (RemoveAll path fs)) (\<lambda>_ _. True)" for path
    unfolding removeUploadDir_def by (rule trip_op [OF trip_conseq [OF up_sys] up_files]) auto
  have d: "trip (up B dd mx U F) (metaM (\<lambda>m. DeleteMultipartMeta B m b k u))
      (\<lambda>_. up B dd mx (U(b := (U b)(multipartKey b k u := None))) F) (\<lambda>_ _. True)" for F
  proof (rule trip_meta)
    fix e r m assume "up B dd mx U F e" "DeleteMultipartMeta B (egMeta e) b k u = (r, m)"
    with DeleteMultipartMeta_mp [OF this(2)]
    show "(case r of Inl x \<Rightarrow> \<lambda>_. True | Inr a \<Rightarrow> up B dd mx (U(b := (U b)(multipartKey b k u := None))) F) (snapshot (e\<lparr>egMeta := m\<rparr>))"
      by (cases r) (auto simp: up_def)
  qed
  have t: "trip P f Q (\<lambda>_ _. True)" if "trip P f Q E" for P E and f :: "('x, 'b) eop" and Q
    using that by (rule trip_conseq) auto
  show ?thesis
    unfolding AbortMultipartUpload_def
    by (rule up_op [OF t [OF up_lift]], rule up_op [OF t [OF up_state [where f = "\<lambda>d _. checkObjectPath d b k"]]],
        rule up_op [OF t [OF find_up]], rule up_op [OF p], rule trip_op [OF rm trip_conseq [OF d]]) auto
qed

lemma no_upload:
  assumes "mp_at B (egMeta e) b (multipartKey b k u) = None"
  shows "\<not> is_ok (fst (UploadPart B cd ev ssec b k u n rd size' e))"
    and "\<not> is_ok (fst (CompleteMultipartUpload B cd ev ssec b k u parts e))"
proof -
  let ?U = "mp_at B (egMeta e)"
  have f: "trip (up B dd mx ?U fs) (findUpload B b k u) (\<lambda>_ _. False) (\<lambda>_ _. True)" for dd mx fs
    by (rule trip_conseq [OF find_up]) (use assms in auto)
  have t: "trip P g Q (\<lambda>_ _. True)" if "trip P g Q E" for P E and g :: "('x, 'b) eop" and Q
    using that by (rule trip_conseq) auto
  have z: "trip (\<lambda>_. False) g (\<lambda>_ _. False) (\<lambda>_ _. True)" for g :: "('x, 'b) eop" by (simp add: trip_def)
  have u: "up B (egDataDir e) (egMaxObjectSize e) ?U (egFiles e) e" by (simp add: up_def)
  have no: "\<not> is_ok (fst (g e))" if "trip (up B (egDataDir e) (egMaxObjectSize e) ?U (egFiles e)) g (\<lambda>_ _. False) (\<lambda>_ _. True)"
    for g :: "('x, 'b) eop"
    using that u by (cases "g e"; cases "fst (g e)") (auto simp: trip_def)
  have iff: "trip P (if c then failM x else g) Q (\<lambda>_ _. True)" if "trip P g Q (\<lambda>_ _. True)" for P Q c x and g :: "('x, 'b) eop"
    using that by (simp add: trip_def failM_def)
  show "\<not> is_ok (fst (UploadPart B cd ev ssec b k u n rd size' e))"
    unfolding UploadPart_def checkUploadPart_def
    by (rule no, rule trip_op [OF _ z], rule up_op [OF t [OF up_lift]], rule iff,
        rule up_op [OF t [OF up_state [where f = "\<lambda>d _. checkObjectPath d b k"]]], rule trip_op [OF t [OF up_guard]],
        rule trip_op [OF f z])
  show "\<not> is_ok (fst (CompleteMultipartUpload B cd ev ssec b k u parts e))"
    unfolding CompleteMultipartUpload_def prepareComplete_def
    by (rule no, rule trip_op [OF _ z], rule iff, rule up_op [OF t [OF up_lift]], rule trip_op [OF f z])
qed

lemma upload_part_refines:
  assumes "egDataDir e = dd" and "is_rooted dd"
    and "upload_in cd ssec dd b k u M (mp_at B (egMeta e)) (egFiles e)"
    and "16 \<le> length (evBlobRnd ev)" and "length (evIV ev) = 16" and "egMaxObjectSize e < 2 ^ 63 - 1"
    and "fresh_part dd b k u ev n (egFiles e)"
    and "UploadPart B cd ev ssec b k u n rd size' e = (r, e')"
  shows "case r of
      Inl _ \<Rightarrow> upload_in cd ssec dd b k u M (mp_at B (egMeta e')) (egFiles e') \<and> egFiles e' = egFiles e
    | Inr info \<Rightarrow> upload_in cd ssec dd b k u (M(n \<mapsto> rdData rd)) (mp_at B (egMeta e')) (egFiles e') \<and>
        piETag info = hex_encode (cdMD5 cd (rdData rd)) \<and> piSize info = int (length (rdData rd))"
proof -
  have u: "up B dd (egMaxObjectSize e) (mp_at B (egMeta e)) (egFiles e) e" using assms(1) by (simp add: up_def)
  note T = upload_part_up [OF assms(7)]
  show ?thesis
  proof (cases r)
    case (Inl x)
    from tripE [OF T u assms(8) [unfolded this]] Inl assms(3) show ?thesis by (simp add: up_def)
  next
    case (Inr info)
    from tripD [OF T u assms(8) [unfolded Inr]] obtain dir path old U' fs' where
      h: "IsValidBucketName b" "1 \<le> n" "n \<le> MaxPartNumber" "uploadDir dd b k u = Inr dir"
        "partDataPath dir \<lparr>piBlobID = newBlobID (evBlobRnd ev), piPartNumber = n, piETag = [], piSize = 0\<rparr> = Inr path"
      and p: "part_put cd ev ssec (egMaxObjectSize e) rd size' b k u n (newBlobID (evBlobRnd ev)) path (mp_at B (egMeta e)) (egFiles e) (info, old) U' fs'"
      and e': "up B dd (egMaxObjectSize e) U'
        (case old of None \<Rightarrow> fs' | Some p \<Rightarrow> (case partDataPath dir p of Inl _ \<Rightarrow> fs' | Inr o' \<Rightarrow> fs'(o' := None))) e'" by blast
    have "egFiles e path = None" using assms(7) h(4,5) by (simp add: fresh_part_def)
    from upload_in_put [OF assms(3) p assms(2) h this assms(4,5,6)] e' Inr
    show ?thesis by (simp add: up_def)
  qed
qed

end

subsection \<open>A sample upload\<close>

text \<open>An upload of key k with two parts, in the layout without blob names.\<close>

definition ex_codec16 :: codec where
  "ex_codec16 = ex_codec\<lparr>cdMD5 := (\<lambda>s. take 16 (s @ ''0123456789abcdef''))\<rparr>"

definition ex_pinfo :: "int \<Rightarrow> string \<Rightarrow> PartInfo" where
  "ex_pinfo n d = \<lparr>piBlobID = [], piPartNumber = n, piETag = hex_encode (cdMD5 ex_codec16 d), piSize = int (length d)\<rparr>"

definition ex_mp :: MultipartMeta where
  "ex_mp = \<lparr>mpUploadID = ''u1'', mpBucket = ''bkt'', mpKey = ''k'', mpContentType = ''text/plain'', mpCreated = 3,
     mpParts = [ex_pinfo 2 ''world'', ex_pinfo 1 ''hello ''], mpSSECustomerAlgorithm = [], mpSSECustomerKeyMD5 = []\<rparr>"

definition ex_mdb :: "alist_bucket bdb" where
  "ex_mdb = (emptyDB alist_bolt)\<lparr>dbMultipart := (0, [(multipartKey ''bkt'' ''k'' ''u1'', VMp ex_mp)])\<rparr>"

definition ex_upload :: "alist_bucket engine" where
  "ex_upload = (ex_eng ''Enabled'')\<lparr>egDisableMinPartSize := True,
     egMeta := (ex_store ''Enabled'')\<lparr>msDbs := [''bkt'' \<mapsto> ex_mdb], msActive := [''bkt'']\<rparr>,
     egFiles := [''/d/multipart/bkt/u1/k/part-00002'' \<mapsto> ''world'', ''/d/multipart/bkt/u1/k/part-00001'' \<mapsto> ''hello '']\<rparr>"

definition ex_M :: "int \<Rightarrow> string option" where
  "ex_M = [2 \<mapsto> ''world'', 1 \<mapsto> ''hello '']"

definition ex_cp :: "int \<Rightarrow> string \<Rightarrow> CompletePart" where
  "ex_cp n d = \<lparr>cpPartNumber = n, cpETag = hex_encode (cdMD5 ex_codec16 d)\<rparr>"

lemma db_wf_multipart: "db_wf B b (db\<lparr>dbMultipart := x\<rparr>) = db_wf B b db"
  by (simp add: db_wf_def count_wf_def count_is_def stats_val_def)

lemma ex_rooted: "is_rooted ''/d''"
  by code_simp

lemma ex_mp_at: "mp_at alist_bolt (egMeta ex_upload) = (\<lambda>_. Map.empty)(''bkt'' := [multipartKey ''bkt'' ''k'' ''u1'' \<mapsto> VMp ex_mp])"
  by (rule ext) (simp add: mp_at_def ex_upload_def ex_mdb_def ex_store_def alist_bolt_def)

lemma ex_upload_inv: "minv alist_bolt ''/d'' ex_upload"
proof -
  have "numbered (mpParts ex_mp)" by (simp add: numbered_def ex_mp_def ex_pinfo_def MaxPartNumber_def)
  moreover have "utf8_valid ''text/plain''" by code_simp
  ultimately have "mp_wf ''bkt'' ex_mp" by (simp add: mp_wf_def) (simp add: ex_mp_def)
  then have m: "mp_ok (mp_at alist_bolt (egMeta ex_upload))" by (simp add: mp_ok_def ex_mp_at)
  have o: "obj_at alist_bolt (egMeta ex_upload) = (\<lambda>_. Map.empty)"
    by (rule ext) (simp add: obj_at_def ex_upload_def ex_mdb_def ex_store_def emptyDB_def alist_bolt_def)
  have b: "IsValidBucketName ''bkt''" by code_simp
  have "db_wf alist_bolt ''bkt'' ex_mdb"
    using conjunct1 [OF al.empty_db_wf [of "''bkt''"]] by (simp only: ex_mdb_def db_wf_multipart)
  with b have "meta_ok alist_bolt (egMeta ex_upload)" by (simp add: meta_ok_def ex_upload_def ex_store_def)
  moreover have "ids alist_bolt (egMeta ex_upload) = {}"
    by (simp add: ids_def o map_ids_def key_ids_def cur_of_def hist_of_def)
  ultimately have "inv alist_bolt ''/d'' ex_upload" by (simp add: inv_def disk_ok_def) (simp add: ex_upload_def ex_eng_def)
  with m show ?thesis by (simp add: minv_def)
qed

lemma ex_upload_in: "upload_in ex_codec16 None ''/d'' ''bkt'' ''k'' ''u1'' ex_M (mp_at alist_bolt (egMeta ex_upload)) (egFiles ex_upload)"
proof -
  have d: "uploadDir ''/d'' ''bkt'' ''k'' ''u1'' = Inr ''/d/multipart/bkt/u1/k''" by code_simp
  have p: "partDataPath ''/d/multipart/bkt/u1/k'' (ex_pinfo 1 ''hello '') = Inr ''/d/multipart/bkt/u1/k/part-00001''"
    "partDataPath ''/d/multipart/bkt/u1/k'' (ex_pinfo 2 ''world'') = Inr ''/d/multipart/bkt/u1/k/part-00002''" by code_simp+
  have j: "json_mp ex_mp = ex_mp" by code_simp
  have n: "distinct (map piPartNumber (mpParts ex_mp))" "numbered (mpParts ex_mp)"
    by (simp_all add: numbered_def ex_mp_def ex_pinfo_def MaxPartNumber_def)
  have u: "uploadedParts (mpParts ex_mp) = [1 \<mapsto> ex_pinfo 1 ''hello '', 2 \<mapsto> ex_pinfo 2 ''world'']"
    by (rule ext) (simp add: uploadedParts_def ex_mp_def ex_pinfo_def)
  have s: "stored_part ex_codec16 None (egFiles ex_upload) ''/d/multipart/bkt/u1/k'' (ex_pinfo 1 ''hello '') ''hello ''"
    "stored_part ex_codec16 None (egFiles ex_upload) ''/d/multipart/bkt/u1/k'' (ex_pinfo 2 ''world'') ''world''"
    unfolding stored_part_def p by (simp_all add: ex_upload_def readPart_def ex_pinfo_def)
  show ?thesis
    unfolding upload_in_def
  proof (intro exI conjI)
    show "\<forall>n. rel_option (stored_part ex_codec16 None (egFiles ex_upload) ''/d/multipart/bkt/u1/k'') (uploadedParts (mpParts ex_mp) n) (ex_M n)"
      using s by (auto simp: u ex_M_def)
  qed (use d j n in \<open>simp_all add: ex_mp_at, simp_all add: ex_mp_def checkPartSSEC_def\<close>)
qed

subsection \<open>Properties\<close>

text \<open>C11: creating an upload, uploading a part, completing and aborting keep the store
  intact, whatever fails and in every state of the disk they pass through: no record's
  data is lost, no file of an upload is ever the data of an object, and the records of
  uploads stay under their own bucket.\<close>

theorem multipart_keeps_data:
  assumes "bolt_laws B" and "minv B dd e" and "is_rooted dd" and "env_ok ev" and "utf8_valid k"
    and "egFiles e (blobPath dd b (newBlobID (evBlobRnd ev))) = None"
  shows "minv B dd (snd (CreateMultipartUpload B ev ssec b k ct e)) \<and>
    minv B dd (snd (UploadPart B cd ev ssec b k u n rd size' e)) \<and>
    minv B dd (snd (CompleteMultipartUpload B cd ev ssec b k u parts e)) \<and>
    minv B dd (snd (AbortMultipartUpload B ev b k u e))"
proof (intro conjI)
  show "minv B dd (snd (CreateMultipartUpload B ev ssec b k ct e))"
    by (rule tripD_any [OF bolt_laws.create_minv [OF assms(1)] assms(2)])
  show "minv B dd (snd (UploadPart B cd ev ssec b k u n rd size' e))"
    by (rule tripD_any [OF bolt_laws.upload_part_minv [OF assms(1,3)] assms(2)])
  show "minv B dd (snd (AbortMultipartUpload B ev b k u e))"
    by (rule tripD_any [OF bolt_laws.abort_minv [OF assms(1,3)] assms(2)])
  let ?r = "snd (CompleteMultipartUpload B cd ev ssec b k u parts e)"
  have m: "mp_ok (mp_at B (egMeta e))" and i: "inv B dd e" using assms(2) by (simp_all add: minv_def)
  have "mp_ok (mp_at B (egMeta ?r))" by (rule tripD_any [OF bolt_laws.complete_mp [OF assms(1)] m])
  moreover have "inv B dd ?r"
    by (rule tripD_post [OF bolt_laws.complete_trip [OF assms(1,4,5,3) m]]) (use i assms(6) in \<open>auto simp: clear_def keep_def\<close>)
  ultimately show "minv B dd ?r" by (simp add: minv_def)
qed

theorem multipart_keeps_data_witness:
  "minv alist_bolt ''/d'' (snd (CompleteMultipartUpload alist_bolt ex_codec16 ex_env None ''bkt'' ''k'' ''u1'' [ex_cp 2 ''world''] ex_upload))"
proof -
  have k: "utf8_valid ''k''" by code_simp
  have f: "egFiles ex_upload (blobPath ''/d'' ''bkt'' (newBlobID (evBlobRnd ex_env))) = None" by code_simp
  show ?thesis
    using multipart_keeps_data [OF alist_laws ex_upload_inv ex_rooted ex_env_ok k f] by blast
qed

text \<open>C19: an upload implements a map from part numbers to data. A successful UploadPart
  sets its part number to the body, whichever upload of the same number came before, and
  reports the body's MD5 and length; a failed one leaves the map as it was, and its file
  is gone again.\<close>

theorem upload_part_stores:
  assumes "bolt_laws B" and "egDataDir e = dd" and "is_rooted dd"
    and "upload_in cd ssec dd b k u M (mp_at B (egMeta e)) (egFiles e)"
    and "16 \<le> length (evBlobRnd ev)" and "length (evIV ev) = 16" and "egMaxObjectSize e < 2 ^ 63 - 1"
    and "fresh_part dd b k u ev n (egFiles e)"
    and "UploadPart B cd ev ssec b k u n rd size' e = (r, e')"
  shows "case r of
      Inl _ \<Rightarrow> upload_in cd ssec dd b k u M (mp_at B (egMeta e')) (egFiles e') \<and> egFiles e' = egFiles e
    | Inr info \<Rightarrow> upload_in cd ssec dd b k u (M(n \<mapsto> rdData rd)) (mp_at B (egMeta e')) (egFiles e') \<and>
        piETag info = hex_encode (cdMD5 cd (rdData rd)) \<and> piSize info = int (length (rdData rd))"
  by (rule bolt_laws.upload_part_refines [OF assms])

definition ex_part :: "string \<Rightarrow> alist_bucket engine \<Rightarrow> (gerr + PartInfo) \<times> alist_bucket engine" where
  "ex_part k e = UploadPart alist_bolt ex_codec16 ex_env None ''bkt'' k ''u1'' 2 (ex_rd ''there'') 5 e"

definition ex_part_path :: string where
  "ex_part_path = ''/d/multipart/bkt/u1/k/part-00002-'' @ newBlobID (evBlobRnd ex_env)"

theorem upload_part_stores_witness:
  "\<exists>info e'. ex_part ''k'' ex_upload = (Inr info, e') \<and> piSize info = 5 \<and>
     upload_in ex_codec16 None ''/d'' ''bkt'' ''k'' ''u1'' (ex_M(2 \<mapsto> ''there'')) (mp_at alist_bolt (egMeta e')) (egFiles e')"
proof -
  have "is_ok (fst (ex_part ''k'' ex_upload))" by code_simp
  then obtain info e' where p: "ex_part ''k'' ex_upload = (Inr info, e')"
    by (cases "ex_part ''k'' ex_upload") (auto simp: is_ok_iff)
  have d: "egDataDir ex_upload = ''/d''" and mx: "egMaxObjectSize ex_upload < 2 ^ 63 - 1" by code_simp+
  have r: "16 \<le> length (evBlobRnd ex_env)" "length (evIV ex_env) = 16" by code_simp+
  have "uploadDir ''/d'' ''bkt'' ''k'' ''u1'' = Inr ''/d/multipart/bkt/u1/k''" by code_simp
  moreover have "partDataPath ''/d/multipart/bkt/u1/k'' \<lparr>piBlobID = newBlobID (evBlobRnd ex_env), piPartNumber = 2, piETag = [], piSize = 0\<rparr>
      = Inr ex_part_path" by code_simp
  moreover have "egFiles ex_upload ex_part_path = None" by code_simp
  ultimately have f: "fresh_part ''/d'' ''bkt'' ''k'' ''u1'' ex_env 2 (egFiles ex_upload)" by (simp add: fresh_part_def)
  from upload_part_stores [OF alist_laws d ex_rooted ex_upload_in r mx f p [unfolded ex_part_def]] p
  show ?thesis by (auto simp: ex_rd_def)
qed

lemma ex_complete_ok:
  "is_ok (fst (CompleteMultipartUpload alist_bolt ex_codec16 ex_env None ''bkt'' ''k'' ''u1'' [ex_cp 2 ''world'', ex_cp 1 ''hello ''] ex_upload))"
  by code_simp

text \<open>C6: a completed upload is the requested parts, in the order of their numbers
  whatever the order of the request: GetObject returns their concatenation, through
  compression and re-encryption, and the object has their total length and the ETag S3
  defines, the MD5 of the parts' MD5s and the number of parts. Every requested part was
  uploaded and none was named twice.\<close>

theorem complete_publishes_parts:
  assumes "bolt_laws B" and "minv B dd e" and "upload_in cd ssec dd b k u M (mp_at B (egMeta e)) (egFiles e)"
    and "env_ok ev" and "utf8_valid k" and "is_rooted dd"
    and "egFiles e (blobPath dd b (newBlobID (evBlobRnd ev))) = None"
    and "\<And>x. cdGunzip cd (cdGzip cd x) = Some x" and "\<not> evFails ev' COpen"
    and "int (length (concat (parts_data M parts))) < 2 ^ 63"
    and "CompleteMultipartUpload B cd ev ssec b k u parts e = (Inr info, e')"
  shows "(\<exists>kind e''. GetObject B cd ev' ssec b k [] e' = (Inr (concat (parts_data M parts), kind, info\<lparr>oiIsLatest := True\<rparr>), e'')) \<and>
    oiSize info = int (length (concat (parts_data M parts))) \<and> oiETag info = s3_etag cd (parts_data M parts) \<and>
    parts \<noteq> [] \<and> distinct (map cpPartNumber parts) \<and> (\<forall>c\<in>set parts. M (cpPartNumber c) \<noteq> None)"
proof -
  have m: "inv B dd e" "mp_ok (mp_at B (egMeta e))" using assms(2) by (simp_all add: minv_def)
  from bolt_laws.complete_get [OF assms(1) m assms(3-9,11)] assms(10) show ?thesis by auto
qed

theorem complete_publishes_parts_witness:
  "\<exists>info e' kind e''. CompleteMultipartUpload alist_bolt ex_codec16 ex_env None ''bkt'' ''k'' ''u1'' [ex_cp 2 ''world'', ex_cp 1 ''hello ''] ex_upload = (Inr info, e') \<and>
     GetObject alist_bolt ex_codec16 ex_env None ''bkt'' ''k'' [] e' = (Inr (''hello world'', kind, info\<lparr>oiIsLatest := True\<rparr>), e'')"
proof -
  let ?r = "CompleteMultipartUpload alist_bolt ex_codec16 ex_env None ''bkt'' ''k'' ''u1'' [ex_cp 2 ''world'', ex_cp 1 ''hello ''] ex_upload"
  obtain info e' where c: "?r = (Inr info, e')" using ex_complete_ok by (cases ?r) (auto simp: is_ok_iff)
  have k: "utf8_valid ''k''" by code_simp
  have fr: "egFiles ex_upload (blobPath ''/d'' ''bkt'' (newBlobID (evBlobRnd ex_env))) = None" by code_simp
  have z: "\<And>x. cdGunzip ex_codec16 (cdGzip ex_codec16 x) = Some x" by (simp add: ex_codec16_def ex_codec_def)
  have o: "\<not> evFails ex_env COpen" by (simp add: ex_env_def)
  have d: "parts_data ex_M [ex_cp 2 ''world'', ex_cp 1 ''hello ''] = [''hello '', ''world'']" by code_simp
  have l: "int (length (concat (parts_data ex_M [ex_cp 2 ''world'', ex_cp 1 ''hello '']))) < 2 ^ 63" unfolding d by simp
  from complete_publishes_parts [OF alist_laws ex_upload_inv ex_upload_in ex_env_ok k ex_rooted fr z o l c] c
  show ?thesis unfolding d by auto
qed

text \<open>C34: a completion request that does not fit the upload - no part, a part named
  twice, a part not uploaded or with another ETag, or a part under five megabytes that
  is not the last one - fails, and leaves the files, the objects and the upload as they
  are.\<close>

theorem bad_completion_changes_nothing:
  assumes "bolt_laws B" and "inv B dd e" and "upload_in cd ssec dd b k u M (mp_at B (egMeta e)) (egFiles e)"
    and "parts = [] \<or> \<not> distinct (map cpPartNumber parts) \<or>
      (\<exists>c\<in>set parts. case M (cpPartNumber c) of None \<Rightarrow> True
         | Some d \<Rightarrow> Trim (cpETag c) dquote \<noteq> hex_encode (cdMD5 cd d) \<or>
             (\<not> egDisableMinPartSize e \<and> length d < 5242880 \<and> (\<exists>c'\<in>set parts. cpPartNumber c < cpPartNumber c')))"
    and "CompleteMultipartUpload B cd ev ssec b k u parts e = (r, e')"
  shows "\<not> is_ok r \<and> egFiles e' = egFiles e \<and> obj_at B (egMeta e') = obj_at B (egMeta e) \<and> mp_at B (egMeta e') = mp_at B (egMeta e)"
proof -
  from assms(3) obtain meta where m: "mp_at B (egMeta e) b (multipartKey b k u) = Some (VMp meta)" unfolding upload_in_def by blast
  obtain x where "requestedParts (egDisableMinPartSize e) meta parts = Inl x"
    using bad_request [OF assms(3) m assms(4)] by (cases "requestedParts (egDisableMinPartSize e) meta parts") auto
  from bolt_laws.complete_rejected [OF assms(1,2) m this, of cd ev ssec] assms(5) show ?thesis
    by (simp add: keep_def)
qed

theorem bad_completion_changes_nothing_witness:
  "\<not> is_ok (fst (CompleteMultipartUpload alist_bolt ex_codec16 ex_env None ''bkt'' ''k'' ''u1'' [ex_cp 2 ''world'', ex_cp 2 ''world''] ex_upload)) \<and>
   egFiles (snd (CompleteMultipartUpload alist_bolt ex_codec16 ex_env None ''bkt'' ''k'' ''u1'' [ex_cp 2 ''world'', ex_cp 2 ''world''] ex_upload)) = egFiles ex_upload"
proof -
  let ?ps = "[ex_cp 2 ''world'', ex_cp 2 ''world'']"
  have i: "inv alist_bolt ''/d'' ex_upload" using ex_upload_inv by (simp add: minv_def)
  have d: "\<not> distinct (map cpPartNumber ?ps)" by code_simp
  let ?r = "CompleteMultipartUpload alist_bolt ex_codec16 ex_env None ''bkt'' ''k'' ''u1'' ?ps ex_upload"
  obtain r e' where p: "?r = (r, e')" by (cases ?r)
  from bad_completion_changes_nothing [OF alist_laws i ex_upload_in _ p] d p show ?thesis by simp
qed

text \<open>After AbortMultipartUpload succeeds the upload is gone: its record and every file
  below its directory are removed, and a part or a completion that still arrives fails.\<close>

theorem aborted_upload_is_gone:
  assumes "bolt_laws B" and "egDataDir e = dd" and "AbortMultipartUpload B ev b k u e = (Inr r, e')"
  shows "mp_at B (egMeta e') b (multipartKey b k u) = None \<and>
    (\<exists>path. multipartUploadPath dd b u = Inr path \<and> (\<forall>q. HasPrefix q (path @ ''/'') \<longrightarrow> egFiles e' q = None)) \<and>
    \<not> is_ok (fst (UploadPart B cd ev' ssec b k u n rd size' e')) \<and>
    \<not> is_ok (fst (CompleteMultipartUpload B cd ev' ssec b k u parts e'))"
proof -
  have "up B dd (egMaxObjectSize e) (mp_at B (egMeta e)) (egFiles e) e" using assms(2) by (simp add: up_def)
  from tripD [OF bolt_laws.abort_up [OF assms(1)] this assms(3)] obtain path where p: "multipartUploadPath dd b u = Inr path"
    and u: "up B dd (egMaxObjectSize e) ((mp_at B (egMeta e))(b := (mp_at B (egMeta e) b)(multipartKey b k u := None)))
      (RemoveAll path (egFiles e)) e'" by blast
  from u have m: "mp_at B (egMeta e') b (multipartKey b k u) = None" by (simp add: up_def)
  have "\<forall>q. HasPrefix q (path @ ''/'') \<longrightarrow> egFiles e' q = None" using u by (simp add: up_def RemoveAll_def)
  with p m bolt_laws.no_upload [OF assms(1) m] show ?thesis by blast
qed

theorem aborted_upload_is_gone_witness:
  "\<not> is_ok (fst (CompleteMultipartUpload alist_bolt ex_codec16 ex_env None ''bkt'' ''k'' ''u1'' [ex_cp 2 ''world'', ex_cp 1 ''hello '']
     (snd (AbortMultipartUpload alist_bolt ex_env ''bkt'' ''k'' ''u1'' ex_upload)))) \<and>
   is_ok (fst (CompleteMultipartUpload alist_bolt ex_codec16 ex_env None ''bkt'' ''k'' ''u1'' [ex_cp 2 ''world'', ex_cp 1 ''hello ''] ex_upload))"
proof
  let ?a = "AbortMultipartUpload alist_bolt ex_env ''bkt'' ''k'' ''u1'' ex_upload"
  have o: "is_ok (fst ?a)" by code_simp
  then obtain r e' where a: "?a = (Inr r, e')" by (cases ?a) (auto simp: is_ok_iff)
  from aborted_upload_is_gone [OF alist_laws refl a] a
  show "\<not> is_ok (fst (CompleteMultipartUpload alist_bolt ex_codec16 ex_env None ''bkt'' ''k'' ''u1'' [ex_cp 2 ''world'', ex_cp 1 ''hello ''] (snd ?a)))" by simp
  show "is_ok (fst (CompleteMultipartUpload alist_bolt ex_codec16 ex_env None ''bkt'' ''k'' ''u1'' [ex_cp 2 ''world'', ex_cp 1 ''hello ''] ex_upload))" by (rule ex_complete_ok)
qed

subsection \<open>A key that is not UTF-8\<close>

text \<open>For a key that is not valid UTF-8, the upload's record is found under the key but
  names the key as JSON coerces it, and UploadPart writes it back under the coerced key:
  the part it acknowledged cannot be completed.\<close>

definition ex_create :: "string \<Rightarrow> alist_bucket engine" where
  "ex_create k = snd (CreateMultipartUpload alist_bolt ex_env None ''bkt'' k ''text/plain'' (ex_eng ''Enabled''))"

theorem part_of_non_utf8_key_is_lost:
  "is_ok (fst (ex_part [CHR 0xFF] (ex_create [CHR 0xFF]))) \<and>
   fst (CompleteMultipartUpload alist_bolt ex_codec16 ex_env None ''bkt'' [CHR 0xFF] ''u1'' [ex_cp 2 ''there'']
      (snd (ex_part [CHR 0xFF] (ex_create [CHR 0xFF])))) =
     Inl (S3Error ''InvalidPart'' ''One or more of the specified parts could not be found.'')"
proof
  show "is_ok (fst (ex_part [CHR 0xFF] (ex_create [CHR 0xFF])))" by code_simp
  show "fst (CompleteMultipartUpload alist_bolt ex_codec16 ex_env None ''bkt'' [CHR 0xFF] ''u1'' [ex_cp 2 ''there'']
      (snd (ex_part [CHR 0xFF] (ex_create [CHR 0xFF])))) =
     Inl (S3Error ''InvalidPart'' ''One or more of the specified parts could not be found.'')" by code_simp
qed

end
