(* ===== verification/Go_Parse.thy ===== *)
theory Go_Parse
  imports Go_Fmt
begin

text \<open>
  Prelude, parsing: strconv.ParseInt and Atoi, the standard base64 encoding and
  strings.TrimRight, with what inverts them: a printed number parses to itself, an
  encoded byte string decodes to itself.
\<close>

subsection \<open>Integers\<close>

text \<open>The value of a digit in the bases up to 36, and strconv.ParseInt with an
  explicit base and 64 bits: None for a syntax error and for a value out of range.\<close>

definition digit_of :: "char \<Rightarrow> nat option" where
  "digit_of c = (if is_digit c then Some (byte c - 48)
     else if CHR ''a'' \<le> c \<and> c \<le> CHR ''z'' then Some (byte c - 87)
     else if CHR ''A'' \<le> c \<and> c \<le> CHR ''Z'' then Some (byte c - 55)
     else None)"

definition digit_in :: "nat \<Rightarrow> char \<Rightarrow> nat option" where
  "digit_in base c = (case digit_of c of None \<Rightarrow> None | Some d \<Rightarrow> if d < base then Some d else None)"

fun parse_nat :: "nat \<Rightarrow> nat \<Rightarrow> string \<Rightarrow> nat option" where
  "parse_nat base a [] = Some a"
| "parse_nat base a (c # s) = (case digit_in base c of None \<Rightarrow> None | Some d \<Rightarrow> parse_nat base (a * base + d) s)"

definition int_range :: "int \<Rightarrow> int option" where
  "int_range n = (if - (2 ^ 63) \<le> n \<and> n < 2 ^ 63 then Some n else None)"

definition ParseUnsigned :: "nat \<Rightarrow> string \<Rightarrow> nat option" where
  "ParseUnsigned base s = (if s = [] then None else parse_nat base 0 s)"

definition ParseInt :: "nat \<Rightarrow> string \<Rightarrow> int option" where
  "ParseInt base s = (case s of
     [] \<Rightarrow> None
   | c # t \<Rightarrow>
     if c = CHR ''-'' then (case ParseUnsigned base t of None \<Rightarrow> None | Some n \<Rightarrow> int_range (- int n))
     else case ParseUnsigned base (if c = CHR ''+'' then t else s) of None \<Rightarrow> None | Some n \<Rightarrow> int_range (int n))"

abbreviation Atoi :: "string \<Rightarrow> int option" where
  "Atoi \<equiv> ParseInt 10"

lemma ParseInt_range: "ParseInt base s = Some n \<Longrightarrow> - (2 ^ 63) \<le> n \<and> n < 2 ^ 63"
  by (auto simp: ParseInt_def int_range_def split: list.splits if_splits option.splits)

lemma parse_nat_snoc:
  "parse_nat base a s = Some x \<Longrightarrow> digit_in base c = Some d \<Longrightarrow> parse_nat base a (s @ [c]) = Some (x * base + d)"
  by (induction s arbitrary: a) (auto split: option.splits)

text \<open>The digits of a number in base 16, as fmt's verb %x prints them.\<close>

fun nat_hex :: "nat \<Rightarrow> string" where
  "nat_hex n = (if n < 16 then [hex_digit n] else nat_hex (n div 16) @ [hex_digit n])"

declare nat_hex.simps [simp del]

lemma digit_in_hex: "digit_in 16 (hex_digit n) = Some (n mod 16)"
proof -
  have "\<forall>m<16. digit_in 16 (''0123456789abcdef'' ! m) = Some m" by code_simp
  then show ?thesis by (simp add: hex_digit_def)
qed

lemma digit_in_dec: "digit_in 10 (dec_digit n) = Some (n mod 10)"
proof -
  have "\<forall>m<10. digit_in 10 (''0123456789'' ! m) = Some m" by code_simp
  then show ?thesis by (simp add: dec_digit_def)
qed

lemma parse_nat_hex: "parse_nat 16 0 (nat_hex n) = Some n"
proof (induction n rule: nat_hex.induct)
  case (1 n)
  show ?case
  proof (cases "n < 16")
    case True
    then show ?thesis using digit_in_hex [of n] by (subst nat_hex.simps) simp
  next
    case False
    from parse_nat_snoc [OF 1 [OF False] digit_in_hex [of n]] False show ?thesis by (subst nat_hex.simps) simp
  qed
qed

lemma parse_nat_dec: "parse_nat 10 0 (nat_dec n) = Some n"
proof (induction n rule: nat_dec.induct)
  case (1 n)
  show ?case
  proof (cases "n < 10")
    case True
    then show ?thesis using digit_in_dec [of n] by (subst nat_dec.simps) simp
  next
    case False
    from parse_nat_snoc [OF 1 [OF False] digit_in_dec [of n]] False show ?thesis by (subst nat_dec.simps) simp
  qed
qed

definition hex_digits :: string where "hex_digits = ''0123456789abcdef''"

lemma hex_digit_in: "hex_digit n \<in> set hex_digits"
proof -
  have "\<forall>m<16. ''0123456789abcdef'' ! m \<in> set hex_digits" by code_simp
  then show ?thesis by (simp add: hex_digit_def)
qed

lemma nat_hex_set: "set (nat_hex n) \<subseteq> set hex_digits \<and> nat_hex n \<noteq> []"
proof (induction n rule: nat_hex.induct)
  case (1 n)
  then show ?case using hex_digit_in by (subst (1 2) nat_hex.simps) auto
qed

lemma hex_encode_set: "set (hex_encode s) \<subseteq> set hex_digits"
  using hex_digit_in by (induction s) auto

lemma length_hex_encode [simp]: "length (hex_encode s) = 2 * length s"
  by (induction s) auto

lemma length_nat_hex: "n < 16 ^ k \<Longrightarrow> length (nat_hex n) \<le> max 1 k"
proof (induction k arbitrary: n)
  case 0
  then show ?case by (subst nat_hex.simps) simp
next
  case (Suc k)
  show ?case
  proof (cases "n < 16")
    case True
    then show ?thesis by (subst nat_hex.simps) simp
  next
    case False
    then have "k \<noteq> 0" using Suc.prems by (cases k) auto
    have "n div 16 < 16 ^ k" using Suc.prems by (simp add: less_mult_imp_div_less)
    from Suc.IH [OF this] False \<open>k \<noteq> 0\<close> show ?thesis by (subst nat_hex.simps) simp
  qed
qed

lemma ParseInt_digits:
  "s \<noteq> [] \<Longrightarrow> hd s \<noteq> CHR ''-'' \<Longrightarrow> hd s \<noteq> CHR ''+'' \<Longrightarrow> parse_nat base 0 s = Some n \<Longrightarrow> int n < 2 ^ 63 \<Longrightarrow>
   ParseInt base s = Some (int n)"
  by (cases s) (auto simp: ParseInt_def ParseUnsigned_def int_range_def split: option.splits)

lemma ParseInt_hex: "int n < 2 ^ 63 \<Longrightarrow> ParseInt 16 (nat_hex n) = Some (int n)"
proof (rule ParseInt_digits)
  have "CHR ''-'' \<notin> set hex_digits" "CHR ''+'' \<notin> set hex_digits" by code_simp+
  moreover have "hd (nat_hex n) \<in> set hex_digits" using nat_hex_set [of n] hd_in_set by blast
  ultimately show "hd (nat_hex n) \<noteq> CHR ''-''" "hd (nat_hex n) \<noteq> CHR ''+''" by metis+
qed (use nat_hex_set parse_nat_hex in auto)

lemma ParseInt_dec: "int n < 2 ^ 63 \<Longrightarrow> Atoi (nat_dec n) = Some (int n)"
proof (rule ParseInt_digits)
  have "\<not> is_digit CHR ''-''" "\<not> is_digit CHR ''+''" by code_simp+
  moreover have "is_digit (hd (nat_dec n))" using nat_dec_digits [of n] hd_in_set by blast
  ultimately show "hd (nat_dec n) \<noteq> CHR ''-''" "hd (nat_dec n) \<noteq> CHR ''+''" by metis+
qed (use nat_dec_digits parse_nat_dec in auto)

subsection \<open>Base64\<close>

text \<open>base64.StdEncoding: DecodeString skips carriage returns and newlines, wants the
  padding, and does not look at the bits a padded group leaves over.\<close>

definition b64_alphabet :: string where
  "b64_alphabet = ''ABCDEFGHIJKLMNOPQRSTUVWXYZabcdefghijklmnopqrstuvwxyz0123456789+/''"

definition b64_val :: "char \<Rightarrow> nat option" where
  "b64_val c = (if CHR ''A'' \<le> c \<and> c \<le> CHR ''Z'' then Some (byte c - 65)
     else if CHR ''a'' \<le> c \<and> c \<le> CHR ''z'' then Some (byte c - 71)
     else if is_digit c then Some (byte c + 4)
     else if c = CHR ''+'' then Some 62 else if c = CHR ''/'' then Some 63 else None)"

definition b64_char :: "nat \<Rightarrow> char" where
  "b64_char n = b64_alphabet ! (n mod 64)"

fun b64_quads :: "string \<Rightarrow> string option" where
  "b64_quads [] = Some []"
| "b64_quads (a # b # c # d # s) = (case (b64_val a, b64_val b) of
     (Some w, Some x) \<Rightarrow>
       if c = CHR ''='' then (if d = CHR ''='' \<and> s = [] then Some [char_of (w * 4 + x div 16)] else None)
       else (case b64_val c of None \<Rightarrow> None | Some y \<Rightarrow>
         if d = CHR ''='' then (if s = [] then Some [char_of (w * 4 + x div 16), char_of (x * 16 + y div 4)] else None)
         else (case (b64_val d, b64_quads s) of
           (Some z, Some t) \<Rightarrow> Some (char_of (w * 4 + x div 16) # char_of (x * 16 + y div 4) # char_of (y * 64 + z) # t)
         | _ \<Rightarrow> None))
   | _ \<Rightarrow> None)"
| "b64_quads _ = None"

definition b64_decode :: "string \<Rightarrow> string option" where
  "b64_decode s = b64_quads (filter (\<lambda>c. c \<noteq> CHR 0x0D \<and> c \<noteq> CHR 0x0A) s)"

fun b64_encode :: "string \<Rightarrow> string" where
  "b64_encode [] = []"
| "b64_encode [a] = [b64_char (byte a div 4), b64_char (byte a * 16), CHR ''='', CHR ''='']"
| "b64_encode [a, b] = [b64_char (byte a div 4), b64_char (byte a * 16 + byte b div 16), b64_char (byte b * 4), CHR ''='']"
| "b64_encode (a # b # c # s) = b64_char (byte a div 4) # b64_char (byte a * 16 + byte b div 16)
     # b64_char (byte b * 4 + byte c div 64) # b64_char (byte c) # b64_encode s"

lemma b64_char_facts: "b64_val (b64_char n) = Some (n mod 64) \<and> b64_char n \<in> set b64_alphabet"
proof -
  have "\<forall>m<64. b64_val (b64_alphabet ! m) = Some m \<and> b64_alphabet ! m \<in> set b64_alphabet" by code_simp
  then show ?thesis by (simp add: b64_char_def)
qed

lemma b64_char_clean: "b64_char n \<noteq> CHR ''=''" "b64_char n \<noteq> CHR 0x0D" "b64_char n \<noteq> CHR 0x0A"
proof -
  have "CHR ''='' \<notin> set b64_alphabet" "CHR 0x0D \<notin> set b64_alphabet" "CHR 0x0A \<notin> set b64_alphabet" by code_simp+
  then show "b64_char n \<noteq> CHR ''=''" "b64_char n \<noteq> CHR 0x0D" "b64_char n \<noteq> CHR 0x0A" using b64_char_facts [of n] by metis+
qed

lemma char_of_byte: "m mod 256 = byte c \<Longrightarrow> char_of m = c"
  by (metis byte_def char_of_char char_of_mod_256)

lemma b64_first: "a < 256 \<Longrightarrow> b < 256 \<Longrightarrow> (a div 4) mod 64 * 4 + (a * 16 + b div 16) mod 64 div 16 = (a :: nat)"
proof -
  assume h: "a < 256" "b < 256"
  have "(a * 16 + b div 16) mod 64 div 16 = a mod 4"
  proof -
    have "(a * 16 + b div 16) mod (16 * 4) = 16 * ((a * 16 + b div 16) div 16 mod 4) + (a * 16 + b div 16) mod 16"
      by (rule mod_mult2_eq)
    moreover have "(a * 16 + b div 16) div 16 = a" using h by simp
    ultimately show ?thesis by simp
  qed
  with h show ?thesis by simp
qed

lemma b64_second: "b < 256 \<Longrightarrow> c < 256 \<Longrightarrow> ((a * 16 + b div 16) mod 64 * 16 + (b * 4 + c div 64) mod 64 div 4) mod 256 = (b :: nat)"
proof -
  assume h: "b < 256" "c < 256"
  have "(b * 4 + c div 64) mod (4 * 16) = 4 * ((b * 4 + c div 64) div 4 mod 16) + (b * 4 + c div 64) mod 4"
    by (rule mod_mult2_eq)
  moreover have "(b * 4 + c div 64) div 4 = b" using h by simp
  ultimately have y: "(b * 4 + c div 64) mod 64 div 4 = b mod 16" by simp
  have x: "(a * 16 + b div 16) mod (16 * 4) = 16 * ((a * 16 + b div 16) div 16 mod 4) + (a * 16 + b div 16) mod 16"
    by (rule mod_mult2_eq)
  have "(a * 16 + b div 16) div 16 = a" "(a * 16 + b div 16) mod 16 = b div 16" using h by simp_all
  with x have "(a * 16 + b div 16) mod 64 = 16 * (a mod 4) + b div 16" by simp
  then have "((a * 16 + b div 16) mod 64 * 16 + b mod 16) mod 256 = (256 * (a mod 4) + b) mod 256"
    by (simp add: algebra_simps)
  with y h show ?thesis by simp
qed

lemma b64_third: "c < 256 \<Longrightarrow> ((b * 4 + c div 64) mod 64 * 64 + c mod 64) mod 256 = (c :: nat)"
proof -
  assume h: "c < 256"
  have x: "(b * 4 + c div 64) mod (4 * 16) = 4 * ((b * 4 + c div 64) div 4 mod 16) + (b * 4 + c div 64) mod 4"
    by (rule mod_mult2_eq)
  have "(b * 4 + c div 64) div 4 = b" "(b * 4 + c div 64) mod 4 = c div 64" using h by simp_all
  with x have "(b * 4 + c div 64) mod 64 = 4 * (b mod 16) + c div 64" by simp
  then have "((b * 4 + c div 64) mod 64 * 64 + c mod 64) mod 256 = (256 * (b mod 16) + c) mod 256"
    by (simp add: algebra_simps)
  with h show ?thesis by simp
qed

lemma b64_quads_encode: "b64_quads (b64_encode s) = Some s"
proof (induction s rule: b64_encode.induct)
  case (2 a)
  have "byte a * 16 mod (4 * 16) = byte a mod 4 * 16" by (rule mod_mult_mult2)
  then have "(byte a div 4 * 4 + byte a * 16 mod 64 div 16) mod 256 = byte a" by simp
  moreover have "byte a div 4 mod 64 = byte a div 4"
    by (rule mod_less, rule less_mult_imp_div_less) (use byte_less [of a] in simp)
  ultimately show ?case by (simp add: b64_char_facts b64_char_clean char_of_byte)
next
  case (3 a b)
  have "(byte a div 4) mod 64 * 4 + (byte a * 16 + byte b div 16) mod 64 div 16 = byte a"
    by (rule b64_first) simp_all
  moreover have "((byte a * 16 + byte b div 16) mod 64 * 16 + byte b * 4 mod 64 div 4) mod 256 = byte b"
    using b64_second [of "byte b" 0 "byte a"] by simp
  ultimately show ?case by (simp add: b64_char_facts b64_char_clean char_of_byte)
next
  case (4 a b c s)
  have "(byte a div 4) mod 64 * 4 + (byte a * 16 + byte b div 16) mod 64 div 16 = byte a"
    by (rule b64_first) simp_all
  moreover have "((byte a * 16 + byte b div 16) mod 64 * 16 + (byte b * 4 + byte c div 64) mod 64 div 4) mod 256 = byte b"
    by (rule b64_second) simp_all
  moreover have "((byte b * 4 + byte c div 64) mod 64 * 64 + byte c mod 64) mod 256 = byte c"
    by (rule b64_third) simp
  ultimately show ?case using 4 by (simp add: b64_char_facts b64_char_clean char_of_byte)
qed simp

lemma b64_encode_clean: "filter (\<lambda>c. c \<noteq> CHR 0x0D \<and> c \<noteq> CHR 0x0A) (b64_encode s) = b64_encode s"
  by (induction s rule: b64_encode.induct) (simp_all add: b64_char_clean)

lemma b64_decode_encode: "b64_decode (b64_encode s) = Some s"
  by (simp add: b64_decode_def b64_encode_clean b64_quads_encode)

subsection \<open>Trimming on the right\<close>

definition TrimRight :: "string \<Rightarrow> string \<Rightarrow> string" where
  "TrimRight s cs = rev (TrimLeft (rev s) cs)"

lemma TrimRight_id: "s = [] \<or> last s \<notin> set cs \<Longrightarrow> TrimRight s cs = s"
  by (cases s rule: rev_cases) (auto simp: TrimRight_def TrimLeft_def)

lemma TrimRight_snoc: "c \<in> set cs \<Longrightarrow> TrimRight (s @ [c]) cs = TrimRight s cs"
  by (simp add: TrimRight_def TrimLeft_def)

lemma TrimSpace_id: "s = [] \<or> \<not> is_space (hd s) \<and> \<not> is_space (last s) \<Longrightarrow> TrimSpace s = s"
proof -
  assume h: "s = [] \<or> \<not> is_space (hd s) \<and> \<not> is_space (last s)"
  then have "dropWhile is_space s = s" by (cases s) auto
  moreover have "dropWhile is_space (rev s) = rev s" using h by (cases s rule: rev_cases) auto
  ultimately show ?thesis by (simp add: TrimSpace_def)
qed

end
