(* ===== verification/Auth_Body.thy ===== *)
theory Auth_Body
  imports Go_Parse Engine
begin

text \<open>
  internal/checksum/checksum.go and the body half of internal/auth/signature.go: the
  readers that verify a request body while it is read. SHA-256, HMAC and the checksum
  algorithms are parameters (the record crypto); hashes accumulate the bytes written.
  The buffered reader below an aws-chunked body is the list of bytes that are still to
  come and whether the body then fails instead of ending.
\<close>

subsection \<open>Errors and hashes\<close>

datatype aerr = AuthError string string | AErr string

datatype ioerr = EOF | IOErr aerr

datatype hash_alg = CRC32 | CRC32C | CRC64NVME | SHA1 | SHA256

record crypto =
  cySum :: "hash_alg \<Rightarrow> string \<Rightarrow> string"
  cyHMAC :: "string \<Rightarrow> string \<Rightarrow> string"

definition hmacSHA256 :: "crypto \<Rightarrow> string \<Rightarrow> string \<Rightarrow> string" where
  "hmacSHA256 cy k d = cyHMAC cy k d"

definition hashSHA256 :: "crypto \<Rightarrow> string \<Rightarrow> string" where
  "hashSHA256 cy d = hex_encode (cySum cy SHA256 d)"

definition NewChecksum :: "string \<Rightarrow> hash_alg option" where
  "NewChecksum name =
    (if name = ''x-amz-checksum-crc32'' then Some CRC32
     else if name = ''x-amz-checksum-crc32c'' then Some CRC32C
     else if name = ''x-amz-checksum-crc64nvme'' then Some CRC64NVME
     else if name = ''x-amz-checksum-sha1'' then Some SHA1
     else if name = ''x-amz-checksum-sha256'' then Some SHA256
     else None)"

fun HashSize :: "hash_alg \<Rightarrow> nat" where
  "HashSize CRC32 = 4" | "HashSize CRC32C = 4" | "HashSize CRC64NVME = 8" | "HashSize SHA1 = 20" | "HashSize SHA256 = 32"

definition DecodeExpected :: "string \<Rightarrow> hash_alg \<Rightarrow> string option" where
  "DecodeExpected raw h = (case b64_decode raw of
     None \<Rightarrow> None | Some want \<Rightarrow> if length want = HashSize h then Some want else None)"

subsection \<open>Readers around a reader\<close>

text \<open>What one Read of the underlying reader returns, and the Reads of the two wrappers
  on it. drain is a consumer that reads until the first error.\<close>

type_synonym read_res = "string \<times> ioerr option"

record verifyingReader =
  vrAlg :: hash_alg
  vrHashed :: string
  vrWant :: string
  vrMismatch :: ioerr

definition verifyingRead :: "crypto \<Rightarrow> verifyingReader \<Rightarrow> read_res \<Rightarrow> read_res \<times> verifyingReader" where
  "verifyingRead cy v r = (case r of (p, err) \<Rightarrow>
    let v = v\<lparr>vrHashed := vrHashed v @ p\<rparr> in
    ((p, if err = Some EOF \<and> cySum cy (vrAlg v) (vrHashed v) \<noteq> vrWant v then Some (vrMismatch v) else err), v))"

definition entityTooLarge :: aerr where
  "entityTooLarge = AuthError ''EntityTooLarge'' ''Your proposed upload exceeds the maximum allowed size.''"

definition cappedRead :: "int \<Rightarrow> read_res \<Rightarrow> read_res \<times> int" where
  "cappedRead remaining r = (case r of (p, err) \<Rightarrow>
    let remaining = int64 (remaining - int (length p)) in
    if remaining < 0 then (([], Some (IOErr entityTooLarge)), remaining) else ((p, err), remaining))"

fun drain :: "('s \<Rightarrow> read_res \<Rightarrow> read_res \<times> 's) \<Rightarrow> 's \<Rightarrow> read_res list \<Rightarrow> read_res" where
  "drain f s [] = ([], None)"
| "drain f s (r # rs) = (case f s r of ((p, e), s') \<Rightarrow>
     (case e of
        None \<Rightarrow> (case drain f s' rs of (d, e') \<Rightarrow> (p @ d, e'))
      | Some x \<Rightarrow> (p, Some x)))"

subsection \<open>A signed payload\<close>

definition maxInMemoryPayload :: int where "maxInMemoryPayload = 2097152"

definition payloadHashMismatch :: aerr where
  "payloadHashMismatch = AuthError ''XAmzContentSHA256Mismatch'' ''The provided 'x-amz-content-sha256' header does not match what was computed.''"

text \<open>The body the handler gets: none, bytes already verified, or a reader that verifies.\<close>

datatype vbody =
    NoBody
  | InMemory string
  | DeferredHash "int option" verifyingReader

definition verifySignedPayload :: "crypto \<Rightarrow> reader option \<Rightarrow> int \<Rightarrow> string \<Rightarrow> int \<Rightarrow> aerr + vbody" where
  "verifySignedPayload cy body contentLength expectedHex maxPayload =
    (case hex_decode expectedHex of
       None \<Rightarrow> Inl (AuthError ''InvalidArgument'' ''x-amz-content-sha256'')
     | Some want \<Rightarrow>
       if length want \<noteq> 32 then Inl (AuthError ''InvalidArgument'' ''x-amz-content-sha256'')
       else case body of
         None \<Rightarrow> if want \<noteq> cySum cy SHA256 [] then Inl payloadHashMismatch else Inr NoBody
       | Some r \<Rightarrow>
         if maxPayload > 0 \<and> contentLength > maxPayload then Inl entityTooLarge
         else
           let head = take (nat (maxInMemoryPayload + 1)) (rdData r) in
           if int (length head) \<le> maxInMemoryPayload \<and> rdFails r then Inl (AErr ''read'')
           else if int (length head) \<le> maxInMemoryPayload then
             (if cySum cy SHA256 head \<noteq> want then Inl payloadHashMismatch else Inr (InMemory head))
           else Inr (DeferredHash (if maxPayload > 0 then Some maxPayload else None)
                  \<lparr>vrAlg = SHA256, vrHashed = [], vrWant = want, vrMismatch = IOErr payloadHashMismatch\<rparr>))"

text \<open>One Read of the deferred body, given one of the body below it.\<close>

definition deferredRead :: "crypto \<Rightarrow> int option \<times> verifyingReader \<Rightarrow> read_res \<Rightarrow> read_res \<times> int option \<times> verifyingReader" where
  "deferredRead cy st r = (case st of (cap, v) \<Rightarrow>
    (case (case cap of None \<Rightarrow> (r, None) | Some n \<Rightarrow> (case cappedRead n r of (r', n') \<Rightarrow> (r', Some n'))) of
       (r', cap') \<Rightarrow> (case verifyingRead cy v r' of (r'', v') \<Rightarrow> (r'', cap', v'))))"

end
