(* ===== verification/Chunked.thy ===== *)
theory Chunked
  imports Auth_Body
begin

text \<open>
  internal/auth/signature.go, lines 690-966: the decoder of aws-chunked bodies, which
  verifies each chunk before it hands out any of its bytes. bufio's reader below it is
  the bytes still to come; ReadSlice finds a line only within its 4096-byte buffer.
  trailerHashes is an association list in the order of X-Amz-Trailer: the order of Go's
  map only decides which of several errors is reported.
\<close>

definition chunkSignaturePrefix :: string where "chunkSignaturePrefix = ''AWS4-HMAC-SHA256-PAYLOAD''"
definition trailerSignaturePrefix :: string where "trailerSignaturePrefix = ''AWS4-HMAC-SHA256-TRAILER''"
definition trailerSignatureHeader :: string where "trailerSignatureHeader = ''x-amz-trailer-signature''"
definition maxChunkSize :: int where "maxChunkSize = 16777216"
definition maxChunkLineLength :: nat where "maxChunkLineLength = 4096"

abbreviation lf :: char where "lf \<equiv> CHR 0x0A"
abbreviation cr :: char where "cr \<equiv> CHR 0x0D"

record streamingMode =
  smSignedChunks :: bool
  smTrailer :: bool

definition streamingModes :: "string \<Rightarrow> streamingMode option" where
  "streamingModes s =
    (if s = ''STREAMING-AWS4-HMAC-SHA256-PAYLOAD'' then Some \<lparr>smSignedChunks = True, smTrailer = False\<rparr>
     else if s = ''STREAMING-AWS4-HMAC-SHA256-PAYLOAD-TRAILER'' then Some \<lparr>smSignedChunks = True, smTrailer = True\<rparr>
     else if s = ''STREAMING-UNSIGNED-PAYLOAD-TRAILER'' then Some \<lparr>smSignedChunks = False, smTrailer = True\<rparr>
     else None)"

subsection \<open>Lines\<close>

definition errChunkLine :: ioerr where "errChunkLine = IOErr (AErr ''malformed chunk line'')"

definition readChunkLine :: "reader \<Rightarrow> (ioerr + string) \<times> reader" where
  "readChunkLine br =
    (let line = takeWhile (\<lambda>c. c \<noteq> lf) (rdData br) in
     if lf \<in> set (take maxChunkLineLength (rdData br))
     then (Inr (TrimRight line [cr, lf]), br\<lparr>rdData := drop (Suc (length line)) (rdData br)\<rparr>)
     else (if rdData br = [] \<and> \<not> rdFails br then Inl EOF else Inl errChunkLine,
           br\<lparr>rdData := drop maxChunkLineLength (rdData br)\<rparr>))"

subsection \<open>The decoder\<close>

record trailer_hash =
  thAlg :: hash_alg
  thData :: string

record chunkedReader =
  crBr :: reader
  crMode :: streamingMode
  crSigningKey :: string
  crDateStr :: string
  crScope :: string
  crPrevSignature :: string
  crTrailerHashes :: "(string \<times> trailer_hash) list"
  crDeclaredLen :: int
  crMaxPayload :: int
  crBufCap :: int
  crPending :: string
  crDecoded :: int
  crErr :: "ioerr option"

fun declaredTrailers :: "string list \<Rightarrow> (string \<times> trailer_hash) list \<Rightarrow> aerr + (string \<times> trailer_hash) list" where
  "declaredTrailers [] hs = Inr hs"
| "declaredTrailers (n # ns) hs =
    (let name = ToLower (TrimSpace n) in
     case NewChecksum name of
       None \<Rightarrow> Inl (AuthError ''InvalidRequest'' (''The trailer '' @ name @ '' is not supported.''))
     | Some a \<Rightarrow> declaredTrailers ns (AList.update name \<lparr>thAlg = a, thData = []\<rparr> hs))"

definition declaredChecksumTrailers :: "string \<Rightarrow> aerr + (string \<times> trailer_hash) list" where
  "declaredChecksumTrailers header =
    (if TrimSpace header = [] then Inr [] else declaredTrailers (SplitByte CHR '','' header) [])"

definition decodeStreamingPayload ::
  "streamingMode \<Rightarrow> string \<Rightarrow> string \<Rightarrow> string \<Rightarrow> string \<Rightarrow> int \<Rightarrow> string \<Rightarrow> string \<Rightarrow> reader \<Rightarrow> aerr + chunkedReader" where
  "decodeStreamingPayload mode signingKey dateStr scope seed maxPayload amzTrailer decodedLength body =
    bindE (if smTrailer mode then declaredChecksumTrailers amzTrailer else Inr []) (\<lambda>hs.
    bindE (if decodedLength = [] then Inr (- 1)
           else case ParseInt 10 decodedLength of
             None \<Rightarrow> Inl (AuthError ''InvalidArgument'' ''Invalid x-amz-decoded-content-length.'')
           | Some n \<Rightarrow> if n < 0 then Inl (AuthError ''InvalidArgument'' ''Invalid x-amz-decoded-content-length.'')
               else if maxPayload > 0 \<and> n > maxPayload then Inl entityTooLarge
               else Inr n) (\<lambda>n.
    Inr \<lparr>crBr = body, crMode = mode, crSigningKey = signingKey, crDateStr = dateStr, crScope = scope,
         crPrevSignature = seed, crTrailerHashes = hs, crDeclaredLen = n, crMaxPayload = maxPayload,
         crBufCap = 0, crPending = [], crDecoded = 0, crErr = None\<rparr>))"

definition malformed :: "streamingMode \<Rightarrow> string \<Rightarrow> ioerr" where
  "malformed mode msg = IOErr (AuthError (if smSignedChunks mode then ''SignatureDoesNotMatch'' else ''InvalidRequest'')
     (''malformed chunked payload: '' @ msg))"

text \<open>fmt.Sprintf with newlines between the arguments.\<close>

definition sign_lines :: "string list \<Rightarrow> string" where
  "sign_lines ls = JoinByte lf ls"

definition chunkSignature :: "crypto \<Rightarrow> string \<Rightarrow> string \<Rightarrow> string \<Rightarrow> string \<Rightarrow> string \<Rightarrow> string" where
  "chunkSignature cy key dateStr scope prev data =
    hex_encode (hmacSHA256 cy key (sign_lines
      [chunkSignaturePrefix, dateStr, scope, prev, hashSHA256 cy [], hashSHA256 cy data]))"

definition trailerSignature :: "crypto \<Rightarrow> string \<Rightarrow> string \<Rightarrow> string \<Rightarrow> string \<Rightarrow> string \<Rightarrow> string" where
  "trailerSignature cy key dateStr scope prev trailers =
    hex_encode (hmacSHA256 cy key (sign_lines [trailerSignaturePrefix, dateStr, scope, prev, hashSHA256 cy trailers]))"

subsection \<open>The trailer section\<close>

record trailers =
  trValues :: "string \<Rightarrow> string option"
  trCanonical :: string
  trSig :: string

definition trailerLine :: "streamingMode \<Rightarrow> (string \<times> trailer_hash) list \<Rightarrow> trailers \<Rightarrow> string \<Rightarrow> ioerr + trailers" where
  "trailerLine mode hs t line =
    (case CutByte CHR '':'' line of (n, v, found) \<Rightarrow>
     if \<not> found then Inl (malformed mode ''invalid trailer line'')
     else
       let name = ToLower (TrimSpace n); value = TrimSpace v in
       if name = trailerSignatureHeader \<and> smSignedChunks mode \<and> smTrailer mode \<and> trSig t = []
       then Inr (t\<lparr>trSig := value\<rparr>)
       else if \<not> smTrailer mode then Inl (malformed mode ''unexpected trailer'')
       else if trSig t \<noteq> [] then Inl (malformed mode ''trailer after the trailer signature'')
       else if map_of (hs) name = None
       then Inl (IOErr (AuthError ''InvalidRequest'' (''The trailer '' @ name @ '' was not declared in x-amz-trailer.'')))
       else if trValues t name \<noteq> None \<and> trValues t name \<noteq> Some [] then Inl (malformed mode ''duplicate trailer'')
       else Inr (t\<lparr>trValues := (trValues t)(name \<mapsto> value), trCanonical := trCanonical t @ name @ '':'' @ value @ [lf]\<rparr>))"

text \<open>Each round but the last consumes at least one byte.\<close>

lemma readChunkLine_shorter:
  "readChunkLine br = (Inr line, br') \<Longrightarrow> length (rdData br') < length (rdData br)"
proof -
  assume h: "readChunkLine br = (Inr line, br')"
  let ?l = "takeWhile (\<lambda>c. c \<noteq> lf) (rdData br)"
  have m: "lf \<in> set (take maxChunkLineLength (rdData br))" and b: "br' = br\<lparr>rdData := drop (Suc (length ?l)) (rdData br)\<rparr>"
    using h by (auto simp: readChunkLine_def Let_def split: if_splits)
  have "lf \<in> set (rdData br)" using m by (rule in_set_takeD)
  then have "rdData br \<noteq> []" by auto
  with b show ?thesis by simp
qed

function trailerSection :: "streamingMode \<Rightarrow> (string \<times> trailer_hash) list \<Rightarrow> trailers \<Rightarrow> reader \<Rightarrow> (ioerr + trailers) \<times> reader" where
  "trailerSection mode hs t br =
    (case readChunkLine br of
       (Inl e, br') \<Rightarrow> (if e = EOF then Inr t else Inl (malformed mode ''could not read trailer''), br')
     | (Inr line, br') \<Rightarrow>
         if line = [] then (Inr t, br')
         else (case trailerLine mode hs t line of
             Inl e \<Rightarrow> (Inl e, br')
           | Inr t' \<Rightarrow> trailerSection mode hs t' br'))"
  by pat_completeness auto
termination
  by (relation "measure (\<lambda>(mode, hs, t, br). length (rdData br))") (auto dest: readChunkLine_shorter [OF sym])

fun checkTrailers :: "crypto \<Rightarrow> (string \<Rightarrow> string option) \<Rightarrow> (string \<times> trailer_hash) list \<Rightarrow> ioerr option" where
  "checkTrailers cy vs [] = None"
| "checkTrailers cy vs ((name, h) # hs) =
    (case vs name of
       None \<Rightarrow> Some (IOErr (AuthError ''InvalidRequest'' (''The declared trailer '' @ name @ '' was not sent.'')))
     | Some raw \<Rightarrow>
       case DecodeExpected raw (thAlg h) of
         None \<Rightarrow> Some (IOErr (AuthError ''InvalidRequest'' (''Invalid '' @ name @ '' trailer'')))
       | Some want \<Rightarrow>
           if cySum cy (thAlg h) (thData h) \<noteq> want
           then Some (IOErr (AuthError ''BadDigest'' (''The '' @ name @ '' you specified did not match the calculated checksum.'')))
           else checkTrailers cy vs hs)"

definition emptyTrailers :: trailers where
  "emptyTrailers = \<lparr>trValues = Map.empty, trCanonical = [], trSig = []\<rparr>"

text \<open>finish returns io.EOF or the failure.\<close>

definition finish :: "crypto \<Rightarrow> chunkedReader \<Rightarrow> ioerr \<times> chunkedReader" where
  "finish cy c =
    (case trailerSection (crMode c) (crTrailerHashes c) emptyTrailers (crBr c) of
       (Inl e, br) \<Rightarrow> (e, c\<lparr>crBr := br\<rparr>)
     | (Inr t, br) \<Rightarrow>
       (let c = c\<lparr>crBr := br\<rparr> in
        (if smSignedChunks (crMode c) \<and> smTrailer (crMode c) \<and>
            trailerSignature cy (crSigningKey c) (crDateStr c) (crScope c) (crPrevSignature c) (trCanonical t) \<noteq> trSig t
         then IOErr (AuthError ''SignatureDoesNotMatch'' ''trailer signature does not match'')
         else case checkTrailers cy (trValues t) (crTrailerHashes c) of
           Some e \<Rightarrow> e
         | None \<Rightarrow>
             if crDeclaredLen c \<ge> 0 \<and> crDeclaredLen c \<noteq> crDecoded c
             then IOErr (AuthError ''IncompleteBody'' ''The decoded payload length does not match x-amz-decoded-content-length.'')
             else EOF, c)))"

subsection \<open>Chunks\<close>

definition CutPrefix :: "string \<Rightarrow> string \<Rightarrow> string option" where
  "CutPrefix s p = (if prefix p s then Some (drop (length p) s) else None)"

definition chunkSigExt :: string where "chunkSigExt = ''chunk-signature=''"

text \<open>The chunk header: the declared signature and the size.\<close>

definition chunkHeader :: "streamingMode \<Rightarrow> int \<Rightarrow> int \<Rightarrow> string \<Rightarrow> ioerr + string \<times> int" where
  "chunkHeader mode decoded maxPayload header =
    (case CutByte CHR '';'' header of (sizeStr, ext, _) \<Rightarrow>
     bindE (if smSignedChunks mode
            then (case CutPrefix ext chunkSigExt of None \<Rightarrow> Inl (malformed mode ''missing chunk-signature'') | Some s \<Rightarrow> Inr s)
            else Inr []) (\<lambda>sig.
     case ParseInt 16 (TrimSpace sizeStr) of
       None \<Rightarrow> Inl (malformed mode ''invalid chunk size'')
     | Some n \<Rightarrow>
         if n < 0 then Inl (malformed mode ''invalid chunk size'')
         else if maxPayload > 0 \<and> int64 (decoded + n) > maxPayload then Inl (IOErr entityTooLarge)
         else if n > maxChunkSize
         then Inl (IOErr (AuthError ''InvalidRequest'' ''Chunk size exceeds the maximum allowed for an aws-chunked upload.''))
         else Inr (sig, n)))"

text \<open>The data of a chunk and its terminator.\<close>

definition chunkData :: "streamingMode \<Rightarrow> int \<Rightarrow> reader \<Rightarrow> ioerr + string \<times> reader" where
  "chunkData mode n br =
    (if n = 0 then Inr ([], br)
     else if int (length (rdData br)) < n then Inl (malformed mode ''truncated chunk data'')
     else case readChunkLine (br\<lparr>rdData := drop (nat n) (rdData br)\<rparr>) of
         (Inl _, _) \<Rightarrow> Inl (malformed mode ''missing chunk terminator'')
       | (Inr t, br') \<Rightarrow> if t \<noteq> [] then Inl (malformed mode ''missing chunk terminator'')
           else Inr (take (nat n) (rdData br), br'))"

definition nextChunk :: "crypto \<Rightarrow> chunkedReader \<Rightarrow> ioerr option \<times> chunkedReader" where
  "nextChunk cy c =
    (case readChunkLine (crBr c) of
       (Inl _, br) \<Rightarrow> (Some (malformed (crMode c) ''could not read chunk header''), c\<lparr>crBr := br\<rparr>)
     | (Inr header, br) \<Rightarrow>
       (let c = c\<lparr>crBr := br\<rparr> in
        case chunkHeader (crMode c) (crDecoded c) (crMaxPayload c) header of
          Inl e \<Rightarrow> (Some e, c)
        | Inr (declaredSig, n) \<Rightarrow>
          (let c = c\<lparr>crBufCap := max (crBufCap c) n\<rparr> in
           case chunkData (crMode c) n br of
             Inl e \<Rightarrow> (Some e, c)
           | Inr (data, br) \<Rightarrow>
             (let c = c\<lparr>crBr := br\<rparr>;
                  expected = chunkSignature cy (crSigningKey c) (crDateStr c) (crScope c) (crPrevSignature c) data in
              if smSignedChunks (crMode c) \<and> expected \<noteq> declaredSig
              then (Some (IOErr (AuthError ''SignatureDoesNotMatch'' ''chunk signature does not match'')), c)
              else
                let c = (if smSignedChunks (crMode c) then c\<lparr>crPrevSignature := expected\<rparr> else c) in
                if n = 0 then (case finish cy c of (e, c) \<Rightarrow> (Some e, c))
                else (None, c\<lparr>crTrailerHashes := map (\<lambda>(m, h). (m, h\<lparr>thData := thData h @ data\<rparr>)) (crTrailerHashes c),
                              crDecoded := int64 (crDecoded c + n), crPending := data\<rparr>)))))"

lemma chunkHeader_bounds:
  "chunkHeader mode decoded maxPayload header = Inr (sig, n) \<Longrightarrow>
     0 \<le> n \<and> n \<le> maxChunkSize \<and> (0 < maxPayload \<longrightarrow> int64 (decoded + n) \<le> maxPayload)"
proof -
  assume h: "chunkHeader mode decoded maxPayload header = Inr (sig, n)"
  obtain a b f where k: "CutByte CHR '';'' header = (a, b, f)" by (cases "CutByte CHR '';'' header")
  from h obtain s where "(case ParseInt 16 (TrimSpace a) of
       None \<Rightarrow> Inl (malformed mode ''invalid chunk size'')
     | Some n \<Rightarrow>
         if n < 0 then Inl (malformed mode ''invalid chunk size'')
         else if maxPayload > 0 \<and> int64 (decoded + n) > maxPayload then Inl (IOErr entityTooLarge)
         else if n > maxChunkSize
         then Inl (IOErr (AuthError ''InvalidRequest'' ''Chunk size exceeds the maximum allowed for an aws-chunked upload.''))
         else Inr (s, n)) = Inr (sig, n)"
    by (auto simp: chunkHeader_def k bindE_Inr_iff)
  then show ?thesis by (cases "ParseInt 16 (TrimSpace a)") (auto split: if_splits)
qed

lemma chunkData_Inr:
  assumes "chunkData mode n br = Inr (data, br')" and "0 \<le> n"
  shows "int (length data) = n \<and> length (rdData br') \<le> length (rdData br)"
proof (cases "n = 0")
  case True
  with assms show ?thesis by (simp add: chunkData_def)
next
  case False
  with assms(1) obtain t where r: "readChunkLine (br\<lparr>rdData := drop (nat n) (rdData br)\<rparr>) = (Inr t, br')"
    and d: "data = take (nat n) (rdData br)" "\<not> int (length (rdData br)) < n"
    by (auto simp: chunkData_def split: if_splits sum.splits prod.splits)
  from readChunkLine_shorter [OF r] d assms(2) show ?thesis by simp
qed

text \<open>What a chunk that was accepted went through.\<close>

lemma nextChunk_NoneE:
  assumes "nextChunk cy c = (None, c')"
  obtains header br sig n data br' where
    "readChunkLine (crBr c) = (Inr header, br)" "chunkHeader (crMode c) (crDecoded c) (crMaxPayload c) header = Inr (sig, n)" "0 < n"
    "chunkData (crMode c) n br = Inr (data, br')"
    "smSignedChunks (crMode c) \<Longrightarrow> chunkSignature cy (crSigningKey c) (crDateStr c) (crScope c) (crPrevSignature c) data = sig"
    "c' = c\<lparr>crBr := br', crBufCap := max (crBufCap c) n,
       crPrevSignature := (if smSignedChunks (crMode c)
         then chunkSignature cy (crSigningKey c) (crDateStr c) (crScope c) (crPrevSignature c) data else crPrevSignature c),
       crTrailerHashes := map (\<lambda>(m, h). (m, h\<lparr>thData := thData h @ data\<rparr>)) (crTrailerHashes c),
       crDecoded := int64 (crDecoded c + n), crPending := data\<rparr>"
proof -
  from assms obtain header br where l: "readChunkLine (crBr c) = (Inr header, br)"
    by (auto simp: nextChunk_def split: sum.splits prod.splits)
  with assms obtain sig n where h: "chunkHeader (crMode c) (crDecoded c) (crMaxPayload c) header = Inr (sig, n)"
    by (auto simp: nextChunk_def Let_def split: sum.splits prod.splits)
  with assms l obtain data br' where d: "chunkData (crMode c) n br = Inr (data, br')"
    by (auto simp: nextChunk_def Let_def split: sum.splits prod.splits)
  have "0 \<le> n" using chunkHeader_bounds [OF h] by simp
  moreover have "n \<noteq> 0" using assms l h d by (auto simp: nextChunk_def Let_def split: if_splits prod.splits)
  ultimately have n: "0 < n" by simp
  show thesis
    using that [OF l h n d] assms l h d \<open>n \<noteq> 0\<close>
    by (cases "smSignedChunks (crMode c)") (auto simp: nextChunk_def Let_def split: if_splits)
qed

lemma nextChunk_None:
  assumes "nextChunk cy c = (None, c')"
  shows "crPending c' \<noteq> [] \<and> length (rdData (crBr c')) < length (rdData (crBr c))"
  using assms
proof (rule nextChunk_NoneE, goal_cases)
  case (1 header br sig n data br')
  from chunkData_Inr [OF 1(4)] 1(3) readChunkLine_shorter [OF 1(1)] show ?case by (auto simp: 1(6))
qed

text \<open>Read: the loop ends at the latest in its second round, as a chunk without an error
  has data.\<close>

function chunkedRead :: "crypto \<Rightarrow> nat \<Rightarrow> chunkedReader \<Rightarrow> read_res \<times> chunkedReader" where
  "chunkedRead cy n c =
    (if crPending c = [] then
       (case crErr c of
          Some e \<Rightarrow> (([], Some e), c)
        | None \<Rightarrow> (case nextChunk cy c of (e, c') \<Rightarrow> chunkedRead cy n (c'\<lparr>crErr := e\<rparr>)))
     else ((take n (crPending c), None), c\<lparr>crPending := drop n (crPending c)\<rparr>))"
  by pat_completeness auto
termination
  by (relation "measure (\<lambda>(cy, n, c). if crPending c = [] \<and> crErr c = None then 1 else 0)")
    (auto, metis nextChunk_None option.exhaust)

text \<open>A consumer that reads to the first error: all the data and the error.\<close>

function chunk_stream :: "crypto \<Rightarrow> chunkedReader \<Rightarrow> string \<times> ioerr" where
  "chunk_stream cy c =
    (case nextChunk cy c of
       (Some e, c') \<Rightarrow> ([], e)
     | (None, c') \<Rightarrow> (case chunk_stream cy c' of (d, e) \<Rightarrow> (crPending c' @ d, e)))"
  by pat_completeness auto
termination
  by (relation "measure (\<lambda>(cy, c). length (rdData (crBr c)))") (auto dest: nextChunk_None [OF sym])

text \<open>Reads of the given sizes, up to the first error.\<close>

fun reads :: "crypto \<Rightarrow> chunkedReader \<Rightarrow> nat list \<Rightarrow> read_res \<times> chunkedReader" where
  "reads cy c [] = (([], None), c)"
| "reads cy c (n # ns) = (case chunkedRead cy n c of ((p, e), c') \<Rightarrow>
     (case e of
        None \<Rightarrow> (case reads cy c' ns of ((d, e'), c'') \<Rightarrow> ((p @ d, e'), c''))
      | Some x \<Rightarrow> ((p, Some x), c')))"

declare trailerSection.simps [simp del] chunkedRead.simps [simp del] chunk_stream.simps [simp del]

end
