(* ===== verification/Chunked_Props.thy ===== *)
theory Chunked_Props
  imports Chunked
begin

text \<open>
  Facts on the aws-chunked decoder. The whole stream (chunk_stream) is what any sequence
  of Reads hands out piece by piece; what it hands out was signed, chunk by chunk, in a
  chain from the request's signature; a client's framing decodes to the client's bytes.
\<close>

subsection \<open>Reads of any size\<close>

lemma nextChunk_irrel:
  "nextChunk cy (c\<lparr>crPending := x, crErr := y\<rparr>) =
    (case nextChunk cy c of (None, c') \<Rightarrow> (None, c'\<lparr>crErr := y\<rparr>) | (Some e, c') \<Rightarrow> (Some e, c'\<lparr>crPending := x, crErr := y\<rparr>))"
  by (auto simp: nextChunk_def finish_def Let_def split: sum.split prod.split)

lemma chunk_stream_irrel: "chunk_stream cy (c\<lparr>crPending := x, crErr := y\<rparr>) = chunk_stream cy c"
proof (induction cy c arbitrary: x y rule: chunk_stream.induct)
  case (1 cy c)
  show ?case
  proof (cases "nextChunk cy c")
    case (Pair o' c')
    show ?thesis
    proof (cases o')
      case None
      have "chunk_stream cy (c'\<lparr>crPending := crPending c', crErr := y\<rparr>) = chunk_stream cy c'"
        by (rule 1 [OF Pair [symmetric] None])
      with Pair None show ?thesis
        by (subst (1 2) chunk_stream.simps) (simp add: nextChunk_irrel)
    next
      case (Some e)
      with Pair show ?thesis by (subst (1 2) chunk_stream.simps) (simp add: nextChunk_irrel)
    qed
  qed
qed

text \<open>What is still to come from a decoder.\<close>

definition to_come :: "crypto \<Rightarrow> chunkedReader \<Rightarrow> string \<times> ioerr" where
  "to_come cy c = (case (case crErr c of Some e \<Rightarrow> ([], e) | None \<Rightarrow> chunk_stream cy c) of (d, e) \<Rightarrow> (crPending c @ d, e))"

lemma chunkedRead_to_come:
  "chunkedRead cy n c = ((p, e), c') \<Longrightarrow>
    (case e of
       Some x \<Rightarrow> p = [] \<and> to_come cy c = ([], x)
     | None \<Rightarrow> p \<noteq> [] \<or> n = 0) \<and>
    (e = None \<longrightarrow> to_come cy c = (p @ fst (to_come cy c'), snd (to_come cy c')))"
proof (induction cy n c rule: chunkedRead.induct)
  case (1 cy n c)
  show ?case
  proof (cases "crPending c = []")
    case False
    with 1(2) have "p = take n (crPending c)" "e = None" "c' = c\<lparr>crPending := drop n (crPending c)\<rparr>"
      by (auto simp: chunkedRead.simps [of cy n c])
    moreover have "to_come cy c = (take n (crPending c) @ fst (to_come cy (c\<lparr>crPending := drop n (crPending c)\<rparr>)),
        snd (to_come cy (c\<lparr>crPending := drop n (crPending c)\<rparr>)))"
      using chunk_stream_irrel [where c = c and x = "drop n (crPending c)" and y = "crErr c"]
      by (simp add: to_come_def split: option.split prod.split)
    ultimately show ?thesis using False by auto
  next
    case True
    show ?thesis
    proof (cases "crErr c")
      case (Some x)
      with True 1(2) have "p = []" "e = Some x" by (auto simp: chunkedRead.simps [of cy n c])
      with Some True show ?thesis by (simp add: to_come_def)
    next
      case None
      obtain e' c1 where n: "nextChunk cy c = (e', c1)" by (cases "nextChunk cy c")
      have r: "chunkedRead cy n (c1\<lparr>crErr := e'\<rparr>) = ((p, e), c')"
        using 1(2) True None n by (simp add: chunkedRead.simps [of cy n c])
      have "to_come cy (c1\<lparr>crErr := e'\<rparr>) = to_come cy c"
      proof (cases e')
        case e: None
        have "chunk_stream cy (c1\<lparr>crErr := None\<rparr>) = chunk_stream cy c1"
          using chunk_stream_irrel [where c = c1 and x = "crPending c1" and y = None] by simp
        with True None n e show ?thesis by (simp add: to_come_def chunk_stream.simps [of cy c] split: prod.split)
      next
        case (Some x)
        have "crPending c1 = []" using n True Some
          by (auto simp: nextChunk_def finish_def Let_def split: sum.splits prod.splits if_splits)
        with True None n Some show ?thesis by (simp add: to_come_def chunk_stream.simps [of cy c])
      qed
      with 1(1) [OF True None n [symmetric] r] show ?thesis by (cases e) simp_all
    qed
  qed
qed

lemma reads_to_come:
  "reads cy c ns = ((d, e), c') \<Longrightarrow>
    (case e of Some x \<Rightarrow> to_come cy c = (d, x) | None \<Rightarrow> to_come cy c = (d @ fst (to_come cy c'), snd (to_come cy c')))"
proof (induction ns arbitrary: c d)
  case Nil
  then show ?case by auto
next
  case (Cons n ns)
  obtain p e1 c1 where r: "chunkedRead cy n c = ((p, e1), c1)" by (metis prod.exhaust)
  show ?case
  proof (cases e1)
    case None
    obtain d2 where "reads cy c1 ns = ((d2, e), c')" "d = p @ d2"
      using Cons.prems r None by (auto split: prod.splits)
    with Cons.IH chunkedRead_to_come [OF r] None show ?thesis by (auto split: option.splits)
  next
    case (Some x)
    with Cons.prems r have "e = Some x" "d = p" by auto
    with chunkedRead_to_come [OF r] Some show ?thesis by auto
  qed
qed

text \<open>Enough Reads of at least one byte reach the end.\<close>

lemma reads_enough:
  "\<forall>n\<in>set ns. 0 < n \<Longrightarrow> length (fst (to_come cy c)) < length ns \<Longrightarrow>
    fst (reads cy c ns) = (fst (to_come cy c), Some (snd (to_come cy c)))"
proof (induction ns arbitrary: c)
  case Nil
  then show ?case by simp
next
  case (Cons n ns)
  obtain p e1 c1 where r: "chunkedRead cy n c = ((p, e1), c1)" by (metis prod.exhaust)
  show ?case
  proof (cases e1)
    case None
    with chunkedRead_to_come [OF r] Cons.prems(1) have p: "p \<noteq> []"
      and t: "to_come cy c = (p @ fst (to_come cy c1), snd (to_come cy c1))" by auto
    from p t Cons.prems(2) have "length (fst (to_come cy c1)) < length ns" by (cases p) auto
    with Cons have "fst (reads cy c1 ns) = (fst (to_come cy c1), Some (snd (to_come cy c1)))" by simp
    with r None t show ?thesis by (auto split: prod.split)
  next
    case (Some x)
    with chunkedRead_to_come [OF r] r show ?thesis by simp
  qed
qed

subsection \<open>What was handed out had been signed\<close>

text \<open>The signatures of a list of chunks, each computed from the one before, and a
  signature that the body states.\<close>

fun chain_sigs :: "crypto \<Rightarrow> string \<Rightarrow> string \<Rightarrow> string \<Rightarrow> string \<Rightarrow> string list \<Rightarrow> string list" where
  "chain_sigs cy key date scope prev [] = []"
| "chain_sigs cy key date scope prev (d # ds) =
    (let s = chunkSignature cy key date scope prev d in s # chain_sigs cy key date scope s ds)"

definition presented :: "string \<Rightarrow> string \<Rightarrow> bool" where
  "presented body sig = Contains body (chunkSigExt @ sig)"

lemma presented_suffix: "presented b s \<Longrightarrow> suffix b b' \<Longrightarrow> presented b' s"
  unfolding presented_def by (meson suffix_imp_sublist sublist_order.order.trans)

lemma TrimRight_prefix: "prefix (TrimRight s cs) s"
proof -
  have "suffix (TrimLeft (rev s) cs) (rev s)" by (simp add: TrimLeft_def suffix_dropWhile)
  then show ?thesis by (simp add: TrimRight_def suffix_to_prefix)
qed

lemma TrimSpace_sublist: "sublist (TrimSpace s) s"
proof -
  have "suffix (dropWhile is_space t) t" for t by (rule suffix_dropWhile)
  from this [of "rev (dropWhile is_space s)"] this [of s]
  have "prefix (TrimSpace s) (dropWhile is_space s)" "suffix (dropWhile is_space s) s"
    by (simp_all add: TrimSpace_def suffix_to_prefix)
  then show ?thesis by (meson prefix_imp_sublist suffix_imp_sublist sublist_order.order.trans)
qed

lemma CutByte_split: "CutByte c s = (a, b, True) \<Longrightarrow> s = a @ c # b"
proof -
  assume h: "CutByte c s = (a, b, True)"
  then have "c \<in> set s" by (simp add: CutByte_def)
  then obtain ys zs where "s = ys @ c # zs" "c \<notin> set ys" by (meson split_list_first)
  with h CutByte_append show ?thesis by fastforce
qed

lemma readChunkLine_parts:
  "readChunkLine br = (Inr line, br') \<Longrightarrow> sublist line (rdData br) \<and> suffix (rdData br') (rdData br) \<and> rdFails br' = rdFails br"
proof -
  assume h: "readChunkLine br = (Inr line, br')"
  let ?l = "takeWhile (\<lambda>c. c \<noteq> lf) (rdData br)"
  have "line = TrimRight ?l [cr, lf]" "br' = br\<lparr>rdData := drop (Suc (length ?l)) (rdData br)\<rparr>"
    using h unfolding readChunkLine_def Let_def by (simp_all split: if_splits)
  moreover have "sublist (TrimRight ?l [cr, lf]) (rdData br)"
    by (rule prefix_imp_sublist, rule prefix_order.trans [OF TrimRight_prefix takeWhile_is_prefix])
  ultimately show ?thesis by (simp add: suffix_drop)
qed

lemma chunkHeader_sig:
  assumes "chunkHeader mode decoded maxPayload header = Inr (sig, n)" and "smSignedChunks mode"
  shows "sublist (chunkSigExt @ sig) header"
proof -
  obtain a b f where k: "CutByte CHR '';'' header = (a, b, f)" by (cases "CutByte CHR '';'' header")
  from assms have "prefix chunkSigExt b \<and> sig = drop (length chunkSigExt) b"
    by (auto simp: chunkHeader_def k bindE_Inr_iff CutPrefix_def split: option.splits if_splits)
  then have b: "b = chunkSigExt @ sig" by (auto simp: prefix_def)
  have "chunkSigExt \<noteq> []" by (simp add: chunkSigExt_def)
  moreover have "b = []" if "\<not> f"
  proof -
    from that k have "CHR '';'' \<notin> set header" by (simp add: CutByte_def)
    then have "dropWhile (\<lambda>x. x \<noteq> CHR '';'') header = []" by (auto simp: dropWhile_eq_Nil_conv)
    with k show ?thesis by (simp add: CutByte_def)
  qed
  ultimately have "f" using b by auto
  with CutByte_split k have "header = a @ '';'' @ b" by auto
  with b show ?thesis by (metis append.assoc sublist_appendI append_Nil2)
qed

lemma chunkData_suffix:
  "chunkData mode n br = Inr (data, br') \<Longrightarrow> suffix (rdData br') (rdData br)"
  by (auto simp: chunkData_def split: if_splits sum.splits prod.splits dest!: readChunkLine_parts
      intro: suffix_order.trans suffix_drop)

text \<open>The chunk that ends the stream cleanly.\<close>

lemma nextChunk_EOFE:
  assumes "nextChunk cy c = (Some EOF, c')"
  obtains header br sig c1 where
    "readChunkLine (crBr c) = (Inr header, br)" "chunkHeader (crMode c) (crDecoded c) (crMaxPayload c) header = Inr (sig, 0)"
    "smSignedChunks (crMode c) \<Longrightarrow> chunkSignature cy (crSigningKey c) (crDateStr c) (crScope c) (crPrevSignature c) [] = sig"
    "finish cy c1 = (EOF, c')" "crBr c1 = br" "crMode c1 = crMode c" "crTrailerHashes c1 = crTrailerHashes c"
    "crDeclaredLen c1 = crDeclaredLen c" "crDecoded c1 = crDecoded c" "crSigningKey c1 = crSigningKey c"
    "crDateStr c1 = crDateStr c" "crScope c1 = crScope c"
    "crPrevSignature c1 = (if smSignedChunks (crMode c) then sig else crPrevSignature c)"
proof -
  have eof: "malformed m x \<noteq> EOF" for m x by (simp add: malformed_def)
  from assms eof obtain header br where l: "readChunkLine (crBr c) = (Inr header, br)"
    by (auto simp: nextChunk_def split: sum.splits prod.splits)
  have he: "chunkHeader m d mp header \<noteq> Inl EOF" for m d mp
    by (auto simp: chunkHeader_def malformed_def bindE_def Let_def split: prod.splits option.splits sum.splits if_splits)
  with assms l obtain sig n where h: "chunkHeader (crMode c) (crDecoded c) (crMaxPayload c) header = Inr (sig, n)"
    by (auto simp: nextChunk_def Let_def split: sum.splits prod.splits)
  have de: "chunkData m k b \<noteq> Inl EOF" for m k b
    by (auto simp: chunkData_def malformed_def split: prod.splits sum.splits if_splits)
  with assms l h obtain data br' where d: "chunkData (crMode c) n br = Inr (data, br')"
    by (auto simp: nextChunk_def Let_def split: sum.splits prod.splits)
  have n: "n = 0" using assms l h d by (auto simp: nextChunk_def Let_def split: if_splits prod.splits)
  then have data: "data = []" "br' = br" using d by (auto simp: chunkData_def)
  let ?sg = "chunkSignature cy (crSigningKey c) (crDateStr c) (crScope c) (crPrevSignature c) []"
  have s: "smSignedChunks (crMode c) \<Longrightarrow> ?sg = sig"
    using assms l h d n data by (auto simp: nextChunk_def Let_def split: if_splits)
  show thesis
  proof (rule that [OF l h [unfolded n] s])
    show "finish cy (c\<lparr>crBr := br, crBufCap := max (crBufCap c) 0, crBr := br,
        crPrevSignature := if smSignedChunks (crMode c) then sig else crPrevSignature c\<rparr>) = (EOF, c')"
      using assms l h d n data s
      by (cases "smSignedChunks (crMode c)") (auto simp: nextChunk_def Let_def split: if_splits prod.splits)
  qed simp_all
qed

lemma chunk_stream_signed:
  "chunk_stream cy c = (data, e) \<Longrightarrow> smSignedChunks (crMode c) \<Longrightarrow>
   \<exists>ds. data = concat ds \<and>
     (\<forall>s\<in>set (chain_sigs cy (crSigningKey c) (crDateStr c) (crScope c) (crPrevSignature c) (if e = EOF then ds @ [[]] else ds)).
        presented (rdData (crBr c)) s)"
proof (induction cy c arbitrary: data rule: chunk_stream.induct)
  case (1 cy c)
  obtain o' c' where n: "nextChunk cy c = (o', c')" by (cases "nextChunk cy c")
  show ?case
  proof (cases o')
    case None
    obtain d2 where t: "chunk_stream cy c' = (d2, e)" and d: "data = crPending c' @ d2"
      using 1(2) n None by (auto simp: chunk_stream.simps [of cy c] split: prod.splits)
    from n [unfolded None] show ?thesis
    proof (cases rule: nextChunk_NoneE)
      case h: (1 header br sig n data1 br1)
      have "smSignedChunks (crMode c')" using h(6) 1(3) by simp
      from 1(1) [OF n [symmetric] None t this] obtain ds where ds: "d2 = concat ds"
        "\<forall>s\<in>set (chain_sigs cy (crSigningKey c) (crDateStr c) (crScope c) sig (if e = EOF then ds @ [[]] else ds)). presented (rdData br1) s"
        using h(5,6) 1(3) by auto
      have "suffix (rdData br1) (rdData (crBr c))"
        using readChunkLine_parts [OF h(1)] chunkData_suffix [OF h(4)] suffix_order.trans by blast
      then have p: "presented (rdData br1) s \<Longrightarrow> presented (rdData (crBr c)) s" for s using presented_suffix by blast
      have "presented (rdData (crBr c)) sig"
        using chunkHeader_sig [OF h(2) 1(3)] readChunkLine_parts [OF h(1)] unfolding presented_def
        by (meson sublist_order.order.trans)
      with ds p h(5,6) 1(3) d show ?thesis by (intro exI [of _ "data1 # ds"]) (auto simp: Let_def)
    qed
  next
    case (Some x)
    with 1(2) n have d: "data = []" "x = e" by (auto simp: chunk_stream.simps [of cy c])
    show ?thesis
    proof (cases "e = EOF")
      case True
      from n [unfolded Some d True] show ?thesis
      proof (cases rule: nextChunk_EOFE)
        case h: (1 header br sig c1)
        have "presented (rdData (crBr c)) sig"
          using chunkHeader_sig [OF h(2) 1(3)] readChunkLine_parts [OF h(1)] unfolding presented_def
          by (meson sublist_order.order.trans)
        with h(3) 1(3) d True show ?thesis by (intro exI [of _ "[]"]) (simp add: Let_def)
      qed
    next
      case False
      with d show ?thesis by (intro exI [of _ "[]"]) simp
    qed
  qed
qed

subsection \<open>What a clean end means\<close>

lemma int64_add: "int64 (int64 a + b) = int64 (a + b)"
  by (simp add: int64_def)

lemma trailerLine_value:
  assumes "trailerLine mode hs t line = Inr t'" and "trValues t' m = Some v"
  shows "trValues t m = Some v \<or> sublist v line"
proof -
  obtain n w f where k: "CutByte CHR '':'' line = (n, w, f)" by (cases "CutByte CHR '':'' line")
  from assms(1) have f: "f" by (auto simp: trailerLine_def k split: if_splits)
  from assms(1) have "trValues t' = trValues t \<or> (\<exists>x. trValues t' = (trValues t)(x \<mapsto> TrimSpace w))"
    by (auto simp: trailerLine_def k Let_def split: if_splits)
  moreover have "sublist (TrimSpace w) line"
  proof -
    have "line = (n @ [CHR '':'']) @ w" using CutByte_split k f by auto
    then have "suffix w line" unfolding suffix_def by blast
    then show ?thesis by (meson TrimSpace_sublist suffix_imp_sublist sublist_order.order.trans)
  qed
  ultimately show ?thesis using assms(2) by (auto split: if_splits)
qed

lemma trailerSection_value:
  "trailerSection mode hs t br = (Inr t', br') \<Longrightarrow> trValues t' m = Some v \<Longrightarrow>
   trValues t m = Some v \<or> sublist v (rdData br)"
proof (induction mode hs t br rule: trailerSection.induct)
  case (1 mode hs t br)
  obtain r b where l: "readChunkLine br = (r, b)" by (cases "readChunkLine br")
  show ?case
  proof (cases r)
    case (Inl e)
    with 1(2,3) l show ?thesis by (auto simp: trailerSection.simps [of mode hs t br] split: if_splits)
  next
    case (Inr line)
    show ?thesis
    proof (cases "line = []")
      case True
      with 1(2,3) l Inr show ?thesis by (auto simp: trailerSection.simps [of mode hs t br])
    next
      case False
      with 1(2) l Inr obtain t1 where t1: "trailerLine mode hs t line = Inr t1"
        and r: "trailerSection mode hs t1 b = (Inr t', br')"
        by (auto simp: trailerSection.simps [of mode hs t br] split: sum.splits)
      from readChunkLine_parts l Inr have p: "sublist line (rdData br)" "suffix (rdData b) (rdData br)" by blast+
      from 1(1) [OF l [symmetric] Inr False t1 r 1(3)] trailerLine_value [OF t1] p show ?thesis
        by (meson suffix_imp_sublist sublist_order.order.trans)
    qed
  qed
qed

lemma checkTrailers_ok:
  "checkTrailers cy vs hs = None \<Longrightarrow> (m, h) \<in> set hs \<Longrightarrow>
   \<exists>raw. vs m = Some raw \<and> DecodeExpected raw (thAlg h) = Some (cySum cy (thAlg h) (thData h))"
  by (induction cy vs hs rule: checkTrailers.induct) (auto split: option.splits if_splits)

lemma checkTrailers_not_EOF: "checkTrailers cy vs hs \<noteq> Some EOF"
  by (induction cy vs hs rule: checkTrailers.induct) (auto split: option.splits)

lemma trailerSection_not_EOF: "trailerSection mode hs t br = (Inl e, b) \<Longrightarrow> e \<noteq> EOF"
proof (induction mode hs t br rule: trailerSection.induct)
  case (1 mode hs t br)
  then show ?case
    by (subst (asm) (2) trailerSection.simps)
      (auto simp: malformed_def trailerLine_def Let_def split: sum.splits prod.splits if_splits)
qed

lemma finish_EOF:
  assumes "finish cy c = (EOF, c')"
  shows "(0 \<le> crDeclaredLen c \<longrightarrow> crDeclaredLen c = crDecoded c) \<and>
    (\<forall>(m, h)\<in>set (crTrailerHashes c). \<exists>raw. sublist raw (rdData (crBr c)) \<and>
       DecodeExpected raw (thAlg h) = Some (cySum cy (thAlg h) (thData h)))"
proof -
  from assms trailerSection_not_EOF obtain t b
    where s: "trailerSection (crMode c) (crTrailerHashes c) emptyTrailers (crBr c) = (Inr t, b)"
    by (auto simp: finish_def split: sum.splits prod.splits)
  from assms have k: "checkTrailers cy (trValues t) (crTrailerHashes c) = None"
    "0 \<le> crDeclaredLen c \<longrightarrow> crDeclaredLen c = crDecoded c"
    by (auto simp: finish_def s Let_def checkTrailers_not_EOF split: if_splits option.splits)
  have "\<exists>raw. sublist raw (rdData (crBr c)) \<and> DecodeExpected raw (thAlg h) = Some (cySum cy (thAlg h) (thData h))"
    if "(m, h) \<in> set (crTrailerHashes c)" for m h
    using checkTrailers_ok [OF k(1) that] trailerSection_value [OF s, of m] by (auto simp: emptyTrailers_def)
  with k(2) show ?thesis by blast
qed

lemma chunk_stream_complete:
  "chunk_stream cy c = (data, EOF) \<Longrightarrow>
   (0 \<le> crDeclaredLen c \<longrightarrow> crDeclaredLen c = (if data = [] then crDecoded c else int64 (crDecoded c + int (length data)))) \<and>
   (\<forall>(m, h)\<in>set (crTrailerHashes c). \<exists>raw. sublist raw (rdData (crBr c)) \<and>
      DecodeExpected raw (thAlg h) = Some (cySum cy (thAlg h) (thData h @ data)))"
proof (induction cy c arbitrary: data rule: chunk_stream.induct)
  case (1 cy c)
  obtain o' c' where n: "nextChunk cy c = (o', c')" by (cases "nextChunk cy c")
  show ?case
  proof (cases o')
    case None
    obtain d2 where t: "chunk_stream cy c' = (d2, EOF)" and d: "data = crPending c' @ d2"
      using 1(2) n None by (auto simp: chunk_stream.simps [of cy c] split: prod.splits)
    note IH = 1(1) [OF n [symmetric] None t]
    from n [unfolded None] show ?thesis
    proof (cases rule: nextChunk_NoneE)
      case h: (1 header br sig n data1 br1)
      have len: "int (length data1) = n" using chunkData_Inr [OF h(4)] h(3) by simp
      then have ne: "data1 \<noteq> []" using h(3) by auto
      have sub: "sublist raw (rdData br1) \<Longrightarrow> sublist raw (rdData (crBr c))" for raw
        using readChunkLine_parts [OF h(1)] chunkData_suffix [OF h(4)]
        by (meson suffix_imp_sublist sublist_order.order.trans)
      have "0 \<le> crDeclaredLen c \<longrightarrow> crDeclaredLen c = int64 (crDecoded c + int (length data))"
        using IH d len by (auto simp: h(6) int64_add add.assoc split: if_splits)
      moreover have "\<exists>raw. sublist raw (rdData (crBr c)) \<and> DecodeExpected raw (thAlg g) = Some (cySum cy (thAlg g) (thData g @ data))"
        if "(m, g) \<in> set (crTrailerHashes c)" for m g
      proof -
        have "(m, g\<lparr>thData := thData g @ data1\<rparr>) \<in> set (crTrailerHashes c')" using that by (force simp: h(6))
        with IH obtain raw where "sublist raw (rdData (crBr c'))"
          "DecodeExpected raw (thAlg g) = Some (cySum cy (thAlg g) (thData g @ data1 @ d2))" by fastforce
        with sub d show ?thesis by (auto simp: h(6))
      qed
      ultimately show ?thesis using d ne h(6) by auto
    qed
  next
    case (Some x)
    with 1(2) n have d: "data = []" "x = EOF" by (auto simp: chunk_stream.simps [of cy c])
    from n [unfolded Some d(2)] show ?thesis
    proof (cases rule: nextChunk_EOFE)
      case h: (1 header br sig c1)
      from readChunkLine_parts [OF h(1)] have "sublist raw (rdData br) \<Longrightarrow> sublist raw (rdData (crBr c))" for raw
        by (meson suffix_imp_sublist sublist_order.order.trans)
      with finish_EOF [OF h(4)] d h show ?thesis by fastforce
    qed
  qed
qed

subsection \<open>Bounds\<close>

lemma nextChunk_bufcap:
  "nextChunk cy c = (e, c') \<Longrightarrow> crBufCap c' \<le> max (crBufCap c) maxChunkSize"
  by (auto simp: nextChunk_def finish_def Let_def split: sum.splits prod.splits if_splits dest: chunkHeader_bounds)

lemma chunk_stream_bound:
  "chunk_stream cy c = (data, e) \<Longrightarrow> 0 < crMaxPayload c \<Longrightarrow> crMaxPayload c \<le> 2 ^ 62 \<Longrightarrow>
   0 \<le> crDecoded c \<Longrightarrow> crDecoded c \<le> crMaxPayload c \<Longrightarrow> crDecoded c + int (length data) \<le> crMaxPayload c"
proof (induction cy c arbitrary: data rule: chunk_stream.induct)
  case (1 cy c)
  obtain o' c' where n: "nextChunk cy c = (o', c')" by (cases "nextChunk cy c")
  show ?case
  proof (cases o')
    case None
    obtain d2 where t: "chunk_stream cy c' = (d2, e)" and d: "data = crPending c' @ d2"
      using 1(2) n None by (auto simp: chunk_stream.simps [of cy c] split: prod.splits)
    from n [unfolded None] show ?thesis
    proof (cases rule: nextChunk_NoneE)
      case h: (1 header br sig n data1 br1)
      note b = chunkHeader_bounds [OF h(2)]
      have "int64 (crDecoded c + n) = crDecoded c + n"
        by (rule int64_id) (use b 1(4,5,6) h(3) in \<open>simp_all add: maxChunkSize_def\<close>)
      then have "crDecoded c' = crDecoded c + n" "crMaxPayload c' = crMaxPayload c" "crDecoded c + n \<le> crMaxPayload c"
        using b 1(3) h(6) by auto
      moreover have "int (length (crPending c')) = n" using chunkData_Inr [OF h(4)] h(3,6) by simp
      ultimately show ?thesis using 1(1) [OF n [symmetric] None t] 1(3-6) h(3) d by simp
    qed
  next
    case (Some x)
    with 1(2) n have "data = []" by (auto simp: chunk_stream.simps [of cy c])
    with 1(6) show ?thesis by simp
  qed
qed

lemma chunkedRead_bufcap:
  "chunkedRead cy n c = (r, c') \<Longrightarrow> crBufCap c' \<le> max (crBufCap c) maxChunkSize"
proof (induction cy n c rule: chunkedRead.induct)
  case (1 cy n c)
  obtain e c1 where x: "nextChunk cy c = (e, c1)" by (cases "nextChunk cy c")
  have "crBufCap c' \<le> max (crBufCap c1) maxChunkSize" if "crPending c = []" "crErr c = None"
    using 1(1) [OF that x [symmetric]] 1(2) that x by (simp add: chunkedRead.simps [of cy n c])
  with nextChunk_bufcap [OF x] 1(2) show ?case
    by (cases "crPending c = [] \<and> crErr c = None") (auto simp: chunkedRead.simps [of cy n c] split: option.splits if_splits)
qed

lemma reads_bufcap: "reads cy c ns = (r, c') \<Longrightarrow> crBufCap c' \<le> max (crBufCap c) maxChunkSize"
proof (induction ns arbitrary: c r)
  case Nil
  then show ?case by auto
next
  case (Cons n ns)
  obtain p e c1 where k: "chunkedRead cy n c = ((p, e), c1)" by (metis prod.exhaust)
  from Cons k chunkedRead_bufcap [OF k] show ?case by (fastforce split: option.splits prod.splits)
qed

end
