(* ===== verification/Body_Props.thy ===== *)
theory Body_Props
  imports Chunked_Props
begin

text \<open>
  What a client sends (frames, client_body) and that the decoder gives it back; then the
  theorems on request bodies: round trip, authenticity, completeness and bounds of the
  aws-chunked decoder, and the check of a body with a signed SHA-256.
\<close>

subsection \<open>The client's framing\<close>

definition chunkFrame :: "bool \<Rightarrow> string \<Rightarrow> string \<Rightarrow> string" where
  "chunkFrame sd sg d = nat_hex (length d) @ (if sd then CHR '';'' # chunkSigExt @ sg else []) @ [cr, lf]
     @ (if d = [] then [] else d @ [cr, lf])"

fun frames :: "crypto \<Rightarrow> bool \<Rightarrow> string \<Rightarrow> string \<Rightarrow> string \<Rightarrow> string \<Rightarrow> string list \<Rightarrow> string" where
  "frames cy sd key date scope prev [] = chunkFrame sd (chunkSignature cy key date scope prev []) []"
| "frames cy sd key date scope prev (d # ds) =
    (let s = chunkSignature cy key date scope prev d in
     chunkFrame sd s d @ frames cy sd key date scope (if sd then s else prev) ds)"

fun lastSig :: "crypto \<Rightarrow> bool \<Rightarrow> string \<Rightarrow> string \<Rightarrow> string \<Rightarrow> string \<Rightarrow> string list \<Rightarrow> string" where
  "lastSig cy sd key date scope prev [] = (if sd then chunkSignature cy key date scope prev [] else prev)"
| "lastSig cy sd key date scope prev (d # ds) =
    lastSig cy sd key date scope (if sd then chunkSignature cy key date scope prev d else prev) ds"

definition trailerText :: "crypto \<Rightarrow> string \<Rightarrow> string \<Rightarrow> string \<Rightarrow> string" where
  "trailerText cy data m eol = m @ CHR '':'' # b64_encode (cySum cy (the (NewChecksum m)) data) @ eol"

definition trailerTexts :: "crypto \<Rightarrow> string \<Rightarrow> string list \<Rightarrow> string \<Rightarrow> string" where
  "trailerTexts cy data ms eol = concat (map (\<lambda>m. trailerText cy data m eol) ms)"

definition client_body :: "crypto \<Rightarrow> streamingMode \<Rightarrow> string \<Rightarrow> string \<Rightarrow> string \<Rightarrow> string \<Rightarrow> string list \<Rightarrow> string list \<Rightarrow> string" where
  "client_body cy mode key date scope seed ms ds =
    frames cy (smSignedChunks mode) key date scope seed ds
    @ trailerTexts cy (concat ds) ms [cr, lf]
    @ (if smSignedChunks mode \<and> smTrailer mode
       then trailerSignatureHeader @ CHR '':'' # trailerSignature cy key date scope
              (lastSig cy (smSignedChunks mode) key date scope seed ds) (trailerTexts cy (concat ds) ms [lf]) @ [cr, lf]
       else [])
    @ [cr, lf]"

definition checksumNames :: "string list" where
  "checksumNames = [''x-amz-checksum-crc32'', ''x-amz-checksum-crc32c'', ''x-amz-checksum-crc64nvme'',
     ''x-amz-checksum-sha1'', ''x-amz-checksum-sha256'']"

subsection \<open>Lines\<close>

lemma readChunkLine_line:
  assumes "lf \<notin> set line" and "line = [] \<or> last line \<noteq> cr" and "length line \<le> 4000"
  shows "readChunkLine \<lparr>rdData = line @ cr # lf # rest, rdFails = f\<rparr> = (Inr line, \<lparr>rdData = rest, rdFails = f\<rparr>)"
proof -
  have "cr \<noteq> lf" by simp
  then have t: "takeWhile (\<lambda>c. c \<noteq> lf) (line @ cr # lf # rest) = line @ [cr]"
    using assms(1) by (simp add: takeWhile_append)
  have "TrimRight (line @ [cr]) [cr, lf] = TrimRight line [cr, lf]" by (rule TrimRight_snoc) simp
  also have "\<dots> = line"
    by (rule TrimRight_id) (use assms(1,2) in \<open>cases line rule: rev_cases, auto\<close>)
  finally have r: "TrimRight (line @ [cr]) [cr, lf] = line" .
  have "take maxChunkLineLength (line @ cr # lf # rest) = line @ [cr, lf] @ take (4094 - length line) rest"
  proof -
    have "maxChunkLineLength - length line = Suc (Suc (4094 - length line))"
      using assms(3) by (simp add: maxChunkLineLength_def)
    then show ?thesis using assms(3) by (simp add: maxChunkLineLength_def)
  qed
  then have m: "lf \<in> set (take maxChunkLineLength (line @ cr # lf # rest))" by simp
  show ?thesis unfolding readChunkLine_def Let_def reader.simps t r using m by simp
qed

lemma hex_no: "c \<notin> set hex_digits \<Longrightarrow> c \<notin> set (hex_encode s) \<and> c \<notin> set (nat_hex n)"
  using hex_encode_set [of s] nat_hex_set [of n] by blast

lemma not_hex: "lf \<notin> set hex_digits" "cr \<notin> set hex_digits" "CHR '';'' \<notin> set hex_digits" "CHR '':'' \<notin> set hex_digits"
  by code_simp+

lemma hex_not_space: "c \<in> set hex_digits \<Longrightarrow> \<not> is_space c"
proof -
  have "\<forall>c\<in>set hex_digits. \<not> is_space c" by code_simp
  then show "c \<in> set hex_digits \<Longrightarrow> \<not> is_space c" by blast
qed

lemma TrimSpace_hex: "set s \<subseteq> set hex_digits \<Longrightarrow> TrimSpace s = s"
  using hex_not_space by (intro TrimSpace_id) (meson hd_in_set last_in_set subsetD)

lemma length_b64: "length (b64_encode s) \<le> 4 * length s"
  by (induction s rule: b64_encode.induct) auto

lemma hex_last: "set s \<subseteq> set hex_digits \<Longrightarrow> s \<noteq> [] \<Longrightarrow> last s \<noteq> cr"
  by (metis last_in_set not_hex(2) subsetD)

subsection \<open>Chunks\<close>

lemma CutByte_none: "c \<notin> set s \<Longrightarrow> CutByte c s = (s, [], False)"
proof -
  assume h: "c \<notin> set s"
  then have t: "takeWhile (\<lambda>x. x \<noteq> c) s = s" "dropWhile (\<lambda>x. x \<noteq> c) s = []"
    by (auto simp: takeWhile_eq_all_conv dropWhile_eq_Nil_conv)
  show ?thesis unfolding CutByte_def t using h by simp
qed

lemma header_parse:
  assumes "int (length d) \<le> maxChunkSize" and "0 \<le> decoded" and "decoded + int (length d) < 2 ^ 63"
    and "maxPayload = 0 \<or> decoded + int (length d) \<le> maxPayload"
  shows "chunkHeader mode decoded maxPayload
      (nat_hex (length d) @ (if smSignedChunks mode then CHR '';'' # chunkSigExt @ sg else [])) =
    Inr (if smSignedChunks mode then sg else [], int (length d))"
proof -
  let ?h = "nat_hex (length d)"
  have "CHR '';'' \<notin> set ?h" using hex_no not_hex by blast
  then have k: "CutByte CHR '';'' (?h @ (if smSignedChunks mode then CHR '';'' # chunkSigExt @ sg else [])) =
      (?h, if smSignedChunks mode then chunkSigExt @ sg else [], smSignedChunks mode)"
    by (simp add: CutByte_append CutByte_none)
  have t: "TrimSpace ?h = ?h" using nat_hex_set by (intro TrimSpace_hex) blast
  have "int (length d) < 2 ^ 63" using assms(1) by (simp add: maxChunkSize_def)
  then have p: "ParseInt 16 ?h = Some (int (length d))" by (rule ParseInt_hex)
  have i: "int64 (decoded + int (length d)) = decoded + int (length d)" by (rule int64_id) (use assms(2,3) in simp_all)
  have c: "CutPrefix (chunkSigExt @ sg) chunkSigExt = Some sg" by (simp add: CutPrefix_def)
  show ?thesis
    unfolding chunkHeader_def k prod.case t p option.case i
    using assms by (cases "smSignedChunks mode") (auto simp: c)
qed

lemma frame_line:
  assumes "length sg = 64" and "length d \<le> 16777216" and that: "set sg \<subseteq> set hex_digits"
  shows "readChunkLine \<lparr>rdData = (nat_hex (length d) @ (if sd then CHR '';'' # chunkSigExt @ sg else [])) @ cr # lf # rest, rdFails = f\<rparr> =
    (Inr (nat_hex (length d) @ (if sd then CHR '';'' # chunkSigExt @ sg else [])), \<lparr>rdData = rest, rdFails = f\<rparr>)"
proof (rule readChunkLine_line)
  have "length d < 16 ^ 7" using assms(2) by simp
  then have "length (nat_hex (length d)) \<le> 7" using length_nat_hex [of "length d" 7] by simp
  then show "length (nat_hex (length d) @ (if sd then CHR '';'' # chunkSigExt @ sg else [])) \<le> 4000"
    using assms(1) by (simp add: chunkSigExt_def)
  have "lf \<notin> set chunkSigExt" by (simp add: chunkSigExt_def)
  then show "lf \<notin> set (nat_hex (length d) @ (if sd then CHR '';'' # chunkSigExt @ sg else []))"
    using that not_hex(1) hex_no by auto
  have "sg \<noteq> []" using assms(1) by auto
  then show "nat_hex (length d) @ (if sd then CHR '';'' # chunkSigExt @ sg else []) = [] \<or>
      last (nat_hex (length d) @ (if sd then CHR '';'' # chunkSigExt @ sg else [])) \<noteq> cr"
    using hex_last [OF that] hex_last [of "nat_hex (length d)"] nat_hex_set [of "length d"] by auto
qed

lemma chunkSignature_hex:
  assumes "\<And>k d. length (cyHMAC cy k d) = 32"
  shows "length (chunkSignature cy key date scope prev d) = 64" "set (chunkSignature cy key date scope prev d) \<subseteq> set hex_digits"
  using assms hex_encode_set by (simp_all add: chunkSignature_def hmacSHA256_def)

text \<open>A frame with data is a chunk accepted.\<close>

lemma nextChunk_frame:
  assumes hm: "\<And>k d. length (cyHMAC cy k d) = 32"
    and d: "d \<noteq> []" "length d \<le> 16777216" and dec: "0 \<le> crDecoded c" "crDecoded c + int (length d) < 2 ^ 63"
    and mx: "crMaxPayload c = 0 \<or> crDecoded c + int (length d) \<le> crMaxPayload c"
    and sg: "sg = chunkSignature cy (crSigningKey c) (crDateStr c) (crScope c) (crPrevSignature c) d"
    and br: "crBr c = \<lparr>rdData = chunkFrame (smSignedChunks (crMode c)) sg d @ rest, rdFails = f\<rparr>"
  shows "nextChunk cy c = (None, c\<lparr>crBr := \<lparr>rdData = rest, rdFails = f\<rparr>, crBufCap := max (crBufCap c) (int (length d)),
       crPrevSignature := (if smSignedChunks (crMode c) then sg else crPrevSignature c),
       crTrailerHashes := map (\<lambda>(m, h). (m, h\<lparr>thData := thData h @ d\<rparr>)) (crTrailerHashes c),
       crDecoded := crDecoded c + int (length d), crPending := d\<rparr>)"
proof -
  note sl = chunkSignature_hex [OF hm, where key = "crSigningKey c" and date = "crDateStr c" and scope = "crScope c"
      and prev = "crPrevSignature c" and d = d, folded sg]
  let ?h = "nat_hex (length d) @ (if smSignedChunks (crMode c) then CHR '';'' # chunkSigExt @ sg else [])"
  have b: "crBr c = \<lparr>rdData = ?h @ cr # lf # d @ cr # lf # rest, rdFails = f\<rparr>" using br d(1) by (simp add: chunkFrame_def)
  have l: "readChunkLine (crBr c) = (Inr ?h, \<lparr>rdData = d @ cr # lf # rest, rdFails = f\<rparr>)"
    unfolding b by (rule frame_line [OF sl(1) d(2) sl(2)])
  have h: "chunkHeader (crMode c) (crDecoded c) (crMaxPayload c) ?h = Inr (if smSignedChunks (crMode c) then sg else [], int (length d))"
    by (rule header_parse) (use d dec mx in \<open>simp_all add: maxChunkSize_def\<close>)
  have "readChunkLine \<lparr>rdData = [] @ cr # lf # rest, rdFails = f\<rparr> = (Inr [], \<lparr>rdData = rest, rdFails = f\<rparr>)"
    by (rule readChunkLine_line) simp_all
  then have dt: "chunkData (crMode c) (int (length d)) \<lparr>rdData = d @ cr # lf # rest, rdFails = f\<rparr> = Inr (d, \<lparr>rdData = rest, rdFails = f\<rparr>)"
    using d(1) by (simp add: chunkData_def)
  have i: "int64 (crDecoded c + int (length d)) = crDecoded c + int (length d)" by (rule int64_id) (use dec in simp_all)
  show ?thesis
    using h dt d(1) sg [symmetric]
    by (cases "smSignedChunks (crMode c)") (simp_all add: nextChunk_def Let_def l i)
qed

subsection \<open>Trailers\<close>

lemma checksum_name:
  assumes "m \<in> set checksumNames"
  shows "ToLower (TrimSpace m) = m" "NewChecksum m \<noteq> None" "CHR '':'' \<notin> set m" "CHR '','' \<notin> set m" "lf \<notin> set m"
    "length m < 100" "m \<noteq> trailerSignatureHeader" "m \<noteq> []" "\<not> is_space (hd m)"
proof -
  have "\<forall>m\<in>set checksumNames. ToLower (TrimSpace m) = m \<and> NewChecksum m \<noteq> None \<and> CHR '':'' \<notin> set m \<and> CHR '','' \<notin> set m \<and> lf \<notin> set m
      \<and> length m < 100 \<and> m \<noteq> trailerSignatureHeader \<and> m \<noteq> [] \<and> \<not> is_space (hd m)"
    by code_simp
  with assms show "ToLower (TrimSpace m) = m" "NewChecksum m \<noteq> None" "CHR '':'' \<notin> set m" "CHR '','' \<notin> set m" "lf \<notin> set m"
    "length m < 100" "m \<noteq> trailerSignatureHeader" "m \<noteq> []" "\<not> is_space (hd m)" by blast+
qed

lemma b64_set: "set (b64_encode s) \<subseteq> insert CHR ''='' (set b64_alphabet)"
  using b64_char_facts by (induction s rule: b64_encode.induct) auto

lemma b64_clean:
  assumes "c \<in> set (b64_encode s)"
  shows "\<not> is_space c \<and> c \<noteq> lf \<and> c \<noteq> cr"
proof -
  have "\<forall>c\<in>insert CHR ''='' (set b64_alphabet). \<not> is_space c \<and> c \<noteq> lf \<and> c \<noteq> cr" by code_simp
  from bspec [OF this subsetD [OF b64_set assms]] show ?thesis .
qed

lemma b64_nonempty: "s \<noteq> [] \<Longrightarrow> b64_encode s \<noteq> []"
  by (cases s rule: b64_encode.cases) auto

lemma TrimSpace_b64: "TrimSpace (b64_encode s) = b64_encode s"
  using b64_clean by (intro TrimSpace_id) (meson hd_in_set last_in_set)

lemma HashSize_bounds: "0 < HashSize a \<and> HashSize a \<le> 32"
  by (cases a) auto

text \<open>A trailer as the client writes it is recorded, unless it was sent before.\<close>

lemma trailer_step:
  assumes m: "m \<in> set checksumNames" and sz: "\<And>a d. length (cySum cy a d) = HashSize a"
    and md: "smTrailer mode" and hs: "map_of hs m \<noteq> None" and t: "trSig t = []" "trValues t m = None"
  shows "trailerSection mode hs t \<lparr>rdData = trailerText cy data m [cr, lf] @ rest, rdFails = f\<rparr> =
    trailerSection mode hs (t\<lparr>trValues := (trValues t)(m \<mapsto> b64_encode (cySum cy (the (NewChecksum m)) data)),
      trCanonical := trCanonical t @ trailerText cy data m [lf]\<rparr>) \<lparr>rdData = rest, rdFails = f\<rparr>"
proof -
  let ?s = "cySum cy (the (NewChecksum m)) data"
  let ?l = "m @ CHR '':'' # b64_encode ?s"
  note cn = checksum_name [OF m]
  have ne: "?s \<noteq> []" using sz HashSize_bounds by (metis length_0_conv less_irrefl)
  have ln: "length (b64_encode ?s) \<le> 128"
    using length_b64 [of ?s] sz HashSize_bounds [of "the (NewChecksum m)"] by simp
  have "readChunkLine \<lparr>rdData = ?l @ cr # lf # rest, rdFails = f\<rparr> = (Inr ?l, \<lparr>rdData = rest, rdFails = f\<rparr>)"
  proof (rule readChunkLine_line)
    show "lf \<notin> set ?l" using cn b64_clean by auto
    have "last ?l = last (b64_encode ?s)" using b64_nonempty [OF ne] by simp
    then show "?l = [] \<or> last ?l \<noteq> cr" using b64_clean last_in_set b64_nonempty [OF ne] by metis
    show "length ?l \<le> 4000" using ln cn by simp
  qed
  then have r: "readChunkLine \<lparr>rdData = trailerText cy data m [cr, lf] @ rest, rdFails = f\<rparr> = (Inr ?l, \<lparr>rdData = rest, rdFails = f\<rparr>)"
    by (simp add: trailerText_def)
  have "trailerLine mode hs t ?l = Inr (t\<lparr>trValues := (trValues t)(m \<mapsto> b64_encode ?s), trCanonical := trCanonical t @ trailerText cy data m [lf]\<rparr>)"
    using cn md hs t by (auto simp: trailerLine_def CutByte_append TrimSpace_b64 trailerText_def Let_def)
  with r show ?thesis by (subst trailerSection.simps) simp
qed

lemma trailers_run:
  assumes sz: "\<And>a d. length (cySum cy a d) = HashSize a" and md: "smTrailer mode"
  shows "\<forall>m\<in>set ms. m \<in> set checksumNames \<and> map_of hs m \<noteq> None \<and> trValues t m = None \<Longrightarrow> distinct ms \<Longrightarrow> trSig t = [] \<Longrightarrow>
    trailerSection mode hs t \<lparr>rdData = trailerTexts cy data ms [cr, lf] @ rest, rdFails = f\<rparr> =
    trailerSection mode hs (t\<lparr>trValues := (\<lambda>m. if m \<in> set ms then Some (b64_encode (cySum cy (the (NewChecksum m)) data)) else trValues t m),
      trCanonical := trCanonical t @ trailerTexts cy data ms [lf]\<rparr>) \<lparr>rdData = rest, rdFails = f\<rparr>"
proof (induction ms arbitrary: t)
  case Nil
  then show ?case by (simp add: trailerTexts_def)
next
  case (Cons m ms)
  let ?t = "t\<lparr>trValues := (trValues t)(m \<mapsto> b64_encode (cySum cy (the (NewChecksum m)) data)),
      trCanonical := trCanonical t @ trailerText cy data m [lf]\<rparr>"
  have "trailerSection mode hs t \<lparr>rdData = trailerText cy data m [cr, lf] @ trailerTexts cy data ms [cr, lf] @ rest, rdFails = f\<rparr> =
      trailerSection mode hs ?t \<lparr>rdData = trailerTexts cy data ms [cr, lf] @ rest, rdFails = f\<rparr>"
    by (rule trailer_step) (use Cons.prems sz md in auto)
  moreover have "trailerSection mode hs ?t \<lparr>rdData = trailerTexts cy data ms [cr, lf] @ rest, rdFails = f\<rparr> =
      trailerSection mode hs (?t\<lparr>trValues := (\<lambda>x. if x \<in> set ms then Some (b64_encode (cySum cy (the (NewChecksum x)) data)) else trValues ?t x),
      trCanonical := trCanonical ?t @ trailerTexts cy data ms [lf]\<rparr>) \<lparr>rdData = rest, rdFails = f\<rparr>"
    by (rule Cons.IH) (use Cons.prems in auto)
  moreover have "(\<lambda>x. if x \<in> set ms then Some (b64_encode (cySum cy (the (NewChecksum x)) data)) else trValues ?t x) =
      (\<lambda>x. if x \<in> set (m # ms) then Some (b64_encode (cySum cy (the (NewChecksum x)) data)) else trValues t x)"
    by auto
  ultimately show ?case by (simp add: trailerTexts_def)
qed

lemma trailer_end:
  "trailerSection mode hs t \<lparr>rdData = cr # lf # rest, rdFails = f\<rparr> = (Inr t, \<lparr>rdData = rest, rdFails = f\<rparr>)"
proof -
  have "readChunkLine \<lparr>rdData = [] @ cr # lf # rest, rdFails = f\<rparr> = (Inr [], \<lparr>rdData = rest, rdFails = f\<rparr>)"
    by (rule readChunkLine_line) simp_all
  then show ?thesis by (subst trailerSection.simps) simp
qed

lemma trailer_sig:
  assumes "set sg \<subseteq> set hex_digits" and "length sg = 64" and "trSig t = []" and "smSignedChunks mode" and "smTrailer mode"
  shows "trailerSection mode hs t \<lparr>rdData = trailerSignatureHeader @ CHR '':'' # sg @ cr # lf # cr # lf # rest, rdFails = f\<rparr> =
    (Inr (t\<lparr>trSig := sg\<rparr>), \<lparr>rdData = rest, rdFails = f\<rparr>)"
proof -
  let ?l = "trailerSignatureHeader @ CHR '':'' # sg"
  have th: "ToLower (TrimSpace trailerSignatureHeader) = trailerSignatureHeader" "CHR '':'' \<notin> set trailerSignatureHeader"
    "lf \<notin> set trailerSignatureHeader" "length trailerSignatureHeader < 100" by code_simp+
  have "sg \<noteq> []" using assms(2) by auto
  have "readChunkLine \<lparr>rdData = ?l @ cr # lf # cr # lf # rest, rdFails = f\<rparr> = (Inr ?l, \<lparr>rdData = cr # lf # rest, rdFails = f\<rparr>)"
  proof (rule readChunkLine_line)
    show "lf \<notin> set ?l" using th not_hex(1) assms(1) by auto
    show "?l = [] \<or> last ?l \<noteq> cr" using hex_last [OF assms(1) \<open>sg \<noteq> []\<close>] \<open>sg \<noteq> []\<close> by simp
    show "length ?l \<le> 4000" using th assms(2) by simp
  qed
  moreover have "trailerLine mode hs t ?l = Inr (t\<lparr>trSig := sg\<rparr>)"
    using th assms by (simp add: trailerLine_def CutByte_append TrimSpace_hex)
  ultimately show ?thesis by (subst trailerSection.simps) (simp add: trailer_end)
qed

subsection \<open>The whole body\<close>

lemma nextChunk_last:
  assumes hm: "\<And>k d. length (cyHMAC cy k d) = 32" and dec: "0 \<le> crDecoded c" "crDecoded c < 2 ^ 63"
    and mx: "crMaxPayload c = 0 \<or> crDecoded c \<le> crMaxPayload c"
    and sg: "sg = chunkSignature cy (crSigningKey c) (crDateStr c) (crScope c) (crPrevSignature c) []"
    and br: "crBr c = \<lparr>rdData = chunkFrame (smSignedChunks (crMode c)) sg [] @ rest, rdFails = f\<rparr>"
  shows "\<exists>c'. nextChunk cy c = (Some (fst (finish cy (c\<lparr>crBufCap := max (crBufCap c) 0, crBr := \<lparr>rdData = rest, rdFails = f\<rparr>,
       crPrevSignature := (if smSignedChunks (crMode c) then sg else crPrevSignature c)\<rparr>))), c')"
proof -
  note sl = chunkSignature_hex [OF hm, where key = "crSigningKey c" and date = "crDateStr c" and scope = "crScope c"
      and prev = "crPrevSignature c" and d = "[]", folded sg]
  let ?h = "nat_hex (length ([] :: string)) @ (if smSignedChunks (crMode c) then CHR '';'' # chunkSigExt @ sg else [])"
  have b: "crBr c = \<lparr>rdData = ?h @ cr # lf # rest, rdFails = f\<rparr>" using br by (simp add: chunkFrame_def)
  have l: "readChunkLine (crBr c) = (Inr ?h, \<lparr>rdData = rest, rdFails = f\<rparr>)"
    unfolding b by (rule frame_line [OF sl(1) _ sl(2)]) simp
  have h: "chunkHeader (crMode c) (crDecoded c) (crMaxPayload c) ?h = Inr (if smSignedChunks (crMode c) then sg else [], int (length ([] :: string)))"
    by (rule header_parse) (use dec mx in \<open>simp_all add: maxChunkSize_def\<close>)
  show ?thesis
    using h sg [symmetric]
    by (cases "smSignedChunks (crMode c)") (auto simp: nextChunk_def Let_def l chunkData_def split: prod.splits)
qed

lemma stream_frames:
  assumes hm: "\<And>k d. length (cyHMAC cy k d) = 32"
  shows "\<forall>d\<in>set ds. d \<noteq> [] \<and> length d \<le> 16777216 \<Longrightarrow> 0 \<le> crDecoded c \<Longrightarrow>
    crDecoded c + int (length (concat ds)) < 2 ^ 63 \<Longrightarrow>
    crMaxPayload c = 0 \<or> crDecoded c + int (length (concat ds)) \<le> crMaxPayload c \<Longrightarrow>
    crBr c = \<lparr>rdData = frames cy (smSignedChunks (crMode c)) (crSigningKey c) (crDateStr c) (crScope c) (crPrevSignature c) ds @ rest, rdFails = f\<rparr> \<Longrightarrow>
    \<exists>c1. chunk_stream cy c = (concat ds, fst (finish cy c1)) \<and> crBr c1 = \<lparr>rdData = rest, rdFails = f\<rparr> \<and> crMode c1 = crMode c
      \<and> crSigningKey c1 = crSigningKey c \<and> crDateStr c1 = crDateStr c \<and> crScope c1 = crScope c \<and> crDeclaredLen c1 = crDeclaredLen c
      \<and> crPrevSignature c1 = lastSig cy (smSignedChunks (crMode c)) (crSigningKey c) (crDateStr c) (crScope c) (crPrevSignature c) ds
      \<and> crTrailerHashes c1 = map (\<lambda>(m, h). (m, h\<lparr>thData := thData h @ concat ds\<rparr>)) (crTrailerHashes c)
      \<and> crDecoded c1 = crDecoded c + int (length (concat ds))"
proof (induction ds arbitrary: c)
  case Nil
  let ?sg = "chunkSignature cy (crSigningKey c) (crDateStr c) (crScope c) (crPrevSignature c) []"
  let ?c1 = "c\<lparr>crBufCap := max (crBufCap c) 0, crBr := \<lparr>rdData = rest, rdFails = f\<rparr>,
       crPrevSignature := (if smSignedChunks (crMode c) then ?sg else crPrevSignature c)\<rparr>"
  obtain c' where "nextChunk cy c = (Some (fst (finish cy ?c1)), c')"
    using nextChunk_last [OF hm _ _ _ refl, where c = c and rest = rest and f = f] Nil by auto
  then have "chunk_stream cy c = (concat [], fst (finish cy ?c1))" by (subst chunk_stream.simps) simp
  then show ?case by (intro exI [of _ ?c1]) simp
next
  case (Cons d ds)
  let ?sg = "chunkSignature cy (crSigningKey c) (crDateStr c) (crScope c) (crPrevSignature c) d"
  let ?r = "frames cy (smSignedChunks (crMode c)) (crSigningKey c) (crDateStr c) (crScope c)
      (if smSignedChunks (crMode c) then ?sg else crPrevSignature c) ds @ rest"
  let ?c' = "c\<lparr>crBr := \<lparr>rdData = ?r, rdFails = f\<rparr>, crBufCap := max (crBufCap c) (int (length d)),
       crPrevSignature := (if smSignedChunks (crMode c) then ?sg else crPrevSignature c),
       crTrailerHashes := map (\<lambda>(m, h). (m, h\<lparr>thData := thData h @ d\<rparr>)) (crTrailerHashes c),
       crDecoded := crDecoded c + int (length d), crPending := d\<rparr>"
  have n: "nextChunk cy c = (None, ?c')"
    by (rule nextChunk_frame [OF hm]) (use Cons.prems in \<open>auto simp: Let_def\<close>)
  have "\<exists>c1. chunk_stream cy ?c' = (concat ds, fst (finish cy c1)) \<and> crBr c1 = \<lparr>rdData = rest, rdFails = f\<rparr> \<and> crMode c1 = crMode ?c'
      \<and> crSigningKey c1 = crSigningKey ?c' \<and> crDateStr c1 = crDateStr ?c' \<and> crScope c1 = crScope ?c' \<and> crDeclaredLen c1 = crDeclaredLen ?c'
      \<and> crPrevSignature c1 = lastSig cy (smSignedChunks (crMode ?c')) (crSigningKey ?c') (crDateStr ?c') (crScope ?c') (crPrevSignature ?c') ds
      \<and> crTrailerHashes c1 = map (\<lambda>(m, h). (m, h\<lparr>thData := thData h @ concat ds\<rparr>)) (crTrailerHashes ?c')
      \<and> crDecoded c1 = crDecoded ?c' + int (length (concat ds))"
    by (rule Cons.IH) (use Cons.prems in auto)
  then obtain c1 where c1: "chunk_stream cy ?c' = (concat ds, fst (finish cy c1))" "crBr c1 = \<lparr>rdData = rest, rdFails = f\<rparr>" "crMode c1 = crMode c"
      "crSigningKey c1 = crSigningKey c" "crDateStr c1 = crDateStr c" "crScope c1 = crScope c" "crDeclaredLen c1 = crDeclaredLen c"
      "crPrevSignature c1 = lastSig cy (smSignedChunks (crMode c)) (crSigningKey c) (crDateStr c) (crScope c) (crPrevSignature ?c') ds"
      "crTrailerHashes c1 = map (\<lambda>(m, h). (m, h\<lparr>thData := thData h @ concat ds\<rparr>)) (crTrailerHashes ?c')"
      "crDecoded c1 = crDecoded ?c' + int (length (concat ds))" by auto
  have "chunk_stream cy c = (concat (d # ds), fst (finish cy c1))"
    using n c1(1) by (subst chunk_stream.simps) simp
  with c1 show ?case by (intro exI [of _ c1]) (auto simp: case_prod_unfold)
qed

lemma finish_client:
  assumes hm: "\<And>k d. length (cyHMAC cy k d) = 32" and sz: "\<And>a d. length (cySum cy a d) = HashSize a"
    and ms: "set ms \<subseteq> set checksumNames" "distinct ms" "smTrailer (crMode c) \<or> ms = []"
    and hs: "crTrailerHashes c = map (\<lambda>m. (m, \<lparr>thAlg = the (NewChecksum m), thData = data\<rparr>)) ms"
    and ln: "crDeclaredLen c = - 1 \<or> crDeclaredLen c = crDecoded c"
    and br: "crBr c = \<lparr>rdData = trailerTexts cy data ms [cr, lf]
      @ (if smSignedChunks (crMode c) \<and> smTrailer (crMode c)
         then trailerSignatureHeader @ CHR '':'' # trailerSignature cy (crSigningKey c) (crDateStr c) (crScope c) (crPrevSignature c)
             (trailerTexts cy data ms [lf]) @ [cr, lf] else []) @ cr # lf # rest, rdFails = f\<rparr>"
  shows "fst (finish cy c) = EOF"
proof -
  let ?sd = "smSignedChunks (crMode c) \<and> smTrailer (crMode c)"
  let ?sg = "trailerSignature cy (crSigningKey c) (crDateStr c) (crScope c) (crPrevSignature c) (trailerTexts cy data ms [lf])"
  let ?vs = "\<lambda>m. if m \<in> set ms then Some (b64_encode (cySum cy (the (NewChecksum m)) data)) else None"
  let ?t = "\<lparr>trValues = ?vs, trCanonical = trailerTexts cy data ms [lf], trSig = []\<rparr>"
  have mo: "map_of (crTrailerHashes c) m \<noteq> None" if "m \<in> set ms" for m
    using that unfolding hs by (simp add: map_of_eq_None_iff image_image)
  have run: "trailerSection (crMode c) (crTrailerHashes c) emptyTrailers \<lparr>rdData = trailerTexts cy data ms [cr, lf] @ z, rdFails = f\<rparr> =
      trailerSection (crMode c) (crTrailerHashes c) ?t \<lparr>rdData = z, rdFails = f\<rparr>" for z
  proof (cases "ms = []")
    case True
    then show ?thesis by (simp add: trailerTexts_def emptyTrailers_def)
  next
    case False
    with ms(3) have "smTrailer (crMode c)" by simp
    moreover have "\<forall>m\<in>set ms. m \<in> set checksumNames \<and> map_of (crTrailerHashes c) m \<noteq> None \<and> trValues emptyTrailers m = None"
      using ms(1) mo by (auto simp: emptyTrailers_def)
    ultimately show ?thesis
      using trailers_run [OF sz, of "crMode c" ms "crTrailerHashes c" emptyTrailers data z f] ms(2)
      by (simp add: emptyTrailers_def cong: if_cong)
  qed
  have sl: "set ?sg \<subseteq> set hex_digits" "length ?sg = 64"
    using hm hex_encode_set by (simp_all add: trailerSignature_def hmacSHA256_def)
  have e: "trailerSection (crMode c) (crTrailerHashes c) emptyTrailers (crBr c) =
      (Inr (?t\<lparr>trSig := (if ?sd then ?sg else [])\<rparr>), \<lparr>rdData = rest, rdFails = f\<rparr>)"
  proof (cases ?sd)
    case True
    then have "trailerSection (crMode c) (crTrailerHashes c) emptyTrailers (crBr c) =
        trailerSection (crMode c) (crTrailerHashes c) ?t \<lparr>rdData = trailerSignatureHeader @ CHR '':'' # ?sg @ cr # lf # cr # lf # rest, rdFails = f\<rparr>"
      unfolding br using run by simp
    also have "\<dots> = (Inr (?t\<lparr>trSig := ?sg\<rparr>), \<lparr>rdData = rest, rdFails = f\<rparr>)"
      by (rule trailer_sig) (use sl True in simp_all)
    finally show ?thesis using True by simp
  next
    case False
    then have "trailerSection (crMode c) (crTrailerHashes c) emptyTrailers (crBr c) =
        trailerSection (crMode c) (crTrailerHashes c) ?t \<lparr>rdData = cr # lf # rest, rdFails = f\<rparr>"
      unfolding br using run by auto
    with False show ?thesis by (auto simp: trailer_end)
  qed
  have k: "checkTrailers cy ?vs (map (\<lambda>m. (m, \<lparr>thAlg = the (NewChecksum m), thData = data\<rparr>)) xs) = None"
    if "set xs \<subseteq> set ms" for xs
    using that by (induction xs) (simp_all add: DecodeExpected_def b64_decode_encode sz)
  show ?thesis
    unfolding finish_def e using k [of ms] ln hs by (auto simp: Let_def)
qed

subsection \<open>Declared trailers and length\<close>

definition fresh_hash :: "string \<Rightarrow> string \<times> trailer_hash" where
  "fresh_hash m = (m, \<lparr>thAlg = the (NewChecksum m), thData = []\<rparr>)"

lemma declaredTrailers_names:
  "set ms \<subseteq> set checksumNames \<Longrightarrow> distinct (map fst hs @ ms) \<Longrightarrow> declaredTrailers ms hs = Inr (hs @ map fresh_hash ms)"
proof (induction ms arbitrary: hs)
  case Nil
  then show ?case by simp
next
  case (Cons m ms)
  have u: "AList.update m v hs = hs @ [(m, v)]" if "m \<notin> set (map fst hs)" for v
    using that by (induction hs) auto
  obtain a where a: "NewChecksum m = Some a" using checksum_name(2) Cons.prems(1) by fastforce
  have "declaredTrailers ms (hs @ [(m, \<lparr>thAlg = a, thData = []\<rparr>)]) = Inr ((hs @ [(m, \<lparr>thAlg = a, thData = []\<rparr>)]) @ map fresh_hash ms)"
    by (rule Cons.IH) (use Cons.prems in auto)
  with a u Cons.prems checksum_name(1) show ?case by (auto simp: fresh_hash_def)
qed

lemma declared_names:
  assumes "set ms \<subseteq> set checksumNames" and "distinct ms"
  shows "declaredChecksumTrailers (JoinByte CHR '','' ms) = Inr (map fresh_hash ms)"
proof (cases ms)
  case Nil
  then show ?thesis by (simp add: declaredChecksumTrailers_def TrimSpace_def)
next
  case (Cons m ms')
  have "hd (JoinByte CHR '','' ms) = hd m" "JoinByte CHR '','' ms \<noteq> []"
    using checksum_name(8) [of m] assms(1) Cons by (cases ms'; cases m; simp)+
  moreover have "\<not> is_space (hd m)" using checksum_name(9) assms(1) Cons by simp
  ultimately have "TrimSpace (JoinByte CHR '','' ms) \<noteq> []"
    by (cases "JoinByte CHR '','' ms") (auto simp: TrimSpace_def)
  moreover have "SplitByte CHR '','' (JoinByte CHR '','' ms) = ms"
    by (rule Split_Join) (use Cons assms(1) checksum_name(4) in auto)
  ultimately show ?thesis using declaredTrailers_names [of ms "[]"] assms by (simp add: declaredChecksumTrailers_def)
qed

lemma declaredTrailers_inv:
  "declaredTrailers ns hs = Inr hs' \<Longrightarrow> (\<forall>(m, h)\<in>set hs. NewChecksum m = Some (thAlg h) \<and> thData h = []) \<Longrightarrow>
   (\<forall>(m, h)\<in>set hs'. NewChecksum m = Some (thAlg h) \<and> thData h = []) \<and>
   (\<forall>m\<in>fst ` set hs \<union> (\<lambda>n. ToLower (TrimSpace n)) ` set ns. m \<in> fst ` set hs')"
proof (induction ns hs rule: declaredTrailers.induct)
  case (1 hs)
  then show ?case by auto
next
  case (2 n ns hs)
  let ?m = "ToLower (TrimSpace n)"
  obtain a where a: "NewChecksum ?m = Some a" "declaredTrailers ns (AList.update ?m \<lparr>thAlg = a, thData = []\<rparr> hs) = Inr hs'"
    using 2(2) by (auto simp: Let_def split: option.splits)
  have "set (AList.update ?m v hs) \<subseteq> insert (?m, v) (set hs)" for v by (induction hs) auto
  then have i: "\<forall>(m, h)\<in>set (AList.update ?m \<lparr>thAlg = a, thData = []\<rparr> hs). NewChecksum m = Some (thAlg h) \<and> thData h = []"
    using 2(3) a(1) by fastforce
  have k: "fst ` set (AList.update ?m v hs) = insert ?m (fst ` set hs)" for v by (induction hs) auto
  from 2(1) [OF refl a(1) a(2) i] show ?case by (auto simp: k)
qed

lemma decode_fields:
  assumes "decodeStreamingPayload mode key date scope seed mx tr dl body = Inr c"
  shows "crBr c = body \<and> crMode c = mode \<and> crSigningKey c = key \<and> crDateStr c = date \<and> crScope c = scope \<and>
    crPrevSignature c = seed \<and> crMaxPayload c = mx \<and> crBufCap c = 0 \<and> crPending c = [] \<and> crDecoded c = 0 \<and> crErr c = None \<and>
    (if dl = [] then crDeclaredLen c = - 1 else ParseInt 10 dl = Some (crDeclaredLen c) \<and> 0 \<le> crDeclaredLen c) \<and>
    (if smTrailer mode then declaredChecksumTrailers tr = Inr (crTrailerHashes c) else crTrailerHashes c = [])"
  using assms by (auto simp: decodeStreamingPayload_def bindE_Inr_iff split: if_splits option.splits)

lemma to_come_fresh:
  assumes "decodeStreamingPayload mode key date scope seed mx tr dl body = Inr c"
  shows "to_come cy c = chunk_stream cy c"
  using decode_fields [OF assms] by (simp add: to_come_def)

lemma reads_fresh:
  assumes "decodeStreamingPayload mode key date scope seed mx tr dl body = Inr c" and "reads cy c ns = ((d, e), c')"
  obtains data x where "chunk_stream cy c = (data, x)" "prefix d data" "e \<noteq> None \<Longrightarrow> d = data \<and> e = Some x"
proof -
  obtain data x where s: "chunk_stream cy c = (data, x)" by (cases "chunk_stream cy c")
  with reads_to_come [OF assms(2)] to_come_fresh [OF assms(1), of cy] show thesis
    by (intro that [OF s]) (auto split: option.splits simp: prefix_def)
qed

lemma chunked_round:
  assumes hm: "\<And>k d. length (cyHMAC cy k d) = 32" and sz: "\<And>a d. length (cySum cy a d) = HashSize a"
    and ds: "\<forall>d\<in>set ds. d \<noteq> [] \<and> length d \<le> 16777216" and ln: "int (length (concat ds)) < 2 ^ 63"
    and mx: "mx = 0 \<or> int (length (concat ds)) \<le> mx"
    and ms: "set ms \<subseteq> set checksumNames" "distinct ms" "smTrailer mode \<or> ms = []"
    and dl: "dl = [] \<or> dl = Itoa (int (length (concat ds)))"
  shows "\<exists>c. decodeStreamingPayload mode key date scope seed mx (JoinByte CHR '','' ms) dl
      \<lparr>rdData = client_body cy mode key date scope seed ms ds @ rest, rdFails = f\<rparr> = Inr c \<and> chunk_stream cy c = (concat ds, EOF)"
proof -
  let ?n = "int (length (concat ds))"
  have p: "ParseInt 10 (Itoa ?n) = Some ?n" "Itoa ?n \<noteq> []"
    using ParseInt_dec [OF ln] nat_dec_digits [of "length (concat ds)"] by (simp_all add: Itoa_def)
  let ?tail = "trailerTexts cy (concat ds) ms [cr, lf]
    @ (if smSignedChunks mode \<and> smTrailer mode
       then trailerSignatureHeader @ CHR '':'' # trailerSignature cy key date scope
              (lastSig cy (smSignedChunks mode) key date scope seed ds) (trailerTexts cy (concat ds) ms [lf]) @ [cr, lf]
       else []) @ cr # lf # rest"
  let ?c = "\<lparr>crBr = \<lparr>rdData = client_body cy mode key date scope seed ms ds @ rest, rdFails = f\<rparr>, crMode = mode, crSigningKey = key,
      crDateStr = date, crScope = scope, crPrevSignature = seed, crTrailerHashes = map fresh_hash ms,
      crDeclaredLen = (if dl = [] then - 1 else ?n), crMaxPayload = mx, crBufCap = 0, crPending = [], crDecoded = 0, crErr = None\<rparr>"
  have "decodeStreamingPayload mode key date scope seed mx (JoinByte CHR '','' ms) dl (crBr ?c) = Inr ?c"
    using dl p mx ms declared_names by (auto simp: decodeStreamingPayload_def)
  moreover have "\<exists>c1. chunk_stream cy ?c = (concat ds, fst (finish cy c1)) \<and> crBr c1 = \<lparr>rdData = ?tail, rdFails = f\<rparr> \<and> crMode c1 = crMode ?c
      \<and> crSigningKey c1 = crSigningKey ?c \<and> crDateStr c1 = crDateStr ?c \<and> crScope c1 = crScope ?c \<and> crDeclaredLen c1 = crDeclaredLen ?c
      \<and> crPrevSignature c1 = lastSig cy (smSignedChunks (crMode ?c)) (crSigningKey ?c) (crDateStr ?c) (crScope ?c) (crPrevSignature ?c) ds
      \<and> crTrailerHashes c1 = map (\<lambda>(m, h). (m, h\<lparr>thData := thData h @ concat ds\<rparr>)) (crTrailerHashes ?c)
      \<and> crDecoded c1 = crDecoded ?c + int (length (concat ds))"
    by (rule stream_frames [OF hm]) (use ds ln mx in \<open>simp_all add: client_body_def\<close>)
  then obtain c1 where c1: "chunk_stream cy ?c = (concat ds, fst (finish cy c1))" "crBr c1 = \<lparr>rdData = ?tail, rdFails = f\<rparr>"
    "crMode c1 = mode" "crSigningKey c1 = key" "crDateStr c1 = date" "crScope c1 = scope" "crDeclaredLen c1 = (if dl = [] then - 1 else ?n)"
    "crPrevSignature c1 = lastSig cy (smSignedChunks mode) key date scope seed ds"
    "crTrailerHashes c1 = map (\<lambda>(m, h). (m, h\<lparr>thData := thData h @ concat ds\<rparr>)) (map fresh_hash ms)" "crDecoded c1 = ?n"
    by auto
  have "fst (finish cy c1) = EOF"
    by (rule finish_client [OF hm sz ms(1,2), where data = "concat ds" and rest = rest and f = f])
      (use c1 ms(3) in \<open>simp_all add: fresh_hash_def\<close>)
  ultimately show ?thesis using c1(1) by (intro exI [of _ ?c]) simp
qed

subsection \<open>Theorems\<close>

definition ex_crypto :: crypto where
  "ex_crypto = \<lparr>cySum = (\<lambda>a d. take (HashSize a) (d @ replicate 32 CHR ''s'')), cyHMAC = (\<lambda>k d. take 32 (rev d @ replicate 32 CHR ''m''))\<rparr>"

definition ex_mode :: streamingMode where
  "ex_mode = \<lparr>smSignedChunks = True, smTrailer = True\<rparr>"

definition ex_body :: reader where
  "ex_body = \<lparr>rdData = client_body ex_crypto ex_mode ''key'' ''date'' ''scope'' ''seed'' [''x-amz-checksum-crc32''] [''hello '', ''world''], rdFails = False\<rparr>"

lemma ex_crypto_sizes: "length (cyHMAC ex_crypto k d) = 32" "length (cySum ex_crypto a d) = HashSize a"
  using HashSize_bounds [of a] by (auto simp: ex_crypto_def)

lemma ex_names: "set [''x-amz-checksum-crc32''] \<subseteq> set checksumNames" "distinct [''x-amz-checksum-crc32'']"
  by (simp_all add: checksumNames_def)

lemma ex_stream:
  obtains c where "decodeStreamingPayload ex_mode ''key'' ''date'' ''scope'' ''seed'' 100 ''x-amz-checksum-crc32'' ''11'' ex_body = Inr c"
    "chunk_stream ex_crypto c = (''hello world'', EOF)"
proof -
  have d: "\<forall>d\<in>set [''hello '', ''world'']. d \<noteq> [] \<and> length d \<le> 16777216" "int (length (concat [''hello '', ''world''])) < 2 ^ 63"
    "(100 :: int) = 0 \<or> int (length (concat [''hello '', ''world''])) \<le> 100" "smTrailer ex_mode \<or> [''x-amz-checksum-crc32''] = []"
    by (simp_all add: ex_mode_def)
  have n: "''11'' = [] \<or> ''11'' = Itoa (int (length (concat [''hello '', ''world''])))" by code_simp
  from chunked_round [OF ex_crypto_sizes d(1-3) ex_names d(4) n, of "''key''" "''date''" "''scope''" "''seed''" "[]" False]
  show thesis using that by (auto simp: ex_body_def)
qed

lemma ex_reads:
  assumes "decodeStreamingPayload ex_mode ''key'' ''date'' ''scope'' ''seed'' 100 ''x-amz-checksum-crc32'' ''11'' ex_body = Inr c"
    and "chunk_stream ex_crypto c = (''hello world'', EOF)"
  obtains c' where "reads ex_crypto c (replicate 20 4) = ((''hello world'', Some EOF), c')"
proof -
  have "fst (reads ex_crypto c (replicate 20 4)) = (fst (to_come ex_crypto c), Some (snd (to_come ex_crypto c)))"
    by (rule reads_enough) (simp_all add: to_come_fresh [OF assms(1)] assms(2))
  then show thesis using that by (cases "reads ex_crypto c (replicate 20 4)") (simp add: to_come_fresh [OF assms(1)] assms(2))
qed

text \<open>C23: what a client frames as an aws-chunked body, in any of the three modes, signed
  or not, with or without checksum trailers, is accepted and decodes to exactly the bytes
  of its chunks, whatever the sizes of the Reads: enough Reads of at least one byte return
  all of them and end in io.EOF.\<close>

theorem chunked_body_roundtrip:
  assumes "\<And>k d. length (cyHMAC cy k d) = 32" and "\<And>a d. length (cySum cy a d) = HashSize a"
    and "\<forall>d\<in>set ds. d \<noteq> [] \<and> length d \<le> 16777216" and "int (length (concat ds)) < 2 ^ 63"
    and "mx = 0 \<or> int (length (concat ds)) \<le> mx"
    and "set ms \<subseteq> set checksumNames" and "distinct ms" and "smTrailer mode \<or> ms = []"
    and "dl = [] \<or> dl = Itoa (int (length (concat ds)))"
    and "\<forall>n\<in>set ns. 0 < n" and "length (concat ds) < length ns"
  shows "\<exists>c. decodeStreamingPayload mode key date scope seed mx (JoinByte CHR '','' ms) dl
      \<lparr>rdData = client_body cy mode key date scope seed ms ds @ rest, rdFails = f\<rparr> = Inr c \<and>
    fst (reads cy c ns) = (concat ds, Some EOF)"
proof -
  obtain c where c: "decodeStreamingPayload mode key date scope seed mx (JoinByte CHR '','' ms) dl
      \<lparr>rdData = client_body cy mode key date scope seed ms ds @ rest, rdFails = f\<rparr> = Inr c" "chunk_stream cy c = (concat ds, EOF)"
    using chunked_round [OF assms(1-9)] by blast
  have "fst (reads cy c ns) = (fst (to_come cy c), Some (snd (to_come cy c)))"
    by (rule reads_enough [OF assms(10)]) (simp add: to_come_fresh [OF c(1)] c(2) assms(11) del: length_concat)
  with c show ?thesis by (simp add: to_come_fresh [OF c(1)])
qed

theorem chunked_body_roundtrip_witness:
  "\<exists>c. decodeStreamingPayload ex_mode ''key'' ''date'' ''scope'' ''seed'' 100 (JoinByte CHR '','' [''x-amz-checksum-crc32'']) ''11''
      \<lparr>rdData = client_body ex_crypto ex_mode ''key'' ''date'' ''scope'' ''seed'' [''x-amz-checksum-crc32''] [''hello '', ''world''] @ [], rdFails = False\<rparr> = Inr c \<and>
    fst (reads ex_crypto c (replicate 20 4)) = (concat [''hello '', ''world''], Some EOF)"
proof (rule chunked_body_roundtrip [OF ex_crypto_sizes _ _ _ ex_names])
  show "''11'' = [] \<or> ''11'' = Itoa (int (length (concat [''hello '', ''world''])))" by code_simp
qed (simp_all add: ex_mode_def)

text \<open>C16: in the signed modes no byte is handed out that was not signed: whatever the body
  is and however it is read, the bytes handed out are a prefix of chunks whose signatures,
  each chained by HMAC from the one before and the first from the request's own signature,
  are all stated in the body; and the stream ends cleanly only if the signature of the empty
  last chunk is stated too.\<close>

theorem chunked_body_authentic:
  assumes "decodeStreamingPayload mode key date scope seed mx tr dl body = Inr c" and "smSignedChunks mode"
    and "reads cy c ns = ((d, e), c')"
  shows "\<exists>ds. prefix d (concat ds) \<and> (e = Some EOF \<longrightarrow> d = concat ds) \<and>
    (\<forall>s\<in>set (chain_sigs cy key date scope seed (if e = Some EOF then ds @ [[]] else ds)). presented (rdData body) s)"
proof -
  note f = decode_fields [OF assms(1)]
  obtain data x where s: "chunk_stream cy c = (data, x)" "prefix d data" "e \<noteq> None \<Longrightarrow> d = data \<and> e = Some x"
    using reads_fresh [OF assms(1,3)] by blast
  from chunk_stream_signed [OF s(1)] f assms(2) obtain ds where ds: "data = concat ds"
    "\<forall>s\<in>set (chain_sigs cy key date scope seed (if x = EOF then ds @ [[]] else ds)). presented (rdData body) s" by auto
  have sub: "set (chain_sigs cy key date scope p ds) \<subseteq> set (chain_sigs cy key date scope p (ds @ [[]]))" for p
    by (induction ds arbitrary: p) (auto simp: Let_def)
  show ?thesis
  proof (cases "e = Some EOF")
    case True
    with s(3) have "d = data" "x = EOF" by auto
    with True ds s(2) show ?thesis by (intro exI [of _ ds]) simp
  next
    case False
    with ds sub [of seed] s(2) show ?thesis by (intro exI [of _ ds]) (auto split: if_splits)
  qed
qed

theorem chunked_body_authentic_witness:
  "\<exists>ds. concat ds = ''hello world'' \<and> (\<forall>s\<in>set (chain_sigs ex_crypto ''key'' ''date'' ''scope'' ''seed'' (ds @ [[]])). presented (rdData ex_body) s)"
proof -
  obtain c where c: "decodeStreamingPayload ex_mode ''key'' ''date'' ''scope'' ''seed'' 100 ''x-amz-checksum-crc32'' ''11'' ex_body = Inr c"
    "chunk_stream ex_crypto c = (''hello world'', EOF)" by (rule ex_stream)
  obtain c' where "reads ex_crypto c (replicate 20 4) = ((''hello world'', Some EOF), c')" by (rule ex_reads [OF c])
  from chunked_body_authentic [OF c(1) _ this] show ?thesis by (auto simp: ex_mode_def)
qed

text \<open>C29: when the stream ends cleanly the body was whole: its length is the one
  x-amz-decoded-content-length declared, and for every checksum X-Amz-Trailer declared the
  body carries a value which decodes to that checksum of exactly the bytes handed out.\<close>

theorem chunked_body_complete:
  assumes "decodeStreamingPayload mode key date scope seed mx tr dl body = Inr c"
    and "reads cy c ns = ((d, Some EOF), c')" and "int (length d) < 2 ^ 63"
  shows "(dl \<noteq> [] \<longrightarrow> ParseInt 10 dl = Some (int (length d))) \<and>
    (smTrailer mode \<and> TrimSpace tr \<noteq> [] \<longrightarrow> (\<forall>n\<in>set (SplitByte CHR '','' tr). \<exists>a raw.
       NewChecksum (ToLower (TrimSpace n)) = Some a \<and> Contains (rdData body) raw \<and> DecodeExpected raw a = Some (cySum cy a d)))"
proof -
  note f = decode_fields [OF assms(1)]
  from reads_fresh [OF assms(1,2)] have s: "chunk_stream cy c = (d, EOF)" by fastforce
  note k = chunk_stream_complete [OF s]
  have i: "int64 (int (length d)) = int (length d)" by (rule int64_id) (use assms(3) in simp_all)
  have "dl \<noteq> [] \<longrightarrow> ParseInt 10 dl = Some (int (length d))" using f k i by (auto split: if_splits)
  moreover have "\<exists>a raw. NewChecksum (ToLower (TrimSpace n)) = Some a \<and> Contains (rdData body) raw \<and> DecodeExpected raw a = Some (cySum cy a d)"
    if h: "smTrailer mode" "TrimSpace tr \<noteq> []" and n: "n \<in> set (SplitByte CHR '','' tr)" for n
  proof -
    from f h have "declaredTrailers (SplitByte CHR '','' tr) [] = Inr (crTrailerHashes c)"
      by (simp add: declaredChecksumTrailers_def)
    note v = declaredTrailers_inv [OF this]
    then obtain g where g: "(ToLower (TrimSpace n), g) \<in> set (crTrailerHashes c)" using n by force
    with v have "NewChecksum (ToLower (TrimSpace n)) = Some (thAlg g)" "thData g = []" by auto
    with k g f show ?thesis by fastforce
  qed
  ultimately show ?thesis by blast
qed

theorem chunked_body_complete_witness:
  "\<exists>raw. Contains (rdData ex_body) raw \<and> DecodeExpected raw CRC32 = Some (cySum ex_crypto CRC32 ''hello world'')"
proof -
  obtain c where c: "decodeStreamingPayload ex_mode ''key'' ''date'' ''scope'' ''seed'' 100 ''x-amz-checksum-crc32'' ''11'' ex_body = Inr c"
    "chunk_stream ex_crypto c = (''hello world'', EOF)" by (rule ex_stream)
  obtain c' where r: "reads ex_crypto c (replicate 20 4) = ((''hello world'', Some EOF), c')" by (rule ex_reads [OF c])
  have m: "smTrailer ex_mode" by (simp add: ex_mode_def)
  have n: "TrimSpace ''x-amz-checksum-crc32'' \<noteq> []" "''x-amz-checksum-crc32'' \<in> set (SplitByte CHR '','' ''x-amz-checksum-crc32'')"
    "NewChecksum (ToLower (TrimSpace ''x-amz-checksum-crc32'')) = Some CRC32" by code_simp+
  from chunked_body_complete [OF c(1) r] m n show ?thesis by fastforce
qed

text \<open>C30: a decoder never buffers more than 16 MiB, whatever size a chunk header declares,
  and never hands out more bytes than the payload limit.\<close>

theorem chunked_reader_bounded:
  assumes "decodeStreamingPayload mode key date scope seed mx tr dl body = Inr c" and "reads cy c ns = ((d, e), c')"
  shows "crBufCap c' \<le> 16777216 \<and> (0 < mx \<and> mx \<le> 2 ^ 62 \<longrightarrow> int (length d) \<le> mx)"
proof
  note f = decode_fields [OF assms(1)]
  show "crBufCap c' \<le> 16777216" using reads_bufcap [OF assms(2)] f by (simp add: maxChunkSize_def)
  obtain data x where s: "chunk_stream cy c = (data, x)" "prefix d data" using reads_fresh [OF assms] by metis
  show "0 < mx \<and> mx \<le> 2 ^ 62 \<longrightarrow> int (length d) \<le> mx"
    using chunk_stream_bound [OF s(1)] f prefix_length_le [OF s(2)] by auto
qed

theorem chunked_reader_bounded_witness:
  "\<exists>c. decodeStreamingPayload ex_mode ''key'' ''date'' ''scope'' ''seed'' 100 ''x-amz-checksum-crc32'' ''11'' ex_body = Inr c \<and>
    crBufCap (snd (reads ex_crypto c [3, 100])) \<le> 16777216 \<and> length (fst (fst (reads ex_crypto c [3, 100]))) \<le> 100"
proof -
  obtain c where c: "decodeStreamingPayload ex_mode ''key'' ''date'' ''scope'' ''seed'' 100 ''x-amz-checksum-crc32'' ''11'' ex_body = Inr c"
    by (rule ex_stream)
  obtain d e c' where r: "reads ex_crypto c [3, 100] = ((d, e), c')" by (metis prod.exhaust)
  from chunked_reader_bounded [OF c r] c r show ?thesis by auto
qed

subsection \<open>A signed payload\<close>

text \<open>A body read through the verifying and the capped reader.\<close>

lemma deferred_drain:
  "drain (deferredRead cy) (cap, v) rs = (d, Some EOF) \<Longrightarrow> \<forall>r\<in>set rs. int (length (fst r)) < 2 ^ 62 \<Longrightarrow>
   vrMismatch v \<noteq> EOF \<Longrightarrow> (case cap of None \<Rightarrow> True | Some n \<Rightarrow> 0 \<le> n \<and> n < 2 ^ 63) \<Longrightarrow>
   cySum cy (vrAlg v) (vrHashed v @ d) = vrWant v \<and> (case cap of None \<Rightarrow> True | Some n \<Rightarrow> int (length d) \<le> n)"
proof (induction rs arbitrary: cap v d)
  case Nil
  then show ?case by simp
next
  case (Cons r rs)
  obtain p e where r: "r = (p, e)" by (cases r)
  have "int (length p) < 2 ^ 62" using Cons.prems(2) r by simp
  then have i: "int64 (n - int (length p)) = n - int (length p)" if "cap = Some n" for n
    using Cons.prems(4) that by (intro int64_id) auto
  have nc: "\<not> n < int (length p)" if "cap = Some n" for n
    using Cons.prems(1) that i by (auto simp: r deferredRead_def cappedRead_def verifyingRead_def entityTooLarge_def split: if_splits prod.splits option.splits)
  let ?cap = "map_option (\<lambda>n. n - int (length p)) cap"
  let ?v = "v\<lparr>vrHashed := vrHashed v @ p\<rparr>"
  have st: "deferredRead cy (cap, v) r = ((p, if e = Some EOF \<and> cySum cy (vrAlg v) (vrHashed v @ p) \<noteq> vrWant v then Some (vrMismatch v) else e), ?cap, ?v)"
    using i nc by (cases cap) (auto simp: r deferredRead_def cappedRead_def verifyingRead_def)
  show ?case
  proof (cases e)
    case None
    with Cons.prems(1) st obtain d2 where d2: "drain (deferredRead cy) (?cap, ?v) rs = (d2, Some EOF)" "d = p @ d2"
      by (auto split: prod.splits)
    have "case ?cap of None \<Rightarrow> True | Some n \<Rightarrow> 0 \<le> n \<and> n < 2 ^ 63"
      using Cons.prems(4) nc by (auto split: option.splits)
    from Cons.IH [OF d2(1) _ _ this] Cons.prems(2,3) d2(2) show ?thesis by (auto split: option.splits)
  next
    case (Some x)
    with Cons.prems(1,3) st have "d = p" "cySum cy (vrAlg v) (vrHashed v @ p) = vrWant v" by (auto split: if_splits)
    with nc show ?thesis by (auto split: option.splits simp: not_less)
  qed
qed

text \<open>C32: the body a handler gets for a request with a signed SHA-256 is the one that was
  signed: a body without content or small enough for memory was checked before the handler
  sees a byte, and a larger one, in whatever pieces it arrives, ends cleanly only if its
  SHA-256 is the signed one and it is not longer than the payload limit.\<close>

theorem signed_payload_verified:
  assumes "verifySignedPayload cy body cl h mx = Inr vb" and "0 \<le> mx" and "mx < 2 ^ 63"
  shows "case vb of
      NoBody \<Rightarrow> body = None \<and> hex_decode h = Some (cySum cy SHA256 [])
    | InMemory d \<Rightarrow> (\<exists>r. body = Some r \<and> d = rdData r \<and> \<not> rdFails r) \<and> hex_decode h = Some (cySum cy SHA256 d)
    | DeferredHash cap v \<Rightarrow> \<forall>rs d. (\<forall>r\<in>set rs. int (length (fst r)) < 2 ^ 62) \<and> drain (deferredRead cy) (cap, v) rs = (d, Some EOF) \<longrightarrow>
        hex_decode h = Some (cySum cy SHA256 d) \<and> (0 < mx \<longrightarrow> int (length d) \<le> mx)"
proof -
  obtain want where w: "hex_decode h = Some want" "length want = 32"
    using assms(1) by (auto simp: verifySignedPayload_def split: option.splits if_splits)
  show ?thesis
  proof (cases body)
    case None
    with assms(1) w show ?thesis by (auto simp: verifySignedPayload_def split: if_splits)
  next
    case (Some r)
    have t: "take (nat (maxInMemoryPayload + 1)) (rdData r) = rdData r"
      if "int (length (take (nat (maxInMemoryPayload + 1)) (rdData r))) \<le> maxInMemoryPayload"
      using that by (simp add: maxInMemoryPayload_def min_def split: if_splits)
    show ?thesis
    proof (cases vb)
      case NoBody
      with assms(1) w Some show ?thesis by (auto simp: verifySignedPayload_def Let_def split: if_splits)
    next
      case (InMemory d)
      with assms(1) w Some t show ?thesis by (auto simp: verifySignedPayload_def Let_def split: if_splits)
    next
      case (DeferredHash cap v)
      with assms(1) w Some have "cap = (if mx > 0 then Some mx else None)"
        "v = \<lparr>vrAlg = SHA256, vrHashed = [], vrWant = want, vrMismatch = IOErr payloadHashMismatch\<rparr>"
        by (auto simp: verifySignedPayload_def Let_def split: if_splits)
      with deferred_drain [of cy cap v] assms(2,3) w(1) DeferredHash show ?thesis by fastforce
    qed
  qed
qed

theorem signed_payload_verified_witness:
  "verifySignedPayload ex_crypto (Some \<lparr>rdData = ''abc'', rdFails = False\<rparr>) 3 (hex_encode (cySum ex_crypto SHA256 ''abc'')) 10 = Inr (InMemory ''abc'') \<and>
   hex_decode (hex_encode (cySum ex_crypto SHA256 ''abc'')) = Some (cySum ex_crypto SHA256 ''abc'')"
proof
  have l: "length (cySum ex_crypto SHA256 ''abc'') = 32" by (simp add: ex_crypto_def)
  show v: "verifySignedPayload ex_crypto (Some \<lparr>rdData = ''abc'', rdFails = False\<rparr>) 3 (hex_encode (cySum ex_crypto SHA256 ''abc'')) 10 = Inr (InMemory ''abc'')"
    by (simp add: verifySignedPayload_def hex_decode_encode l maxInMemoryPayload_def)
  show "hex_decode (hex_encode (cySum ex_crypto SHA256 ''abc'')) = Some (cySum ex_crypto SHA256 ''abc'')"
    using signed_payload_verified [OF v] by simp
qed

end
