(* ===== verification/Locks.thy ===== *)
theory Locks
  imports Multipart
begin

text \<open>
  internal/storage/multipart.go, lines 666-778: the engine's refcounted locks. A lock
  object is created for a key on first use and dropped from the map with its last user;
  the map and the reference counts change under fs.mu, one critical section at a time, and
  each critical section is one step here, as are taking and giving up the lock object
  itself. lockKey's mutex is the read/write lock of lockBucket, always taken exclusively.
\<close>

subsection \<open>The lock table\<close>

record lock_obj =
  loRef :: nat
  loReaders :: nat
  loWriter :: bool

record lock_table =
  ltMap :: "string \<Rightarrow> nat option"
  ltHeap :: "nat \<Rightarrow> lock_obj"
  ltNext :: nat

text \<open>The critical section before the lock object is taken: find or create it, count the
  user in.\<close>

definition lockRef :: "string \<Rightarrow> lock_table \<Rightarrow> nat \<times> lock_table" where
  "lockRef key s = (case ltMap s key of
     Some a \<Rightarrow> (a, s\<lparr>ltHeap := (ltHeap s)(a := (ltHeap s a)\<lparr>loRef := loRef (ltHeap s a) + 1\<rparr>)\<rparr>)
   | None \<Rightarrow> (ltNext s, s\<lparr>ltMap := (ltMap s)(key \<mapsto> ltNext s),
       ltHeap := (ltHeap s)(ltNext s := \<lparr>loRef = 1, loReaders = 0, loWriter = False\<rparr>), ltNext := ltNext s + 1\<rparr>))"

text \<open>sync.RWMutex: when Lock or RLock can return, and what they and their inverses do.\<close>

definition canLock :: "bool \<Rightarrow> lock_obj \<Rightarrow> bool" where
  "canLock exclusive l \<longleftrightarrow> \<not> loWriter l \<and> (exclusive \<longrightarrow> loReaders l = 0)"

definition takeLock :: "bool \<Rightarrow> lock_obj \<Rightarrow> lock_obj" where
  "takeLock exclusive l = (if exclusive then l\<lparr>loWriter := True\<rparr> else l\<lparr>loReaders := loReaders l + 1\<rparr>)"

definition dropLock :: "bool \<Rightarrow> lock_obj \<Rightarrow> lock_obj" where
  "dropLock exclusive l = (if exclusive then l\<lparr>loWriter := False\<rparr> else l\<lparr>loReaders := loReaders l - 1\<rparr>)"

text \<open>The critical section of the release function: count the user out, and forget the
  lock object when it was the last.\<close>

definition unlockRef :: "string \<Rightarrow> nat \<Rightarrow> lock_table \<Rightarrow> lock_table" where
  "unlockRef key a s =
    (let l = (ltHeap s a)\<lparr>loRef := loRef (ltHeap s a) - 1\<rparr>;
         s = s\<lparr>ltHeap := (ltHeap s)(a := l)\<rparr> in
     if loRef l = 0 then s\<lparr>ltMap := (ltMap s)(key := None)\<rparr> else s)"

subsection \<open>Keys\<close>

definition lockUpload :: "string \<Rightarrow> string" where
  "lockUpload uploadID = ''upload:'' @ uploadID"

definition lockPart :: "string \<Rightarrow> int \<Rightarrow> string" where
  "lockPart uploadID partNumber = ''part:'' @ uploadID @ '':'' @ Itoa partNumber"

definition lockObjectKey :: "string \<Rightarrow> string \<Rightarrow> string" where
  "lockObjectKey bucket key = ''object:'' @ bucket @ ''/'' @ key"

subsection \<open>Threads\<close>

text \<open>Where a thread is in lockKey or lockBucket: waiting for the lock object, holding it,
  or between giving it up and counting itself out.\<close>

datatype phase = Waiting | Holding | Releasing

datatype lpc = Idle | At phase string bool nat

record lsys =
  lsTable :: lock_table
  lsPc :: "nat \<Rightarrow> lpc"

definition setObj :: "nat \<Rightarrow> (lock_obj \<Rightarrow> lock_obj) \<Rightarrow> lock_table \<Rightarrow> lock_table" where
  "setObj a f s = s\<lparr>ltHeap := (ltHeap s)(a := f (ltHeap s a))\<rparr>"

inductive lstep :: "lsys \<Rightarrow> lsys \<Rightarrow> bool" where
  enter: "lsPc s t = Idle \<Longrightarrow> lockRef key (lsTable s) = (a, tab) \<Longrightarrow>
    lstep s \<lparr>lsTable = tab, lsPc = (lsPc s)(t := At Waiting key ex a)\<rparr>"
| lock: "lsPc s t = At Waiting key ex a \<Longrightarrow> canLock ex (ltHeap (lsTable s) a) \<Longrightarrow>
    lstep s \<lparr>lsTable = setObj a (takeLock ex) (lsTable s), lsPc = (lsPc s)(t := At Holding key ex a)\<rparr>"
| unlock: "lsPc s t = At Holding key ex a \<Longrightarrow>
    lstep s \<lparr>lsTable = setObj a (dropLock ex) (lsTable s), lsPc = (lsPc s)(t := At Releasing key ex a)\<rparr>"
| leave: "lsPc s t = At Releasing key ex a \<Longrightarrow>
    lstep s \<lparr>lsTable = unlockRef key a (lsTable s), lsPc = (lsPc s)(t := Idle)\<rparr>"

definition lsInit :: lsys where
  "lsInit = \<lparr>lsTable = \<lparr>ltMap = Map.empty, ltHeap = (\<lambda>_. \<lparr>loRef = 0, loReaders = 0, loWriter = False\<rparr>), ltNext = 0\<rparr>, lsPc = (\<lambda>_. Idle)\<rparr>"

inductive lreach :: "lsys \<Rightarrow> bool" where
  init: "lreach lsInit"
| step: "lreach s \<Longrightarrow> lstep s s' \<Longrightarrow> lreach s'"

subsection \<open>The invariant\<close>

definition users :: "(nat \<Rightarrow> lpc) \<Rightarrow> nat \<Rightarrow> nat set" where
  "users pc a = {t. \<exists>p k ex. pc t = At p k ex a}"

definition holders :: "(nat \<Rightarrow> lpc) \<Rightarrow> bool \<Rightarrow> nat \<Rightarrow> nat set" where
  "holders pc ex a = {t. \<exists>k. pc t = At Holding k ex a}"

text \<open>An object counts its users and its holders.\<close>

definition obj_ok :: "(nat \<Rightarrow> lpc) \<Rightarrow> nat \<Rightarrow> lock_obj \<Rightarrow> bool" where
  "obj_ok pc a l \<longleftrightarrow> finite (users pc a) \<and> loRef l = card (users pc a) \<and> loReaders l = card (holders pc False a) \<and>
     card (holders pc True a) = (if loWriter l then 1 else 0) \<and> (loWriter l \<longrightarrow> loReaders l = 0)"

definition linv :: "lsys \<Rightarrow> bool" where
  "linv s \<longleftrightarrow>
    (\<forall>t p k ex a. lsPc s t = At p k ex a \<longrightarrow> ltMap (lsTable s) k = Some a) \<and>
    (\<forall>k k' a. ltMap (lsTable s) k = Some a \<longrightarrow> ltMap (lsTable s) k' = Some a \<longrightarrow> k = k') \<and>
    (\<forall>k a. ltMap (lsTable s) k = Some a \<longrightarrow> a < ltNext (lsTable s) \<and> users (lsPc s) a \<noteq> {}) \<and>
    (\<forall>a. a < ltNext (lsTable s) \<longrightarrow> obj_ok (lsPc s) a (ltHeap (lsTable s) a))"

lemma users_upd: "users (pc(t := x)) a = (case x of Idle \<Rightarrow> users pc a - {t} | At p k ex a' \<Rightarrow> if a' = a then insert t (users pc a) else users pc a - {t})"
  by (auto simp: users_def split: lpc.splits)

lemma holders_upd: "holders (pc(t := x)) ex a =
    (case x of At Holding k ex' a' \<Rightarrow> if a' = a \<and> ex' = ex then insert t (holders pc ex a) else holders pc ex a - {t} | _ \<Rightarrow> holders pc ex a - {t})"
  by (auto simp: holders_def split: lpc.splits phase.splits)

lemma holders_users: "holders pc ex a \<subseteq> users pc a"
  by (auto simp: holders_def users_def)

lemma users_not: "pc t = Idle \<Longrightarrow> t \<notin> users pc a" "pc t = At p k ex a' \<Longrightarrow> (t \<in> users pc a) = (a' = a)"
  by (auto simp: users_def)

lemma holders_not: "pc t = Idle \<Longrightarrow> t \<notin> holders pc ex a"
  "pc t = At p k ex' a' \<Longrightarrow> (t \<in> holders pc ex a) = (p = Holding \<and> ex' = ex \<and> a' = a)"
  by (auto simp: holders_def)

text \<open>A thread that moves leaves the objects of the others as they are.\<close>

lemma obj_ok_other:
  assumes "obj_ok pc a l" and "t \<notin> users pc a" and "\<And>p k ex. x \<noteq> At p k ex a"
  shows "obj_ok (pc(t := x)) a l"
proof -
  have "users (pc(t := x)) a = users pc a" using assms(2,3) by (auto simp: users_upd split: lpc.splits)
  moreover have "holders (pc(t := x)) ex a = holders pc ex a" for ex
    using assms(2,3) holders_users [of pc ex a] by (auto simp: holders_upd split: lpc.splits phase.splits)
  ultimately show ?thesis using assms(1) unfolding obj_ok_def by auto
qed

lemma linv_init: "linv lsInit"
  by (simp add: linv_def lsInit_def)

lemma linvD:
  assumes "linv s"
  shows "lsPc s t = At p k ex a \<Longrightarrow> ltMap (lsTable s) k = Some a"
    and "ltMap (lsTable s) k = Some a \<Longrightarrow> a < ltNext (lsTable s)"
    and "ltMap (lsTable s) k = Some a \<Longrightarrow> users (lsPc s) a \<noteq> {}"
    and "a < ltNext (lsTable s) \<Longrightarrow> obj_ok (lsPc s) a (ltHeap (lsTable s) a)"
  using assms by (auto simp: linv_def)

lemma linv_key:
  assumes "linv s" and "ltMap (lsTable s) k = Some a" and "ltMap (lsTable s) k' = Some a"
  shows "k = k'"
  using assms unfolding linv_def by blast

lemma linvI:
  assumes "\<And>t p k ex a. lsPc s t = At p k ex a \<Longrightarrow> ltMap (lsTable s) k = Some a"
    and "\<And>k k' a. ltMap (lsTable s) k = Some a \<Longrightarrow> ltMap (lsTable s) k' = Some a \<Longrightarrow> k = k'"
    and "\<And>k a. ltMap (lsTable s) k = Some a \<Longrightarrow> a < ltNext (lsTable s) \<and> users (lsPc s) a \<noteq> {}"
    and "\<And>a. a < ltNext (lsTable s) \<Longrightarrow> obj_ok (lsPc s) a (ltHeap (lsTable s) a)"
  shows "linv s"
  using assms unfolding linv_def by blast

subsection \<open>The steps keep it\<close>

lemma obj_enter:
  assumes "obj_ok pc a l" and "pc t = Idle"
  shows "obj_ok (pc(t := At Waiting k ex a)) a (l\<lparr>loRef := loRef l + 1\<rparr>)"
proof -
  have "users (pc(t := At Waiting k ex a)) a = insert t (users pc a)" by (simp add: users_upd)
  moreover have "holders (pc(t := At Waiting k ex a)) e a = holders pc e a" for e
    using holders_not(1) [where pc = pc and t = t, OF assms(2)] by (simp add: holders_upd)
  ultimately show ?thesis using assms(1) users_not(1) [where pc = pc and t = t, OF assms(2)] unfolding obj_ok_def by auto
qed

lemma obj_lock:
  assumes "obj_ok pc a l" and "pc t = At Waiting k ex a" and "canLock ex l"
  shows "obj_ok (pc(t := At Holding k ex a)) a (takeLock ex l)"
proof -
  have u: "users (pc(t := At Holding k ex a)) a = users pc a" using users_not(2) [where pc = pc and t = t, OF assms(2), of a] by (auto simp: users_upd)
  have h: "holders (pc(t := At Holding k ex a)) e a = (if e = ex then insert t (holders pc e a) else holders pc e a)" for e
    using holders_not(2) [where pc = pc and t = t, OF assms(2)] by (simp add: holders_upd)
  have "finite (holders pc e a)" for e by (rule finite_subset [OF holders_users]) (use assms(1) in \<open>simp add: obj_ok_def\<close>)
  moreover have "t \<notin> holders pc e a" for e using holders_not(2) [where pc = pc and t = t, OF assms(2)] by simp
  ultimately show ?thesis
    using assms(1,3) u h unfolding obj_ok_def canLock_def takeLock_def by (cases ex) auto
qed

lemma obj_unlock:
  assumes "obj_ok pc a l" and "pc t = At Holding k ex a"
  shows "obj_ok (pc(t := At Releasing k ex a)) a (dropLock ex l)"
proof -
  have u: "users (pc(t := At Releasing k ex a)) a = users pc a" using users_not(2) [where pc = pc and t = t, OF assms(2), of a] by (auto simp: users_upd)
  have h: "holders (pc(t := At Releasing k ex a)) e a = (if e = ex then holders pc e a - {t} else holders pc e a)" for e
    using holders_not(2) [where pc = pc and t = t, OF assms(2)] by (simp add: holders_upd)
  have f: "finite (holders pc e a)" for e by (rule finite_subset [OF holders_users]) (use assms(1) in \<open>simp add: obj_ok_def\<close>)
  have m: "t \<in> holders pc ex a" using holders_not(2) [where pc = pc and t = t, OF assms(2)] by simp
  then have "card (holders pc ex a) \<noteq> 0" using f by auto
  with f m show ?thesis
    using assms(1) u h unfolding obj_ok_def dropLock_def by (cases ex) (auto split: if_splits)
qed

lemma obj_leave:
  assumes "obj_ok pc a l" and "pc t = At Releasing k ex a"
  shows "obj_ok (pc(t := Idle)) a (l\<lparr>loRef := loRef l - 1\<rparr>)"
proof -
  have u: "users (pc(t := Idle)) a = users pc a - {t}" by (simp add: users_upd)
  have h: "holders (pc(t := Idle)) e a = holders pc e a" for e
    using holders_not(2) [where pc = pc and t = t, OF assms(2)] by (simp add: holders_upd)
  have "t \<in> users pc a" using users_not(2) [where pc = pc and t = t, OF assms(2)] by simp
  with u h show ?thesis using assms(1) unfolding obj_ok_def by auto
qed

text \<open>Moving within an object that stays in use changes nothing else.\<close>

lemma linv_within:
  assumes "linv s" and "lsPc s t = At p k ex a"
    and "obj_ok ((lsPc s)(t := At p' k ex a)) a (f (ltHeap (lsTable s) a))"
  shows "linv \<lparr>lsTable = setObj a f (lsTable s), lsPc = (lsPc s)(t := At p' k ex a)\<rparr>"
proof (rule linvI, goal_cases)
  case (1 t' p1 k1 e1 a1)
  then show ?case using linvD(1) [OF assms(1)] assms(2) by (auto simp: setObj_def split: if_splits)
next
  case (2 k1 k2 a1)
  then show ?case using linv_key [OF assms(1)] by (auto simp: setObj_def)
next
  case (3 k1 a1)
  then have m: "ltMap (lsTable s) k1 = Some a1" by (simp add: setObj_def)
  with linvD(2,3) [OF assms(1)] have "a1 < ltNext (lsTable s)" "users (lsPc s) a1 \<noteq> {}" by blast+
  moreover have "users ((lsPc s)(t := At p' k ex a)) a1 = users (lsPc s) a1"
    using users_not(2) [where pc = "lsPc s" and t = t, OF assms(2), of a1] by (auto simp: users_upd)
  ultimately show ?case by (simp add: setObj_def)
next
  case (4 a1)
  then have n: "a1 < ltNext (lsTable s)" by (simp add: setObj_def)
  show ?case
  proof (cases "a1 = a")
    case True
    with assms(3) show ?thesis by (simp add: setObj_def)
  next
    case False
    with obj_ok_other [OF linvD(4) [OF assms(1) n], of t "At p' k ex a"] users_not(2) [where pc = "lsPc s" and t = t, OF assms(2), of a1]
    show ?thesis by (simp add: setObj_def)
  qed
qed

lemma linv_enter_found:
  assumes i: "linv s" and t: "lsPc s t = Idle" and m: "ltMap (lsTable s) k = Some a"
  shows "linv \<lparr>lsTable = setObj a (\<lambda>l. l\<lparr>loRef := loRef l + 1\<rparr>) (lsTable s), lsPc = (lsPc s)(t := At Waiting k ex a)\<rparr>"
proof (rule linvI, goal_cases)
  case (1 t' p1 k1 e1 a1)
  then show ?case using linvD(1) [OF i] m by (auto simp: setObj_def split: if_splits)
next
  case (2 k1 k2 a1)
  then show ?case using linv_key [OF i] by (auto simp: setObj_def)
next
  case (3 k1 a1)
  then have "ltMap (lsTable s) k1 = Some a1" by (simp add: setObj_def)
  with linvD(2,3) [OF i] users_not(1) [where pc = "lsPc s" and t = t, OF t] show ?case by (auto simp: setObj_def users_upd)
next
  case (4 a1)
  then have n: "a1 < ltNext (lsTable s)" by (simp add: setObj_def)
  show ?case
    using obj_ok_other [OF linvD(4) [OF i n], of t "At Waiting k ex a"] obj_enter [OF linvD(4) [OF i n], of t k ex] users_not(1) [where pc = "lsPc s" and t = t, OF t] t
    by (cases "a1 = a") (auto simp: setObj_def)
qed

lemma linv_enter_new:
  assumes i: "linv s" and t: "lsPc s t = Idle" and m: "ltMap (lsTable s) k = None"
  shows "linv \<lparr>lsTable = (lsTable s)\<lparr>ltMap := (ltMap (lsTable s))(k \<mapsto> ltNext (lsTable s)),
       ltHeap := (ltHeap (lsTable s))(ltNext (lsTable s) := \<lparr>loRef = 1, loReaders = 0, loWriter = False\<rparr>), ltNext := ltNext (lsTable s) + 1\<rparr>,
     lsPc = (lsPc s)(t := At Waiting k ex (ltNext (lsTable s)))\<rparr>"
proof (rule linvI, goal_cases)
  case (1 t' p1 k1 e1 a1)
  then show ?case using linvD(1) [OF i] m by (cases "t' = t") auto
next
  case (2 k1 k2 a1)
  have o: "a1 \<noteq> ltNext (lsTable s)" if "ltMap (lsTable s) x = Some a1" for x using linvD(2) [OF i that] by simp
  show ?case
    using 2 linv_key [OF i, of k1 a1 k2] o by (cases "k1 = k"; cases "k2 = k") auto
next
  case (3 k1 a1)
  then show ?case using linvD(2,3) [OF i] users_not(1) [where pc = "lsPc s" and t = t, OF t]
    by (cases "k1 = k") (auto simp: users_upd less_SucI)
next
  case (4 a1)
  show ?case
  proof (cases "a1 = ltNext (lsTable s)")
    case True
    have "users (lsPc s) a1 = {}"
    proof (rule equals0I)
      fix t1 assume "t1 \<in> users (lsPc s) a1"
      then obtain p k1 e where "lsPc s t1 = At p k1 e a1" by (auto simp: users_def)
      from linvD(2) [OF i linvD(1) [OF i this]] True show False by simp
    qed
    moreover from this have "holders (lsPc s) e a1 = {}" for e using holders_users [of "lsPc s" e a1] by simp
    ultimately show ?thesis using True by (simp add: obj_ok_def users_upd holders_upd)
  next
    case False
    then have n: "a1 < ltNext (lsTable s)" using 4 by simp
    with obj_ok_other [OF linvD(4) [OF i n], of t "At Waiting k ex (ltNext (lsTable s))"] users_not(1) [where pc = "lsPc s" and t = t, OF t] False
    show ?thesis by simp
  qed
qed

lemma linv_leave:
  assumes i: "linv s" and t: "lsPc s t = At Releasing k ex a"
  shows "linv \<lparr>lsTable = unlockRef k a (lsTable s), lsPc = (lsPc s)(t := Idle)\<rparr>"
proof -
  have m: "ltMap (lsTable s) k = Some a" using linvD(1) [OF i t] .
  have ok: "obj_ok ((lsPc s)(t := Idle)) a1 (ltHeap (unlockRef k a (lsTable s)) a1)" if "a1 < ltNext (lsTable s)" for a1
    using obj_ok_other [OF linvD(4) [OF i that], of t Idle] obj_leave [OF linvD(4) [OF i that], of t k ex] users_not(2) [where pc = "lsPc s" and t = t, OF t, of a1] t
    by (cases "a1 = a") (auto simp: unlockRef_def Let_def)
  from ok [OF linvD(2) [OF i m]] have r: "loRef (ltHeap (lsTable s) a) - 1 = card (users ((lsPc s)(t := Idle)) a)"
    "finite (users ((lsPc s)(t := Idle)) a)"
    by (auto simp: obj_ok_def unlockRef_def Let_def split: if_splits)
  show ?thesis
  proof (cases "users ((lsPc s)(t := Idle)) a = {}")
    case True
    then have z: "unlockRef k a (lsTable s) = (lsTable s)\<lparr>ltHeap := (ltHeap (lsTable s))(a := (ltHeap (lsTable s) a)\<lparr>loRef := 0\<rparr>), ltMap := (ltMap (lsTable s))(k := None)\<rparr>"
      using r by (simp add: unlockRef_def Let_def)
    have nk: "k1 \<noteq> k" if "lsPc s t1 = At p1 k1 e1 a1" "t1 \<noteq> t" for t1 p1 k1 e1 a1
    proof
      assume "k1 = k"
      with linvD(1) [OF i that(1)] m have "a1 = a" by simp
      with that have "t1 \<in> users ((lsPc s)(t := Idle)) a" by (auto simp: users_def)
      with True show False by simp
    qed
    show ?thesis
    proof (rule linvI, goal_cases)
      case (1 t' p1 k1 e1 a1)
      then show ?case using linvD(1) [OF i] nk by (auto simp: z split: if_splits)
    next
      case (2 k1 k2 a1)
      then show ?case using linv_key [OF i] by (auto simp: z split: if_splits)
    next
      case (3 k1 a1)
      then have k1: "ltMap (lsTable s) k1 = Some a1" "k1 \<noteq> k" by (auto simp: z split: if_splits)
      then have "a1 \<noteq> a" using linv_key [OF i k1(1), of k] m by blast
      then have "t \<notin> users (lsPc s) a1" using users_not(2) [where pc = "lsPc s" and t = t, OF t, of a1] by simp
      then have "users ((lsPc s)(t := Idle)) a1 \<noteq> {}" using linvD(3) [OF i k1(1)] unfolding users_upd by auto
      with linvD(2) [OF i k1(1)] show ?case unfolding z by simp
    next
      case (4 a1)
      then show ?case using ok by (simp add: z)
    qed
  next
    case False
    then have "card (users ((lsPc s)(t := Idle)) a) \<noteq> 0" using r(2) by simp
    then have z: "unlockRef k a (lsTable s) = setObj a (\<lambda>l. l\<lparr>loRef := loRef l - 1\<rparr>) (lsTable s)"
      using r(1) by (simp add: unlockRef_def Let_def setObj_def)
    show ?thesis
    proof (rule linvI, goal_cases)
      case (1 t' p1 k1 e1 a1)
      then show ?case using linvD(1) [OF i] by (auto simp: z setObj_def split: if_splits)
    next
      case (2 k1 k2 a1)
      then show ?case using linv_key [OF i] by (auto simp: z setObj_def)
    next
      case (3 k1 a1)
      then have k1: "ltMap (lsTable s) k1 = Some a1" by (simp add: z setObj_def)
      have "users ((lsPc s)(t := Idle)) a1 \<noteq> {}"
      proof (cases "a1 = a")
        case True
        with False show ?thesis by simp
      next
        case ne: False
        with linvD(3) [OF i k1] users_not(2) [where pc = "lsPc s" and t = t, OF t, of a1] show ?thesis by (simp add: users_upd)
      qed
      with linvD(2) [OF i k1] show ?case by (simp add: z setObj_def)
    next
      case (4 a1)
      then show ?case using ok by (simp add: z setObj_def)
    qed
  qed
qed

lemma linv_step: "lstep s s' \<Longrightarrow> linv s \<Longrightarrow> linv s'"
proof (induction rule: lstep.induct)
  case (enter s t key a tab ex)
  show ?case
  proof (cases "ltMap (lsTable s) key")
    case None
    with linv_enter_new [OF enter(3,1) None] enter(2) show ?thesis by (auto simp: lockRef_def)
  next
    case (Some b)
    with linv_enter_found [OF enter(3,1) Some] enter(2) show ?thesis by (auto simp: lockRef_def setObj_def)
  qed
next
  case (lock s t key ex a)
  have "a < ltNext (lsTable s)" using linvD(1,2) [OF lock(3)] lock(1) by blast
  with linv_within [OF lock(3,1)] obj_lock [OF linvD(4) [OF lock(3)] lock(1,2)] show ?case by blast
next
  case (unlock s t key ex a)
  have "a < ltNext (lsTable s)" using linvD(1,2) [OF unlock(2)] unlock(1) by blast
  with linv_within [OF unlock(2,1)] obj_unlock [OF linvD(4) [OF unlock(2)] unlock(1)] show ?case by blast
next
  case (leave s t key ex a)
  then show ?case by (rule linv_leave [rotated])
qed

lemma linv_reach: "lreach s \<Longrightarrow> linv s"
  by (induction rule: lreach.induct) (auto simp: linv_init intro: linv_step)

subsection \<open>Theorems\<close>

text \<open>C20: in every interleaving of threads that lock keys, two threads hold the same key at
  once only if both hold it shared; a thread is kept waiting only while another one holds
  its key; and the table has an entry for exactly the keys some thread is using, so no lock
  object is dropped while it is in use and none is left behind.\<close>

theorem locks_exclude:
  assumes "lreach s"
  shows "(\<forall>t t' k ex ex' a a'. lsPc s t = At Holding k ex a \<and> lsPc s t' = At Holding k ex' a' \<and> t \<noteq> t' \<longrightarrow> \<not> ex \<and> \<not> ex') \<and>
    (\<forall>t k ex a. lsPc s t = At Waiting k ex a \<and> \<not> canLock ex (ltHeap (lsTable s) a) \<longrightarrow> (\<exists>t' ex'. lsPc s t' = At Holding k ex' a)) \<and>
    (\<forall>k. ltMap (lsTable s) k \<noteq> None \<longleftrightarrow> (\<exists>t p ex a. lsPc s t = At p k ex a))"
proof (intro conjI allI impI; (elim conjE)?)
  note i = linv_reach [OF assms]
  have ok: "obj_ok (lsPc s) a (ltHeap (lsTable s) a)" if "lsPc s t = At p k ex a" for t p k ex a
    using linvD(4) [OF i linvD(2) [OF i linvD(1) [OF i that]]] .
  have fin: "finite (holders (lsPc s) e a)" if "obj_ok (lsPc s) a l" for e a l
    using that finite_subset [OF holders_users] by (simp add: obj_ok_def)
  have one: "\<not> e" if h: "lsPc s t = At Holding k e a" "lsPc s t' = At Holding k e' a'" "t \<noteq> t'" for t t' k e e' a a'
  proof
    assume e
    have "a' = a" using linvD(1) [OF i h(1)] linvD(1) [OF i h(2)] by simp
    with h \<open>e\<close> have m: "t \<in> holders (lsPc s) True a" "t' \<in> holders (lsPc s) e' a" by (auto simp: holders_def)
    note o = ok [OF h(1)]
    have "card (holders (lsPc s) True a) \<noteq> 0" using m(1) fin [OF o] by auto
    with o have w: "card (holders (lsPc s) True a) = 1" "card (holders (lsPc s) False a) = 0"
      by (auto simp: obj_ok_def split: if_splits)
    then have "holders (lsPc s) False a = {}" using fin [OF o] by simp
    with m(2) have "t' \<in> holders (lsPc s) True a" by (cases e') auto
    with m(1) w(1) h(3) show False by (metis card_1_singletonE singletonD)
  qed
  {
    fix t t' k ex ex' a a'
    assume h: "lsPc s t = At Holding k ex a" "lsPc s t' = At Holding k ex' a'" "t \<noteq> t'"
    show "\<not> ex" using one [OF h] .
    show "\<not> ex'" using one [OF h(2,1)] h(3) by simp
  next
    fix t k ex a
    assume w: "lsPc s t = At Waiting k ex a" "\<not> canLock ex (ltHeap (lsTable s) a)"
    note o = ok [OF w(1)]
    from w(2) o have "card (holders (lsPc s) True a) \<noteq> 0 \<or> card (holders (lsPc s) False a) \<noteq> 0"
      by (auto simp: canLock_def obj_ok_def)
    then obtain t' k' e where h: "lsPc s t' = At Holding k' e a" by (auto simp: holders_def card_gt_0_iff dest!: not_gr0 [THEN iffD1, rotated])
    with linv_key [OF i linvD(1) [OF i h] linvD(1) [OF i w(1)]] show "\<exists>t' ex'. lsPc s t' = At Holding k ex' a" by blast
  next
    fix k
    show "ltMap (lsTable s) k \<noteq> None \<longleftrightarrow> (\<exists>t p ex a. lsPc s t = At p k ex a)"
    proof
      assume "ltMap (lsTable s) k \<noteq> None"
      then obtain a where m: "ltMap (lsTable s) k = Some a" by auto
      with linvD(3) [OF i m] obtain t p k' ex where u: "lsPc s t = At p k' ex a" by (auto simp: users_def)
      with linv_key [OF i linvD(1) [OF i u] m] show "\<exists>t p ex a. lsPc s t = At p k ex a" by blast
    next
      assume "\<exists>t p ex a. lsPc s t = At p k ex a"
      then show "ltMap (lsTable s) k \<noteq> None" using linvD(1) [OF i] by blast
    qed
  }
qed

text \<open>Two threads share the key k; a third one, which wants it exclusively, waits.\<close>

definition ex_locked :: lsys where
  "ex_locked = \<lparr>lsTable = setObj 0 (\<lambda>_. \<lparr>loRef = 2, loReaders = 1, loWriter = False\<rparr>) ((lsTable lsInit)\<lparr>ltMap := [''k'' \<mapsto> 0], ltNext := 1\<rparr>),
     lsPc = (\<lambda>_. Idle)(0 := At Holding ''k'' False 0, 1 := At Waiting ''k'' True 0)\<rparr>"

lemma ex_locked_reach: "lreach ex_locked"
proof -
  let ?tab = "(lsTable lsInit)\<lparr>ltMap := [''k'' \<mapsto> 0], ltNext := 1\<rparr>"
  let ?o = "\<lambda>r n. setObj 0 (\<lambda>_. \<lparr>loRef = r, loReaders = n, loWriter = False\<rparr>) ?tab"
  let ?p0 = "(\<lambda>_. Idle)(0 := At Waiting ''k'' False 0)"
  let ?p1 = "(\<lambda>_. Idle)(0 := At Holding ''k'' False 0)"
  have "lstep lsInit \<lparr>lsTable = ?o 1 0, lsPc = (lsPc lsInit)(0 := At Waiting ''k'' False 0)\<rparr>"
    by (rule lstep.enter) (simp_all add: lsInit_def lockRef_def setObj_def)
  then have a: "lreach \<lparr>lsTable = ?o 1 0, lsPc = ?p0\<rparr>" using lreach.step [OF lreach.init] by (simp add: lsInit_def)
  have "lstep \<lparr>lsTable = ?o 1 0, lsPc = ?p0\<rparr> \<lparr>lsTable = setObj 0 (takeLock False) (?o 1 0), lsPc = ?p0(0 := At Holding ''k'' False 0)\<rparr>"
    using lstep.lock [of "\<lparr>lsTable = ?o 1 0, lsPc = ?p0\<rparr>" 0 "''k''" False 0] by (simp add: setObj_def canLock_def)
  then have b: "lreach \<lparr>lsTable = ?o 1 1, lsPc = ?p1\<rparr>"
    using lreach.step [OF a] by (simp add: setObj_def takeLock_def)
  have "lstep \<lparr>lsTable = ?o 1 1, lsPc = ?p1\<rparr> \<lparr>lsTable = ?o 2 1, lsPc = ?p1(1 := At Waiting ''k'' True 0)\<rparr>"
    using lstep.enter [of "\<lparr>lsTable = ?o 1 1, lsPc = ?p1\<rparr>" 1 "''k''" 0 _ True] by (simp add: lockRef_def setObj_def numeral_2_eq_2)
  from lreach.step [OF b this] show ?thesis by (simp add: ex_locked_def)
qed

theorem locks_exclude_witness:
  "\<not> canLock True (ltHeap (lsTable ex_locked) 0) \<and> (\<exists>t' ex'. lsPc ex_locked t' = At Holding ''k'' ex' 0)"
proof -
  have "\<not> canLock True (ltHeap (lsTable ex_locked) 0)" by (simp add: ex_locked_def setObj_def canLock_def)
  moreover have "lsPc ex_locked 1 = At Waiting ''k'' True 0" by (simp add: ex_locked_def)
  ultimately show ?thesis using locks_exclude [OF ex_locked_reach] by blast
qed

text \<open>The keys of different uploads, parts and objects, and of different kinds of them,
  are different, so the one table they share never makes two of them wait for each other.\<close>

theorem lock_keys_distinct:
  assumes "IsValidBucketName b" and "IsValidBucketName b'"
  shows "(lockUpload u = lockUpload u' \<longleftrightarrow> u = u') \<and> (lockPart u n = lockPart u' n' \<longleftrightarrow> u = u' \<and> n = n') \<and>
    (lockObjectKey b k = lockObjectKey b' k' \<longleftrightarrow> b = b' \<and> k = k') \<and>
    lockUpload u \<noteq> lockPart u' n' \<and> lockUpload u \<noteq> lockObjectKey b k \<and> lockPart u n \<noteq> lockObjectKey b k"
proof (intro conjI)
  have split: "x = x' \<and> y = y'" if "x @ c # y = x' @ c # y'" "c \<notin> set x" "c \<notin> set x'" for c :: char and x y x' y'
    using CutByte_append [OF that(2), of y] CutByte_append [OF that(3), of y'] unfolding that(1) by simp
  show "lockPart u n = lockPart u' n' \<longleftrightarrow> u = u' \<and> n = n'"
  proof
    assume "lockPart u n = lockPart u' n'"
    then have "u @ CHR '':'' # Itoa n = u' @ CHR '':'' # Itoa n'" by (simp add: lockPart_def)
    from arg_cong [OF this, of rev] have "rev (Itoa n) @ CHR '':'' # rev u = rev (Itoa n') @ CHR '':'' # rev u'" by simp
    moreover have "CHR '':'' \<notin> set (rev (Itoa m))" for m using Itoa_no_colon [of m] by simp
    ultimately have "rev (Itoa n) = rev (Itoa n')" "rev u = rev u'" using split by metis+
    then show "u = u' \<and> n = n'" by (metis Itoa_inject rev_rev_ident)
  qed simp
  show "lockObjectKey b k = lockObjectKey b' k' \<longleftrightarrow> b = b' \<and> k = k'"
    using split [of b "CHR ''/''" k b' k'] IsValidBucketName_no_slash assms by (auto simp: lockObjectKey_def HasByte_def)
qed (simp_all add: lockUpload_def lockPart_def lockObjectKey_def)

theorem lock_keys_distinct_witness: "lockObjectKey ''bkt'' ''a/b'' \<noteq> lockObjectKey ''bk2'' ''a/b''"
proof -
  have "IsValidBucketName ''bkt''" "IsValidBucketName ''bk2''" by code_simp+
  from lock_keys_distinct [OF this, of _ _ _ _ "''a/b''" "''a/b''"] show ?thesis by simp
qed

end
