(* ===== verification/Go_Url.thy ===== *)
theory Go_Url
  imports Go_Parse
begin

text \<open>
  Prelude, net/url and net/http: percent encoding, the escaped path of a URL, query
  strings and header lookup, as far as request signing uses them. A url.Values is the list
  of its pairs in the order they were added; a Go map keeps the values of a key in that
  order, and every use in the sources sorts the keys.
\<close>

subsection \<open>Percent encoding\<close>

definition is_alnum :: "char \<Rightarrow> bool" where
  "is_alnum c \<longleftrightarrow> (CHR ''a'' \<le> c \<and> c \<le> CHR ''z'') \<or> (CHR ''A'' \<le> c \<and> c \<le> CHR ''Z'') \<or> (CHR ''0'' \<le> c \<and> c \<le> CHR ''9'')"

definition unreserved :: "char \<Rightarrow> bool" where
  "unreserved c \<longleftrightarrow> is_alnum c \<or> c = CHR ''-'' \<or> c = CHR ''_'' \<or> c = CHR ''.'' \<or> c = CHR ''~''"

definition upper_hex :: "nat \<Rightarrow> char" where
  "upper_hex n = ''0123456789ABCDEF'' ! (n mod 16)"

definition pct :: "char \<Rightarrow> string" where
  "pct c = [CHR 0x25, upper_hex (byte c div 16), upper_hex (byte c)]"

definition url_escape :: "(char \<Rightarrow> bool) \<Rightarrow> string \<Rightarrow> string" where
  "url_escape keep s = concat (map (\<lambda>c. if keep c then [c] else pct c) s)"

text \<open>The bytes a path and a path segment keep.\<close>

definition keep_path :: "char \<Rightarrow> bool" where
  "keep_path c \<longleftrightarrow> unreserved c \<or> c \<in> set ''$&+,/:;=@''"

definition keep_segment :: "char \<Rightarrow> bool" where
  "keep_segment c \<longleftrightarrow> unreserved c \<or> c \<in> set ''$&+:=@''"

definition PathEscape :: "string \<Rightarrow> string" where
  "PathEscape s = url_escape keep_segment s"

fun url_unescape :: "bool \<Rightarrow> string \<Rightarrow> string option" where
  "url_unescape qm [] = Some []"
| "url_unescape qm (c # s) =
    (if c = CHR 0x25 then
       (case s of a # b # t \<Rightarrow>
          (case (hex_val a, hex_val b, url_unescape qm t) of
             (Some x, Some y, Some u) \<Rightarrow> Some (char_of (x * 16 + y) # u)
           | _ \<Rightarrow> None)
        | _ \<Rightarrow> None)
     else map_option (Cons (if qm \<and> c = CHR ''+'' then CHR '' '' else c)) (url_unescape qm s))"

abbreviation QueryUnescape :: "string \<Rightarrow> string option" where
  "QueryUnescape \<equiv> url_unescape True"

definition valid_encoded :: "string \<Rightarrow> bool" where
  "valid_encoded s \<longleftrightarrow> (\<forall>c\<in>set s. keep_path c \<or> c \<in> set ''!()*[]%'' \<or> c = CHR 0x27)"

lemma upper_hex_props: "hex_val (upper_hex n) = Some (n mod 16) \<and> upper_hex n \<noteq> CHR 0x25"
proof -
  have "\<forall>m<16. hex_val (''0123456789ABCDEF'' ! m) = Some m \<and> ''0123456789ABCDEF'' ! m \<noteq> CHR 0x25" by code_simp
  then show ?thesis by (simp add: upper_hex_def)
qed

lemma upper_hex_alnum: "is_alnum (upper_hex n)"
proof -
  have "\<forall>m<16. is_alnum (''0123456789ABCDEF'' ! m)" by code_simp
  then show ?thesis by (simp add: upper_hex_def)
qed

lemma byte_hex: "char_of ((byte c div 16) mod 16 * 16 + byte c mod 16) = c"
proof -
  have "byte c div 16 < 16" by (rule less_mult_imp_div_less) simp
  then have "(byte c div 16) mod 16 * 16 + byte c mod 16 = byte c" by simp
  then show ?thesis by (simp only: byte_def char_of_char)
qed

lemma unescape_escape:
  assumes "\<not> keep CHR 0x25" and "qm \<Longrightarrow> \<not> keep CHR ''+''"
  shows "url_unescape qm (url_escape keep s) = Some s"
proof (induction s)
  case Nil
  then show ?case by (simp add: url_escape_def)
next
  case (Cons c s)
  have e: "url_escape keep (c # s) = (if keep c then [c] else pct c) @ url_escape keep s" by (simp add: url_escape_def)
  show ?case
  proof (cases "keep c")
    case True
    with assms have "c \<noteq> CHR 0x25" "qm \<Longrightarrow> c \<noteq> CHR ''+''" by auto
    with True Cons e show ?thesis by auto
  next
    case False
    with Cons e show ?thesis by (simp add: pct_def upper_hex_props byte_hex)
  qed
qed

lemma escape_chars: "c \<in> set (url_escape keep s) \<Longrightarrow> keep c \<or> c = CHR 0x25 \<or> is_alnum c"
  using upper_hex_alnum by (auto simp: url_escape_def pct_def split: if_splits)

lemma escape_inject:
  assumes "\<not> keep CHR 0x25"
  shows "url_escape keep s = url_escape keep t \<longleftrightarrow> s = t"
proof
  assume e: "url_escape keep s = url_escape keep t"
  have "url_unescape False (url_escape keep x) = Some x" for x
    by (rule unescape_escape [where keep = keep and qm = False and s = x]) (use assms in \<open>assumption, simp\<close>)
  from this [of s] this [of t] show "s = t" unfolding e by (metis option.inject)
qed (rule arg_cong)

subsection \<open>URLs\<close>

record url =
  uPath :: string
  uRawPath :: string
  uRawQuery :: string

text \<open>What parsing a request target stores, and EscapedPath.\<close>

definition setPath :: "string \<Rightarrow> (string \<times> string) option" where
  "setPath p = (case url_unescape False p of
     None \<Rightarrow> None
   | Some path \<Rightarrow> Some (path, if p = url_escape keep_path path then [] else p))"

definition EscapedPath :: "url \<Rightarrow> string" where
  "EscapedPath u =
    (if uRawPath u \<noteq> [] \<and> valid_encoded (uRawPath u) \<and> url_unescape False (uRawPath u) = Some (uPath u) then uRawPath u
     else if uPath u = ''*'' then ''*''
     else url_escape keep_path (uPath u))"

text \<open>A request target of the origin form is kept as the client sent it.\<close>

lemma EscapedPath_setPath:
  assumes "setPath (CHR ''/'' # p) = Some (path, raw)" and "valid_encoded (CHR ''/'' # p)"
  shows "EscapedPath \<lparr>uPath = path, uRawPath = raw, uRawQuery = q\<rparr> = CHR ''/'' # p"
proof -
  let ?p = "CHR ''/'' # p"
  have u: "url_unescape False ?p = Some path" and r: "raw = (if ?p = url_escape keep_path path then [] else ?p)"
    using assms(1) by (auto simp: setPath_def split: option.splits)
  have "path \<noteq> ''*''" using u by auto
  then show ?thesis using u r assms(2) by (auto simp: EscapedPath_def)
qed

subsection \<open>Query strings\<close>

type_synonym url_values = "(string \<times> string) list"

fun parse_pairs :: "string list \<Rightarrow> url_values" where
  "parse_pairs [] = []"
| "parse_pairs (kv # ps) =
    (if CHR '';'' \<in> set kv \<or> kv = [] then parse_pairs ps
     else case CutByte CHR ''='' kv of (k, v, _) \<Rightarrow>
       (case (QueryUnescape k, QueryUnescape v) of
          (Some k', Some v') \<Rightarrow> (k', v') # parse_pairs ps
        | _ \<Rightarrow> parse_pairs ps))"

definition ParseQuery :: "string \<Rightarrow> url_values" where
  "ParseQuery q = parse_pairs (SplitByte CHR ''&'' q)"

definition ValuesGet :: "url_values \<Rightarrow> string \<Rightarrow> string" where
  "ValuesGet vs k = (case filter (\<lambda>p. fst p = k) vs of [] \<Rightarrow> [] | p # _ \<Rightarrow> snd p)"

definition ValuesDel :: "url_values \<Rightarrow> string \<Rightarrow> url_values" where
  "ValuesDel vs k = filter (\<lambda>p. fst p \<noteq> k) vs"

definition ValuesSet :: "url_values \<Rightarrow> string \<Rightarrow> string \<Rightarrow> url_values" where
  "ValuesSet vs k v = ValuesDel vs k @ [(k, v)]"

subsection \<open>Headers\<close>

text \<open>http.Header.Get looks a name up under its canonical form; a name with a byte that no
  header name has is looked up as it is.\<close>

definition header_byte :: "char \<Rightarrow> bool" where
  "header_byte c \<longleftrightarrow> is_alnum c \<or> c \<in> set ''!#$%&*+-.^_`|~'' \<or> c = CHR 0x27"

definition upper_char :: "char \<Rightarrow> char" where
  "upper_char c = (if CHR ''a'' \<le> c \<and> c \<le> CHR ''z'' then char_of (byte c - 32) else c)"

fun canonical_case :: "bool \<Rightarrow> string \<Rightarrow> string" where
  "canonical_case up [] = []"
| "canonical_case up (c # s) = (if up then upper_char c else lower_char c) # canonical_case (c = CHR ''-'') s"

definition CanonicalMIMEHeaderKey :: "string \<Rightarrow> string" where
  "CanonicalMIMEHeaderKey s = (if \<forall>c\<in>set s. header_byte c then canonical_case True s else s)"

type_synonym header = "(string \<times> string) list"

definition HeaderGet :: "header \<Rightarrow> string \<Rightarrow> string" where
  "HeaderGet h name = ValuesGet h (CanonicalMIMEHeaderKey name)"

end
