(* ===== verification/Sig_V4.thy ===== *)
theory Sig_V4
  imports Chunked Go_Url
begin

text \<open>
  internal/auth/signature.go, the head of a request: parsing the Authorization header, the
  canonical request, key derivation with its bounded cache, the two verifiers and the signer
  of presigned URLs. Times are nanoseconds since the epoch. Dates in RFC 1123 form depend on
  the system's time zone data, so their parser is a parameter (rfc1123, the instant and the
  date it shows); the ISO form the S3 clients send is parsed here.
\<close>

subsection \<open>Credentials and scope\<close>

record Credentials =
  AccessKey :: string
  SecretKey :: string

definition CredentialsIsValid :: "Credentials \<Rightarrow> bool" where
  "CredentialsIsValid c \<longleftrightarrow> AccessKey c \<noteq> [] \<and> SecretKey c \<noteq> []"

definition maxCredentialScopePart :: nat where "maxCredentialScopePart = 64"

definition validateCredentialScope :: "string \<Rightarrow> string \<Rightarrow> aerr + unit" where
  "validateCredentialScope region service =
    (if service \<noteq> ''s3'' then Inl (AuthError ''AuthorizationHeaderMalformed'' ''service'')
     else if region = [] \<or> length region > maxCredentialScopePart then Inl (AuthError ''AuthorizationHeaderMalformed'' ''region'')
     else Inr ())"

text \<open>strings.EqualFold with ''host'': besides the ASCII case, U+017F folds to s.\<close>

definition FoldsToHost :: "string \<Rightarrow> bool" where
  "FoldsToHost s \<longleftrightarrow> ToLower s = ''host'' \<or> ToLower s = [CHR ''h'', CHR ''o'', CHR 0xC5, CHR 0xBF, CHR ''t'']"

definition requireSignedHost :: "string list \<Rightarrow> aerr + unit" where
  "requireSignedHost signedHeaders =
    (if \<exists>h\<in>set signedHeaders. FoldsToHost (TrimSpace h) then Inr ()
     else Inl (AuthError ''AccessDenied'' ''The Host header must be included in the signed headers.''))"

subsection \<open>The Authorization header\<close>

record parsedAuth =
  paCredential :: string
  paAccessKey :: string
  paDate :: string
  paRegion :: string
  paService :: string
  paSignedHeaders :: "string list"
  paSignature :: string

text \<open>strings.Split at a comma and a space.\<close>

fun SplitComma :: "string \<Rightarrow> string list" where
  "SplitComma (c # d # s) = (if c = CHR '','' \<and> d = CHR '' '' then [] # SplitComma s
     else (case SplitComma (d # s) of [] \<Rightarrow> [[c]] | w # ws \<Rightarrow> (c # w) # ws))"
| "SplitComma s = [s]"

definition authPart :: "string \<Rightarrow> parsedAuth \<Rightarrow> parsedAuth" where
  "authPart part p =
    (case CutByte CHR ''='' part of (k, v, found) \<Rightarrow>
     if \<not> found then p
     else
       let key = TrimSpace k; value = TrimSpace v in
       if key = ''Credential'' then
         (let p = p\<lparr>paCredential := value\<rparr> in
          case SplitByte CHR ''/'' value of
            a # d # r # s # _ # _ \<Rightarrow> p\<lparr>paAccessKey := a, paDate := d, paRegion := r, paService := s\<rparr>
          | _ \<Rightarrow> p)
       else if key = ''SignedHeaders'' then p\<lparr>paSignedHeaders := SplitByte CHR '';'' value\<rparr>
       else if key = ''Signature'' then p\<lparr>paSignature := value\<rparr>
       else p)"

definition authScheme :: string where "authScheme = ''AWS4-HMAC-SHA256 ''"

definition parseAuthHeader :: "string \<Rightarrow> string + parsedAuth" where
  "parseAuthHeader header =
    (if \<not> HasPrefix header authScheme then Inl ''unsupported auth algorithm''
     else
       let p = fold authPart (SplitComma (TrimPrefix header authScheme))
         \<lparr>paCredential = [], paAccessKey = [], paDate = [], paRegion = [], paService = [], paSignedHeaders = [], paSignature = []\<rparr> in
       if paAccessKey p = [] \<or> paSignature p = [] then Inl ''incomplete authorization header'' else Inr p)"

definition AccessKeyFromAuthHeader :: "string \<Rightarrow> string" where
  "AccessKeyFromAuthHeader header = (case parseAuthHeader header of Inl _ \<Rightarrow> [] | Inr p \<Rightarrow> paAccessKey p)"

subsection \<open>The canonical request\<close>

record request =
  rqMethod :: string
  rqUrl :: url
  rqHeader :: header
  rqHost :: string
  rqBody :: "reader option"
  rqContentLength :: int

definition unsignedPayload :: string where "unsignedPayload = ''UNSIGNED-PAYLOAD''"

definition awsPercentEncode :: "string \<Rightarrow> string" where
  "awsPercentEncode s = url_escape unreserved s"

definition getCanonicalURI :: "url \<Rightarrow> string" where
  "getCanonicalURI u = (let path = EscapedPath u in if path = [] then ''/'' else path)"

definition canonicalPair :: "string \<times> string \<Rightarrow> string" where
  "canonicalPair p = awsPercentEncode (fst p) @ CHR ''='' # awsPercentEncode (snd p)"

definition getCanonicalQueryString :: "url_values \<Rightarrow> string" where
  "getCanonicalQueryString vs =
    JoinByte CHR ''&'' (concat (map (\<lambda>k. map (\<lambda>v. canonicalPair (k, v)) (sort (map snd (filter (\<lambda>p. fst p = k) vs))))
      (sort (remdups (map fst vs)))))"

definition canonicalHeader :: "request \<Rightarrow> string \<Rightarrow> string" where
  "canonicalHeader r h0 =
    (let h = ToLower (TrimSpace h0);
         v = TrimSpace (HeaderGet (rqHeader r) h);
         value = (if h = ''host'' \<and> v = [] then rqHost r else v) in
     h @ '':'' @ value @ [lf])"

definition canonicalText :: "request \<Rightarrow> url_values \<Rightarrow> string list \<Rightarrow> string \<Rightarrow> string" where
  "canonicalText r query signedHeaders payloadHash =
    sign_lines [rqMethod r, getCanonicalURI (rqUrl r), getCanonicalQueryString query,
      concat (map (canonicalHeader r) (sort signedHeaders)), JoinByte CHR '';'' (sort signedHeaders), payloadHash]"

definition payloadHashHeader :: "request \<Rightarrow> string" where
  "payloadHashHeader r = HeaderGet (rqHeader r) ''X-Amz-Content-Sha256''"

definition buildCanonicalRequest :: "request \<Rightarrow> string list \<Rightarrow> string" where
  "buildCanonicalRequest r signedHeaders =
    (let h = payloadHashHeader r in
     canonicalText r (ParseQuery (uRawQuery (rqUrl r))) signedHeaders (if h = [] then unsignedPayload else h))"

definition amzSignatureQuery :: string where "amzSignatureQuery = ''X-Amz-Signature''"

definition buildCanonicalRequestPresigned :: "request \<Rightarrow> string list \<Rightarrow> string" where
  "buildCanonicalRequestPresigned r signedHeaders =
    canonicalText r (ValuesDel (ParseQuery (uRawQuery (rqUrl r))) amzSignatureQuery) signedHeaders unsignedPayload"

subsection \<open>The signing key\<close>

definition maxSigningKeyCacheEntries :: nat where "maxSigningKeyCacheEntries = 64"

type_synonym key_cache = "(string \<times> string) list"

definition scopeKey :: "crypto \<Rightarrow> string \<Rightarrow> string \<Rightarrow> string \<Rightarrow> string \<Rightarrow> string" where
  "scopeKey cy secret datestamp region service =
    (let kDate = hmacSHA256 cy (''AWS4'' @ secret) datestamp;
         kRegion = hmacSHA256 cy kDate region;
         kService = hmacSHA256 cy kRegion service in
     hmacSHA256 cy kService ''aws4_request'')"

definition cacheKeyOf :: "string \<Rightarrow> string \<Rightarrow> string \<Rightarrow> string" where
  "cacheKeyOf datestamp region service = datestamp @ ''/'' @ region @ ''/'' @ service"

definition storeSigningKey :: "string \<Rightarrow> string \<Rightarrow> key_cache \<Rightarrow> key_cache" where
  "storeSigningKey k v cache = AList.update k v (if length cache \<ge> maxSigningKeyCacheEntries then [] else cache)"

definition deriveSigningKey :: "crypto \<Rightarrow> Credentials \<Rightarrow> string \<Rightarrow> string \<Rightarrow> string \<Rightarrow> key_cache \<Rightarrow> string \<times> key_cache" where
  "deriveSigningKey cy creds datestamp region service cache =
    (let k = cacheKeyOf datestamp region service in
     case map_of cache k of
       Some key \<Rightarrow> (key, cache)
     | None \<Rightarrow> (let key = scopeKey cy (SecretKey creds) datestamp region service in (key, storeSigningKey k key cache)))"

definition scopeOf :: "string \<Rightarrow> string \<Rightarrow> string \<Rightarrow> string" where
  "scopeOf datestamp region service = datestamp @ ''/'' @ region @ ''/'' @ service @ ''/aws4_request''"

definition stringToSign :: "crypto \<Rightarrow> string \<Rightarrow> string \<Rightarrow> string \<Rightarrow> string" where
  "stringToSign cy dateStr scope canonicalRequest =
    sign_lines [''AWS4-HMAC-SHA256'', dateStr, scope, hashSHA256 cy canonicalRequest]"

definition signatureOf :: "crypto \<Rightarrow> string \<Rightarrow> string \<Rightarrow> string" where
  "signatureOf cy key sts = hex_encode (hmacSHA256 cy key sts)"

subsection \<open>Dates\<close>

definition leap_year :: "int \<Rightarrow> bool" where
  "leap_year y \<longleftrightarrow> y mod 4 = 0 \<and> (y mod 100 \<noteq> 0 \<or> y mod 400 = 0)"

definition days_in :: "int \<Rightarrow> int \<Rightarrow> int" where
  "days_in y m = (if m = 2 then (if leap_year y then 29 else 28) else if m \<in> {4, 6, 9, 11} then 30 else 31)"

definition days_before_year :: "int \<Rightarrow> int" where
  "days_before_year y = 365 * (y - 1) + (y - 1) div 4 - (y - 1) div 100 + (y - 1) div 400"

definition unix_seconds :: "int \<Rightarrow> int \<Rightarrow> int \<Rightarrow> int \<Rightarrow> int \<Rightarrow> int \<Rightarrow> int" where
  "unix_seconds y mo d h mi s =
    (days_before_year y - days_before_year 1970 + sum_list (map (days_in y) [1..mo - 1]) + (d - 1)) * 86400
      + h * 3600 + mi * 60 + s"

definition digits :: "string \<Rightarrow> int option" where
  "digits s = (if s \<noteq> [] \<and> (\<forall>c\<in>set s. is_digit c) then Some (int (dec_value s)) else None)"

text \<open>time.Parse with the layout 20060102T150405Z: Go also takes a fraction of a second
  there, of which it keeps nine digits.\<close>

definition parse_fraction :: "string \<Rightarrow> int \<times> string" where
  "parse_fraction s = (case s of
     c # t \<Rightarrow> if (c = CHR ''.'' \<or> c = CHR '','') \<and> t \<noteq> [] \<and> is_digit (hd t)
             then (let ds = take 9 (takeWhile is_digit t) in
                   (int (dec_value (ds @ replicate (9 - length ds) CHR ''0'')), dropWhile is_digit t))
             else (0, s)
   | [] \<Rightarrow> (0, s))"

definition parse_iso :: "string \<Rightarrow> int option" where
  "parse_iso s =
    (case (digits (take 4 s), digits (take 2 (drop 4 s)), digits (take 2 (drop 6 s)),
           digits (take 2 (drop 9 s)), digits (take 2 (drop 11 s)), digits (take 2 (drop 13 s))) of
       (Some y, Some mo, Some d, Some h, Some mi, Some sec) \<Rightarrow>
         (case parse_fraction (drop 15 s) of (ns, rest) \<Rightarrow>
          if 15 \<le> length s \<and> take 1 (drop 8 s) = ''T'' \<and> rest = ''Z'' \<and> 1 \<le> mo \<and> mo \<le> 12 \<and> 1 \<le> d \<and> d \<le> days_in y mo
             \<and> h < 24 \<and> mi < 60 \<and> sec < 60
          then Some (unix_seconds y mo d h mi sec * 1000000000 + ns) else None)
     | _ \<Rightarrow> None)"

type_synonym date_parser = "string \<Rightarrow> (int \<times> string) option"

definition maxClockSkew :: int where "maxClockSkew = 900 * 1000000000"
definition maxPresignValidity :: int where "maxPresignValidity = 604800 * 1000000000"

text \<open>The request's date: the instant, and the day it names.\<close>

definition requestDate :: "date_parser \<Rightarrow> string \<Rightarrow> (int \<times> string) option" where
  "requestDate rfc1123 dateStr = (case parse_iso dateStr of Some t \<Rightarrow> Some (t, take 8 dateStr) | None \<Rightarrow> rfc1123 dateStr)"

subsection \<open>Verify\<close>

datatype vresult = VBody "reader option" | VPayload vbody | VChunked chunkedReader

definition AccessDenied :: "string \<Rightarrow> aerr" where "AccessDenied m = AuthError ''AccessDenied'' m"
definition SkewError :: aerr where "SkewError = AuthError ''RequestTimeTooSkewed'' ''The difference between the request time and the current time is too large.''"
definition SignatureError :: aerr where "SignatureError = AuthError ''SignatureDoesNotMatch'' ''The request signature we calculated does not match the signature you provided.''"
definition KeyIdError :: aerr where "KeyIdError = AuthError ''InvalidAccessKeyId'' ''The Access Key Id you provided does not exist in our records.''"

definition dateHeader :: "request \<Rightarrow> string" where
  "dateHeader r = (let d = HeaderGet (rqHeader r) ''X-Amz-Date'' in if d = [] then HeaderGet (rqHeader r) ''Date'' else d)"

text \<open>What is checked before the signature: the parsed header, the date and its day.\<close>

definition checkAuthHeader :: "Credentials \<Rightarrow> date_parser \<Rightarrow> int \<Rightarrow> request \<Rightarrow> aerr + parsedAuth \<times> string \<times> string" where
  "checkAuthHeader creds rfc1123 now r =
    (let authHeader = HeaderGet (rqHeader r) ''Authorization'' in
     if authHeader = [] then Inl (AccessDenied ''missing Authorization header'')
     else case parseAuthHeader authHeader of
       Inl m \<Rightarrow> Inl (AccessDenied m)
     | Inr p \<Rightarrow>
       if paAccessKey p \<noteq> AccessKey creds then Inl KeyIdError
       else
         bindE (validateCredentialScope (paRegion p) (paService p)) (\<lambda>_.
         bindE (requireSignedHost (paSignedHeaders p)) (\<lambda>_.
         let dateStr = dateHeader r in
         if dateStr = [] then Inl (AccessDenied ''missing date header'')
         else case requestDate rfc1123 dateStr of
           None \<Rightarrow> Inl (AccessDenied ''invalid date format'')
         | Some (t, datestamp) \<Rightarrow>
             if \<bar>now - t\<bar> > maxClockSkew then Inl SkewError else Inr (p, dateStr, datestamp))))"

text \<open>What happens to the body once the signature checks out.\<close>

definition verifiedBody :: "crypto \<Rightarrow> int \<Rightarrow> string \<Rightarrow> string \<Rightarrow> string \<Rightarrow> string \<Rightarrow> request \<Rightarrow> aerr + vresult" where
  "verifiedBody cy maxPayload key dateStr scope sig r =
    (let ph = payloadHashHeader r in
     case streamingModes ph of
       Some mode \<Rightarrow>
         (case rqBody r of
            None \<Rightarrow> Inr (VBody None)
          | Some b \<Rightarrow> bindE (decodeStreamingPayload mode key dateStr scope sig maxPayload
                (HeaderGet (rqHeader r) ''X-Amz-Trailer'') (HeaderGet (rqHeader r) ''X-Amz-Decoded-Content-Length'') b)
              (\<lambda>c. Inr (VChunked c)))
     | None \<Rightarrow>
         if ph \<noteq> [] \<and> ph \<noteq> unsignedPayload
         then bindE (verifySignedPayload cy (rqBody r) (rqContentLength r) ph maxPayload) (\<lambda>b. Inr (VPayload b))
         else Inr (VBody (rqBody r)))"

definition verifyHeader ::
  "crypto \<Rightarrow> Credentials \<Rightarrow> int \<Rightarrow> date_parser \<Rightarrow> int \<Rightarrow> request \<Rightarrow> key_cache \<Rightarrow> (aerr + vresult) \<times> key_cache" where
  "verifyHeader cy creds maxPayload rfc1123 now r cache =
    (case checkAuthHeader creds rfc1123 now r of
       Inl e \<Rightarrow> (Inl e, cache)
     | Inr (p, dateStr, datestamp) \<Rightarrow>
       (case deriveSigningKey cy creds datestamp (paRegion p) (paService p) cache of (key, cache) \<Rightarrow>
        let scope = scopeOf datestamp (paRegion p) (paService p);
            expected = signatureOf cy key (stringToSign cy dateStr scope (buildCanonicalRequest r (paSignedHeaders p))) in
        if expected \<noteq> paSignature p then (Inl SignatureError, cache)
        else (verifiedBody cy maxPayload key dateStr scope expected r, cache)))"

subsection \<open>Presigned URLs\<close>

text \<open>The expiry of a presigned URL. A time.Duration is an int64 of nanoseconds.\<close>

definition presignWindow :: "int \<Rightarrow> string \<Rightarrow> string \<Rightarrow> aerr + unit" where
  "presignWindow now dateStr expires =
    (case parse_iso dateStr of
       None \<Rightarrow> Inl (AccessDenied ''invalid or missing X-Amz-Date'')
     | Some signedAt \<Rightarrow>
       if expires = [] then Inl (AccessDenied ''X-Amz-Expires is required for presigned requests'')
       else case Atoi expires of
         None \<Rightarrow> Inl (AccessDenied ''invalid expires value'')
       | Some dur \<Rightarrow>
         if dur \<le> 0 then Inl (AccessDenied ''invalid expires value'')
         else if int64 (dur * 1000000000) > maxPresignValidity
         then Inl (AccessDenied ''X-Amz-Expires exceeds the maximum allowed value of 604800 seconds'')
         else if now > signedAt + int64 (dur * 1000000000) then Inl (AccessDenied ''Request has expired'')
         else if signedAt > now + maxClockSkew then Inl SkewError
         else Inr ())"

record presigned =
  psDatestamp :: string
  psRegion :: string
  psService :: string
  psDate :: string
  psSignedHeaders :: "string list"
  psSignature :: string

definition checkPresigned :: "Credentials \<Rightarrow> int \<Rightarrow> url_values \<Rightarrow> aerr + presigned" where
  "checkPresigned creds now q =
    (case SplitByte CHR ''/'' (ValuesGet q ''X-Amz-Credential'') of
       [accessKey, datestamp, region, service, _] \<Rightarrow>
         if accessKey \<noteq> AccessKey creds then Inl KeyIdError
         else
           bindE (validateCredentialScope region service) (\<lambda>_.
           if length datestamp > maxCredentialScopePart then Inl (AccessDenied ''invalid credential format'')
           else
             let dateStr = ValuesGet q ''X-Amz-Date'';
                 signedHeaders = SplitByte CHR '';'' (ValuesGet q ''X-Amz-SignedHeaders'') in
             bindE (requireSignedHost signedHeaders) (\<lambda>_.
             bindE (presignWindow now dateStr (ValuesGet q ''X-Amz-Expires'')) (\<lambda>_.
             Inr \<lparr>psDatestamp = datestamp, psRegion = region, psService = service, psDate = dateStr,
                  psSignedHeaders = signedHeaders, psSignature = ValuesGet q amzSignatureQuery\<rparr>)))
     | _ \<Rightarrow> Inl (AccessDenied ''invalid credential format''))"

definition verifyPresigned :: "crypto \<Rightarrow> Credentials \<Rightarrow> int \<Rightarrow> request \<Rightarrow> key_cache \<Rightarrow> (aerr + vresult) \<times> key_cache" where
  "verifyPresigned cy creds now r cache =
    (case checkPresigned creds now (ParseQuery (uRawQuery (rqUrl r))) of
       Inl e \<Rightarrow> (Inl e, cache)
     | Inr p \<Rightarrow>
       (case deriveSigningKey cy creds (psDatestamp p) (psRegion p) (psService p) cache of (key, cache) \<Rightarrow>
        let scope = scopeOf (psDatestamp p) (psRegion p) (psService p);
            expected = signatureOf cy key (stringToSign cy (psDate p) scope (buildCanonicalRequestPresigned r (psSignedHeaders p))) in
        if expected \<noteq> psSignature p then (Inl SignatureError, cache)
        else (Inr (VBody (rqBody r)), cache)))"

definition Verify ::
  "crypto \<Rightarrow> Credentials \<Rightarrow> int \<Rightarrow> date_parser \<Rightarrow> int \<Rightarrow> request \<Rightarrow> key_cache \<Rightarrow> (aerr + vresult) \<times> key_cache" where
  "Verify cy creds maxPayload rfc1123 now r cache =
    (if ValuesGet (ParseQuery (uRawQuery (rqUrl r))) ''X-Amz-Algorithm'' \<noteq> [] then verifyPresigned cy creds now r cache
     else verifyHeader cy creds maxPayload rfc1123 now r cache)"

subsection \<open>PresignGetObject\<close>

text \<open>The signer's time, broken down as Format prints it.\<close>

record civil =
  cvYear :: int
  cvMonth :: int
  cvDay :: int
  cvHour :: int
  cvMinute :: int
  cvSecond :: int

definition dec_pad :: "nat \<Rightarrow> int \<Rightarrow> string" where
  "dec_pad w n = pad_zeros w (nat_dec (nat n))"

definition format_date :: "civil \<Rightarrow> string" where
  "format_date t = dec_pad 4 (cvYear t) @ dec_pad 2 (cvMonth t) @ dec_pad 2 (cvDay t)"

definition format_iso :: "civil \<Rightarrow> string" where
  "format_iso t = format_date t @ ''T'' @ dec_pad 2 (cvHour t) @ dec_pad 2 (cvMinute t) @ dec_pad 2 (cvSecond t) @ ''Z''"

text \<open>The loop puts a slash between the parts only once something has been written.\<close>

fun joinEscaped :: "string \<Rightarrow> string list \<Rightarrow> string" where
  "joinEscaped acc [] = acc"
| "joinEscaped acc (p # ps) = joinEscaped ((if acc \<noteq> [] then acc @ ''/'' else acc) @ PathEscape p) ps"

definition presignPath :: "string \<Rightarrow> string \<Rightarrow> string" where
  "presignPath bucket key = ''/'' @ bucket @ ''/'' @ joinEscaped [] (SplitByte CHR ''/'' (TrimPrefix key ''/''))"

definition presignQuery :: "string \<Rightarrow> string \<Rightarrow> civil \<Rightarrow> int \<Rightarrow> url_values \<Rightarrow> url_values" where
  "presignQuery accessKey region t expires extra =
    ValuesSet (ValuesSet (ValuesSet (ValuesSet (ValuesSet extra
      ''X-Amz-Algorithm'' ''AWS4-HMAC-SHA256'')
      ''X-Amz-Credential'' (accessKey @ ''/'' @ scopeOf (format_date t) region ''s3''))
      ''X-Amz-Date'' (format_iso t))
      ''X-Amz-Expires'' (Itoa expires))
      ''X-Amz-SignedHeaders'' ''host''"

text \<open>The path and the query of the URL; the endpoint is put before them. expires is in
  whole seconds.\<close>

definition PresignGetObject ::
  "crypto \<Rightarrow> string \<Rightarrow> string \<Rightarrow> string \<Rightarrow> civil \<Rightarrow> string \<Rightarrow> string \<Rightarrow> string \<Rightarrow> int \<Rightarrow> url_values \<Rightarrow> string \<times> string" where
  "PresignGetObject cy accessKey secretKey region t bucket key host expires extra =
    (let canonicalPath = presignPath bucket key;
         canonicalQuery = getCanonicalQueryString (presignQuery accessKey region t expires extra);
         canonicalRequest = sign_lines [''GET'', canonicalPath, canonicalQuery, ''host:'' @ host @ [lf], ''host'', unsignedPayload];
         sts = stringToSign cy (format_iso t) (scopeOf (format_date t) region ''s3'') canonicalRequest;
         signature = signatureOf cy (scopeKey cy secretKey (format_date t) region ''s3'') sts in
     (canonicalPath, canonicalQuery @ ''&'' @ amzSignatureQuery @ ''='' @ signature))"

end
