(* ===== verification/Sig_Query.thy ===== *)
theory Sig_Query
  imports Sig_V4 "HOL-Library.Multiset"
begin

text \<open>
  The canonical query string is an injective picture of the query's parameters, in
  whatever order they come; and reading it back gives them again.
\<close>

subsection \<open>Encoded parameters\<close>

lemma unreserved_not:
  "\<not> unreserved CHR 0x25" "\<not> unreserved CHR ''&''" "\<not> unreserved CHR ''=''" "\<not> unreserved CHR '';''" "\<not> unreserved CHR ''+''"
  "\<not> unreserved lf" "\<not> is_alnum CHR ''&''" "\<not> is_alnum CHR ''=''" "\<not> is_alnum CHR '';''" "\<not> is_alnum lf"
  by code_simp+

lemma aws_chars: "c \<in> set (awsPercentEncode s) \<Longrightarrow> unreserved c \<or> c = CHR 0x25 \<or> is_alnum c"
  unfolding awsPercentEncode_def by (rule escape_chars)

lemma aws_no: "CHR ''&'' \<notin> set (awsPercentEncode s)" "CHR ''='' \<notin> set (awsPercentEncode s)"
  "CHR '';'' \<notin> set (awsPercentEncode s)" "lf \<notin> set (awsPercentEncode s)"
  using aws_chars unreserved_not by blast+

lemma aws_unescape: "QueryUnescape (awsPercentEncode s) = Some s"
  unfolding awsPercentEncode_def
  by (rule unescape_escape [where keep = unreserved and qm = True]) (simp_all add: unreserved_not)

lemma canonicalPair_inject: "canonicalPair p = canonicalPair q \<longleftrightarrow> p = q"
proof
  assume e: "canonicalPair p = canonicalPair q"
  have c: "CutByte CHR ''='' (canonicalPair p) = (awsPercentEncode (fst p), awsPercentEncode (snd p), True)" for p
    unfolding canonicalPair_def by (rule CutByte_append) (rule aws_no)
  from c [of p] c [of q] e have "awsPercentEncode (fst p) = awsPercentEncode (fst q)" "awsPercentEncode (snd p) = awsPercentEncode (snd q)"
    by simp_all
  then have "fst p = fst q" "snd p = snd q" by (metis aws_unescape option.inject)+
  then show "p = q" by (rule prod_eqI)
qed (rule arg_cong)

lemma canonicalPair_no: "CHR ''&'' \<notin> set (canonicalPair p)" "CHR '';'' \<notin> set (canonicalPair p)" "lf \<notin> set (canonicalPair p)" "canonicalPair p \<noteq> []"
  using aws_no by (auto simp: canonicalPair_def)

subsection \<open>Sorting\<close>

definition sorted_pairs :: "url_values \<Rightarrow> url_values" where
  "sorted_pairs vs = concat (map (\<lambda>k. map (Pair k) (sort (map snd (filter (\<lambda>p. fst p = k) vs)))) (sort (remdups (map fst vs))))"

lemma canonical_sorted: "getCanonicalQueryString vs = JoinByte CHR ''&'' (map canonicalPair (sorted_pairs vs))"
  by (simp add: getCanonicalQueryString_def sorted_pairs_def map_concat comp_def)

lemma mset_group: "mset (map (Pair k) (sort (map snd (filter (\<lambda>p. fst p = k) vs)))) = filter_mset (\<lambda>p. fst p = k) (mset vs)"
proof -
  have "mset (map (Pair k) (sort (map snd (filter (\<lambda>p. fst p = k) vs)))) = mset (map (Pair k) (map snd (filter (\<lambda>p. fst p = k) vs)))"
    by (simp only: mset_map mset_sort)
  also have "map (Pair k) (map snd (filter (\<lambda>p. fst p = k) vs)) = filter (\<lambda>p. fst p = k) vs"
    by (induction vs) auto
  finally show ?thesis by simp
qed

lemma mset_groups:
  "distinct ks \<Longrightarrow> mset (concat (map (\<lambda>k. map (Pair k) (sort (map snd (filter (\<lambda>p. fst p = k) vs)))) ks)) =
    filter_mset (\<lambda>p. fst p \<in> set ks) (mset vs)"
proof (induction ks)
  case Nil
  then show ?case by simp
next
  case (Cons k ks)
  have "filter_mset (\<lambda>p. fst p = k) (mset vs) + filter_mset (\<lambda>p. fst p \<in> set ks) (mset vs) = filter_mset (\<lambda>p. fst p \<in> set (k # ks)) (mset vs)"
    by (rule multiset_eqI) (use Cons.prems in auto)
  moreover have "mset (concat (map (\<lambda>k. map (Pair k) (sort (map snd (filter (\<lambda>p. fst p = k) vs)))) ks)) = filter_mset (\<lambda>p. fst p \<in> set ks) (mset vs)"
    using Cons by simp
  ultimately show ?case by (simp only: list.map concat.simps mset_append mset_group)
qed

lemma mset_sorted_pairs: "mset (sorted_pairs vs) = mset vs"
proof -
  have "filter_mset (\<lambda>p. fst p \<in> set (sort (remdups (map fst vs)))) (mset vs) = mset vs"
    by (rule filter_mset_eq_conv [THEN iffD2]) auto
  then show ?thesis unfolding sorted_pairs_def by (subst mset_groups) simp_all
qed

lemma sorted_pairs_cong:
  assumes "mset vs = mset ws"
  shows "sorted_pairs vs = sorted_pairs ws"
proof -
  have "set (map fst vs) = set (map fst ws)" using mset_eq_setD [OF assms] by simp
  then have "sort (remdups (map fst vs)) = sort (remdups (map fst ws))"
    by (metis sorted_list_of_set_sort_remdups)
  moreover have "sort (map snd (filter (\<lambda>p. fst p = k) vs)) = sort (map snd (filter (\<lambda>p. fst p = k) ws))" for k
    by (rule properties_for_sort [symmetric]) (simp_all add: assms)
  ultimately show ?thesis by (simp add: sorted_pairs_def)
qed

lemma JoinByte_inject:
  assumes "JoinByte c ws = JoinByte c vs" and "\<forall>w\<in>set ws \<union> set vs. c \<notin> set w \<and> w \<noteq> []"
  shows "ws = vs"
proof -
  have ne: "JoinByte c xs \<noteq> []" if "xs \<noteq> []" "\<forall>w\<in>set xs. w \<noteq> []" for xs
    using that by (induction c xs rule: JoinByte.induct) auto
  show ?thesis
  proof (cases "ws = [] \<or> vs = []")
    case True
    with ne [of ws] ne [of vs] assms show ?thesis by auto
  next
    case False
    have "SplitByte c (JoinByte c ws) = ws" "SplitByte c (JoinByte c vs) = vs"
      by (rule Split_Join; use False assms(2) in blast)+
    with assms(1) show ?thesis by metis
  qed
qed

lemma canonical_query_iff: "getCanonicalQueryString vs = getCanonicalQueryString ws \<longleftrightarrow> mset vs = mset ws"
proof
  assume "getCanonicalQueryString vs = getCanonicalQueryString ws"
  then have "map canonicalPair (sorted_pairs vs) = map canonicalPair (sorted_pairs ws)"
    unfolding canonical_sorted by (rule JoinByte_inject) (use canonicalPair_no in auto)
  then have "sorted_pairs vs = sorted_pairs ws"
    by (rule map_injective) (simp add: inj_def canonicalPair_inject)
  then show "mset vs = mset ws" by (metis mset_sorted_pairs)
next
  assume "mset vs = mset ws"
  then have "sorted_pairs vs = sorted_pairs ws" by (rule sorted_pairs_cong)
  then show "getCanonicalQueryString vs = getCanonicalQueryString ws" by (simp only: canonical_sorted)
qed

lemma canonical_query_no_lf: "lf \<notin> set (getCanonicalQueryString vs)"
proof -
  have "lf \<notin> set (JoinByte CHR ''&'' ws)" if "\<forall>w\<in>set ws. lf \<notin> set w" for ws
    using that by (induction "CHR ''&''" ws rule: JoinByte.induct) auto
  then show ?thesis unfolding canonical_sorted using canonicalPair_no(3) by auto
qed

subsection \<open>Reading it back\<close>

lemma parse_pairs_canonical: "parse_pairs (map canonicalPair ps @ ws) = ps @ parse_pairs ws"
proof (induction ps)
  case Nil
  then show ?case by simp
next
  case (Cons p ps)
  have "CutByte CHR ''='' (canonicalPair p) = (awsPercentEncode (fst p), awsPercentEncode (snd p), True)"
    unfolding canonicalPair_def by (rule CutByte_append) (rule aws_no)
  with Cons canonicalPair_no [of p] show ?case by (simp add: aws_unescape)
qed

lemma ParseQuery_canonical:
  assumes "vs \<noteq> []" and "CHR ''&'' \<notin> set w"
  shows "ParseQuery (getCanonicalQueryString vs @ CHR ''&'' # w) = sorted_pairs vs @ parse_pairs [w]"
proof -
  have "sorted_pairs vs \<noteq> []" using mset_sorted_pairs [of vs] assms(1) by auto
  then have "SplitByte CHR ''&'' (getCanonicalQueryString vs) = map canonicalPair (sorted_pairs vs)"
    unfolding canonical_sorted by (intro Split_Join) (use canonicalPair_no in auto)
  moreover have "SplitByte CHR ''&'' w = [w]" using assms(2) by (rule Split_single)
  ultimately show ?thesis by (simp add: ParseQuery_def Split_append_sep parse_pairs_canonical)
qed

lemma ValuesGet_mset:
  assumes "mset vs = mset ws" and "filter (\<lambda>p. fst p = k) vs = [(k, v)]"
  shows "ValuesGet ws k = v"
proof -
  have "mset (filter (\<lambda>p. fst p = k) ws) = mset (filter (\<lambda>p. fst p = k) vs)" by (simp add: assms(1))
  then have "mset (filter (\<lambda>p. fst p = k) ws) = {#(k, v)#}" unfolding assms(2) by simp
  then have "filter (\<lambda>p. fst p = k) ws = [(k, v)]" by (simp only: mset_single_iff)
  then show ?thesis by (simp add: ValuesGet_def)
qed

end
