(* ===== verification/Sig_Props.thy ===== *)
theory Sig_Props
  imports Sig_Query Body_Props
begin

text \<open>
  Request signing: what the signing-key cache holds, when a request is fresh enough, what an
  accepted signature fixes of the request, and that the server accepts the URLs it signs.
\<close>

subsection \<open>The signing-key cache\<close>

text \<open>Every entry is the key of the one scope that has its cache key.\<close>

definition cache_ok :: "crypto \<Rightarrow> string \<Rightarrow> key_cache \<Rightarrow> bool" where
  "cache_ok cy secret cache \<longleftrightarrow> length cache \<le> maxSigningKeyCacheEntries \<and>
    (\<forall>d r s v. CHR ''/'' \<notin> set d \<and> CHR ''/'' \<notin> set r \<and> map_of cache (cacheKeyOf d r s) = Some v \<longrightarrow> v = scopeKey cy secret d r s)"

lemma cacheKeyOf_inject:
  assumes "cacheKeyOf d r s = cacheKeyOf d' r' s'" and "CHR ''/'' \<notin> set d" "CHR ''/'' \<notin> set r" "CHR ''/'' \<notin> set d'" "CHR ''/'' \<notin> set r'"
  shows "d = d' \<and> r = r' \<and> s = s'"
proof -
  have c: "CutByte CHR ''/'' (cacheKeyOf d r s) = (d, r @ ''/'' @ s, True)" if "CHR ''/'' \<notin> set d" for d r s
    using CutByte_append [OF that, of "r @ ''/'' @ s"] by (simp add: cacheKeyOf_def)
  have e: "CutByte CHR ''/'' (r @ ''/'' @ s) = (r, s, True)" if "CHR ''/'' \<notin> set r" for r s
    using CutByte_append [OF that, of s] by simp
  from c [OF assms(2), of r s] c [OF assms(4), of r' s'] assms(1) have h: "d = d'" "r @ ''/'' @ s = r' @ ''/'' @ s'" by (metis prod.inject)+
  from e [OF assms(3), of s] e [OF assms(5), of s'] h(2) have "r = r'" "s = s'" by (metis prod.inject)+
  with h show ?thesis by simp
qed

lemma length_update: "length (AList.update k v xs) = (if k \<in> fst ` set xs then length xs else Suc (length xs))"
  by (induction xs) auto

lemma deriveSigningKey_ok:
  assumes "cache_ok cy (SecretKey creds) cache" and "CHR ''/'' \<notin> set d" "CHR ''/'' \<notin> set r"
    and "deriveSigningKey cy creds d r s cache = (key, cache')"
  shows "key = scopeKey cy (SecretKey creds) d r s \<and> cache_ok cy (SecretKey creds) cache'"
proof (cases "map_of cache (cacheKeyOf d r s)")
  case (Some v)
  with assms show ?thesis by (auto simp: deriveSigningKey_def cache_ok_def)
next
  case None
  let ?base = "if length cache \<ge> maxSigningKeyCacheEntries then [] else cache"
  from assms(4) None have k: "key = scopeKey cy (SecretKey creds) d r s"
    and c: "cache' = AList.update (cacheKeyOf d r s) (scopeKey cy (SecretKey creds) d r s) ?base"
    by (auto simp: deriveSigningKey_def storeSigningKey_def Let_def)
  have "v = scopeKey cy (SecretKey creds) d' r' s'"
    if h: "CHR ''/'' \<notin> set d'" "CHR ''/'' \<notin> set r'" "map_of cache' (cacheKeyOf d' r' s') = Some v" for d' r' s' v
  proof (cases "cacheKeyOf d' r' s' = cacheKeyOf d r s")
    case True
    with cacheKeyOf_inject [OF True h(1,2) assms(2,3)] h(3) show ?thesis unfolding c by (simp add: update_conv')
  next
    case False
    with h(3) have "map_of ?base (cacheKeyOf d' r' s') = Some v" unfolding c by (simp add: update_conv')
    with assms(1) h(1,2) show ?thesis by (auto simp: cache_ok_def split: if_splits)
  qed
  moreover have "length cache' \<le> maxSigningKeyCacheEntries"
    unfolding c using assms(1) by (auto simp: length_update cache_ok_def maxSigningKeyCacheEntries_def)
  ultimately show ?thesis using k by (auto simp: cache_ok_def)
qed

subsection \<open>Fresh requests\<close>

lemma checkAuthHeader_ok:
  assumes "checkAuthHeader creds rfc now r = Inr (p, dateStr, day)"
  obtains t where "parseAuthHeader (HeaderGet (rqHeader r) ''Authorization'') = Inr p" "paAccessKey p = AccessKey creds"
    "validateCredentialScope (paRegion p) (paService p) = Inr ()" "requireSignedHost (paSignedHeaders p) = Inr ()"
    "dateStr = dateHeader r" "requestDate rfc dateStr = Some (t, day)" "\<bar>now - t\<bar> \<le> maxClockSkew"
proof -
  from assms obtain p' where p: "parseAuthHeader (HeaderGet (rqHeader r) ''Authorization'') = Inr p'"
    by (auto simp: checkAuthHeader_def Let_def split: if_splits sum.splits)
  from assms p have "requestDate rfc (dateHeader r) \<noteq> None"
    by (auto simp: checkAuthHeader_def Let_def bindE_Inr_iff split: if_splits option.splits prod.splits)
  then obtain t day' where t: "requestDate rfc (dateHeader r) = Some (t, day')" by auto
  from assms p t show thesis
    by (intro that [of t]) (auto simp: checkAuthHeader_def Let_def bindE_Inr_iff split: if_splits)
qed

lemma presignWindow_ok:
  assumes "presignWindow now dateStr expires = Inr ()"
  shows "\<exists>t. parse_iso dateStr = Some t \<and> t - maxClockSkew \<le> now \<and> now \<le> t + maxPresignValidity"
  using assms by (auto simp: presignWindow_def split: option.splits if_splits)

lemma checkPresigned_ok:
  assumes "checkPresigned creds now q = Inr p"
  shows "\<exists>x. SplitByte CHR ''/'' (ValuesGet q ''X-Amz-Credential'') = [AccessKey creds, psDatestamp p, psRegion p, psService p, x] \<and>
    validateCredentialScope (psRegion p) (psService p) = Inr () \<and> psDate p = ValuesGet q ''X-Amz-Date'' \<and>
    presignWindow now (psDate p) (ValuesGet q ''X-Amz-Expires'') = Inr () \<and> psSignature p = ValuesGet q amzSignatureQuery \<and>
    psSignedHeaders p = SplitByte CHR '';'' (ValuesGet q ''X-Amz-SignedHeaders'')"
  using assms by (auto simp: checkPresigned_def Let_def bindE_Inr_iff split: list.splits if_splits)

text \<open>C31: an accepted request is fresh: one signed in its header was dated within fifteen
  minutes of the server's clock, and a presigned URL is used at most seven days after its
  date and at most fifteen minutes before it, whatever X-Amz-Expires says - also for values
  whose number of nanoseconds overflows.\<close>

theorem accepted_requests_are_fresh:
  assumes "Verify cy creds mx rfc now r cache = (Inr b, cache')"
  shows "if ValuesGet (ParseQuery (uRawQuery (rqUrl r))) ''X-Amz-Algorithm'' \<noteq> []
    then \<exists>t. parse_iso (ValuesGet (ParseQuery (uRawQuery (rqUrl r))) ''X-Amz-Date'') = Some t \<and>
      t - 900 * 1000000000 \<le> now \<and> now \<le> t + 604800 * 1000000000
    else \<exists>t day. requestDate rfc (dateHeader r) = Some (t, day) \<and> \<bar>now - t\<bar> \<le> 900 * 1000000000"
proof (cases "ValuesGet (ParseQuery (uRawQuery (rqUrl r))) ''X-Amz-Algorithm'' \<noteq> []")
  case True
  with assms obtain p where "checkPresigned creds now (ParseQuery (uRawQuery (rqUrl r))) = Inr p"
    by (auto simp: Verify_def verifyPresigned_def split: sum.splits)
  from checkPresigned_ok [OF this] presignWindow_ok True show ?thesis
    by (auto simp: maxClockSkew_def maxPresignValidity_def)
next
  case False
  with assms obtain p d y where c: "checkAuthHeader creds rfc now r = Inr (p, d, y)"
    by (auto simp: Verify_def verifyHeader_def split: sum.splits prod.splits)
  obtain t where "requestDate rfc (dateHeader r) = Some (t, y)" "\<bar>now - t\<bar> \<le> maxClockSkew"
    using checkAuthHeader_ok [OF c] by metis
  with False show ?thesis by (auto simp: maxClockSkew_def)
qed

subsection \<open>What a signature fixes\<close>

text \<open>net/http delivers no newline in a method, a host or a header. Header values are taken
  to be ASCII, where ToLower and TrimSpace are Go's.\<close>

definition one_line :: "request \<Rightarrow> bool" where
  "one_line r \<longleftrightarrow> lf \<notin> set (rqMethod r) \<and> lf \<notin> set (rqHost r) \<and> (\<forall>(k, v)\<in>set (rqHeader r). \<forall>c\<in>set v. c \<noteq> lf \<and> byte c < 128)"

lemma one_line_header: "one_line r \<Longrightarrow> (k, v) \<in> set (rqHeader r) \<Longrightarrow> lf \<notin> set v"
  unfolding one_line_def by blast

lemma HeaderGet_no_lf: "one_line r \<Longrightarrow> lf \<notin> set (HeaderGet (rqHeader r) name)"
proof -
  assume o: "one_line r"
  have "HeaderGet (rqHeader r) name = [] \<or> (\<exists>k. (k, HeaderGet (rqHeader r) name) \<in> set (rqHeader r))"
  proof (cases "filter (\<lambda>p. fst p = CanonicalMIMEHeaderKey name) (rqHeader r)")
    case Nil
    then show ?thesis by (simp add: HeaderGet_def ValuesGet_def)
  next
    case (Cons p ps)
    then have "p \<in> set (filter (\<lambda>p. fst p = CanonicalMIMEHeaderKey name) (rqHeader r))" by simp
    then have "p \<in> set (rqHeader r)" by simp
    with Cons show ?thesis by (cases p) (auto simp: HeaderGet_def ValuesGet_def)
  qed
  then show ?thesis using one_line_header [OF o] by (elim disjE exE) (simp, blast)
qed

lemma no_lf_sublist: "sublist s t \<Longrightarrow> lf \<notin> set t \<Longrightarrow> lf \<notin> set s"
  using set_mono_sublist by fastforce

lemma EscapedPath_no_lf: "lf \<notin> set (EscapedPath u)"
proof -
  have k: "\<not> keep_path lf" by code_simp
  have "\<forall>c\<in>set (url_escape keep_path s). c \<noteq> lf" for s
    using escape_chars [of _ keep_path s] k unreserved_not(10) by fastforce
  moreover have "valid_encoded s \<Longrightarrow> lf \<notin> set s" for s
    using k by (auto simp: valid_encoded_def)
  ultimately show ?thesis by (auto simp: EscapedPath_def)
qed

lemma sign_lines_Cons: "ls \<noteq> [] \<Longrightarrow> sign_lines (x # ls) = x @ lf # sign_lines ls"
  by (cases ls) (simp_all add: sign_lines_def)

lemma peel_first:
  assumes "x @ lf # s = y @ lf # t" and "lf \<notin> set x" and "lf \<notin> set y"
  shows "x = y \<and> s = t"
  using CutByte_append [OF assms(2), of s] CutByte_append [OF assms(3), of t] unfolding assms(1) by simp

lemma peel_last:
  assumes "s @ lf # x = t @ lf # y" and "lf \<notin> set x" and "lf \<notin> set y"
  shows "s = t \<and> x = y"
proof -
  have "rev x @ lf # rev s = rev y @ lf # rev t" using arg_cong [OF assms(1), of rev] by simp
  from peel_first [OF this] assms(2,3) show ?thesis by simp
qed

lemma canonicalHeader_line:
  obtains v where "canonicalHeader r h = (ToLower (TrimSpace h) @ '':'' @ v) @ [lf]"
    "one_line r \<Longrightarrow> lf \<notin> set v"
    "v = (let w = TrimSpace (HeaderGet (rqHeader r) (ToLower (TrimSpace h))) in if ToLower (TrimSpace h) = ''host'' \<and> w = [] then rqHost r else w)"
proof (rule that)
  let ?w = "TrimSpace (HeaderGet (rqHeader r) (ToLower (TrimSpace h)))"
  show "canonicalHeader r h = (ToLower (TrimSpace h) @ '':'' @ (if ToLower (TrimSpace h) = ''host'' \<and> ?w = [] then rqHost r else ?w)) @ [lf]"
    by (simp add: canonicalHeader_def Let_def)
  show "one_line r \<Longrightarrow> lf \<notin> set (if ToLower (TrimSpace h) = ''host'' \<and> ?w = [] then rqHost r else ?w)"
    using HeaderGet_no_lf no_lf_sublist [OF TrimSpace_sublist] by (auto simp: one_line_def)
qed (simp add: Let_def)

lemma lower_char_lf: "lower_char c = lf \<Longrightarrow> c = lf"
proof (rule ccontr)
  assume e: "lower_char c = lf" and n: "c \<noteq> lf"
  have b: "byte (char_of n) = n mod 256" for n :: nat by (simp add: byte_def)
  have l: "byte lf = 10" by code_simp
  from e n have c: "65 \<le> byte c" "byte c \<le> 90" "char_of (byte c + 32) = lf" by (auto simp: lower_char_def split: if_splits)
  from arg_cong [OF c(3), of byte] c(2) have "byte c + 32 = 10" by (simp only: b l) simp
  with c(1) show False by linarith
qed

lemma ToLower_no_lf: "lf \<notin> set s \<Longrightarrow> lf \<notin> set (ToLower s)"
  using lower_char_lf by (force simp: ToLower_def)

text \<open>The headers of a canonical request, one line each, determine each other line by line.\<close>

lemma header_lines:
  assumes "concat (map (canonicalHeader r) hs) = concat (map (canonicalHeader r') hs)"
    and "one_line r" "one_line r'" and "\<forall>h\<in>set hs. lf \<notin> set h"
  shows "\<forall>h\<in>set hs. canonicalHeader r h = canonicalHeader r' h"
  using assms(1,4)
proof (induction hs)
  case Nil
  then show ?case by simp
next
  case (Cons h hs)
  obtain v where v: "canonicalHeader r h = (ToLower (TrimSpace h) @ '':'' @ v) @ [lf]" "lf \<notin> set v"
    using canonicalHeader_line [of r h] assms(2) by metis
  obtain w where w: "canonicalHeader r' h = (ToLower (TrimSpace h) @ '':'' @ w) @ [lf]" "lf \<notin> set w"
    using canonicalHeader_line [of r' h] assms(3) by metis
  have "lf \<notin> set (ToLower (TrimSpace h))"
    using Cons.prems(2) no_lf_sublist [OF TrimSpace_sublist] by (intro ToLower_no_lf) auto
  with v(2) w(2) have n: "lf \<notin> set (ToLower (TrimSpace h) @ '':'' @ v)" "lf \<notin> set (ToLower (TrimSpace h) @ '':'' @ w)" by auto
  have "(ToLower (TrimSpace h) @ '':'' @ v) @ lf # concat (map (canonicalHeader r) hs) =
      (ToLower (TrimSpace h) @ '':'' @ w) @ lf # concat (map (canonicalHeader r') hs)"
    using Cons.prems(1) v(1) w(1) by simp
  from peel_first [OF this n] Cons v(1) w(1) show ?case by auto
qed

lemma canonicalText_lines:
  "canonicalText r q hs ph = rqMethod r @ lf # getCanonicalURI (rqUrl r) @ lf # getCanonicalQueryString q @ lf #
    (concat (map (canonicalHeader r) (sort hs)) @ lf # JoinByte CHR '';'' (sort hs)) @ lf # ph"
  by (simp add: canonicalText_def sign_lines_def)

lemma sort_ne: "xs \<noteq> [] \<Longrightarrow> sort xs \<noteq> []" for xs :: "'a :: linorder list"
  by (metis length_0_conv length_sort)

lemma canonical_fixes:
  assumes e: "canonicalText r q hs ph = canonicalText r' q' hs' ph'" and o: "one_line r" "one_line r'"
    and h: "hs \<noteq> []" "hs' \<noteq> []" "\<forall>h\<in>set hs \<union> set hs'. lf \<notin> set h \<and> CHR '';'' \<notin> set h" and p: "lf \<notin> set ph" "lf \<notin> set ph'"
  shows "rqMethod r = rqMethod r' \<and> getCanonicalURI (rqUrl r) = getCanonicalURI (rqUrl r') \<and> mset q = mset q' \<and>
    mset hs = mset hs' \<and> (\<forall>h\<in>set hs. canonicalHeader r h = canonicalHeader r' h) \<and> ph = ph'"
proof -
  have u: "lf \<notin> set (getCanonicalURI u)" for u using EscapedPath_no_lf by (auto simp: getCanonicalURI_def Let_def)
  have j: "lf \<notin> set (JoinByte CHR '';'' ws)" if "\<forall>w\<in>set ws. lf \<notin> set w" for ws
    using that by (induction "CHR '';''" ws rule: JoinByte.induct) auto
  note e1 = e [unfolded canonicalText_lines]
  have m: "rqMethod r = rqMethod r'" and e2: "getCanonicalURI (rqUrl r) @ lf # getCanonicalQueryString q @ lf #
      (concat (map (canonicalHeader r) (sort hs)) @ lf # JoinByte CHR '';'' (sort hs)) @ lf # ph =
    getCanonicalURI (rqUrl r') @ lf # getCanonicalQueryString q' @ lf #
      (concat (map (canonicalHeader r') (sort hs')) @ lf # JoinByte CHR '';'' (sort hs')) @ lf # ph'"
    using peel_first [OF e1] o by (auto simp: one_line_def)
  from peel_first [OF e2 u u] have ur: "getCanonicalURI (rqUrl r) = getCanonicalURI (rqUrl r')"
    and e3: "getCanonicalQueryString q @ lf # (concat (map (canonicalHeader r) (sort hs)) @ lf # JoinByte CHR '';'' (sort hs)) @ lf # ph =
      getCanonicalQueryString q' @ lf # (concat (map (canonicalHeader r') (sort hs')) @ lf # JoinByte CHR '';'' (sort hs')) @ lf # ph'" by auto
  from peel_first [OF e3 canonical_query_no_lf canonical_query_no_lf] have q: "mset q = mset q'"
    and e4: "(concat (map (canonicalHeader r) (sort hs)) @ lf # JoinByte CHR '';'' (sort hs)) @ lf # ph =
      (concat (map (canonicalHeader r') (sort hs')) @ lf # JoinByte CHR '';'' (sort hs')) @ lf # ph'"
    by (auto simp: canonical_query_iff)
  from peel_last [OF e4 p] have ph: "ph = ph'" and e5: "concat (map (canonicalHeader r) (sort hs)) @ lf # JoinByte CHR '';'' (sort hs) =
      concat (map (canonicalHeader r') (sort hs')) @ lf # JoinByte CHR '';'' (sort hs')" by auto
  have "lf \<notin> set (JoinByte CHR '';'' (sort hs))" "lf \<notin> set (JoinByte CHR '';'' (sort hs'))" using h(3) by (intro j; simp)+
  from peel_last [OF e5 this] have hh: "concat (map (canonicalHeader r) (sort hs)) = concat (map (canonicalHeader r') (sort hs'))"
    and jj: "JoinByte CHR '';'' (sort hs) = JoinByte CHR '';'' (sort hs')" by auto
  have c: "\<forall>w\<in>set (sort hs). CHR '';'' \<notin> set w" "\<forall>w\<in>set (sort hs'). CHR '';'' \<notin> set w"
    unfolding set_sort using h(3) by blast+
  have s: "sort hs = sort hs'"
    using Split_Join [OF sort_ne [OF h(1)] c(1)] Split_Join [OF sort_ne [OF h(2)] c(2)] unfolding jj by (rule trans [OF sym])
  from header_lines [OF hh [folded s] o] h(3) have "\<forall>x\<in>set hs. canonicalHeader r x = canonicalHeader r' x" by simp
  moreover have "mset hs = mset hs'" using s by (metis mset_sort)
  ultimately show ?thesis using m ur q ph by simp
qed

lemma SplitComma_sub: "x \<in> set (SplitComma s) \<Longrightarrow> set x \<subseteq> set s"
proof (induction s arbitrary: x rule: SplitComma.induct)
  case (1 c d s)
  show ?case
  proof (cases "c = CHR '','' \<and> d = CHR '' ''")
    case True
    with 1 show ?thesis by fastforce
  next
    case False
    with 1(2) [OF False] 1(3) show ?thesis by (auto split: list.splits) (metis insertE list.set_intros subsetD)+
  qed
qed auto

lemma CutByte_sub: "CutByte c s = (a, b, found) \<Longrightarrow> set a \<subseteq> set s \<and> set b \<subseteq> set s"
  unfolding CutByte_def using set_takeWhileD set_dropWhileD set_drop_subset by (metis (no_types, lifting) prod.inject subsetD subsetI)

lemma Split_sub: "w \<in> set (SplitByte c s) \<Longrightarrow> set w \<subseteq> set s"
proof (induction s arbitrary: w)
  case (Cons x s)
  obtain v vs where v: "SplitByte c s = v # vs" by (cases "SplitByte c s") auto
  with Cons.IH [of v] Cons.IH [of w] Cons.prems show ?case by (auto split: if_splits)
qed auto

lemma authPart_headers:
  assumes "lf \<notin> set part" and "\<forall>h\<in>set (paSignedHeaders p). lf \<notin> set h \<and> CHR '';'' \<notin> set h"
  shows "\<forall>h\<in>set (paSignedHeaders (authPart part p)). lf \<notin> set h \<and> CHR '';'' \<notin> set h"
proof -
  obtain k v f where c: "CutByte CHR ''='' part = (k, v, f)" by (cases "CutByte CHR ''='' part") auto
  have "lf \<notin> set (TrimSpace v)" using CutByte_sub [OF c] assms(1) no_lf_sublist [OF TrimSpace_sublist] by auto
  then have "\<forall>h\<in>set (SplitByte CHR '';'' (TrimSpace v)). lf \<notin> set h \<and> CHR '';'' \<notin> set h"
    using Split_no_sep Split_sub by (metis subsetD)
  with assms(2) c show ?thesis by (auto simp: authPart_def Let_def split: list.splits)
qed

lemma parseAuthHeader_headers:
  assumes "parseAuthHeader s = Inr p" and "lf \<notin> set s"
  shows "\<forall>h\<in>set (paSignedHeaders p). lf \<notin> set h \<and> CHR '';'' \<notin> set h"
proof -
  have f: "\<forall>h\<in>set (paSignedHeaders (fold authPart ps q)). lf \<notin> set h \<and> CHR '';'' \<notin> set h"
    if "\<forall>x\<in>set ps. lf \<notin> set x" "\<forall>h\<in>set (paSignedHeaders q). lf \<notin> set h \<and> CHR '';'' \<notin> set h" for ps q
    using that
  proof (induction ps arbitrary: q)
    case (Cons x ps)
    have "lf \<notin> set x" using Cons.prems(1) by simp
    from Cons.IH [OF _ authPart_headers [OF this Cons.prems(2)]] Cons.prems(1) show ?case by simp
  qed simp
  have "lf \<notin> set (TrimPrefix s authScheme)" using assms(2) in_set_dropD unfolding TrimPrefix_def by (metis (full_types))
  then have "\<forall>x\<in>set (SplitComma (TrimPrefix s authScheme)). lf \<notin> set x" using SplitComma_sub by blast
  note g = f [OF this, of "\<lparr>paCredential = [], paAccessKey = [], paDate = [], paRegion = [], paService = [], paSignedHeaders = [], paSignature = []\<rparr>"]
  from assms(1) have "p = fold authPart (SplitComma (TrimPrefix s authScheme))
      \<lparr>paCredential = [], paAccessKey = [], paDate = [], paRegion = [], paService = [], paSignedHeaders = [], paSignature = []\<rparr>"
    unfolding parseAuthHeader_def Let_def by (auto split: if_splits)
  then show ?thesis using g by auto
qed

lemma authPart_region: "CHR ''/'' \<notin> set (paRegion p) \<Longrightarrow> CHR ''/'' \<notin> set (paRegion (authPart part p))"
proof -
  assume p: "CHR ''/'' \<notin> set (paRegion p)"
  obtain k v f where c: "CutByte CHR ''='' part = (k, v, f)" by (cases "CutByte CHR ''='' part") auto
  have "CHR ''/'' \<notin> set w" if "SplitByte CHR ''/'' (TrimSpace v) = a # b # w # ws" for a b w ws
    by (rule Split_no_sep [where s = "TrimSpace v"]) (simp add: that)
  with p c show ?thesis by (auto simp: authPart_def Let_def split: list.splits)
qed

lemma parseAuthHeader_region: "parseAuthHeader s = Inr p \<Longrightarrow> CHR ''/'' \<notin> set (paRegion p)"
proof -
  assume p: "parseAuthHeader s = Inr p"
  have f: "CHR ''/'' \<notin> set (paRegion (fold authPart ps q))" if "CHR ''/'' \<notin> set (paRegion q)" for ps q
    using that by (induction ps arbitrary: q) (simp_all add: authPart_region)
  show ?thesis
    using p f [of "\<lparr>paCredential = [], paAccessKey = [], paDate = [], paRegion = [], paService = [], paSignedHeaders = [], paSignature = []\<rparr>"]
    unfolding parseAuthHeader_def Let_def by (auto split: if_splits)
qed

text \<open>What an accepted request's signature was computed from: the key with the string to
  sign, the canonical request, and the header names it covers.\<close>

definition sigHeaders :: "request \<Rightarrow> string list" where
  "sigHeaders r = (case parseAuthHeader (HeaderGet (rqHeader r) ''Authorization'') of Inr p \<Rightarrow> paSignedHeaders p | Inl _ \<Rightarrow> [])"

definition sigCanonical :: "request \<Rightarrow> string" where
  "sigCanonical r = buildCanonicalRequest r (sigHeaders r)"

definition sigInput :: "crypto \<Rightarrow> Credentials \<Rightarrow> date_parser \<Rightarrow> request \<Rightarrow> string \<times> string" where
  "sigInput cy creds rfc r =
    (case (parseAuthHeader (HeaderGet (rqHeader r) ''Authorization''), requestDate rfc (dateHeader r)) of
       (Inr p, Some (t, day)) \<Rightarrow> (scopeKey cy (SecretKey creds) day (paRegion p) (paService p),
         stringToSign cy (dateHeader r) (scopeOf day (paRegion p) (paService p)) (sigCanonical r))
     | _ \<Rightarrow> ([], []))"

lemma requestDate_no_slash:
  assumes "\<forall>s t day. rfc s = Some (t, day) \<longrightarrow> CHR ''/'' \<notin> set day" and "requestDate rfc s = Some (t, day)"
  shows "CHR ''/'' \<notin> set day"
proof (cases "parse_iso s")
  case None
  with assms show ?thesis by (auto simp: requestDate_def)
next
  case (Some t')
  have d: "is_digit c \<Longrightarrow> c \<noteq> CHR ''/''" for c by (auto simp: is_digit_def)
  have n: "CHR ''/'' \<notin> set x" if "digits x = Some y" for x y
    using that d by (auto simp: digits_def split: if_splits)
  from Some obtain a b c where "digits (take 4 s) = Some a" "digits (take 2 (drop 4 s)) = Some b" "digits (take 2 (drop 6 s)) = Some c"
    by (auto simp: parse_iso_def split: option.splits)
  then have "CHR ''/'' \<notin> set (take 4 s) \<union> (set (take 2 (drop 4 s)) \<union> set (take 2 (drop 6 s)))" using n by blast
  moreover have "take 8 s = take 4 s @ take 2 (drop 4 s) @ take 2 (drop 6 s)"
    using take_add [of 4 4 s] take_add [of 2 2 "drop 4 s"] by simp
  ultimately have "CHR ''/'' \<notin> set (take 8 s)" by (simp only: set_append) simp
  then show ?thesis using assms(2) Some by (auto simp: requestDate_def)
qed

lemma verifyHeader_ok:
  assumes "verifyHeader cy creds mx rfc now r cache = (Inr b, cache')" and "cache_ok cy (SecretKey creds) cache"
    and "\<forall>s t day. rfc s = Some (t, day) \<longrightarrow> CHR ''/'' \<notin> set day"
  obtains p scope where "parseAuthHeader (HeaderGet (rqHeader r) ''Authorization'') = Inr p"
    "paSignature p = hex_encode (cyHMAC cy (fst (sigInput cy creds rfc r)) (snd (sigInput cy creds rfc r)))"
    "snd (sigInput cy creds rfc r) = stringToSign cy (dateHeader r) scope (sigCanonical r)"
    "sigHeaders r \<noteq> []" "cache_ok cy (SecretKey creds) cache'"
proof -
  from assms(1) obtain p d y where c: "checkAuthHeader creds rfc now r = Inr (p, d, y)"
    by (auto simp: verifyHeader_def split: sum.splits prod.splits)
  obtain t where t: "parseAuthHeader (HeaderGet (rqHeader r) ''Authorization'') = Inr p"
      "validateCredentialScope (paRegion p) (paService p) = Inr ()" "requireSignedHost (paSignedHeaders p) = Inr ()"
      "d = dateHeader r" "requestDate rfc d = Some (t, y)"
    using checkAuthHeader_ok [OF c] by metis
  obtain key ca where k: "deriveSigningKey cy creds y (paRegion p) (paService p) cache = (key, ca)" by fastforce
  have r: "CHR ''/'' \<notin> set (paRegion p)" using parseAuthHeader_region [OF t(1)] .
  from deriveSigningKey_ok [OF assms(2) requestDate_no_slash [OF assms(3) t(5)] r k]
  have key: "key = scopeKey cy (SecretKey creds) y (paRegion p) (paService p)" "cache_ok cy (SecretKey creds) ca" by simp_all
  have s: "sigInput cy creds rfc r = (key, stringToSign cy d (scopeOf y (paRegion p) (paService p)) (sigCanonical r))" "sigHeaders r = paSignedHeaders p"
    using t key by (simp_all add: sigInput_def sigHeaders_def)
  have "sigHeaders r \<noteq> []" using t(3) s(2) by (auto simp: requireSignedHost_def split: if_splits)
  with that [OF t(1), of "scopeOf y (paRegion p) (paService p)"] assms(1) c k s t(4) key(2) show thesis
    by (auto simp: verifyHeader_def Let_def sigCanonical_def signatureOf_def hmacSHA256_def split: if_splits)
qed

lemma hashSHA256_no_lf: "lf \<notin> set (hashSHA256 cy s)"
proof -
  have "lf \<notin> set hex_digits" by code_simp
  then show ?thesis using hex_encode_set by (auto simp: hashSHA256_def)
qed

lemma stringToSign_fixes:
  assumes "stringToSign cy d sc c = stringToSign cy d' sc' c'" and "lf \<notin> set d" "lf \<notin> set d'"
  shows "d = d' \<and> cySum cy SHA256 c = cySum cy SHA256 c'"
proof -
  have l: "stringToSign cy d sc c = ''AWS4-HMAC-SHA256'' @ lf # d @ lf # sc @ lf # hashSHA256 cy c" for d sc c
    by (simp add: stringToSign_def sign_lines_def)
  from assms(1) have e: "d @ lf # sc @ lf # hashSHA256 cy c = d' @ lf # sc' @ lf # hashSHA256 cy c'" by (simp add: l)
  from peel_first [OF e assms(2,3)] have "d = d'" "sc @ lf # hashSHA256 cy c = sc' @ lf # hashSHA256 cy c'" by simp_all
  with peel_last [OF this(2) hashSHA256_no_lf hashSHA256_no_lf] show ?thesis
    unfolding hashSHA256_def by (metis hex_decode_encode option.inject)
qed

text \<open>C12: a signature in the Authorization header fixes the request. If two requests are
  accepted with the same signature - one of them the client's, say, and the other one built
  from what was seen on the wire - they have the same date, method, path, query parameters
  with their multiplicities, signed header names, values of the signed headers, and payload
  hash; or they exhibit a collision of HMAC-SHA256 or SHA-256 on what was signed.\<close>

theorem signature_fixes_request:
  assumes "one_line r" and "one_line r'"
    and "verifyHeader cy creds mx rfc now r cache = (Inr b, cache1)" and "verifyHeader cy creds mx' rfc now' r' cache' = (Inr b', cache1')"
    and "cache_ok cy (SecretKey creds) cache" and "cache_ok cy (SecretKey creds) cache'"
    and "parseAuthHeader (HeaderGet (rqHeader r) ''Authorization'') = Inr p" and "parseAuthHeader (HeaderGet (rqHeader r') ''Authorization'') = Inr p'"
    and "paSignature p = paSignature p'" and "\<forall>s t day. rfc s = Some (t, day) \<longrightarrow> CHR ''/'' \<notin> set day"
  shows "dateHeader r = dateHeader r' \<and> rqMethod r = rqMethod r' \<and> getCanonicalURI (rqUrl r) = getCanonicalURI (rqUrl r') \<and>
      mset (ParseQuery (uRawQuery (rqUrl r))) = mset (ParseQuery (uRawQuery (rqUrl r'))) \<and>
      mset (paSignedHeaders p) = mset (paSignedHeaders p') \<and>
      (\<forall>h\<in>set (paSignedHeaders p). canonicalHeader r h = canonicalHeader r' h) \<and>
      (if payloadHashHeader r = [] then unsignedPayload else payloadHashHeader r) = (if payloadHashHeader r' = [] then unsignedPayload else payloadHashHeader r') \<or>
    (case (sigInput cy creds rfc r, sigInput cy creds rfc r') of ((k, x), (k', x')) \<Rightarrow> (k, x) \<noteq> (k', x') \<and> cyHMAC cy k x = cyHMAC cy k' x') \<or>
    sigCanonical r \<noteq> sigCanonical r' \<and> cySum cy SHA256 (sigCanonical r) = cySum cy SHA256 (sigCanonical r')"
proof -
  obtain sc where s: "paSignature p = hex_encode (cyHMAC cy (fst (sigInput cy creds rfc r)) (snd (sigInput cy creds rfc r)))"
      "snd (sigInput cy creds rfc r) = stringToSign cy (dateHeader r) sc (sigCanonical r)" "sigHeaders r \<noteq> []"
    using verifyHeader_ok [OF assms(3,5,10)] assms(7) by (metis sum.inject(2))
  obtain sc' where s': "paSignature p' = hex_encode (cyHMAC cy (fst (sigInput cy creds rfc r')) (snd (sigInput cy creds rfc r')))"
      "snd (sigInput cy creds rfc r') = stringToSign cy (dateHeader r') sc' (sigCanonical r')" "sigHeaders r' \<noteq> []"
    using verifyHeader_ok [OF assms(4,6,10)] assms(8) by (metis sum.inject(2))
  have h: "cyHMAC cy (fst (sigInput cy creds rfc r)) (snd (sigInput cy creds rfc r)) = cyHMAC cy (fst (sigInput cy creds rfc r')) (snd (sigInput cy creds rfc r'))"
    using s(1) s'(1) assms(9) by (metis hex_decode_encode option.inject)
  have d: "lf \<notin> set (dateHeader r)" "lf \<notin> set (dateHeader r')" "lf \<notin> set (payloadHashHeader r)" "lf \<notin> set (payloadHashHeader r')"
    using HeaderGet_no_lf [OF assms(1)] HeaderGet_no_lf [OF assms(2)] by (auto simp: dateHeader_def Let_def payloadHashHeader_def)
  have u: "lf \<notin> set unsignedPayload" by code_simp
  have sh: "sigHeaders r = paSignedHeaders p" "sigHeaders r' = paSignedHeaders p'" using assms(7,8) by (simp_all add: sigHeaders_def)
  have nl: "\<forall>h\<in>set (paSignedHeaders p) \<union> set (paSignedHeaders p'). lf \<notin> set h \<and> CHR '';'' \<notin> set h"
    using parseAuthHeader_headers [OF assms(7) HeaderGet_no_lf [OF assms(1)]] parseAuthHeader_headers [OF assms(8) HeaderGet_no_lf [OF assms(2)]] by blast
  show ?thesis
  proof (cases "sigInput cy creds rfc r = sigInput cy creds rfc r' \<and> sigCanonical r = sigCanonical r'")
    case True
    then have "dateHeader r = dateHeader r'" using stringToSign_fixes [OF _ d(1,2)] s(2) s'(2) by metis
    moreover have c: "canonicalText r (ParseQuery (uRawQuery (rqUrl r))) (paSignedHeaders p) (if payloadHashHeader r = [] then unsignedPayload else payloadHashHeader r) =
        canonicalText r' (ParseQuery (uRawQuery (rqUrl r'))) (paSignedHeaders p') (if payloadHashHeader r' = [] then unsignedPayload else payloadHashHeader r')"
      using True unfolding sigCanonical_def buildCanonicalRequest_def sh Let_def by blast
    note canonical_fixes [OF c assms(1,2) s(3) [unfolded sh] s'(3) [unfolded sh] nl]
    ultimately show ?thesis using d(3,4) u by presburger
  next
    case False
    then show ?thesis using h s(2) s'(2) stringToSign_fixes [OF _ d(1,2), of cy sc "sigCanonical r" sc' "sigCanonical r'"]
      by (cases "sigInput cy creds rfc r"; cases "sigInput cy creds rfc r'") auto
  qed
qed

text \<open>A signed request, its Authorization header, and what is signed.\<close>

definition ex_crypto4 :: crypto where
  "ex_crypto4 = \<lparr>cySum = (\<lambda>_ d. rev (take 2 (rev d))), cyHMAC = (\<lambda>k d. take 2 k @ rev (take 3 (rev d)))\<rparr>"

definition ex_creds :: Credentials where "ex_creds = \<lparr>AccessKey = ''AK'', SecretKey = ''SK''\<rparr>"

definition ex_request :: "header \<Rightarrow> request" where
  "ex_request hs = \<lparr>rqMethod = ''GET'', rqUrl = \<lparr>uPath = ''/b/k'', uRawPath = [], uRawQuery = ''x=1''\<rparr>,
     rqHeader = hs @ [(''Authorization'', ''AWS4-HMAC-SHA256 Credential=AK/20250102/r/s3/aws4_request, SignedHeaders=host, Signature=4157313434''),
       (''X-Amz-Date'', ''20250102T030405Z'')],
     rqHost = ''h'', rqBody = None, rqContentLength = 0\<rparr>"

definition ex_now :: int where "ex_now = 1735787045 * 1000000000"

definition ex_p :: parsedAuth where
  "ex_p = \<lparr>paCredential = ''AK/20250102/r/s3/aws4_request'', paAccessKey = ''AK'', paDate = ''20250102'', paRegion = ''r'', paService = ''s3'',
     paSignedHeaders = [''host''], paSignature = ''4157313434''\<rparr>"

lemma ex_verify: "verifyHeader ex_crypto4 ex_creds 10 (\<lambda>_. None) ex_now (ex_request []) [] = (Inr (VBody None), [(''20250102/r/s3'', ''AWest'')])"
    "verifyHeader ex_crypto4 ex_creds 10 (\<lambda>_. None) ex_now (ex_request [(''X-Other'', ''1'')]) [] = (Inr (VBody None), [(''20250102/r/s3'', ''AWest'')])"
  by code_simp+

lemma ex_parse: "parseAuthHeader (HeaderGet (rqHeader (ex_request hs)) ''Authorization'') = Inr ex_p" if "hs \<in> {[], [(''X-Other'', ''1'')]}" for hs
proof -
  have "parseAuthHeader (HeaderGet (rqHeader (ex_request [])) ''Authorization'') = Inr ex_p"
    "parseAuthHeader (HeaderGet (rqHeader (ex_request [(''X-Other'', ''1'')])) ''Authorization'') = Inr ex_p" by code_simp+
  with that show ?thesis by auto
qed

lemma ex_cache_ok: "cache_ok cy secret []"
  by (simp add: cache_ok_def)

text \<open>No request can put a wrong key into the signing-key cache or make it grow beyond 64
  entries. The parts of a cache key come from the request - for a presigned URL even the
  date is the caller's - but whatever they are, and whether the request is accepted or not,
  every entry stays the key derived from the secret for the one scope with that cache key.\<close>

theorem signing_keys_stay_right:
  assumes "Verify cy creds mx rfc now r cache = (res, cache')" and "cache_ok cy (SecretKey creds) cache"
    and "\<forall>s t day. rfc s = Some (t, day) \<longrightarrow> CHR ''/'' \<notin> set day"
  shows "cache_ok cy (SecretKey creds) cache' \<and> length cache' \<le> 64"
proof -
  have "cache_ok cy (SecretKey creds) cache'"
  proof (cases "ValuesGet (ParseQuery (uRawQuery (rqUrl r))) ''X-Amz-Algorithm'' \<noteq> []")
    case True
    show ?thesis
    proof (cases "checkPresigned creds now (ParseQuery (uRawQuery (rqUrl r)))")
      case (Inl e)
      with True assms(1,2) show ?thesis by (simp add: Verify_def verifyPresigned_def)
    next
      case (Inr p)
      obtain x where x: "SplitByte CHR ''/'' (ValuesGet (ParseQuery (uRawQuery (rqUrl r))) ''X-Amz-Credential'') =
          [AccessKey creds, psDatestamp p, psRegion p, psService p, x]" using checkPresigned_ok [OF Inr] by blast
      have n: "CHR ''/'' \<notin> set (psDatestamp p)" "CHR ''/'' \<notin> set (psRegion p)"
        using Split_no_sep [of _ "CHR ''/''" "ValuesGet (ParseQuery (uRawQuery (rqUrl r))) ''X-Amz-Credential''"] unfolding x by simp_all
      obtain k ca where k: "deriveSigningKey cy creds (psDatestamp p) (psRegion p) (psService p) cache = (k, ca)" by fastforce
      with deriveSigningKey_ok [OF assms(2) n k] Inr True assms(1) show ?thesis
        by (auto simp: Verify_def verifyPresigned_def Let_def split: if_splits)
    qed
  next
    case False
    show ?thesis
    proof (cases "checkAuthHeader creds rfc now r")
      case (Inl e)
      with False assms(1,2) show ?thesis by (simp add: Verify_def verifyHeader_def)
    next
      case (Inr q)
      obtain p d y where q: "q = (p, d, y)" by (cases q)
      obtain t where t: "parseAuthHeader (HeaderGet (rqHeader r) ''Authorization'') = Inr p" "requestDate rfc d = Some (t, y)"
        using checkAuthHeader_ok [OF Inr [unfolded q]] by metis
      obtain k ca where k: "deriveSigningKey cy creds y (paRegion p) (paService p) cache = (k, ca)" by fastforce
      with deriveSigningKey_ok [OF assms(2) requestDate_no_slash [OF assms(3) t(2)] parseAuthHeader_region [OF t(1)] k] Inr q False assms(1)
      show ?thesis by (auto simp: Verify_def verifyHeader_def Let_def split: if_splits)
    qed
  qed
  then show ?thesis by (simp add: cache_ok_def maxSigningKeyCacheEntries_def)
qed

theorem signature_fixes_request_witness:
  "verifyHeader ex_crypto4 ex_creds 10 (\<lambda>_. None) ex_now (ex_request []) [] = (Inr (VBody None), [(''20250102/r/s3'', ''AWest'')]) \<and>
   mset (ParseQuery ''x=1'') = mset (ParseQuery (uRawQuery (rqUrl (ex_request [(''X-Other'', ''1'')]))))"
proof -
  have o: "one_line (ex_request [])" "one_line (ex_request [(''X-Other'', ''1'')])" by code_simp+
  note signature_fixes_request [OF o ex_verify ex_cache_ok ex_cache_ok ex_parse ex_parse]
  moreover have "sigInput ex_crypto4 ex_creds (\<lambda>_. None) (ex_request []) = sigInput ex_crypto4 ex_creds (\<lambda>_. None) (ex_request [(''X-Other'', ''1'')])"
    "sigCanonical (ex_request []) = sigCanonical (ex_request [(''X-Other'', ''1'')])" by code_simp+
  ultimately have "mset (ParseQuery (uRawQuery (rqUrl (ex_request [])))) = mset (ParseQuery (uRawQuery (rqUrl (ex_request [(''X-Other'', ''1'')]))))"
    by (auto split: prod.splits)
  then show ?thesis using ex_verify(1) by (simp add: ex_request_def)
qed

theorem accepted_requests_are_fresh_witness:
  "Verify ex_crypto4 ex_creds 10 (\<lambda>_. None) ex_now (ex_request []) [] = (Inr (VBody None), [(''20250102/r/s3'', ''AWest'')]) \<and>
   (\<exists>t day. requestDate (\<lambda>_. None) (dateHeader (ex_request [])) = Some (t, day) \<and> \<bar>ex_now - t\<bar> \<le> 900 * 1000000000)"
proof -
  have q: "ValuesGet (ParseQuery (uRawQuery (rqUrl (ex_request [])))) ''X-Amz-Algorithm'' = []" by code_simp
  then have v: "Verify ex_crypto4 ex_creds 10 (\<lambda>_. None) ex_now (ex_request []) [] = (Inr (VBody None), [(''20250102/r/s3'', ''AWest'')])"
    using ex_verify(1) by (simp add: Verify_def)
  from accepted_requests_are_fresh [OF v] q v show ?thesis by simp
qed

theorem signing_keys_stay_right_witness:
  "Verify ex_crypto4 ex_creds 10 (\<lambda>_. None) ex_now (ex_request []) [] = (Inr (VBody None), [(''20250102/r/s3'', ''AWest'')]) \<and>
   cache_ok ex_crypto4 (SecretKey ex_creds) [(''20250102/r/s3'', ''AWest'')]"
proof -
  have "ValuesGet (ParseQuery (uRawQuery (rqUrl (ex_request [])))) ''X-Amz-Algorithm'' = []" by code_simp
  then have v: "Verify ex_crypto4 ex_creds 10 (\<lambda>_. None) ex_now (ex_request []) [] = (Inr (VBody None), [(''20250102/r/s3'', ''AWest'')])"
    using ex_verify(1) by (simp add: Verify_def)
  from signing_keys_stay_right [OF v ex_cache_ok] v show ?thesis by simp
qed

end
