(* ===== verification/Presign_Props.thy ===== *)
theory Presign_Props
  imports Sig_Props
begin

text \<open>
  The URLs PresignGetObject makes: the path names the object, the query reads back as what
  was signed, and verifyPresigned accepts the URL for as long as it says.
\<close>

subsection \<open>The date\<close>

definition civil_ok :: "civil \<Rightarrow> bool" where
  "civil_ok t \<longleftrightarrow> 0 \<le> cvYear t \<and> cvYear t < 10000 \<and> 1 \<le> cvMonth t \<and> cvMonth t \<le> 12 \<and>
    1 \<le> cvDay t \<and> cvDay t \<le> days_in (cvYear t) (cvMonth t) \<and> 0 \<le> cvHour t \<and> cvHour t < 24 \<and>
    0 \<le> cvMinute t \<and> cvMinute t < 60 \<and> 0 \<le> cvSecond t \<and> cvSecond t < 60"

definition instant :: "civil \<Rightarrow> int" where
  "instant t = unix_seconds (cvYear t) (cvMonth t) (cvDay t) (cvHour t) (cvMinute t) (cvSecond t) * 1000000000"

lemma length_nat_dec: "n < 10 ^ k \<Longrightarrow> length (nat_dec n) \<le> max 1 k"
proof (induction k arbitrary: n)
  case 0
  then show ?case by (subst nat_dec.simps) simp
next
  case (Suc k)
  show ?case
  proof (cases "n < 10")
    case True
    then show ?thesis by (subst nat_dec.simps) simp
  next
    case False
    then have "k \<noteq> 0" using Suc.prems by (cases k) auto
    have "n div 10 < 10 ^ k" using Suc.prems by (simp add: less_mult_imp_div_less)
    from Suc.IH [OF this] \<open>k \<noteq> 0\<close> False show ?thesis by (subst nat_dec.simps) simp
  qed
qed

lemma dec_pad_props:
  assumes "0 \<le> n" and "n < 10 ^ w" and "0 < w"
  shows "length (dec_pad w n) = w" "digits (dec_pad w n) = Some n" "\<forall>c\<in>set (dec_pad w n). is_digit c"
proof -
  have "nat n < 10 ^ w" using assms(1,2) by (simp add: nat_less_iff)
  from length_nat_dec [OF this] have l: "length (nat_dec (nat n)) \<le> w" using assms(3) by simp
  then show "length (dec_pad w n) = w" by (simp add: dec_pad_def pad_zeros_def)
  have z: "is_digit CHR ''0''" by code_simp
  then show d: "\<forall>c\<in>set (dec_pad w n). is_digit c" using nat_dec_digits by (auto simp: dec_pad_def pad_zeros_def)
  moreover have "dec_pad w n \<noteq> []" using nat_dec_digits by (simp add: dec_pad_def pad_zeros_def)
  moreover have "dec_value (dec_pad w n) = nat n" by (simp add: dec_pad_def pad_zeros_def dec_value_zeros dec_value_nat_dec)
  ultimately show "digits (dec_pad w n) = Some n" using assms(1) by (simp add: digits_def)
qed

lemma days_in_le: "days_in y m \<le> 31"
  by (simp add: days_in_def)

lemma parse_format_iso: "civil_ok t \<Longrightarrow> parse_iso (format_iso t) = Some (instant t)"
proof -
  assume c: "civil_ok t"
  then have d: "cvDay t < 10 ^ 2" using days_in_le [of "cvYear t" "cvMonth t"] by (simp add: civil_ok_def)
  let ?y = "dec_pad 4 (cvYear t)" and ?mo = "dec_pad 2 (cvMonth t)" and ?d = "dec_pad 2 (cvDay t)"
  let ?h = "dec_pad 2 (cvHour t)" and ?mi = "dec_pad 2 (cvMinute t)" and ?s = "dec_pad 2 (cvSecond t)"
  have y: "length ?y = 4" "digits ?y = Some (cvYear t)" by (rule dec_pad_props; use c in \<open>simp add: civil_ok_def\<close>)+
  have mo: "length ?mo = 2" "digits ?mo = Some (cvMonth t)" by (rule dec_pad_props; use c in \<open>simp add: civil_ok_def\<close>)+
  have dd: "length ?d = 2" "digits ?d = Some (cvDay t)" by (rule dec_pad_props; use c d in \<open>simp add: civil_ok_def\<close>)+
  have h: "length ?h = 2" "digits ?h = Some (cvHour t)" by (rule dec_pad_props; use c in \<open>simp add: civil_ok_def\<close>)+
  have mi: "length ?mi = 2" "digits ?mi = Some (cvMinute t)" by (rule dec_pad_props; use c in \<open>simp add: civil_ok_def\<close>)+
  have s: "length ?s = 2" "digits ?s = Some (cvSecond t)" by (rule dec_pad_props; use c in \<open>simp add: civil_ok_def\<close>)+
  have f: "format_iso t = ?y @ ?mo @ ?d @ ''T'' @ ?h @ ?mi @ ?s @ ''Z''" by (simp add: format_iso_def format_date_def)
  have p: "take 4 (format_iso t) = ?y" "take 2 (drop 4 (format_iso t)) = ?mo" "take 2 (drop 6 (format_iso t)) = ?d"
    "take 2 (drop 9 (format_iso t)) = ?h" "take 2 (drop 11 (format_iso t)) = ?mi" "take 2 (drop 13 (format_iso t)) = ?s"
    "drop 15 (format_iso t) = ''Z''" "take 1 (drop 8 (format_iso t)) = ''T''" "length (format_iso t) = 16"
    unfolding f by (simp_all add: y mo dd h mi s)
  have "parse_fraction ''Z'' = (0, ''Z'')" by code_simp
  with c show ?thesis unfolding parse_iso_def p y dd mo h mi s by (simp add: civil_ok_def instant_def)
qed

lemma format_date_chars: "civil_ok t \<Longrightarrow> length (format_date t) = 8 \<and> (\<forall>c\<in>set (format_date t). is_digit c)"
proof -
  assume c: "civil_ok t"
  then have d: "cvDay t < 10 ^ 2" using days_in_le [of "cvYear t" "cvMonth t"] by (simp add: civil_ok_def)
  have "length (dec_pad 4 (cvYear t)) = 4" "\<forall>c\<in>set (dec_pad 4 (cvYear t)). is_digit c"
    by (rule dec_pad_props; use c in \<open>simp add: civil_ok_def\<close>)+
  moreover have "length (dec_pad 2 (cvMonth t)) = 2" "\<forall>c\<in>set (dec_pad 2 (cvMonth t)). is_digit c"
    by (rule dec_pad_props; use c in \<open>simp add: civil_ok_def\<close>)+
  moreover have "length (dec_pad 2 (cvDay t)) = 2" "\<forall>c\<in>set (dec_pad 2 (cvDay t)). is_digit c"
    by (rule dec_pad_props; use c d in \<open>simp add: civil_ok_def\<close>)+
  ultimately show ?thesis by (auto simp: format_date_def)
qed

subsection \<open>The path\<close>

definition keep_key :: "char \<Rightarrow> bool" where
  "keep_key c \<longleftrightarrow> keep_segment c \<or> c = CHR ''/''"

lemma escape_append: "url_escape keep (s @ t) = url_escape keep s @ url_escape keep t"
  by (simp add: url_escape_def)

lemma escape_id: "\<forall>c\<in>set s. keep c \<Longrightarrow> url_escape keep s = s"
  by (induction s) (auto simp: url_escape_def)

lemma PathEscape_keep_key: "CHR ''/'' \<notin> set s \<Longrightarrow> PathEscape s = url_escape keep_key s"
  by (induction s) (auto simp: PathEscape_def url_escape_def keep_key_def)

lemma joinEscaped_acc: "acc \<noteq> [] \<Longrightarrow> joinEscaped acc ps = acc @ concat (map (\<lambda>p. ''/'' @ PathEscape p) ps)"
  by (induction ps arbitrary: acc) auto

lemma JoinByte_concat: "JoinByte c (w # ws) = w @ concat (map (\<lambda>v. c # v) ws)"
  by (induction ws arbitrary: w) auto

lemma escape_Nil_iff: "url_escape keep s = [] \<longleftrightarrow> s = []"
  by (cases s) (auto simp: url_escape_def pct_def)

lemma escape_Join: "keep c \<Longrightarrow> url_escape keep (JoinByte c ws) = JoinByte c (map (url_escape keep) ws)"
proof (induction c ws rule: JoinByte.induct)
  case (3 c w v ws)
  then show ?case by (simp add: url_escape_def)
qed (simp_all add: url_escape_def)

lemma joinEscaped_key:
  assumes "\<not> HasPrefix key ''/''"
  shows "joinEscaped [] (SplitByte CHR ''/'' key) = url_escape keep_key key"
proof -
  obtain w ws where s: "SplitByte CHR ''/'' key = w # ws" by (cases "SplitByte CHR ''/'' key") auto
  have n: "CHR ''/'' \<notin> set v" if "v \<in> set (w # ws)" for v using Split_no_sep that unfolding s [symmetric] by metis
  have k: "key = JoinByte CHR ''/'' (w # ws)" using JoinByte_SplitByte [of "CHR ''/''" key] s by simp
  show ?thesis
  proof (cases "w = []")
    case True
    have "ws = []"
    proof (rule ccontr)
      assume "ws \<noteq> []"
      with k True have "HasPrefix key ''/''" by (cases ws) auto
      with assms show False by simp
    qed
    with True k s show ?thesis by (simp add: PathEscape_def url_escape_def)
  next
    case False
    then have "joinEscaped [] (w # ws) = PathEscape w @ concat (map (\<lambda>p. ''/'' @ PathEscape p) ws)"
      by (simp add: joinEscaped_acc PathEscape_def escape_Nil_iff)
    also have "\<dots> = JoinByte CHR ''/'' (map (url_escape keep_key) (w # ws))"
      using n PathEscape_keep_key by (simp add: JoinByte_concat comp_def cong: map_cong)
    also have "\<dots> = url_escape keep_key (JoinByte CHR ''/'' (w # ws))"
      by (rule escape_Join [symmetric]) (simp add: keep_key_def)
    finally show ?thesis using s k by simp
  qed
qed

lemma keep_key_not: "\<not> keep_key CHR 0x25" "keep_key CHR ''/''"
  by code_simp+

lemma presignPath_escape:
  assumes "IsValidBucketName bucket" and "\<not> HasPrefix key ''/''"
  shows "presignPath bucket key = url_escape keep_key (''/'' @ bucket @ ''/'' @ key)"
proof -
  have "keep_key c" if "name_inner c" for c
    using that by (auto simp: name_inner_def name_edge_def is_digit_def keep_key_def keep_segment_def unreserved_def is_alnum_def)
  then have "url_escape keep_key bucket = bucket" using IsValidBucketName_chars [OF assms(1)] by (intro escape_id) auto
  moreover have "url_escape keep_key ''/'' = ''/''" by (rule escape_id) (simp add: keep_key_not)
  moreover have "TrimPrefix key ''/'' = key" using assms(2) by (simp add: TrimPrefix_def)
  ultimately show ?thesis using joinEscaped_key [OF assms(2)] by (simp only: presignPath_def escape_append)
qed

lemma presignPath_reads_back:
  assumes "IsValidBucketName bucket" and "\<not> HasPrefix key ''/''"
  obtains raw where "setPath (presignPath bucket key) = Some (''/'' @ bucket @ ''/'' @ key, raw)"
    "\<And>q. EscapedPath \<lparr>uPath = ''/'' @ bucket @ ''/'' @ key, uRawPath = raw, uRawQuery = q\<rparr> = presignPath bucket key"
proof -
  note p = presignPath_escape [OF assms]
  have u: "url_unescape False (presignPath bucket key) = Some (''/'' @ bucket @ ''/'' @ key)"
    unfolding p by (rule unescape_escape) (simp_all add: keep_key_not)
  obtain raw where r: "setPath (presignPath bucket key) = Some (''/'' @ bucket @ ''/'' @ key, raw)" using u by (simp add: setPath_def)
  have "keep_path c \<or> c = CHR 0x25" if "c \<in> set (presignPath bucket key)" for c
    using that escape_chars unfolding p keep_key_def keep_segment_def keep_path_def unreserved_def by fastforce
  then have v: "valid_encoded (presignPath bucket key)" by (auto simp: valid_encoded_def)
  obtain t where t: "presignPath bucket key = CHR ''/'' # t" by (simp add: presignPath_def)
  have "EscapedPath \<lparr>uPath = ''/'' @ bucket @ ''/'' @ key, uRawPath = raw, uRawQuery = q\<rparr> = presignPath bucket key" for q
    using EscapedPath_setPath [of t] r v unfolding t by blast
  with r show thesis by (rule that)
qed

text \<open>The loop that joins the parts of a key drops the empty ones at its front, so the path is
  that of the key without its leading slashes.\<close>

lemma joinEscaped_slashes: "joinEscaped [] (SplitByte CHR ''/'' (TrimLeft key ''/'')) = joinEscaped [] (SplitByte CHR ''/'' key)"
  by (induction key) (auto simp: TrimLeft_def PathEscape_def url_escape_def)

lemma presignPath_TrimLeft: "presignPath bucket (TrimLeft key ''/'') = presignPath bucket key"
proof (cases "HasPrefix key ''/''")
  case True
  then obtain k where k: "key = CHR ''/'' # k" by (cases key) auto
  have n: "\<not> HasPrefix (TrimLeft k ''/'') ''/''" by (induction k) (auto simp: TrimLeft_def)
  then have "TrimPrefix (TrimLeft k ''/'') ''/'' = TrimLeft k ''/''" by (simp add: TrimPrefix_def)
  then show ?thesis using joinEscaped_slashes [of k] k by (simp add: presignPath_def TrimPrefix_def TrimLeft_def)
next
  case False
  then have "TrimLeft key ''/'' = key" by (cases key) (auto simp: TrimLeft_def)
  then show ?thesis by simp
qed

subsection \<open>The query\<close>

lemma filter_ValuesSet: "filter (\<lambda>p. fst p = k) (ValuesSet vs k' v) = (if k = k' then [(k, v)] else filter (\<lambda>p. fst p = k) vs)"
  by (auto simp: ValuesSet_def ValuesDel_def intro: filter_cong)

lemma unescape_plain: "\<forall>c\<in>set s. c \<noteq> CHR 0x25 \<and> c \<noteq> CHR ''+'' \<Longrightarrow> QueryUnescape s = Some s"
  by (induction s) auto

lemma ParseQuery_signed:
  assumes "q \<noteq> []" and "set sig \<subseteq> set hex_digits"
  shows "ParseQuery (getCanonicalQueryString q @ ''&'' @ amzSignatureQuery @ ''='' @ sig) = sorted_pairs q @ [(amzSignatureQuery, sig)]"
proof -
  have h: "CHR ''&'' \<notin> set hex_digits" "CHR '';'' \<notin> set hex_digits" "CHR 0x25 \<notin> set hex_digits" "CHR ''+'' \<notin> set hex_digits" by code_simp+
  have a: "CHR ''&'' \<notin> set amzSignatureQuery" "CHR '';'' \<notin> set amzSignatureQuery" "CHR ''='' \<notin> set amzSignatureQuery" "QueryUnescape amzSignatureQuery = Some amzSignatureQuery"
    by code_simp+
  let ?w = "amzSignatureQuery @ CHR ''='' # sig"
  have w: "CHR ''&'' \<notin> set ?w" "CHR '';'' \<notin> set ?w" "?w \<noteq> []" using h a assms(2) by auto
  have "QueryUnescape sig = Some sig" by (rule unescape_plain) (use h assms(2) in auto)
  then have "parse_pairs [?w] = [(amzSignatureQuery, sig)]"
    using w(2) CutByte_append [OF a(3), of sig] a(4) by simp
  with ParseQuery_canonical [OF assms(1) w(1)] show ?thesis by simp
qed

lemma ValuesGet_signed:
  assumes "filter (\<lambda>p. fst p = k) q = [(k, v)]" and "k \<noteq> amzSignatureQuery"
  shows "ValuesGet (sorted_pairs q @ [(amzSignatureQuery, sig)]) k = v"
  by (rule ValuesGet_mset [of "q @ [(amzSignatureQuery, sig)]"]) (use assms in \<open>simp_all add: mset_sorted_pairs\<close>)

lemma ValuesDel_signed:
  assumes "\<forall>p\<in>set q. fst p \<noteq> amzSignatureQuery"
  shows "getCanonicalQueryString (ValuesDel (sorted_pairs q @ [(amzSignatureQuery, sig)]) amzSignatureQuery) = getCanonicalQueryString q"
proof -
  have "\<forall>p\<in>set (sorted_pairs q). fst p \<noteq> amzSignatureQuery" using assms mset_eq_setD [OF mset_sorted_pairs [of q]] by simp
  then have "ValuesDel (sorted_pairs q @ [(amzSignatureQuery, sig)]) amzSignatureQuery = sorted_pairs q" by (simp add: ValuesDel_def)
  then show ?thesis by (simp add: canonical_query_iff mset_sorted_pairs)
qed

lemma ValuesGet_signature:
  assumes "\<forall>p\<in>set q. fst p \<noteq> amzSignatureQuery"
  shows "ValuesGet (sorted_pairs q @ [(amzSignatureQuery, sig)]) amzSignatureQuery = sig"
proof -
  have "\<forall>p\<in>set (sorted_pairs q). fst p \<noteq> amzSignatureQuery" using assms mset_eq_setD [OF mset_sorted_pairs [of q]] by simp
  then have "filter (\<lambda>p. fst p = amzSignatureQuery) (sorted_pairs q) = []" by (simp add: filter_empty_conv)
  then show ?thesis by (simp add: ValuesGet_def)
qed

subsection \<open>Accepted\<close>

definition region_ok :: "string \<Rightarrow> bool" where
  "region_ok region \<longleftrightarrow> region \<noteq> [] \<and> length region \<le> maxCredentialScopePart \<and> CHR ''/'' \<notin> set region"

lemma credential_parts:
  assumes "CHR ''/'' \<notin> set a" "CHR ''/'' \<notin> set d" "CHR ''/'' \<notin> set r"
  shows "SplitByte CHR ''/'' (a @ ''/'' @ scopeOf d r ''s3'') = [a, d, r, ''s3'', ''aws4_request'']"
proof -
  have "SplitByte CHR ''/'' (JoinByte CHR ''/'' [a, d, r, ''s3'', ''aws4_request'']) = [a, d, r, ''s3'', ''aws4_request'']"
    by (rule Split_Join) (use assms in auto)
  then show ?thesis by (simp add: scopeOf_def)
qed

lemma presignWindow_iff:
  assumes "civil_ok t" "1 \<le> e" "e \<le> 604800" "now \<le> instant t + e * 1000000000" "instant t - maxClockSkew \<le> now"
  shows "presignWindow now (format_iso t) (Itoa e) = Inr ()"
proof -
  have a: "Atoi (Itoa e) = Some e" using ParseInt_dec [of "nat e"] assms(2,3) by (simp add: Itoa_def)
  have n: "Itoa e \<noteq> []" using nat_dec_digits assms(2) by (simp add: Itoa_def)
  have i: "int64 (e * 1000000000) = e * 1000000000" by (rule int64_id) (use assms(2,3) in simp_all)
  show ?thesis
    using assms n i unfolding presignWindow_def parse_format_iso [OF assms(1)] a by (simp add: maxPresignValidity_def)
qed

lemma checkPresigned_presign:
  assumes t: "civil_ok t" and ak: "CHR ''/'' \<notin> set (AccessKey creds)" and r: "region_ok region"
    and e: "1 \<le> e" "e \<le> 604800" and w: "now \<le> instant t + e * 1000000000" "instant t - maxClockSkew \<le> now"
    and x: "\<forall>p\<in>set extra. fst p \<noteq> amzSignatureQuery"
  shows "checkPresigned creds now (sorted_pairs (presignQuery (AccessKey creds) region t e extra) @ [(amzSignatureQuery, sig)]) =
    Inr \<lparr>psDatestamp = format_date t, psRegion = region, psService = ''s3'', psDate = format_iso t, psSignedHeaders = [''host''], psSignature = sig\<rparr>"
proof -
  let ?q = "presignQuery (AccessKey creds) region t e extra"
  let ?g = "ValuesGet (sorted_pairs ?q @ [(amzSignatureQuery, sig)])"
  have slash: "\<not> is_digit CHR ''/''" by code_simp
  have d: "CHR ''/'' \<notin> set (format_date t)" "length (format_date t) = 8" using format_date_chars [OF t] slash by metis+
  have q: "\<forall>p\<in>set ?q. fst p \<noteq> amzSignatureQuery"
    using x by (auto simp: presignQuery_def ValuesSet_def ValuesDel_def amzSignatureQuery_def)
  have g: "?g ''X-Amz-Credential'' = AccessKey creds @ ''/'' @ scopeOf (format_date t) region ''s3''"
    "?g ''X-Amz-Date'' = format_iso t" "?g ''X-Amz-Expires'' = Itoa e" "?g ''X-Amz-SignedHeaders'' = ''host''"
    by (rule ValuesGet_signed; simp add: presignQuery_def filter_ValuesSet amzSignatureQuery_def)+
  have s: "SplitByte CHR '';'' ''host'' = [''host'']" "requireSignedHost [''host''] = Inr ()" by code_simp+
  have v: "validateCredentialScope region ''s3'' = Inr ()" using r by (simp add: validateCredentialScope_def region_ok_def)
  have r': "CHR ''/'' \<notin> set region" using r by (simp add: region_ok_def)
  show ?thesis
    unfolding checkPresigned_def g credential_parts [OF ak d(1) r'] v s ValuesGet_signature [OF q] Let_def
    using d(2) by (simp add: v s presignWindow_iff [OF t e w] maxCredentialScopePart_def)
qed

text \<open>C17: for any bucket name and any key, whatever bytes it holds, the path of a presigned
  URL reads back as the bucket and the key without its leading slashes, and a GET for it is
  accepted from fifteen minutes before the signer's time until the expiry it was given,
  whatever extra parameters it has been given and whatever the signing-key cache holds. A
  key that begins with a slash is not what the URL addresses.\<close>

theorem presigned_url_opens_object:
  assumes "PresignGetObject cy (AccessKey creds) (SecretKey creds) region t bucket key host e extra = (path, query)"
    and "IsValidBucketName bucket" and "civil_ok t" and "CHR ''/'' \<notin> set (AccessKey creds)"
    and "region_ok region" and "1 \<le> e" and "e \<le> 604800" and "\<forall>p\<in>set extra. fst p \<noteq> amzSignatureQuery"
  shows "\<exists>raw. setPath path = Some (''/'' @ bucket @ ''/'' @ TrimLeft key ''/'', raw) \<and>
    (\<forall>r now cache. rqMethod r = ''GET'' \<and> rqUrl r = \<lparr>uPath = ''/'' @ bucket @ ''/'' @ TrimLeft key ''/'', uRawPath = raw, uRawQuery = query\<rparr> \<and>
      rqHost r = host \<and> HeaderGet (rqHeader r) ''host'' = [] \<and> cache_ok cy (SecretKey creds) cache \<and>
      instant t - 900 * 1000000000 \<le> now \<and> now \<le> instant t + e * 1000000000 \<longrightarrow>
      fst (Verify cy creds mx rfc now r cache) = Inr (VBody (rqBody r)))"
proof -
  let ?q = "presignQuery (AccessKey creds) region t e extra"
  let ?d = "format_date t" and ?k = "TrimLeft key ''/''"
  have nk: "\<not> HasPrefix ?k ''/''" by (induction key) (auto simp: TrimLeft_def)
  define sig where "sig = signatureOf cy (scopeKey cy (SecretKey creds) ?d region ''s3'') (stringToSign cy (format_iso t) (scopeOf ?d region ''s3'')
      (sign_lines [''GET'', presignPath bucket key, getCanonicalQueryString ?q, ''host:'' @ host @ [lf], ''host'', unsignedPayload]))"
  have p: "path = presignPath bucket key" and q: "query = getCanonicalQueryString ?q @ ''&'' @ amzSignatureQuery @ ''='' @ sig"
    using assms(1) unfolding PresignGetObject_def Let_def sig_def by (metis prod.inject)+
  have no: "\<forall>p\<in>set ?q. fst p \<noteq> amzSignatureQuery"
    using assms(8) by (auto simp: presignQuery_def ValuesSet_def ValuesDel_def amzSignatureQuery_def)
  have pq: "ParseQuery query = sorted_pairs ?q @ [(amzSignatureQuery, sig)]"
    unfolding q by (rule ParseQuery_signed) (use hex_encode_set in \<open>simp_all add: presignQuery_def ValuesSet_def sig_def signatureOf_def\<close>)
  obtain raw where raw: "setPath path = Some (''/'' @ bucket @ ''/'' @ ?k, raw)"
    "\<And>q. EscapedPath \<lparr>uPath = ''/'' @ bucket @ ''/'' @ ?k, uRawPath = raw, uRawQuery = q\<rparr> = path"
    using presignPath_reads_back [OF assms(2) nk] unfolding p presignPath_TrimLeft by blast
  have slash: "CHR ''/'' \<notin> set ?d" "CHR ''/'' \<notin> set region"
  proof -
    have "\<not> is_digit CHR ''/''" by code_simp
    then show "CHR ''/'' \<notin> set ?d" using format_date_chars [OF assms(3)] by metis
  qed (use assms(5) in \<open>simp add: region_ok_def\<close>)
  have alg: "ValuesGet (ParseQuery query) ''X-Amz-Algorithm'' \<noteq> []"
    unfolding pq by (subst ValuesGet_signed [where v = "''AWS4-HMAC-SHA256''"]) (simp_all add: presignQuery_def filter_ValuesSet amzSignatureQuery_def)
  have "fst (Verify cy creds mx rfc now r cache) = Inr (VBody (rqBody r))"
    if r: "rqMethod r = ''GET''" "rqUrl r = \<lparr>uPath = ''/'' @ bucket @ ''/'' @ ?k, uRawPath = raw, uRawQuery = query\<rparr>"
      "rqHost r = host" "HeaderGet (rqHeader r) ''host'' = []" and c: "cache_ok cy (SecretKey creds) cache"
      and w: "instant t - 900 * 1000000000 \<le> now" "now \<le> instant t + e * 1000000000" for r now cache
  proof -
    have w': "instant t - maxClockSkew \<le> now" using w(1) by (simp add: maxClockSkew_def)
    note cp = checkPresigned_presign [OF assms(3,4,5,6,7) w(2) w' assms(8), where sig = sig]
    obtain k ca where k: "deriveSigningKey cy creds ?d region ''s3'' cache = (k, ca)" by fastforce
    with deriveSigningKey_ok [OF c slash] have kk: "k = scopeKey cy (SecretKey creds) ?d region ''s3''" by blast
    have "path \<noteq> []" unfolding p presignPath_def by simp
    then have u: "getCanonicalURI (rqUrl r) = presignPath bucket key" unfolding getCanonicalURI_def r(2) raw(2) p by simp
    have h: "ToLower (TrimSpace ''host'') = ''host''" "TrimSpace [] = []" by code_simp+
    have "canonicalHeader r ''host'' = ''host:'' @ host @ [lf]" using r(3,4) by (simp add: canonicalHeader_def h)
    then have b: "buildCanonicalRequestPresigned r [''host''] =
        sign_lines [''GET'', presignPath bucket key, getCanonicalQueryString ?q, ''host:'' @ host @ [lf], ''host'', unsignedPayload]"
      using pq ValuesDel_signed [OF no, of sig] r(1,2) u by (simp add: buildCanonicalRequestPresigned_def canonicalText_def)
    have "verifyPresigned cy creds now r cache = (Inr (VBody (rqBody r)), ca)"
      unfolding verifyPresigned_def using cp k kk b pq r(2) sig_def by simp
    then show ?thesis using alg r(2) by (simp add: Verify_def)
  qed
  with raw(1) show ?thesis by blast
qed

text \<open>The share link of a key with a space, a slash and a percent sign.\<close>

definition ex_time :: civil where
  "ex_time = \<lparr>cvYear = 2025, cvMonth = 1, cvDay = 2, cvHour = 3, cvMinute = 4, cvSecond = 5\<rparr>"

definition ex_url :: "string \<times> string" where
  "ex_url = PresignGetObject ex_crypto4 (AccessKey ex_creds) (SecretKey ex_creds) ''r'' ex_time ''bkt'' ''a /%'' ''h'' 60 [(''response-content-type'', ''text/plain'')]"

theorem presigned_url_opens_object_witness:
  "fst ex_url = ''/bkt/a%20/%25'' \<and> (\<exists>raw. setPath (fst ex_url) = Some (''/bkt/a /%'', raw) \<and>
    fst (Verify ex_crypto4 ex_creds 10 (\<lambda>_. None) (instant ex_time + 50 * 1000000000)
      \<lparr>rqMethod = ''GET'', rqUrl = \<lparr>uPath = ''/bkt/a /%'', uRawPath = raw, uRawQuery = snd ex_url\<rparr>,
       rqHeader = [], rqHost = ''h'', rqBody = None, rqContentLength = 0\<rparr> []) = Inr (VBody None))"
proof -
  have p: "fst ex_url = ''/bkt/a%20/%25''" by code_simp
  have c: "IsValidBucketName ''bkt''" "civil_ok ex_time" "CHR ''/'' \<notin> set (AccessKey ex_creds)" "region_ok ''r''"
    "\<forall>p\<in>set [(''response-content-type'', ''text/plain'')]. fst p \<noteq> amzSignatureQuery" by code_simp+
  have h: "HeaderGet [] ''host'' = []" by code_simp
  have u: "PresignGetObject ex_crypto4 (AccessKey ex_creds) (SecretKey ex_creds) ''r'' ex_time ''bkt'' ''a /%'' ''h'' 60 [(''response-content-type'', ''text/plain'')] =
    (fst ex_url, snd ex_url)" by (simp add: ex_url_def)
  have tk: "TrimLeft ''a /%'' ''/'' = ''a /%''" by code_simp
  note presigned_url_opens_object [OF u c(1-4) _ _ c(5), of 10 "\<lambda>_. None", unfolded tk]
  then obtain raw where r: "setPath (fst ex_url) = Some (''/bkt/a /%'', raw)"
    "\<forall>r now cache. rqMethod r = ''GET'' \<and> rqUrl r = \<lparr>uPath = ''/bkt/a /%'', uRawPath = raw, uRawQuery = snd ex_url\<rparr> \<and>
      rqHost r = ''h'' \<and> HeaderGet (rqHeader r) ''host'' = [] \<and> cache_ok ex_crypto4 (SecretKey ex_creds) cache \<and>
      instant ex_time - 900 * 1000000000 \<le> now \<and> now \<le> instant ex_time + 60 * 1000000000 \<longrightarrow>
      fst (Verify ex_crypto4 ex_creds 10 (\<lambda>_. None) now r cache) = Inr (VBody (rqBody r))"
    by auto
  have "fst (Verify ex_crypto4 ex_creds 10 (\<lambda>_. None) (instant ex_time + 50 * 1000000000)
      \<lparr>rqMethod = ''GET'', rqUrl = \<lparr>uPath = ''/bkt/a /%'', uRawPath = raw, uRawQuery = snd ex_url\<rparr>,
       rqHeader = [], rqHost = ''h'', rqBody = None, rqContentLength = 0\<rparr> []) = Inr (VBody None)"
    using r(2) [rule_format, where cache = "[]"] h ex_cache_ok by simp
  with p r(1) show ?thesis by blast
qed

end
