(* ===== verification/S3_Router.thy ===== *)
theory S3_Router
  imports Sig_V4
begin

text \<open>
  internal/s3api: from the HTTP request to the handler. Which bucket and key a request
  names, CORS, whether it needs a signature, and the dispatch on method and query. A
  handler is a value here; what the router writes itself is a reply. Parsing of an origin
  as a URL (url.Parse) is a parameter, and so are the engine's answers, given by the record
  s3_engine.
\<close>

subsection \<open>Replies\<close>

datatype reply =
    S3ErrorReply string string string
  | Status nat
  | Preflight "(string \<times> string) list"
  | Readiness

definition NotAllowed :: "string \<Rightarrow> reply" where
  "NotAllowed resource = S3ErrorReply ''MethodNotAllowed'' ''Method not allowed'' resource"

subsection \<open>The bucket and the key of a request\<close>

text \<open>net.SplitHostPort, its host; None for its errors.\<close>

definition SplitHostPort :: "string \<Rightarrow> string option" where
  "SplitHostPort hostport =
    (if CHR '':'' \<notin> set hostport then None
     else
       let tail = rev (takeWhile (\<lambda>c. c \<noteq> CHR '':'') (rev hostport));
           i = length hostport - length tail - 1 in
       if hd hostport = CHR ''['' then
         (if CHR '']'' \<notin> set hostport then None
          else
            let e = length (takeWhile (\<lambda>c. c \<noteq> CHR '']'') hostport) in
            if e + 1 \<noteq> i then None
            else if CHR ''['' \<in> set (drop 1 hostport) \<or> CHR '']'' \<in> set (drop (e + 1) hostport) then None
            else Some (drop 1 (take e hostport)))
       else
         let host = take i hostport in
         if CHR '':'' \<in> set host \<or> CHR ''['' \<in> set hostport \<or> CHR '']'' \<in> set hostport then None else Some host)"

definition requestHost :: "string \<Rightarrow> string" where
  "requestHost h = (if CHR '':'' \<in> set h then (case SplitHostPort h of Some h' \<Rightarrow> h' | None \<Rightarrow> h) else h)"

definition resolveBucketAndKey :: "string \<Rightarrow> request \<Rightarrow> string \<times> string" where
  "resolveBucketAndKey domain r =
    (let host = requestHost (rqHost r);
         path = TrimPrefix (uPath (rqUrl r)) ''/'';
         vbucket = TrimSuffix host (CHR ''.'' # domain) in
     if domain \<noteq> [] \<and> HasSuffix host (CHR ''.'' # domain) \<and> vbucket \<noteq> [] \<and> CHR ''.'' \<notin> set vbucket
     then (vbucket, path)
     else (case CutByte CHR ''/'' path of (bucket, key, _) \<Rightarrow> (bucket, key)))"

definition healthBucket :: string where "healthBucket = ''_health''"

definition isHealthCheck :: "request \<Rightarrow> string \<Rightarrow> string \<Rightarrow> bool" where
  "isHealthCheck r bucket key \<longleftrightarrow> bucket = healthBucket \<and> key = [] \<and> \<not> HasSuffix (uPath (rqUrl r)) ''/'' \<and>
    (rqMethod r = ''GET'' \<or> rqMethod r = ''HEAD'')"

definition requestQuery :: "request \<Rightarrow> url_values" where
  "requestQuery r = ParseQuery (uRawQuery (rqUrl r))"

definition ValuesHas :: "url_values \<Rightarrow> string \<Rightarrow> bool" where
  "ValuesHas vs k \<longleftrightarrow> list_ex (\<lambda>p. fst p = k) vs"

subsection \<open>Subresources\<close>

definition s3Subresources :: "string list" where
  "s3Subresources =
    [''accelerate'', ''acl'', ''analytics'', ''attributes'', ''cors'', ''delete'', ''encryption'', ''intelligent-tiering'',
     ''inventory'', ''legal-hold'', ''lifecycle'', ''location'', ''logging'', ''metrics'', ''notification'', ''object-lock'',
     ''ownershipControls'', ''policy'', ''policyStatus'', ''publicAccessBlock'', ''replication'', ''requestPayment'', ''restore'',
     ''retention'', ''select'', ''tagging'', ''torrent'', ''uploadId'', ''uploads'', ''versioning'', ''versions'', ''website'']"

text \<open>The code goes through the query in the order of Go's map iteration, which is any
  order; here it is the order of the query.\<close>

fun unhandledSubresource :: "url_values \<Rightarrow> string list \<Rightarrow> string" where
  "unhandledSubresource [] handled = []"
| "unhandledSubresource ((key, v) # query) handled =
    (if key \<notin> set s3Subresources then unhandledSubresource query handled
     else if key \<in> set handled then unhandledSubresource query handled
     else key)"

definition rejectUnhandledSubresource :: "url_values \<Rightarrow> string \<Rightarrow> string list \<Rightarrow> reply option" where
  "rejectUnhandledSubresource query resource handled =
    (let sub = unhandledSubresource query handled in
     if sub = [] then None
     else Some (S3ErrorReply ''NotImplemented'' (''The '' @ sub @ '' subresource is not implemented by this server.'') resource))"

subsection \<open>Handlers\<close>

datatype bucket_handler =
    handleGetBucketCORS | handleGetBucketVersioning | handleGetBucketLifecycle | handleGetBucketLogging
  | handleGetBucketLocation | handleListObjectVersions | handleListMultipartUploads | handleListObjects
  | handlePutBucketCORS | handlePutBucketVersioning | handlePutBucketLifecycle | handlePutBucketLogging
  | handleCreateBucket | handleDeleteObjects | handleDeleteBucketCORS | handleDeleteBucketLifecycle
  | handleDeleteBucket | handleHeadBucket

datatype object_handler =
    handleListParts | handleGetObject | handleUploadPartCopy | handleCopyObject | handleUploadPart | handlePutObject
  | handleAbortMultipartUpload | handleDeleteObject | handleHeadObject | handleCreateMultipartUpload | handleCompleteMultipartUpload

datatype handler =
    handleListBuckets
  | BucketHandler bucket_handler string
  | ObjectHandler object_handler string string

text \<open>A case after rejectUnhandledSubresource in a switch.\<close>

definition orReject :: "url_values \<Rightarrow> string \<Rightarrow> reply + handler \<Rightarrow> reply + handler" where
  "orReject query resource d = (case rejectUnhandledSubresource query resource [] of Some e \<Rightarrow> Inl e | None \<Rightarrow> d)"

definition handleServiceOps :: "request \<Rightarrow> reply + handler" where
  "handleServiceOps r = (if rqMethod r = ''GET'' then Inr handleListBuckets else Inl (NotAllowed ''/''))"

definition handleBucketOps :: "request \<Rightarrow> string \<Rightarrow> reply + handler" where
  "handleBucketOps r bucket =
    (let query = requestQuery r; resource = CHR ''/'' # bucket; go = (\<lambda>h. Inr (BucketHandler h bucket)) in
     if rqMethod r = ''GET'' then
       (if ValuesHas query ''cors'' then go handleGetBucketCORS
        else if ValuesHas query ''versioning'' then go handleGetBucketVersioning
        else if ValuesHas query ''lifecycle'' then go handleGetBucketLifecycle
        else if ValuesHas query ''logging'' then go handleGetBucketLogging
        else if ValuesHas query ''location'' then go handleGetBucketLocation
        else if ValuesHas query ''versions'' then go handleListObjectVersions
        else if ValuesHas query ''uploads'' then go handleListMultipartUploads
        else orReject query resource (go handleListObjects))
     else if rqMethod r = ''PUT'' then
       (if ValuesHas query ''cors'' then go handlePutBucketCORS
        else if ValuesHas query ''versioning'' then go handlePutBucketVersioning
        else if ValuesHas query ''lifecycle'' then go handlePutBucketLifecycle
        else if ValuesHas query ''logging'' then go handlePutBucketLogging
        else orReject query resource (go handleCreateBucket))
     else if rqMethod r = ''POST'' then
       (if ValuesHas query ''delete'' then go handleDeleteObjects
        else orReject query resource (Inl (NotAllowed resource)))
     else if rqMethod r = ''DELETE'' then
       (if ValuesHas query ''cors'' then go handleDeleteBucketCORS
        else if ValuesHas query ''lifecycle'' then go handleDeleteBucketLifecycle
        else orReject query resource (go handleDeleteBucket))
     else if rqMethod r = ''HEAD'' then orReject query resource (go handleHeadBucket)
     else Inl (NotAllowed resource))"

definition copySourceHeader :: "request \<Rightarrow> string" where
  "copySourceHeader r = HeaderGet (rqHeader r) ''x-amz-copy-source''"

definition handleObjectOps :: "request \<Rightarrow> string \<Rightarrow> string \<Rightarrow> reply + handler" where
  "handleObjectOps r bucket key =
    (let query = requestQuery r; resource = CHR ''/'' # bucket @ CHR ''/'' # key; go = (\<lambda>h. Inr (ObjectHandler h bucket key));
         part = (ValuesGet query ''partNumber'' \<noteq> [] \<and> ValuesGet query ''uploadId'' \<noteq> []) in
     if rqMethod r = ''GET'' then
       (if ValuesHas query ''uploadId'' then go handleListParts
        else orReject query resource (go handleGetObject))
     else if rqMethod r = ''PUT'' then
       (if copySourceHeader r \<noteq> [] \<and> part then go handleUploadPartCopy
        else if copySourceHeader r \<noteq> [] then orReject query resource (go handleCopyObject)
        else if part then go handleUploadPart
        else orReject query resource (go handlePutObject))
     else if rqMethod r = ''DELETE'' then
       (if ValuesGet query ''uploadId'' \<noteq> [] then go handleAbortMultipartUpload
        else orReject query resource (go handleDeleteObject))
     else if rqMethod r = ''HEAD'' then orReject query resource (go handleHeadObject)
     else if rqMethod r = ''POST'' then
       (if ValuesHas query ''uploads'' then go handleCreateMultipartUpload
        else if ValuesGet query ''uploadId'' \<noteq> [] then go handleCompleteMultipartUpload
        else orReject query resource (Inl (NotAllowed resource)))
     else Inl (NotAllowed resource))"

subsection \<open>CORS\<close>

record parsed_url =
  puScheme :: string
  puHost :: string
  puHostname :: string

type_synonym url_parser = "string \<Rightarrow> parsed_url option"

definition ToUpper :: "string \<Rightarrow> string" where
  "ToUpper s = map upper_char s"

definition originAllowed :: "url_parser \<Rightarrow> string \<Rightarrow> parsed_url option \<Rightarrow> string \<Rightarrow> bool" where
  "originAllowed parseURL origin originURL allowed \<longleftrightarrow>
    allowed = ''*'' \<or> ToLower allowed = origin \<or>
    (case (originURL, parseURL (ToLower allowed)) of
       (Some o', Some a) \<Rightarrow> puHost a \<noteq> [] \<and> puScheme o' = puScheme a \<and> HasPrefix (puHost a) ''*.'' \<and>
         HasSuffix (puHostname o') (drop 1 (puHost a))
     | _ \<Rightarrow> False) \<or>
    HasPrefix allowed ''*.'' \<and>
      (case originURL of
         Some o' \<Rightarrow> HasSuffix (puHostname o') (ToLower (drop 1 allowed))
       | None \<Rightarrow> HasSuffix origin (ToLower (drop 1 allowed)))"

definition matchOrigin :: "url_parser \<Rightarrow> string \<Rightarrow> string list \<Rightarrow> bool" where
  "matchOrigin parseURL origin allowedOrigins =
    (let origin = ToLower origin;
         originURL = (case parseURL origin of Some u \<Rightarrow> if puHost u \<noteq> [] then Some u else None | None \<Rightarrow> None) in
     list_ex (originAllowed parseURL origin originURL) allowedOrigins)"

definition matchMethod :: "string \<Rightarrow> string list \<Rightarrow> bool" where
  "matchMethod m allowedMethods = list_ex (\<lambda>a. ToUpper a = ToUpper m) allowedMethods"

definition matchHeaders :: "string list \<Rightarrow> string list \<Rightarrow> bool" where
  "matchHeaders reqHeaders allowedHeaders =
    list_all (\<lambda>h. list_ex (\<lambda>a. a = ''*'' \<or> ToLower a = h) allowedHeaders) reqHeaders"

definition requestedHeaders :: "request \<Rightarrow> string list" where
  "requestedHeaders r =
    (let s = HeaderGet (rqHeader r) ''Access-Control-Request-Headers'' in
     if rqMethod r = ''OPTIONS'' \<and> s \<noteq> [] then map (\<lambda>h. ToLower (TrimSpace h)) (SplitByte CHR '','' s) else [])"

text \<open>strings.Join with a comma and a space.\<close>

fun JoinComma :: "string list \<Rightarrow> string" where
  "JoinComma [] = []"
| "JoinComma [w] = w"
| "JoinComma (w # v # ws) = w @ '', '' @ JoinComma (v # ws)"

definition corsHeaders :: "request \<Rightarrow> string \<Rightarrow> CORSRule \<Rightarrow> header" where
  "corsHeaders r origin rule =
    [(''Access-Control-Allow-Origin'', origin), (''Access-Control-Allow-Methods'', JoinComma (crAllowedMethods rule))] @
    (if rqMethod r = ''OPTIONS'' then
       (let s = HeaderGet (rqHeader r) ''Access-Control-Request-Headers'' in
        if s \<noteq> [] then [(''Access-Control-Allow-Headers'', s)] else []) @
       (if crMaxAgeSeconds rule > 0 then [(''Access-Control-Max-Age'', Itoa (crMaxAgeSeconds rule))] else [])
     else if crExposeHeaders rule \<noteq> [] then [(''Access-Control-Expose-Headers'', JoinComma (crExposeHeaders rule))]
     else [])"

definition evaluateCORS :: "url_parser \<Rightarrow> request \<Rightarrow> CORSConfiguration option \<Rightarrow> header option" where
  "evaluateCORS parseURL r cors =
    (case cors of
       None \<Rightarrow> None
     | Some c \<Rightarrow>
       let origin = HeaderGet (rqHeader r) ''Origin'';
           requestMethod = (if rqMethod r = ''OPTIONS'' then HeaderGet (rqHeader r) ''Access-Control-Request-Method'' else rqMethod r) in
       if origin = [] \<or> requestMethod = [] then None
       else map_option (corsHeaders r origin) (find (\<lambda>rule. matchOrigin parseURL origin (crAllowedOrigins rule) \<and>
         matchMethod requestMethod (crAllowedMethods rule) \<and>
         (rqMethod r = ''OPTIONS'' \<longrightarrow> matchHeaders (requestedHeaders r) (crAllowedHeaders rule))) c))"

subsection \<open>The request\<close>

record s3_engine =
  seBucketCORS :: "string \<Rightarrow> CORSConfiguration option"
  seBucketPublic :: "string \<Rightarrow> bool"

definition isAnonymousReadCandidate :: "request \<Rightarrow> string \<Rightarrow> string \<Rightarrow> bool" where
  "isAnonymousReadCandidate r bucket key =
    (if bucket = [] \<or> key = [] \<or> (rqMethod r \<noteq> ''GET'' \<and> rqMethod r \<noteq> ''HEAD'') then False
     else
       let q = requestQuery r in
       \<not> ValuesHas q ''versionId'' \<and> \<not> ValuesHas q ''uploadId'')"

definition isObjectUpload :: "request \<Rightarrow> string \<Rightarrow> bool" where
  "isObjectUpload r key \<longleftrightarrow> key \<noteq> [] \<and> rqMethod r = ''PUT'' \<and> copySourceHeader r = []"

definition IsDeferred :: "vresult \<Rightarrow> bool" where
  "IsDeferred b = (case b of VBody _ \<Rightarrow> False | VPayload v \<Rightarrow> (case v of DeferredHash _ _ \<Rightarrow> True | _ \<Rightarrow> False) | VChunked _ \<Rightarrow> True)"

text \<open>All a body gives, read byte by byte, and the error it ends with.\<close>

definition bodyStream :: "crypto \<Rightarrow> request \<Rightarrow> vresult \<Rightarrow> string \<times> ioerr" where
  "bodyStream cy r b =
    (let (d, e) = (case rqBody r of None \<Rightarrow> ([], EOF) | Some s \<Rightarrow> (rdData s, if rdFails s then IOErr (AErr ''read'') else EOF)) in
     case b of
       VBody _ \<Rightarrow> (d, e)
     | VPayload NoBody \<Rightarrow> ([], EOF)
     | VPayload (InMemory m) \<Rightarrow> (m, EOF)
     | VPayload (DeferredHash cap v) \<Rightarrow>
         (case drain (deferredRead cy) (cap, v) (map (\<lambda>c. ([c], None)) d @ [([], Some e)]) of
            (p, Some x) \<Rightarrow> (p, x) | (p, None) \<Rightarrow> (p, EOF))
     | VChunked c \<Rightarrow> chunk_stream cy c)"

definition maxXMLRequestBody :: nat where "maxXMLRequestBody = 2097152"

text \<open>A read of at most one byte more than the limit, and handleStorageError on its error.\<close>

definition bodyError :: "string \<Rightarrow> aerr \<Rightarrow> reply" where
  "bodyError resource e = (case e of
     AuthError code msg \<Rightarrow> S3ErrorReply code msg resource
   | AErr _ \<Rightarrow> S3ErrorReply ''InternalError'' ''We encountered an internal error. Please try again.'' resource)"

definition readVerifiedBody :: "string \<Rightarrow> string \<times> ioerr \<Rightarrow> reply + string" where
  "readVerifiedBody resource st =
    (case st of (data, err) \<Rightarrow>
     if length data > maxXMLRequestBody then Inl (S3ErrorReply ''MaxMessageLengthExceeded'' ''Your request was too big.'' resource)
     else case err of EOF \<Rightarrow> Inr data | IOErr e \<Rightarrow> Inl (bodyError resource e))"

definition authFailed :: "string \<Rightarrow> aerr \<Rightarrow> reply" where
  "authFailed resource e = (case e of
     AuthError code msg \<Rightarrow> S3ErrorReply code msg resource
   | AErr _ \<Rightarrow> S3ErrorReply ''AccessDenied'' ''Access Denied'' resource)"

text \<open>The body that reaches a handler: one without a signature (isPublicRead), one it reads
  as a stream, or bytes already verified.\<close>

datatype sbody = PublicRead | Stream vresult | Checked string

definition authenticate ::
  "crypto \<Rightarrow> Credentials \<Rightarrow> int \<Rightarrow> date_parser \<Rightarrow> int \<Rightarrow> s3_engine \<Rightarrow> request \<Rightarrow> string \<Rightarrow> string \<Rightarrow> key_cache \<Rightarrow> (reply + sbody) \<times> key_cache" where
  "authenticate cy creds maxPayload rfc1123 now eng r bucket key cache =
    (if isAnonymousReadCandidate r bucket key \<and> seBucketPublic eng bucket then (Inr PublicRead, cache)
     else (case Verify cy creds maxPayload rfc1123 now r cache of
       (Inl e, cache) \<Rightarrow> (Inl (authFailed (uPath (rqUrl r)) e), cache)
     | (Inr b, cache) \<Rightarrow>
         (if IsDeferred b \<and> \<not> isObjectUpload r key
          then map_sum id Checked (readVerifiedBody (uPath (rqUrl r)) (bodyStream cy r b))
          else Inr (Stream b), cache)))"

definition route :: "request \<Rightarrow> string \<Rightarrow> string \<Rightarrow> reply + handler" where
  "route r bucket key =
    (if bucket \<noteq> [] \<and> \<not> IsValidBucketName bucket
     then Inl (S3ErrorReply ''InvalidBucketName'' ''The specified bucket is not valid.'' (CHR ''/'' # bucket))
     else if bucket = [] then handleServiceOps r
     else if key = [] then handleBucketOps r bucket
     else handleObjectOps r bucket key)"

definition handleCORS :: "url_parser \<Rightarrow> s3_engine \<Rightarrow> request \<Rightarrow> string \<Rightarrow> header option" where
  "handleCORS parseURL eng r bucket =
    (if HeaderGet (rqHeader r) ''Origin'' = [] then None else evaluateCORS parseURL r (seBucketCORS eng bucket))"

text \<open>The result is the reply the router writes itself or the handler it calls with the body,
  and the signing-key cache. The Server, Vary and Access-Control headers that an ordinary
  request gets besides are handleCORS of it and do not influence what is called.\<close>

definition serveHTTPInternal ::
  "crypto \<Rightarrow> Credentials \<Rightarrow> int \<Rightarrow> date_parser \<Rightarrow> int \<Rightarrow> url_parser \<Rightarrow> s3_engine \<Rightarrow> request \<Rightarrow> string \<Rightarrow> string \<Rightarrow> key_cache \<Rightarrow>
    (reply + handler \<times> sbody) \<times> key_cache" where
  "serveHTTPInternal cy creds maxPayload rfc1123 now parseURL eng r bucket key cache =
    (if rqMethod r = ''OPTIONS'' then
       (Inl (if bucket = [] then NotAllowed (uPath (rqUrl r))
             else case handleCORS parseURL eng r bucket of Some hs \<Rightarrow> Preflight hs | None \<Rightarrow> Status 403), cache)
     else (case authenticate cy creds maxPayload rfc1123 now eng r bucket key cache of
       (Inl e, cache) \<Rightarrow> (Inl e, cache)
     | (Inr b, cache) \<Rightarrow> (map_sum id (\<lambda>h. (h, b)) (route r bucket key), cache)))"

definition ServeHTTP ::
  "string \<Rightarrow> crypto \<Rightarrow> Credentials \<Rightarrow> int \<Rightarrow> date_parser \<Rightarrow> int \<Rightarrow> url_parser \<Rightarrow> s3_engine \<Rightarrow> request \<Rightarrow> key_cache \<Rightarrow>
    (reply + handler \<times> sbody) \<times> key_cache" where
  "ServeHTTP domain cy creds maxPayload rfc1123 now parseURL eng r cache =
    (case resolveBucketAndKey domain r of (bucket, key) \<Rightarrow>
     if bucket = ''_ready'' \<and> isHealthCheck r ''_health'' key then (Inl Readiness, cache)
     else if isHealthCheck r bucket key then (Inl (Status 200), cache)
     else serveHTTPInternal cy creds maxPayload rfc1123 now parseURL eng r bucket key cache)"

end
