(* ===== verification/Router_Props.thy ===== *)
theory Router_Props
  imports S3_Router Presign_Props
begin

text \<open>
  The router: what reaches a handler has been authorized, and a subresource the server does
  not implement never turns into the operation of the bare URL.
\<close>

subsection \<open>Authorized requests\<close>

lemma orReject_Inr: "orReject query resource d = Inr h \<longleftrightarrow> unhandledSubresource query [] = [] \<and> d = Inr h"
  by (auto simp: orReject_def rejectUnhandledSubresource_def Let_def)

lemma unhandled_Nil: "unhandledSubresource query [] = [] \<longleftrightarrow> (\<forall>(k, v)\<in>set query. k \<notin> set s3Subresources)"
proof -
  have "[] \<notin> set s3Subresources" by code_simp
  then show ?thesis by (induction query) (auto split: if_splits)
qed

lemma route_Inr:
  "route r bucket key = Inr h \<longleftrightarrow> (bucket \<noteq> [] \<longrightarrow> IsValidBucketName bucket) \<and>
    (if bucket = [] then handleServiceOps r else if key = [] then handleBucketOps r bucket else handleObjectOps r bucket key) = Inr h"
  by (auto simp: route_def)

lemma anonymous_handler:
  assumes "isAnonymousReadCandidate r bucket key" and "route r bucket key = Inr h"
  shows "h = ObjectHandler (if rqMethod r = ''GET'' then handleGetObject else handleHeadObject) bucket key \<and>
    IsValidBucketName bucket \<and> ValuesGet (requestQuery r) ''versionId'' = []"
proof -
  from assms(1) have c: "bucket \<noteq> []" "key \<noteq> []" "rqMethod r = ''GET'' \<or> rqMethod r = ''HEAD''"
    "\<not> ValuesHas (requestQuery r) ''versionId''" "\<not> ValuesHas (requestQuery r) ''uploadId''"
    by (auto simp: isAnonymousReadCandidate_def Let_def split: if_splits)
  then have v: "ValuesGet (requestQuery r) ''versionId'' = []"
    by (auto simp: ValuesGet_def ValuesHas_def list_ex_iff split: list.splits dest!: filter_eq_ConsD)
  from assms(2) c(1,2) have h: "handleObjectOps r bucket key = Inr h" "IsValidBucketName bucket" by (auto simp: route_Inr)
  with c(3,5) v show ?thesis by (auto simp: handleObjectOps_def Let_def orReject_Inr)
qed

lemma upload_handler:
  assumes "isObjectUpload r key" and "route r bucket key = Inr h" and "bucket \<noteq> []"
  shows "h = ObjectHandler handlePutObject bucket key \<or> h = ObjectHandler handleUploadPart bucket key"
  using assms by (auto simp: isObjectUpload_def route_Inr handleObjectOps_def Let_def orReject_Inr split: if_splits)

lemma authenticate_Inr:
  assumes "authenticate cy creds mx rfc now eng r bucket key cache = (Inr b, cache')"
  shows "(if isAnonymousReadCandidate r bucket key \<and> seBucketPublic eng bucket then b = PublicRead \<and> cache' = cache
    else \<exists>v. Verify cy creds mx rfc now r cache = (Inr v, cache') \<and>
      (if IsDeferred v \<and> \<not> isObjectUpload r key
       then \<exists>data. b = Checked data \<and> bodyStream cy r v = (data, EOF) \<and> length data \<le> maxXMLRequestBody
       else b = Stream v))"
proof (cases "isAnonymousReadCandidate r bucket key \<and> seBucketPublic eng bucket")
  case True
  with assms show ?thesis by (simp add: authenticate_def)
next
  case False
  with assms obtain v where v: "Verify cy creds mx rfc now r cache = (Inr v, cache')"
    and b: "(if IsDeferred v \<and> \<not> isObjectUpload r key
          then map_sum id Checked (readVerifiedBody (uPath (rqUrl r)) (bodyStream cy r v)) else Inr (Stream v)) = Inr b"
    by (auto simp: authenticate_def split: prod.splits sum.splits)
  show ?thesis
  proof (cases "IsDeferred v \<and> \<not> isObjectUpload r key")
    case True
    obtain d e where s: "bodyStream cy r v = (d, e)" by (cases "bodyStream cy r v")
    from b True obtain x where "readVerifiedBody (uPath (rqUrl r)) (d, e) = Inr x" "b = Checked x"
      unfolding s by (auto simp: map_sum_def split: sum.splits)
    with False True v s show ?thesis by (auto simp: readVerifiedBody_def not_less split: if_splits ioerr.splits)
  next
    case ns: False
    with False v b show ?thesis by auto
  qed
qed

text \<open>C14: a request reaches a handler only with authority. Without a signature it can only
  read the current version of an object in a bucket that is public - the handler is then
  GetObject or HeadObject of the very bucket and key whose access was checked. Any other
  request has passed Verify; its handler gets the verified bytes themselves, except that
  object and part uploads, which read to the end before they commit, get a body that is
  still being verified.\<close>

theorem handled_requests_are_authorized:
  assumes "ServeHTTP domain cy creds mx rfc now parseURL eng r cache = (Inr (h, b), cache')"
    and "resolveBucketAndKey domain r = (bucket, key)"
  shows "(b = PublicRead \<and> seBucketPublic eng bucket \<and> IsValidBucketName bucket \<and> ValuesGet (requestQuery r) ''versionId'' = [] \<and>
      h = ObjectHandler (if rqMethod r = ''GET'' then handleGetObject else handleHeadObject) bucket key) \<or>
    (\<exists>v. Verify cy creds mx rfc now r cache = (Inr v, cache') \<and>
      (b = Stream v \<and> (IsDeferred v \<longrightarrow> h = ObjectHandler handlePutObject bucket key \<or> h = ObjectHandler handleUploadPart bucket key) \<or>
       (\<exists>data. b = Checked data \<and> bodyStream cy r v = (data, EOF) \<and> length data \<le> 2097152)))"
proof -
  from assms have a: "authenticate cy creds mx rfc now eng r bucket key cache = (Inr b, cache')" and rt: "route r bucket key = Inr h"
    by (auto simp: ServeHTTP_def serveHTTPInternal_def map_sum_def split: if_splits prod.splits sum.splits)
  show ?thesis
  proof (cases "isAnonymousReadCandidate r bucket key \<and> seBucketPublic eng bucket")
    case True
    with authenticate_Inr [OF a] anonymous_handler [OF _ rt] show ?thesis by simp
  next
    case False
    then obtain v where v: "Verify cy creds mx rfc now r cache = (Inr v, cache')"
      and b: "if IsDeferred v \<and> \<not> isObjectUpload r key
        then \<exists>data. b = Checked data \<and> bodyStream cy r v = (data, EOF) \<and> length data \<le> maxXMLRequestBody else b = Stream v"
      using authenticate_Inr [OF a] by auto
    have "h = ObjectHandler handlePutObject bucket key \<or> h = ObjectHandler handleUploadPart bucket key" if u: "isObjectUpload r key"
    proof (rule upload_handler [OF u rt])
      show "bucket \<noteq> []"
      proof
        assume "bucket = []"
        with rt u show False by (auto simp: route_Inr handleServiceOps_def isObjectUpload_def split: if_splits)
      qed
    qed
    with v b show ?thesis by (auto simp: maxXMLRequestBody_def split: if_splits)
  qed
qed

subsection \<open>Subresources\<close>

text \<open>The operations of a URL without a subresource, those of the service included.\<close>

definition plain_handlers :: "string \<Rightarrow> string \<Rightarrow> handler set" where
  "plain_handlers bucket key = insert handleListBuckets (if key = []
     then {BucketHandler handleListObjects bucket, BucketHandler handleCreateBucket bucket, BucketHandler handleDeleteBucket bucket,
       BucketHandler handleHeadBucket bucket}
     else {ObjectHandler handleGetObject bucket key, ObjectHandler handlePutObject bucket key, ObjectHandler handleCopyObject bucket key,
       ObjectHandler handleDeleteObject bucket key, ObjectHandler handleHeadObject bucket key})"

text \<open>C15: a request to a bucket or an object that names a subresource never falls through to
  the operation of the URL without it. Whenever the query has one of the S3 subresource
  names, with any value and among any other parameters, no handler runs that creates, deletes,
  lists, reads, writes or copies the bucket or object itself: DELETE of an object's tags cannot
  delete the object. A request to the service, which has no subresources, is not checked:
  it can list the buckets, and do nothing else.\<close>

theorem subresource_never_falls_through:
  assumes "ServeHTTP domain cy creds mx rfc now parseURL eng r cache = (Inr (h, b), cache')"
    and "(name, v) \<in> set (ParseQuery (uRawQuery (rqUrl r)))" and "name \<in> set s3Subresources"
  shows "if fst (resolveBucketAndKey domain r) = [] then h = handleListBuckets \<and> rqMethod r = ''GET'' else h \<notin> plain_handlers bucket key"
proof -
  obtain bucket' key' where bk: "resolveBucketAndKey domain r = (bucket', key')" by fastforce
  with assms(1) have rt: "route r bucket' key' = Inr h"
    by (auto simp: ServeHTTP_def serveHTTPInternal_def map_sum_def split: if_splits prod.splits sum.splits)
  have n: "unhandledSubresource (requestQuery r) [] \<noteq> []"
    using assms(2,3) by (auto simp: unhandled_Nil requestQuery_def)
  show ?thesis
  proof (cases "bucket' = []")
    case True
    with rt show ?thesis by (auto simp: bk route_Inr handleServiceOps_def split: if_splits)
  next
    case False
    show ?thesis
    proof (cases "key' = []")
      case True
      with False rt have "handleBucketOps r bucket' = Inr h" by (simp add: route_Inr)
      with n False show ?thesis by (auto simp: bk handleBucketOps_def Let_def orReject_Inr plain_handlers_def split: if_splits)
    next
      case k: False
      with False rt have "handleObjectOps r bucket' key' = Inr h" by (simp add: route_Inr)
      with n False show ?thesis by (auto simp: bk handleObjectOps_def Let_def orReject_Inr plain_handlers_def split: if_splits)
    qed
  qed
qed

subsection \<open>Witnesses\<close>

definition ex_engine :: s3_engine where
  "ex_engine = \<lparr>seBucketCORS = (\<lambda>_. None), seBucketPublic = (\<lambda>b. b = ''pub'')\<rparr>"

definition ex_call :: "string \<Rightarrow> string \<Rightarrow> string \<Rightarrow> request" where
  "ex_call m path query = (ex_request [])\<lparr>rqMethod := m, rqUrl := \<lparr>uPath = path, uRawPath = [], uRawQuery = query\<rparr>\<rparr>"

abbreviation ex_serve :: "request \<Rightarrow> (reply + handler \<times> sbody) \<times> key_cache" where
  "ex_serve r \<equiv> ServeHTTP ''s3.test'' ex_crypto4 ex_creds 10 (\<lambda>_. None) ex_now (\<lambda>_. None) ex_engine r []"

theorem handled_requests_are_authorized_witness:
  "ex_serve (ex_call ''PUT'' ''/bkt/a/b'' []) = (Inr (ObjectHandler handlePutObject ''bkt'' ''a/b'', Stream (VBody None)), [(''20250102/r/s3'', ''AWest'')]) \<and>
   (\<exists>v. Verify ex_crypto4 ex_creds 10 (\<lambda>_. None) ex_now (ex_call ''PUT'' ''/bkt/a/b'' []) [] = (Inr v, [(''20250102/r/s3'', ''AWest'')]))"
proof -
  have s: "ex_serve (ex_call ''PUT'' ''/bkt/a/b'' []) = (Inr (ObjectHandler handlePutObject ''bkt'' ''a/b'', Stream (VBody None)), [(''20250102/r/s3'', ''AWest'')])"
    "resolveBucketAndKey ''s3.test'' (ex_call ''PUT'' ''/bkt/a/b'' []) = (''bkt'', ''a/b'')" by code_simp+
  from handled_requests_are_authorized [OF s] s(1) show ?thesis by auto
qed

theorem subresource_never_falls_through_witness:
  "ex_serve (ex_call ''GET'' ''/bkt'' ''x=1&cors'') = (Inr (BucketHandler handleGetBucketCORS ''bkt'', Stream (VBody None)), [(''20250102/r/s3'', ''AWest'')]) \<and>
   BucketHandler handleGetBucketCORS ''bkt'' \<notin> plain_handlers ''bkt'' []"
proof -
  have s: "ex_serve (ex_call ''GET'' ''/bkt'' ''x=1&cors'') = (Inr (BucketHandler handleGetBucketCORS ''bkt'', Stream (VBody None)), [(''20250102/r/s3'', ''AWest'')])"
    by code_simp
  have q: "(''cors'', []) \<in> set (ParseQuery (uRawQuery (rqUrl (ex_call ''GET'' ''/bkt'' ''x=1&cors''))))" "''cors'' \<in> set s3Subresources" by code_simp+
  have "fst (resolveBucketAndKey ''s3.test'' (ex_call ''GET'' ''/bkt'' ''x=1&cors'')) \<noteq> []" by code_simp
  with subresource_never_falls_through [OF s q] s show ?thesis by simp
qed

end
