(* ===== verification/Lifecycle.thy ===== *)
theory Lifecycle
  imports Multipart
begin

text \<open>
  Bucket lifecycle: internal/storage/lifecycle.go, expiration.go, multipart_cleanup.go and
  versioning.go. A configuration is checked before it is stored; the sweep applies the
  stored ones. The sweep takes its time once. What differs from one of its steps to the
  next is given as functions of the engine's state, which every step changes: whether the
  context has been cancelled by then (ctx), and the environment of each deletion (evs).
  Durations are int64 nanoseconds: products wrap, and Time.Sub saturates.
\<close>

subsection \<open>Rules\<close>

definition maxLifecycleRules :: nat where "maxLifecycleRules = 1000"

definition EffectivePrefix :: "LifecycleRule \<Rightarrow> string" where
  "EffectivePrefix r =
    (if lrPrefix r \<noteq> [] then lrPrefix r
     else case lfAnd (lrFilter r) of Some a \<Rightarrow> laPrefix a | None \<Rightarrow> lfPrefix (lrFilter r))"

text \<open>strings.EqualFold with an ASCII word: besides the ASCII case, U+017F folds to s and
  U+212A to k.\<close>

fun fold_simple :: "string \<Rightarrow> string" where
  "fold_simple [] = []"
| "fold_simple (c # s) =
    (if c = CHR 0xC5 \<and> HasPrefix s [CHR 0xBF] then CHR ''s'' # fold_simple (drop 1 s)
     else if c = CHR 0xE2 \<and> HasPrefix s [CHR 0x84, CHR 0xAA] then CHR ''k'' # fold_simple (drop 2 s)
     else lower_char c # fold_simple s)"

definition EqualFold :: "string \<Rightarrow> string \<Rightarrow> bool" where
  "EqualFold s word \<longleftrightarrow> fold_simple s = ToLower word"

definition enabled :: "LifecycleRule \<Rightarrow> bool" where
  "enabled r \<longleftrightarrow> EqualFold (lrStatus r) ''Enabled''"

definition MalformedXML :: "string \<Rightarrow> gerr" where "MalformedXML m = S3Error ''MalformedXML'' m"

definition badDays :: "int option \<Rightarrow> bool" where
  "badDays d \<longleftrightarrow> (case d of None \<Rightarrow> False | Some n \<Rightarrow> n < 0)"

text \<open>The messages leave out the quoted rule ID they start with.\<close>

definition validateRule :: "LifecycleRule \<Rightarrow> unit result" where
  "validateRule r =
    (let f = lrFilter r in
     if \<not> EqualFold (lrStatus r) ''Enabled'' \<and> \<not> EqualFold (lrStatus r) ''Disabled''
     then Inl (MalformedXML ''Status must be Enabled or Disabled.'')
     else if lfTag f \<noteq> None \<or> lfObjectSizeGreaterThan f \<noteq> None \<or> lfObjectSizeLessThan f \<noteq> None
     then Inl (S3Error ''NotImplemented'' ''only prefix filters are supported by this server.'')
     else if (case lfAnd f of None \<Rightarrow> False
        | Some a \<Rightarrow> laTags a \<noteq> [] \<or> laObjectSizeGreaterThan a \<noteq> None \<or> laObjectSizeLessThan a \<noteq> None)
     then Inl (S3Error ''NotImplemented'' ''only prefix filters are supported by this server.'')
     else if lfAnd f \<noteq> None \<and> lfPrefix f \<noteq> []
     then Inl (MalformedXML ''Filter cannot combine Prefix with And.'')
     else if lrPrefix r \<noteq> [] \<and> (lfPrefix f \<noteq> [] \<or> lfAnd f \<noteq> None)
     then Inl (MalformedXML ''Prefix and Filter cannot both be specified.'')
     else if badDays (lrExpiration r)
     then Inl (S3Error ''InvalidArgument'' ''Expiration Days must be a positive integer.'')
     else if badDays (lrNoncurrentVersionExpiration r)
     then Inl (S3Error ''InvalidArgument'' ''NoncurrentDays must be a positive integer.'')
     else if badDays (lrAbortIncompleteMultipartUpload r)
     then Inl (S3Error ''InvalidArgument'' ''DaysAfterInitiation must be a positive integer.'')
     else Inr ())"

fun validateRules :: "LifecycleRule list \<Rightarrow> unit result" where
  "validateRules [] = Inr ()"
| "validateRules (r # rs) = bindE (validateRule r) (\<lambda>_. validateRules rs)"

definition Validate :: "LifecycleConfiguration option \<Rightarrow> unit result" where
  "Validate lc =
    (case lc of
       None \<Rightarrow> Inl (MalformedXML ''The lifecycle configuration must contain at least one rule.'')
     | Some rules \<Rightarrow>
       if rules = [] then Inl (MalformedXML ''The lifecycle configuration must contain at least one rule.'')
       else if length rules > maxLifecycleRules
       then Inl (MalformedXML ''The lifecycle configuration cannot contain more than 1000 rules.'')
       else validateRules rules)"

subsection \<open>Settings\<close>

definition PutBucketLifecycleE :: "'b bolt \<Rightarrow> string \<Rightarrow> LifecycleConfiguration option \<Rightarrow> (unit, 'b) eop" where
  "PutBucketLifecycleE B bucket lc =
    opM (liftM (validateBucketName bucket)) (\<lambda>_.
    opM (liftM (Validate lc)) (\<lambda>_.
    opM (metaM (\<lambda>m. bucketMustExist B m bucket)) (\<lambda>_.
    metaM (\<lambda>m. PutBucketLifecycle B m bucket lc))))"

definition GetBucketLifecycleE :: "'b bolt \<Rightarrow> string \<Rightarrow> (LifecycleConfiguration, 'b) eop" where
  "GetBucketLifecycleE B bucket =
    opM (withBucket B bucket (\<lambda>m. GetBucketLifecycle B m bucket)) (\<lambda>lc.
    case lc of
      None \<Rightarrow> failM (S3Error ''NoSuchLifecycleConfiguration'' ''The lifecycle configuration does not exist'')
    | Some rules \<Rightarrow> retM rules)"

definition DeleteBucketLifecycleE :: "'b bolt \<Rightarrow> string \<Rightarrow> (unit, 'b) eop" where
  "DeleteBucketLifecycleE B bucket = withBucket B bucket (\<lambda>m. DeleteBucketLifecycle B m bucket)"

definition PutBucketLoggingE :: "'b bolt \<Rightarrow> string \<Rightarrow> LoggingEnabled option option \<Rightarrow> (unit, 'b) eop" where
  "PutBucketLoggingE B bucket lg = withBucket B bucket (\<lambda>m. PutBucketLogging B m bucket lg)"

definition GetBucketLoggingE :: "'b bolt \<Rightarrow> string \<Rightarrow> (LoggingEnabled option option, 'b) eop" where
  "GetBucketLoggingE B bucket = withBucket B bucket (\<lambda>m. GetBucketLogging B m bucket)"

definition GetBucketVersioningE :: "'b bolt \<Rightarrow> string \<Rightarrow> (string, 'b) eop" where
  "GetBucketVersioningE B bucket = withBucket B bucket (\<lambda>m. GetBucketVersioning B m bucket)"

definition SetBucketVersioning :: "'b bolt \<Rightarrow> string \<Rightarrow> string \<Rightarrow> (unit, 'b) eop" where
  "SetBucketVersioning B bucket status =
    opM (metaM (\<lambda>m. requireBucket B m bucket)) (\<lambda>_.
    if status \<noteq> ''Enabled'' \<and> status \<noteq> ''Suspended'' \<and> status \<noteq> ''Disabled''
    then failM (S3Error ''InvalidArgument'' ''Versioning status must be Enabled, Suspended, or Disabled'')
    else if status = ''Disabled'' then
      opM (metaM (\<lambda>m. GetBucketVersioning B m bucket)) (\<lambda>current.
      if current = ''Enabled'' \<or> current = ''Suspended''
      then failM (S3Error ''IllegalVersioningConfigurationException''
        ''A versioned bucket cannot be returned to an unversioned state; use Suspended instead.'')
      else retM ())
    else metaM (\<lambda>m. PutBucketVersioning B m bucket status))"

subsection \<open>Times\<close>

definition timeSub :: "int \<Rightarrow> int \<Rightarrow> int" where
  "timeSub t u = max (- (2 ^ 63)) (min (2 ^ 63 - 1) (t - u))"

definition dayNanos :: int where "dayNanos = 86400000000000"

text \<open>time.Duration(days) * 24 * time.Hour\<close>

definition daysCutoff :: "int \<Rightarrow> int" where
  "daysCutoff days = int64 (int64 (days * 24) * 3600000000000)"

subsection \<open>One expiration\<close>

definition expireCurrentVersion :: "'b bolt \<Rightarrow> env \<Rightarrow> string \<Rightarrow> string \<Rightarrow> string \<Rightarrow> int \<Rightarrow> (unit, 'b) eop" where
  "expireCurrentVersion B ev bucket key versionID modified =
    opM (tryM (metaM (\<lambda>m. GetObjectMeta B m bucket key []))) (\<lambda>r.
    case r of
      Inl x \<Rightarrow> if x = ErrObjectMetaNotFound then retM () else failM x
    | Inr current \<Rightarrow>
      if oiVersionID current \<noteq> versionID \<or> oiLastModified current \<noteq> modified then retM ()
      else if oiIsDeleteMarker current then
        opM (metaM (\<lambda>m. GetObjectVersions B m bucket key)) (\<lambda>versions.
        if \<exists>v\<in>set versions. oiVersionID v \<noteq> versionID then retM ()
        else opM (deleteObjectLocked B ev bucket key versionID) (\<lambda>_. retM ()))
      else opM (deleteObjectLocked B ev bucket key []) (\<lambda>_. retM ()))"

text \<open>The earliest modification after the candidate's, for records without a time.\<close>

fun successorTime :: "ObjectInfo \<Rightarrow> int \<Rightarrow> ObjectInfo list \<Rightarrow> int" where
  "successorTime candidate since [] = since"
| "successorTime candidate since (s # ss) =
    successorTime candidate
      (if oiLastModified s > oiLastModified candidate \<and> (since = 0 \<or> oiLastModified s < since) then oiLastModified s else since) ss"

definition expireNoncurrentVersion :: "'b bolt \<Rightarrow> env \<Rightarrow> string \<Rightarrow> string \<Rightarrow> string \<Rightarrow> int \<Rightarrow> int \<Rightarrow> (unit, 'b) eop" where
  "expireNoncurrentVersion B ev bucket key versionID now cutoff =
    opM (tryM (metaM (\<lambda>m. GetObjectMeta B m bucket key versionID))) (\<lambda>r.
    case r of
      Inl x \<Rightarrow> if x = ErrObjectMetaNotFound then retM () else failM x
    | Inr candidate \<Rightarrow>
      if oiIsLatest candidate then retM ()
      else
        opM (if oiNoncurrentSince candidate = 0
             then opM (metaM (\<lambda>m. GetObjectVersions B m bucket key)) (\<lambda>versions. retM (successorTime candidate 0 versions))
             else retM (oiNoncurrentSince candidate)) (\<lambda>since.
        if since = 0 \<or> timeSub now since \<le> cutoff then retM ()
        else opM (deleteObjectLocked B ev bucket key versionID) (\<lambda>_. retM ())))"

subsection \<open>Scans\<close>

definition maxExpiryBatch :: nat where "maxExpiryBatch = 10000"

text \<open>A scan hands each record to a callback that keeps the matching ones and stops the
  scan at the first record after the batch is full.\<close>

fun collect :: "nat \<Rightarrow> (dbvalue \<Rightarrow> 'a result) \<Rightarrow> ('a \<Rightarrow> bool) \<Rightarrow> dbvalue list \<Rightarrow> 'a list result" where
  "collect room dec keep [] = Inr []"
| "collect room dec keep (v # vs) =
    bindE (dec v) (\<lambda>i.
    if room = 0 then Inr []
    else if keep i then bindE (collect (room - 1) dec keep vs) (\<lambda>rest. Inr (i # rest))
    else collect room dec keep vs)"

definition objectEntries :: "'b bolt \<Rightarrow> 'b bdb \<Rightarrow> string \<Rightarrow> bool \<Rightarrow> dbvalue list" where
  "objectEntries B db bucket versions =
    (let pfx = bucket @ [nul] in
     map snd (filter (\<lambda>e. HasByte (drop (length pfx) (fst e)) nul = versions) (cur_prefix B (dbObjects db) pfx)))"

definition currentExpired :: "string \<Rightarrow> int \<Rightarrow> int \<Rightarrow> ObjectInfo \<Rightarrow> bool" where
  "currentExpired pfx now cutoff m \<longleftrightarrow> HasPrefix (oiKey m) pfx \<and> timeSub now (oiLastModified m) > cutoff"

definition noncurrentExpired :: "string \<Rightarrow> int \<Rightarrow> int \<Rightarrow> ObjectInfo \<Rightarrow> bool" where
  "noncurrentExpired pfx now cutoff v \<longleftrightarrow> \<not> oiIsLatest v \<and> HasPrefix (oiKey v) pfx \<and>
    (oiNoncurrentSince v = 0 \<or> timeSub now (oiNoncurrentSince v) > cutoff)"

definition scanObjects :: "'b bolt \<Rightarrow> string \<Rightarrow> bool \<Rightarrow> (ObjectInfo \<Rightarrow> bool) \<Rightarrow> (ObjectInfo list, 'b) eop" where
  "scanObjects B bucket versions keep =
    metaM (\<lambda>m. viewDB B m bucket (\<lambda>db. collect maxExpiryBatch unmarshal_obj keep (objectEntries B db bucket versions)))"

definition ctxM :: "('b engine \<Rightarrow> bool) \<Rightarrow> (unit, 'b) eop" where
  "ctxM ctx e = (if ctx e then failM (ErrText ''context canceled'') e else retM () e)"

definition expiredMultipartUploads ::
  "'b bolt \<Rightarrow> ('b engine \<Rightarrow> bool) \<Rightarrow> string \<Rightarrow> string \<Rightarrow> int \<Rightarrow> int \<Rightarrow> nat \<Rightarrow> ((string \<times> string \<times> string) list, 'b) eop" where
  "expiredMultipartUploads B ctx bucket pfx now age limit =
    opM (\<lambda>e. metaM (\<lambda>m. viewDB B m bucket (\<lambda>db. collect limit
        (\<lambda>v. bindE (unmarshal_mp v) (\<lambda>u. if ctx e then Inl (ErrText ''context canceled'') else Inr u))
        (\<lambda>u. HasPrefix (mpKey u) pfx \<and> timeSub now (mpCreated u) > age) (map snd (bk_entries B (dbMultipart db))))) e) (\<lambda>us.
    retM (map (\<lambda>u. (bucket, mpKey u, mpUploadID u)) us))"

text \<open>errors.Join of the failures, in order; none is no error.\<close>

definition joinErrors :: "gerr list \<Rightarrow> (unit, 'b) eop" where
  "joinErrors failures = (if failures = [] then retM () else failM (ErrText ''abort multipart''))"

fun abortExpiredUploads ::
  "'b bolt \<Rightarrow> ('b engine \<Rightarrow> bool) \<Rightarrow> ('b engine \<Rightarrow> env) \<Rightarrow> gerr list \<Rightarrow> (string \<times> string \<times> string) list \<Rightarrow> (unit, 'b) eop" where
  "abortExpiredUploads B ctx evs failures [] e = joinErrors failures e"
| "abortExpiredUploads B ctx evs failures ((bucket, key, uploadID) # us) e =
    opM (tryM (ctxM ctx)) (\<lambda>c.
    case c of
      Inl x \<Rightarrow> joinErrors (failures @ [x])
    | Inr _ \<Rightarrow>
      opM (tryM (AbortMultipartUpload B (evs e) bucket key uploadID)) (\<lambda>r.
      case r of
        Inl x \<Rightarrow>
          if (case x of S3Error code _ \<Rightarrow> code = ''NoSuchUpload'' | _ \<Rightarrow> False) then abortExpiredUploads B ctx evs failures us
          else abortExpiredUploads B ctx evs (failures @ [x]) us
      | Inr _ \<Rightarrow> abortExpiredUploads B ctx evs failures us)) e"

subsection \<open>The sweep\<close>

fun forM :: "'x list \<Rightarrow> ('x \<Rightarrow> (unit, 'b) eop) \<Rightarrow> (unit, 'b) eop" where
  "forM [] f = retM ()"
| "forM (x # xs) f = opM (f x) (\<lambda>_. forM xs f)"

definition sweepCurrent :: "'b bolt \<Rightarrow> ('b engine \<Rightarrow> bool) \<Rightarrow> ('b engine \<Rightarrow> env) \<Rightarrow> int \<Rightarrow> string \<Rightarrow> string \<Rightarrow> int \<Rightarrow> (unit, 'b) eop" where
  "sweepCurrent B ctx evs now bucket pfx days =
    opM (scanObjects B bucket False (currentExpired pfx now (daysCutoff days))) (\<lambda>expired.
    forM expired (\<lambda>x. opM (ctxM ctx) (\<lambda>_.
      (\<lambda>e. expireCurrentVersion B (evs e) bucket (oiKey x) (oiVersionID x) (oiLastModified x) e))))"

definition sweepNoncurrent :: "'b bolt \<Rightarrow> ('b engine \<Rightarrow> bool) \<Rightarrow> ('b engine \<Rightarrow> env) \<Rightarrow> int \<Rightarrow> string \<Rightarrow> string \<Rightarrow> int \<Rightarrow> (unit, 'b) eop" where
  "sweepNoncurrent B ctx evs now bucket pfx days =
    opM (scanObjects B bucket True (noncurrentExpired pfx now (daysCutoff days))) (\<lambda>expired.
    forM expired (\<lambda>x. opM (ctxM ctx) (\<lambda>_.
      (\<lambda>e. expireNoncurrentVersion B (evs e) bucket (oiKey x) (oiVersionID x) now (daysCutoff days) e))))"

definition sweepUploads :: "'b bolt \<Rightarrow> ('b engine \<Rightarrow> bool) \<Rightarrow> ('b engine \<Rightarrow> env) \<Rightarrow> int \<Rightarrow> string \<Rightarrow> string \<Rightarrow> int \<Rightarrow> (unit, 'b) eop" where
  "sweepUploads B ctx evs now bucket pfx days =
    opM (expiredMultipartUploads B ctx bucket pfx now (daysCutoff days) maxExpiryBatch) (\<lambda>us.
    abortExpiredUploads B ctx evs [] us)"

definition whenDays :: "int option \<Rightarrow> (int \<Rightarrow> (unit, 'b) eop) \<Rightarrow> (unit, 'b) eop" where
  "whenDays d f = (case d of Some n \<Rightarrow> if n > 0 then f n else retM () | None \<Rightarrow> retM ())"

definition sweepRule :: "'b bolt \<Rightarrow> ('b engine \<Rightarrow> bool) \<Rightarrow> ('b engine \<Rightarrow> env) \<Rightarrow> int \<Rightarrow> string \<Rightarrow> LifecycleRule \<Rightarrow> (unit, 'b) eop" where
  "sweepRule B ctx evs now bucket rule =
    opM (ctxM ctx) (\<lambda>_.
    if \<not> enabled rule \<or> \<not> is_ok (validateRule rule) then retM ()
    else
      let pfx = EffectivePrefix rule in
      opM (whenDays (lrExpiration rule) (sweepCurrent B ctx evs now bucket pfx)) (\<lambda>_.
      opM (whenDays (lrNoncurrentVersionExpiration rule) (sweepNoncurrent B ctx evs now bucket pfx)) (\<lambda>_.
      whenDays (lrAbortIncompleteMultipartUpload rule) (sweepUploads B ctx evs now bucket pfx))))"

definition CleanExpiredObjects :: "'b bolt \<Rightarrow> ('b engine \<Rightarrow> bool) \<Rightarrow> ('b engine \<Rightarrow> env) \<Rightarrow> int \<Rightarrow> (unit, 'b) eop" where
  "CleanExpiredObjects B ctx evs now =
    opM (ListBuckets B) (\<lambda>buckets.
    forM buckets (\<lambda>b. opM (ctxM ctx) (\<lambda>_.
      case biLifecycle b of
        None \<Rightarrow> retM ()
      | Some rules \<Rightarrow> forM rules (sweepRule B ctx evs now (biName b)))))"

text \<open>The sweep over all buckets for uploads older than a fixed age.\<close>

fun collectUploads ::
  "'b bolt \<Rightarrow> ('b engine \<Rightarrow> bool) \<Rightarrow> int \<Rightarrow> int \<Rightarrow> (string \<times> string \<times> string) list \<Rightarrow> BucketInfo list \<Rightarrow> ((string \<times> string \<times> string) list, 'b) eop" where
  "collectUploads B ctx now cutoff uploads [] = retM uploads"
| "collectUploads B ctx now cutoff uploads (b # bs) =
    opM (ctxM ctx) (\<lambda>_.
    opM (expiredMultipartUploads B ctx (biName b) [] now cutoff (maxExpiryBatch - length uploads)) (\<lambda>batch.
    let uploads = uploads @ batch in
    if length uploads \<ge> maxExpiryBatch then retM uploads else collectUploads B ctx now cutoff uploads bs))"

definition CleanExpiredMultipartUploads :: "'b bolt \<Rightarrow> ('b engine \<Rightarrow> bool) \<Rightarrow> ('b engine \<Rightarrow> env) \<Rightarrow> int \<Rightarrow> int \<Rightarrow> (unit, 'b) eop" where
  "CleanExpiredMultipartUploads B ctx evs now cutoff =
    opM (ListBuckets B) (\<lambda>buckets.
    opM (collectUploads B ctx now cutoff [] buckets) (\<lambda>uploads.
    abortExpiredUploads B ctx evs [] uploads))"

end
