(* ===== verification/Lifecycle_Props.thy ===== *)
theory Lifecycle_Props
  imports Lifecycle Multipart_Inv Engine_Props
begin

text \<open>
  What a lifecycle sweep may change. An operation on one key leaves the records of every
  other key alone; so a key whose records no enabled rule finds expired has the same
  records when the sweep ends, however it ends.
\<close>

named_theorems frame_rules "operations that leave the records of a key alone"

subsection \<open>Frames\<close>

definition has_records :: "'b bolt \<Rightarrow> string \<Rightarrow> string \<Rightarrow> ObjectInfo option \<Rightarrow> history \<Rightarrow> 'b mstore \<Rightarrow> bool" where
  "has_records B b k c h m \<longleftrightarrow> meta_ok B m \<and> cur_of (obj_at B m b) b k = c \<and> hist_of (obj_at B m b) b k = h"

text \<open>An assertion on the metadata that f keeps, whether it succeeds or fails.\<close>

definition safe :: "('b mstore \<Rightarrow> bool) \<Rightarrow> ('a, 'b) eop \<Rightarrow> bool" where
  "safe N f \<longleftrightarrow> (\<forall>e. N (egMeta e) \<longrightarrow> N (egMeta (snd (f e))))"

lemma safe_op [frame_rules]: "safe N f \<Longrightarrow> (\<And>a. safe N (g a)) \<Longrightarrow> safe N (opM f g)"
  unfolding safe_def opM_def by (auto split: prod.splits sum.splits)

lemma safe_basic [frame_rules]:
  "safe N (retM a)" "safe N (failM x)" "safe N (liftM r)" "safe N (filesM g)" "safe N (eventM v)" "safe N (sysM ev c msg)" "safe N (ctxM ctx)"
  by (simp_all add: safe_def retM_def failM_def liftM_def filesM_def eventM_def sysM_def ctxM_def)

lemma safe_try [frame_rules]: "safe N f \<Longrightarrow> safe N (tryM f)"
  by (auto simp: safe_def tryM_def split: prod.splits)

lemma safe_at: "(\<And>e. safe N (f e)) \<Longrightarrow> safe N (\<lambda>e. f e e)"
  by (simp add: safe_def)

lemma safe_if [frame_rules]: "safe N f \<Longrightarrow> safe N g \<Longrightarrow> safe N (if c then f else g)"
  by simp

lemma safe_sum [frame_rules]: "(\<And>x. safe N (f x)) \<Longrightarrow> (\<And>a. safe N (g a)) \<Longrightarrow> safe N (case r of Inl x \<Rightarrow> f x | Inr a \<Rightarrow> g a)"
  by (cases r) auto

lemma safe_option [frame_rules]: "safe N f \<Longrightarrow> (\<And>a. safe N (g a)) \<Longrightarrow> safe N (case r of None \<Rightarrow> f | Some a \<Rightarrow> g a)"
  by (cases r) auto

lemma safe_meta: "(\<And>m. N m \<Longrightarrow> N (snd (F m))) \<Longrightarrow> safe N (metaM F)"
  by (auto simp: safe_def metaM_def split: prod.splits) (metis snd_conv)

lemma safe_read: "reads B F \<Longrightarrow> safe (has_records B b k c h) (metaM F)"
  by (rule safe_meta) (auto simp: has_records_def reads_def, (metis prod.collapse)+)

lemma safe_removeData [frame_rules]: "safe N (removeData r)" "safe N (removeObjectFile p)"
  by (auto simp: safe_def removeData_def removeObjectFile_def retM_def filesM_def split: option.splits sum.splits)

lemma safe_removeAllData [frame_rules]: "safe N (removeAllData rs)"
  by (induction rs) (auto intro!: frame_rules)

lemma safe_registry [frame_rules]:
  "safe (has_records B b k c h) (metaM (\<lambda>m. GetBucketVersioning B m b'))" "safe (has_records B b k c h) (metaM (\<lambda>m. requireBucket B m b'))"
  by (rule safe_read, rule reads_registry)+

context bolt_laws
begin

lemma safe_get [frame_rules]:
  assumes "IsValidBucketName b'"
  shows "safe (has_records B b k c h) (metaM (\<lambda>m. GetObjectMeta B m b' k' v))" "safe (has_records B b k c h) (metaM (\<lambda>m. GetObjectVersions B m b' k'))"
  by (rule safe_read, rule reads_objects, rule assms)+

text \<open>A transaction on one key keeps the records of another.\<close>

lemma update_other:
  assumes u: "updateDB_unit B m b' f = (r, m')" and v: "IsValidBucketName b'" and n: "nul \<notin> set k" "(b', k') \<noteq> (b, k)"
    and f: "\<And>db db'. db_wf B b' db \<Longrightarrow> bk_get B (dbObjects db) = obj_at B m b' \<Longrightarrow> f db = Inr db' \<Longrightarrow>
      db_wf B b' db' \<and> others_same B db db' b' k'"
    and h: "has_records B b k c h m"
  shows "has_records B b k c h m'"
proof -
  have m: "meta_ok B m" using h by (simp add: has_records_def)
  note U = update_obj [OF u m v]
  have W: "\<forall>db db'. db_wf B b' db \<longrightarrow> bk_get B (dbObjects db) = obj_at B m b' \<longrightarrow> f db = Inr db' \<longrightarrow> db_wf B b' db'" using f by blast
  show ?thesis
  proof (cases "is_ok r")
    case True
    with U(3) [OF W] obtain db db' where d: "f db = Inr db'" "db_wf B b' db" "bk_get B (dbObjects db) = obj_at B m b'"
      "obj_at B m' = (obj_at B m)(b' := bk_get B (dbObjects db'))" by blast
    have "others_same B db db' b' k'" using f [OF d(2,3,1)] by simp
    with d(3,4) n h U(1) [OF W] show ?thesis by (auto simp: has_records_def others_same_def)
  next
    case False
    with U(1,2) [OF W] h show ?thesis by (simp add: has_records_def)
  qed
qed

lemma put_other:
  assumes "IsValidBucketName b'" "nul \<notin> set k" "(b', k') \<noteq> (b, k)" "nul \<notin> set k'" "rec_ok b' k' info"
  shows "safe (has_records B b k c h) (metaM (\<lambda>m. PutObjectMeta B m info))"
proof (rule safe_meta)
  fix m assume h: "has_records B b k c h m"
  have b: "oiBucket info = b'" using assms(5) by (simp add: rec_ok_def)
  obtain r m' where u: "PutObjectMeta B m info = (r, m')" by fastforce
  show "has_records B b k c h (snd (PutObjectMeta B m info))"
    using update_other [OF u [unfolded PutObjectMeta_def b] assms(1-3) _ h] put_db [OF _ _ assms(5,4)] u by simp
qed

lemma delete_other:
  assumes "IsValidBucketName b'" "nul \<notin> set k" "(b', k') \<noteq> (b, k)" "nul \<notin> set k'"
  shows "safe (has_records B b k c h) (metaM (\<lambda>m. DeleteObjectMeta B m b' k' v))"
proof (rule safe_meta)
  fix m assume h: "has_records B b k c h m"
  obtain r m' where u: "DeleteObjectMeta B m b' k' v = (r, m')" by fastforce
  have "db_wf B b' db' \<and> others_same B db db' b' k'"
    if "db_wf B b' db" "deleteObjectMetaTx B (msReplication m) b' k' v db = Inr db'" for db db'
    using delete_version_db [OF that(2,1) assms(4)] delete_key_db [OF _ that(1) assms(4)] that(2) by (cases "v = []") auto
  with update_other [OF u [unfolded DeleteObjectMeta_def] assms(1-3) _ h] u
  show "has_records B b k c h (snd (DeleteObjectMeta B m b' k' v))" by simp
qed

text \<open>The raw write by which a record of an unversioned key becomes its null version.\<close>

lemma raw_other:
  assumes v: "IsValidBucketName b'" "nul \<notin> set k" "(b', k') \<noteq> (b, k)" "nul \<notin> set k'" and i: "oiVersionID i = []" and x: "utf8_valid x"
    and h: "has_records B b k c h m" "cur_of (obj_at B m b') b' k' = Some i"
    and u: "PutObjectMetaRaw B m (i\<lparr>oiVersionID := ''null'', oiIsLatest := True, oiBlobID := x\<rparr>) = (r, m')"
  shows "has_records B b k c h m'"
proof -
  have m: "meta_ok B m" using h by (simp add: has_records_def)
  have ri: "rec_ok b' k' i" using key_wf_cur [OF meta_ok_key [OF m v(4)] h(2)] by simp
  let ?i = "i\<lparr>oiVersionID := ''null'', oiIsLatest := True, oiBlobID := x\<rparr>"
  have r: "rec_ok b' k' ?i" using ri x utf8_null by (auto simp: rec_ok_def obj_utf8_def simp del: utf8_valid.simps)
  have b: "oiBucket ?i = b'" using ri by (simp add: rec_ok_def)
  show ?thesis
  proof (rule update_other [OF u [unfolded PutObjectMetaRaw_def b] v(1-3) _ h(1)])
    fix db db'
    assume d: "db_wf B b' db" "bk_get B (dbObjects db) = obj_at B m b'" "putObjectMetaRawTx B ?i db = Inr db'"
    have c: "cur_db B db b' k' = Some i" using d(2) h(2) by simp
    have hm: "hist_db B db b' k' = Map.empty" using key_wf_cur [OF store_wf_key [OF db_wf_store [OF d(1)] v(4)] c] i by auto
    have s: "spec_raw ?i (cur_db B db b' k', hist_db B db b' k') = (Some ?i, [''null'' \<mapsto> ?i])" unfolding hm spec_raw_def by simp
    have w: "key_wf b' k' (Some ?i) [''null'' \<mapsto> ?i]" by (rule key_wfI) (use r in \<open>auto split: if_splits\<close>)
    show "db_wf B b' db' \<and> others_same B db db' b' k'" using raw_db [OF d(3,1) r v(4)] w unfolding s by simp
  qed
qed

text \<open>Promotion and deletion of one key keep the records of another.\<close>

definition once :: "('b mstore \<Rightarrow> 'b mstore) \<Rightarrow> bool \<Rightarrow> ('a, 'b) eop \<Rightarrow> bool" where
  "once F w f \<longleftrightarrow> (\<forall>e. egMeta (snd (f e)) = egMeta e \<or> (w \<and> egMeta (snd (f e)) = F (egMeta e)))"

named_theorems once_rules "operations that write the metadata at most once"

lemma once_basic [once_rules]:
  "once F w (retM a)" "once F w (failM x)" "once F w (liftM r)" "once F w (filesM g)" "once F w (sysM ev c msg)" "once F w (removeObjectFile p)"
  by (simp_all add: once_def retM_def failM_def liftM_def filesM_def sysM_def removeObjectFile_def)

lemma once_first: "once F w f \<Longrightarrow> (\<And>a. once F False (g a)) \<Longrightarrow> once F w (opM f g)"
  and once_later: "once F False f \<Longrightarrow> (\<And>a e e'. f e = (Inr a, e') \<Longrightarrow> once F w (g a)) \<Longrightarrow> once F w (opM f g)"
  unfolding once_def opM_def by (auto split: prod.splits sum.splits) (metis snd_conv)+

lemma once_try [once_rules]: "once F w f \<Longrightarrow> once F w (tryM f)"
  unfolding once_def tryM_def by (simp split: prod.splits) (metis snd_conv)

lemma once_sum [once_rules]: "(\<And>x. once F w (f x)) \<Longrightarrow> (\<And>a. once F w (g a)) \<Longrightarrow> once F w (case r of Inl x \<Rightarrow> f x | Inr a \<Rightarrow> g a)"
  by (cases r) auto

lemma promoteLegacyFile_meta:
  "once (\<lambda>m. snd (PutObjectMetaRaw B m (i\<lparr>oiVersionID := ''null'', oiIsLatest := True, oiBlobID := newBlobID (evPromoteRnd ev)\<rparr>))) True
     (promoteLegacyFile B ev b' k' i)" (is "once ?F True _")
  unfolding promoteLegacyFile_def
proof (rule once_later, goal_cases)
  case 1
  then show ?case by (simp add: once_def liftM_def)
next
  case (2 src)
  show ?case
  proof (rule once_later, goal_cases)
    case 1
    then show ?case by (auto simp: once_def retM_def failM_def Let_def split: option.splits)
  next
    case 2
    show ?case
    proof (rule once_later, goal_cases)
      case 1
      then show ?case by (auto simp: once_def retM_def failM_def split: option.splits)
    next
      case (2 input)
      show ?case
      proof (rule once_later, goal_cases)
        case 1
        then show ?case by (simp add: once_def liftM_def)
      next
        case (2 q)
        then obtain path where q: "q = (newBlobID (evPromoteRnd ev), path)"
          by (auto simp: liftM_def newBlob_def bindE_Inr_iff Let_def split: sum.splits if_splits)
        have put: "once ?F True (metaM (\<lambda>m. PutObjectMetaRaw B m (i\<lparr>oiVersionID := ''null'', oiIsLatest := True,
            oiBlobID := newBlobID (evPromoteRnd ev)\<rparr>)))"
          by (simp add: once_def metaM_def split: prod.splits)
        have guard: "once ?F False (\<lambda>e. if egFiles e path \<noteq> None then failM x e else retM () e)" for x
          by (simp add: once_def failM_def retM_def)
        have undo: "once ?F False (opM (removeObjectFile path) (\<lambda>_. failM x))" for x
          by (rule once_later once_rules)+
        show ?case unfolding q prod.case
          by (rule once_later [OF guard], rule once_first, rule once_try, (rule once_later, rule once_rules)+, rule put, rule once_sum)
            (rule undo once_rules)+
      qed
    qed
  qed
qed

lemma promote_other:
  assumes v: "IsValidBucketName b'" "nul \<notin> set k" "(b', k') \<noteq> (b, k)" "nul \<notin> set k'" and r: "16 \<le> length (evPromoteRnd ev)"
  shows "safe (has_records B b k c h) (promoteLegacyNullVersion B ev b' k')"
  unfolding safe_def
proof (intro allI impI)
  fix e :: "'b engine" assume h: "has_records B b k c h (egMeta e)"
  obtain q m1 where g: "GetObjectMeta B (egMeta e) b' k' [] = (q, m1)" by fastforce
  have m: "meta_ok B (egMeta e)" using h by (simp add: has_records_def)
  have h1: "has_records B b k c h m1" and o: "obj_at B m1 = obj_at B (egMeta e)"
    using GetObjectMeta_obj(1) [OF g m v(1)] h by (auto simp: has_records_def)
  let ?e = "snapshot (e\<lparr>egMeta := m1\<rparr>)"
  show "has_records B b k c h (egMeta (snd (promoteLegacyNullVersion B ev b' k' e)))"
  proof (cases q)
    case (Inl x)
    then show ?thesis using h1 by (simp add: promoteLegacyNullVersion_def opM_def tryM_def metaM_def g retM_def failM_def)
  next
    case (Inr i)
    have c: "cur_of (obj_at B m1 b') b' k' = Some i" using GetObjectMeta_obj(2) [OF g m v(1,4)] Inr o by simp
    have raw: "has_records B b k c h (snd (PutObjectMetaRaw B m1 (i\<lparr>oiVersionID := ''null'', oiIsLatest := True, oiBlobID := x\<rparr>)))"
      if "oiVersionID i = []" "utf8_valid x" for x
      using raw_other [OF v that h1 c] by (metis prod.collapse)
    have i: "utf8_valid (oiBlobID i)"
      using key_wf_cur [OF meta_ok_key [OF _ v(4)] c] h1 by (auto simp: has_records_def rec_ok_def obj_utf8_def)
    have n: "utf8_valid (newBlobID (evPromoteRnd ev))" using newBlobID_is [OF r] isBlobID_utf8 by blast
    have e: "promoteLegacyNullVersion B ev b' k' e = (if oiVersionID i \<noteq> [] \<or> oiIsDeleteMarker i then retM ()
        else if oiBlobID i \<noteq> [] then metaM (\<lambda>m. PutObjectMetaRaw B m (i\<lparr>oiVersionID := ''null'', oiIsLatest := True\<rparr>))
        else promoteLegacyFile B ev b' k' i) ?e"
      by (simp add: promoteLegacyNullVersion_def opM_def tryM_def metaM_def g Inr)
    have pm: "egMeta (snd (promoteLegacyFile B ev b' k' i ?e)) = egMeta ?e \<or> egMeta (snd (promoteLegacyFile B ev b' k' i ?e)) =
        snd (PutObjectMetaRaw B (egMeta ?e) (i\<lparr>oiVersionID := ''null'', oiIsLatest := True, oiBlobID := newBlobID (evPromoteRnd ev)\<rparr>))"
      using promoteLegacyFile_meta unfolding once_def by blast
    have b: "i\<lparr>oiVersionID := ''null'', oiIsLatest := True\<rparr> = i\<lparr>oiVersionID := ''null'', oiIsLatest := True, oiBlobID := oiBlobID i\<rparr>" by simp
    show ?thesis
      unfolding e using h1 raw [OF _ i] raw [OF _ n] pm
      by (auto simp: retM_def metaM_def split: prod.splits)
  qed
qed

lemma deleteObject_other:
  assumes v: "IsValidBucketName b'" "nul \<notin> set k" "(b', k') \<noteq> (b, k)" "nul \<notin> set k'" and u: "utf8_valid k'" and ev: "env_ok ev"
  shows "safe (has_records B b k c h) (deleteObjectLocked B ev b' k' w)"
proof -
  have r: "16 \<le> length (evPromoteRnd ev)" using ev by (simp add: env_ok_def)
  note rules = frame_rules safe_get [OF v(1)] delete_other [OF v] promote_other [OF v r]
  have mi: "rec_ok b' k' (markerInfo ev b' k' (versionFor ev s))" for s using markerInfo_ok [OF v(1) u] versionFor_ok [OF ev] by blast
  have st: "safe (has_records B b k c h) (storedRecord B b' k' x)" for x
    unfolding storedRecord_def by (intro rules)
  have path: "safe N (\<lambda>e. case objectPathWithVersion (egDataDir e) b' k' x of Inl _ \<Rightarrow> failM y e | Inr _ \<Rightarrow> retM () e)" for N :: "'b mstore \<Rightarrow> bool" and x y
    by (auto simp: safe_def failM_def retM_def split: sum.splits)
  have "safe (has_records B b k c h) (deleteOneVersion B ev b' k' w)"
    unfolding deleteOneVersion_def triggerWebhook_def mirrorAfterVersionDelete_def MirrorSync_def Let_def by (intro rules st path)
  moreover have "safe (has_records B b k c h) (createDeleteMarker B ev b' k' s)" for s
    unfolding createDeleteMarker_def triggerWebhook_def MirrorSync_def Let_def by (intro rules st put_other [OF v mi])
  moreover have "safe (has_records B b k c h) (deleteUnversioned B b' k')"
    unfolding deleteUnversioned_def triggerWebhook_def MirrorSync_def by (intro rules)
  ultimately show ?thesis unfolding deleteObjectLocked_def by (intro rules)
qed

lemma expireCurrent_other:
  assumes "IsValidBucketName b'" "nul \<notin> set k" "(b', k') \<noteq> (b, k)" "nul \<notin> set k'" "utf8_valid k'" "env_ok ev"
  shows "safe (has_records B b k c h) (expireCurrentVersion B ev b' k' w t)"
  unfolding expireCurrentVersion_def by (intro frame_rules safe_get deleteObject_other assms)

lemma expireNoncurrent_other:
  assumes "IsValidBucketName b'" "nul \<notin> set k" "(b', k') \<noteq> (b, k)" "nul \<notin> set k'" "utf8_valid k'" "env_ok ev"
  shows "safe (has_records B b k c h) (expireNoncurrentVersion B ev b' k' w now age)"
  unfolding expireNoncurrentVersion_def by (intro frame_rules safe_get deleteObject_other assms)

subsection \<open>Scans\<close>

lemma collect_in:
  assumes "collect room dec keep vs = Inr xs" "x \<in> set xs"
  shows "keep x \<and> (\<exists>v\<in>set vs. dec v = Inr x)"
  using assms
proof (induction vs arbitrary: room xs)
  case (Cons v vs)
  show ?case
  proof (cases "\<exists>ys n. collect n dec keep vs = Inr ys \<and> x \<in> set ys")
    case True
    with Cons.IH show ?thesis by (metis list.set_intros(2))
  next
    case False
    with Cons.prems have "xs = [x] \<or> (\<exists>ys. xs = x # ys)" "keep x" "dec v = Inr x"
      by (auto simp: bindE_Inr_iff split: if_splits)
    then show ?thesis by simp
  qed
qed simp

lemma objectEntries_in:
  assumes "v \<in> set (objectEntries B db b w)" "store_wf b (bk_get B (dbObjects db))" "unmarshal_obj v = Inr i"
  shows "\<exists>key. nul \<notin> set key \<and> (if w then \<exists>x. hist_db B db b key x = Some i else cur_db B db b key = Some i)"
proof -
  from assms(1) obtain k where k: "bk_get B (dbObjects db) k = Some v" "HasByte (drop (length (b @ [nul])) k) nul = w"
    unfolding objectEntries_def Let_def by (auto simp: prefix_iff)
  have "shape_ok b (bk_get B (dbObjects db))" using assms(2) by (simp add: store_wf_def)
  with k(1) obtain j key where j: "v = VObj j" "nul \<notin> set key" "k = objectMetaKey b key \<or> (\<exists>x. k = objectMetaKeyVersion b key x)"
    unfolding shape_ok_def by blast
  have i: "v = VObj i" using j(1) assms(3) by simp
  have "w \<longleftrightarrow> k \<noteq> objectMetaKey b key"
    using j(2,3) k(2) by (auto simp: objectMetaKey_def objectMetaKeyVersion_def HasByte_def)
  with i j(2,3) k(1) have "if w then \<exists>x. hist_db B db b key x = Some i else cur_db B db b key = Some i"
    by (auto simp: cur_of_Some hist_of_def as_obj_Some)
  with j(2) show ?thesis by blast
qed

lemma scanObjects_in:
  assumes "scanObjects B b w keep e = (Inr xs, e')" "meta_ok B (egMeta e)" "IsValidBucketName b" "x \<in> set xs"
  shows "keep x \<and> (\<exists>key. nul \<notin> set key \<and> rec_ok b key x \<and>
    (if w then hist_of (obj_at B (egMeta e) b) b key (oiVersionID x) = Some x else cur_of (obj_at B (egMeta e) b) b key = Some x))"
proof -
  from assms(1) obtain m' where
    v: "viewDB B (egMeta e) b (\<lambda>db. collect maxExpiryBatch unmarshal_obj keep (objectEntries B db b w)) = (Inr xs, m')"
    unfolding scanObjects_def metaM_def by (auto split: prod.splits)
  from view_obj(2) [OF v assms(2,3) refl] obtain db where
    db: "bk_get B (dbObjects db) = obj_at B (egMeta e) b" "db_wf B b db" "collect maxExpiryBatch unmarshal_obj keep (objectEntries B db b w) = Inr xs"
    by blast
  note wf = db_wf_store [OF db(2)]
  from collect_in [OF db(3) assms(4)] obtain v where k: "keep x" "v \<in> set (objectEntries B db b w)" "unmarshal_obj v = Inr x" by metis
  from objectEntries_in [OF k(2) wf k(3)] obtain key
    where n: "nul \<notin> set key" "if w then \<exists>u. hist_db B db b key u = Some x else cur_db B db b key = Some x" by metis
  note K = store_wf_key [OF wf n(1)]
  have "rec_ok b key x \<and> (w \<longrightarrow> hist_db B db b key (oiVersionID x) = Some x)"
    using n(2) key_wf_cur [OF K] key_wf_hist [OF K] by (metis (full_types))
  with k(1) n have "keep x \<and> (\<exists>key. nul \<notin> set key \<and> rec_ok b key x \<and>
    (if w then hist_db B db b key (oiVersionID x) = Some x else cur_db B db b key = Some x))" by auto
  then show ?thesis unfolding db(1) .
qed

lemma safe_scan: "IsValidBucketName b' \<Longrightarrow> safe (has_records B b k c h) (scanObjects B b' w keep)"
proof -
  assume v: "IsValidBucketName b'"
  have "reads B (\<lambda>m. viewDB B m b' f)" for f :: "'b bdb \<Rightarrow> ObjectInfo list result"
    unfolding reads_def using view_obj(1) [OF _ _ v] by blast
  then show ?thesis unfolding scanObjects_def by (rule safe_read)
qed

end

subsection \<open>What a rule spares\<close>

definition applies :: "LifecycleRule \<Rightarrow> string \<Rightarrow> bool" where
  "applies rule k \<longleftrightarrow> enabled rule \<and> is_ok (validateRule rule) \<and> HasPrefix k (EffectivePrefix rule)"

definition young :: "int \<Rightarrow> int \<Rightarrow> int \<Rightarrow> bool" where
  "young now days t \<longleftrightarrow> days \<le> 106751 \<and> now - t \<le> days * dayNanos"

definition spares :: "int \<Rightarrow> string \<Rightarrow> ObjectInfo option \<Rightarrow> history \<Rightarrow> LifecycleRule \<Rightarrow> bool" where
  "spares now k c h rule \<longleftrightarrow> (applies rule k \<longrightarrow>
    (\<forall>d i. lrExpiration rule = Some d \<and> d > 0 \<and> c = Some i \<longrightarrow> young now d (oiLastModified i)) \<and>
    (\<forall>d v i. lrNoncurrentVersionExpiration rule = Some d \<and> d > 0 \<and> h v = Some i \<and> \<not> oiIsLatest i \<longrightarrow>
       (if oiNoncurrentSince i \<noteq> 0 then young now d (oiNoncurrentSince i)
        else \<forall>j. (c = Some j \<or> j \<in> ran h) \<and> oiLastModified j > oiLastModified i \<longrightarrow> young now d (oiLastModified j))))"

lemma young_kept:
  assumes "young now d t" "0 < d"
  shows "timeSub now t \<le> daysCutoff d"
proof -
  have d: "d \<le> 106751" "now - t \<le> d * dayNanos" using assms(1) by (auto simp: young_def)
  have i: "int64 (d * 24) = d * 24" "int64 (d * 24 * 3600000000000) = d * 24 * 3600000000000"
    by (rule int64_id; use d assms(2) in simp)+
  then have c: "daysCutoff d = d * dayNanos" by (simp add: daysCutoff_def dayNanos_def)
  show ?thesis using d(2) assms(2) unfolding c by (simp add: timeSub_def dayNanos_def)
qed

lemma successorTime_in:
  "successorTime x since js = t \<Longrightarrow> t = since \<or> (\<exists>j\<in>set js. oiLastModified j > oiLastModified x \<and> t = oiLastModified j)"
  by (induction js arbitrary: since) (auto split: if_splits)

lemma safe_op_post:
  assumes "safe N f" "\<And>e a e'. N (egMeta e) \<Longrightarrow> f e = (Inr a, e') \<Longrightarrow> safe N (g a)"
  shows "safe N (opM f g)"
  unfolding safe_def
proof (intro allI impI)
  fix e assume n: "N (egMeta (e :: _ engine))"
  obtain r e1 where e1: "f e = (r, e1)" by (cases "f e")
  have n1: "N (egMeta e1)" using assms(1) n e1 unfolding safe_def by (metis snd_conv)
  show "N (egMeta (snd (opM f g e)))"
  proof (cases r)
    case (Inl x)
    with e1 n1 show ?thesis by (simp add: opM_def)
  next
    case (Inr a)
    have "safe N (g a)" using assms(2) n e1 Inr by blast
    with e1 n1 Inr show ?thesis by (simp add: opM_def safe_def)
  qed
qed

lemma safe_forM: "(\<And>x. x \<in> set xs \<Longrightarrow> safe N (f x)) \<Longrightarrow> safe N (forM xs f)"
proof (induction xs)
  case (Cons x xs)
  have "safe N (f x)" "safe N (forM xs f)" using Cons by auto
  then show ?case unfolding forM.simps by (rule safe_op)
qed (simp add: safe_basic)

lemma safe_get_post:
  assumes "safe N (metaM F)" "\<And>m a m'. N m \<Longrightarrow> F m = (a, m') \<Longrightarrow> safe N (g a)"
  shows "safe N (opM (tryM (metaM F)) g)"
  by (rule safe_op_post [OF safe_try [OF assms(1)]]) (use assms(2) in \<open>auto simp: tryM_def metaM_def split: prod.splits\<close>)

context bolt_laws
begin

text \<open>A noncurrent version without a time is scanned in any case; it is kept when
  what replaced it is recent.\<close>

lemma expireNoncurrent_same:
  assumes v: "IsValidBucketName b" "nul \<notin> set k" and x: "h w = Some x" "oiNoncurrentSince x = 0"
    and s: "\<And>j. c = Some j \<or> j \<in> ran h \<Longrightarrow> oiLastModified j > oiLastModified x \<Longrightarrow> timeSub now (oiLastModified j) \<le> age"
  shows "safe (has_records B b k c h) (expireNoncurrentVersion B ev b k w now age)"
  unfolding expireNoncurrentVersion_def
proof (rule safe_get_post [OF safe_get(1) [OF v(1)]])
  fix m r m' assume n: "has_records B b k c h m" and g: "GetObjectMeta B m b k w = (r, m')"
  have m: "meta_ok B m" and c: "cur_of (obj_at B m b) b k = c" and h: "hist_of (obj_at B m b) b k = h"
    using n by (auto simp: has_records_def)
  note K = meta_ok_key [OF m v(2), of b, unfolded c h]
  show "safe (has_records B b k c h) (case r of
      Inl x \<Rightarrow> if x = ErrObjectMetaNotFound then retM () else failM x
    | Inr candidate \<Rightarrow>
      if oiIsLatest candidate then retM ()
      else
        opM (if oiNoncurrentSince candidate = 0
             then opM (metaM (\<lambda>m. GetObjectVersions B m b k)) (\<lambda>versions. retM (successorTime candidate 0 versions))
             else retM (oiNoncurrentSince candidate)) (\<lambda>since.
        if since = 0 \<or> timeSub now since \<le> age then retM ()
        else opM (deleteObjectLocked B ev b k w) (\<lambda>_. retM ())))"
  proof (cases r)
    case (Inl y)
    then show ?thesis by (simp add: safe_basic)
  next
    case (Inr i)
    show ?thesis
    proof (cases "oiIsLatest i")
      case True
      with Inr show ?thesis by (simp add: safe_basic)
    next
      case False
      have w: "w \<noteq> []" using key_wf_hist [OF K x(1)] by blast
      have "i = x"
        using GetObjectMeta_obj(2) [OF g m v(1,2) Inr] w c h x(1) False key_wf_cur [OF K] by auto
      have "safe (has_records B b k c h) (if since = 0 \<or> timeSub now since \<le> age then retM ()
          else opM (deleteObjectLocked B ev b k w) (\<lambda>_. retM ()))"
        if "(opM (metaM (\<lambda>m. GetObjectVersions B m b k)) (\<lambda>versions. retM (successorTime x 0 versions))) e = (Inr since, e')"
          "has_records B b k c h (egMeta e)" for since e e'
      proof -
        from that(1) obtain js m2 where j: "GetObjectVersions B (egMeta e) b k = (Inr js, m2)" "since = successorTime x 0 js"
          by (auto simp: opM_def metaM_def retM_def split: prod.splits sum.splits)
        have "set js = set_option c \<union> ran h"
          using GetObjectVersions_obj(2) [OF j(1) _ v(1,2) refl] that(2) by (simp add: has_records_def)
        with successorTime_in [OF j(2) [symmetric]] s have "since = 0 \<or> timeSub now since \<le> age" by fastforce
        then show ?thesis by (simp add: safe_basic)
      qed
      with Inr False \<open>i = x\<close> x(2) show ?thesis
        by (simp, intro safe_op_post) (auto intro!: frame_rules safe_get v)
    qed
  qed
qed

lemma abortUploads_safe:
  assumes "\<forall>u\<in>set us. IsValidBucketName (fst u)"
  shows "safe (has_records B b k c h) (abortExpiredUploads B ctx evs failures us)"
  using assms
proof (induction us arbitrary: failures)
  case Nil
  have "abortExpiredUploads B ctx evs failures [] = joinErrors failures" by (simp add: fun_eq_iff)
  then show ?case by (simp add: joinErrors_def safe_basic)
next
  case (Cons u us)
  obtain b' k' i where u: "u = (b', k', i)" by (cases u)
  have v: "IsValidBucketName b'" using Cons.prems u by simp
  note reads = safe_read [OF multipart_reads(1) [OF v]] safe_read [OF multipart_reads(3) [OF v]]
  have path: "safe N (\<lambda>e. case multipartUploadPath (egDataDir e) b' i of Inl x \<Rightarrow> failM (y x) e | Inr p \<Rightarrow> retM p e)" for N :: "'b mstore \<Rightarrow> bool" and y
    by (auto simp: safe_def failM_def retM_def split: sum.splits)
  have dir: "safe N (\<lambda>e. liftM (checkObjectPath (egDataDir e) b' k') e)" for N :: "'b mstore \<Rightarrow> bool"
    by (simp add: safe_def liftM_def)
  have abort: "safe (has_records B b k c h) (AbortMultipartUpload B ev b' k' i)" for ev
    unfolding AbortMultipartUpload_def findUpload_def removeUploadDir_def by (intro frame_rules reads path dir)
  have j: "safe N (joinErrors fs)" for N :: "'b mstore \<Rightarrow> bool" and fs by (simp add: joinErrors_def safe_basic)
  have IH: "safe (has_records B b k c h) (abortExpiredUploads B ctx evs fs us)" for fs using Cons by simp
  have e: "abortExpiredUploads B ctx evs failures (u # us) = (\<lambda>e.
    opM (tryM (ctxM ctx)) (\<lambda>c.
    case c of
      Inl x \<Rightarrow> joinErrors (failures @ [x])
    | Inr _ \<Rightarrow>
      opM (tryM (AbortMultipartUpload B (evs e) b' k' i)) (\<lambda>r.
      case r of
        Inl x \<Rightarrow>
          if (case x of S3Error code _ \<Rightarrow> code = ''NoSuchUpload'' | _ \<Rightarrow> False) then abortExpiredUploads B ctx evs failures us
          else abortExpiredUploads B ctx evs (failures @ [x]) us
      | Inr _ \<Rightarrow> abortExpiredUploads B ctx evs failures us)) e)"
    by (simp add: u fun_eq_iff)
  show ?case unfolding e by (rule safe_at) (intro frame_rules abort j IH)
qed

lemma sweepCurrent_safe:
  assumes v: "IsValidBucketName b'" "nul \<notin> set k" and ev: "\<And>e. env_ok (evs e)"
    and s: "\<And>i. b' = b \<Longrightarrow> HasPrefix k pfx \<Longrightarrow> c = Some i \<Longrightarrow> timeSub now (oiLastModified i) \<le> daysCutoff d"
  shows "safe (has_records B b k c h) (sweepCurrent B ctx evs now b' pfx d)"
  unfolding sweepCurrent_def
proof (rule safe_op_post [OF safe_scan [OF v(1)]], rule safe_forM)
  fix e xs e' x
  assume n: "has_records B b k c h (egMeta e)" and sc: "scanObjects B b' False (currentExpired pfx now (daysCutoff d)) e = (Inr xs, e')"
    and x: "x \<in> set xs"
  have m: "meta_ok B (egMeta e)" using n by (simp add: has_records_def)
  from scanObjects_in [OF sc m v(1) x] obtain key where k: "currentExpired pfx now (daysCutoff d) x" "nul \<notin> set key" "rec_ok b' key x"
    "cur_of (obj_at B (egMeta e) b') b' key = Some x" by auto
  have ne: "(b', key) \<noteq> (b, k)"
  proof
    assume "(b', key) = (b, k)"
    with k n s [of x] show False by (auto simp: has_records_def currentExpired_def rec_ok_def)
  qed
  have "oiKey x = key" "utf8_valid key" using k(3) by (auto simp: rec_ok_def obj_utf8_def)
  with safe_at [OF expireCurrent_other [OF v ne k(2) _ ev]]
  show "safe (has_records B b k c h) (opM (ctxM ctx) (\<lambda>_. (\<lambda>e. expireCurrentVersion B (evs e) b' (oiKey x) (oiVersionID x) (oiLastModified x) e)))"
    by (intro safe_op safe_basic) simp
qed

lemma sweepNoncurrent_safe:
  assumes v: "IsValidBucketName b'" "nul \<notin> set k" and ev: "\<And>e. env_ok (evs e)"
    and s: "\<And>w i. b' = b \<Longrightarrow> HasPrefix k pfx \<Longrightarrow> h w = Some i \<Longrightarrow> \<not> oiIsLatest i \<Longrightarrow>
      (if oiNoncurrentSince i \<noteq> 0 then timeSub now (oiNoncurrentSince i) \<le> daysCutoff d
       else \<forall>j. (c = Some j \<or> j \<in> ran h) \<and> oiLastModified j > oiLastModified i \<longrightarrow> timeSub now (oiLastModified j) \<le> daysCutoff d)"
  shows "safe (has_records B b k c h) (sweepNoncurrent B ctx evs now b' pfx d)"
  unfolding sweepNoncurrent_def
proof (rule safe_op_post [OF safe_scan [OF v(1)]], rule safe_forM)
  fix e xs e' x
  assume n: "has_records B b k c h (egMeta e)" and sc: "scanObjects B b' True (noncurrentExpired pfx now (daysCutoff d)) e = (Inr xs, e')"
    and x: "x \<in> set xs"
  have m: "meta_ok B (egMeta e)" using n by (simp add: has_records_def)
  from scanObjects_in [OF sc m v(1) x] obtain key where k: "noncurrentExpired pfx now (daysCutoff d) x" "nul \<notin> set key" "rec_ok b' key x"
    "hist_of (obj_at B (egMeta e) b') b' key (oiVersionID x) = Some x" by auto
  have key: "oiKey x = key" "utf8_valid key" using k(3) by (auto simp: rec_ok_def obj_utf8_def)
  have one: "safe (has_records B b k c h) (expireNoncurrentVersion B ev b' key (oiVersionID x) now (daysCutoff d))" if "env_ok ev" for ev
  proof (cases "(b', key) = (b, k)")
    case False
    then show ?thesis by (rule expireNoncurrent_other [OF v _ k(2) key(2) that])
  next
    case True
    have hx: "h (oiVersionID x) = Some x" using n k(4) True by (simp add: has_records_def)
    have "b' = b" "HasPrefix k pfx" "\<not> oiIsLatest x" using True k(1) key(1) by (auto simp: noncurrentExpired_def)
    note S = s [OF this(1,2) hx this(3)]
    have z: "oiNoncurrentSince x = 0" using S k(1) by (auto simp: noncurrentExpired_def split: if_splits)
    have "safe (has_records B b k c h) (expireNoncurrentVersion B ev b k (oiVersionID x) now (daysCutoff d))"
    proof (rule expireNoncurrent_same)
      show "IsValidBucketName b" using v(1) True by simp
      show "nul \<notin> set k" by (rule v(2))
      show "h (oiVersionID x) = Some x" by (rule hx)
      show "oiNoncurrentSince x = 0" by (rule z)
      show "timeSub now (oiLastModified j) \<le> daysCutoff d" if "c = Some j \<or> j \<in> ran h" "oiLastModified x < oiLastModified j" for j
        using S z that by simp
    qed
    with True show ?thesis by simp
  qed
  have "safe (has_records B b k c h) (\<lambda>e. expireNoncurrentVersion B (evs e) b' key (oiVersionID x) now (daysCutoff d) e)"
    by (rule safe_at, rule one, rule ev)
  with key(1) show "safe (has_records B b k c h) (opM (ctxM ctx) (\<lambda>_. (\<lambda>e. expireNoncurrentVersion B (evs e) b' (oiKey x) (oiVersionID x) now (daysCutoff d) e)))"
    by (intro safe_op safe_basic) simp
qed

lemma sweepUploads_safe:
  assumes v: "IsValidBucketName b'"
  shows "safe (has_records B b k c h) (sweepUploads B ctx evs now b' pfx d)"
  unfolding sweepUploads_def
proof (rule safe_op_post)
  have r: "reads B (\<lambda>m. viewDB B m b' f)" for f :: "'b bdb \<Rightarrow> MultipartMeta list result"
    unfolding reads_def using view_obj(1) [OF _ _ v] by blast
  show "safe (has_records B b k c h) (expiredMultipartUploads B ctx b' pfx now (daysCutoff d) maxExpiryBatch)"
    unfolding expiredMultipartUploads_def by (intro safe_op safe_at [OF safe_read [OF r]] safe_basic)
next
  fix e us e' assume "expiredMultipartUploads B ctx b' pfx now (daysCutoff d) maxExpiryBatch e = (Inr us, e')"
  then have "\<forall>u\<in>set us. fst u = b'"
    by (auto simp: expiredMultipartUploads_def opM_def retM_def split: prod.splits sum.splits)
  with v show "safe (has_records B b k c h) (abortExpiredUploads B ctx evs [] us)" by (intro abortUploads_safe) auto
qed

lemma safe_whenDays: "(\<And>n. d = Some n \<Longrightarrow> n > 0 \<Longrightarrow> safe N (f n)) \<Longrightarrow> safe N (whenDays d f)"
  by (auto simp: whenDays_def safe_basic split: option.split)

lemma sweepRule_safe:
  assumes v: "IsValidBucketName b'" "nul \<notin> set k" and ev: "\<And>e. env_ok (evs e)" and s: "b' = b \<Longrightarrow> spares now k c h rule"
  shows "safe (has_records B b k c h) (sweepRule B ctx evs now b' rule)"
proof (cases "enabled rule \<and> is_ok (validateRule rule)")
  case False
  then have "sweepRule B ctx evs now b' rule = opM (ctxM ctx) (\<lambda>_. retM ())" by (auto simp: sweepRule_def)
  then show ?thesis by (simp add: safe_op safe_basic)
next
  case True
  have S: "spares now k c h rule" "applies rule k" if "b' = b" "HasPrefix k (EffectivePrefix rule)"
    using True s that by (auto simp: applies_def)
  have "safe (has_records B b k c h) (whenDays (lrExpiration rule) (sweepCurrent B ctx evs now b' (EffectivePrefix rule)))"
    by (intro safe_whenDays sweepCurrent_safe [OF v ev] young_kept) (use S in \<open>auto simp: spares_def\<close>)
  moreover have "safe (has_records B b k c h) (whenDays (lrNoncurrentVersionExpiration rule) (sweepNoncurrent B ctx evs now b' (EffectivePrefix rule)))"
  proof (intro safe_whenDays sweepNoncurrent_safe [OF v ev])
    fix n w i assume d: "lrNoncurrentVersionExpiration rule = Some n" "n > 0" and b: "b' = b" "HasPrefix k (EffectivePrefix rule)"
      and i: "h w = Some i" "\<not> oiIsLatest i"
    have "if oiNoncurrentSince i \<noteq> 0 then young now n (oiNoncurrentSince i)
        else \<forall>j. (c = Some j \<or> j \<in> ran h) \<and> oiLastModified j > oiLastModified i \<longrightarrow> young now n (oiLastModified j)"
      using S [OF b] d i unfolding spares_def by blast
    then show "if oiNoncurrentSince i \<noteq> 0 then timeSub now (oiNoncurrentSince i) \<le> daysCutoff n
       else \<forall>j. (c = Some j \<or> j \<in> ran h) \<and> oiLastModified j > oiLastModified i \<longrightarrow> timeSub now (oiLastModified j) \<le> daysCutoff n"
      using young_kept [OF _ d(2)] by (auto split: if_splits)
  qed
  moreover have "safe (has_records B b k c h) (whenDays (lrAbortIncompleteMultipartUpload rule) (sweepUploads B ctx evs now b' (EffectivePrefix rule)))"
    by (intro safe_whenDays sweepUploads_safe v(1))
  ultimately show ?thesis unfolding sweepRule_def using True by (auto simp: Let_def intro!: safe_op safe_basic)
qed

lemma sweep_safe:
  assumes n: "nul \<notin> set k" and ev: "\<And>e. env_ok (evs e)"
    and l: "\<And>infos. ListBucketsMeta B m = Inr infos \<Longrightarrow> \<forall>i\<in>set infos. IsValidBucketName (biName i) \<and>
      (biName i = b \<longrightarrow> (\<forall>rules. biLifecycle i = Some rules \<longrightarrow> list_all (spares now k c h) rules))"
    and r: "has_records B b k c h m" "egMeta e = m"
  shows "has_records B b k c h (egMeta (snd (CleanExpiredObjects B ctx evs now e)))"
proof -
  let ?f = "\<lambda>bi. opM (ctxM ctx) (\<lambda>_. case biLifecycle bi of None \<Rightarrow> retM () | Some rules \<Rightarrow> forM rules (sweepRule B ctx evs now (biName bi)))"
  have "safe (has_records B b k c h) (forM infos ?f)" if "ListBucketsMeta B m = Inr infos" for infos
  proof (rule safe_forM)
    fix i assume i: "i \<in> set infos"
    have "safe (has_records B b k c h) (forM rules (sweepRule B ctx evs now (biName i)))" if rs: "biLifecycle i = Some rules" for rules
      by (rule safe_forM, rule sweepRule_safe [OF _ n ev]) (use l [OF \<open>ListBucketsMeta B m = Inr infos\<close>] i rs in \<open>auto simp: list_all_iff\<close>)
    then show "safe (has_records B b k c h) (?f i)" by (intro safe_op safe_basic) (auto simp: safe_basic split: option.split)
  qed
  with r show ?thesis
    unfolding CleanExpiredObjects_def ListBuckets_def
    by (cases "ListBucketsMeta B m") (simp_all add: opM_def metaM_def safe_def)
qed

end

text \<open>C13: a lifecycle sweep spares what no rule covers. Take a key of a bucket for which no
  enabled rule whose prefix matches finds a record expired: the current record is at most
  Days old, and each noncurrent version was replaced at most NoncurrentDays ago (for one
  without that time, every later version is that young). Then after CleanExpiredObjects,
  whatever it did to other keys and uploads, at whatever point it was cancelled or failed,
  the key has the same current record and the same versions.\<close>

theorem sweep_spares:
  assumes "bolt_laws B" and "meta_ok B (egMeta e)" and "nul \<notin> set k" and "\<forall>x. env_ok (evs x)"
    and "\<forall>infos. ListBucketsMeta B (egMeta e) = Inr infos \<longrightarrow> (\<forall>i\<in>set infos. IsValidBucketName (biName i) \<and>
      (biName i = b \<longrightarrow> (\<forall>rules. biLifecycle i = Some rules \<longrightarrow>
         list_all (spares now k (cur_of (obj_at B (egMeta e) b) b k) (hist_of (obj_at B (egMeta e) b) b k)) rules)))"
    and "CleanExpiredObjects B ctx evs now e = (r, e')"
  shows "meta_ok B (egMeta e') \<and> cur_of (obj_at B (egMeta e') b) b k = cur_of (obj_at B (egMeta e) b) b k \<and>
    hist_of (obj_at B (egMeta e') b) b k = hist_of (obj_at B (egMeta e) b) b k"
proof -
  let ?c = "cur_of (obj_at B (egMeta e) b) b k" and ?h = "hist_of (obj_at B (egMeta e) b) b k"
  have "has_records B b k ?c ?h (egMeta (snd (CleanExpiredObjects B ctx evs now e)))"
    by (rule bolt_laws.sweep_safe [OF assms(1,3) _ _ _ refl]) (use assms(2,4,5) in \<open>auto simp: has_records_def\<close>)
  with assms(6) show ?thesis by (simp add: has_records_def)
qed

subsection \<open>Witnesses\<close>

definition ex_rule :: "string \<Rightarrow> int \<Rightarrow> LifecycleRule" where
  "ex_rule p d = \<lparr>lrID = ''r'', lrStatus = ''Enabled'', lrPrefix = p,
     lrFilter = \<lparr>lfPrefix = [], lfTag = None, lfAnd = None, lfObjectSizeGreaterThan = None,
       lfObjectSizeLessThan = None\<rparr>,
     lrExpiration = Some d, lrNoncurrentVersionExpiration = Some d, lrAbortIncompleteMultipartUpload = None\<rparr>"

definition ex_lc :: "string \<Rightarrow> int \<Rightarrow> alist_bucket engine" where
  "ex_lc p d = (ex_eng [])\<lparr>egMeta := (ex_store [])\<lparr>msRegistry := (0, [(''bkt'', VBkt ((ex_bucket [])\<lparr>biLifecycle := Some [ex_rule p d]\<rparr>))])\<rparr>\<rparr>"

definition ex_swept :: "string \<Rightarrow> int \<Rightarrow> alist_bucket engine" where
  "ex_swept p d = snd (PutObject alist_bolt ex_codec ex_env None ''bkt'' ''k'' (ex_rd ''abc'') 3 ''text/plain'' (ex_lc p d))"

lemma ex_swept_ok: "meta_ok alist_bolt (egMeta (ex_swept p d))"
proof -
  have o: "obj_at alist_bolt (egMeta (ex_lc p d)) = (\<lambda>_. Map.empty)" by (simp add: obj_at_def ex_lc_def ex_store_def fun_eq_iff)
  have "ids alist_bolt (egMeta (ex_lc p d)) = {}" unfolding ids_def o by (simp add: map_ids_def key_ids_def cur_of_def hist_of_def)
  then have i: "inv alist_bolt ''/d'' (ex_lc p d)" by (simp add: inv_def ex_eng_def ex_lc_def disk_ok_def) (simp add: meta_ok_def ex_store_def)
  have r: "is_rooted ''/d''" by code_simp
  have "inv alist_bolt ''/d'' (ex_swept p d)"
    unfolding ex_swept_def
    by (rule tripD_post [OF al.put_object_trip [OF ex_env_ok ex_req_ok(1) r]])
      (use i in \<open>auto simp: clear_def ex_lc_def ex_eng_def\<close>)
  then show ?thesis using inv_disk by blast
qed

theorem sweep_spares_witness:
  "cur_of (obj_at alist_bolt (egMeta (ex_swept [] 1)) ''bkt'') ''bkt'' ''k'' \<noteq> None \<and>
   cur_of (obj_at alist_bolt (egMeta (snd (CleanExpiredObjects alist_bolt (\<lambda>_. False) (\<lambda>_. ex_env) (9 + dayNanos) (ex_swept [] 1)))) ''bkt'') ''bkt'' ''k'' =
     cur_of (obj_at alist_bolt (egMeta (ex_swept [] 1)) ''bkt'') ''bkt'' ''k''"
proof -
  let ?e = "ex_swept [] 1"
  let ?c = "cur_of (obj_at alist_bolt (egMeta ?e) ''bkt'') ''bkt'' ''k''" and ?h = "hist_of (obj_at alist_bolt (egMeta ?e) ''bkt'') ''bkt'' ''k''"
  have n: "nul \<notin> set ''k''" by code_simp
  have "map_option (\<lambda>i. (oiLastModified i, oiVersionID i)) ?c = Some (9, [])" by code_simp
  then obtain i where i: "?c = Some i" "oiLastModified i = 9" "oiVersionID i = []" by auto
  have h: "?h = Map.empty" using key_wf_cur [OF meta_ok_key [OF ex_swept_ok n] i(1)] i(3) by simp
  have l: "ListBucketsMeta alist_bolt (egMeta ?e) = Inr [(ex_bucket [])\<lparr>biLifecycle := Some [ex_rule [] 1]\<rparr>]" by code_simp
  have s: "spares (9 + dayNanos) ''k'' ?c ?h (ex_rule [] 1)"
    unfolding h i(1) by (simp add: spares_def young_def i(2) ex_rule_def)
  have v: "IsValidBucketName ''bkt''" by code_simp
  obtain r e' where c: "CleanExpiredObjects alist_bolt (\<lambda>_. False) (\<lambda>_. ex_env) (9 + dayNanos) ?e = (r, e')" by fastforce
  have "\<forall>infos. ListBucketsMeta alist_bolt (egMeta ?e) = Inr infos \<longrightarrow> (\<forall>i\<in>set infos. IsValidBucketName (biName i) \<and>
      (biName i = ''bkt'' \<longrightarrow> (\<forall>rules. biLifecycle i = Some rules \<longrightarrow> list_all (spares (9 + dayNanos) ''k'' ?c ?h) rules)))"
    unfolding l using s v by (simp add: ex_bucket_def)
  from sweep_spares [OF alist_laws ex_swept_ok n _ this c] ex_env_ok c i show ?thesis by simp
qed

subsection \<open>Rules that reach too far\<close>

lemma collect_keep_cong:
  assumes "\<forall>v\<in>set vs. \<forall>i. dec v = Inr i \<longrightarrow> keep i = keep' i"
  shows "collect room dec keep vs = collect room dec keep' vs"
  using assms by (induction vs arbitrary: room) (auto simp: bindE_def split: sum.splits)

context bolt_laws
begin

text \<open>Two scans that agree on the records of a bucket find the same.\<close>

lemma scanObjects_cong:
  assumes m: "meta_ok B (egMeta e)" and v: "IsValidBucketName b"
    and k: "\<And>key i. cur_of (obj_at B (egMeta e) b) b key = Some i \<Longrightarrow> keep i = keep' i"
  shows "scanObjects B b False keep e = scanObjects B b False keep' e"
proof (cases "acquireBucketDB B (egMeta e) b")
  case (Inr x)
  obtain db m' where x: "x = (db, m')" by (cases x)
  from Inr x have "viewDB B (egMeta e) b (\<lambda>db. Inr db) = (Inr db, m')" by (simp add: viewDB_def)
  from view_obj(2) [OF this m v refl] have db: "bk_get B (dbObjects db) = obj_at B (egMeta e) b" "db_wf B b db" by auto
  have "keep i = keep' i" if "v' \<in> set (objectEntries B db b False)" "unmarshal_obj v' = Inr i" for v' i
    using objectEntries_in [OF that(1) db_wf_store [OF db(2)] that(2)] k db(1) by auto
  then have "collect maxExpiryBatch unmarshal_obj keep (objectEntries B db b False) =
      collect maxExpiryBatch unmarshal_obj keep' (objectEntries B db b False)" by (intro collect_keep_cong) blast
  with Inr x show ?thesis by (simp add: scanObjects_def metaM_def viewDB_def)
qed (simp add: scanObjects_def metaM_def viewDB_def)

end

text \<open>The cutoff of a rule whose days overflow is negative.\<close>

lemma daysCutoff_negative: "106752 \<le> d \<Longrightarrow> d \<le> 213503 \<Longrightarrow> daysCutoff d < 0"
proof -
  assume d: "106752 \<le> d" "d \<le> 213503"
  have i: "int64 (d * 24) = d * 24" by (rule int64_id; use d in simp)
  have "(word_of_int (d * 24 * 3600000000000) :: 64 word) = word_of_int (d * 24 * 3600000000000 - 2 ^ 64)"
    unfolding word_of_int_eq_iff take_bit_eq_mod by simp
  then have "int64 (d * 24 * 3600000000000) = int64 (d * 24 * 3600000000000 - 2 ^ 64)" by (simp only: int64_def)
  also have "\<dots> = d * 24 * 3600000000000 - 2 ^ 64" by (rule int64_id; use d in simp)
  finally show "daysCutoff d < 0" unfolding daysCutoff_def i using d(2) by simp
qed

text \<open>The deletion of a batch of objects under a prefix, of whatever age.\<close>

definition deleteAllUnder :: "'b bolt \<Rightarrow> ('b engine \<Rightarrow> bool) \<Rightarrow> ('b engine \<Rightarrow> env) \<Rightarrow> string \<Rightarrow> string \<Rightarrow> (unit, 'b) eop" where
  "deleteAllUnder B ctx evs bucket pfx =
    opM (scanObjects B bucket False (\<lambda>i. HasPrefix (oiKey i) pfx)) (\<lambda>xs.
    forM xs (\<lambda>x. opM (ctxM ctx) (\<lambda>_.
      (\<lambda>e. expireCurrentVersion B (evs e) bucket (oiKey x) (oiVersionID x) (oiLastModified x) e))))"

text \<open>C40: the sweep computes a rule's age in int64 nanoseconds, and the check of a
  configuration has no upper bound on its days. A rule for 106752 to 213503 days (292 years
  and more) is accepted, its age wraps to a negative one, and its sweep is the
  deletion of every object under its prefix, one written this moment included.\<close>

theorem lifecycle_days_overflow:
  assumes "bolt_laws B" and "meta_ok B (egMeta e)" and "IsValidBucketName b" and "106752 \<le> d" and "d \<le> 213503"
    and "\<forall>key i. cur_of (obj_at B (egMeta e) b) b key = Some i \<longrightarrow> oiLastModified i \<le> now"
  shows "Validate (Some [ex_rule p d]) = Inr () \<and> enabled (ex_rule p d) \<and> EffectivePrefix (ex_rule p d) = p \<and>
    sweepCurrent B ctx evs now b p d e = deleteAllUnder B ctx evs b p e"
proof -
  have s: "EqualFold ''Enabled'' ''Enabled''" by code_simp
  have "scanObjects B b False (currentExpired p now (daysCutoff d)) e = scanObjects B b False (\<lambda>i. HasPrefix (oiKey i) p) e"
  proof (rule bolt_laws.scanObjects_cong [OF assms(1-3)])
    fix key i assume "cur_of (obj_at B (egMeta e) b) b key = Some i"
    with assms(6) have "oiLastModified i \<le> now" by blast
    then have "timeSub now (oiLastModified i) \<ge> 0" by (simp add: timeSub_def)
    then show "currentExpired p now (daysCutoff d) i = HasPrefix (oiKey i) p"
      using daysCutoff_negative [OF assms(4,5)] by (simp add: currentExpired_def)
  qed
  then have "sweepCurrent B ctx evs now b p d e = deleteAllUnder B ctx evs b p e"
    by (simp add: sweepCurrent_def deleteAllUnder_def opM_def)
  moreover have "Validate (Some [ex_rule p d]) = Inr ()" using s assms(4)
    by (simp add: Validate_def maxLifecycleRules_def validateRule_def ex_rule_def badDays_def)
  ultimately show ?thesis using s by (simp add: EffectivePrefix_def ex_rule_def enabled_def)
qed

text \<open>An object written at time 9 is swept at time 9 by a rule for 300 years.\<close>

theorem lifecycle_days_overflow_witness:
  "cur_of (obj_at alist_bolt (egMeta (ex_swept ''k'' 109500)) ''bkt'') ''bkt'' ''k'' \<noteq> None \<and>
   cur_of (obj_at alist_bolt (egMeta (snd (sweepCurrent alist_bolt (\<lambda>_. False) (\<lambda>_. ex_env) 9 ''bkt'' ''k'' 109500 (ex_swept ''k'' 109500)))) ''bkt'') ''bkt'' ''k'' = None"
proof
  let ?e = "ex_swept ''k'' 109500"
  have v: "IsValidBucketName ''bkt''" by code_simp
  show "cur_of (obj_at alist_bolt (egMeta ?e) ''bkt'') ''bkt'' ''k'' \<noteq> None" by code_simp
  have d: "cur_of (obj_at alist_bolt (egMeta (snd (deleteAllUnder alist_bolt (\<lambda>_. False) (\<lambda>_. ex_env) ''bkt'' ''k'' ?e))) ''bkt'') ''bkt'' ''k'' = None" by code_simp
  have l: "list_all (\<lambda>x. case x of (_, VObj i) \<Rightarrow> oiLastModified i \<le> 9 | _ \<Rightarrow> True)
      (case msDbs (egMeta ?e) ''bkt'' of Some db \<Rightarrow> snd (dbObjects db) | None \<Rightarrow> [])" by code_simp
  have "\<forall>key i. cur_of (obj_at alist_bolt (egMeta ?e) ''bkt'') ''bkt'' key = Some i \<longrightarrow> oiLastModified i \<le> 9"
    using l by (fastforce simp: obj_at_def cur_of_Some list_all_iff alist_bolt_def dest!: map_of_SomeD split: option.splits)
  from lifecycle_days_overflow [OF alist_laws ex_swept_ok v _ _ this, of 109500 "''k''" "\<lambda>_. False" "\<lambda>_. ex_env"] d
  show "cur_of (obj_at alist_bolt (egMeta (snd (sweepCurrent alist_bolt (\<lambda>_. False) (\<lambda>_. ex_env) 9 ''bkt'' ''k'' 109500 ?e))) ''bkt'') ''bkt'' ''k'' = None" by simp
qed

end
