(* ===== verification/Outbox.thy ===== *)
theory Outbox
  imports Meta_Ids
begin

text \<open>
  internal/storage/outbox.go: durable replication of one bucket. Every metadata transaction
  on an object marks its key in a journal with a fresh revision (markReplication); a
  reconciler pages through the journal, four workers deliver each entry to the replica and
  clear it if its revision has not changed since. Transactions, the capture of what is to
  be sent (made under the key's lock), the sending and the clearing are the steps of a
  relation, so that every interleaving of writers, workers and restarts is a run of it.
\<close>

subsection \<open>The journal\<close>

definition pending :: "'b bolt \<Rightarrow> 'b bdb \<Rightarrow> dbmap" where
  "pending B tx = (case dbReplication tx of None \<Rightarrow> Map.empty | Some b \<Rightarrow> bk_get B b)"

text \<open>reconcilePending's read of the next page: at most 100 entries after the key a.\<close>

definition readPage :: "'b bolt \<Rightarrow> 'b bdb \<Rightarrow> string option \<Rightarrow> (string \<times> dbvalue) list" where
  "readPage B tx after =
    (case dbReplication tx of
       None \<Rightarrow> []
     | Some b \<Rightarrow> take 100 (case after of
         None \<Rightarrow> bk_entries B b
       | Some a \<Rightarrow> (case cur_seek B b a of
           [] \<Rightarrow> []
         | (k, v) # es \<Rightarrow> if k = a then es else (k, v) # es)))"

definition nextAfter :: "(string \<times> dbvalue) list \<Rightarrow> string option" where
  "nextAfter page = (if page = [] then None else Some (fst (last page)))"

text \<open>seedReplication for one bucket: every entry of the latest version is marked.\<close>

fun seedEntries :: "'b bolt \<Rightarrow> dbvalue list \<Rightarrow> 'b bdb \<Rightarrow> 'b bdb result" where
  "seedEntries B [] tx = Inr tx"
| "seedEntries B (v # vs) tx =
    bindE (unmarshal_obj v) (\<lambda>info.
    bindE (if oiIsLatest info then markReplication B True tx (oiKey info) else Inr tx) (\<lambda>tx.
    seedEntries B vs tx))"

definition seedReplicationTx :: "'b bolt \<Rightarrow> 'b bdb \<Rightarrow> 'b bdb result" where
  "seedReplicationTx B tx = seedEntries B (map snd (bk_entries B (dbObjects tx))) tx"

subsection \<open>Delivering an entry\<close>

definition ErrSkipSSEC :: gerr where
  "ErrSkipSSEC = ErrText ''object is SSE-C encrypted; the customer key is not retained, so it cannot be replicated''"

text \<open>What deliverPending finds under the lock: nothing to keep (a DELETE is sent) or the
  record whose data is sent. An object under a customer key cannot be read.\<close>

definition captureTx :: "'b bolt \<Rightarrow> string \<Rightarrow> string \<Rightarrow> 'b bdb \<Rightarrow> ObjectInfo option result" where
  "captureTx B bucket key tx =
    (case bk_get B (dbObjects tx) (objectMetaKey bucket key) of
       None \<Rightarrow> Inr None
     | Some data \<Rightarrow>
       bindE (unmarshal_obj data) (\<lambda>info.
       if oiIsDeleteMarker info then Inr None
       else if oiSSECustomerAlgorithm info \<noteq> [] then Inl ErrSkipSSEC
       else Inr (Some info)))"

text \<open>The last transaction of deliverPending.\<close>

definition acknowledgeTx :: "'b bolt \<Rightarrow> string \<Rightarrow> dbvalue \<Rightarrow> 'b bdb \<Rightarrow> 'b bdb result" where
  "acknowledgeTx B key revision tx =
    (case dbReplication tx of
       None \<Rightarrow> Inl (ErrText ''replication journal missing'')
     | Some b \<Rightarrow>
       if bk_get B b key = Some revision then bindE (bk_delete B b key) (\<lambda>b. Inr (tx\<lparr>dbReplication := Some b\<rparr>))
       else Inr tx)"

subsection \<open>Runs\<close>

text \<open>What the replica holds of an object: its size, hash and content type.\<close>

type_synonym payload = "int \<times> string \<times> string"

definition payload :: "ObjectInfo \<Rightarrow> payload" where
  "payload i = (oiSize i, oiETag i, oiContentType i)"

record job =
  jbKey :: string
  jbRevision :: dbvalue
  jbData :: "payload option"
  jbSent :: bool

record 'b replication =
  rpTx :: "'b bdb"
  rpRemote :: "string \<Rightarrow> payload option"
  rpAfter :: "string option"
  rpPage :: "(string \<times> dbvalue) list"
  rpJobs :: "job list"

text \<open>The record a key's readers see.\<close>

definition live_rec :: "'b bolt \<Rightarrow> string \<Rightarrow> 'b bdb \<Rightarrow> string \<Rightarrow> ObjectInfo option" where
  "live_rec B b tx k = (case cur_db B tx b k of Some i \<Rightarrow> if oiIsDeleteMarker i then None else Some i | None \<Rightarrow> None)"

inductive rep_step :: "'b bolt \<Rightarrow> string \<Rightarrow> 'b replication \<Rightarrow> 'b replication \<Rightarrow> bool" for B b where
  Write: "rep_step B b s (s\<lparr>rpTx := tx\<rparr>)"
    if "putObjectMetaTx B True info (rpTx s) = Inr tx" "rec_ok b k info" "nul \<notin> set k"
| Delete: "rep_step B b s (s\<lparr>rpTx := tx\<rparr>)"
    if "deleteObjectMetaTx B True b k v (rpTx s) = Inr tx" "nul \<notin> set k"
| Promote: "rep_step B b s (s\<lparr>rpTx := tx\<rparr>)"
    if "cur_db B (rpTx s) b k = Some i" "oiVersionID i = []" "nul \<notin> set k" "utf8_valid x"
      "putObjectMetaRawTx B (i\<lparr>oiVersionID := ''null'', oiIsLatest := True, oiBlobID := x\<rparr>) (rpTx s) = Inr tx"
| Seed: "rep_step B b s (s\<lparr>rpTx := tx\<rparr>)"
    if "seedReplicationTx B (rpTx s) = Inr tx"
| Page: "rep_step B b s (s\<lparr>rpAfter := nextAfter page, rpPage := page\<rparr>)"
    if "rpPage s = []" "rpJobs s = []" "page = readPage B (rpTx s) (rpAfter s)"
| Capture: "rep_step B b s (s\<lparr>rpPage := p1 @ p2, rpJobs := \<lparr>jbKey = k, jbRevision = rv, jbData = map_option payload r, jbSent = False\<rparr> # rpJobs s\<rparr>)"
    if "rpPage s = p1 @ (k, rv) # p2" "captureTx B b k (rpTx s) = Inr r"
| CaptureFails: "rep_step B b s (s\<lparr>rpPage := p1 @ p2\<rparr>)"
    if "rpPage s = p1 @ (k, rv) # p2"
| Send: "rep_step B b s (s\<lparr>rpRemote := (rpRemote s)(jbKey j := jbData j), rpJobs := j1 @ j\<lparr>jbSent := True\<rparr> # j2\<rparr>)"
    if "rpJobs s = j1 @ j # j2" "\<not> jbSent j"
| ResponseLost: "rep_step B b s (s\<lparr>rpRemote := (rpRemote s)(jbKey j := jbData j), rpJobs := j1 @ j2\<rparr>)"
    if "rpJobs s = j1 @ j # j2" "\<not> jbSent j"
| JobFails: "rep_step B b s (s\<lparr>rpJobs := j1 @ j2\<rparr>)"
    if "rpJobs s = j1 @ j # j2"
| Acknowledge: "rep_step B b s (s\<lparr>rpTx := tx, rpJobs := j1 @ j2\<rparr>)"
    if "rpJobs s = j1 @ j # j2" "jbSent j" "acknowledgeTx B (jbKey j) (jbRevision j) (rpTx s) = Inr tx"
| Restart: "rep_step B b s (s\<lparr>rpAfter := None, rpPage := [], rpJobs := []\<rparr>)"

subsection \<open>The invariant\<close>

text \<open>A key that is not in the journal has on the replica what it has here.\<close>

definition caught_up :: "'b bolt \<Rightarrow> string \<Rightarrow> 'b bdb \<Rightarrow> (string \<Rightarrow> payload option) \<Rightarrow> bool" where
  "caught_up B b tx remote \<longleftrightarrow>
    (\<forall>k. nul \<notin> set k \<longrightarrow> pending B tx k = None \<longrightarrow> remote k = map_option payload (live_rec B b tx k))"

definition seq_of :: "'b bolt \<Rightarrow> 'b bdb \<Rightarrow> int" where
  "seq_of B tx = bk_seq B (CreateBucketIfNotExists B (dbReplication tx))"

text \<open>Revisions are numbers drawn so far.\<close>

definition drawn :: "'b bolt \<Rightarrow> 'b bdb \<Rightarrow> dbvalue \<Rightarrow> bool" where
  "drawn B tx v \<longleftrightarrow> (\<exists>n. v = VBytes (PutUint64 n) \<and> 0 < n \<and> n \<le> seq_of B tx \<and> n < 2 ^ 64)"

definition job_ok :: "'b bolt \<Rightarrow> string \<Rightarrow> 'b bdb \<Rightarrow> (string \<Rightarrow> payload option) \<Rightarrow> job \<Rightarrow> bool" where
  "job_ok B b tx remote j \<longleftrightarrow> drawn B tx (jbRevision j) \<and> pending B tx (jbKey j) \<noteq> None \<and>
    (pending B tx (jbKey j) = Some (jbRevision j) \<longrightarrow> nul \<notin> set (jbKey j) \<longrightarrow>
       jbData j = map_option payload (live_rec B b tx (jbKey j))) \<and>
    (jbSent j \<longrightarrow> remote (jbKey j) = jbData j)"

definition rep_inv :: "'b bolt \<Rightarrow> string \<Rightarrow> 'b replication \<Rightarrow> bool" where
  "rep_inv B b s \<longleftrightarrow> db_wf B b (rpTx s) \<and> caught_up B b (rpTx s) (rpRemote s) \<and>
    (\<forall>k v. pending B (rpTx s) k = Some v \<longrightarrow> drawn B (rpTx s) v) \<and>
    (\<forall>(k, v)\<in>set (rpPage s). drawn B (rpTx s) v \<and> pending B (rpTx s) k \<noteq> None) \<and>
    (\<forall>j\<in>set (rpJobs s). job_ok B b (rpTx s) (rpRemote s) j) \<and>
    distinct (map jbKey (rpJobs s) @ map fst (rpPage s))"

subsection \<open>Transactions on the journal\<close>

text \<open>A transaction that marks a key, if it changes any object, that one.\<close>

definition marked :: "'b bolt \<Rightarrow> 'b bdb \<Rightarrow> 'b bdb \<Rightarrow> string \<Rightarrow> bool" where
  "marked B tx tx' k \<longleftrightarrow> (\<exists>n. n = seq_of B tx + 1 \<and> seq_of B tx' = n \<and> 0 < n \<and> n < 2 ^ 64 \<and>
     pending B tx' = (pending B tx)(k \<mapsto> VBytes (PutUint64 n)))"

context bolt_laws
begin

lemma mark_marked:
  assumes "markReplication B True tx k = Inr tx'"
  shows "marked B tx tx' k"
proof -
  from assms obtain n b b' where q: "bk_next_seq B (CreateBucketIfNotExists B (dbReplication tx)) = Inr (n, b)"
    and p: "bk_put B b k (VBytes (PutUint64 n)) = Inr b'" and t: "tx' = tx\<lparr>dbReplication := Some b'\<rparr>"
    by (auto simp: markReplication_def bindE_Inr_iff split: prod.splits)
  have e: "bk_get B (CreateBucketIfNotExists B (dbReplication tx)) = pending B tx"
    using get_empty by (auto simp: pending_def CreateBucketIfNotExists_def split: option.split)
  note N = next_seq [OF q]
  have "seq_of B tx' = n" using t seq_put [OF p] N by (simp add: seq_of_def CreateBucketIfNotExists_def)
  moreover have "pending B tx' = (pending B tx)(k \<mapsto> VBytes (PutUint64 n))"
    using t get_put [OF p] N e by (simp add: pending_def)
  ultimately show ?thesis using N by (auto simp: marked_def seq_of_def)
qed

lemma put_marked:
  assumes "putObjectMetaTx B True info tx = Inr tx'"
  shows "marked B tx tx' (oiKey info)"
proof -
  let ?i = "info\<lparr>oiIsLatest := True\<rparr>"
  from assms obtain t1 t2 b3 where m: "markReplication B True tx (oiKey info) = Inr t1"
    and a: "(if bk_get B (dbObjects t1) (objectMetaKey (oiBucket ?i) (oiKey ?i)) = None then adjustObjectCount B t1 1 else Inr t1) = Inr t2"
    and t: "tx' = t2\<lparr>dbObjects := b3\<rparr>"
    unfolding putObjectMetaTx_def Let_def bindE_Inr_iff by blast
  have "dbReplication tx' = dbReplication t1" using a t adjust_frame by (auto split: if_splits)
  then have "pending B tx' = pending B t1" "seq_of B tx' = seq_of B t1" by (simp_all add: pending_def seq_of_def)
  with mark_marked [OF m] show ?thesis by (simp add: marked_def)
qed

lemma delete_marked:
  assumes "deleteObjectMetaTx B True b k v tx = Inr tx'"
  shows "marked B tx tx' k"
proof -
  from assms obtain t1 where m: "markReplication B True tx k = Inr t1"
    and d: "(if v \<noteq> [] then deleteVersionTx B b k v t1 else deleteKeyTx B b k t1) = Inr tx'"
    by (auto simp: deleteObjectMetaTx_def bindE_Inr_iff)
  have "dbReplication tx' = dbReplication t1"
  proof (cases "v = []")
    case True
    with d show ?thesis by (auto simp: deleteKeyTx_def bindE_Inr_iff dest!: adjust_frame split: if_splits)
  next
    case False
    with d show ?thesis by (auto simp: deleteVersionTx_def bindE_Inr_iff Let_def dest!: adjust_frame split: option.splits if_splits)
  qed
  then have "pending B tx' = pending B t1" "seq_of B tx' = seq_of B t1" by (simp_all add: pending_def seq_of_def)
  with mark_marked [OF m] show ?thesis by (simp add: marked_def)
qed

lemma raw_replication:
  assumes "putObjectMetaRawTx B info tx = Inr tx'"
  shows "dbReplication tx' = dbReplication tx"
  using assms by (auto simp: putObjectMetaRawTx_def Let_def bindE_Inr_iff dest!: adjust_frame split: if_splits)

end

end
