(* ===== verification/Outbox_Props.thy ===== *)
theory Outbox_Props
  imports Outbox
begin

text \<open>
  Durable replication loses nothing: in every run, a key that is not in the journal has on
  the replica exactly what it has here.
\<close>

subsection \<open>Steps on the store\<close>

lemma others_live:
  "others_same B tx tx' b k \<Longrightarrow> nul \<notin> set k' \<Longrightarrow> k' \<noteq> k \<Longrightarrow> live_rec B b tx' k' = live_rec B b tx k'"
  by (auto simp: others_same_def live_rec_def)

lemma drawn_mono: "drawn B tx v \<Longrightarrow> seq_of B tx \<le> seq_of B tx' \<Longrightarrow> drawn B tx' v"
  by (auto simp: drawn_def)

text \<open>A mark of a key gives it a revision no one has seen.\<close>

lemma marked_fresh:
  assumes "marked B tx tx' k" and "drawn B tx v"
  shows "pending B tx' k \<noteq> Some v"
  using assms PutUint64_inject by (auto simp: marked_def drawn_def)

lemma marked_inv:
  assumes m: "marked B (rpTx s) tx k" and w: "db_wf B b tx" and o: "others_same B (rpTx s) tx b k" and i: "rep_inv B b s"
  shows "rep_inv B b (s\<lparr>rpTx := tx\<rparr>)"
proof -
  have le: "seq_of B (rpTx s) \<le> seq_of B tx" and p: "pending B tx k' = (if k' = k then pending B tx k else pending B (rpTx s) k')"
    and k: "pending B tx k \<noteq> None" and d: "pending B tx k = Some v \<Longrightarrow> drawn B tx v" for k' v
    using m by (auto simp: marked_def drawn_def)
  have "caught_up B b tx (rpRemote s)"
    unfolding caught_up_def
  proof (intro allI impI)
    fix k' assume n: "nul \<notin> set k'" "pending B tx k' = None"
    with k have ne: "k' \<noteq> k" by auto
    with n(2) p [of k'] have "pending B (rpTx s) k' = None" by simp
    with i n(1) have "rpRemote s k' = map_option payload (live_rec B b (rpTx s) k')" by (simp add: rep_inv_def caught_up_def)
    with others_live [OF o n(1) ne] show "rpRemote s k' = map_option payload (live_rec B b tx k')" by simp
  qed
  moreover have "drawn B tx v" if "pending B tx k' = Some v" for k' v
  proof (cases "k' = k")
    case True
    with that d show ?thesis by simp
  next
    case False
    with that p [of k'] i have "drawn B (rpTx s) v" by (auto simp: rep_inv_def)
    with le show ?thesis by (rule drawn_mono [rotated])
  qed
  moreover have "drawn B tx v \<and> pending B tx k' \<noteq> None" if "(k', v) \<in> set (rpPage s)" for k' v
  proof -
    have "drawn B (rpTx s) v" "pending B (rpTx s) k' \<noteq> None" using that i by (auto simp: rep_inv_def)
    with p [of k'] k drawn_mono [OF _ le] show ?thesis by (cases "k' = k") auto
  qed
  moreover have "job_ok B b tx (rpRemote s) j" if "j \<in> set (rpJobs s)" for j
  proof -
    have j: "job_ok B b (rpTx s) (rpRemote s) j" using that i by (simp add: rep_inv_def)
    then have dr: "drawn B (rpTx s) (jbRevision j)" by (simp add: job_ok_def)
    have "jbData j = map_option payload (live_rec B b tx (jbKey j))"
      if c: "pending B tx (jbKey j) = Some (jbRevision j)" "nul \<notin> set (jbKey j)"
    proof -
      have ne: "jbKey j \<noteq> k" using marked_fresh [OF m dr] c(1) by auto
      with c(1) p [of "jbKey j"] have "pending B (rpTx s) (jbKey j) = Some (jbRevision j)" by simp
      with j c(2) have "jbData j = map_option payload (live_rec B b (rpTx s) (jbKey j))" by (simp add: job_ok_def)
      with others_live [OF o c(2) ne] show ?thesis by simp
    qed
    moreover have "pending B tx (jbKey j) \<noteq> None" using j k p [of "jbKey j"] by (cases "jbKey j = k") (auto simp: job_ok_def)
    ultimately show ?thesis using j drawn_mono [OF dr le] by (simp add: job_ok_def)
  qed
  ultimately show ?thesis using w i by (auto simp: rep_inv_def)
qed

text \<open>A step that leaves the journal and what readers see alone.\<close>

lemma unmarked_inv:
  assumes r: "dbReplication tx = dbReplication (rpTx s)" and w: "db_wf B b tx"
    and l: "\<And>k. nul \<notin> set k \<Longrightarrow> map_option payload (live_rec B b tx k) = map_option payload (live_rec B b (rpTx s) k)"
    and i: "rep_inv B b s"
  shows "rep_inv B b (s\<lparr>rpTx := tx\<rparr>)"
proof -
  have "pending B tx = pending B (rpTx s)" "seq_of B tx = seq_of B (rpTx s)" using r by (simp_all add: pending_def seq_of_def)
  with w i l show ?thesis by (auto simp: rep_inv_def caught_up_def drawn_def job_ok_def)
qed

context bolt_laws
begin

lemma seed_inv: "seedEntries B vs (rpTx s) = Inr tx \<Longrightarrow> rep_inv B b s \<Longrightarrow> rep_inv B b (s\<lparr>rpTx := tx\<rparr>)"
proof (induction vs arbitrary: s)
  case Nil
  then show ?case by (cases s) simp
next
  case (Cons v vs)
  then obtain i t where v: "unmarshal_obj v = Inr i"
    and t: "(if oiIsLatest i then markReplication B True (rpTx s) (oiKey i) else Inr (rpTx s)) = Inr t"
    and r: "seedEntries B vs t = Inr tx" by (auto simp: bindE_Inr_iff)
  have "rep_inv B b (s\<lparr>rpTx := t\<rparr>)"
  proof (cases "oiIsLatest i")
    case True
    with t have m: "markReplication B True (rpTx s) (oiKey i) = Inr t" by simp
    note F = mark_frame [OF m]
    show ?thesis
    proof (rule marked_inv [OF mark_marked [OF m] _ _ Cons.prems(2)])
      show "db_wf B b t" using mark_db [OF m] Cons.prems(2) by (simp add: rep_inv_def)
      show "others_same B (rpTx s) t b (oiKey i)" using F by (simp add: others_same_def)
    qed
  next
    case False
    with t have "t = rpTx s" by simp
    with Cons.prems(2) show ?thesis by (cases s) simp
  qed
  from Cons.IH [OF _ this] r show ?case by simp
qed

lemma readPage_sub:
  "\<exists>P b. dbReplication tx = Some b \<and> (\<exists>n m. readPage B tx a = take n (drop m (filter P (bk_entries B b)))) \<or> readPage B tx a = []"
proof (cases "dbReplication tx")
  case None
  then show ?thesis by (simp add: readPage_def)
next
  case b: (Some b)
  show ?thesis
  proof (cases a)
    case None
    then have "readPage B tx a = take 100 (drop 0 (filter (\<lambda>_. True) (bk_entries B b)))" using b by (simp add: readPage_def)
    with b show ?thesis by blast
  next
    case (Some x)
    have "readPage B tx a = take 100 (drop (case cur_seek B b x of [] \<Rightarrow> 0 | e # es \<Rightarrow> if fst e = x then 1 else 0) (filter (\<lambda>e. x \<le> fst e) (bk_entries B b)))"
      using b Some unfolding seek_filter [symmetric] by (simp add: readPage_def split: list.split prod.split)
    with b show ?thesis by blast
  qed
qed

lemma readPage_in: "(k, v) \<in> set (readPage B tx a) \<Longrightarrow> pending B tx k = Some v"
proof -
  assume k: "(k, v) \<in> set (readPage B tx a)"
  then obtain P b n m where b: "dbReplication tx = Some b" "readPage B tx a = take n (drop m (filter P (bk_entries B b)))"
    using readPage_sub [of tx a] by auto
  from k have "(k, v) \<in> set (bk_entries B b)" unfolding b(2) by (auto dest!: in_set_takeD in_set_dropD)
  with b(1) show ?thesis by (simp add: pending_def entries_iff)
qed

lemma readPage_distinct: "distinct (map fst (readPage B tx a))"
proof -
  have "distinct (map fst (take n (drop m (filter P (bk_entries B x)))))" for n m P x
    unfolding take_map [symmetric] drop_map [symmetric]
    by (rule distinct_take, rule distinct_drop, rule sorted_wrt_less_distinct [OF sorted_filter])
  then show ?thesis using readPage_sub [of tx a] by (metis distinct.simps(1) list.simps(8))
qed

lemma capture_live:
  assumes "captureTx B b k tx = Inr r" and "db_wf B b tx"
  shows "r = live_rec B b tx k"
proof (cases "bk_get B (dbObjects tx) (objectMetaKey b k)")
  case None
  with assms(1) show ?thesis by (simp add: captureTx_def live_rec_def cur_of_def)
next
  case (Some d)
  with assms(1) obtain i where "unmarshal_obj d = Inr i" by (auto simp: captureTx_def bindE_Inr_iff)
  then have "d = VObj i" by (cases d rule: unmarshal_obj.cases) auto
  with assms(1) Some show ?thesis by (auto simp: captureTx_def live_rec_def cur_of_def bindE_Inr_iff split: if_splits)
qed

lemma acknowledge_pending:
  assumes "acknowledgeTx B k v tx = Inr tx'"
  shows "dbObjects tx' = dbObjects tx \<and> dbStats tx' = dbStats tx \<and> seq_of B tx' = seq_of B tx \<and>
    pending B tx' = (if pending B tx k = Some v then (pending B tx)(k := None) else pending B tx)"
proof -
  from assms obtain b where b: "dbReplication tx = Some b" by (auto simp: acknowledgeTx_def split: option.splits)
  show ?thesis
  proof (cases "bk_get B b k = Some v")
    case True
    with assms b obtain b' where "bk_delete B b k = Inr b'" "tx' = tx\<lparr>dbReplication := Some b'\<rparr>"
      by (auto simp: acknowledgeTx_def bindE_Inr_iff)
    with True b get_delete [OF this(1)] seq_delete [OF this(1)] show ?thesis
      by (simp add: pending_def seq_of_def CreateBucketIfNotExists_def)
  next
    case False
    with assms b show ?thesis by (simp add: acknowledgeTx_def pending_def)
  qed
qed

lemma count_stats: "dbStats tx' = dbStats tx \<Longrightarrow> dbObjects tx' = dbObjects tx \<Longrightarrow> db_wf B b tx' = db_wf B b tx"
  by (simp add: db_wf_def count_wf_def count_is_def stats_val_def)

lemma promote_live:
  assumes w: "db_wf B b tx" and c: "cur_db B tx b k = Some i" and v: "oiVersionID i = []" and n: "nul \<notin> set k" and x: "utf8_valid x"
    and p: "putObjectMetaRawTx B (i\<lparr>oiVersionID := ''null'', oiIsLatest := True, oiBlobID := x\<rparr>) tx = Inr tx'"
  shows "db_wf B b tx' \<and> (nul \<notin> set k' \<longrightarrow> map_option payload (live_rec B b tx' k') = map_option payload (live_rec B b tx k'))"
proof -
  let ?i = "i\<lparr>oiVersionID := ''null'', oiIsLatest := True, oiBlobID := x\<rparr>"
  note K = key_wf_cur [OF store_wf_key [OF db_wf_store [OF w] n] c]
  have r: "rec_ok b k ?i" using K x utf8_null by (auto simp: rec_ok_def obj_utf8_def simp del: utf8_valid.simps)
  have h: "hist_db B tx b k = Map.empty" using K v by simp
  have s: "spec_raw ?i (cur_db B tx b k, hist_db B tx b k) = (Some ?i, [''null'' \<mapsto> ?i])" unfolding h spec_raw_def by simp
  have kw: "key_wf b k (Some ?i) [''null'' \<mapsto> ?i]" by (rule key_wfI) (use r in \<open>auto split: if_splits\<close>)
  have R: "db_wf B b tx'" "others_same B tx tx' b k" "cur_db B tx' b k = Some ?i"
    using raw_db [OF p w r n] kw unfolding s by auto
  have "map_option payload (live_rec B b tx' k) = map_option payload (live_rec B b tx k)"
    using R(3) c by (simp add: live_rec_def payload_def)
  with R(1) others_live [OF R(2)] show ?thesis by metis
qed

subsection \<open>Every step keeps the invariant\<close>

lemma jobs_inv:
  assumes "rep_inv B b s" and "rpJobs s = j1 @ j # j2"
  shows "rep_inv B b (s\<lparr>rpJobs := j1 @ j2\<rparr>)"
  using assms by (auto simp: rep_inv_def)

lemma send_inv:
  assumes i: "rep_inv B b s" and j: "rpJobs s = j1 @ j # j2"
  shows "rep_inv B b (s\<lparr>rpRemote := (rpRemote s)(jbKey j := jbData j), rpJobs := j1 @ j\<lparr>jbSent := True\<rparr> # j2\<rparr>)"
proof -
  have j': "job_ok B b (rpTx s) (rpRemote s) j" using i j by (simp add: rep_inv_def)
  then have p: "pending B (rpTx s) (jbKey j) \<noteq> None" by (simp add: job_ok_def)
  have "jbKey j \<notin> jbKey ` set (j1 @ j2)" using i j by (auto simp: rep_inv_def)
  then have ne: "jbKey x \<noteq> jbKey j" if "x \<in> set (j1 @ j2)" for x using that by (metis imageI)
  have "caught_up B b (rpTx s) ((rpRemote s)(jbKey j := jbData j))"
    using i p by (auto simp: rep_inv_def caught_up_def)
  moreover have "job_ok B b (rpTx s) ((rpRemote s)(jbKey j := jbData j)) x" if "x \<in> set (j1 @ j\<lparr>jbSent := True\<rparr> # j2)" for x
  proof (cases "x = j\<lparr>jbSent := True\<rparr>")
    case True
    with j' show ?thesis by (simp add: job_ok_def)
  next
    case False
    with that have x: "x \<in> set (j1 @ j2)" by auto
    with i j have "job_ok B b (rpTx s) (rpRemote s) x" by (auto simp: rep_inv_def)
    with ne [OF x] show ?thesis by (simp add: job_ok_def)
  qed
  moreover have "distinct (map jbKey (j1 @ j\<lparr>jbSent := True\<rparr> # j2) @ map fst (rpPage s))" using i j by (simp add: rep_inv_def)
  ultimately show ?thesis using i by (simp add: rep_inv_def)
qed

lemma acknowledge_inv:
  assumes i: "rep_inv B b s" and j: "rpJobs s = j1 @ j # j2" "jbSent j" and a: "acknowledgeTx B (jbKey j) (jbRevision j) (rpTx s) = Inr tx"
  shows "rep_inv B b (s\<lparr>rpTx := tx, rpJobs := j1 @ j2\<rparr>)"
proof -
  note A = acknowledge_pending [OF a]
  have j': "job_ok B b (rpTx s) (rpRemote s) j" using i j(1) by (simp add: rep_inv_def)
  have l: "live_rec B b tx k = live_rec B b (rpTx s) k" and d: "drawn B tx v = drawn B (rpTx s) v" for k v
    using A by (simp_all add: live_rec_def drawn_def)
  have w: "db_wf B b tx" using A i count_stats [of tx "rpTx s" b] by (simp add: rep_inv_def)
  have p: "pending B tx k = pending B (rpTx s) k \<or> k = jbKey j \<and> pending B tx k = None \<and> pending B (rpTx s) k = Some (jbRevision j)" for k
    using A by (auto split: if_splits)
  have "caught_up B b tx (rpRemote s)"
    unfolding caught_up_def l
  proof (intro allI impI)
    fix k assume n: "nul \<notin> set k" "pending B tx k = None"
    show "rpRemote s k = map_option payload (live_rec B b (rpTx s) k)"
    proof (cases "pending B (rpTx s) k = None")
      case True
      with i n(1) show ?thesis by (simp add: rep_inv_def caught_up_def)
    next
      case False
      with p [of k] n(2) have "k = jbKey j" "pending B (rpTx s) k = Some (jbRevision j)" by auto
      with j' j(2) n(1) show ?thesis by (simp add: job_ok_def)
    qed
  qed
  moreover have ne: "k \<noteq> jbKey j" if "k \<in> set (map jbKey (j1 @ j2) @ map fst (rpPage s))" for k
    using i j(1) that by (auto simp: rep_inv_def)
  moreover have "job_ok B b tx (rpRemote s) x" if "x \<in> set (j1 @ j2)" for x
  proof -
    have "job_ok B b (rpTx s) (rpRemote s) x" using i j(1) that by (auto simp: rep_inv_def)
    moreover have "pending B tx (jbKey x) = pending B (rpTx s) (jbKey x)" using p [of "jbKey x"] ne [of "jbKey x"] that by auto
    ultimately show ?thesis by (simp add: job_ok_def d l)
  qed
  moreover have "drawn B tx v \<and> pending B tx k \<noteq> None" if "(k, v) \<in> set (rpPage s)" for k v
  proof -
    have "k \<in> set (map jbKey (j1 @ j2) @ map fst (rpPage s))" using that by force
    with ne have "k \<noteq> jbKey j" by blast
    with p [of k] i that show ?thesis by (auto simp: rep_inv_def d)
  qed
  moreover have "drawn B tx v" if "pending B tx k = Some v" for k v
    using p [of k] that i by (auto simp: rep_inv_def d)
  moreover have "distinct (map jbKey (j1 @ j2) @ map fst (rpPage s))" using i j(1) by (auto simp: rep_inv_def)
  ultimately show ?thesis using w by (auto simp: rep_inv_def)
qed

lemma rep_step_inv:
  assumes "rep_step B b s s'" and i: "rep_inv B b s"
  shows "rep_inv B b s'"
  using assms(1)
proof cases
  case (Write info tx k)
  have w: "db_wf B b (rpTx s)" using i by (simp add: rep_inv_def)
  have k: "oiKey info = k" using Write(3) by (simp add: rec_ok_def)
  from put_db [OF Write(2) w Write(3,4)] put_marked [OF Write(2)] i show ?thesis unfolding Write(1) k by (intro marked_inv) auto
next
  case (Delete k v tx)
  have w: "db_wf B b (rpTx s)" using i by (simp add: rep_inv_def)
  have "db_wf B b tx \<and> others_same B (rpTx s) tx b k"
    using delete_version_db [OF Delete(2) w Delete(3)] delete_key_db [OF _ w Delete(3)] Delete(2) by (cases "v = []") auto
  with delete_marked [OF Delete(2)] i show ?thesis unfolding Delete(1) by (intro marked_inv) auto
next
  case (Promote k x y tx)
  have w: "db_wf B b (rpTx s)" using i by (simp add: rep_inv_def)
  note P = promote_live [OF w Promote(2,3,4,5,6)]
  show ?thesis unfolding Promote(1) by (rule unmarked_inv [OF raw_replication [OF Promote(6)] _ _ i]) (use P in auto)
next
  case (Seed tx)
  with seed_inv [OF _ i] show ?thesis by (simp add: seedReplicationTx_def)
next
  case (Page page)
  have "\<forall>(k, v)\<in>set page. pending B (rpTx s) k = Some v" using readPage_in Page(4) by auto
  with i Page readPage_distinct show ?thesis by (fastforce simp: rep_inv_def)
next
  case (Capture p1 k rv p2 r)
  have w: "db_wf B b (rpTx s)" using i by (simp add: rep_inv_def)
  have e: "drawn B (rpTx s) rv \<and> pending B (rpTx s) k \<noteq> None" using i Capture(2) by (auto simp: rep_inv_def)
  then have "job_ok B b (rpTx s) (rpRemote s) \<lparr>jbKey = k, jbRevision = rv, jbData = map_option payload r, jbSent = False\<rparr>"
    using capture_live [OF Capture(3) w] by (simp add: job_ok_def)
  with i Capture(1,2) show ?thesis by (auto simp: rep_inv_def)
next
  case (CaptureFails p1 k rv p2)
  with i show ?thesis by (auto simp: rep_inv_def)
next
  case (Send j1 j j2)
  with send_inv [OF i] show ?thesis by simp
next
  case (ResponseLost j1 j j2)
  from jobs_inv [OF send_inv [OF i ResponseLost(2)], of j1 "j\<lparr>jbSent := True\<rparr>" j2]
  have "rep_inv B b (s\<lparr>rpRemote := (rpRemote s)(jbKey j := jbData j), rpJobs := j1 @ j2\<rparr>)" by simp
  with ResponseLost(1) show ?thesis by simp
next
  case (JobFails j1 j j2)
  show ?thesis unfolding JobFails(1) by (rule jobs_inv [OF i JobFails(2)])
next
  case (Acknowledge j1 j j2 tx)
  with acknowledge_inv [OF i] show ?thesis by simp
next
  case Restart
  with i show ?thesis by (auto simp: rep_inv_def)
qed

end

lemma rep_run_inv:
  assumes "bolt_laws B" and "(rep_step B b)\<^sup>*\<^sup>* s s'" and "rep_inv B b s"
  shows "rep_inv B b s'"
  using assms(2,3) by induction (auto intro: bolt_laws.rep_step_inv [OF assms(1)])

subsection \<open>Enabling replication\<close>

lemma mark_pending_mono: "bolt_laws B \<Longrightarrow> markReplication B True tx k = Inr tx' \<Longrightarrow> pending B tx' k \<noteq> None \<and> (pending B tx k' \<noteq> None \<longrightarrow> pending B tx' k' \<noteq> None)"
  using bolt_laws.mark_marked by (fastforce simp: marked_def)

lemma seed_pending:
  assumes "bolt_laws B" and "seedEntries B vs tx = Inr tx'"
  shows "dbObjects tx' = dbObjects tx \<and> (pending B tx k \<noteq> None \<longrightarrow> pending B tx' k \<noteq> None) \<and>
    (\<forall>i. VObj i \<in> set vs \<and> oiIsLatest i \<longrightarrow> pending B tx' (oiKey i) \<noteq> None)"
  using assms(2)
proof (induction vs arbitrary: tx k)
  case (Cons v vs)
  then obtain i t where v: "unmarshal_obj v = Inr i"
    and t: "(if oiIsLatest i then markReplication B True tx (oiKey i) else Inr tx) = Inr t"
    and r: "seedEntries B vs t = Inr tx'" by (auto simp: bindE_Inr_iff)
  have o: "dbObjects t = dbObjects tx" using t by (auto dest!: mark_frame split: if_splits)
  have m: "pending B tx k' \<noteq> None \<longrightarrow> pending B t k' \<noteq> None" "oiIsLatest i \<Longrightarrow> pending B t (oiKey i) \<noteq> None" for k'
    using t mark_pending_mono [OF assms(1)] by (auto split: if_splits)
  have "\<forall>j. VObj j = v \<longrightarrow> j = i" using v by auto
  with Cons.IH [OF r, of k] Cons.IH [OF r, of "oiKey i"] m o show ?case by auto
qed simp

text \<open>Once seeded, the store has caught up with any replica that holds nothing but
  copies, outdated or not, of objects that exist here.\<close>

lemma seeded_caught_up:
  assumes "bolt_laws B" and "seedReplicationTx B tx = Inr tx'" and "db_wf B b tx"
    and r: "\<And>k. nul \<notin> set k \<Longrightarrow> live_rec B b tx k = None \<Longrightarrow> remote k = None"
  shows "caught_up B b tx' remote"
  unfolding caught_up_def
proof (intro allI impI)
  fix k assume n: "nul \<notin> set k" and p: "pending B tx' k = None"
  note S = seed_pending [OF assms(1) assms(2) [unfolded seedReplicationTx_def]]
  have "live_rec B b tx k = None"
  proof (rule ccontr)
    assume "live_rec B b tx k \<noteq> None"
    then obtain i where c: "cur_db B tx b k = Some i" by (auto simp: live_rec_def split: option.splits)
    note K = key_wf_cur [OF store_wf_key [OF db_wf_store [OF assms(3)] n] c]
    have "VObj i \<in> set (map snd (bk_entries B (dbObjects tx)))"
      using c bolt_laws.entries_iff [OF assms(1)] by (force simp: cur_of_Some)
    moreover have "oiKey i = k" "oiIsLatest i" using K by (auto simp: rec_ok_def)
    ultimately show False using S [of k, THEN conjunct2, THEN conjunct2, rule_format, of i] p by simp
  qed
  with r [OF n] S show "remote k = map_option payload (live_rec B b tx' k)" by (simp add: live_rec_def)
qed

subsection \<open>Draining the journal\<close>

definition idle :: "'b replication \<Rightarrow> bool" where
  "idle s \<longleftrightarrow> rpPage s = [] \<and> rpJobs s = [] \<and> rpAfter s = None"

text \<open>The entries of the journal after a position.\<close>

definition beyond :: "string option \<Rightarrow> string \<times> dbvalue \<Rightarrow> bool" where
  "beyond after e \<longleftrightarrow> (case after of None \<Rightarrow> True | Some a \<Rightarrow> a < fst e)"

context bolt_laws
begin

lemma readPage_filter:
  assumes "dbReplication tx = Some b"
  shows "readPage B tx after = take 100 (filter (beyond after) (bk_entries B b))"
proof (cases after)
  case (Some a)
  let ?L = "filter (\<lambda>e. a \<le> fst e) (bk_entries B b)"
  have f: "filter (beyond after) (bk_entries B b) = filter (\<lambda>e. a < fst e) ?L"
    unfolding filter_filter Some beyond_def by (rule filter_cong) auto
  have "(case ?L of [] \<Rightarrow> [] | (k, v) # es \<Rightarrow> if k = a then es else (k, v) # es) = filter (\<lambda>e. a < fst e) ?L"
  proof (cases ?L)
    case (Cons e es)
    have srt: "sorted_wrt (<) (map fst (e # es))" using sorted_filter [of "\<lambda>e. a \<le> fst e" b] unfolding Cons .
    have a: "a \<le> fst e" using Cons by (metis (mono_tags, lifting) filter_eq_ConsD)
    have "\<forall>x\<in>set es. a < fst x" using srt a by (auto intro: le_less_trans)
    then have "filter (\<lambda>e. a < fst e) es = es" by simp
    with a show ?thesis unfolding Cons by (cases e) auto
  qed simp
  then show ?thesis using assms Some f by (simp add: readPage_def seek_filter)
qed (use assms in \<open>simp add: readPage_def beyond_def\<close>)

lemma skip_page: "rpJobs s = [] \<Longrightarrow> (rep_step B b)\<^sup>*\<^sup>* s (s\<lparr>rpPage := []\<rparr>)"
proof (induction "rpPage s" arbitrary: s)
  case (Cons e es)
  obtain k v where e: "e = (k, v)" by (cases e)
  have "rep_step B b s (s\<lparr>rpPage := [] @ es\<rparr>)"
    by (rule CaptureFails [where k = k and rv = v]) (simp add: Cons.hyps(2) [symmetric] e)
  moreover have "(rep_step B b)\<^sup>*\<^sup>* (s\<lparr>rpPage := es\<rparr>) (s\<lparr>rpPage := es, rpPage := []\<rparr>)" by (rule Cons.hyps(1)) (simp_all add: Cons.prems)
  ultimately show ?case by (simp add: converse_rtranclp_into_rtranclp)
next
  case Nil
  then have "s\<lparr>rpPage := []\<rparr> = s" by (cases s) simp
  then show ?case by simp
qed

text \<open>Entries that cannot be delivered do not keep the reconciler from the ones behind them:
  page by page it comes to every entry.\<close>

lemma reach_entry:
  assumes "dbReplication (rpTx s) = Some b'" and "rpPage s = []" and "rpJobs s = []" and "bk_get B b' k = Some v" and "beyond (rpAfter s) (k, v)"
  shows "\<exists>a p1 p2. (rep_step B b)\<^sup>*\<^sup>* s (s\<lparr>rpAfter := a, rpPage := p1 @ (k, v) # p2\<rparr>)"
  using assms
proof (induction "length (filter (beyond (rpAfter s)) (bk_entries B b'))" arbitrary: s rule: less_induct)
  case less
  let ?L = "filter (beyond (rpAfter s)) (bk_entries B b')"
  let ?p = "readPage B (rpTx s) (rpAfter s)"
  let ?s = "s\<lparr>rpAfter := nextAfter ?p, rpPage := ?p\<rparr>"
  have p: "?p = take 100 ?L" by (rule readPage_filter [OF less.prems(1)])
  have m: "(k, v) \<in> set ?L" using less.prems(4,5) entries_iff by simp
  have st: "rep_step B b s ?s" by (rule Page) (use less.prems in simp_all)
  show ?case
  proof (cases "(k, v) \<in> set ?p")
    case True
    then obtain p1 p2 where "?p = p1 @ (k, v) # p2" by (meson split_list)
    with st show ?thesis by (metis r_into_rtranclp)
  next
    case False
    have ne: "?p \<noteq> []" using m unfolding p by (cases ?L) auto
    let ?l = "fst (last ?p)"
    have srt: "sorted_wrt (<) (map fst (take 100 ?L @ drop 100 ?L))" using sorted_filter [of "beyond (rpAfter s)" b'] by simp
    have kd: "(k, v) \<in> set (drop 100 ?L)" using m False unfolding p by (metis Un_iff append_take_drop_id set_append)
    have lt: "last ?p \<in> set (take 100 ?L)" using last_in_set [OF ne] p by simp
    have "\<forall>x\<in>set (take 100 ?L). \<forall>y\<in>set (drop 100 ?L). fst x < fst y"
      using srt by (simp only: map_append sorted_wrt_append set_map ball_simps) blast
    with lt kd have lk: "?l < k" by (metis fst_conv)
    have sub: "filter (beyond (Some ?l)) (bk_entries B b') = filter (beyond (Some ?l)) ?L"
    proof -
      have "last ?p \<in> set ?L" using last_in_set [OF ne] unfolding p by (meson in_set_takeD)
      then have "beyond (rpAfter s) (last ?p)" by simp
      then show ?thesis unfolding filter_filter by (intro filter_cong) (auto simp: beyond_def split: option.splits)
    qed
    have "last ?p \<in> set ?L" using last_in_set [OF ne] unfolding p by (meson in_set_takeD)
    then have less': "length (filter (beyond (Some ?l)) ?L) < length ?L" by (rule length_filter_less) (simp add: beyond_def)
    let ?t = "?s\<lparr>rpPage := []\<rparr>"
    have skip: "(rep_step B b)\<^sup>*\<^sup>* ?s ?t" by (rule skip_page) (simp add: less.prems)
    have na: "nextAfter ?p = Some ?l" using ne by (simp add: nextAfter_def)
    have "\<exists>a p1 p2. (rep_step B b)\<^sup>*\<^sup>* ?t (?t\<lparr>rpAfter := a, rpPage := p1 @ (k, v) # p2\<rparr>)"
      by (rule less.hyps) (use less' sub less.prems na lk in \<open>simp_all add: beyond_def\<close>)
    then obtain a p1 p2 where "(rep_step B b)\<^sup>*\<^sup>* ?t (s\<lparr>rpAfter := a, rpPage := p1 @ (k, v) # p2\<rparr>)" by auto
    with st skip show ?thesis by (meson converse_rtranclp_into_rtranclp rtranclp_trans)
  qed
qed

end

context bolt_ok
begin

text \<open>Any entry whose object can be read is delivered and cleared.\<close>

lemma drain_one:
  assumes i: "idle s" and k: "dbReplication (rpTx s) = Some b'" "bk_get B b' k = Some v" and c: "captureTx B b k (rpTx s) = Inr r"
  obtains tx where "(rep_step B b)\<^sup>*\<^sup>* s (s\<lparr>rpTx := tx, rpRemote := (rpRemote s)(k := map_option payload r)\<rparr>)"
    "dbObjects tx = dbObjects (rpTx s)" "pending B tx = (pending B (rpTx s))(k := None)"
proof -
  let ?j = "\<lparr>jbKey = k, jbRevision = v, jbData = map_option payload r, jbSent = False\<rparr>"
  let ?R = "(rpRemote s)(k := map_option payload r)"
  obtain b2 where b2: "bk_delete B b' k = Inr b2" using delete_total by blast
  let ?tx = "(rpTx s)\<lparr>dbReplication := Some b2\<rparr>"
  have a: "acknowledgeTx B k v (rpTx s) = Inr ?tx" using k b2 by (simp add: acknowledgeTx_def)
  obtain af p1 p2 where 1: "(rep_step B b)\<^sup>*\<^sup>* s (s\<lparr>rpAfter := af, rpPage := p1 @ (k, v) # p2\<rparr>)"
    using reach_entry [OF k(1) _ _ k(2), of b] i by (auto simp: idle_def beyond_def)
  let ?s1 = "s\<lparr>rpAfter := af, rpPage := p1 @ (k, v) # p2\<rparr>"
  have 2: "rep_step B b ?s1 (?s1\<lparr>rpPage := p1 @ p2, rpJobs := ?j # rpJobs ?s1\<rparr>)" (is "rep_step B b ?s1 ?s2")
    by (rule Capture) (use c in simp_all)
  have 3: "rep_step B b ?s2 (?s2\<lparr>rpRemote := (rpRemote ?s2)(jbKey ?j := jbData ?j), rpJobs := [] @ ?j\<lparr>jbSent := True\<rparr> # []\<rparr>)" (is "rep_step B b ?s2 ?s3")
    by (rule Send) (use i in \<open>simp_all add: idle_def\<close>)
  have 4: "rep_step B b ?s3 (?s3\<lparr>rpTx := ?tx, rpJobs := [] @ []\<rparr>)" (is "rep_step B b ?s3 ?s4")
    by (rule Acknowledge [where j = "?j\<lparr>jbSent := True\<rparr>"]) (use a in simp_all)
  have 5: "rep_step B b ?s4 (?s4\<lparr>rpAfter := None, rpPage := [], rpJobs := []\<rparr>)" by (rule Restart)
  have e: "?s4\<lparr>rpAfter := None, rpPage := [], rpJobs := []\<rparr> = s\<lparr>rpTx := ?tx, rpRemote := ?R\<rparr>"
    using i by (cases s) (simp add: idle_def)
  have "(rep_step B b)\<^sup>*\<^sup>* ?s1 (s\<lparr>rpTx := ?tx, rpRemote := ?R\<rparr>)"
    using 2 3 4 5 unfolding e by (meson converse_rtranclp_into_rtranclp rtranclp.rtrancl_refl)
  with 1 have "(rep_step B b)\<^sup>*\<^sup>* s (s\<lparr>rpTx := ?tx, rpRemote := ?R\<rparr>)" by (rule rtranclp_trans)
  moreover have "pending B ?tx = (pending B (rpTx s))(k := None)" using k(1) get_delete [OF b2] by (simp add: pending_def)
  ultimately show thesis by (intro that [of ?tx]) simp_all
qed

text \<open>So what can be read is delivered, until only entries that cannot be are left.\<close>

lemma drain:
  assumes "idle s"
  shows "\<exists>s'. (rep_step B b)\<^sup>*\<^sup>* s s' \<and> dbObjects (rpTx s') = dbObjects (rpTx s) \<and>
    (\<forall>k. pending B (rpTx s') k \<noteq> None \<longrightarrow> \<not> is_ok (captureTx B b k (rpTx s')))"
  using assms
proof (induction "card (dom (pending B (rpTx s)))" arbitrary: s rule: less_induct)
  case less
  show ?case
  proof (cases "\<exists>k. pending B (rpTx s) k \<noteq> None \<and> is_ok (captureTx B b k (rpTx s))")
    case False
    then show ?thesis by blast
  next
    case True
    then obtain k v r where g: "pending B (rpTx s) k = Some v" and c: "captureTx B b k (rpTx s) = Inr r" by (auto simp: is_ok_iff)
    then obtain b' where b': "dbReplication (rpTx s) = Some b'" "bk_get B b' k = Some v" by (auto simp: pending_def split: option.splits)
    obtain tx where t: "(rep_step B b)\<^sup>*\<^sup>* s (s\<lparr>rpTx := tx, rpRemote := (rpRemote s)(k := map_option payload r)\<rparr>)"
      "dbObjects tx = dbObjects (rpTx s)" "pending B tx = (pending B (rpTx s))(k := None)"
      using drain_one [OF less.prems b' c] by blast
    let ?s = "s\<lparr>rpTx := tx, rpRemote := (rpRemote s)(k := map_option payload r)\<rparr>"
    have f: "finite (dom (pending B (rpTx s)))" using b'(1) finite_dom by (simp add: pending_def)
    have "card (dom (pending B (rpTx ?s))) < card (dom (pending B (rpTx s)))"
      by (rule psubset_card_mono [OF f]) (use t(3) g in auto)
    moreover have "idle ?s" using less.prems by (simp add: idle_def)
    ultimately obtain s' where "(rep_step B b)\<^sup>*\<^sup>* ?s s'" "dbObjects (rpTx s') = dbObjects (rpTx ?s)"
        "\<forall>k. pending B (rpTx s') k \<noteq> None \<longrightarrow> \<not> is_ok (captureTx B b k (rpTx s'))"
      using less.hyps by blast
    moreover from this(1) t(1) have "(rep_step B b)\<^sup>*\<^sup>* s s'" by (rule rtranclp_trans [rotated])
    ultimately show ?thesis using t(2) by auto
  qed
qed

end

text \<open>What cannot be read is under a customer's key.\<close>

definition under_customer_key :: "ObjectInfo option \<Rightarrow> bool" where
  "under_customer_key r \<longleftrightarrow> (case r of Some i \<Rightarrow> oiSSECustomerAlgorithm i \<noteq> [] | None \<Rightarrow> False)"

lemma capture_fails:
  assumes "db_wf B b tx" and "nul \<notin> set k" and "\<not> is_ok (captureTx B b k tx)"
  shows "under_customer_key (live_rec B b tx k)"
proof -
  obtain d where d: "bk_get B (dbObjects tx) (objectMetaKey b k) = Some d"
    using assms(3) by (cases "bk_get B (dbObjects tx) (objectMetaKey b k)") (auto simp: captureTx_def)
  obtain i where "d = VObj i"
    using d db_wf_store [OF assms(1)] by (auto simp: store_wf_def dest: shape_okD)
  with assms(3) d show ?thesis by (auto simp: captureTx_def live_rec_def cur_of_def under_customer_key_def split: if_splits)
qed

subsection \<open>Properties\<close>

text \<open>C7: durable replication loses nothing. In every run - writers, deliveries, failed
  sends, responses that get lost, restarts and the next rounds, interleaved in any way -
  a key that is not in the journal has on the replica what it has here: the size, hash and
  content type of its object, or nothing when it is absent or deleted. So an entry is never
  cleared by a delivery that was overtaken by a newer write.\<close>

theorem replica_never_falls_behind:
  assumes "bolt_laws B" and "db_wf B b tx" and "caught_up B b tx remote" and "\<forall>k v. pending B tx k = Some v \<longrightarrow> drawn B tx v"
    and "(rep_step B b)\<^sup>*\<^sup>* \<lparr>rpTx = tx, rpRemote = remote, rpAfter = None, rpPage = [], rpJobs = []\<rparr> s"
    and "nul \<notin> set k" and "pending B (rpTx s) k = None"
  shows "rpRemote s k = map_option payload (live_rec B b (rpTx s) k)"
proof -
  have "rep_inv B b \<lparr>rpTx = tx, rpRemote = remote, rpAfter = None, rpPage = [], rpJobs = []\<rparr>" using assms(2-4) by (simp add: rep_inv_def)
  with rep_run_inv [OF assms(1,5)] assms(6,7) show ?thesis by (simp add: rep_inv_def caught_up_def)
qed

text \<open>C22: the replica can always catch up. From every state of every run, deliveries that
  succeed bring the replica to hold, for every key whose object is not under a customer's
  key, exactly the object of the bucket, or nothing where there is none, and leave in the
  journal only keys whose object is under a customer's key, which no delivery can read.\<close>

theorem replica_can_catch_up:
  assumes "bolt_ok B" and "db_wf B b tx" and "caught_up B b tx remote" and "\<forall>k v. pending B tx k = Some v \<longrightarrow> drawn B tx v"
    and "(rep_step B b)\<^sup>*\<^sup>* \<lparr>rpTx = tx, rpRemote = remote, rpAfter = None, rpPage = [], rpJobs = []\<rparr> s"
  shows "\<exists>s'. (rep_step B b)\<^sup>*\<^sup>* s s' \<and> dbObjects (rpTx s') = dbObjects (rpTx s) \<and>
    (\<forall>k. nul \<notin> set k \<longrightarrow> pending B (rpTx s') k \<noteq> None \<longrightarrow> under_customer_key (live_rec B b (rpTx s) k)) \<and>
    (\<forall>k. nul \<notin> set k \<longrightarrow> \<not> under_customer_key (live_rec B b (rpTx s) k) \<longrightarrow>
       rpRemote s' k = map_option payload (live_rec B b (rpTx s) k))"
proof -
  have l: "bolt_laws B" using assms(1) by (simp add: bolt_ok_def)
  have i: "rep_inv B b s" by (rule rep_run_inv [OF l assms(5)]) (use assms(2-4) in \<open>simp add: rep_inv_def\<close>)
  let ?s = "s\<lparr>rpAfter := None, rpPage := [], rpJobs := []\<rparr>"
  have 1: "rep_step B b s ?s" by (rule Restart)
  obtain s' where s': "(rep_step B b)\<^sup>*\<^sup>* ?s s'" "dbObjects (rpTx s') = dbObjects (rpTx s)"
      "\<forall>k. pending B (rpTx s') k \<noteq> None \<longrightarrow> \<not> is_ok (captureTx B b k (rpTx s'))"
    using bolt_ok.drain [OF assms(1), of ?s b] by (auto simp: idle_def)
  have r: "(rep_step B b)\<^sup>*\<^sup>* s s'" using 1 s'(1) by (rule converse_rtranclp_into_rtranclp)
  have i': "rep_inv B b s'" by (rule rep_run_inv [OF l r i])
  have e: "live_rec B b (rpTx s') k = live_rec B b (rpTx s) k" for k using s'(2) by (simp add: live_rec_def)
  have p: "under_customer_key (live_rec B b (rpTx s) k)" if "nul \<notin> set k" "pending B (rpTx s') k \<noteq> None" for k
    using capture_fails [of B b "rpTx s'" k] i' s'(3) that e by (auto simp: rep_inv_def)
  have "rpRemote s' k = map_option payload (live_rec B b (rpTx s) k)"
    if n: "nul \<notin> set k" and u: "\<not> under_customer_key (live_rec B b (rpTx s) k)" for k
  proof -
    have "pending B (rpTx s') k = None" using p [OF n] u by blast
    with i' n e show ?thesis by (simp add: rep_inv_def caught_up_def)
  qed
  with r s'(2) p show ?thesis by blast
qed

subsection \<open>Witnesses\<close>

text \<open>A bucket whose first object has just been written.\<close>

definition ex_rep :: "alist_bucket bdb \<Rightarrow> alist_bucket replication" where
  "ex_rep tx = \<lparr>rpTx = tx, rpRemote = (\<lambda>_. None), rpAfter = None, rpPage = [], rpJobs = []\<rparr>"

lemma ex_rep_start: "caught_up alist_bolt ''bkt'' ex_db0 (\<lambda>_. None)" "\<forall>k v. pending alist_bolt ex_db0 k = Some v \<longrightarrow> drawn alist_bolt ex_db0 v"
  by (simp_all add: caught_up_def live_rec_def cur_of_def pending_def ex_db0_def alist_bolt_def)

lemma ex_rep_write: "(rep_step alist_bolt ''bkt'')\<^sup>*\<^sup>* (ex_rep ex_db0) (ex_rep ex_db1)"
proof -
  have "rep_step alist_bolt ''bkt'' (ex_rep ex_db0) ((ex_rep ex_db0)\<lparr>rpTx := ex_db1\<rparr>)"
    by (rule Write [OF _ ex_rec_ok(1) ex_key]) (simp add: ex_rep_def ex_put1)
  then show ?thesis by (simp add: ex_rep_def r_into_rtranclp)
qed

lemma ex_rep_drained:
  assumes "dbObjects tx = dbObjects ex_db1" and "\<forall>k. pending alist_bolt tx k \<noteq> None \<longrightarrow> \<not> is_ok (captureTx alist_bolt ''bkt'' k tx)"
  shows "pending alist_bolt tx ''k'' = None"
proof (rule ccontr)
  assume "pending alist_bolt tx ''k'' \<noteq> None"
  moreover have "captureTx alist_bolt ''bkt'' ''k'' tx = captureTx alist_bolt ''bkt'' ''k'' ex_db1" using assms(1) by (simp add: captureTx_def)
  moreover have "is_ok (captureTx alist_bolt ''bkt'' ''k'' ex_db1)" by code_simp
  ultimately show False using assms(2) by metis
qed

lemma ex_rep_live: "map_option payload (live_rec alist_bolt ''bkt'' ex_db1 ''k'') \<noteq> None"
  by code_simp

theorem replica_never_falls_behind_witness:
  "\<exists>s. (rep_step alist_bolt ''bkt'')\<^sup>*\<^sup>* (ex_rep ex_db1) s \<and> rpRemote s ''k'' = map_option payload (live_rec alist_bolt ''bkt'' ex_db1 ''k'') \<and> rpRemote s ''k'' \<noteq> None"
proof -
  have "idle (ex_rep ex_db1)" by (simp add: idle_def ex_rep_def)
  from alk.drain [OF this, of "''bkt''"] obtain s where
    s: "(rep_step alist_bolt ''bkt'')\<^sup>*\<^sup>* (ex_rep ex_db1) s" "dbObjects (rpTx s) = dbObjects ex_db1"
      "\<forall>k. pending alist_bolt (rpTx s) k \<noteq> None \<longrightarrow> \<not> is_ok (captureTx alist_bolt ''bkt'' k (rpTx s))"
    by (auto simp: ex_rep_def)
  have "(rep_step alist_bolt ''bkt'')\<^sup>*\<^sup>* (ex_rep ex_db0) s" using ex_rep_write s(1) by simp
  then have "rpRemote s ''k'' = map_option payload (live_rec alist_bolt ''bkt'' (rpTx s) ''k'')"
    unfolding ex_rep_def by (rule replica_never_falls_behind [OF alist_laws ex_db0_wf ex_rep_start _ ex_key]) (rule ex_rep_drained [OF s(2,3)])
  then have "rpRemote s ''k'' = map_option payload (live_rec alist_bolt ''bkt'' ex_db1 ''k'')" using s(2) by (simp add: live_rec_def)
  with s(1) ex_rep_live show ?thesis by metis
qed

theorem replica_can_catch_up_witness:
  "\<exists>s. (rep_step alist_bolt ''bkt'')\<^sup>*\<^sup>* (ex_rep ex_db1) s \<and> pending alist_bolt (rpTx s) ''k'' = None \<and>
    rpRemote s ''k'' = map_option payload (live_rec alist_bolt ''bkt'' ex_db1 ''k'') \<and> rpRemote s ''k'' \<noteq> None"
proof -
  have n: "nul \<notin> set ''k''" and u: "\<not> under_customer_key (live_rec alist_bolt ''bkt'' ex_db1 ''k'')" by (rule ex_key) code_simp
  from replica_can_catch_up [OF alist_ok ex_db0_wf ex_rep_start ex_rep_write [unfolded ex_rep_def]]
  obtain s where "(rep_step alist_bolt ''bkt'')\<^sup>*\<^sup>* (ex_rep ex_db1) s"
    "nul \<notin> set ''k'' \<Longrightarrow> pending alist_bolt (rpTx s) ''k'' \<noteq> None \<Longrightarrow> under_customer_key (live_rec alist_bolt ''bkt'' ex_db1 ''k'')"
    "nul \<notin> set ''k'' \<Longrightarrow> \<not> under_customer_key (live_rec alist_bolt ''bkt'' ex_db1 ''k'') \<Longrightarrow>
      rpRemote s ''k'' = map_option payload (live_rec alist_bolt ''bkt'' ex_db1 ''k'')"
    unfolding ex_rep_def replication.simps by (metis replication.select_convs(1))
  with n u ex_rep_live show ?thesis by metis
qed

end
