(* ===== verification/Go_Http.thy ===== *)
theory Go_Http
  imports Sig_V4
begin

text \<open>
  Prelude, net/http on the server's side: response headers, dates, and ServeContent, which
  evaluates the conditional headers and the Range header of a request against content that
  can be sought. http.ParseTime depends on time zone data and is a parameter; the boundary
  of a multipart answer is random and is a parameter too.
\<close>

subsection \<open>Responses\<close>

definition HeaderSet :: "header \<Rightarrow> string \<Rightarrow> string \<Rightarrow> header" where
  "HeaderSet h name v = ValuesSet h (CanonicalMIMEHeaderKey name) v"

definition HeaderDel :: "header \<Rightarrow> string \<Rightarrow> header" where
  "HeaderDel h name = ValuesDel h (CanonicalMIMEHeaderKey name)"

text \<open>What a handler writes: bytes, or an XML document, named by the fields of its root.\<close>

datatype rbody =
    RawBody string
  | ErrorDoc string string string
  | CopyObjectResult string string

record response =
  rpStatus :: nat
  rpHeader :: header
  rpBody :: rbody

subsection \<open>Dates\<close>

text \<open>The UTC date and time of an instant (nanoseconds since the epoch), and the day of the
  week, Sunday being 0.\<close>

definition break_time :: "int \<Rightarrow> civil" where
  "break_time ns =
    (let secs = ns div 1000000000; s = secs mod 86400;
         z = secs div 86400 + 719468; era = z div 146097; doe = z mod 146097;
         yoe = (doe - doe div 1460 + doe div 36524 - doe div 146096) div 365;
         doy = doe - (365 * yoe + yoe div 4 - yoe div 100);
         mp = (5 * doy + 2) div 153; m = (if mp < 10 then mp + 3 else mp - 9) in
     \<lparr>cvYear = yoe + era * 400 + (if m \<le> 2 then 1 else 0), cvMonth = m, cvDay = doy - (153 * mp + 2) div 5 + 1,
      cvHour = s div 3600, cvMinute = s div 60 mod 60, cvSecond = s mod 60\<rparr>)"

definition weekday :: "int \<Rightarrow> nat" where
  "weekday ns = nat ((ns div 86400000000000 + 4) mod 7)"

text \<open>Format with http.TimeFormat, and with the layout of milliseconds.\<close>

definition HttpDate :: "int \<Rightarrow> string" where
  "HttpDate ns =
    (let t = break_time ns in
     [''Sun'', ''Mon'', ''Tue'', ''Wed'', ''Thu'', ''Fri'', ''Sat''] ! weekday ns @ '', '' @ dec_pad 2 (cvDay t) @ '' '' @
     [''Jan'', ''Feb'', ''Mar'', ''Apr'', ''May'', ''Jun'', ''Jul'', ''Aug'', ''Sep'', ''Oct'', ''Nov'', ''Dec''] ! nat (cvMonth t - 1) @
     '' '' @ dec_pad 4 (cvYear t) @ '' '' @ dec_pad 2 (cvHour t) @ '':'' @ dec_pad 2 (cvMinute t) @ '':'' @ dec_pad 2 (cvSecond t) @ '' GMT'')"

definition IsoMillis :: "int \<Rightarrow> string" where
  "IsoMillis ns =
    (let t = break_time ns in
     dec_pad 4 (cvYear t) @ ''-'' @ dec_pad 2 (cvMonth t) @ ''-'' @ dec_pad 2 (cvDay t) @ ''T'' @
     dec_pad 2 (cvHour t) @ '':'' @ dec_pad 2 (cvMinute t) @ '':'' @ dec_pad 2 (cvSecond t) @ ''.'' @
     dec_pad 3 (ns div 1000000 mod 1000) @ ''Z'')"

lemma HttpDate_examples:
  "HttpDate 0 = ''Thu, 01 Jan 1970 00:00:00 GMT''"
  "HttpDate (951827696 * 1000000000) = ''Tue, 29 Feb 2000 12:34:56 GMT''"
  "IsoMillis (1767225599 * 1000000000 + 987654321) = ''2025-12-31T23:59:59.987Z''"
  by code_simp+

subsection \<open>Conditional requests\<close>

type_synonym time_parser = "string \<Rightarrow> int option"

definition trim_ws :: "string \<Rightarrow> string" where
  "trim_ws s = Trim s [CHR '' '', CHR 0x09, CHR 0x0A, CHR 0x0D]"

definition etag_byte :: "char \<Rightarrow> bool" where
  "etag_byte c \<longleftrightarrow> byte c = 0x21 \<or> 0x23 \<le> byte c \<and> byte c \<le> 0x7E \<or> 0x80 \<le> byte c"

definition quote :: char where "quote = CHR 0x22"

text \<open>scanETag: a weak or strong entity tag at the head of a string, and what follows it.\<close>

definition scanETag :: "string \<Rightarrow> (string \<times> string) option" where
  "scanETag s0 =
    (let s = trim_ws s0;
         p = (if HasPrefix s ''W/'' then 2 else 0);
         t = drop (p + 1) s;
         tag = takeWhile etag_byte t in
     if length s < p + 2 \<or> s ! p \<noteq> quote then None
     else case drop (length tag) t of
         [] \<Rightarrow> None
       | c # rest \<Rightarrow> if c = quote then Some (take (p + 1) s @ tag @ [quote], rest) else None)"

definition etagStrongMatch :: "string \<Rightarrow> string \<Rightarrow> bool" where
  "etagStrongMatch a b \<longleftrightarrow> a = b \<and> a \<noteq> [] \<and> hd a = quote"

definition etagWeakMatch :: "string \<Rightarrow> string \<Rightarrow> bool" where
  "etagWeakMatch a b \<longleftrightarrow> TrimPrefix a ''W/'' = TrimPrefix b ''W/''"

text \<open>The walk over a list of entity tags; a step drops at least one byte.\<close>

fun anyETag :: "nat \<Rightarrow> (string \<Rightarrow> bool) \<Rightarrow> string \<Rightarrow> bool" where
  "anyETag 0 ok s = False"
| "anyETag (Suc n) ok s =
    (case trim_ws s of
       [] \<Rightarrow> False
     | c # t \<Rightarrow>
       if c = CHR '','' then anyETag n ok t
       else if c = CHR ''*'' then True
       else case scanETag (c # t) of
           None \<Rightarrow> False
         | Some (etag, rest) \<Rightarrow> ok etag \<or> anyETag n ok rest)"

datatype condResult = condNone | condTrue | condFalse

definition checkIfMatch :: "header \<Rightarrow> header \<Rightarrow> condResult" where
  "checkIfMatch wh rh =
    (let im = HeaderGet rh ''If-Match'' in
     if im = [] then condNone
     else if anyETag (Suc (length im)) (\<lambda>e. etagStrongMatch e (HeaderGet wh ''Etag'')) im then condTrue else condFalse)"

definition checkIfNoneMatch :: "header \<Rightarrow> header \<Rightarrow> condResult" where
  "checkIfNoneMatch wh rh =
    (let inm = HeaderGet rh ''If-None-Match'' in
     if inm = [] then condNone
     else if anyETag (Suc (length inm)) (\<lambda>e. etagWeakMatch e (HeaderGet wh ''Etag'')) inm then condFalse else condTrue)"

definition seconds_floor :: "int \<Rightarrow> int" where
  "seconds_floor ns = ns div 1000000000 * 1000000000"

definition checkIfUnmodifiedSince :: "time_parser \<Rightarrow> header \<Rightarrow> int \<Rightarrow> condResult" where
  "checkIfUnmodifiedSince ParseTime rh modtime =
    (let ius = HeaderGet rh ''If-Unmodified-Since'' in
     if ius = [] \<or> modtime = 0 then condNone
     else case ParseTime ius of
         None \<Rightarrow> condNone
       | Some t \<Rightarrow> if seconds_floor modtime \<le> t then condTrue else condFalse)"

definition checkIfModifiedSince :: "time_parser \<Rightarrow> header \<Rightarrow> int \<Rightarrow> condResult" where
  "checkIfModifiedSince ParseTime rh modtime =
    (let ims = HeaderGet rh ''If-Modified-Since'' in
     if ims = [] \<or> modtime = 0 then condNone
     else case ParseTime ims of
         None \<Rightarrow> condNone
       | Some t \<Rightarrow> if seconds_floor modtime \<le> t then condFalse else condTrue)"

definition checkIfRange :: "time_parser \<Rightarrow> header \<Rightarrow> header \<Rightarrow> int \<Rightarrow> condResult" where
  "checkIfRange ParseTime wh rh modtime =
    (let ir = HeaderGet rh ''If-Range'' in
     if ir = [] then condNone
     else case scanETag ir of
         Some (etag, _) \<Rightarrow> if etagStrongMatch etag (HeaderGet wh ''Etag'') then condTrue else condFalse
       | None \<Rightarrow>
         (case ParseTime ir of
            None \<Rightarrow> condFalse
          | Some t \<Rightarrow> if modtime \<noteq> 0 \<and> t div 1000000000 = modtime div 1000000000 then condTrue else condFalse))"

text \<open>checkPreconditions for GET: the status that ends the request, or the Range header.\<close>

definition checkPreconditions :: "time_parser \<Rightarrow> header \<Rightarrow> header \<Rightarrow> int \<Rightarrow> nat + string" where
  "checkPreconditions ParseTime wh rh modtime =
    (let ch = (case checkIfMatch wh rh of condNone \<Rightarrow> checkIfUnmodifiedSince ParseTime rh modtime | c \<Rightarrow> c) in
     if ch = condFalse then Inl 412
     else if checkIfNoneMatch wh rh = condFalse then Inl 304
     else if checkIfNoneMatch wh rh = condNone \<and> checkIfModifiedSince ParseTime rh modtime = condFalse then Inl 304
     else
       let range = HeaderGet rh ''Range'' in
       Inr (if range \<noteq> [] \<and> checkIfRange ParseTime wh rh modtime = condFalse then [] else range))"

subsection \<open>Ranges\<close>

record httpRange =
  hrStart :: int
  hrLength :: int

text \<open>One element of a Range header; None in the result for a range past the end.\<close>

definition rangeSpec :: "int \<Rightarrow> string \<Rightarrow> unit + httpRange option" where
  "rangeSpec size' ra =
    (case CutByte CHR ''-'' ra of (a, b, found) \<Rightarrow>
     if \<not> found then Inl ()
     else
       let start = trim_ws a; end' = trim_ws b in
       if start = [] then
         (if end' = [] \<or> hd end' = CHR ''-'' then Inl ()
          else case ParseInt 10 end' of
            None \<Rightarrow> Inl ()
          | Some i \<Rightarrow> if i < 0 then Inl () else let i = min i size' in Inr (Some \<lparr>hrStart = size' - i, hrLength = i\<rparr>))
       else case ParseInt 10 start of
         None \<Rightarrow> Inl ()
       | Some i \<Rightarrow>
         if i < 0 then Inl ()
         else if i \<ge> size' then Inr None
         else if end' = [] then Inr (Some \<lparr>hrStart = i, hrLength = size' - i\<rparr>)
         else case ParseInt 10 end' of
           None \<Rightarrow> Inl ()
         | Some j \<Rightarrow> if i > j then Inl () else Inr (Some \<lparr>hrStart = i, hrLength = min j (size' - 1) - i + 1\<rparr>))"

fun rangeSpecs :: "int \<Rightarrow> string list \<Rightarrow> unit + bool \<times> httpRange list" where
  "rangeSpecs size' [] = Inr (False, [])"
| "rangeSpecs size' (ra # ras) =
    (if trim_ws ra = [] then rangeSpecs size' ras
     else bindE (rangeSpec size' (trim_ws ra)) (\<lambda>x.
       bindE (rangeSpecs size' ras) (\<lambda>(noOverlap, rs).
       Inr (case x of None \<Rightarrow> (True, rs) | Some r \<Rightarrow> (noOverlap, r # rs)))))"

datatype range_error = InvalidRange | NoOverlap

definition parseRanges :: "string \<Rightarrow> int \<Rightarrow> range_error + httpRange list" where
  "parseRanges s size' =
    (if s = [] then Inr []
     else if \<not> HasPrefix s ''bytes='' then Inl InvalidRange
     else case rangeSpecs size' (SplitByte CHR '','' (drop 6 s)) of
         Inl _ \<Rightarrow> Inl InvalidRange
       | Inr (noOverlap, rs) \<Rightarrow> if noOverlap \<and> rs = [] then Inl NoOverlap else Inr rs)"

definition contentRange :: "int \<Rightarrow> int \<Rightarrow> int \<Rightarrow> string" where
  "contentRange start len size' = ''bytes '' @ Itoa start @ ''-'' @ Itoa (start + len - 1) @ ''/'' @ Itoa size'"

definition slice :: "string \<Rightarrow> httpRange \<Rightarrow> string" where
  "slice d r = take (nat (hrLength r)) (drop (nat (hrStart r)) d)"

definition crlf :: string where "crlf = [CHR 0x0D, CHR 0x0A]"

definition multipartBody :: "string \<Rightarrow> string \<Rightarrow> string \<Rightarrow> httpRange list \<Rightarrow> string" where
  "multipartBody boundary ctype d rs =
    drop 2 (concat (map (\<lambda>r. crlf @ ''--'' @ boundary @ crlf @
        ''Content-Range: '' @ contentRange (hrStart r) (hrLength r) (int (length d)) @ crlf @
        ''Content-Type: '' @ ctype @ crlf @ crlf @ slice d r) rs) @ crlf @ ''--'' @ boundary @ ''--'' @ crlf)"

subsection \<open>ServeContent\<close>

definition serveError :: "header \<Rightarrow> string \<Rightarrow> nat \<Rightarrow> response" where
  "serveError h text' code =
    (let h = HeaderDel (HeaderDel (HeaderDel (HeaderDel h ''Cache-Control'') ''Content-Encoding'') ''Etag'') ''Last-Modified'';
         h = HeaderSet (HeaderSet (HeaderDel h ''Content-Length'') ''Content-Type'' ''text/plain; charset=utf-8'') ''X-Content-Type-Options'' ''nosniff'' in
     \<lparr>rpStatus = code, rpHeader = h, rpBody = RawBody (text' @ [lf])\<rparr>)"

definition writeNotModified :: "header \<Rightarrow> response" where
  "writeNotModified h =
    (let h = HeaderDel (HeaderDel (HeaderDel h ''Content-Type'') ''Content-Length'') ''Content-Encoding'' in
     \<lparr>rpStatus = 304, rpHeader = (if HeaderGet h ''Etag'' \<noteq> [] then HeaderDel h ''Last-Modified'' else h), rpBody = RawBody []\<rparr>)"

definition ServeContent :: "time_parser \<Rightarrow> string \<Rightarrow> header \<Rightarrow> header \<Rightarrow> int \<Rightarrow> string \<Rightarrow> response" where
  "ServeContent ParseTime boundary wh rh modtime d =
    (let h = (if modtime = 0 then wh else HeaderSet wh ''Last-Modified'' (HttpDate modtime));
         size' = int (length d) in
     case checkPreconditions ParseTime h rh modtime of
       Inl code \<Rightarrow> if code = 304 then writeNotModified h else \<lparr>rpStatus = code, rpHeader = h, rpBody = RawBody []\<rparr>
     | Inr rangeReq \<Rightarrow>
       (case (case parseRanges rangeReq size' of Inl NoOverlap \<Rightarrow> if size' = 0 then Inr [] else Inl NoOverlap | r \<Rightarrow> r) of
          Inl NoOverlap \<Rightarrow> serveError (HeaderSet h ''Content-Range'' (''bytes */'' @ Itoa size')) ''invalid range: failed to overlap'' 416
        | Inl InvalidRange \<Rightarrow> serveError h ''invalid range'' 416
        | Inr rs0 \<Rightarrow>
          let rs = (if sum_list (map hrLength rs0) > size' then [] else rs0);
              ctype = HeaderGet h ''Content-Type'' in
          (case (case rs of
                   [] \<Rightarrow> (200, h, d)
                 | [r] \<Rightarrow> (206, HeaderSet h ''Content-Range'' (contentRange (hrStart r) (hrLength r) size'), slice d r)
                 | _ \<Rightarrow> (206, HeaderSet h ''Content-Type'' (''multipart/byteranges; boundary='' @ boundary), multipartBody boundary ctype d rs)) of
             (code, h, body) \<Rightarrow>
             let h = HeaderSet h ''Accept-Ranges'' ''bytes'' in
             \<lparr>rpStatus = code,
              rpHeader = (if rs \<noteq> [] \<or> HeaderGet h ''Content-Encoding'' = [] then HeaderSet h ''Content-Length'' (Itoa (int (length body))) else h),
              rpBody = RawBody body\<rparr>)))"

end
