(* ===== verification/Object_Handlers.thy ===== *)
theory Object_Handlers
  imports Go_Http S3_Router Publication
begin

text \<open>
  internal/s3api/object_handlers.go and errors.go: the handlers that put, get, head, delete
  and copy an object, from the request and its verified body to the response. They run on
  the engine of Engine and Publication. The header a handler starts from and the request ID
  are the router's and are left out of the responses.
\<close>

subsection \<open>Errors\<close>

definition errorHTTPStatus :: "string \<Rightarrow> nat option" where
  "errorHTTPStatus = map_of
    [(''AccessDenied'', 403), (''AuthorizationHeaderMalformed'', 400), (''BadDigest'', 400), (''BadRequest'', 400),
     (''BucketAlreadyExists'', 409), (''BucketAlreadyOwnedByYou'', 409), (''BucketNotEmpty'', 409), (''EntityTooLarge'', 413),
     (''EntityTooSmall'', 400), (''IncompleteBody'', 400), (''InternalError'', 500), (''IllegalVersioningConfigurationException'', 400),
     (''InvalidAccessKeyId'', 403), (''KeyTooLongError'', 400), (''InvalidArgument'', 400), (''InvalidBucketName'', 400),
     (''InvalidDigest'', 400), (''InvalidPart'', 400), (''InvalidPartOrder'', 400), (''InvalidRange'', 416), (''InvalidRequest'', 400),
     (''MalformedXML'', 400), (''MaxMessageLengthExceeded'', 400), (''MethodNotAllowed'', 405), (''NoSuchBucket'', 404),
     (''NoSuchCORSConfiguration'', 404), (''NoSuchKey'', 404), (''NoSuchLifecycleConfiguration'', 404), (''NoSuchUpload'', 404),
     (''NoSuchVersion'', 404), (''NotImplemented'', 501), (''PreconditionFailed'', 412), (''RequestTimeTooSkewed'', 403),
     (''SignatureDoesNotMatch'', 403), (''TooManyRequests'', 429), (''XAmzContentSHA256Mismatch'', 400)]"

definition writeS3Error :: "header \<Rightarrow> string \<Rightarrow> string \<Rightarrow> string \<Rightarrow> response" where
  "writeS3Error h code message resource =
    \<lparr>rpStatus = (case errorHTTPStatus code of None \<Rightarrow> 500 | Some s \<Rightarrow> s),
     rpHeader = HeaderSet (HeaderDel (HeaderDel h ''Content-Length'') ''Content-Range'') ''Content-Type'' ''application/xml'',
     rpBody = ErrorDoc code message resource\<rparr>"

text \<open>Errors of the engine and, as S3Error, of the authentication layer.\<close>

definition handleStorageError :: "gerr \<Rightarrow> string \<Rightarrow> response" where
  "handleStorageError err resource =
    (case err of
       S3Error code msg \<Rightarrow> writeS3Error [] code msg resource
     | _ \<Rightarrow> writeS3Error [] ''InternalError'' ''We encountered an internal error. Please try again.'' resource)"

definition writeXML :: "nat \<Rightarrow> rbody \<Rightarrow> response" where
  "writeXML status v = \<lparr>rpStatus = status, rpHeader = [(''Content-Type'', ''application/xml'')], rpBody = v\<rparr>"

subsection \<open>Customer keys\<close>

type_synonym ssec_error = "string \<times> string"

definition b64_md5 :: "codec \<Rightarrow> string \<Rightarrow> string" where
  "b64_md5 cd key = b64_encode (cdMD5 cd key)"

definition buildSSECParams :: "codec \<Rightarrow> string \<Rightarrow> string \<Rightarrow> string \<Rightarrow> ssec_error + SSECParams" where
  "buildSSECParams cd algo keyB64 keyMD5B64 =
    (if keyB64 = [] then Inl (''MissingEncryptionKey'', ''The encryption key is missing'')
     else case b64_decode keyB64 of
       None \<Rightarrow> Inl (''InvalidEncryptionKey'', ''The encryption key is invalid'')
     | Some key \<Rightarrow>
       if length key \<noteq> 32 then Inl (''InvalidEncryptionKey'', ''The encryption key is invalid'')
       else if keyMD5B64 = [] then Inl (''MissingEncryptionKeyMD5'', ''The encryption key MD5 is missing'')
       else if keyMD5B64 \<noteq> b64_md5 cd key then Inl (''InvalidEncryptionKeyMD5'', ''The customer-provided encryption key MD5 does not match'')
       else Inr \<lparr>scAlgorithm = algo, scKey = key, scKeyMD5 = keyMD5B64\<rparr>)"

definition amzSSECAlgorithmHeader :: string where "amzSSECAlgorithmHeader = ''x-amz-server-side-encryption-customer-algorithm''"
definition amzSSECKeyHeader :: string where "amzSSECKeyHeader = ''x-amz-server-side-encryption-customer-key''"
definition amzSSECKeyMD5Header :: string where "amzSSECKeyMD5Header = ''x-amz-server-side-encryption-customer-key-MD5''"
definition amzVersionIDHeader :: string where "amzVersionIDHeader = ''x-amz-version-id''"
definition amzDeleteMarkerHeader :: string where "amzDeleteMarkerHeader = ''x-amz-delete-marker''"

text \<open>extractSSECParams, and extractCopySourceSSECParams with the names of its own headers.\<close>

definition ssecParamsFrom :: "codec \<Rightarrow> header \<Rightarrow> string \<Rightarrow> string \<Rightarrow> string \<Rightarrow> ssec_error + SSECParams option" where
  "ssecParamsFrom cd h algoName keyName md5Name =
    (let algo = HeaderGet h algoName in
     if algo = [] then Inr None
     else if algo \<noteq> ''AES256'' then Inl (''UnsupportedEncryptionAlgorithm'', ''The encryption algorithm specified is not supported'')
     else bindE (buildSSECParams cd algo (HeaderGet h keyName) (HeaderGet h md5Name)) (\<lambda>p. Inr (Some p)))"

definition extractSSECParams :: "codec \<Rightarrow> request \<Rightarrow> ssec_error + SSECParams option" where
  "extractSSECParams cd r = ssecParamsFrom cd (rqHeader r) amzSSECAlgorithmHeader amzSSECKeyHeader amzSSECKeyMD5Header"

definition extractCopySourceSSECParams :: "codec \<Rightarrow> request \<Rightarrow> ssec_error + SSECParams option" where
  "extractCopySourceSSECParams cd r = ssecParamsFrom cd (rqHeader r)
    ''x-amz-copy-source-server-side-encryption-customer-algorithm''
    ''x-amz-copy-source-server-side-encryption-customer-key''
    ''x-amz-copy-source-server-side-encryption-customer-key-MD5''"

text \<open>The error is cut back into its code and its message.\<close>

definition writeSSECError :: "ssec_error \<Rightarrow> string \<Rightarrow> response" where
  "writeSSECError e resource = writeS3Error [] (fst e) (snd e) resource"

definition setSSECResponseHeaders :: "header \<Rightarrow> ObjectInfo \<Rightarrow> header" where
  "setSSECResponseHeaders h info =
    (if oiSSECustomerAlgorithm info \<noteq> []
     then HeaderSet (HeaderSet h amzSSECAlgorithmHeader (oiSSECustomerAlgorithm info)) amzSSECKeyMD5Header (oiSSECustomerKeyMD5 info)
     else h)"

definition setVersionID :: "header \<Rightarrow> ObjectInfo \<Rightarrow> header" where
  "setVersionID h info = (if oiVersionID info \<noteq> [] then HeaderSet h amzVersionIDHeader (oiVersionID info) else h)"

definition quoted :: "string \<Rightarrow> string" where
  "quoted s = quote # s @ [quote]"

definition objectResource :: "string \<Rightarrow> string \<Rightarrow> string" where
  "objectResource bucket key = CHR ''/'' # bucket @ CHR ''/'' # key"

subsection \<open>The body of an upload\<close>

text \<open>What reading a body to its end gives: its bytes, and the error it fails with.\<close>

type_synonym body_stream = "string \<times> gerr option"

definition streamBody :: "string \<times> ioerr \<Rightarrow> body_stream" where
  "streamBody s = (case s of
     (d, EOF) \<Rightarrow> (d, None)
   | (d, IOErr (AuthError code msg)) \<Rightarrow> (d, Some (S3Error code msg))
   | (d, IOErr (AErr msg)) \<Rightarrow> (d, Some (ErrText msg)))"

definition verifyStream :: "(string \<Rightarrow> string) \<Rightarrow> string \<Rightarrow> gerr \<Rightarrow> body_stream \<Rightarrow> body_stream" where
  "verifyStream digest want mismatch s =
    (case s of (d, err) \<Rightarrow> (d, if err = None \<and> digest d \<noteq> want then Some mismatch else err))"

definition ChecksumNames :: "string list" where
  "ChecksumNames = [''x-amz-checksum-crc32'', ''x-amz-checksum-crc32c'', ''x-amz-checksum-crc64nvme'', ''x-amz-checksum-sha1'', ''x-amz-checksum-sha256'']"

fun verifyChecksums :: "crypto \<Rightarrow> header \<Rightarrow> string list \<Rightarrow> body_stream \<Rightarrow> gerr + body_stream" where
  "verifyChecksums cy h [] s = Inr s"
| "verifyChecksums cy h (name # names) s =
    (let raw = HeaderGet h name in
     if raw = [] then verifyChecksums cy h names s
     else case NewChecksum name of
       None \<Rightarrow> Inl (ErrText ''unknown checksum'')
     | Some alg \<Rightarrow>
       (case DecodeExpected raw alg of
          None \<Rightarrow> Inl (S3Error ''InvalidRequest'' (''Value for '' @ name @ '' header is invalid.''))
        | Some want \<Rightarrow> verifyChecksums cy h names (verifyStream (cySum cy alg) want
            (S3Error ''BadDigest'' (''The '' @ name @ '' you specified did not match the calculated checksum.'')) s)))"

definition verifiedBodyReader :: "crypto \<Rightarrow> codec \<Rightarrow> request \<Rightarrow> body_stream \<Rightarrow> gerr + body_stream" where
  "verifiedBodyReader cy cd r body =
    (let raw = HeaderGet (rqHeader r) ''Content-MD5'' in
     bindE (if raw = [] then Inr body
            else case b64_decode raw of
              None \<Rightarrow> Inl (S3Error ''InvalidDigest'' ''The Content-MD5 you specified is not valid.'')
            | Some want \<Rightarrow>
              if length want \<noteq> 16 then Inl (S3Error ''InvalidDigest'' ''The Content-MD5 you specified is not valid.'')
              else Inr (verifyStream (cdMD5 cd) want (S3Error ''BadDigest'' ''The Content-MD5 you specified did not match what we received.'') body))
       (verifyChecksums cy (rqHeader r) ChecksumNames))"

text \<open>errors.As on the error of a write: an engine that could not read the body to its end
  returns the body's error, wrapped.\<close>

definition unwrapWrite :: "int \<Rightarrow> body_stream \<Rightarrow> gerr \<Rightarrow> gerr" where
  "unwrapWrite maxObjectSize body x =
    (case body of (d, err) \<Rightarrow>
     case err of None \<Rightarrow> x
     | Some y \<Rightarrow>
       let rd = \<lparr>rdData = d, rdFails = True\<rparr> in
       if x = ErrText ''failed to write object data'' \<and> rdFails (if maxObjectSize > 0 then limitReader rd (int64 (maxObjectSize + 1)) else rd)
       then y else x)"

text \<open>The length the body has after its authentication; for aws-chunked the declared one.\<close>

definition bodyLength :: "request \<Rightarrow> sbody \<Rightarrow> int" where
  "bodyLength r b = (case b of Stream (VChunked c) \<Rightarrow> crDeclaredLen c | _ \<Rightarrow> rqContentLength r)"

subsection \<open>PutObject\<close>

definition servePutObject ::
  "'b bolt \<Rightarrow> crypto \<Rightarrow> codec \<Rightarrow> env \<Rightarrow> request \<Rightarrow> string \<times> ioerr \<Rightarrow> int \<Rightarrow> string \<Rightarrow> string \<Rightarrow> 'b engine \<Rightarrow> response \<times> 'b engine" where
  "servePutObject B cy cd ev r stream size' bucket key e =
    (let ct = HeaderGet (rqHeader r) ''Content-Type'';
         contentType = (if ct = [] then ''application/octet-stream'' else ct);
         resource = objectResource bucket key in
     case extractSSECParams cd r of
       Inl x \<Rightarrow> (writeSSECError x resource, e)
     | Inr params \<Rightarrow>
     (case verifiedBodyReader cy cd r (streamBody stream) of
       Inl x \<Rightarrow> (handleStorageError x resource, e)
     | Inr body \<Rightarrow>
     (case PutObject B cd ev params bucket key \<lparr>rdData = fst body, rdFails = snd body \<noteq> None\<rparr> size' contentType e of
       (Inl x, e') \<Rightarrow> (handleStorageError (unwrapWrite (egMaxObjectSize e) body x) resource, e')
     | (Inr info, e') \<Rightarrow>
         (\<lparr>rpStatus = 200,
           rpHeader = setSSECResponseHeaders (setVersionID (HeaderSet [] ''ETag'' (quoted (oiETag info))) info) info,
           rpBody = RawBody []\<rparr>, e'))))"

subsection \<open>GetObject and HeadObject\<close>

definition writeObjectHeaders :: "ObjectInfo \<Rightarrow> header" where
  "writeObjectHeaders info =
    (let h = HeaderSet [] ''Content-Type'' (oiContentType info);
         h = HeaderSet h ''Content-Length'' (Itoa (oiSize info));
         h = HeaderSet h ''ETag'' (quoted (oiETag info));
         h = HeaderSet h ''Last-Modified'' (HttpDate (oiLastModified info));
         h = HeaderSet h ''Accept-Ranges'' ''bytes'';
         h = setSSECResponseHeaders (setVersionID h info) info in
     HeaderSet h ''X-Content-Type-Options'' ''nosniff'')"

definition preconditionsHold :: "header \<Rightarrow> request \<Rightarrow> ObjectInfo \<Rightarrow> string \<Rightarrow> response option" where
  "preconditionsHold h r info resource =
    (let quotedETag = quoted (oiETag info);
         ifMatch = HeaderGet (rqHeader r) ''If-Match'';
         ifNoneMatch = HeaderGet (rqHeader r) ''If-None-Match'' in
     if ifMatch \<noteq> [] \<and> ifMatch \<noteq> ''*'' \<and> ifMatch \<noteq> oiETag info \<and> ifMatch \<noteq> quotedETag
     then Some (writeS3Error h ''PreconditionFailed'' ''At least one of the pre-conditions you specified did not hold'' resource)
     else if ifNoneMatch \<noteq> [] \<and> (ifNoneMatch = ''*'' \<or> ifNoneMatch = oiETag info \<or> ifNoneMatch = quotedETag)
     then Some \<lparr>rpStatus = 304, rpHeader = h, rpBody = RawBody []\<rparr>
     else None)"

definition responseOverrides :: "(string \<times> string) list" where
  "responseOverrides =
    [(''response-content-disposition'', ''Content-Disposition''), (''response-content-type'', ''Content-Type''),
     (''response-content-language'', ''Content-Language''), (''response-content-encoding'', ''Content-Encoding''),
     (''response-cache-control'', ''Cache-Control''), (''response-expires'', ''Expires'')]"

definition applyResponseHeaderOverrides :: "url_values \<Rightarrow> header \<Rightarrow> header" where
  "applyResponseHeaderOverrides query h =
    fold (\<lambda>(param, name) h. let v = ValuesGet query param in if v \<noteq> [] then HeaderSet h name v else h) responseOverrides h"

definition parseRange :: "string \<Rightarrow> int \<Rightarrow> unit + httpRange list" where
  "parseRange s size' =
    (if s = [] then Inr []
     else if \<not> HasPrefix s ''bytes='' then Inl ()
     else case SplitByte CHR ''-'' (drop 6 s) of
       [a, b] \<Rightarrow>
         bindE (if a = [] then
                  (case ParseInt 10 b of
                     None \<Rightarrow> Inl ()
                   | Some n \<Rightarrow> if n \<le> 0 then Inl () else Inr (max 0 (size' - n), size' - 1))
                else case ParseInt 10 a of
                    None \<Rightarrow> Inl ()
                  | Some start \<Rightarrow>
                    if start < 0 then Inl ()
                    else if b = [] then Inr (start, size' - 1)
                    else case ParseInt 10 b of
                        None \<Rightarrow> Inl ()
                      | Some end' \<Rightarrow> if end' < start then Inl () else Inr (start, if end' \<ge> size' then size' - 1 else end'))
           (\<lambda>(start, end'). if start \<ge> size' then Inl () else Inr [\<lparr>hrStart = start, hrLength = end' - start + 1\<rparr>])
     | _ \<Rightarrow> Inl ())"

text \<open>The answer for a reader that cannot seek: the bytes before the range are discarded.\<close>

definition serveStream :: "header \<Rightarrow> request \<Rightarrow> ObjectInfo \<Rightarrow> string \<Rightarrow> string \<Rightarrow> response" where
  "serveStream h r info d resource =
    (let whole = \<lparr>rpStatus = 200, rpHeader = h, rpBody = RawBody d\<rparr>; range = HeaderGet (rqHeader r) ''Range'' in
     if range = [] then whole
     else case parseRange range (oiSize info) of
       Inl _ \<Rightarrow> writeS3Error h ''InvalidRange'' ''The requested range is not satisfiable'' resource
     | Inr [ra] \<Rightarrow>
         \<lparr>rpStatus = 206,
          rpHeader = HeaderSet (HeaderSet h ''Content-Range'' (contentRange (hrStart ra) (hrLength ra) (oiSize info)))
            ''Content-Length'' (Itoa (hrLength ra)),
          rpBody = RawBody (slice d ra)\<rparr>
     | Inr _ \<Rightarrow> whole)"

definition markerError :: "string \<Rightarrow> gerr \<times> ObjectInfo option \<Rightarrow> response" where
  "markerError resource x =
    (case x of
       (_, Some info) \<Rightarrow>
         if oiIsDeleteMarker info
         then writeS3Error (HeaderSet (HeaderSet [] amzDeleteMarkerHeader ''true'') amzVersionIDHeader (oiVersionID info))
           ''NoSuchKey'' ''The specified key does not exist.'' resource
         else handleStorageError (fst x) resource
     | (err, None) \<Rightarrow> handleStorageError err resource)"

text \<open>An opened object: its bytes, whether they can be sought, and its record.\<close>

definition serveObject ::
  "time_parser \<Rightarrow> string \<Rightarrow> request \<Rightarrow> bool \<Rightarrow> string \<Rightarrow> string \<times> reader_kind \<times> ObjectInfo \<Rightarrow> response" where
  "serveObject ParseTime boundary r publicRead resource x =
    (case x of (d, kind, info) \<Rightarrow>
     let h = writeObjectHeaders info;
         h = (if publicRead then h else applyResponseHeaderOverrides (requestQuery r) h) in
     case preconditionsHold h r info resource of
       Some resp \<Rightarrow> resp
     | None \<Rightarrow>
         if kind \<noteq> StreamReader then ServeContent ParseTime boundary h (rqHeader r) (oiLastModified info) d
         else serveStream h r info d resource)"

definition serveGetObject ::
  "'b bolt \<Rightarrow> codec \<Rightarrow> env \<Rightarrow> time_parser \<Rightarrow> string \<Rightarrow> request \<Rightarrow> bool \<Rightarrow> string \<Rightarrow> string \<Rightarrow> 'b engine \<Rightarrow> response \<times> 'b engine" where
  "serveGetObject B cd ev ParseTime boundary r publicRead bucket key e =
    (let resource = objectResource bucket key; versionID = ValuesGet (requestQuery r) ''versionId'' in
     case extractSSECParams cd r of
       Inl x \<Rightarrow> (writeSSECError x resource, e)
     | Inr params \<Rightarrow>
     (case GetObject B cd ev params bucket key versionID e of
       (Inl x, e') \<Rightarrow> (markerError resource x, e')
     | (Inr x, e') \<Rightarrow> (serveObject ParseTime boundary r publicRead resource x, e')))"

definition serveHeadObject ::
  "'b bolt \<Rightarrow> codec \<Rightarrow> request \<Rightarrow> string \<Rightarrow> string \<Rightarrow> 'b engine \<Rightarrow> response \<times> 'b engine" where
  "serveHeadObject B cd r bucket key e =
    (let resource = objectResource bucket key; versionID = ValuesGet (requestQuery r) ''versionId'' in
     case extractSSECParams cd r of
       Inl x \<Rightarrow> (writeSSECError x resource, e)
     | Inr params \<Rightarrow>
     (case HeadObject B params bucket key versionID e of
       (Inl x, e') \<Rightarrow> (markerError resource x, e')
     | (Inr info, e') \<Rightarrow>
         let h = writeObjectHeaders info in
         (case preconditionsHold h r info resource of
            Some resp \<Rightarrow> resp
          | None \<Rightarrow> \<lparr>rpStatus = 200, rpHeader = h, rpBody = RawBody []\<rparr>, e')))"

subsection \<open>DeleteObject and CopyObject\<close>

definition serveDeleteObject :: "'b bolt \<Rightarrow> env \<Rightarrow> request \<Rightarrow> string \<Rightarrow> string \<Rightarrow> 'b engine \<Rightarrow> response \<times> 'b engine" where
  "serveDeleteObject B ev r bucket key e =
    (let versionID = ValuesGet (requestQuery r) ''versionId'' in
     case DeleteObject B ev bucket key versionID e of
       (Inl x, e') \<Rightarrow> (handleStorageError x (objectResource bucket key), e')
     | (Inr (isDeleteMarker, delVersionID), e') \<Rightarrow>
         (\<lparr>rpStatus = 204,
           rpHeader = (if versionID = [] \<and> isDeleteMarker then
               (let h = HeaderSet [] amzDeleteMarkerHeader ''true'' in
                if delVersionID \<noteq> [] then HeaderSet h amzVersionIDHeader delVersionID else h)
             else if versionID \<noteq> [] then HeaderSet [] amzVersionIDHeader versionID
             else []),
           rpBody = RawBody []\<rparr>, e'))"

text \<open>strings.LastIndex: where the last occurrence begins.\<close>

fun LastIndex :: "string \<Rightarrow> string \<Rightarrow> nat option" where
  "LastIndex [] p = (if p = [] then Some 0 else None)"
| "LastIndex (c # s) p =
    (case LastIndex s p of
       Some i \<Rightarrow> Some (Suc i)
     | None \<Rightarrow> if HasPrefix (c # s) p then Some 0 else None)"

definition versionSelector :: string where "versionSelector = ''?versionId=''"

definition parseCopySource :: "string \<Rightarrow> string + CopySource" where
  "parseCopySource raw =
    (if raw = [] then Inl ''x-amz-copy-source is required''
     else
       let value = TrimPrefix raw ''/'';
           (value, versionID) = (case LastIndex value versionSelector of
               None \<Rightarrow> (value, [])
             | Some idx \<Rightarrow> (take idx value, drop (idx + length versionSelector) value)) in
       case CutByte CHR ''/'' value of (bucket, encodedKey, found) \<Rightarrow>
       if \<not> found \<or> bucket = [] \<or> encodedKey = [] then Inl ''invalid copy source''
       else case url_unescape False encodedKey of
           None \<Rightarrow> Inl ''invalid copy source encoding''
         | Some key \<Rightarrow> Inr \<lparr>csBucket = bucket, csKey = key, csVersionID = versionID, csSSEC = None\<rparr>)"

definition serveCopyObject :: "'b bolt \<Rightarrow> codec \<Rightarrow> env \<Rightarrow> request \<Rightarrow> string \<Rightarrow> string \<Rightarrow> 'b engine \<Rightarrow> response \<times> 'b engine" where
  "serveCopyObject B cd ev r bucket key e =
    (let resource = objectResource bucket key in
     case parseCopySource (copySourceHeader r) of
       Inl msg \<Rightarrow> (writeS3Error [] ''InvalidArgument'' msg resource, e)
     | Inr src \<Rightarrow>
     (case extractCopySourceSSECParams cd r of
       Inl x \<Rightarrow> (writeSSECError x resource, e)
     | Inr srcParams \<Rightarrow>
     (case extractSSECParams cd r of
       Inl x \<Rightarrow> (writeSSECError x resource, e)
     | Inr dstParams \<Rightarrow>
     (case CopyObject B cd ev dstParams (src\<lparr>csSSEC := srcParams\<rparr>) bucket key e of
       (Inl x, e') \<Rightarrow> (handleStorageError x resource, e')
     | (Inr info, e') \<Rightarrow> (writeXML 200 (CopyObjectResult (IsoMillis (oiLastModified info)) (quoted (oiETag info))), e')))))"

end
