(* ===== verification/Handler_Props.thy ===== *)
theory Handler_Props
  imports Object_Handlers Engine_Props Presign_Props
begin

text \<open>
  Properties of the object handlers: an upload is stored only if it matches its declared
  digests, what was stored is what a GET answers, whole or in ranges and whatever reader is
  behind it, an encrypted object needs its key, and a copy source reads back.
\<close>

subsection \<open>Headers and errors\<close>

lemma ValuesGet_Set [simp]: "ValuesGet (ValuesSet h n v) m = (if m = n then v else ValuesGet h m)"
proof -
  have a: "filter (\<lambda>p. fst p = m) (ValuesDel h n) = (if m = n then [] else filter (\<lambda>p. fst p = m) h)"
    by (induction h) (auto simp: ValuesDel_def)
  have "filter (\<lambda>p. fst p = m) (ValuesSet h n v) = (if m = n then [(n, v)] else filter (\<lambda>p. fst p = m) h)"
    by (simp add: ValuesSet_def a)
  then show ?thesis by (simp add: ValuesGet_def)
qed

lemma ValuesGet_Del [simp]: "ValuesGet (ValuesDel h n) m = (if m = n then [] else ValuesGet h m)"
proof -
  have "filter (\<lambda>p. fst p = m) (ValuesDel h n) = (if m = n then [] else filter (\<lambda>p. fst p = m) h)"
    by (induction h) (auto simp: ValuesDel_def)
  then show ?thesis by (simp add: ValuesGet_def)
qed

lemma HeaderGet_Set: "HeaderGet (HeaderSet h n v) m = (if CanonicalMIMEHeaderKey m = CanonicalMIMEHeaderKey n then v else HeaderGet h m)"
  by (simp add: HeaderGet_def HeaderSet_def)

text \<open>The canonical names of the headers the handlers set.\<close>

lemma header_names [simp]:
  "CanonicalMIMEHeaderKey ''ETag'' = ''Etag''" "CanonicalMIMEHeaderKey ''Etag'' = ''Etag''"
  "CanonicalMIMEHeaderKey ''Content-Type'' = ''Content-Type''" "CanonicalMIMEHeaderKey ''Content-Length'' = ''Content-Length''"
  "CanonicalMIMEHeaderKey ''Content-Range'' = ''Content-Range''" "CanonicalMIMEHeaderKey ''Last-Modified'' = ''Last-Modified''"
  "CanonicalMIMEHeaderKey ''Accept-Ranges'' = ''Accept-Ranges''" "CanonicalMIMEHeaderKey ''X-Content-Type-Options'' = ''X-Content-Type-Options''"
  "CanonicalMIMEHeaderKey ''Content-Disposition'' = ''Content-Disposition''" "CanonicalMIMEHeaderKey ''Content-Language'' = ''Content-Language''"
  "CanonicalMIMEHeaderKey ''Content-Encoding'' = ''Content-Encoding''" "CanonicalMIMEHeaderKey ''Cache-Control'' = ''Cache-Control''"
  "CanonicalMIMEHeaderKey ''Expires'' = ''Expires''"
  "CanonicalMIMEHeaderKey amzVersionIDHeader = ''X-Amz-Version-Id''"
  "CanonicalMIMEHeaderKey amzSSECAlgorithmHeader = ''X-Amz-Server-Side-Encryption-Customer-Algorithm''"
  "CanonicalMIMEHeaderKey amzSSECKeyMD5Header = ''X-Amz-Server-Side-Encryption-Customer-Key-Md5''"
  by code_simp+

lemma object_headers:
  "HeaderGet (writeObjectHeaders info) ''Etag'' = quoted (oiETag info)"
  "HeaderGet (writeObjectHeaders info) ''Content-Length'' = Itoa (oiSize info)"
  by (simp_all add: writeObjectHeaders_def Let_def setSSECResponseHeaders_def setVersionID_def HeaderGet_Set)

lemma override_other:
  "m \<notin> set (map snd responseOverrides) \<Longrightarrow> CanonicalMIMEHeaderKey m = m \<Longrightarrow>
   HeaderGet (applyResponseHeaderOverrides q h) m = HeaderGet h m"
  by (simp add: applyResponseHeaderOverrides_def responseOverrides_def Let_def HeaderGet_Set)

lemma override_headers:
  "HeaderGet (applyResponseHeaderOverrides q h) ''Etag'' = HeaderGet h ''Etag''"
  "HeaderGet (applyResponseHeaderOverrides q h) ''Content-Length'' = HeaderGet h ''Content-Length''"
  "HeaderGet (applyResponseHeaderOverrides q h) ''Content-Range'' = HeaderGet h ''Content-Range''"
  by (rule override_other; simp add: responseOverrides_def)+

lemma errorHTTPStatus_error: "errorHTTPStatus c = Some s \<Longrightarrow> 400 \<le> s"
  by (auto simp: errorHTTPStatus_def split: if_splits)

lemma error_status: "400 \<le> rpStatus (writeS3Error h c m res)" "400 \<le> rpStatus (handleStorageError x res)"
    "400 \<le> rpStatus (writeSSECError y res)" "400 \<le> rpStatus (markerError res z)"
proof -
  show w: "400 \<le> rpStatus (writeS3Error h c m res)" for h c m
    using errorHTTPStatus_error by (auto simp: writeS3Error_def split: option.split)
  show s: "400 \<le> rpStatus (handleStorageError x res)" for x
    using w by (simp add: handleStorageError_def split: gerr.split)
  show "400 \<le> rpStatus (writeSSECError y res)" using w by (simp add: writeSSECError_def)
  show "400 \<le> rpStatus (markerError res z)" using w s by (auto simp: markerError_def split: prod.split option.split)
qed

subsection \<open>Declared digests\<close>

text \<open>The body arrived whole, and every digest the request declares is that of its bytes.\<close>

definition intact :: "crypto \<Rightarrow> codec \<Rightarrow> header \<Rightarrow> string \<times> ioerr \<Rightarrow> bool" where
  "intact cy cd h stream \<longleftrightarrow> snd stream = EOF \<and>
    (HeaderGet h ''Content-MD5'' \<noteq> [] \<longrightarrow> b64_decode (HeaderGet h ''Content-MD5'') = Some (cdMD5 cd (fst stream)) \<and> length (cdMD5 cd (fst stream)) = 16) \<and>
    (\<forall>name\<in>set ChecksumNames. HeaderGet h name \<noteq> [] \<longrightarrow>
      (case NewChecksum name of None \<Rightarrow> False | Some alg \<Rightarrow> DecodeExpected (HeaderGet h name) alg = Some (cySum cy alg (fst stream))))"

lemma verifyStream_None: "snd (verifyStream f w m s) = None \<longleftrightarrow> snd s = None \<and> f (fst s) = w"
  by (cases s) (auto simp: verifyStream_def)

lemma verifyStream_fst [simp]: "fst (verifyStream f w m s) = fst s"
  by (cases s) (auto simp: verifyStream_def)

lemma verifyChecksums_ok:
  "(case verifyChecksums cy h names s of Inl _ \<Rightarrow> False | Inr s' \<Rightarrow> snd s' = None) \<longleftrightarrow>
     snd s = None \<and> (\<forall>name\<in>set names. HeaderGet h name \<noteq> [] \<longrightarrow>
      (case NewChecksum name of None \<Rightarrow> False | Some alg \<Rightarrow> DecodeExpected (HeaderGet h name) alg = Some (cySum cy alg (fst s))))"
  by (induction names arbitrary: s) (auto simp: Let_def verifyStream_None split: option.split)

lemma verifyChecksums_fst: "verifyChecksums cy h names s = Inr s' \<Longrightarrow> fst s' = fst s"
  by (induction names arbitrary: s) (auto simp: Let_def split: if_splits option.splits)

lemma verifiedBodyReader_fst: "verifiedBodyReader cy cd r s = Inr s' \<Longrightarrow> fst s' = fst s"
  by (cases s) (auto simp: verifiedBodyReader_def verifyStream_def Let_def bindE_Inr_iff split: if_splits option.splits dest!: verifyChecksums_fst)

lemma streamBody_sel: "fst (streamBody s) = fst s" "snd (streamBody s) = None \<longleftrightarrow> snd s = EOF"
  by (cases s; auto simp: streamBody_def split: ioerr.split aerr.split)+

lemma verifiedBodyReader_intact:
  "(case verifiedBodyReader cy cd r (streamBody s) of Inl _ \<Rightarrow> False | Inr s' \<Rightarrow> snd s' = None) \<longleftrightarrow> intact cy cd (rqHeader r) s"
proof -
  let ?h = "rqHeader r" and ?b = "streamBody s"
  let ?raw = "HeaderGet ?h ''Content-MD5''"
  note V = verifyChecksums_ok [of cy ?h ChecksumNames]
  show ?thesis
  proof (cases "?raw = []")
    case True
    then show ?thesis using V [of ?b] by (simp add: verifiedBodyReader_def intact_def streamBody_sel cong: option.case_cong)
  next
    case False
    show ?thesis
    proof (cases "b64_decode ?raw")
      case None
      with False show ?thesis by (simp add: verifiedBodyReader_def intact_def)
    next
      case (Some want)
      show ?thesis
      proof (cases "length want = 16")
        case True
        with False Some V show ?thesis by (auto simp: verifiedBodyReader_def intact_def streamBody_sel verifyStream_None cong: option.case_cong)
      next
        case l: False
        with False Some show ?thesis by (auto simp: verifiedBodyReader_def intact_def)
      qed
    qed
  qed
qed

subsection \<open>A damaged upload\<close>

text \<open>What a PutObject that stops before its commit leaves.\<close>

definition kept :: "'b engine \<Rightarrow> 'b engine \<Rightarrow> bool" where
  "kept e e' \<longleftrightarrow> egFiles e' = egFiles e \<and> msDbs (egMeta e') = msDbs (egMeta e) \<and> egMaxObjectSize e' = egMaxObjectSize e \<and> egDataDir e' = egDataDir e"

lemma kept_meta:
  assumes "\<And>m. msDbs (snd (f m)) = msDbs m"
  shows "trip (kept e) (metaM f) (\<lambda>_. kept e) (\<lambda>_. kept e)"
proof (rule trip_meta)
  fix e1 r m assume h: "kept e e1" "f (egMeta e1) = (r, m)"
  have "msDbs m = msDbs (egMeta e1)" using assms [of "egMeta e1"] h(2) by simp
  with h(1) show "(case r of Inl x \<Rightarrow> kept e | Inr a \<Rightarrow> kept e) (snapshot (e1\<lparr>egMeta := m\<rparr>))"
    by (cases r) (simp_all add: kept_def)
qed

lemma prepare_kept:
  assumes "\<And>x. writeObjectData cd ev (egMaxObjectSize e) ssec rd size' ct \<noteq> Inr x"
  shows "trip (kept e) (preparePut B cd ev ssec b k rd size' ct) (\<lambda>_ _. False) (\<lambda>_. kept e)"
proof (cases "hasPathTraversal k \<or> hasPathTraversal b")
  case True
  then show ?thesis by (simp add: preparePut_def trip_def failM_def)
next
  case False
  have l: "trip (kept e) (liftM r) (\<lambda>_. kept e) (\<lambda>_. kept e)" for r :: "'c result"
    by (auto simp: trip_def liftM_def split: sum.split)
  have m: "trip (kept e) (\<lambda>e. if egMaxObjectSize e > 0 \<and> size' > egMaxObjectSize e then failM ErrEntityTooLarge e else retM () e) (\<lambda>_. kept e) (\<lambda>_. kept e)"
    by (auto simp: trip_def failM_def retM_def)
  have p: "trip (kept e) (\<lambda>e. case objectPathWithVersion (egDataDir e) b k w of
       Inl _ \<Rightarrow> failM (S3Error ''InvalidArgument'' errInvalidKeyTraversal) e | Inr _ \<Rightarrow> retM () e) (\<lambda>_. kept e) (\<lambda>_. kept e)" for w
    by (auto simp: trip_def failM_def retM_def split: sum.split)
  have n: "trip (kept e) (\<lambda>e. liftM (newBlob (egDataDir e) b (evBlobRnd ev) mk) e) (\<lambda>_. kept e) (\<lambda>_. kept e)" for mk
    by (auto simp: trip_def liftM_def split: sum.split)
  have w: "trip (kept e) (case q of (x, p) \<Rightarrow> opM (\<lambda>e. liftM (writeObjectData cd ev (egMaxObjectSize e) ssec rd size' ct) e) (\<lambda>w. retM (x, p, w)))
      (\<lambda>_ _. False) (\<lambda>_. kept e)" for q
    using assms by (auto simp: trip_def liftM_def opM_def retM_def kept_def split: prod.splits sum.splits)
  have v: "trip (kept e) (metaM (\<lambda>m. GetBucketVersioning B m b)) (\<lambda>_. kept e) (\<lambda>_. kept e)"
    by (rule kept_meta) (simp add: GetBucketVersioning_def getCached_dbs)
  show ?thesis
    unfolding preparePut_def if_not_P [OF False]
    by (rule trip_op [OF l trip_op [OF l trip_op [OF m trip_op [OF kept_meta [OF bucketMustExist_dbs] trip_op [OF v trip_op [OF p trip_op [OF n w]]]]]]])
qed

lemma failing_body_unwritten:
  assumes "mx < 2 ^ 63 - 1"
  shows "writeObjectData cd ev mx ssec \<lparr>rdData = d, rdFails = True\<rparr> size' ct \<noteq> Inr x"
proof (cases "mx > 0 \<and> mx + 1 \<le> int (length d)")
  case True
  then have "int64 (mx + 1) = mx + 1" using assms by (simp add: int64_id)
  with True show ?thesis by (auto simp: writeObjectData_def Let_def limitReader_def)
next
  case False
  then have "mx > 0 \<Longrightarrow> int64 (mx + 1) = mx + 1" using assms by (simp add: int64_id)
  with False show ?thesis by (auto simp: writeObjectData_def Let_def limitReader_def)
qed

lemma failing_put:
  assumes "egMaxObjectSize e < 2 ^ 63 - 1"
    and "PutObject B cd ev ssec b k \<lparr>rdData = d, rdFails = True\<rparr> size' ct e = (r, e')"
  shows "\<not> is_ok r \<and> kept e e'"
proof -
  have "trip (kept e) (PutObject B cd ev ssec b k \<lparr>rdData = d, rdFails = True\<rparr> size' ct) (\<lambda>_ _. False) (\<lambda>_. kept e)"
    unfolding PutObject_def
    by (rule trip_op [OF prepare_kept]) (auto simp: trip_def failing_body_unwritten [OF assms(1)])
  moreover have "kept e e" by (simp add: kept_def)
  ultimately show ?thesis using assms(2) by (cases r) (auto simp: trip_def)
qed


text \<open>The parameters a request's headers give are text.\<close>

lemma b64_utf8: "utf8_valid (b64_encode s)"
proof (rule utf8_ascii, rule ballI)
  fix c assume "c \<in> set (b64_encode s)"
  then have "c \<in> insert CHR ''='' (set b64_alphabet)" using b64_set by blast
  moreover have "\<forall>c\<in>insert CHR ''='' (set b64_alphabet). byte c < 128" by code_simp
  ultimately show "byte c < 128" by blast
qed

lemma extracted_params:
  "extractSSECParams cd r = Inr (Some p) \<Longrightarrow> scAlgorithm p = ''AES256'' \<and> length (scKey p) = 32 \<and> scKeyMD5 p = b64_md5 cd (scKey p) \<and>
     scKeyMD5 p = HeaderGet (rqHeader r) amzSSECKeyMD5Header \<and> b64_decode (HeaderGet (rqHeader r) amzSSECKeyHeader) = Some (scKey p)"
  by (auto simp: extractSSECParams_def ssecParamsFrom_def buildSSECParams_def Let_def bindE_Inr_iff split: if_splits option.splits)

lemma extracted_ok:
  assumes "extractSSECParams cd r = Inr params" "utf8_valid key" "utf8_valid ct"
  shows "req_ok params key ct"
proof -
  have "utf8_valid (scAlgorithm p) \<and> utf8_valid (scKeyMD5 p) \<and> scAlgorithm p \<noteq> []" if "params = Some p" for p
  proof -
    have "utf8_valid ''AES256''" by code_simp
    with extracted_params [of cd r p] assms(1) that show ?thesis by (simp add: b64_md5_def b64_utf8)
  qed
  with assms(2,3) show ?thesis by (simp add: req_ok_def)
qed

subsection \<open>Ranges\<close>

text \<open>The three forms of a byte range, as they are sent and what they ask for.\<close>

datatype byte_range = FromTo nat nat | FromOn nat | LastBytes nat

fun rangeText :: "byte_range \<Rightarrow> string" where
  "rangeText (FromTo a b) = ''bytes='' @ nat_dec a @ CHR ''-'' # nat_dec b"
| "rangeText (FromOn a) = ''bytes='' @ nat_dec a @ [CHR ''-'']"
| "rangeText (LastBytes m) = ''bytes='' @ CHR ''-'' # nat_dec m"

fun ranged :: "nat \<Rightarrow> byte_range \<Rightarrow> nat \<times> nat" where
  "ranged n (FromTo a b) = (a, min (Suc b) n - a)"
| "ranged n (FromOn a) = (a, n - a)"
| "ranged n (LastBytes m) = (n - m, min m n)"

fun satisfiable :: "nat \<Rightarrow> byte_range \<Rightarrow> bool" where
  "satisfiable n (FromTo a b) \<longleftrightarrow> a \<le> b \<and> a < n \<and> b < 2 ^ 63"
| "satisfiable n (FromOn a) \<longleftrightarrow> a < n"
| "satisfiable n (LastBytes m) \<longleftrightarrow> 0 < m \<and> 0 < n \<and> m < 2 ^ 63"

definition httpRangeOf :: "nat \<times> nat \<Rightarrow> httpRange" where
  "httpRangeOf p = \<lparr>hrStart = int (fst p), hrLength = int (snd p)\<rparr>"

lemma dec_chars: "c \<in> set (nat_dec n) \<Longrightarrow> is_digit c"
  using nat_dec_digits by blast

lemma dec_not: "\<not> is_digit c \<Longrightarrow> c \<notin> set (nat_dec n)"
  using dec_chars by blast

lemma dec_no: "CHR ''-'' \<notin> set (nat_dec n)" "CHR '','' \<notin> set (nat_dec n)"
  by (rule dec_not, simp add: is_digit_def less_eq_char_def)+

lemma dec_ne [simp]: "nat_dec n \<noteq> []"
  using nat_dec_digits by simp

lemma dec_hd: "hd (nat_dec n) \<noteq> CHR ''-''"
  using dec_no(1) [of n] hd_in_set [OF dec_ne] by metis

lemma trim_dec [simp]: "trim_ws (nat_dec n) = nat_dec n"
  unfolding trim_ws_def by (rule Trim_id) (auto simp: is_digit_def less_eq_char_def dest!: dec_chars)

lemma trim_other: "\<forall>c\<in>set s. is_digit c \<or> c = CHR ''-'' \<Longrightarrow> trim_ws s = s"
  unfolding trim_ws_def by (rule Trim_id) (auto simp: is_digit_def less_eq_char_def)

lemma split_dash:
  "SplitByte CHR ''-'' (nat_dec a @ CHR ''-'' # nat_dec b) = [nat_dec a, nat_dec b]"
  "SplitByte CHR ''-'' (nat_dec a @ [CHR ''-'']) = [nat_dec a, []]"
  "SplitByte CHR ''-'' (CHR ''-'' # nat_dec b) = [[], nat_dec b]"
  using dec_no Split_append_sep [of "CHR ''-''" "[]"] by (simp_all add: Split_append_sep Split_single)

lemma cut_dash:
  "CutByte CHR ''-'' (nat_dec a @ CHR ''-'' # s) = (nat_dec a, s, True)"
  "CutByte CHR ''-'' (CHR ''-'' # s) = ([], s, True)"
  by (rule CutByte_append) (simp add: dec_no, simp add: CutByte_def)

lemma parseRange_text:
  assumes "satisfiable n R" and "int n < 2 ^ 63"
  shows "parseRange (rangeText R) (int n) = Inr [httpRangeOf (ranged n R)]"
  using assms
  by (cases R) (auto simp: parseRange_def split_dash Split_single [OF dec_no(1)] ParseInt_dec bindE_def httpRangeOf_def)

lemma rangeSpec_text:
  assumes "satisfiable n R" and "int n < 2 ^ 63"
  shows "rangeSpec (int n) (drop 6 (rangeText R)) = Inr (Some (httpRangeOf (ranged n R)))"
  using assms dec_hd trim_other [of "[]"]
  by (cases R) (auto simp: rangeSpec_def cut_dash ParseInt_dec httpRangeOf_def Let_def min_def)

lemma parseRanges_text:
  assumes "satisfiable n R" and "int n < 2 ^ 63"
  shows "parseRanges (rangeText R) (int n) = Inr [httpRangeOf (ranged n R)]"
proof -
  have c: "CHR '','' \<notin> set (drop 6 (rangeText R))" using dec_no by (cases R) auto
  have t: "trim_ws (drop 6 (rangeText R)) = drop 6 (rangeText R)"
    by (rule trim_other) (use dec_chars in \<open>cases R, auto\<close>)
  have ne: "6 < length (rangeText R)" by (cases R) auto
  have p: "HasPrefix (rangeText R) ''bytes=''" "rangeText R \<noteq> []" by (cases R; simp)+
  show ?thesis
    unfolding parseRanges_def Split_single [OF c] using p rangeSpec_text [OF assms] ne
    by (simp add: t bindE_def)
qed


lemma ranged_bounds: "satisfiable n R \<Longrightarrow> fst (ranged n R) + snd (ranged n R) \<le> n \<and> 0 < snd (ranged n R)"
  by (cases R) auto

text \<open>The headers of a request that could change the answer are absent.\<close>

definition unconditional :: "request \<Rightarrow> bool" where
  "unconditional r \<longleftrightarrow> (\<forall>h\<in>{''If-Match'', ''If-None-Match'', ''If-Modified-Since'', ''If-Unmodified-Since'', ''If-Range''}. HeaderGet (rqHeader r) h = [])"

lemma unconditional_holds:
  assumes "unconditional r"
  shows "preconditionsHold h r info res = None"
    and "checkPreconditions pt h (rqHeader r) mt = Inr (HeaderGet (rqHeader r) ''Range'')"
  using assms
  by (simp_all add: unconditional_def preconditionsHold_def checkPreconditions_def checkIfMatch_def checkIfNoneMatch_def
      checkIfModifiedSince_def checkIfUnmodifiedSince_def checkIfRange_def)

definition answer_headers :: "bool \<Rightarrow> request \<Rightarrow> ObjectInfo \<Rightarrow> header" where
  "answer_headers publicRead r info =
    (if publicRead then writeObjectHeaders info else applyResponseHeaderOverrides (requestQuery r) (writeObjectHeaders info))"

lemma answer_headers_sel:
  "HeaderGet (answer_headers pub r info) ''Etag'' = quoted (oiETag info)"
  "HeaderGet (answer_headers pub r info) ''Content-Length'' = Itoa (oiSize info)"
  by (simp_all add: answer_headers_def override_headers object_headers)

text \<open>The answer to an unconditional request does not depend on the kind of the reader.\<close>

lemma serve_whole:
  assumes "unconditional r" and "HeaderGet (rqHeader r) ''Range'' = []" and "oiSize info = int (length d)"
  shows "let resp = serveObject pt bd r pub res (d, kind, info) in
    rpStatus resp = 200 \<and> rpBody resp = RawBody d \<and> HeaderGet (rpHeader resp) ''Etag'' = quoted (oiETag info) \<and>
    HeaderGet (rpHeader resp) ''Content-Length'' = Itoa (int (length d))"
proof -
  have n: "HeaderGet (HeaderSet h ''Last-Modified'' v) ''Etag'' = HeaderGet h ''Etag''"
    "HeaderGet (HeaderSet h ''Accept-Ranges'' v) ''Etag'' = HeaderGet h ''Etag''"
    "HeaderGet (HeaderSet h ''Content-Length'' v) ''Etag'' = HeaderGet h ''Etag''"
    "HeaderGet (HeaderSet h ''Last-Modified'' v) ''Content-Length'' = HeaderGet h ''Content-Length''"
    "HeaderGet (HeaderSet h ''Accept-Ranges'' v) ''Content-Length'' = HeaderGet h ''Content-Length''"
    "HeaderGet (HeaderSet h ''Content-Length'' v) ''Content-Length'' = v" for h v
    by (simp_all add: HeaderGet_Set)
  have a: "serveObject pt bd r pub res (d, kind, info) =
      (if kind \<noteq> StreamReader then ServeContent pt bd (answer_headers pub r info) (rqHeader r) (oiLastModified info) d
       else serveStream (answer_headers pub r info) r info d res)"
    using unconditional_holds(1) [OF assms(1)] by (simp add: serveObject_def answer_headers_def Let_def)
  show ?thesis
    using assms(2,3) unconditional_holds(2) [OF assms(1)]
    by (simp add: a ServeContent_def serveStream_def parseRanges_def n answer_headers_sel Let_def)
qed

lemma serve_range:
  assumes "unconditional r" and "HeaderGet (rqHeader r) ''Range'' = rangeText R" and "oiSize info = int (length d)"
    and "satisfiable (length d) R" and "int (length d) < 2 ^ 63"
  shows "let resp = serveObject pt bd r pub res (d, kind, info); (start, len) = ranged (length d) R in
    rpStatus resp = 206 \<and> rpBody resp = RawBody (take len (drop start d)) \<and>
    HeaderGet (rpHeader resp) ''Content-Range'' = contentRange (int start) (int len) (int (length d)) \<and>
    HeaderGet (rpHeader resp) ''Content-Length'' = Itoa (int len)"
proof -
  obtain start len where p: "ranged (length d) R = (start, len)" by (cases "ranged (length d) R")
  have b: "start + len \<le> length d" using ranged_bounds [OF assms(4)] p by simp
  have ne: "rangeText R \<noteq> []" by (cases R) auto
  have n: "HeaderGet (HeaderSet h ''Accept-Ranges'' v) ''Content-Range'' = HeaderGet h ''Content-Range''"
    "HeaderGet (HeaderSet h ''Content-Length'' v) ''Content-Range'' = HeaderGet h ''Content-Range''"
    "HeaderGet (HeaderSet h ''Content-Range'' v) ''Content-Range'' = v"
    "HeaderGet (HeaderSet h ''Content-Length'' v) ''Content-Length'' = v" for h v
    by (simp_all add: HeaderGet_Set)
  have s: "slice d (httpRangeOf (start, len)) = take len (drop start d)" by (simp add: slice_def httpRangeOf_def)
  have l: "min (length d - start) len = len" using b by simp
  have a: "serveObject pt bd r pub res (d, kind, info) =
      (if kind \<noteq> StreamReader then ServeContent pt bd (answer_headers pub r info) (rqHeader r) (oiLastModified info) d
       else serveStream (answer_headers pub r info) r info d res)" for kind
    using unconditional_holds(1) [OF assms(1)] by (simp add: serveObject_def answer_headers_def Let_def)
  show ?thesis
  proof (cases "kind = StreamReader")
    case True
    then show ?thesis
      using parseRange_text [OF assms(4,5)] by (simp add: a p serveStream_def assms(2,3) ne s n Let_def) (simp add: httpRangeOf_def)
  next
    case False
    have h: "hrLength (httpRangeOf (start, len)) = int len" "hrStart (httpRangeOf (start, len)) = int start" by (simp_all add: httpRangeOf_def)
    have "\<not> int (length d) < int len" using b by simp
    then show ?thesis
      using False parseRanges_text [OF assms(4,5)] unconditional_holds(2) [OF assms(1)]
      by (simp add: a p ServeContent_def assms(2) s h l n Let_def)
  qed
qed


subsection \<open>Properties\<close>

text \<open>C8: an upload that is not intact is not stored. If the body breaks off, fails its
  signature or checksum trailers, or does not match the Content-MD5 or an x-amz-checksum
  header of the request, PutObject answers with an error, and every object's record and
  every file is as before.\<close>

theorem damaged_upload_stores_nothing:
  assumes "\<not> intact cy cd (rqHeader r) stream" and "egMaxObjectSize e < 2 ^ 63 - 1"
    and "servePutObject B cy cd ev r stream size' b k e = (resp, e')"
  shows "400 \<le> rpStatus resp \<and> egFiles e' = egFiles e \<and> msDbs (egMeta e') = msDbs (egMeta e)"
proof -
  have v: "case verifiedBodyReader cy cd r (streamBody stream) of Inl _ \<Rightarrow> True | Inr s \<Rightarrow> snd s \<noteq> None"
    using verifiedBodyReader_intact [of cy cd r stream] assms(1) by (cases "verifiedBodyReader cy cd r (streamBody stream)") auto
  show ?thesis
  proof (cases "extractSSECParams cd r")
    case (Inl x)
    with assms(3) have "resp = writeSSECError x (objectResource b k)" "e' = e" by (simp_all add: servePutObject_def Let_def)
    with error_status(3) show ?thesis by simp
  next
    case params: (Inr params)
    show ?thesis
    proof (cases "verifiedBodyReader cy cd r (streamBody stream)")
      case (Inl x)
      with params assms(3) error_status show ?thesis by (auto simp: servePutObject_def Let_def)
    next
      case body: (Inr body)
      let ?ct = "if HeaderGet (rqHeader r) ''Content-Type'' = [] then ''application/octet-stream'' else HeaderGet (rqHeader r) ''Content-Type''"
      obtain p e1 where p: "PutObject B cd ev params b k \<lparr>rdData = fst body, rdFails = True\<rparr> size' ?ct e = (p, e1)"
        by (cases "PutObject B cd ev params b k \<lparr>rdData = fst body, rdFails = True\<rparr> size' ?ct e") auto
      have f: "\<not> is_ok p \<and> kept e e1" by (rule failing_put [OF assms(2) p])
      then obtain x where "p = Inl x" by (cases p) auto
      with f params body v p assms(3) error_status show ?thesis by (auto simp: servePutObject_def Let_def kept_def)
    qed
  qed
qed

text \<open>A GET after a successful PutObject of the engine.\<close>

lemma get_after_put:
  assumes "bolt_laws B" and "inv B dd e" and "env_ok ev" and "is_rooted dd" and "utf8_valid k" and "utf8_valid ct"
    and "egFiles e (blobPath dd b (newBlobID (evBlobRnd ev))) = None" and "egMaxObjectSize e < 2 ^ 63 - 1"
    and "\<And>x. cdGunzip cd (cdGzip cd x) = Some x" and "\<not> evFails ev' COpen"
    and "PutObject B cd ev params b k \<lparr>rdData = d, rdFails = False\<rparr> size' ct e = (Inr info, e')"
    and "extractSSECParams cd g = Inr params" and "ValuesGet (requestQuery g) ''versionId'' = []"
    and "unconditional g" and "HeaderGet (rqHeader g) ''Range'' = []"
  shows "let got = fst (serveGetObject B cd ev' pt bd g pub b k e') in
     rpStatus got = 200 \<and> rpBody got = RawBody d \<and> HeaderGet (rpHeader got) ''Etag'' = quoted (oiETag info) \<and>
     HeaderGet (rpHeader got) ''Content-Length'' = Itoa (int (length d))"
proof -
  have ro: "req_ok params k ct" by (rule extracted_ok [OF assms(12,5,6)])
  from bolt_laws.put_get [OF assms(1-3) ro assms(4,7-11)] obtain kind e2
    where g: "oiSize info = int (length d)" "GetObject B cd ev' params b k [] e' = (Inr (d, kind, info\<lparr>oiIsLatest := True\<rparr>), e2)"
    by auto
  have "fst (serveGetObject B cd ev' pt bd g pub b k e') = serveObject pt bd g pub (objectResource b k) (d, kind, info\<lparr>oiIsLatest := True\<rparr>)"
    using assms(12,13) g(2) by (simp add: serveGetObject_def)
  then show ?thesis
    using serve_whole [OF assms(14,15), of "info\<lparr>oiIsLatest := True\<rparr>" d pt bd pub "objectResource b k" kind] g(1)
    by (simp add: Let_def)
qed

text \<open>C3: what a client uploaded is what it gets back. When PutObject answers 200, the body
  arrived whole and matches every digest the request declares, and a plain GET of the key
  with the same encryption headers answers 200 with exactly those bytes, their length, and
  the ETag the upload was answered with.\<close>

theorem uploaded_object_reads_back:
  assumes "bolt_laws B" and "inv B dd e" and "env_ok ev" and "is_rooted dd" and "utf8_valid k"
    and "utf8_valid (HeaderGet (rqHeader r) ''Content-Type'')"
    and "egFiles e (blobPath dd b (newBlobID (evBlobRnd ev))) = None" and "egMaxObjectSize e < 2 ^ 63 - 1"
    and "\<And>x. cdGunzip cd (cdGzip cd x) = Some x" and "\<not> evFails ev' COpen"
    and "servePutObject B cy cd ev r stream size' b k e = (resp, e')" and "rpStatus resp = 200"
    and "extractSSECParams cd g = extractSSECParams cd r" and "ValuesGet (requestQuery g) ''versionId'' = []"
    and "unconditional g" and "HeaderGet (rqHeader g) ''Range'' = []"
  shows "intact cy cd (rqHeader r) stream \<and>
    (let got = fst (serveGetObject B cd ev' pt bd g pub b k e') in
     rpStatus got = 200 \<and> rpBody got = RawBody (fst stream) \<and>
     HeaderGet (rpHeader got) ''Etag'' = HeaderGet (rpHeader resp) ''Etag'' \<and>
     HeaderGet (rpHeader got) ''Content-Length'' = Itoa (int (length (fst stream))))"
proof -
  have i: "intact cy cd (rqHeader r) stream"
    using damaged_upload_stores_nothing [OF _ assms(8,11)] assms(12) by fastforce
  then obtain body where body: "verifiedBodyReader cy cd r (streamBody stream) = Inr body" "snd body = None"
    using verifiedBodyReader_intact [of cy cd r stream] by (auto split: sum.splits)
  have d: "fst body = fst stream" using verifiedBodyReader_fst [OF body(1)] by (simp add: streamBody_sel)
  have "\<not> 400 \<le> rpStatus resp" using assms(12) by simp
  then obtain params where params: "extractSSECParams cd r = Inr params"
    using assms(11) error_status(3) by (cases "extractSSECParams cd r") (auto simp: servePutObject_def Let_def simp del: split_paired_All)
  let ?ct = "if HeaderGet (rqHeader r) ''Content-Type'' = [] then ''application/octet-stream'' else HeaderGet (rqHeader r) ''Content-Type''"
  let ?rd = "\<lparr>rdData = fst stream, rdFails = False\<rparr>"
  obtain p e1 where p: "PutObject B cd ev params b k ?rd size' ?ct e = (p, e1)" by fastforce
  have run: "servePutObject B cy cd ev r stream size' b k e =
      (case p of Inl x \<Rightarrow> (handleStorageError (unwrapWrite (egMaxObjectSize e) body x) (objectResource b k), e1)
       | Inr info \<Rightarrow> (\<lparr>rpStatus = 200, rpHeader = setSSECResponseHeaders (setVersionID (HeaderSet [] ''ETag'' (quoted (oiETag info))) info) info, rpBody = RawBody []\<rparr>, e1))"
    using params body d p by (simp add: servePutObject_def Let_def split: sum.split)
  with assms(11) error_status(2) \<open>\<not> 400 \<le> rpStatus resp\<close> obtain info where p2: "p = Inr info" by (cases p) auto
  have put: "PutObject B cd ev params b k ?rd size' ?ct e = (Inr info, e1)" using p p2 by simp
  have resp: "resp = \<lparr>rpStatus = 200, rpHeader = setSSECResponseHeaders (setVersionID (HeaderSet [] ''ETag'' (quoted (oiETag info))) info) info, rpBody = RawBody []\<rparr>" "e' = e1"
    using run assms(11) p2 by simp_all
  have "utf8_valid ''application/octet-stream''" by code_simp
  with assms(6) have ct: "utf8_valid ?ct" by simp
  have "HeaderGet (rpHeader resp) ''Etag'' = quoted (oiETag info)"
    by (simp add: resp setSSECResponseHeaders_def setVersionID_def HeaderGet_Set)
  then show ?thesis
    using i get_after_put [OF assms(1-5) ct assms(7-10) put [folded resp(2)] _ assms(14-16)] assms(13) params
    by (simp add: Let_def)
qed

text \<open>C24: a byte range is served the same from every reader. For an object of n bytes and a
  range of any of the three forms that lies in it, GET answers 206 with exactly those bytes,
  their Content-Range and their length - by ServeContent for a file or a decrypting reader,
  by the handler's own parser for a compressed object, which cannot be sought.\<close>

theorem range_serves_slice:
  assumes "extractSSECParams cd g = Inr params"
    and "GetObject B cd ev params b k (ValuesGet (requestQuery g) ''versionId'') e = (Inr (d, kind, info), e')"
    and "oiSize info = int (length d)" and "int (length d) < 2 ^ 63" and "satisfiable (length d) R"
    and "unconditional g" and "HeaderGet (rqHeader g) ''Range'' = rangeText R"
  shows "let got = fst (serveGetObject B cd ev pt bd g pub b k e); (start, len) = ranged (length d) R in
    rpStatus got = 206 \<and> rpBody got = RawBody (take len (drop start d)) \<and> length (take len (drop start d)) = len \<and>
    HeaderGet (rpHeader got) ''Content-Range'' = contentRange (int start) (int len) (int (length d)) \<and>
    HeaderGet (rpHeader got) ''Content-Length'' = Itoa (int len)"
proof -
  have "fst (serveGetObject B cd ev pt bd g pub b k e) = serveObject pt bd g pub (objectResource b k) (d, kind, info)"
    using assms(1,2) by (simp add: serveGetObject_def)
  with serve_range [OF assms(6,7,3,5,4), of pt bd pub "objectResource b k" kind] ranged_bounds [OF assms(5)]
  show ?thesis by (auto simp: Let_def)
qed

text \<open>C33: an object under a customer's key is never served without the key: when GET or HEAD
  succeeds, the request carries a key of 32 bytes whose MD5 is the one the object was stored
  with; and an object that is not encrypted is not served to a request with a key.\<close>

theorem encrypted_object_needs_key:
  assumes "fst (serveGetObject B cd ev pt bd g pub b k e) = resp \<or> fst (serveHeadObject B cd g b k e) = resp" and "rpStatus resp < 400"
  shows "\<exists>info. fst (HeadObject B (case extractSSECParams cd g of Inr p \<Rightarrow> p | Inl _ \<Rightarrow> None) b k (ValuesGet (requestQuery g) ''versionId'') e) = Inr info \<and>
    (if oiSSECustomerAlgorithm info = [] then HeaderGet (rqHeader g) amzSSECAlgorithmHeader = []
     else \<exists>key. b64_decode (HeaderGet (rqHeader g) amzSSECKeyHeader) = Some key \<and> length key = 32 \<and> b64_md5 cd key = oiSSECustomerKeyMD5 info)"
proof -
  let ?v = "ValuesGet (requestQuery g) ''versionId''"
  have bad: "resp \<noteq> writeSSECError x res" "resp \<noteq> markerError res y" for x y res
    using assms(2) error_status(3,4) by (metis linorder_not_less)+
  obtain params where params: "extractSSECParams cd g = Inr params"
    using assms(1) bad(1) by (cases "extractSSECParams cd g") (auto simp: serveGetObject_def serveHeadObject_def Let_def)
  obtain info e1 where h: "HeadObject B params b k ?v e = (Inr info, e1)"
  proof (cases "HeadObject B params b k ?v e")
    case (Pair r e1)
    show thesis
    proof (cases r)
      case (Inl x)
      have "fst (serveHeadObject B cd g b k e) = markerError (objectResource b k) x"
        using params Pair Inl by (simp add: serveHeadObject_def Let_def)
      moreover have "\<exists>x. fst (serveGetObject B cd ev pt bd g pub b k e) = markerError (objectResource b k) x"
        using params Pair Inl by (cases x) (auto simp: serveGetObject_def Let_def GetObject_def split: sum.split)
      ultimately have False using assms(1) bad(2) by metis
      then show thesis ..
    qed (use Pair that in blast)
  qed
  have "validateSSECParams info params = Inr ()"
    using h by (auto simp: HeadObject_def split: sum.splits prod.splits if_splits)
  moreover have "params = None \<longleftrightarrow> HeaderGet (rqHeader g) amzSSECAlgorithmHeader = []"
    using params by (auto simp: extractSSECParams_def ssecParamsFrom_def Let_def bindE_Inr_iff split: if_splits)
  ultimately show ?thesis
    using params h extracted_params [of cd g] by (auto simp: validateSSECParams_def split: if_splits option.splits)
qed


subsection \<open>Copies\<close>

lemma LastIndex_none: "c \<in> set p \<Longrightarrow> c \<notin> set s \<Longrightarrow> LastIndex s p = None"
proof (induction s)
  case (Cons x s)
  have "\<not> HasPrefix (x # s) p" using Cons.prems set_mono_prefix by fastforce
  with Cons show ?case by simp
qed auto

lemma LastIndex_sep:
  assumes "c \<notin> set v" and "c \<notin> set p"
  shows "LastIndex (s @ c # p @ v) (c # p) = Some (length s)"
proof (induction s)
  case Nil
  have "LastIndex (p @ v) (c # p) = None" by (rule LastIndex_none [of c]) (use assms in auto)
  then show ?case by simp
qed simp

lemma GetObject_keeps:
  assumes "bolt_laws B" and "inv B dd e" and "GetObject B cd ev ssec b k v e = (r, e')"
  shows "inv B dd e' \<and> egFiles e' = egFiles e \<and> egMaxObjectSize e' = egMaxObjectSize e"
proof (cases "IsValidBucketName b")
  case False
  with assms(2,3) show ?thesis by (auto simp: GetObject_def validateBucketName_def)
next
  case True
  have m: "trip (\<lambda>e. inv B dd e \<and> data_of e) (metaM (\<lambda>m. GetObjectMeta B m b k v)) (\<lambda>_ e. inv B dd e \<and> data_of e) (\<lambda>_ e. inv B dd e \<and> data_of e)"
    if "data_only B data_of" for data_of
    by (rule trip_conseq [OF trip_read [OF bolt_laws.reads_objects(1) [OF assms(1) True] that]]) auto
  let ?D = "\<lambda>e1. egFiles e1 = egFiles e \<and> egMaxObjectSize e1 = egMaxObjectSize e"
  have D: "data_only B ?D" by (auto simp: data_only_def same_data_def)
  have h: "inv B dd e1 \<and> ?D e1" if "HeadObject B ssec b k v e = (x, e1)" for x e1
    using tripD_any [OF m [OF D], of e] assms(2) that
    by (auto simp: HeadObject_def split: sum.splits prod.splits if_splits)
  show ?thesis
    using assms(2,3) h by (fastforce simp: GetObject_def split: sum.splits prod.splits option.splits if_splits)
qed

text \<open>A copy source is read as it was written: a bucket, a key escaped in any way that
  escapes percent signs and question marks, and a version, which is not part of the key.\<close>

theorem copy_source_reads_back:
  assumes "bucket \<noteq> []" and "CHR ''/'' \<notin> set bucket" and "CHR ''?'' \<notin> set bucket" and "key \<noteq> []"
    and "\<not> keep CHR 0x25" and "\<not> keep CHR ''?''" and "CHR ''?'' \<notin> set versionID" and "slash \<in> {[], ''/''}"
  shows "parseCopySource (slash @ bucket @ CHR ''/'' # url_escape keep key @ (if versionID = [] then [] else versionSelector @ versionID)) =
    Inr \<lparr>csBucket = bucket, csKey = key, csVersionID = versionID, csSSEC = None\<rparr>"
proof -
  let ?v = "bucket @ CHR ''/'' # url_escape keep key"
  let ?w = "?v @ (if versionID = [] then [] else versionSelector @ versionID)"
  have q: "CHR ''?'' \<notin> set (url_escape keep key)"
    using escape_chars [of "CHR ''?''" keep key] assms(6) by (auto simp: is_alnum_def less_eq_char_def)
  then have nv: "CHR ''?'' \<notin> set ?v" using assms(3) by simp
  have t: "TrimPrefix (slash @ ?w) ''/'' = ?w"
    using assms(1,2,8) by (cases bucket) (auto simp: TrimPrefix_def)
  have i: "LastIndex ?w versionSelector = (if versionID = [] then None else Some (length ?v))"
  proof (cases "versionID = []")
    case True
    then show ?thesis using LastIndex_none [of "CHR ''?''" versionSelector ?v] nv by (simp add: versionSelector_def)
  next
    case False
    then show ?thesis using LastIndex_sep [OF assms(7), of "''versionId=''" ?v] by (simp add: versionSelector_def)
  qed
  have c: "CutByte CHR ''/'' ?v = (bucket, url_escape keep key, True)" by (rule CutByte_append [OF assms(2)])
  have u: "url_unescape False (url_escape keep key) = Some key" by (rule unescape_escape) (use assms(5) in simp_all)
  have ne: "url_escape keep key \<noteq> []" "slash @ ?w \<noteq> []" using assms(1,4) escape_Nil_iff [of keep key] by auto
  have "parseCopySource (slash @ ?w) = Inr \<lparr>csBucket = bucket, csKey = key, csVersionID = versionID, csSSEC = None\<rparr>"
    using assms(1) ne(1) unfolding parseCopySource_def if_not_P [OF ne(2)] t Let_def i
    by (cases "versionID = []") (simp_all add: c u)
  then show ?thesis by simp
qed

text \<open>C25: a copy reads back as its source. When the source opens, under the key the request
  gives for it, and CopyObject answers 200, a GET of the destination under the destination's
  key answers 200 with the source's bytes, however each is compressed or encrypted.\<close>

theorem copied_object_reads_back:
  assumes "bolt_laws B" and "inv B dd e" and "env_ok ev" and "is_rooted dd" and "utf8_valid k"
    and "egFiles e (blobPath dd b (newBlobID (evBlobRnd ev))) = None" and "egMaxObjectSize e < 2 ^ 63 - 1"
    and "\<And>x. cdGunzip cd (cdGzip cd x) = Some x" and "\<not> evFails ev' COpen"
    and "parseCopySource (copySourceHeader r) = Inr src" and "extractCopySourceSSECParams cd r = Inr sparams"
    and "GetObject B cd ev sparams (csBucket src) (csKey src) (csVersionID src) e = (Inr (d, kind, info), e1)" and "utf8_valid (oiContentType info)"
    and "serveCopyObject B cd ev r b k e = (resp, e')" and "rpStatus resp = 200"
    and "extractSSECParams cd g = extractSSECParams cd r" and "ValuesGet (requestQuery g) ''versionId'' = []"
    and "unconditional g" and "HeaderGet (rqHeader g) ''Range'' = []"
  shows "rpStatus (fst (serveGetObject B cd ev' pt bd g pub b k e')) = 200 \<and>
    rpBody (fst (serveGetObject B cd ev' pt bd g pub b k e')) = RawBody d"
proof -
  have ok: "\<not> 400 \<le> rpStatus resp" using assms(15) by simp
  obtain params where params: "extractSSECParams cd r = Inr params"
    using assms(10,11,14) ok error_status(3) by (cases "extractSSECParams cd r") (auto simp: serveCopyObject_def Let_def simp del: split_paired_All)
  let ?src = "src\<lparr>csSSEC := sparams\<rparr>"
  obtain p where c: "CopyObject B cd ev params ?src b k e = (p, e')" and pr: "resp = (case p of Inl x \<Rightarrow> handleStorageError x (objectResource b k) | Inr info \<Rightarrow> resp)"
    using assms(10,11,14) params by (auto simp: serveCopyObject_def Let_def split: prod.splits sum.splits)
  then obtain i where p: "p = Inr i" using ok error_status(2) by (cases p) (metis sum.case(1))+
  have put: "PutObject B cd ev params b k \<lparr>rdData = d, rdFails = False\<rparr> (oiSize info) (oiContentType info) e1 = (Inr i, e')"
    using c p assms(12) by (auto simp: CopyObject_def opM_def liftM_def split: prod.splits sum.splits)
  from GetObject_keeps [OF assms(1,2,12)] have "inv B dd e1" "egFiles e1 = egFiles e" "egMaxObjectSize e1 = egMaxObjectSize e" by auto
  then show ?thesis
    using get_after_put [OF assms(1) _ assms(3-5,13) _ _ assms(8,9) put _ assms(17-19), of pt bd pub] assms(6,7,16) params
    by (simp add: Let_def)
qed

subsection \<open>Conditional requests\<close>

text \<open>preconditionsHold takes an If-Match without its quotes for the ETag; ServeContent,
  which evaluates the header again, does not.\<close>

lemma trim_ws_hex: "is_hex c \<Longrightarrow> \<exists>u'. trim_ws (c # u) = c # u'"
proof -
  assume "is_hex c"
  moreover have "\<not> is_hex CHR '' ''" "\<not> is_hex CHR 0x09" "\<not> is_hex CHR 0x0A" "\<not> is_hex CHR 0x0D" by code_simp+
  ultimately have c: "c \<notin> {CHR '' '', CHR 0x09, CHR 0x0A, CHR 0x0D}" by blast
  have w: "\<exists>w'. dropWhile P (w @ [c]) = w' @ [c]" if "\<not> P c" for P w using that by (induction w) auto
  have "\<exists>u'. rev (dropWhile P (rev u @ [c])) = c # u'" if "\<not> P c" for P using w [of P "rev u"] that by (metis rev.simps(2) rev_rev_ident rev_swap rev_eq_Cons_iff)
  then show ?thesis using c by (simp add: trim_ws_def Trim_def TrimLeft_def)
qed

lemma unquoted_tag: "is_hex c \<Longrightarrow> \<not> anyETag n ok (c # t)"
proof (cases n)
  case (Suc m)
  assume h: "is_hex c"
  have "\<not> is_hex CHR '',''" "\<not> is_hex CHR ''*''" "\<not> is_hex CHR ''W''" "\<not> is_hex quote" by code_simp+
  with h have d: "c \<noteq> CHR '',''" "c \<noteq> CHR ''*''" "c \<noteq> CHR ''W''" "c \<noteq> quote" by auto
  obtain u where u: "trim_ws (c # t) = c # u" using trim_ws_hex [OF h] by blast
  obtain v where "trim_ws (c # u) = c # v" using trim_ws_hex [OF h] by blast
  then have "scanETag (c # u) = None" using d by (simp add: scanETag_def Let_def)
  with Suc u d show ?thesis by simp
qed simp

text \<open>C39: an If-Match that gives the object's own ETag without quotes depends on how the object is
  stored. HEAD accepts it, and GET does when the data is read through a decompressor; when the
  data can be sought in, a plain file or an encrypted one, GET answers 412. This is for the
  ETags of the storage, the hex of an MD5, of a single upload or with the number of parts.\<close>

theorem unquoted_if_match_refused:
  assumes "HeaderGet (rqHeader g) ''If-Match'' = oiETag info" and "oiETag info = hex_encode x @ parts" and "x \<noteq> []"
    and "HeaderGet (rqHeader g) ''If-None-Match'' = []" and "HeaderGet (rqHeader g) ''Range'' = []"
  shows "preconditionsHold h g info res = None \<and>
    rpStatus (serveObject pt bd g pub res (d, kind, info)) = (if kind = StreamReader then 200 else 412)"
proof -
  have p: "preconditionsHold h g info res = None" for h using assms(1,4) by (simp add: preconditionsHold_def Let_def)
  obtain c t where e: "hex_encode x = c # t" using assms(3) by (cases x) auto
  then have "c \<in> set (hex_encode x)" by simp
  then have "is_hex c" using hex_encode_props by blast
  then have "\<not> anyETag n ok (oiETag info)" for n ok using unquoted_tag assms(2) e by simp
  then have "checkIfMatch h (rqHeader g) = condFalse" for h using assms(1,2) e by (simp add: checkIfMatch_def Let_def)
  then have "checkPreconditions pt h (rqHeader g) mt = Inl 412" for h mt by (simp add: checkPreconditions_def)
  then show ?thesis using p assms(5) by (simp add: serveObject_def serveStream_def ServeContent_def Let_def)
qed

text \<open>A range of an empty object: refused by the handler's own parser, ignored by
  ServeContent.\<close>

lemma empty_object_range:
  assumes "unconditional g" and "HeaderGet (rqHeader g) ''Range'' = ''bytes=0-99''" and "oiSize info = 0"
  shows "rpStatus (serveObject pt bd g pub res ([], StreamReader, info)) = 416"
    and "rpStatus (serveObject pt bd g pub res ([], FileReader, info)) = 200"
proof -
  have "parseRange ''bytes=0-99'' 0 = Inl ()" "parseRanges ''bytes=0-99'' 0 = Inl NoOverlap" "errorHTTPStatus ''InvalidRange'' = Some 416"
    by code_simp+
  then show "rpStatus (serveObject pt bd g pub res ([], StreamReader, info)) = 416"
    "rpStatus (serveObject pt bd g pub res ([], FileReader, info)) = 200"
    using assms unconditional_holds [OF assms(1)]
    by (simp_all add: serveObject_def serveStream_def ServeContent_def writeS3Error_def Let_def)
qed


subsection \<open>Witnesses\<close>

text \<open>Checksums that pad or cut to their size, and an upload with a declared checksum.\<close>

definition ex_sums :: crypto where
  "ex_sums = \<lparr>cySum = (\<lambda>alg d. take (HashSize alg) (d @ ''................................'')), cyHMAC = (\<lambda>k d. k)\<rparr>"

definition ex_req :: "string \<Rightarrow> header \<Rightarrow> request" where
  "ex_req m hs = \<lparr>rqMethod = m, rqUrl = \<lparr>uPath = ''/bkt/k'', uRawPath = [], uRawQuery = []\<rparr>, rqHeader = hs, rqHost = ''h'',
     rqBody = None, rqContentLength = 4\<rparr>"

definition ex_upload_req :: "string \<Rightarrow> request" where
  "ex_upload_req crc = ex_req ''PUT'' [(''Content-Type'', ''text/plain''), (''X-Amz-Checksum-Crc32'', crc)]"

abbreviation ex_upload_result :: "string \<Rightarrow> response \<times> alist_bucket engine" where
  "ex_upload_result crc \<equiv> servePutObject alist_bolt ex_sums ex_codec ex_env (ex_upload_req crc) (''abcd'', EOF) 4 ''bkt'' ''k'' (ex_eng ''Enabled'')"

lemma ex_fresh: "egFiles (ex_eng s) p = None"
  by (simp add: ex_eng_def)

lemma ex_small: "egMaxObjectSize (ex_eng s) < 2 ^ 63 - 1"
  by (simp add: ex_eng_def)

lemma ex_gunzip: "cdGunzip ex_codec (cdGzip ex_codec x) = Some x"
  by (simp add: ex_codec_def)

lemma ex_opens: "\<not> evFails ex_env COpen"
  by (simp add: ex_env_def)

lemma ex_unconditional: "unconditional (ex_req m hs)" if "\<forall>h\<in>set hs. hd (fst h) \<noteq> CHR ''I''"
proof -
  have "HeaderGet hs n = []" if "hd (CanonicalMIMEHeaderKey n) = CHR ''I''" for n
    using \<open>\<forall>h\<in>set hs. _ h\<close> that by (induction hs) (auto simp: HeaderGet_def ValuesGet_def)
  moreover have "\<forall>n\<in>set [''If-Match'', ''If-None-Match'', ''If-Modified-Since'', ''If-Unmodified-Since'', ''If-Range'']. hd (CanonicalMIMEHeaderKey n) = CHR ''I''"
    by code_simp
  ultimately show ?thesis by (simp add: unconditional_def ex_req_def)
qed

theorem damaged_upload_stores_nothing_witness:
  "\<not> intact ex_sums ex_codec (rqHeader (ex_upload_req ''YWJjZQ=='')) (''abcd'', EOF) \<and>
   rpBody (fst (ex_upload_result ''YWJjZQ=='')) = ErrorDoc ''BadDigest'' ''The x-amz-checksum-crc32 you specified did not match the calculated checksum.'' ''/bkt/k'' \<and>
   egFiles (snd (ex_upload_result ''YWJjZQ=='')) = Map.empty"
proof -
  have i: "\<not> intact ex_sums ex_codec (rqHeader (ex_upload_req ''YWJjZQ=='')) (''abcd'', EOF)" by code_simp
  obtain resp e' where p: "ex_upload_result ''YWJjZQ=='' = (resp, e')" by fastforce
  have b: "rpBody (fst (ex_upload_result ''YWJjZQ=='')) = ErrorDoc ''BadDigest'' ''The x-amz-checksum-crc32 you specified did not match the calculated checksum.'' ''/bkt/k''"
    by code_simp
  from damaged_upload_stores_nothing [OF i ex_small p] i b p show ?thesis by (simp add: ex_eng_def)
qed

theorem uploaded_object_reads_back_witness:
  "\<exists>resp e'. ex_upload_result ''YWJjZA=='' = (resp, e') \<and> rpStatus resp = 200 \<and>
     rpBody (fst (serveGetObject alist_bolt ex_codec ex_env (\<lambda>_. None) [] (ex_req ''GET'' []) False ''bkt'' ''k'' e')) = RawBody ''abcd''"
proof -
  obtain resp e' where p: "ex_upload_result ''YWJjZA=='' = (resp, e')" by fastforce
  have "rpStatus (fst (ex_upload_result ''YWJjZA=='')) = 200" by code_simp
  then have s: "rpStatus resp = 200" using p by simp
  have r: "is_rooted ''/d''" by code_simp
  have u: "utf8_valid ''k''" "utf8_valid (HeaderGet (rqHeader (ex_upload_req ''YWJjZA=='')) ''Content-Type'')" by code_simp+
  have g: "extractSSECParams ex_codec (ex_req ''GET'' []) = extractSSECParams ex_codec (ex_upload_req ''YWJjZA=='')"
    "ValuesGet (requestQuery (ex_req ''GET'' [])) ''versionId'' = []"
    "HeaderGet (rqHeader (ex_req ''GET'' [])) ''Range'' = []" by code_simp+
  have c: "unconditional (ex_req ''GET'' [])" by (rule ex_unconditional) code_simp
  note R = uploaded_object_reads_back [where B = alist_bolt and cd = ex_codec and cy = ex_sums and ev = ex_env and dd = "''/d''" and e = "ex_eng ''Enabled''"
      and r = "ex_upload_req ''YWJjZA==''" and stream = "(''abcd'', EOF)" and size' = 4 and b = "''bkt''" and k = "''k''"
      and g = "ex_req ''GET'' []" and pt = "\<lambda>_. None" and bd = "[]" and pub = False]
  have "rpBody (fst (serveGetObject alist_bolt ex_codec ex_env (\<lambda>_. None) [] (ex_req ''GET'' []) False ''bkt'' ''k'' e')) = RawBody ''abcd''"
    using R [OF alist_laws ex_eng_inv ex_env_ok r u ex_fresh ex_small ex_gunzip ex_opens p s g(1,2) c g(3)] by (simp add: Let_def)
  with p s show ?thesis by blast
qed

definition ex_ranged :: request where
  "ex_ranged = ex_req ''GET'' [(''Range'', ''bytes=1-9'')]"

theorem range_serves_slice_witness:
  "rpBody (fst (serveGetObject alist_bolt ex_codec ex_env (\<lambda>_. None) [] ex_ranged False ''bkt'' ''k'' (ex_put ''Enabled''))) = RawBody ''bc'' \<and>
   rpStatus (fst (serveGetObject alist_bolt ex_codec ex_env (\<lambda>_. None) [] ex_ranged False ''bkt'' ''k'' (ex_put ''Enabled''))) = 206"
proof -
  let ?r = "PutObject alist_bolt ex_codec ex_env None ''bkt'' ''k'' (ex_rd ''abc'') 3 ''text/plain'' (ex_eng ''Enabled'')"
  have "is_ok (fst ?r)" by code_simp
  then obtain info e' where p: "?r = (Inr info, e')" by (cases ?r) (auto simp: is_ok_iff)
  have r: "is_rooted ''/d''" by code_simp
  from bolt_laws.put_get [OF alist_laws ex_eng_inv ex_env_ok ex_req_ok(1) r ex_fresh ex_small ex_gunzip ex_opens p]
  obtain kind e2 where g: "oiSize info = 3"
    "GetObject alist_bolt ex_codec ex_env None ''bkt'' ''k'' [] e' = (Inr (''abc'', kind, info\<lparr>oiIsLatest := True\<rparr>), e2)"
    by (auto simp: ex_rd_def)
  have e: "ex_put ''Enabled'' = e'" using p by (simp add: ex_put_def)
  have x: "extractSSECParams ex_codec ex_ranged = Inr None" "ValuesGet (requestQuery ex_ranged) ''versionId'' = []"
    "HeaderGet (rqHeader ex_ranged) ''Range'' = rangeText (FromTo 1 9)" by code_simp+
  have c: "unconditional ex_ranged" unfolding ex_ranged_def by (rule ex_unconditional) code_simp
  have h: "GetObject alist_bolt ex_codec ex_env None ''bkt'' ''k'' (ValuesGet (requestQuery ex_ranged) ''versionId'') e' =
      (Inr (''abc'', kind, info\<lparr>oiIsLatest := True\<rparr>), e2)" using g(2) x(2) by simp
  from range_serves_slice [OF x(1) h _ _ _ c x(3), of "\<lambda>_. None" "[]" False] g(1) e
  show ?thesis by (simp add: Let_def)
qed

text \<open>An encrypted object's record, and a request with its key.\<close>

definition ex_key :: string where "ex_key = ''0123456789abcdef0123456789abcdef''"

definition ex_sealed :: "alist_bucket engine" where
  "ex_sealed = snd (metaM (\<lambda>m. PutObjectMeta alist_bolt m
     ((emptyInfo ''bkt'' ''k'' [])\<lparr>oiSSECustomerAlgorithm := ''AES256'', oiSSECustomerKeyMD5 := ''MDEyMw==''\<rparr>)) (ex_eng []))"

definition ex_key_req :: request where
  "ex_key_req = ex_req ''HEAD''
    [(''X-Amz-Server-Side-Encryption-Customer-Algorithm'', ''AES256''),
     (''X-Amz-Server-Side-Encryption-Customer-Key'', b64_encode ex_key),
     (''X-Amz-Server-Side-Encryption-Customer-Key-Md5'', ''MDEyMw=='')]"

lemma ex_key_params:
  "extractSSECParams ex_codec ex_key_req = Inr (Some \<lparr>scAlgorithm = ''AES256'', scKey = ex_key, scKeyMD5 = ''MDEyMw==''\<rparr>)"
  "HeaderGet (rqHeader ex_key_req) amzSSECAlgorithmHeader = ''AES256''" "ValuesGet (requestQuery ex_key_req) ''versionId'' = []"
proof -
  have n: "CanonicalMIMEHeaderKey amzSSECKeyHeader = ''X-Amz-Server-Side-Encryption-Customer-Key''" by code_simp
  have m: "b64_md5 ex_codec ex_key = ''MDEyMw==''" "length ex_key = 32" "ex_key \<noteq> []" by code_simp+
  show a: "HeaderGet (rqHeader ex_key_req) amzSSECAlgorithmHeader = ''AES256''"
    by (simp add: ex_key_req_def ex_req_def HeaderGet_def ValuesGet_def)
  have k: "HeaderGet (rqHeader ex_key_req) amzSSECKeyHeader = b64_encode ex_key"
    "HeaderGet (rqHeader ex_key_req) amzSSECKeyMD5Header = ''MDEyMw==''"
    by (simp_all add: ex_key_req_def ex_req_def HeaderGet_def ValuesGet_def n)
  have "b64_encode ex_key \<noteq> []" using m(3) b64_nonempty by simp
  then show "extractSSECParams ex_codec ex_key_req = Inr (Some \<lparr>scAlgorithm = ''AES256'', scKey = ex_key, scKeyMD5 = ''MDEyMw==''\<rparr>)"
    by (simp add: extractSSECParams_def ssecParamsFrom_def buildSSECParams_def a k m b64_decode_encode bindE_def)
  show "ValuesGet (requestQuery ex_key_req) ''versionId'' = []"
    by (simp add: requestQuery_def ex_key_req_def ex_req_def ParseQuery_def ValuesGet_def)
qed

theorem encrypted_object_needs_key_witness:
  "rpStatus (fst (serveHeadObject alist_bolt ex_codec ex_key_req ''bkt'' ''k'' ex_sealed)) = 200 \<and>
   (\<exists>key. b64_decode (HeaderGet (rqHeader ex_key_req) amzSSECKeyHeader) = Some key \<and> length key = 32 \<and> b64_md5 ex_codec key = ''MDEyMw=='')"
proof -
  let ?h = "\<lambda>k. HeadObject alist_bolt (Some \<lparr>scAlgorithm = ''AES256'', scKey = k, scKeyMD5 = ''MDEyMw==''\<rparr>) ''bkt'' ''k'' [] ex_sealed"
  have "map_sum id (\<lambda>i. (oiSSECustomerAlgorithm i, oiSSECustomerKeyMD5 i)) (fst (?h ex_key)) = Inr (''AES256'', ''MDEyMw=='')" by code_simp
  then obtain i e' where i: "?h ex_key = (Inr i, e')" "oiSSECustomerAlgorithm i = ''AES256''" "oiSSECustomerKeyMD5 i = ''MDEyMw==''"
    by (cases "?h ex_key"; cases "fst (?h ex_key)") auto
  have "preconditionsHold h ex_key_req i res = None" for h res
    by (rule unconditional_holds(1)) (unfold ex_key_req_def, rule ex_unconditional, simp)
  then have s: "rpStatus (fst (serveHeadObject alist_bolt ex_codec ex_key_req ''bkt'' ''k'' ex_sealed)) = 200"
    using i by (simp add: serveHeadObject_def ex_key_params Let_def)
  then have "rpStatus (fst (serveHeadObject alist_bolt ex_codec ex_key_req ''bkt'' ''k'' ex_sealed)) < 400" by simp
  from encrypted_object_needs_key [OF disjI2 [OF refl] this] i s show ?thesis by (auto simp: ex_key_params)
qed

theorem copy_source_reads_back_witness:
  "parseCopySource ''/bkt/a%3Fb/c?versionId=v1'' = Inr \<lparr>csBucket = ''bkt'', csKey = ''a?b/c'', csVersionID = ''v1'', csSSEC = None\<rparr>"
proof -
  have k: "''bkt'' \<noteq> []" "CHR ''/'' \<notin> set ''bkt''" "CHR ''?'' \<notin> set ''bkt''" "''a?b/c'' \<noteq> []" "\<not> keep_path CHR 0x25" "\<not> keep_path CHR ''?''"
    "CHR ''?'' \<notin> set ''v1''" "''/'' \<in> {[], ''/''}" by code_simp+
  have e: "''/'' @ ''bkt'' @ CHR ''/'' # url_escape keep_path ''a?b/c'' @ (if ''v1'' = [] then [] else versionSelector @ ''v1'') = ''/bkt/a%3Fb/c?versionId=v1''"
    by code_simp
  from copy_source_reads_back [OF k] show ?thesis unfolding e .
qed

definition ex_copy_req :: request where
  "ex_copy_req = ex_req ''PUT'' [(''X-Amz-Copy-Source'', ''bkt/k'')]"

definition ex_env3 :: env where
  "ex_env3 = ex_env\<lparr>evBlobRnd := ''ffffffffffffffff'', evUUID := ''u3''\<rparr>"



text \<open>A store that holds one object.\<close>

definition ex_src_info :: ObjectInfo where
  "ex_src_info = (emptyInfo ''bkt'' ''k'' [])\<lparr>oiSize := 3, oiContentType := ''text/plain'', oiBlobID := newBlobID ''0123456789abcdef''\<rparr>"

definition ex_src_db :: "alist_bucket bdb" where
  "ex_src_db = ex_db0\<lparr>dbObjects := (0, [(objectMetaKey ''bkt'' ''k'', VObj (ex_src_info\<lparr>oiIsLatest := True\<rparr>))]),
     dbStats := Some (0, [(objectCountKey, VBytes (PutUint64 1))])\<rparr>"

lemma ex_src_put: "putObjectMetaTx alist_bolt False ex_src_info ex_db0 = Inr ex_src_db" by code_simp

definition ex_src :: "alist_bucket engine" where
  "ex_src = (ex_eng [])\<lparr>egMeta := (ex_store [])\<lparr>msDbs := [''bkt'' \<mapsto> ex_src_db]\<rparr>,
     egFiles := [blobPath ''/d'' ''bkt'' (newBlobID ''0123456789abcdef'') \<mapsto> ''abc'']\<rparr>"

lemma ex_src_inv: "inv alist_bolt ''/d'' ex_src"
proof -
  let ?i = "ex_src_info\<lparr>oiIsLatest := True\<rparr>"
  have k: "nul \<notin> set ''k''" "rec_ok ''bkt'' ''k'' ex_src_info" "IsValidBucketName ''bkt''" by code_simp+
  note P = al.put_db [OF ex_src_put ex_db0_wf k(2,1)]
  have m: "meta_ok alist_bolt (egMeta ex_src)" using P k(3) by (simp add: meta_ok_def ex_src_def)
  have o: "obj_at alist_bolt (egMeta ex_src) = (\<lambda>b. if b = ''bkt'' then bk_get alist_bolt (dbObjects ex_src_db) else Map.empty)"
    by (rule ext) (simp add: obj_at_def ex_src_def)
  have z: "cur_db alist_bolt ex_db0 b x = None" "hist_db alist_bolt ex_db0 b x = Map.empty" for b x
    by (simp_all add: cur_of_def hist_of_def ex_db0_def alist_bolt_def)
  have "key_ids (cur_of (bk_get alist_bolt (dbObjects ex_src_db)) ''bkt'' x, hist_of (bk_get alist_bolt (dbObjects ex_src_db)) ''bkt'' x) \<subseteq> {ident_of ?i}"
    if "nul \<notin> set x" for x
    using P that z by (cases "x = ''k''") (auto simp: others_same_def key_ids_def spec_put_def ex_src_info_def emptyInfo_def)
  then have "map_ids ''bkt'' (bk_get alist_bolt (dbObjects ex_src_db)) \<subseteq> {ident_of ?i}" unfolding map_ids_def by blast
  moreover have "map_ids b Map.empty = {}" for b by (simp add: map_ids_def key_ids_def cur_of_def hist_of_def)
  ultimately have "ids alist_bolt (egMeta ex_src) \<subseteq> {ident_of ?i}" unfolding ids_def o by (auto split: if_splits)
  moreover from this have "inj_on (ident_path ''/d'') (ids alist_bolt (egMeta ex_src))" by (rule inj_on_subset [rotated]) simp
  moreover have "ident_path ''/d'' (ident_of ?i) = Inr (blobPath ''/d'' ''bkt'' (newBlobID ''0123456789abcdef''))" by code_simp
  ultimately have "disk_ok alist_bolt ''/d'' (egMeta ex_src, egFiles ex_src)"
    using m by (auto simp: disk_ok_def ex_src_def)
  then show ?thesis by (simp add: inv_def ex_src_def ex_eng_def)
qed

theorem copied_object_reads_back_witness:
  "\<exists>resp e'. serveCopyObject alist_bolt ex_codec ex_env3 ex_copy_req ''bkt'' ''k2'' (ex_src) = (resp, e') \<and> rpStatus resp = 200 \<and>
     rpBody (fst (serveGetObject alist_bolt ex_codec ex_env (\<lambda>_. None) [] (ex_req ''GET'' []) False ''bkt'' ''k2'' e')) = RawBody ''abc''"
proof -
  let ?c = "serveCopyObject alist_bolt ex_codec ex_env3 ex_copy_req ''bkt'' ''k2'' (ex_src)"
  let ?src = "\<lparr>csBucket = ''bkt'', csKey = ''k'', csVersionID = [], csSSEC = None\<rparr>" and ?g = "ex_req ''GET'' []"
  have r: "is_rooted ''/d''" by code_simp
  have u: "utf8_valid ''k2''" "env_ok ex_env3" "utf8_valid ''text/plain''" by code_simp+
  have f: "egFiles (ex_src) (blobPath ''/d'' ''bkt'' (newBlobID (evBlobRnd ex_env3))) = None" by code_simp
  have m: "egMaxObjectSize (ex_src) < 2 ^ 63 - 1" by code_simp
  have x: "parseCopySource (copySourceHeader ex_copy_req) = Inr ?src" "extractCopySourceSSECParams ex_codec ex_copy_req = Inr None"
    "extractSSECParams ex_codec ?g = extractSSECParams ex_codec ex_copy_req"
    "ValuesGet (requestQuery ?g) ''versionId'' = []" "HeaderGet (rqHeader ?g) ''Range'' = []" by code_simp+
  let ?get = "GetObject alist_bolt ex_codec ex_env3 None ''bkt'' ''k'' [] (ex_src)"
  have "map_sum id (\<lambda>(d, _, i). (d, oiSize i, oiContentType i)) (fst ?get) = Inr (''abc'', 3, ''text/plain'')" by code_simp
  then obtain kind info e1 where get: "?get = (Inr (''abc'', kind, info), e1)" "oiSize info = 3" "oiContentType info = ''text/plain''"
    by (cases ?get; cases "fst ?get") auto
  have "is_ok (fst (PutObject alist_bolt ex_codec ex_env3 None ''bkt'' ''k2'' (ex_rd ''abc'') 3 ''text/plain'' (snd ?get)))" by code_simp
  then obtain i e' where put: "PutObject alist_bolt ex_codec ex_env3 None ''bkt'' ''k2'' (ex_rd ''abc'') 3 ''text/plain'' e1 = (Inr i, e')"
    using get(1) by (cases "PutObject alist_bolt ex_codec ex_env3 None ''bkt'' ''k2'' (ex_rd ''abc'') 3 ''text/plain'' e1") (auto simp: is_ok_iff)
  have "validateBucketName ''bkt'' = Inr ()" by code_simp
  then have "CopyObject alist_bolt ex_codec ex_env3 None ?src ''bkt'' ''k2'' (ex_src) = (Inr i, e')"
    using get put by (simp add: CopyObject_def opM_def liftM_def ex_rd_def)
  moreover have "extractSSECParams ex_codec ex_copy_req = Inr None" by code_simp
  ultimately obtain resp where p: "?c = (resp, e')" and s: "rpStatus resp = 200"
    using x(1,2) by (simp add: serveCopyObject_def writeXML_def)
  have c: "unconditional ?g" by (rule ex_unconditional) code_simp
  have "utf8_valid (oiContentType info)" using get(3) u(3) by simp
  from copied_object_reads_back [OF alist_laws ex_src_inv u(2) r u(1) f m ex_gunzip ex_opens x(1,2) _ this p s x(3,4) c x(5)] get(1) p s
  show ?thesis by auto
qed

definition ex_info :: ObjectInfo where
  "ex_info = (emptyInfo ''bkt'' ''k'' [])\<lparr>oiETag := ''0aff-2''\<rparr>"

theorem unquoted_if_match_refused_witness:
  "rpStatus (serveObject (\<lambda>_. None) [] (ex_req ''GET'' [(''If-Match'', ''0aff-2'')]) False ''/bkt/k'' (''abc'', StreamReader, ex_info)) = 200 \<and>
   rpStatus (serveObject (\<lambda>_. None) [] (ex_req ''GET'' [(''If-Match'', ''0aff-2'')]) False ''/bkt/k'' (''abc'', FileReader, ex_info)) = 412"
proof -
  let ?g = "ex_req ''GET'' [(''If-Match'', ''0aff-2'')]"
  have "HeaderGet (rqHeader ?g) ''If-Match'' = oiETag ex_info" "oiETag ex_info = hex_encode [CHR 0x0A, CHR 0xFF] @ ''-2''"
    "HeaderGet (rqHeader ?g) ''If-None-Match'' = []" "HeaderGet (rqHeader ?g) ''Range'' = []" by code_simp+
  from unquoted_if_match_refused [OF this(1,2) _ this(3,4), of _ "''/bkt/k''" "\<lambda>_. None" "[]" False "''abc''"] show ?thesis by simp
qed

end
