(* ===== verification/List_Handlers.thy ===== *)
theory List_Handlers
  imports Object_Handlers Listing
begin

text \<open>
  internal/s3api/list_handlers.go and MaxKeys of internal/httpx/clientip.go: the listings of
  objects, versions, uploads and parts, from the query to the document of the reply. A
  result is an error reply or the document; what a client reads of the document's text is
  xml_text, for encoding/xml writes U+FFFD for what XML cannot hold.
\<close>

subsection \<open>Text in XML\<close>

text \<open>A rune that XML admits: tab, newline, carriage return, and everything from the space
  on but U+FFFE and U+FFFF.\<close>

definition xml_rune :: "string \<Rightarrow> bool" where
  "xml_rune r \<longleftrightarrow>
    (case r of
       [c] \<Rightarrow> 32 \<le> byte c \<or> byte c = 9 \<or> byte c = 10 \<or> byte c = 13
     | _ \<Rightarrow> r \<noteq> [CHR 0xEF, CHR 0xBF, CHR 0xBE] \<and> r \<noteq> [CHR 0xEF, CHR 0xBF, CHR 0xBF])"

fun xml_text :: "string \<Rightarrow> string" where
  "xml_text [] = []"
| "xml_text (a # s) = (case rune_width (a # s) of
     0 \<Rightarrow> CHR 0xEF # CHR 0xBF # CHR 0xBD # xml_text s
   | Suc n \<Rightarrow> (if xml_rune (a # take n s) then a # take n s else [CHR 0xEF, CHR 0xBF, CHR 0xBD]) @ xml_text (drop n s))"

lemma xml_text_ascii: "\<forall>c\<in>set s. 32 \<le> byte c \<and> byte c < 128 \<Longrightarrow> xml_text s = s"
  by (induction s) (auto simp: xml_rune_def)

subsection \<open>Page sizes\<close>

definition MaxPageSize :: int where "MaxPageSize = 1000"

definition MaxKeys :: "string \<Rightarrow> int \<Rightarrow> int" where
  "MaxKeys raw def =
    (if raw = [] then def
     else case Atoi raw of
       None \<Rightarrow> def
     | Some v \<Rightarrow> if v \<le> 0 then def else if v > MaxPageSize then MaxPageSize else v)"

lemma MaxKeys_bounds: "1 \<le> def \<Longrightarrow> def \<le> MaxPageSize \<Longrightarrow> 1 \<le> MaxKeys raw def \<and> MaxKeys raw def \<le> MaxPageSize"
  by (auto simp: MaxKeys_def split: option.split)

subsection \<open>ListObjects\<close>

record ContentsXML =
  coKey :: string
  coLastModified :: string
  coETag :: string
  coSize :: int

definition toContentsXML :: "ObjectInfo list \<Rightarrow> ContentsXML list" where
  "toContentsXML objects =
    map (\<lambda>obj. \<lparr>coKey = oiKey obj, coLastModified = IsoMillis (oiLastModified obj), coETag = quoted (oiETag obj), coSize = oiSize obj\<rparr>) objects"

record ListBucketResult =
  lbName :: string
  lbPrefix :: string
  lbDelimiter :: string
  lbMaxKeys :: int
  lbIsTruncated :: bool
  lbKeyCount :: int
  lbContinuationToken :: string
  lbNextContinuationToken :: string
  lbStartAfter :: string
  lbContents :: "ContentsXML list"
  lbCommonPrefixes :: "string list"

definition listInputV2 :: "url_values \<Rightarrow> string \<Rightarrow> ListObjectsInput" where
  "listInputV2 query bucket =
    \<lparr>inBucket = bucket, inPrefix = ValuesGet query ''prefix'', inDelimiter = ValuesGet query ''delimiter'',
     inMaxKeys = MaxKeys (ValuesGet query ''max-keys'') 1000, inContinuationToken = ValuesGet query ''continuation-token'',
     inStartAfter = ValuesGet query ''start-after''\<rparr>"

definition resultV2 :: "ListObjectsInput \<Rightarrow> ListObjectsOutput \<Rightarrow> ListBucketResult" where
  "resultV2 input output =
    \<lparr>lbName = inBucket input, lbPrefix = inPrefix input, lbDelimiter = inDelimiter input, lbMaxKeys = inMaxKeys input,
     lbIsTruncated = outIsTruncated output, lbKeyCount = outKeyCount output, lbContinuationToken = inContinuationToken input,
     lbNextContinuationToken = outNextContinuationToken output, lbStartAfter = inStartAfter input,
     lbContents = toContentsXML (outObjects output), lbCommonPrefixes = outCommonPrefixes output\<rparr>"

definition bucketResource :: "string \<Rightarrow> string" where
  "bucketResource bucket = CHR ''/'' # bucket"

text \<open>The listing's fuel is that of ListObjects; None is a listing that does not end.\<close>

definition handleListObjectsV2 ::
  "nat \<Rightarrow> 'b bolt \<Rightarrow> request \<Rightarrow> string \<Rightarrow> 'b mstore \<Rightarrow> ((response + ListBucketResult) \<times> 'b mstore) option" where
  "handleListObjectsV2 fuel B r bucket m =
    (let input = listInputV2 (requestQuery r) bucket in
     case ListObjects fuel B m input of
       None \<Rightarrow> None
     | Some (Inl x, m) \<Rightarrow> Some (Inl (handleStorageError x (bucketResource bucket)), m)
     | Some (Inr output, m) \<Rightarrow> Some (Inr (resultV2 input output), m))"

record ListBucketResultV1 =
  l1Name :: string
  l1Prefix :: string
  l1Marker :: string
  l1NextMarker :: string
  l1Delimiter :: string
  l1MaxKeys :: int
  l1IsTruncated :: bool
  l1Contents :: "ContentsXML list"
  l1CommonPrefixes :: "string list"

definition listInputV1 :: "url_values \<Rightarrow> string \<Rightarrow> ListObjectsInput" where
  "listInputV1 query bucket =
    \<lparr>inBucket = bucket, inPrefix = ValuesGet query ''prefix'', inDelimiter = ValuesGet query ''delimiter'',
     inMaxKeys = MaxKeys (ValuesGet query ''max-keys'') 1000, inContinuationToken = [], inStartAfter = ValuesGet query ''marker''\<rparr>"

definition resultV1 :: "ListObjectsInput \<Rightarrow> ListObjectsOutput \<Rightarrow> ListBucketResultV1" where
  "resultV1 input output =
    \<lparr>l1Name = inBucket input, l1Prefix = inPrefix input, l1Marker = inStartAfter input,
     l1NextMarker = (if outIsTruncated output then outNextContinuationToken output else []),
     l1Delimiter = inDelimiter input, l1MaxKeys = inMaxKeys input, l1IsTruncated = outIsTruncated output,
     l1Contents = toContentsXML (outObjects output), l1CommonPrefixes = outCommonPrefixes output\<rparr>"

definition handleListObjectsV1 ::
  "nat \<Rightarrow> 'b bolt \<Rightarrow> request \<Rightarrow> string \<Rightarrow> 'b mstore \<Rightarrow> ((response + ListBucketResultV1) \<times> 'b mstore) option" where
  "handleListObjectsV1 fuel B r bucket m =
    (let input = listInputV1 (requestQuery r) bucket in
     case ListObjects fuel B m input of
       None \<Rightarrow> None
     | Some (Inl x, m) \<Rightarrow> Some (Inl (handleStorageError x (bucketResource bucket)), m)
     | Some (Inr output, m) \<Rightarrow> Some (Inr (resultV1 input output), m))"

definition isListV2 :: "request \<Rightarrow> bool" where
  "isListV2 r \<longleftrightarrow> ValuesGet (requestQuery r) ''list-type'' = ''2''"

subsection \<open>ListObjectVersions\<close>

definition versionIDOrNull :: "string \<Rightarrow> string" where
  "versionIDOrNull id' = (if id' = [] then ''null'' else id')"

record ObjectVersionXML =
  ovKey :: string
  ovVersionId :: string
  ovIsLatest :: bool
  ovLastModified :: string
  ovETag :: string
  ovSize :: int

record DeleteMarkerXML =
  dmKey :: string
  dmVersionId :: string
  dmIsLatest :: bool
  dmLastModified :: string

record ListVersionsResult =
  lrName :: string
  lrPrefix :: string
  lrKeyMarker :: string
  lrVersionIdMarker :: string
  lrNextKeyMarker :: string
  lrNextVersionIdMarker :: string
  lrDelimiter :: string
  lrMaxKeys :: int
  lrIsTruncated :: bool
  lrVersions :: "ObjectVersionXML list"
  lrDeleteMarkers :: "DeleteMarkerXML list"
  lrCommonPrefixes :: "string list"

definition versionsInput :: "url_values \<Rightarrow> string \<Rightarrow> ListVersionsInput" where
  "versionsInput query bucket =
    \<lparr>lvBucket = bucket, lvPrefix = ValuesGet query ''prefix'', lvDelimiter = ValuesGet query ''delimiter'',
     lvMaxKeys = MaxKeys (ValuesGet query ''max-keys'') 1000, lvKeyMarker = ValuesGet query ''key-marker'',
     lvVersionIDMarker = ValuesGet query ''version-id-marker''\<rparr>"

definition versionsResult :: "ListVersionsInput \<Rightarrow> ListVersionsOutput \<Rightarrow> ListVersionsResult" where
  "versionsResult input output =
    \<lparr>lrName = lvBucket input, lrPrefix = lvPrefix input, lrKeyMarker = lvKeyMarker input, lrVersionIdMarker = lvVersionIDMarker input,
     lrNextKeyMarker = voNextKeyMarker output, lrNextVersionIdMarker = voNextVersionIDMarker output,
     lrDelimiter = lvDelimiter input, lrMaxKeys = lvMaxKeys input, lrIsTruncated = voIsTruncated output,
     lrVersions = map (\<lambda>v. \<lparr>ovKey = oiKey v, ovVersionId = versionIDOrNull (oiVersionID v), ovIsLatest = oiIsLatest v,
       ovLastModified = IsoMillis (oiLastModified v), ovETag = quoted (oiETag v), ovSize = oiSize v\<rparr>) (voVersions output),
     lrDeleteMarkers = map (\<lambda>d. \<lparr>dmKey = oiKey d, dmVersionId = versionIDOrNull (oiVersionID d), dmIsLatest = oiIsLatest d,
       dmLastModified = IsoMillis (oiLastModified d)\<rparr>) (voDeleteMarkers output),
     lrCommonPrefixes = voCommonPrefixes output\<rparr>"

definition serveListObjectVersions ::
  "nat \<Rightarrow> 'b bolt \<Rightarrow> request \<Rightarrow> string \<Rightarrow> 'b mstore \<Rightarrow> ((response + ListVersionsResult) \<times> 'b mstore) option" where
  "serveListObjectVersions fuel B r bucket m =
    (let input = versionsInput (requestQuery r) bucket in
     case ListObjectVersions fuel B m input of
       None \<Rightarrow> None
     | Some (Inl x, m) \<Rightarrow> Some (Inl (handleStorageError x (bucketResource bucket)), m)
     | Some (Inr output, m) \<Rightarrow> Some (Inr (versionsResult input output), m))"

subsection \<open>ListMultipartUploads\<close>

record UploadXML =
  uxKey :: string
  uxUploadId :: string
  uxInitiated :: string

record ListMultipartUploadsResult =
  luBucket :: string
  luKeyMarker :: string
  luUploadIdMarker :: string
  luNextKeyMarker :: string
  luNextUploadIdMarker :: string
  luPrefix :: string
  luDelimiter :: string
  luMaxUploads :: int
  luIsTruncated :: bool
  luUploads :: "UploadXML list"

definition uploadsResult :: "url_values \<Rightarrow> string \<Rightarrow> MultipartUploadInfo list \<times> bool \<Rightarrow> ListMultipartUploadsResult" where
  "uploadsResult query bucket p =
    (case p of (uploads, truncated) \<Rightarrow>
     let entries = map (\<lambda>u. \<lparr>uxKey = muKey u, uxUploadId = muUploadID u, uxInitiated = IsoMillis (muCreated u)\<rparr>) uploads;
         more = (truncated \<and> entries \<noteq> []) in
     \<lparr>luBucket = bucket, luKeyMarker = ValuesGet query ''key-marker'', luUploadIdMarker = ValuesGet query ''upload-id-marker'',
      luNextKeyMarker = (if more then uxKey (last entries) else []),
      luNextUploadIdMarker = (if more then uxUploadId (last entries) else []),
      luPrefix = ValuesGet query ''prefix'', luDelimiter = ValuesGet query ''delimiter'',
      luMaxUploads = MaxKeys (ValuesGet query ''max-uploads'') 1000, luIsTruncated = truncated, luUploads = entries\<rparr>)"

definition serveListMultipartUploads ::
  "'b bolt \<Rightarrow> request \<Rightarrow> string \<Rightarrow> 'b mstore \<Rightarrow> (response + ListMultipartUploadsResult) \<times> 'b mstore" where
  "serveListMultipartUploads B r bucket m =
    (let query = requestQuery r in
     case ListMultipartUploads B m bucket (ValuesGet query ''prefix'') (ValuesGet query ''key-marker'')
            (ValuesGet query ''upload-id-marker'') (MaxKeys (ValuesGet query ''max-uploads'') 1000) of
       (Inl x, m) \<Rightarrow> (Inl (handleStorageError x (bucketResource bucket)), m)
     | (Inr p, m) \<Rightarrow> (Inr (uploadsResult query bucket p), m))"

subsection \<open>ListParts\<close>

record ListPartXML =
  pxPartNumber :: int
  pxETag :: string
  pxSize :: int

record ListPartsResult =
  lpBucket :: string
  lpKey :: string
  lpUploadId :: string
  lpPartNumberMarker :: int
  lpNextPartNumberMarker :: int
  lpMaxParts :: int
  lpIsTruncated :: bool
  lpParts :: "ListPartXML list"

definition partXML :: "PartInfo \<Rightarrow> ListPartXML" where
  "partXML p = \<lparr>pxPartNumber = piPartNumber p, pxETag = quoted (piETag p), pxSize = piSize p\<rparr>"

text \<open>The loop that collects a page, and the one that looks for a part after it.\<close>

fun pageParts :: "int \<Rightarrow> int \<Rightarrow> ListPartXML list \<Rightarrow> PartInfo list \<Rightarrow> ListPartXML list" where
  "pageParts marker maxParts entries [] = entries"
| "pageParts marker maxParts entries (p # ps) =
    (if piPartNumber p \<le> marker then pageParts marker maxParts entries ps
     else if int (length entries) \<ge> maxParts then entries
     else pageParts marker maxParts (entries @ [partXML p]) ps)"

definition partsTruncated :: "ListPartXML list \<Rightarrow> PartInfo list \<Rightarrow> bool \<times> int" where
  "partsTruncated entries parts =
    (if entries = [] then (False, 0)
     else
       let last' = pxPartNumber (last entries) in
       if list_ex (\<lambda>p. piPartNumber p > last') parts then (True, last') else (False, 0))"

definition partNumberMarkerOf :: "string \<Rightarrow> int" where
  "partNumberMarkerOf raw = (case Atoi raw of Some v \<Rightarrow> if v > 0 then v else 0 | None \<Rightarrow> 0)"

definition partsResult :: "url_values \<Rightarrow> string \<Rightarrow> string \<Rightarrow> PartInfo list \<Rightarrow> ListPartsResult" where
  "partsResult query bucket key parts =
    (let maxParts = MaxKeys (ValuesGet query ''max-parts'') 1000;
         marker = partNumberMarkerOf (ValuesGet query ''part-number-marker'');
         entries = pageParts marker maxParts [] parts in
     case partsTruncated entries parts of (truncated, next') \<Rightarrow>
     \<lparr>lpBucket = bucket, lpKey = key, lpUploadId = ValuesGet query ''uploadId'', lpPartNumberMarker = marker,
      lpNextPartNumberMarker = next', lpMaxParts = maxParts, lpIsTruncated = truncated, lpParts = entries\<rparr>)"

definition serveListParts ::
  "'b bolt \<Rightarrow> string \<Rightarrow> request \<Rightarrow> string \<Rightarrow> string \<Rightarrow> 'b mstore \<Rightarrow> (response + ListPartsResult) \<times> 'b mstore" where
  "serveListParts B dataDir r bucket key m =
    (case ListParts B m dataDir bucket key (ValuesGet (requestQuery r) ''uploadId'') of
       (Inl x, m) \<Rightarrow> (Inl (handleStorageError x (objectResource bucket key)), m)
     | (Inr parts, m) \<Rightarrow> (Inr (partsResult (requestQuery r) bucket key parts), m))"

end
