(* ===== verification/Bucket_Handlers.thy ===== *)
theory Bucket_Handlers
  imports Object_Handlers Lifecycle Multipart
begin

text \<open>
  The other handlers of internal/s3api: buckets and their settings (bucket_handlers.go and
  the CORS handlers of router.go), batch deletion (delete_handlers.go) and multipart uploads
  (multipart_handlers.go). The documents of requests are decoded by encoding/xml, whose
  decoders are parameters: functions of the bytes that can be read of the body.
\<close>

type_synonym 'a xml_decoder = "string \<Rightarrow> 'a option"

text \<open>What the decoder sees of a body: a LimitReader of it.\<close>

definition decodeXML :: "'a xml_decoder \<Rightarrow> string \<Rightarrow> 'a option" where
  "decodeXML xml body = xml (take maxXMLRequestBody body)"

definition malformedXML :: "string \<Rightarrow> response" where
  "malformedXML resource = writeS3Error [] ''MalformedXML'' ''The XML you provided was not well-formed'' resource"

definition emptyReply :: "nat \<Rightarrow> response" where
  "emptyReply status = \<lparr>rpStatus = status, rpHeader = [], rpBody = RawBody []\<rparr>"

definition bucketResourceOf :: "string \<Rightarrow> string" where
  "bucketResourceOf bucket = CHR ''/'' # bucket"

text \<open>An operation whose reply has no document.\<close>

definition replyUnit :: "nat \<Rightarrow> string \<Rightarrow> ('a, 'b) eop \<Rightarrow> 'b engine \<Rightarrow> response \<times> 'b engine" where
  "replyUnit status resource op e =
    (case op e of
       (Inl x, e') \<Rightarrow> (handleStorageError x resource, e')
     | (Inr _, e') \<Rightarrow> (emptyReply status, e'))"

text \<open>One whose reply is a document.\<close>

definition replyDoc :: "string \<Rightarrow> ('a, 'b) eop \<Rightarrow> 'b engine \<Rightarrow> (response + 'a) \<times> 'b engine" where
  "replyDoc resource op e =
    (case op e of
       (Inl x, e') \<Rightarrow> (Inl (handleStorageError x resource), e')
     | (Inr a, e') \<Rightarrow> (Inr a, e'))"

subsection \<open>Buckets\<close>

definition serveListBuckets :: "'b bolt \<Rightarrow> 'b engine \<Rightarrow> (response + (string \<times> string) list) \<times> 'b engine" where
  "serveListBuckets B = replyDoc ''/''
    (opM (ListBuckets B) (\<lambda>bs. retM (map (\<lambda>b. (biName b, IsoMillis (biCreationDate b))) bs)))"

definition serveCreateBucket :: "'b bolt \<Rightarrow> env \<Rightarrow> string \<Rightarrow> 'b engine \<Rightarrow> response \<times> 'b engine" where
  "serveCreateBucket B ev bucket e =
    (if \<not> IsValidBucketName bucket
     then (writeS3Error [] ''InvalidBucketName'' ''The specified bucket is not valid.'' (bucketResourceOf bucket), e)
     else (case CreateBucket B ev bucket e of
         (Inl x, e') \<Rightarrow> (handleStorageError x (bucketResourceOf bucket), e')
       | (Inr _, e') \<Rightarrow> ((emptyReply 200)\<lparr>rpHeader := HeaderSet [] ''Location'' (bucketResourceOf bucket)\<rparr>, e')))"

definition serveDeleteBucket :: "'b bolt \<Rightarrow> env \<Rightarrow> string \<Rightarrow> 'b engine \<Rightarrow> response \<times> 'b engine" where
  "serveDeleteBucket B ev bucket = replyUnit 204 (bucketResourceOf bucket) (DeleteBucket B ev bucket)"

definition NoSuchBucketReply :: "string \<Rightarrow> response" where
  "NoSuchBucketReply bucket = writeS3Error [] ''NoSuchBucket'' ''The specified bucket does not exist'' (bucketResourceOf bucket)"

definition serveHeadBucket :: "'b bolt \<Rightarrow> string \<Rightarrow> 'b engine \<Rightarrow> response \<times> 'b engine" where
  "serveHeadBucket B bucket e =
    (case BucketExistsE B bucket e of
       (Inl x, e') \<Rightarrow> (handleStorageError x (bucketResourceOf bucket), e')
     | (Inr exists', e') \<Rightarrow> (if exists' then emptyReply 200 else NoSuchBucketReply bucket, e'))"

definition serveGetBucketLocation :: "'b bolt \<Rightarrow> string \<Rightarrow> string \<Rightarrow> 'b engine \<Rightarrow> (response + string) \<times> 'b engine" where
  "serveGetBucketLocation B region bucket e =
    (case BucketExistsE B bucket e of
       (Inl x, e') \<Rightarrow> (Inl (handleStorageError x (bucketResourceOf bucket)), e')
     | (Inr exists', e') \<Rightarrow> (if exists' then Inr region else Inl (NoSuchBucketReply bucket), e'))"

subsection \<open>Settings\<close>

definition serveGetBucketVersioning :: "'b bolt \<Rightarrow> string \<Rightarrow> 'b engine \<Rightarrow> (response + string) \<times> 'b engine" where
  "serveGetBucketVersioning B bucket = replyDoc (bucketResourceOf bucket)
    (opM (GetBucketVersioningE B bucket) (\<lambda>status. retM (if status = ''Enabled'' \<or> status = ''Suspended'' then status else [])))"

definition servePutBucketVersioning :: "'b bolt \<Rightarrow> string xml_decoder \<Rightarrow> string \<Rightarrow> string \<Rightarrow> 'b engine \<Rightarrow> response \<times> 'b engine" where
  "servePutBucketVersioning B xml body bucket e =
    (case decodeXML xml body of
       None \<Rightarrow> (malformedXML (bucketResourceOf bucket), e)
     | Some status \<Rightarrow> replyUnit 200 (bucketResourceOf bucket) (SetBucketVersioning B bucket (if status = [] then ''Disabled'' else status)) e)"

definition serveGetBucketLifecycle :: "'b bolt \<Rightarrow> string \<Rightarrow> 'b engine \<Rightarrow> (response + LifecycleConfiguration) \<times> 'b engine" where
  "serveGetBucketLifecycle B bucket = replyDoc (bucketResourceOf bucket) (GetBucketLifecycleE B bucket)"

definition servePutBucketLifecycle :: "'b bolt \<Rightarrow> LifecycleConfiguration xml_decoder \<Rightarrow> string \<Rightarrow> string \<Rightarrow> 'b engine \<Rightarrow> response \<times> 'b engine" where
  "servePutBucketLifecycle B xml body bucket e =
    (case decodeXML xml body of
       None \<Rightarrow> (malformedXML (bucketResourceOf bucket), e)
     | Some lc \<Rightarrow> replyUnit 200 (bucketResourceOf bucket) (PutBucketLifecycleE B bucket (Some lc)) e)"

definition serveDeleteBucketLifecycle :: "'b bolt \<Rightarrow> string \<Rightarrow> 'b engine \<Rightarrow> response \<times> 'b engine" where
  "serveDeleteBucketLifecycle B bucket = replyUnit 204 (bucketResourceOf bucket) (DeleteBucketLifecycleE B bucket)"

definition serveGetBucketLogging :: "'b bolt \<Rightarrow> string \<Rightarrow> 'b engine \<Rightarrow> (response + LoggingEnabled option) \<times> 'b engine" where
  "serveGetBucketLogging B bucket = replyDoc (bucketResourceOf bucket)
    (opM (GetBucketLoggingE B bucket) (\<lambda>lg. retM (case lg of None \<Rightarrow> None | Some s \<Rightarrow> s)))"

definition servePutBucketLogging :: "'b bolt \<Rightarrow> LoggingEnabled option xml_decoder \<Rightarrow> string \<Rightarrow> string \<Rightarrow> 'b engine \<Rightarrow> response \<times> 'b engine" where
  "servePutBucketLogging B xml body bucket e =
    (case decodeXML xml body of
       None \<Rightarrow> (malformedXML (bucketResourceOf bucket), e)
     | Some lg \<Rightarrow> replyUnit 200 (bucketResourceOf bucket) (PutBucketLoggingE B bucket (Some lg)) e)"

text \<open>A rule of the stored configuration and of the document have the same fields, so the
  copies of them are the rules.\<close>

definition serveGetBucketCORS :: "'b bolt \<Rightarrow> string \<Rightarrow> 'b engine \<Rightarrow> (response + CORSRule list) \<times> 'b engine" where
  "serveGetBucketCORS B bucket e =
    (case GetBucketCORSE B bucket e of
       (Inl x, e') \<Rightarrow> (Inl (handleStorageError x (bucketResourceOf bucket)), e')
     | (Inr None, e') \<Rightarrow>
         (Inl (writeS3Error [] ''NoSuchCORSConfiguration'' ''The CORS configuration does not exist'' (bucketResourceOf bucket)), e')
     | (Inr (Some rules), e') \<Rightarrow> (Inr rules, e'))"

definition servePutBucketCORS :: "'b bolt \<Rightarrow> CORSRule list xml_decoder \<Rightarrow> string \<Rightarrow> string \<Rightarrow> 'b engine \<Rightarrow> response \<times> 'b engine" where
  "servePutBucketCORS B xml body bucket e =
    (case decodeXML xml body of
       None \<Rightarrow> (malformedXML (bucketResourceOf bucket), e)
     | Some rules \<Rightarrow> replyUnit 200 (bucketResourceOf bucket) (PutBucketCORSE B bucket (Some rules)) e)"

definition serveDeleteBucketCORS :: "'b bolt \<Rightarrow> string \<Rightarrow> 'b engine \<Rightarrow> response \<times> 'b engine" where
  "serveDeleteBucketCORS B bucket = replyUnit 204 (bucketResourceOf bucket) (DeleteBucketCORSE B bucket)"

subsection \<open>DeleteObjects\<close>

definition maxDeleteObjectsPerRequest :: nat where "maxDeleteObjectsPerRequest = 1000"

record DeletedObject =
  doKey :: string
  doVersionId :: string
  doDeleteMarker :: bool
  doDeleteMarkerVersionId :: string

record DeleteObjectError =
  deKey :: string
  deVersionId :: string
  deCode :: string
  deMessage :: string

record DeleteObjectsResult =
  drDeleted :: "DeletedObject list"
  drErrors :: "DeleteObjectError list"

definition deleteError :: "string \<Rightarrow> string \<Rightarrow> gerr \<Rightarrow> DeleteObjectError" where
  "deleteError key versionID x =
    (case x of
       S3Error code msg \<Rightarrow> \<lparr>deKey = key, deVersionId = versionID, deCode = code, deMessage = msg\<rparr>
     | _ \<Rightarrow> \<lparr>deKey = key, deVersionId = versionID, deCode = ''InternalError'', deMessage = ''We encountered an internal error. Please try again.''\<rparr>)"

text \<open>The environment of each deletion: its clock and its random bytes.\<close>

fun deleteEach ::
  "'b bolt \<Rightarrow> (nat \<Rightarrow> env) \<Rightarrow> string \<Rightarrow> bool \<Rightarrow> (string \<times> string) list \<Rightarrow> DeleteObjectsResult \<Rightarrow> 'b engine \<Rightarrow> DeleteObjectsResult \<times> 'b engine" where
  "deleteEach B evs bucket quiet [] result e = (result, e)"
| "deleteEach B evs bucket quiet ((key, versionID) # objs) result e =
    (if key = [] then
       deleteEach B evs bucket quiet objs (result\<lparr>drErrors := drErrors result @
         [\<lparr>deKey = key, deVersionId = [], deCode = ''InvalidArgument'', deMessage = ''The object key must not be empty''\<rparr>]\<rparr>) e
     else (case DeleteObject B (evs (length objs)) bucket key versionID e of
       (Inl x, e') \<Rightarrow> deleteEach B evs bucket quiet objs (result\<lparr>drErrors := drErrors result @ [deleteError key versionID x]\<rparr>) e'
     | (Inr (isMarker, newID), e') \<Rightarrow>
         deleteEach B evs bucket quiet objs
           (if quiet then result
            else result\<lparr>drDeleted := drDeleted result @ [\<lparr>doKey = key, doVersionId = versionID, doDeleteMarker = isMarker,
              doDeleteMarkerVersionId = newID\<rparr>]\<rparr>) e'))"

definition serveDeleteObjects ::
  "'b bolt \<Rightarrow> (nat \<Rightarrow> env) \<Rightarrow> (bool \<times> (string \<times> string) list) xml_decoder \<Rightarrow> string \<Rightarrow> string \<Rightarrow> 'b engine \<Rightarrow>
    (response + DeleteObjectsResult) \<times> 'b engine" where
  "serveDeleteObjects B evs xml body bucket e =
    (let resource = bucketResourceOf bucket in
     case decodeXML xml body of
       None \<Rightarrow> (Inl (malformedXML resource), e)
     | Some (quiet, objs) \<Rightarrow>
       if objs = [] then (Inl (writeS3Error [] ''MalformedXML'' ''The request must contain at least one Object'' resource), e)
       else if length objs > maxDeleteObjectsPerRequest then
         (Inl (writeS3Error [] ''MalformedXML'' ''The request contains more than the maximum number of keys allowed in a single delete'' resource), e)
       else (case deleteEach B evs bucket quiet objs \<lparr>drDeleted = [], drErrors = []\<rparr> e of (result, e') \<Rightarrow> (Inr result, e')))"

subsection \<open>Multipart uploads\<close>

definition ssecReplyHeaders :: "header \<Rightarrow> SSECParams option \<Rightarrow> header" where
  "ssecReplyHeaders h params =
    (case params of None \<Rightarrow> h
     | Some p \<Rightarrow> HeaderSet (HeaderSet h amzSSECAlgorithmHeader (scAlgorithm p)) amzSSECKeyMD5Header (scKeyMD5 p))"

text \<open>The reply carries the upload's ID.\<close>

definition serveCreateMultipartUpload ::
  "'b bolt \<Rightarrow> codec \<Rightarrow> env \<Rightarrow> request \<Rightarrow> string \<Rightarrow> string \<Rightarrow> 'b engine \<Rightarrow> (response + string) \<times> 'b engine" where
  "serveCreateMultipartUpload B cd ev r bucket key e =
    (let ct = HeaderGet (rqHeader r) ''Content-Type'';
         contentType = (if ct = [] then ''application/octet-stream'' else ct);
         resource = objectResource bucket key in
     case extractSSECParams cd r of
       Inl x \<Rightarrow> (Inl (writeSSECError x resource), e)
     | Inr params \<Rightarrow> replyDoc resource (opM (CreateMultipartUpload B ev params bucket key contentType) (\<lambda>u. retM (muUploadID u))) e)"

definition partNumberOf :: "request \<Rightarrow> int option" where
  "partNumberOf r =
    (case Atoi (ValuesGet (requestQuery r) ''partNumber'') of
       None \<Rightarrow> None
     | Some n \<Rightarrow> if n < 1 \<or> n > MaxPartNumber then None else Some n)"

definition partNumberError :: "string \<Rightarrow> response" where
  "partNumberError resource = writeS3Error [] ''InvalidArgument'' (''Part number must be an integer between 1 and '' @ Itoa MaxPartNumber @ '', inclusive.'') resource"

definition serveUploadPart ::
  "'b bolt \<Rightarrow> crypto \<Rightarrow> codec \<Rightarrow> env \<Rightarrow> request \<Rightarrow> string \<times> ioerr \<Rightarrow> int \<Rightarrow> string \<Rightarrow> string \<Rightarrow> 'b engine \<Rightarrow> response \<times> 'b engine" where
  "serveUploadPart B cy cd ev r stream size' bucket key e =
    (let uploadID = ValuesGet (requestQuery r) ''uploadId''; resource = objectResource bucket key in
     case partNumberOf r of
       None \<Rightarrow> (partNumberError resource, e)
     | Some n \<Rightarrow>
     (case extractSSECParams cd r of
       Inl x \<Rightarrow> (writeSSECError x resource, e)
     | Inr params \<Rightarrow>
     (case verifiedBodyReader cy cd r (streamBody stream) of
       Inl x \<Rightarrow> (handleStorageError x resource, e)
     | Inr body \<Rightarrow>
     (case UploadPart B cd ev params bucket key uploadID n \<lparr>rdData = fst body, rdFails = snd body \<noteq> None\<rparr> size' e of
       (Inl x, e') \<Rightarrow> (handleStorageError (unwrapWrite (egMaxObjectSize e) body x) resource, e')
     | (Inr part, e') \<Rightarrow> (\<lparr>rpStatus = 200, rpHeader = HeaderSet (ssecReplyHeaders [] params) ''ETag'' (quoted (piETag part)), rpBody = RawBody []\<rparr>, e')))))"

text \<open>The part's data and size: the whole source or the range of it that is asked for.\<close>

definition copyPartBody :: "string \<Rightarrow> string \<Rightarrow> ObjectInfo \<Rightarrow> (string \<times> int) option" where
  "copyPartBody rangeHeader d info =
    (if rangeHeader = [] then Some (d, oiSize info)
     else case parseRange rangeHeader (oiSize info) of
       Inr [ra] \<Rightarrow> Some (slice d ra, hrLength ra)
     | _ \<Rightarrow> None)"

definition copySourceRange :: "request \<Rightarrow> string" where
  "copySourceRange r = HeaderGet (rqHeader r) ''x-amz-copy-source-range''"

definition serveUploadPartCopy :: "'b bolt \<Rightarrow> codec \<Rightarrow> env \<Rightarrow> request \<Rightarrow> string \<Rightarrow> string \<Rightarrow> 'b engine \<Rightarrow> response \<times> 'b engine" where
  "serveUploadPartCopy B cd ev r bucket key e =
    (let uploadID = ValuesGet (requestQuery r) ''uploadId''; resource = objectResource bucket key in
     case partNumberOf r of
       None \<Rightarrow> (partNumberError resource, e)
     | Some n \<Rightarrow>
     (case parseCopySource (copySourceHeader r) of
       Inl msg \<Rightarrow> (writeS3Error [] ''InvalidArgument'' msg resource, e)
     | Inr src \<Rightarrow>
     (case extractCopySourceSSECParams cd r of
       Inl x \<Rightarrow> (writeSSECError x resource, e)
     | Inr srcParams \<Rightarrow>
     (case extractSSECParams cd r of
       Inl x \<Rightarrow> (writeSSECError x resource, e)
     | Inr dstParams \<Rightarrow>
     (case GetObject B cd ev srcParams (csBucket src) (csKey src) (csVersionID src) e of
       (Inl x, e') \<Rightarrow> (handleStorageError (fst x) resource, e')
     | (Inr (d, _, info), e') \<Rightarrow>
     (case copyPartBody (copySourceRange r) d info of
       None \<Rightarrow> (writeS3Error [] ''InvalidArgument'' ''The x-amz-copy-source-range value is invalid'' resource, e')
     | Some (data, size') \<Rightarrow>
     (case UploadPart B cd ev dstParams bucket key uploadID n \<lparr>rdData = data, rdFails = False\<rparr> size' e' of
       (Inl x, e') \<Rightarrow> (handleStorageError x resource, e')
     | (Inr part, e') \<Rightarrow>
         (let reply = writeXML 200 (CopyObjectResult (IsoMillis (evNow ev)) (quoted (piETag part))) in
          (reply\<lparr>rpHeader := HeaderSet (ssecReplyHeaders [] dstParams) ''Content-Type'' ''application/xml''\<rparr>, e')))))))))"

definition stripQuotes :: "string \<Rightarrow> string" where
  "stripQuotes etag =
    (if length etag \<ge> 2 \<and> hd etag = quote \<and> last etag = quote then butlast (tl etag) else etag)"

record CompleteResult =
  crLocation :: string
  crBucket :: string
  crKey :: string
  crETag :: string
  crHeader :: header

definition serveCompleteMultipartUpload ::
  "'b bolt \<Rightarrow> codec \<Rightarrow> env \<Rightarrow> CompletePart list xml_decoder \<Rightarrow> request \<Rightarrow> string \<Rightarrow> string \<Rightarrow> string \<Rightarrow> 'b engine \<Rightarrow>
    (response + CompleteResult) \<times> 'b engine" where
  "serveCompleteMultipartUpload B cd ev xml r body bucket key e =
    (let uploadID = ValuesGet (requestQuery r) ''uploadId''; resource = objectResource bucket key in
     case decodeXML xml body of
       None \<Rightarrow> (Inl (malformedXML resource), e)
     | Some reqParts \<Rightarrow>
     (case extractSSECParams cd r of
       Inl x \<Rightarrow> (Inl (writeSSECError x resource), e)
     | Inr params \<Rightarrow> replyDoc resource
         (opM (CompleteMultipartUpload B cd ev params bucket key uploadID (map (\<lambda>p. p\<lparr>cpETag := stripQuotes (cpETag p)\<rparr>) reqParts)) (\<lambda>info.
          retM \<lparr>crLocation = objectResource bucket key, crBucket = bucket, crKey = key, crETag = quoted (oiETag info),
            crHeader = setSSECResponseHeaders (setVersionID [] info) info\<rparr>)) e))"

definition serveAbortMultipartUpload :: "'b bolt \<Rightarrow> env \<Rightarrow> request \<Rightarrow> string \<Rightarrow> string \<Rightarrow> 'b engine \<Rightarrow> response \<times> 'b engine" where
  "serveAbortMultipartUpload B ev r bucket key =
    replyUnit 204 (objectResource bucket key) (AbortMultipartUpload B ev bucket key (ValuesGet (requestQuery r) ''uploadId''))"

end
