(* ===== verification/Batch_Props.thy ===== *)
theory Batch_Props
  imports List_Handlers Bucket_Handlers Multipart_Props Lifecycle_Props Listing_Props Router_Props
begin

text \<open>
  What the listing and batch handlers promise: a client that pages through the parts of an
  upload sees each of them once, and a batch deletion answers for every key it names and
  touches no other.
\<close>

subsection \<open>Pages of parts\<close>

lemma pageParts_eq:
  "pageParts marker n entries ps =
    entries @ map partXML (take (nat (n - int (length entries))) (filter (\<lambda>p. marker < piPartNumber p) ps))"
proof (induction ps arbitrary: entries)
  case (Cons p ps)
  show ?case
  proof (cases "piPartNumber p \<le> marker \<or> int (length entries) \<ge> n")
    case False
    then have "nat (n - int (length entries)) = Suc (nat (n - int (length (entries @ [partXML p]))))" by simp arith
    with False Cons.IH [of "entries @ [partXML p]"] show ?thesis by simp
  qed (use Cons.IH in auto)
qed simp

lemma partXML_number [simp]: "pxPartNumber (partXML p) = piPartNumber p"
  by (simp add: partXML_def)

text \<open>A page of parts in the order of their numbers, taken after a marker: what there is
  after it, or the first of it and a marker for the rest.\<close>

lemma page_of_sorted:
  assumes s: "sorted (map piPartNumber ps)" "distinct (map piPartNumber ps)" and n: "1 \<le> n"
    and f: "rest = filter (\<lambda>p. marker < piPartNumber p) ps"
  shows "partsTruncated (pageParts marker n [] ps) ps =
      (if int (length rest) \<le> n then (False, 0) else (True, piPartNumber (rest ! (nat n - 1))))"
    and "int (length rest) > n \<Longrightarrow> filter (\<lambda>p. piPartNumber (rest ! (nat n - 1)) < piPartNumber p) ps = drop (nat n) rest"
proof -
  have sw: "sorted_wrt (\<lambda>p q. piPartNumber p < piPartNumber q) ps"
    using strict_sorted_iff [of "map piPartNumber ps"] s by (simp only: sorted_wrt_map simp_thms)
  then have sr: "sorted_wrt (\<lambda>p q. piPartNumber p < piPartNumber q) rest" unfolding f by (rule sorted_wrt_filter)
  have nth: "filter (\<lambda>p. piPartNumber (rest ! i) < piPartNumber p) ps = drop (Suc i) rest" if i: "i < length rest" for i
  proof -
    have m: "marker < piPartNumber (rest ! i)" using nth_mem [OF i] f by simp
    have "filter (\<lambda>p. piPartNumber (rest ! i) < piPartNumber p) ps = filter (\<lambda>p. piPartNumber (rest ! i) < piPartNumber p) rest"
      unfolding f filter_filter by (rule filter_cong) (use m f in auto)
    also have "\<dots> = filter (\<lambda>p. piPartNumber (rest ! i) < piPartNumber p) (take (Suc i) rest @ drop (Suc i) rest)" by simp
    also have "\<dots> = drop (Suc i) rest"
    proof -
      have a: "\<not> piPartNumber (rest ! i) < piPartNumber p" if p: "p \<in> set (take (Suc i) rest)" for p
      proof -
        from p obtain j where "j < length (take (Suc i) rest)" "take (Suc i) rest ! j = p" unfolding in_set_conv_nth by blast
        then have j: "j \<le> i" "p = rest ! j" by auto
        then show ?thesis using sorted_wrt_nth_less [OF sr _ i, of j] by (cases "j = i") auto
      qed
      have b: "piPartNumber (rest ! i) < piPartNumber p" if p: "p \<in> set (drop (Suc i) rest)" for p
      proof -
        from p obtain j where "j < length rest - Suc i" "p = drop (Suc i) rest ! j" by (auto simp: in_set_conv_nth)
        then have j: "i < Suc i + j" "Suc i + j < length rest" "p = rest ! (Suc i + j)" by (auto simp: nth_drop)
        then show ?thesis using sorted_wrt_nth_less [OF sr] by blast
      qed
      have "filter (\<lambda>p. piPartNumber (rest ! i) < piPartNumber p) (take (Suc i) rest) = []" using a by (simp add: filter_empty_conv)
      moreover have "filter (\<lambda>p. piPartNumber (rest ! i) < piPartNumber p) (drop (Suc i) rest) = drop (Suc i) rest" using b by (simp add: filter_id_conv)
      ultimately show ?thesis by (simp only: filter_append append_Nil)
    qed
    finally show ?thesis .
  qed
  have e: "pageParts marker n [] ps = map partXML (take (nat n) rest)" unfolding f by (simp add: pageParts_eq)
  show "partsTruncated (pageParts marker n [] ps) ps =
      (if int (length rest) \<le> n then (False, 0) else (True, piPartNumber (rest ! (nat n - 1))))"
  proof (cases "rest = []")
    case False
    let ?i = "min (length rest) (nat n) - 1"
    have i: "?i < length rest" using False by (cases rest) auto
    have l: "last (take (nat n) rest) = rest ! ?i" using False n by (simp add: last_conv_nth min_def)
    have t: "take (nat n) rest \<noteq> []" using False n by simp
    have "list_ex (\<lambda>p. piPartNumber (rest ! ?i) < piPartNumber p) ps \<longleftrightarrow>
        filter (\<lambda>p. piPartNumber (rest ! ?i) < piPartNumber p) ps \<noteq> []"
      by (simp add: list_ex_iff filter_empty_conv)
    also have "\<dots> \<longleftrightarrow> drop (Suc ?i) rest \<noteq> []" unfolding nth [OF i] ..
    also have "\<dots> \<longleftrightarrow> int (length rest) > n" using False n by auto
    finally show ?thesis using t n unfolding e partsTruncated_def by (simp add: last_map l Let_def min_def)
  qed (use n in \<open>simp add: e partsTruncated_def\<close>)
  show "int (length rest) > n \<Longrightarrow> filter (\<lambda>p. piPartNumber (rest ! (nat n - 1)) < piPartNumber p) ps = drop (nat n) rest"
    using nth [of "nat n - 1"] n by simp
qed

text \<open>A client that follows the markers, as the documents of the replies give them.\<close>

definition partsQuery :: "string \<Rightarrow> string \<Rightarrow> int \<Rightarrow> url_values" where
  "partsQuery u raw marker = [(''max-parts'', raw), (''part-number-marker'', Itoa marker), (''uploadId'', u)]"

fun followParts :: "nat \<Rightarrow> string \<Rightarrow> string \<Rightarrow> string \<Rightarrow> string \<Rightarrow> PartInfo list \<Rightarrow> int \<Rightarrow> ListPartXML list option" where
  "followParts 0 u raw b k ps marker = None"
| "followParts (Suc n) u raw b k ps marker =
    (let r = partsResult (partsQuery u raw marker) b k ps in
     if lpIsTruncated r then map_option ((@) (lpParts r)) (followParts n u raw b k ps (lpNextPartNumberMarker r))
     else Some (lpParts r))"

lemma partNumberMarker_Itoa: "0 \<le> n \<Longrightarrow> n < 2 ^ 63 \<Longrightarrow> partNumberMarkerOf (Itoa n) = n"
  by (simp add: partNumberMarkerOf_def Itoa_def ParseInt_dec)

lemma partsResult_query:
  assumes "0 \<le> marker" "marker < 2 ^ 63"
  shows "lpParts (partsResult (partsQuery u raw marker) b k ps) = pageParts marker (MaxKeys raw 1000) [] ps"
    and "(lpIsTruncated (partsResult (partsQuery u raw marker) b k ps), lpNextPartNumberMarker (partsResult (partsQuery u raw marker) b k ps)) =
      partsTruncated (pageParts marker (MaxKeys raw 1000) [] ps) ps"
  using partNumberMarker_Itoa [OF assms] by (simp_all add: partsResult_def partsQuery_def ValuesGet_def Let_def split: prod.split)

lemma followParts_eq:
  assumes s: "sorted (map piPartNumber ps)" "distinct (map piPartNumber ps)" and b: "\<forall>p\<in>set ps. 0 < piPartNumber p \<and> piPartNumber p < 2 ^ 63"
  shows "0 \<le> marker \<Longrightarrow> marker < 2 ^ 63 \<Longrightarrow> length (filter (\<lambda>p. marker < piPartNumber p) ps) < fuel \<Longrightarrow>
    followParts fuel u raw bk k ps marker = Some (map partXML (filter (\<lambda>p. marker < piPartNumber p) ps))"
proof (induction fuel arbitrary: marker)
  case (Suc fuel)
  let ?n = "MaxKeys raw 1000" and ?rest = "filter (\<lambda>p. marker < piPartNumber p) ps"
  let ?r = "partsResult (partsQuery u raw marker) bk k ps"
  have n: "1 \<le> ?n" using MaxKeys_bounds [of 1000 raw] by (simp add: MaxPageSize_def)
  note page = page_of_sorted [OF s n refl, of marker]
  note r = partsResult_query [OF Suc.prems(1,2), of u raw bk k ps]
  have p: "lpParts ?r = map partXML (take (nat ?n) ?rest)" unfolding r(1) by (simp add: pageParts_eq)
  show ?case
  proof (cases "int (length ?rest) \<le> ?n")
    case True
    then have "\<not> lpIsTruncated ?r" using r(2) page(1) by simp
    with True show ?thesis by (simp add: p Let_def)
  next
    case False
    let ?m = "piPartNumber (?rest ! (nat ?n - 1))"
    have i: "nat ?n - 1 < length ?rest" using False n by linarith
    have m: "0 \<le> ?m" "?m < 2 ^ 63" using nth_mem [OF i] b by auto
    have t: "lpIsTruncated ?r" "lpNextPartNumberMarker ?r = ?m" using False r(2) page(1) by simp_all
    have f: "filter (\<lambda>p. ?m < piPartNumber p) ps = drop (nat ?n) ?rest" using False page(2) by simp
    then have "length (filter (\<lambda>p. ?m < piPartNumber p) ps) < fuel" using Suc.prems(3) False n by simp
    from Suc.IH [OF m this] show ?thesis
      unfolding f by (simp add: t p Let_def map_append [symmetric] del: map_append)
  qed
qed simp

lemma listed_parts:
  assumes "bolt_laws B" and "upload_in cd ssec dd b k u M (mp_at B m) fs" and "ListParts B m dataDir b k u = (Inr parts, m')"
  shows "sorted (map piPartNumber parts)" "distinct (map piPartNumber parts)" "numbered parts"
    and "map piPartNumber parts = sorted_list_of_set (dom M)"
    and "\<forall>p\<in>set parts. \<exists>d. M (piPartNumber p) = Some d \<and> piSize p = int (length d) \<and> piETag p = hex_encode (cdMD5 cd d)"
proof -
  obtain meta dir where U: "mp_at B m b (multipartKey b k u) = Some (VMp meta)" "json_mp meta = meta"
    and d: "distinct (map piPartNumber (mpParts meta))" "numbered (mpParts meta)"
    and R: "\<And>n. rel_option (stored_part cd ssec fs dir) (uploadedParts (mpParts meta) n) (M n)"
    using assms(2) unfolding upload_in_def by blast
  obtain mt m1 where g: "GetMultipartMeta B m b k u = (Inr mt, m1)" and p: "parts = sort_key piPartNumber (mpParts mt)"
    using assms(3) by (auto simp: ListParts_def split: sum.splits prod.splits)
  have "mt = meta" using bolt_laws.GetMultipartMeta_mp [OF assms(1) g] U by simp
  note p = p [unfolded this]
  show "sorted (map piPartNumber parts)" unfolding p by simp
  show dp: "distinct (map piPartNumber parts)" unfolding p using d(1) by (simp add: distinct_map)
  show "numbered parts" unfolding p using d(2) by (simp add: numbered_def)
  have up: "uploadedParts (mpParts meta) n = Some q \<longleftrightarrow> q \<in> set parts \<and> piPartNumber q = n" for n q
    unfolding p using uploadedParts_iff [OF d(1), of n q] by simp
  have "set (map piPartNumber parts) = dom M"
  proof (intro set_eqI)
    fix n
    have "n \<in> dom M \<longleftrightarrow> uploadedParts (mpParts meta) n \<noteq> None" using R [of n] by (cases "M n"; cases "uploadedParts (mpParts meta) n") auto
    then show "n \<in> set (map piPartNumber parts) \<longleftrightarrow> n \<in> dom M" using up [of n] by (auto simp: image_iff)
  qed
  then show "map piPartNumber parts = sorted_list_of_set (dom M)"
    using sorted_distinct_set_unique [of "map piPartNumber parts" "sorted_list_of_set (dom M)"] dp \<open>sorted (map piPartNumber parts)\<close>
    by (metis List.finite_set sorted_list_of_set.distinct_sorted_key_list_of_set set_sorted_list_of_set sorted_sorted_list_of_set)
  show "\<forall>p\<in>set parts. \<exists>d. M (piPartNumber p) = Some d \<and> piSize p = int (length d) \<and> piETag p = hex_encode (cdMD5 cd d)"
  proof
    fix q assume "q \<in> set parts"
    then have "uploadedParts (mpParts meta) (piPartNumber q) = Some q" using up by blast
    with R [of "piPartNumber q"] show "\<exists>d. M (piPartNumber q) = Some d \<and> piSize q = int (length d) \<and> piETag q = hex_encode (cdMD5 cd d)"
      by (auto simp: stored_part_def option_rel_Some1)
  qed
qed

text \<open>C36: a client that pages through ListParts with any page size, following the markers
  of the replies, gets every uploaded part exactly once, in the order of their numbers,
  each with the MD5 and the length of its data.\<close>

theorem list_parts_pagination:
  assumes "bolt_laws B" and "upload_in cd ssec dd b k u M (mp_at B m) fs" and "ListParts B m dataDir b k u = (Inr parts, m')"
  shows "map_option (map (\<lambda>x. (pxPartNumber x, pxETag x, pxSize x))) (followParts (Suc (length parts)) u raw b k parts 0) =
    Some (map (\<lambda>n. (n, quoted (hex_encode (cdMD5 cd (the (M n)))), int (length (the (M n))))) (sorted_list_of_set (dom M)))"
proof -
  note L = listed_parts [OF assms]
  have pos: "\<forall>p\<in>set parts. 0 < piPartNumber p \<and> piPartNumber p < 2 ^ 63"
    using L(3) by (auto simp: numbered_def MaxPartNumber_def)
  have f: "filter (\<lambda>p. 0 < piPartNumber p) parts = parts" using pos by simp
  have "followParts (Suc (length parts)) u raw b k parts 0 = Some (map partXML parts)"
    using followParts_eq [OF L(1,2) pos, of 0 "Suc (length parts)" u raw b k] by (simp add: f)
  moreover have "map ((\<lambda>x. (pxPartNumber x, pxETag x, pxSize x)) \<circ> partXML) parts =
      map ((\<lambda>n. (n, quoted (hex_encode (cdMD5 cd (the (M n)))), int (length (the (M n))))) \<circ> piPartNumber) parts"
    by (rule map_cong [OF refl]) (use L(5) in \<open>fastforce simp: partXML_def\<close>)
  ultimately show ?thesis using L(4) by (simp flip: map_map)
qed

subsection \<open>Batch deletion\<close>

text \<open>No current version but a delete marker.\<close>

definition gone :: "'b bolt \<Rightarrow> string \<Rightarrow> string \<Rightarrow> 'b mstore \<Rightarrow> bool" where
  "gone B b k m \<longleftrightarrow> (\<forall>c. cur_of (obj_at B m b) b k = Some c \<longrightarrow> oiIsDeleteMarker c)"

definition same_records :: "'b bolt \<Rightarrow> string \<Rightarrow> string \<Rightarrow> 'b mstore \<Rightarrow> 'b mstore \<Rightarrow> bool" where
  "same_records B b k m m' \<longleftrightarrow> cur_of (obj_at B m' b) b k = cur_of (obj_at B m b) b k \<and> hist_of (obj_at B m' b) b k = hist_of (obj_at B m b) b k"

text \<open>What a deletion that succeeds leaves: no object to read, or no record of the version.\<close>

definition settled :: "'b bolt \<Rightarrow> string \<Rightarrow> string \<times> string \<Rightarrow> 'b mstore \<Rightarrow> bool" where
  "settled B b o' m \<longleftrightarrow> (if snd o' = [] then gone B b (fst o') m else hist_of (obj_at B m b) b (fst o') (snd o') = None)"

lemma settled_cong: "same_records B b (fst o') m m' \<Longrightarrow> settled B b o' m' = settled B b o' m"
  by (simp add: settled_def gone_def same_records_def)

context bolt_laws
begin

lemma delete_version_settles:
  assumes v: "IsValidBucketName b" "nul \<notin> set k" and w: "w \<noteq> []"
  shows "trip (\<lambda>e. inv B dd e \<and> replaceable B b k w os e) (metaM (\<lambda>m. DeleteObjectMeta B m b k w))
     (\<lambda>_ e. inv B dd e \<and> hist_of (obj_at B (egMeta e) b) b k w = None \<and> dead B dd os e) (\<lambda>_. inv B dd)"
proof (rule trip_meta)
  fix e r m
  assume e: "inv B dd e \<and> replaceable B b k w os e" and u: "DeleteObjectMeta B (egMeta e) b k w = (r, m)"
  let ?e = "snapshot (e\<lparr>egMeta := m\<rparr>)"
  have m: "meta_ok B (egMeta e)" using inv_disk e by blast
  have t: "(case r of Inl x \<Rightarrow> inv B dd | Inr a \<Rightarrow> \<lambda>e. inv B dd e \<and> (w = [] \<longrightarrow> cur_of (obj_at B (egMeta e) b) b k = None) \<and> dead B dd os e) ?e"
    using delete_meta_trip [OF v, of dd w os, unfolded trip_def, rule_format, OF e] u by (simp add: metaM_def split: sum.splits)
  have "hist_of (obj_at B m b) b k w = None" if "is_ok r"
  proof -
    have "spec_delete_version w (cur_of (obj_at B (egMeta e) b) b k, hist_of (obj_at B (egMeta e) b) b k)
        (cur_of (obj_at B m b) b k, hist_of (obj_at B m b) b k)"
      by (rule DeleteObjectMeta_obj(5) [OF u m v that w])
    then show ?thesis using meta_ok_key [OF m v(2), of b]
      by (auto simp: spec_delete_version_def is_newest_def Let_def dest!: key_wf_hist split: option.splits if_splits)
  qed
  with t show "(case r of Inl x \<Rightarrow> inv B dd
      | Inr a \<Rightarrow> \<lambda>e. inv B dd e \<and> hist_of (obj_at B (egMeta e) b) b k w = None \<and> dead B dd os e) ?e"
    by (cases r) auto
qed

lemma delete_version_gone:
  assumes v: "IsValidBucketName b" "nul \<notin> set k" and ev: "env_ok ev" and w: "w \<noteq> []"
  shows "trip (inv B dd) (deleteOneVersion B ev b k w) (\<lambda>_ e. inv B dd e \<and> hist_of (obj_at B (egMeta e) b) b k w = None) (\<lambda>_. inv B dd)"
proof -
  let ?H = "\<lambda>e. hist_of (obj_at B (egMeta e) b) b k w = None"
  have r: "16 \<le> length (evPromoteRnd ev)" using ev by (simp add: env_ok_def)
  let ?os = "\<lambda>R. case R of None \<Rightarrow> [] | Some i \<Rightarrow> [i]"
  have p: "trip (inv B dd) (if w = ''null'' then promoteLegacyNullVersion B ev b k else retM ()) (\<lambda>_. inv B dd) (\<lambda>_. inv B dd)"
    using trip_conseq [OF promote_trip [OF v r, where S = "{}"]] by (auto simp: clear_def trip_def [of _ "retM ()"] retM_def)
  have ck: "trip (inv B dd) (\<lambda>e. case objectPathWithVersion (egDataDir e) b k w of
       Inl _ \<Rightarrow> failM (S3Error ''InvalidArgument'' errInvalidKeyTraversal) e | Inr _ \<Rightarrow> retM () e) (\<lambda>_. inv B dd) (\<lambda>_. inv B dd)"
    by (auto simp: trip_def retM_def failM_def split: sum.splits)
  have tr: "trip (inv B dd) (tryM (metaM (\<lambda>m. GetObjectMeta B m b k []))) (\<lambda>_. inv B dd) (\<lambda>_. inv B dd)"
    by (rule trip_conseq [OF trip_try [OF trip_read [OF reads_objects(1) [OF v(1)] data_only_simps(6)]]]) (auto split: sum.splits)
  have st: "trip (inv B dd) (storedRecord B b k w) (\<lambda>R e. inv B dd e \<and> replaceable B b k w (?os R) e) (\<lambda>_. inv B dd)"
    by (rule trip_conseq [OF stored_trip [OF v data_only_simps(6)]]) (auto simp: replaceable_def split: option.split)
  note dl = delete_version_settles [OF v w]
  have G: "stable B dd ?H" by (rule stable_simps)
  have rm: "trip (\<lambda>e. inv B dd e \<and> ?H e \<and> dead B dd (?os R) e) (removeData R) (\<lambda>_ e. inv B dd e \<and> ?H e) (\<lambda>_. inv B dd)" for R
    by (rule trip_conseq [OF remove_opt_trip [OF G, where r = R and os = "[]"]]) (auto split: option.splits)
  have ev': "trip (\<lambda>e. inv B dd e \<and> ?H e) (eventM x) (\<lambda>_ e. inv B dd e \<and> ?H e) E" for x E by (rule event_trip) simp
  have rt: "trip (\<lambda>e. inv B dd e \<and> ?H e) (retM a) (\<lambda>_ e. inv B dd e \<and> ?H e) E" for a E by (simp add: trip_def retM_def)
  have D: "data_only B ?H" by (auto simp: data_only_def same_data_def)
  have mi: "trip (\<lambda>e. inv B dd e \<and> ?H e) (mirrorAfterVersionDelete B b k l) (\<lambda>_ e. inv B dd e \<and> ?H e) (\<lambda>_. inv B dd)" for l
  proof (cases l)
    case True
    have rd: "trip (\<lambda>e. inv B dd e \<and> ?H e) (metaM (\<lambda>m. GetObjectMeta B m b k [])) (\<lambda>_ e. inv B dd e \<and> ?H e) (\<lambda>_ e. inv B dd e \<and> ?H e)"
      by (rule trip_conseq [OF trip_read [OF reads_objects(1) [OF v(1)] D]]) auto
    show ?thesis unfolding mirrorAfterVersionDelete_def using True
      by (simp, intro trip_try_case [OF rd]) (auto simp: MirrorSync_def intro: ev' rt)
  qed (simp add: mirrorAfterVersionDelete_def rt)
  note tail = trip_op [OF st trip_op [OF dl trip_op [OF rm trip_op [OF ev' trip_op [OF mi rt]]]]]
  show ?thesis
    unfolding deleteOneVersion_def triggerWebhook_def Let_def
  proof (rule trip_op [OF p trip_op [OF ck trip_op [OF tr]]], rule trip_if, goal_cases)
    case (1 _ _ l)
    then show ?case by (cases l) (auto simp: trip_def failM_def)
  next
    case (2 _ _ l)
    show ?case by (rule tail)
  qed
qed

lemma delete_settles:
  assumes e: "inv B dd e" and b: "IsValidBucketName b" and k: "nul \<notin> set k" "utf8_valid k" and ev: "env_ok ev"
    and d: "DeleteObject B ev b k w e = (Inr a, e')"
  shows "settled B b (k, w) (egMeta e')"
proof (cases "w = []")
  case True
  then show ?thesis using delete_object_trip [OF k ev, of dd b w, unfolded trip_def, rule_format, OF e, unfolded d]
    by (simp add: settled_def gone_def)
next
  case False
  let ?H = "\<lambda>e. hist_of (obj_at B (egMeta e) b) b k w = None"
  have rq: "trip (inv B dd) (metaM (\<lambda>m. requireBucket B m b)) (\<lambda>_. inv B dd) (\<lambda>_. inv B dd)"
    by (rule trip_conseq [OF trip_read [OF reads_registry(2) data_only_simps(6)]]) auto
  have vs: "trip (inv B dd) (metaM (\<lambda>m. GetBucketVersioning B m b)) (\<lambda>_. inv B dd) (\<lambda>_. inv B dd)"
    by (rule trip_conseq [OF trip_read [OF reads_registry(3) data_only_simps(6)]]) auto
  have "trip (inv B dd) (DeleteObject B ev b k w) (\<lambda>_ e. inv B dd e \<and> ?H e) (\<lambda>_. inv B dd)"
    unfolding DeleteObject_def deleteObjectLocked_def using False
    by (intro trip_op [OF rq trip_op [OF vs]]) (simp add: delete_version_gone [OF b k(1) ev False])
  with e d False show ?thesis by (auto simp: trip_def settled_def dest!: spec [of _ e])
qed

lemma delete_batch_step:
  assumes e: "inv B dd e" and b: "IsValidBucketName b" and k: "nul \<notin> set k" "utf8_valid k" and ev: "env_ok ev"
    and d: "DeleteObject B ev b k w e = (r, e')"
  shows "inv B dd e'" and "nul \<notin> set k' \<Longrightarrow> (b, k) \<noteq> (b', k') \<Longrightarrow> same_records B b' k' (egMeta e) (egMeta e')"
proof -
  show "inv B dd e'" using delete_object_trip [OF k ev, of dd b w, unfolded trip_def, rule_format, OF e, unfolded d] by (cases r) auto
  assume k': "nul \<notin> set k'" "(b, k) \<noteq> (b', k')"
  let ?c = "cur_of (obj_at B (egMeta e) b') b' k'" and ?h = "hist_of (obj_at B (egMeta e) b') b' k'"
  have s: "safe (has_records B b' k' ?c ?h) (DeleteObject B ev b k w)"
    unfolding DeleteObject_def by (intro frame_rules deleteObject_other b k k' ev)
  have "has_records B b' k' ?c ?h (egMeta e)" using inv_disk [OF e] by (simp add: has_records_def)
  with s d have "has_records B b' k' ?c ?h (egMeta e')" by (auto simp: safe_def dest: spec [of _ e])
  then show "same_records B b' k' (egMeta e) (egMeta e')" by (simp add: has_records_def same_records_def)
qed

text \<open>One turn of the loop answers for its entry: with an error, or with the entry settled.\<close>

lemma deleteEach_turn:
  assumes e: "inv B dd e" and b: "IsValidBucketName b" and k: "nul \<notin> set k" "utf8_valid k" and ev: "\<And>n. env_ok (evs n)"
  obtains ok D E e1 where
    "deleteEach B evs b silent ((k, w) # objs) res e =
      deleteEach B evs b silent objs (res\<lparr>drDeleted := drDeleted res @ D, drErrors := drErrors res @ E\<rparr>) e1"
    "inv B dd e1" "\<And>b' k'. nul \<notin> set k' \<Longrightarrow> (b, k) \<noteq> (b', k') \<Longrightarrow> same_records B b' k' (egMeta e) (egMeta e1)"
    "map deKey E = (if ok then [] else [k])" "map (\<lambda>d. (doKey d, doVersionId d)) D = (if ok \<and> \<not> silent then [(k, w)] else [])"
    "ok \<Longrightarrow> settled B b (k, w) (egMeta e1)"
proof (cases "k = []")
  case True
  let ?E = "[\<lparr>deKey = k, deVersionId = [], deCode = ''InvalidArgument'', deMessage = ''The object key must not be empty''\<rparr>]"
  show thesis by (rule that [of ?E "[]" e False]) (use True e in \<open>simp_all add: same_records_def\<close>)
next
  case False
  obtain r e1 where d: "DeleteObject B (evs (length objs)) b k w e = (r, e1)" by fastforce
  note step = delete_batch_step [OF e b k ev d]
  show thesis
  proof (cases r)
    case (Inl x)
    have "deKey (deleteError k w x) = k" by (simp add: deleteError_def split: gerr.split)
    then show thesis by (intro that [of "[deleteError k w x]" "[]" e1 False]) (use False d Inl step in simp_all)
  next
    case (Inr a)
    obtain mk v where a: "a = (mk, v)" by (cases a)
    let ?D = "if silent then [] else [\<lparr>doKey = k, doVersionId = w, doDeleteMarker = mk, doDeleteMarkerVersionId = v\<rparr>]"
    have "deleteEach B evs b silent ((k, w) # objs) res e = deleteEach B evs b silent objs
        (res\<lparr>drDeleted := drDeleted res @ ?D, drErrors := drErrors res @ []\<rparr>) e1"
      using False d Inr a by (cases res) simp
    then show thesis by (rule that [of "[]" ?D e1 True]) (use step delete_settles [OF e b k ev] d Inr in simp_all)
  qed
qed

end

text \<open>The entries of a request that were answered with success, or with an error.\<close>

definition answered :: "bool \<Rightarrow> bool list \<Rightarrow> (string \<times> string) list \<Rightarrow> (string \<times> string) list" where
  "answered a oks objs = map snd (filter (\<lambda>x. fst x = a) (zip oks objs))"

lemma answered_simps [simp]:
  "answered a [] [] = []"
  "answered a (x # oks) (o' # objs) = (if x = a then o' # answered a oks objs else answered a oks objs)"
  by (simp_all add: answered_def)

text \<open>The entries that are the last of their key and succeeded.\<close>

fun lastSucceeded :: "bool list \<Rightarrow> (string \<times> string) list \<Rightarrow> (string \<times> string) list" where
  "lastSucceeded (x # oks) (o' # objs) =
    (if x \<and> fst o' \<notin> fst ` set objs then o' # lastSucceeded oks objs else lastSucceeded oks objs)"
| "lastSucceeded _ _ = []"

lemma lastSucceeded_sub: "set (lastSucceeded oks objs) \<subseteq> set objs"
  by (induction oks objs rule: lastSucceeded.induct) auto

context bolt_laws
begin

text \<open>A version without a record cannot be read.\<close>

lemma get_no_version:
  assumes e: "inv B dd e" and v: "IsValidBucketName b" and n: "nul \<notin> set k"
    and h: "hist_of (obj_at B (egMeta e) b) b k w = None" and w: "w \<noteq> []" "w \<noteq> ''null''"
  shows "\<not> is_ok (fst (GetObject B cd ev ssec b k w e))"
proof -
  have m: "meta_ok B (egMeta e)" using inv_disk [OF e] by auto
  obtain r m' where g: "GetObjectMeta B (egMeta e) b k w = (r, m')" by (cases "GetObjectMeta B (egMeta e) b k w")
  obtain x where "r = Inl x" using GetObjectMeta_obj(2) [OF g m v n] h w by (cases r) auto
  then have "\<not> is_ok (fst (HeadObject B ssec b k w e))" using g by (auto simp: HeadObject_def validateBucketName_def metaM_def split: sum.split)
  then show ?thesis using v by (auto simp: GetObject_def validateBucketName_def split: prod.splits sum.splits)
qed

text \<open>What the loop adds to the result, and what it does to the store.\<close>

lemma deleteEach_ok:
  assumes ev: "\<And>n. env_ok (evs n)" and b: "IsValidBucketName b"
  shows "inv B dd e \<Longrightarrow> \<forall>o'\<in>set objs. nul \<notin> set (fst o') \<and> utf8_valid (fst o') \<Longrightarrow>
    deleteEach B evs b silent objs res e = (res', e') \<Longrightarrow>
    \<exists>oks D E. drDeleted res' = drDeleted res @ D \<and> drErrors res' = drErrors res @ E \<and> inv B dd e' \<and> length oks = length objs \<and>
      map deKey E = map fst (answered False oks objs) \<and>
      map (\<lambda>d. (doKey d, doVersionId d)) D = (if silent then [] else answered True oks objs) \<and>
      (\<forall>o'\<in>set (lastSucceeded oks objs). settled B b o' (egMeta e')) \<and>
      (\<forall>b' k'. nul \<notin> set k' \<longrightarrow> b' \<noteq> b \<or> k' \<notin> fst ` set objs \<longrightarrow> same_records B b' k' (egMeta e) (egMeta e'))"
proof (induction objs arbitrary: res e)
  case Nil
  then show ?case by (auto simp: same_records_def)
next
  case (Cons o' objs)
  obtain k w where o: "o' = (k, w)" by (cases o')
  have k: "nul \<notin> set k" "utf8_valid k" and rest: "\<forall>o'\<in>set objs. nul \<notin> set (fst o') \<and> utf8_valid (fst o')"
    using Cons.prems(2) o by auto
  obtain ok D1 E1 e1 where t: "deleteEach B evs b silent ((k, w) # objs) res e =
      deleteEach B evs b silent objs (res\<lparr>drDeleted := drDeleted res @ D1, drErrors := drErrors res @ E1\<rparr>) e1"
    and e1: "inv B dd e1" and f: "\<And>b' k'. nul \<notin> set k' \<Longrightarrow> (b, k) \<noteq> (b', k') \<Longrightarrow> same_records B b' k' (egMeta e) (egMeta e1)"
    and a: "map deKey E1 = (if ok then [] else [k])" "map (\<lambda>d. (doKey d, doVersionId d)) D1 = (if ok \<and> \<not> silent then [(k, w)] else [])"
    and s: "ok \<Longrightarrow> settled B b (k, w) (egMeta e1)"
    by (rule deleteEach_turn [where evs = evs and silent = silent and w = w and objs = objs and res = res, OF Cons.prems(1) b k ev]) (rule that)
  from Cons.IH [OF e1 rest Cons.prems(3) [unfolded o t]] obtain oks D E where
    DE: "drDeleted res' = drDeleted res @ D1 @ D" "drErrors res' = drErrors res @ E1 @ E" "inv B dd e'" "length oks = length objs"
      "map deKey E = map fst (answered False oks objs)"
      "map (\<lambda>d. (doKey d, doVersionId d)) D = (if silent then [] else answered True oks objs)"
    and g: "\<forall>o'\<in>set (lastSucceeded oks objs). settled B b o' (egMeta e')"
    and f': "\<And>b' k'. nul \<notin> set k' \<Longrightarrow> b' \<noteq> b \<or> k' \<notin> fst ` set objs \<Longrightarrow> same_records B b' k' (egMeta e1) (egMeta e')"
    by fastforce
  have "settled B b (k, w) (egMeta e')" if "ok" "k \<notin> fst ` set objs"
    using settled_cong [of B b "(k, w)" "egMeta e1" "egMeta e'"] f' [OF k(1)] s that by simp
  with g have "\<forall>o'\<in>set (lastSucceeded (ok # oks) (o' # objs)). settled B b o' (egMeta e')" unfolding o by auto
  moreover have "\<forall>b' k'. nul \<notin> set k' \<longrightarrow> b' \<noteq> b \<or> k' \<notin> fst ` set (o' # objs) \<longrightarrow> same_records B b' k' (egMeta e) (egMeta e')"
  proof (intro allI impI)
    fix b' k' assume "nul \<notin> set k'" "b' \<noteq> b \<or> k' \<notin> fst ` set (o' # objs)"
    with f [of k' b'] f' [of k' b'] o show "same_records B b' k' (egMeta e) (egMeta e')" by (auto simp: same_records_def)
  qed
  ultimately show ?case
    by (intro exI [where x = "ok # oks"] exI [where x = "D1 @ D"] exI [where x = "E1 @ E"]) (use DE a o in simp)
qed

end

text \<open>C35: DeleteObjects answers for every entry it is sent, in order: with an error, or - unless
  the request is quiet - as deleted. Keys may repeat and entries may name versions. Once it is
  done, a key whose last entry succeeded reads as absent if that entry named no version,
  and if it named one, that version's record is gone and cannot be read. No record of any other key
  or bucket changes.\<close>

theorem batch_delete_answers_each_key:
  assumes "bolt_laws B" and "inv B dd e" and "IsValidBucketName b" and "\<And>n. env_ok (evs n)"
    and "decodeXML xml body = Some (silent, objs)" and "\<forall>o'\<in>set objs. nul \<notin> set (fst o') \<and> utf8_valid (fst o')"
    and "serveDeleteObjects B evs xml body b e = (Inr result, e')"
  shows "\<exists>oks. length oks = length objs \<and> map deKey (drErrors result) = map fst (answered False oks objs) \<and>
    map (\<lambda>d. (doKey d, doVersionId d)) (drDeleted result) = (if silent then [] else answered True oks objs) \<and>
    (\<forall>o'\<in>set (lastSucceeded oks objs).
       if snd o' = [] then \<not> is_ok (fst (GetObject B cd ev ssec b (fst o') [] e'))
       else hist_of (obj_at B (egMeta e') b) b (fst o') (snd o') = None \<and>
         (snd o' \<noteq> ''null'' \<longrightarrow> \<not> is_ok (fst (GetObject B cd ev ssec b (fst o') (snd o') e')))) \<and>
    (\<forall>b' k'. nul \<notin> set k' \<longrightarrow> b' \<noteq> b \<or> k' \<notin> fst ` set objs \<longrightarrow> same_records B b' k' (egMeta e) (egMeta e'))"
proof -
  have "deleteEach B evs b silent objs \<lparr>drDeleted = [], drErrors = []\<rparr> e = (result, e')"
    using assms(5,7) by (auto simp: serveDeleteObjects_def Let_def split: if_splits prod.splits)
  from bolt_laws.deleteEach_ok [OF assms(1,4,3,2,6) this] obtain oks where
    i: "inv B dd e'" and l: "\<And>o'. o' \<in> set (lastSucceeded oks objs) \<Longrightarrow> settled B b o' (egMeta e')"
    and r: "length oks = length objs" "map deKey (drErrors result) = map fst (answered False oks objs)"
      "map (\<lambda>d. (doKey d, doVersionId d)) (drDeleted result) = (if silent then [] else answered True oks objs)"
      "\<forall>b' k'. nul \<notin> set k' \<longrightarrow> b' \<noteq> b \<or> k' \<notin> fst ` set objs \<longrightarrow> same_records B b' k' (egMeta e) (egMeta e')"
    by auto
  have "if snd o' = [] then \<not> is_ok (fst (GetObject B cd ev ssec b (fst o') [] e'))
     else hist_of (obj_at B (egMeta e') b) b (fst o') (snd o') = None \<and>
       (snd o' \<noteq> ''null'' \<longrightarrow> \<not> is_ok (fst (GetObject B cd ev ssec b (fst o') (snd o') e')))"
    if o': "o' \<in> set (lastSucceeded oks objs)" for o'
  proof -
    have n: "nul \<notin> set (fst o')" using o' lastSucceeded_sub assms(6) by blast
    show ?thesis
      using l [OF o'] bolt_laws.get_absent [OF assms(1) i n, of b] bolt_laws.get_no_version [OF assms(1) i assms(3) n, of "snd o'"]
      by (auto simp: settled_def gone_def)
  qed
  with r show ?thesis by blast
qed

subsection \<open>Witnesses\<close>

theorem list_parts_pagination_witness:
  "\<exists>parts m'. ListParts alist_bolt (egMeta ex_upload) ''/d'' ''bkt'' ''k'' ''u1'' = (Inr parts, m') \<and>
     map_option (map (\<lambda>x. (pxPartNumber x, pxSize x))) (followParts (Suc (length parts)) ''u1'' ''1'' ''bkt'' ''k'' parts 0) = Some [(1, 6), (2, 5)]"
proof -
  let ?r = "ListParts alist_bolt (egMeta ex_upload) ''/d'' ''bkt'' ''k'' ''u1''"
  have "is_ok (fst ?r)" by code_simp
  then obtain parts m' where r: "?r = (Inr parts, m')" by (cases ?r) (auto simp: is_ok_iff)
  have d: "sorted_list_of_set (dom ex_M) = [1, 2]" by (simp add: ex_M_def insert_commute)
  have "map_option (map (\<lambda>(n, _, l). (n, l))) (map_option (map (\<lambda>x. (pxPartNumber x, pxETag x, pxSize x)))
      (followParts (Suc (length parts)) ''u1'' ''1'' ''bkt'' ''k'' parts 0)) = Some [(1, 6), (2, 5)]"
    unfolding list_parts_pagination [OF alist_laws ex_upload_in r] d by (simp add: ex_M_def)
  with r show ?thesis by (simp add: option.map_comp comp_def)
qed

definition ex_batch_objs :: "(string \<times> string) list" where
  "ex_batch_objs = [(''k'', []), ([], []), (''k'', [])]"

definition ex_batch :: "(response + DeleteObjectsResult) \<times> alist_bucket engine" where
  "ex_batch = serveDeleteObjects alist_bolt (\<lambda>_. ex_env) (\<lambda>_. Some (False, ex_batch_objs)) [] ''bkt'' (ex_put [])"

text \<open>A key, no key at all, and the same key again.\<close>

theorem batch_delete_answers_each_key_witness:
  "\<exists>result e'. ex_batch = (Inr result, e') \<and>
     map (\<lambda>d. (doKey d, doVersionId d)) (drDeleted result) = [(''k'', []), (''k'', [])] \<and> map deKey (drErrors result) = [[]] \<and>
     \<not> is_ok (fst (GetObject alist_bolt ex_codec ex_env None ''bkt'' ''k'' [] e'))"
proof -
  have f: "map_sum (\<lambda>_. ()) (\<lambda>r. (map (\<lambda>d. (doKey d, doVersionId d)) (drDeleted r), map deKey (drErrors r))) (fst ex_batch) =
      Inr ([(''k'', []), (''k'', [])], [[]])" by code_simp
  obtain x e' where x: "ex_batch = (x, e')" by fastforce
  note f = f [unfolded x fst_conv]
  then obtain result where r: "x = Inr result" by (cases x) auto
  with f have m: "map (\<lambda>d. (doKey d, doVersionId d)) (drDeleted result) = [(''k'', []), (''k'', [])]" "map deKey (drErrors result) = [[]]" by simp_all
  from x r have r: "ex_batch = (Inr result, e')" by simp
  have b: "IsValidBucketName ''bkt''" by code_simp
  have d: "decodeXML (\<lambda>_. Some (False, ex_batch_objs)) [] = Some (False, ex_batch_objs)" by (simp add: decodeXML_def ex_batch_objs_def)
  have k: "\<forall>o'\<in>set ex_batch_objs. nul \<notin> set (fst o') \<and> utf8_valid (fst o')" by code_simp
  obtain oks where o: "length oks = length ex_batch_objs" "map (\<lambda>d. (doKey d, doVersionId d)) (drDeleted result) = answered True oks ex_batch_objs"
    "\<forall>o'\<in>set (lastSucceeded oks ex_batch_objs). snd o' = [] \<longrightarrow> \<not> is_ok (fst (GetObject alist_bolt ex_codec ex_env None ''bkt'' (fst o') [] e'))"
    using batch_delete_answers_each_key [OF alist_laws ex_put_inv b ex_env_ok d k r [unfolded ex_batch_def], of ex_codec ex_env None] by auto
  from o(1) obtain x1 x2 x3 where oks: "oks = [x1, x2, x3]" by (auto simp: ex_batch_objs_def length_Suc_conv)
  have "x3" using o(2) m(1) by (auto simp: oks ex_batch_objs_def split: if_splits)
  then have "(''k'', []) \<in> set (lastSucceeded oks ex_batch_objs)" by (simp add: oks ex_batch_objs_def)
  with o(3) have "\<not> is_ok (fst (GetObject alist_bolt ex_codec ex_env None ''bkt'' ''k'' [] e'))" by fastforce
  with r m show ?thesis by (intro exI conjI)
qed

subsection \<open>Listings that lose entries\<close>

definition ex_xml :: "alist_bucket mstore" where
  "ex_xml = (ex_store [])\<lparr>msDbs := [''bkt'' \<mapsto> put_keys [''a'' @ [CHR 0x01], ''az''] ex_db0]\<rparr>"

definition ex_page :: "string \<Rightarrow> alist_bucket mstore \<Rightarrow> ((response + ListBucketResult) \<times> alist_bucket mstore) option" where
  "ex_page q = handleListObjectsV2 9 alist_bolt (ex_call ''GET'' ''/bkt'' (''list-type=2&max-keys=1'' @ q)) ''bkt''"

definition shown :: "((response + ListBucketResult) \<times> alist_bucket mstore) option \<Rightarrow> (string list \<times> bool \<times> string) option" where
  "shown p = (case p of
     Some (Inr r, _) \<Rightarrow> Some (map (xml_text \<circ> coKey) (lbContents r), lbIsTruncated r, xml_text (lbNextContinuationToken r))
   | _ \<Rightarrow> None)"

text \<open>A key may hold any character but NUL, and the document of a listing shows a
  control character as U+FFFD, in the continuation token too. A client that pages through
  a bucket with the keys a, byte 1 and az, one key a page, is given a token that sorts after az,
  and is then told that there is nothing more: it never sees az, which is in the bucket
  and comes first when the other key is not there.\<close>

lemma listing_loses_keys_after_control_character:
  "validateNewKey (''a'' @ [CHR 0x01]) = Inr () \<and>
   shown (ex_page [] ex_xml) = Some ([[CHR ''a'', CHR 0xEF, CHR 0xBF, CHR 0xBD]], True, [CHR ''a'', CHR 0xEF, CHR 0xBF, CHR 0xBD]) \<and>
   QueryUnescape ''a%EF%BF%BD'' = Some [CHR ''a'', CHR 0xEF, CHR 0xBF, CHR 0xBD] \<and>
   shown (ex_page ''&continuation-token=a%EF%BF%BD'' ex_xml) = Some ([], False, []) \<and>
   shown (ex_page ''&prefix=az'' ex_xml) = Some ([''az''], False, [])"
proof (intro conjI)
  show "validateNewKey (''a'' @ [CHR 0x01]) = Inr ()" by code_simp
  show "shown (ex_page [] ex_xml) = Some ([[CHR ''a'', CHR 0xEF, CHR 0xBF, CHR 0xBD]], True, [CHR ''a'', CHR 0xEF, CHR 0xBF, CHR 0xBD])" by code_simp
  show "QueryUnescape ''a%EF%BF%BD'' = Some [CHR ''a'', CHR 0xEF, CHR 0xBF, CHR 0xBD]" by code_simp
  show "shown (ex_page ''&continuation-token=a%EF%BF%BD'' ex_xml) = Some ([], False, [])" by code_simp
  show "shown (ex_page ''&prefix=az'' ex_xml) = Some ([''az''], False, [])" by code_simp
qed

text \<open>A page of uploads that begins with a key marker before the prefix is empty: the loop stops
  at the first upload whose key does not have the prefix, instead of seeking to it.\<close>

lemma uploads_before_the_prefix:
  assumes "lm_loop (b @ [nul]) pfx mk um n [] ((k, VMp mt) # rest) = Inr r" and "HasPrefix k (b @ [nul])"
    and "\<not> HasPrefix (mpKey mt) pfx"
  shows "r = ([], False)"
proof (cases "pfx = []")
  case False
  then show ?thesis using assms by simp
qed (use assms in simp)

end
