(* ===== verification/Console_Auth.thy ===== *)
theory Console_Auth
  imports Go_Http
begin

text \<open>
  internal/console/auth.go: the tokens of console sessions and of download links, and the
  links already spent. Tokens are JSON Web Tokens of github.com/golang-jwt/jwt, which is a
  parameter: what it signs and what it reads from a token, HS256 only and with an expiry.
  jwt_ok states what the code relies on.
\<close>

subsection \<open>Tokens\<close>

text \<open>The claims of a token; a number is read in whole seconds.\<close>

datatype jclaim = ClaimStr string | ClaimNum int | ClaimOther

type_synonym jclaims = "(string \<times> jclaim) list"

definition claim :: "jclaims \<Rightarrow> string \<Rightarrow> jclaim option" where
  "claim c name = map_of c name"

text \<open>A type assertion to string with the second result dropped.\<close>

definition claimStr :: "jclaims \<Rightarrow> string \<Rightarrow> string" where
  "claimStr c name = (case claim c name of Some (ClaimStr s) \<Rightarrow> s | _ \<Rightarrow> [])"

definition claimExpiry :: "jclaims \<Rightarrow> int option" where
  "claimExpiry c = (case claim c ''exp'' of Some (ClaimNum n) \<Rightarrow> Some (n * 1000000000) | _ \<Rightarrow> None)"

record jwt_lib =
  jwSign :: "string \<Rightarrow> jclaims \<Rightarrow> string"
  jwParse :: "string \<Rightarrow> int \<Rightarrow> string \<Rightarrow> jclaims option"

text \<open>Claims are written and read as JSON: strings that are not UTF-8 are coerced.\<close>

definition json_claims :: "jclaims \<Rightarrow> jclaims" where
  "json_claims c = map (\<lambda>(n, v). (n, case v of ClaimStr s \<Rightarrow> ClaimStr (json_str s) | _ \<Rightarrow> v)) c"

text \<open>A token that was signed reads back, under its secret, until it expires; no token is
  read after the expiry it carries; and what is read does not depend on when it is read.\<close>

definition jwt_ok :: "jwt_lib \<Rightarrow> bool" where
  "jwt_ok J \<longleftrightarrow>
    (\<forall>s c e now. claimExpiry c = Some e \<longrightarrow> jwParse J s now (jwSign J s c) = (if now < e then Some (json_claims c) else None)) \<and>
    (\<forall>s now t c. jwParse J s now t = Some c \<longrightarrow> (\<exists>e. claimExpiry c = Some e \<and> now < e)) \<and>
    (\<forall>s now now' t c c'. jwParse J s now t = Some c \<longrightarrow> jwParse J s now' t = Some c' \<longrightarrow> c = c')"

subsection \<open>Sessions\<close>

text \<open>base64.RawURLEncoding.\<close>

definition url_char :: "char \<Rightarrow> char" where
  "url_char c = (if c = CHR ''+'' then CHR ''-'' else if c = CHR ''/'' then CHR ''_'' else c)"

definition b64_raw_url :: "string \<Rightarrow> string" where
  "b64_raw_url s = map url_char (filter (\<lambda>c. c \<noteq> CHR ''='') (b64_encode s))"

definition credentialFingerprintClaim :: string where "credentialFingerprintClaim = ''cfp''"

definition fingerprintInput :: "Credentials \<Rightarrow> string" where
  "fingerprintInput creds = ''stiva-console-credentials'' @ nul # AccessKey creds @ nul # SecretKey creds"

definition fingerprint :: "crypto \<Rightarrow> string \<Rightarrow> Credentials \<Rightarrow> string" where
  "fingerprint cy secret creds =
    b64_raw_url (cyHMAC cy secret (fingerprintInput creds))"

text \<open>Unix of an instant.\<close>

definition unixSeconds :: "int \<Rightarrow> int" where
  "unixSeconds ns = ns div 1000000000"

definition sessionClaims :: "crypto \<Rightarrow> string \<Rightarrow> Credentials \<Rightarrow> int \<Rightarrow> int \<Rightarrow> string \<Rightarrow> jclaims" where
  "sessionClaims cy secret creds now1 now2 rnd =
    [(''sub'', ClaimStr (AccessKey creds)), (credentialFingerprintClaim, ClaimStr (fingerprint cy secret creds)),
     (''iat'', ClaimNum (unixSeconds now1)), (''exp'', ClaimNum (unixSeconds (now2 + 24 * 3600 * 1000000000))),
     (''jti'', ClaimStr (hex_encode rnd))]"

text \<open>The clock is read twice.\<close>

definition generateSession :: "jwt_lib \<Rightarrow> crypto \<Rightarrow> string \<Rightarrow> Credentials \<Rightarrow> int \<Rightarrow> int \<Rightarrow> string \<Rightarrow> string" where
  "generateSession J cy secret creds now1 now2 rnd = jwSign J secret (sessionClaims cy secret creds now1 now2 rnd)"

definition validateSession :: "jwt_lib \<Rightarrow> crypto \<Rightarrow> string \<Rightarrow> Credentials \<Rightarrow> int \<Rightarrow> string \<Rightarrow> string option" where
  "validateSession J cy secret creds now token =
    (case jwParse J secret now token of
       None \<Rightarrow> None
     | Some c \<Rightarrow>
       if claim c ''typ'' \<noteq> None then None
       else if claimStr c ''sub'' \<noteq> AccessKey creds \<or> claimStr c credentialFingerprintClaim \<noteq> fingerprint cy secret creds then None
       else Some (claimStr c ''sub''))"

subsection \<open>Download links\<close>

definition downloadLinkTTL :: int where "downloadLinkTTL = 60 * 1000000000"

definition downloadTokenType :: string where "downloadTokenType = ''download''"

record downloadClaims =
  dcVersionID :: string
  dcBucket :: string
  dcKey :: string
  dcID :: string
  dcExpiry :: int

definition linkClaims :: "crypto \<Rightarrow> string \<Rightarrow> Credentials \<Rightarrow> string \<Rightarrow> string \<Rightarrow> string \<Rightarrow> int \<Rightarrow> string \<Rightarrow> jclaims" where
  "linkClaims cy secret creds bucket key versionID now rnd =
    [(''v'', ClaimStr versionID), (''typ'', ClaimStr downloadTokenType), (''b'', ClaimStr bucket), (''k'', ClaimStr key),
     (credentialFingerprintClaim, ClaimStr (fingerprint cy secret creds)), (''iat'', ClaimNum (unixSeconds now)),
     (''exp'', ClaimNum (unixSeconds (now + downloadLinkTTL))), (''jti'', ClaimStr (hex_encode rnd))]"

definition generateVersionDownload ::
  "jwt_lib \<Rightarrow> crypto \<Rightarrow> string \<Rightarrow> Credentials \<Rightarrow> string \<Rightarrow> string \<Rightarrow> string \<Rightarrow> int \<Rightarrow> string \<Rightarrow> string" where
  "generateVersionDownload J cy secret creds bucket key versionID now rnd =
    jwSign J secret (linkClaims cy secret creds bucket key versionID now rnd)"

definition validateDownload :: "jwt_lib \<Rightarrow> crypto \<Rightarrow> string \<Rightarrow> Credentials \<Rightarrow> int \<Rightarrow> string \<Rightarrow> downloadClaims option" where
  "validateDownload J cy secret creds now token =
    (case jwParse J secret now token of
       None \<Rightarrow> None
     | Some c \<Rightarrow>
       if claim c ''typ'' \<noteq> Some (ClaimStr downloadTokenType) then None
       else if claimStr c credentialFingerprintClaim \<noteq> fingerprint cy secret creds then None
       else
         let bucket = claimStr c ''b''; key = claimStr c ''k''; id' = claimStr c ''jti'' in
         (case claimExpiry c of
            None \<Rightarrow> None
          | Some exp' \<Rightarrow>
            if bucket = [] \<or> key = [] \<or> id' = [] then None
            else Some \<lparr>dcVersionID = claimStr c ''v'', dcBucket = bucket, dcKey = key, dcID = id', dcExpiry = exp'\<rparr>))"

text \<open>The spent links: their IDs and expiries. A spent link is dropped once it has expired.\<close>

type_synonym spent_links = "(string \<times> int) list"

definition sweepSpent :: "int \<Rightarrow> spent_links \<Rightarrow> spent_links" where
  "sweepSpent now spent = filter (\<lambda>p. \<not> now > snd p) spent"

definition spendDownloadLink :: "int \<Rightarrow> downloadClaims \<Rightarrow> spent_links \<Rightarrow> bool \<times> spent_links" where
  "spendDownloadLink now c spent =
    (let spent = sweepSpent now spent in
     if dcID c \<in> fst ` set spent then (False, spent)
     else (True, (dcID c, dcExpiry c) # spent))"

text \<open>One use of a link: the token is checked at one reading of the clock and spent at a
  later one.\<close>

record link_use =
  luToken :: string
  luChecked :: int
  luSpent :: int

definition useLink :: "jwt_lib \<Rightarrow> crypto \<Rightarrow> string \<Rightarrow> Credentials \<Rightarrow> link_use \<Rightarrow> spent_links \<Rightarrow> downloadClaims option \<times> spent_links" where
  "useLink J cy secret creds u spent =
    (case validateDownload J cy secret creds (luChecked u) (luToken u) of
       None \<Rightarrow> (None, spent)
     | Some c \<Rightarrow> (case spendDownloadLink (luSpent u) c spent of (ok, spent) \<Rightarrow> (if ok then Some c else None, spent)))"

fun useLinks :: "jwt_lib \<Rightarrow> crypto \<Rightarrow> string \<Rightarrow> Credentials \<Rightarrow> link_use list \<Rightarrow> spent_links \<Rightarrow> downloadClaims option list" where
  "useLinks J cy secret creds [] spent = []"
| "useLinks J cy secret creds (u # us) spent =
    (case useLink J cy secret creds u spent of (r, spent) \<Rightarrow> r # useLinks J cy secret creds us spent)"

end
