(* ===== verification/Console_Auth_Props.thy ===== *)
theory Console_Auth_Props
  imports Console_Auth "HOL-Library.Countable"
begin

text \<open>
  What the tokens of the console grant: a session ends with the credentials it was opened
  with, a download link is no session nor the other way round, and a link works once.
\<close>

subsection \<open>Fingerprints\<close>

lemma b64_strip:
  "b64_encode s = filter (\<lambda>c. c \<noteq> CHR ''='') (b64_encode s) @
     replicate ((4 - length (filter (\<lambda>c. c \<noteq> CHR ''='') (b64_encode s)) mod 4) mod 4) CHR ''=''"
proof (induction s rule: b64_encode.induct)
  case (4 a b c s)
  have m: "Suc (Suc (Suc (Suc n))) mod 4 = n mod 4" for n :: nat by presburger
  show ?case using 4 by (simp add: b64_char_clean m)
qed (simp_all add: b64_char_clean numeral_2_eq_2 mod_Suc)

lemma url_char_inj: "inj_on url_char (set b64_alphabet)"
  unfolding inj_on_def by code_simp

lemma b64_encode_set: "set (b64_encode s) \<subseteq> insert CHR ''='' (set b64_alphabet)"
  by (induction s rule: b64_encode.induct) (use b64_char_facts in auto)

lemma b64_raw_url_inject: "b64_raw_url s = b64_raw_url t \<longleftrightarrow> s = t"
proof
  let ?f = "filter (\<lambda>c. c \<noteq> CHR ''='')"
  assume "b64_raw_url s = b64_raw_url t"
  moreover have "set (?f (b64_encode s)) \<union> set (?f (b64_encode t)) \<subseteq> set b64_alphabet"
    using b64_encode_set [of s] b64_encode_set [of t] by auto
  ultimately have "?f (b64_encode s) = ?f (b64_encode t)"
    unfolding b64_raw_url_def using map_inj_on inj_on_subset [OF url_char_inj] by blast
  then have "b64_encode s = b64_encode t" using b64_strip [of s] b64_strip [of t] by metis
  then show "s = t" by (metis b64_decode_encode option.inject)
qed simp

lemma b64_raw_url_ascii: "\<forall>c\<in>set (b64_raw_url s). 32 \<le> byte c \<and> byte c < 128"
proof -
  have "\<forall>c\<in>set b64_alphabet. 32 \<le> byte (url_char c) \<and> byte (url_char c) < 128" by code_simp
  then show ?thesis using b64_encode_set [of s] by (auto simp: b64_raw_url_def)
qed

lemma fingerprint_utf8: "utf8_valid (fingerprint cy s c)"
  by (rule utf8_ascii) (use b64_raw_url_ascii in \<open>auto simp: fingerprint_def\<close>)

lemma hex_encode_utf8: "utf8_valid (hex_encode s)"
proof (rule utf8_ascii)
  have "\<forall>c\<in>set hex_digits. byte c < 128" by code_simp
  then show "\<forall>c\<in>set (hex_encode s). byte c < 128" using hex_encode_set by blast
qed

text \<open>The fingerprint's input names the credentials, so equal fingerprints are of equal
  credentials or of a collision of the HMAC between the two inputs.\<close>

lemma fingerprintInput_inject:
  assumes "nul \<notin> set (AccessKey c)" and "nul \<notin> set (AccessKey c')"
  shows "fingerprintInput c = fingerprintInput c' \<longleftrightarrow> c = c'"
proof
  assume "fingerprintInput c = fingerprintInput c'"
  then have "AccessKey c @ nul # SecretKey c = AccessKey c' @ nul # SecretKey c'"
    unfolding fingerprintInput_def append_Cons list.inject same_append_eq by simp
  then have "CutByte nul (AccessKey c @ nul # SecretKey c) = CutByte nul (AccessKey c' @ nul # SecretKey c')" by simp
  then show "c = c'" using assms(1,2) by (simp add: CutByte_append)
qed simp

definition hmac_collision :: "crypto \<Rightarrow> string \<Rightarrow> Credentials \<Rightarrow> Credentials \<Rightarrow> bool" where
  "hmac_collision cy s c c' \<longleftrightarrow> fingerprintInput c \<noteq> fingerprintInput c' \<and>
    cyHMAC cy s (fingerprintInput c) = cyHMAC cy s (fingerprintInput c')"

lemma fingerprint_credentials:
  "nul \<notin> set (AccessKey c) \<Longrightarrow> nul \<notin> set (AccessKey c') \<Longrightarrow> fingerprint cy s c = fingerprint cy s c' \<Longrightarrow>
    c' = c \<or> hmac_collision cy s c c'"
  using fingerprintInput_inject [of c c'] by (auto simp: fingerprint_def b64_raw_url_inject hmac_collision_def)

lemma session_token_read:
  assumes "jwt_ok J" and "utf8_valid (AccessKey c)"
  shows "jwParse J s now (generateSession J cy s c t1 t2 rnd) =
    (if now < unixSeconds (t2 + 24 * 3600 * 1000000000) * 1000000000 then Some (sessionClaims cy s c t1 t2 rnd) else None)"
proof -
  let ?c = "sessionClaims cy s c t1 t2 rnd"
  have "claimExpiry ?c = Some (unixSeconds (t2 + 24 * 3600 * 1000000000) * 1000000000)"
    by (simp add: sessionClaims_def claimExpiry_def claim_def credentialFingerprintClaim_def)
  moreover have "json_claims ?c = ?c"
    by (simp add: sessionClaims_def json_claims_def json_str_valid assms(2) fingerprint_utf8 hex_encode_utf8)
  ultimately show ?thesis using assms(1) by (auto simp: jwt_ok_def generateSession_def)
qed

lemma link_token_read:
  assumes "jwt_ok J" and "utf8_valid b" "utf8_valid k" "utf8_valid v"
  shows "jwParse J s now (generateVersionDownload J cy s c b k v t rnd) =
    (if now < unixSeconds (t + downloadLinkTTL) * 1000000000 then Some (linkClaims cy s c b k v t rnd) else None)"
proof -
  let ?c = "linkClaims cy s c b k v t rnd"
  have u: "utf8_valid downloadTokenType" by code_simp
  have "claimExpiry ?c = Some (unixSeconds (t + downloadLinkTTL) * 1000000000)"
    by (simp add: linkClaims_def claimExpiry_def claim_def credentialFingerprintClaim_def)
  moreover have "json_claims ?c = ?c"
    by (simp add: linkClaims_def json_claims_def json_str_valid assms(2-4) u fingerprint_utf8 hex_encode_utf8)
  ultimately show ?thesis using assms(1) by (auto simp: jwt_ok_def generateVersionDownload_def)
qed

text \<open>A session token is accepted, until it expires, under the credentials it was issued
  for; under others only if the HMAC of both credentials collides, so a session ends when
  the access key or the secret key changes. The same holds of download links; and
  neither kind of token is ever accepted as the other.\<close>

lemma tokens_bound_to_credentials:
  assumes "jwt_ok J" and "utf8_valid (AccessKey c)" and "nul \<notin> set (AccessKey c)" and "nul \<notin> set (AccessKey c')"
    and "utf8_valid b" and "utf8_valid k" and "utf8_valid v"
  shows "(now < unixSeconds (t2 + 24 * 3600 * 1000000000) * 1000000000 \<longrightarrow>
      validateSession J cy s c now (generateSession J cy s c t1 t2 rnd) = Some (AccessKey c)) \<and>
    (validateSession J cy s c' now (generateSession J cy s c t1 t2 rnd) \<noteq> None \<longrightarrow>
      now < unixSeconds (t2 + 24 * 3600 * 1000000000) * 1000000000 \<and> (c' = c \<or> hmac_collision cy s c c')) \<and>
    validateDownload J cy s c' now (generateSession J cy s c t1 t2 rnd) = None \<and>
    validateSession J cy s c' now (generateVersionDownload J cy s c b k v t1 rnd) = None \<and>
    (\<forall>d. validateDownload J cy s c' now (generateVersionDownload J cy s c b k v t1 rnd) = Some d \<longrightarrow>
      now < unixSeconds (t1 + downloadLinkTTL) * 1000000000 \<and> (c' = c \<or> hmac_collision cy s c c') \<and>
      dcBucket d = b \<and> dcKey d = k \<and> dcVersionID d = v)"
proof -
  let ?t = "generateSession J cy s c t1 t2 rnd" and ?l = "generateVersionDownload J cy s c b k v t1 rnd"
  note S = session_token_read [OF assms(1,2), of s now cy t1 t2 rnd]
  note L = link_token_read [OF assms(1,5-7), of s now cy c t1 rnd]
  have claims: "claimStr (sessionClaims cy s c t1 t2 rnd) ''sub'' = AccessKey c" "claim (sessionClaims cy s c t1 t2 rnd) ''typ'' = None"
      "claimStr (sessionClaims cy s c t1 t2 rnd) credentialFingerprintClaim = fingerprint cy s c"
      "claimStr (linkClaims cy s c b k v t1 rnd) credentialFingerprintClaim = fingerprint cy s c"
      "claim (linkClaims cy s c b k v t1 rnd) ''typ'' = Some (ClaimStr downloadTokenType)"
      "claimStr (linkClaims cy s c b k v t1 rnd) ''b'' = b" "claimStr (linkClaims cy s c b k v t1 rnd) ''k'' = k"
      "claimStr (linkClaims cy s c b k v t1 rnd) ''v'' = v"
    by (simp_all add: sessionClaims_def linkClaims_def claimStr_def claim_def credentialFingerprintClaim_def)
  note fp = fingerprint_credentials [OF assms(3,4), of cy s]
  show ?thesis
    using fp by (auto simp: validateSession_def validateDownload_def S L claims Let_def split: if_splits option.splits)
qed

subsection \<open>Links that work once\<close>

lemma validateDownload_facts:
  assumes "jwt_ok J" and "validateDownload J cy s creds now t = Some c"
  shows "now < dcExpiry c" and "validateDownload J cy s creds now' t = Some c' \<Longrightarrow> c' = c"
proof -
  obtain cl where p: "jwParse J s now t = Some cl"
    using assms(2) by (auto simp: validateDownload_def split: option.splits)
  then obtain e where e: "claimExpiry cl = Some e" "now < e" using assms(1) unfolding jwt_ok_def by blast
  with p assms(2) show "now < dcExpiry c" by (auto simp: validateDownload_def Let_def split: if_splits)
  assume v: "validateDownload J cy s creds now' t = Some c'"
  then obtain cl' where p': "jwParse J s now' t = Some cl'" by (auto simp: validateDownload_def split: option.splits)
  then have "cl' = cl" using p assms(1) unfolding jwt_ok_def by blast
  then show "c' = c" using p p' v assms(2) by (simp add: validateDownload_def)
qed

lemma useLink_cases:
  assumes "useLink J cy s creds u spent = (r, spent')"
  shows "(dcID c, dcExpiry c) \<in> set spent \<Longrightarrow> (dcID c, dcExpiry c) \<in> set spent' \<or> dcExpiry c < luSpent u"
    and "r = Some c \<Longrightarrow> (dcID c, dcExpiry c) \<in> set spent'"
    and "r = Some c \<Longrightarrow> validateDownload J cy s creds (luChecked u) (luToken u) = Some c \<and> dcID c \<notin> fst ` set (sweepSpent (luSpent u) spent)"
  using assms by (auto simp: useLink_def spendDownloadLink_def sweepSpent_def Let_def split: option.splits if_splits)

text \<open>A link in the record is refused, or the clock passed its expiry while it was used.\<close>

lemma spent_link_refused:
  assumes J: "jwt_ok J" and v: "validateDownload J cy s creds t0 tok = Some c"
  shows "sorted (map luSpent us) \<Longrightarrow> (dcID c, dcExpiry c) \<in> set spent \<or> (\<forall>u\<in>set us. dcExpiry c < luSpent u) \<Longrightarrow>
    j < length us \<Longrightarrow> luToken (us ! j) = tok \<Longrightarrow>
    useLinks J cy s creds us spent ! j = None \<or> luChecked (us ! j) < dcExpiry c \<and> dcExpiry c < luSpent (us ! j)"
proof (induction us arbitrary: spent j)
  case (Cons u us)
  obtain r spent' where u: "useLink J cy s creds u spent = (r, spent')" by fastforce
  note U = useLink_cases [OF u]
  have srt: "sorted (map luSpent us)" "\<forall>w\<in>set us. luSpent u \<le> luSpent w" using Cons.prems(1) by auto
  show ?case
  proof (cases j)
    case 0
    show ?thesis
    proof (cases r)
      case (Some c')
      have a: "validateDownload J cy s creds (luChecked u) tok = Some c'" "dcID c' \<notin> fst ` set (sweepSpent (luSpent u) spent)"
        using U(3) [OF Some] Cons.prems(4) 0 by simp_all
      have "c' = c" by (rule validateDownload_facts(2) [OF J v a(1)])
      with a validateDownload_facts(1) [OF J a(1)] Cons.prems(2) 0 show ?thesis
        by (force simp: sweepSpent_def image_iff)
    qed (simp add: 0 u)
  next
    case (Suc j')
    have "(dcID c, dcExpiry c) \<in> set spent' \<or> (\<forall>w\<in>set us. dcExpiry c < luSpent w)"
      using Cons.prems(2) U(1) srt(2) by fastforce
    from Cons.IH [OF srt(1) this, of j'] Cons.prems(3,4) Suc show ?thesis by (simp add: u)
  qed
qed simp

lemma used_link_refused:
  assumes J: "jwt_ok J"
  shows "sorted (map luSpent us) \<Longrightarrow> i < j \<Longrightarrow> j < length us \<Longrightarrow> luToken (us ! i) = luToken (us ! j) \<Longrightarrow>
    useLinks J cy s creds us spent ! i = Some c \<Longrightarrow>
    useLinks J cy s creds us spent ! j = None \<or> luChecked (us ! j) < dcExpiry c \<and> dcExpiry c < luSpent (us ! j)"
proof (induction us arbitrary: spent i j)
  case (Cons u us)
  obtain r spent' where u: "useLink J cy s creds u spent = (r, spent')" by fastforce
  obtain j' where j: "j = Suc j'" using Cons.prems(2) by (cases j) auto
  show ?case
  proof (cases i)
    case 0
    then have r: "r = Some c" using Cons.prems(5) u by simp
    note U = useLink_cases(2,3) [OF u r]
    have "validateDownload J cy s creds (luChecked u) (luToken (us ! j')) = Some c" using U(2) Cons.prems(4) 0 j by simp
    from spent_link_refused [OF J this, of us spent' j'] U(1) Cons.prems(1,3) j show ?thesis by (simp add: u)
  next
    case (Suc i')
    from Cons.IH [of i' j' spent'] Cons.prems Suc j show ?thesis by (simp add: u)
  qed
qed simp

text \<open>C37: however many requests use a link, and in whatever order they reach the record of
  spent links, it is served once - unless a request checked it before its expiry and
  reached the record after it.\<close>

theorem download_link_used_once:
  assumes "jwt_ok J" and "sorted (map luSpent us)" and "i < j" and "j < length us" and "luToken (us ! i) = luToken (us ! j)"
    and "useLinks J cy s creds us [] ! i = Some c"
  shows "useLinks J cy s creds us [] ! j = None \<or> luChecked (us ! j) < dcExpiry c \<and> dcExpiry c < luSpent (us ! j)"
  by (rule used_link_refused [OF assms])

text \<open>The window: a link that is checked just before it expires and spent just after is
  served again, for spending it first drops the record of its use.\<close>

lemma download_link_used_twice:
  assumes J: "jwt_ok J" and v: "validateDownload J cy s creds t1 tok = Some c" "validateDownload J cy s creds t2 tok = Some c"
    and t: "u1 \<le> u2" "dcExpiry c < u2"
  shows "useLinks J cy s creds [\<lparr>luToken = tok, luChecked = t1, luSpent = u1\<rparr>, \<lparr>luToken = tok, luChecked = t2, luSpent = u2\<rparr>] [] = [Some c, Some c]"
  using v t by (auto simp: useLink_def spendDownloadLink_def sweepSpent_def)

subsection \<open>Witnesses\<close>

instance jclaim :: countable
  by countable_datatype

text \<open>Tokens that are their claims and their secret, written in unary.\<close>

definition ex_jwt :: jwt_lib where
  "ex_jwt = \<lparr>jwSign = (\<lambda>s c. replicate (to_nat (s, c)) CHR ''x''),
     jwParse = (\<lambda>s now t. case from_nat (length t) of (s', c) \<Rightarrow>
       if s' = s \<and> (case claimExpiry c of Some e \<Rightarrow> now < e | None \<Rightarrow> False) then Some (json_claims c) else None)\<rparr>"

lemma json_claims_expiry: "claimExpiry (json_claims c) = claimExpiry c"
proof -
  have "map_of (json_claims c) ''exp'' = map_option (\<lambda>v. case v of ClaimStr s \<Rightarrow> ClaimStr (json_str s) | _ \<Rightarrow> v) (map_of c ''exp'')"
    by (induction c) (auto simp: json_claims_def split: jclaim.split)
  then show ?thesis by (auto simp: claimExpiry_def claim_def split: option.split jclaim.splits)
qed

lemma ex_jwt_ok: "jwt_ok ex_jwt"
  unfolding jwt_ok_def
proof (intro conjI allI impI)
  show "jwParse ex_jwt s now (jwSign ex_jwt s c) = (if now < e then Some (json_claims c) else None)" if "claimExpiry c = Some e" for s c e now
    using that by (simp add: ex_jwt_def)
  show "\<exists>e. claimExpiry c = Some e \<and> now < e" if "jwParse ex_jwt s now t = Some c" for s now t c
    using that by (auto simp: ex_jwt_def json_claims_expiry split: prod.splits if_splits option.splits)
  show "c = c'" if "jwParse ex_jwt s now t = Some c" "jwParse ex_jwt s now' t = Some c'" for s now now' t c c'
    using that by (auto simp: ex_jwt_def split: prod.splits if_splits)
qed

definition ex_login :: Credentials where "ex_login = \<lparr>AccessKey = ''root'', SecretKey = ''pw''\<rparr>"

definition ex_hmac :: crypto where
  "ex_hmac = \<lparr>cySum = (\<lambda>_. id), cyHMAC = (\<lambda>k d. k @ d)\<rparr>"

definition ex_link :: string where
  "ex_link = generateVersionDownload ex_jwt ex_hmac ''s'' ex_login ''bkt'' ''k'' [] 0 [CHR ''r'']"

lemma tokens_bound_to_credentials_witness:
  "validateSession ex_jwt ex_hmac ''s'' ex_login 5 (generateSession ex_jwt ex_hmac ''s'' ex_login 0 0 ''r'') = Some ''root'' \<and>
   validateSession ex_jwt ex_hmac ''s'' (ex_login\<lparr>SecretKey := ''new''\<rparr>) 5 (generateSession ex_jwt ex_hmac ''s'' ex_login 0 0 ''r'') = None"
proof -
  let ?c = ex_login and ?c' = "ex_login\<lparr>SecretKey := ''new''\<rparr>"
  have u: "utf8_valid (AccessKey ?c)" "nul \<notin> set (AccessKey ?c)" "nul \<notin> set (AccessKey ?c')" "utf8_valid ''bkt''" "utf8_valid ''k''" "utf8_valid []"
    by code_simp+
  have "\<not> hmac_collision ex_hmac ''s'' ?c ?c'" "?c' \<noteq> ?c" by (simp_all add: hmac_collision_def ex_hmac_def ex_login_def)
  with tokens_bound_to_credentials [OF ex_jwt_ok u, of 5 0 ex_hmac "''s''" 0 "''r''"] show ?thesis
    by (simp add: unixSeconds_def ex_login_def)
qed

lemma ex_link_read: "now < 60000000000 \<Longrightarrow> validateDownload ex_jwt ex_hmac ''s'' ex_login now ex_link =
    Some \<lparr>dcVersionID = [], dcBucket = ''bkt'', dcKey = ''k'', dcID = ''72'', dcExpiry = 60000000000\<rparr>"
proof -
  have u: "utf8_valid ''bkt''" "utf8_valid ''k''" "utf8_valid []" by code_simp+
  have h: "hex_encode [CHR ''r''] = ''72''" by code_simp
  assume "now < 60000000000"
  then show ?thesis
    unfolding validateDownload_def ex_link_def link_token_read [OF ex_jwt_ok u]
    by (simp add: unixSeconds_def downloadLinkTTL_def linkClaims_def claim_def claimStr_def claimExpiry_def credentialFingerprintClaim_def h downloadTokenType_def del: hex_encode.simps)
qed

lemma length_useLinks [simp]: "length (useLinks J cy s creds us spent) = length us"
  by (induction us arbitrary: spent) (auto split: prod.split)

theorem download_link_used_once_witness:
  "\<exists>c. useLinks ex_jwt ex_hmac ''s'' ex_login [\<lparr>luToken = ex_link, luChecked = 1, luSpent = 2\<rparr>, \<lparr>luToken = ex_link, luChecked = 3, luSpent = 4\<rparr>] [] = [Some c, None]"
proof -
  let ?us = "[\<lparr>luToken = ex_link, luChecked = 1, luSpent = 2\<rparr>, \<lparr>luToken = ex_link, luChecked = 3, luSpent = 4\<rparr>]"
  let ?c = "\<lparr>dcVersionID = [], dcBucket = ''bkt'', dcKey = ''k'', dcID = ''72'', dcExpiry = 60000000000\<rparr>"
  let ?r = "useLinks ex_jwt ex_hmac ''s'' ex_login ?us []"
  have r: "?r ! 0 = Some ?c" by (simp add: useLink_def ex_link_read spendDownloadLink_def sweepSpent_def)
  have "?r ! 1 = None"
    using download_link_used_once [OF ex_jwt_ok, of ?us 0 1 ex_hmac "''s''" ex_login ?c] r(1) by simp
  with r show ?thesis by (intro exI [of _ ?c]) (auto simp del: useLinks.simps simp: list_eq_iff_nth_eq less_Suc_eq numeral_2_eq_2)
qed

end
