(* ===== verification/Console_Limits.thy ===== *)
theory Console_Limits
  imports Complex_Main S3_Router "HOL-Library.AList"
begin

text \<open>
  internal/httpx/clientip.go and the rate limiter of internal/console/console.go: whom a
  request is counted for, and how many requests a client may make. The tokens of a bucket
  are float64 numbers in the code; here they are rationals, so rounding is not
  modelled. The clock is in nanoseconds.
\<close>

subsection \<open>The address of a client\<close>

definition remoteHost :: "string \<Rightarrow> string" where
  "remoteHost remoteAddr = (case SplitHostPort remoteAddr of Some host \<Rightarrow> host | None \<Rightarrow> remoteAddr)"

definition ClientIP :: "string \<Rightarrow> header \<Rightarrow> bool \<Rightarrow> int \<Rightarrow> string" where
  "ClientIP remoteAddr h trustProxy trustedHops =
    (let direct = remoteHost remoteAddr; xff = HeaderGet h ''X-Forwarded-For'' in
     if \<not> trustProxy \<or> xff = [] then direct
     else
       let parts = map TrimSpace (SplitByte CHR '','' xff);
           hops = (if trustedHops < 1 then 1 else trustedHops);
           idx = int (length parts) - hops in
       if idx < 0 then direct
       else
         let candidate = parts ! nat idx in
         if ParseIP candidate then candidate else direct)"

subsection \<open>The limiter\<close>

record clientRateLimit =
  rlTokens :: rat
  rlLastAccess :: int

record rateLimiter =
  rmClients :: "(string \<times> clientRateLimit) list"
  rmRate :: rat
  rmBurst :: rat
  rmLastCleanup :: int
  rmDisabled :: bool

definition rateLimitDisabled :: int where "rateLimitDisabled = -1"

definition minuteNanos :: int where "minuteNanos = 60000000000"

definition newRateLimiter :: "int \<Rightarrow> int \<Rightarrow> rateLimiter" where
  "newRateLimiter now limitPerMin =
    \<lparr>rmClients = [], rmRate = rat_of_int limitPerMin / 60, rmBurst = rat_of_int limitPerMin, rmLastCleanup = now,
     rmDisabled = (limitPerMin = rateLimitDisabled)\<rparr>"

definition dropIdle :: "int \<Rightarrow> int \<Rightarrow> rateLimiter \<Rightarrow> rateLimiter" where
  "dropIdle now idle rl = rl\<lparr>rmClients := filter (\<lambda>p. \<not> now - rlLastAccess (snd p) > idle) (rmClients rl)\<rparr>"

text \<open>The cleanup that runs at most once a minute.\<close>

definition passiveCleanup :: "int \<Rightarrow> rateLimiter \<Rightarrow> rateLimiter" where
  "passiveCleanup now rl =
    (if now - rmLastCleanup rl > minuteNanos then (dropIdle now (10 * minuteNanos) rl)\<lparr>rmLastCleanup := now\<rparr> else rl)"

definition maxClients :: nat where "maxClients = 10000"

text \<open>The client's bucket, a full one for a new client; None when there are too many clients.\<close>

definition clientBucket :: "int \<Rightarrow> string \<Rightarrow> rateLimiter \<Rightarrow> clientRateLimit option \<times> rateLimiter" where
  "clientBucket now ip rl =
    (case map_of (rmClients rl) ip of
       Some c \<Rightarrow> (Some c, rl)
     | None \<Rightarrow>
       let rl = (if length (rmClients rl) \<ge> maxClients then dropIdle now minuteNanos rl else rl) in
       if length (rmClients rl) \<ge> maxClients then (None, rl)
       else
         let c = \<lparr>rlTokens = rmBurst rl, rlLastAccess = now\<rparr> in
         (Some c, rl\<lparr>rmClients := (ip, c) # rmClients rl\<rparr>))"

definition refill :: "int \<Rightarrow> rateLimiter \<Rightarrow> clientRateLimit \<Rightarrow> rat" where
  "refill now rl c =
    (let t = rlTokens c + rat_of_int (now - rlLastAccess c) / 1000000000 * rmRate rl in
     if t > rmBurst rl then rmBurst rl else t)"

definition allow :: "int \<Rightarrow> string \<Rightarrow> rateLimiter \<Rightarrow> bool \<times> rateLimiter" where
  "allow now ip rl =
    (if rmDisabled rl then (True, rl)
     else case clientBucket now ip (passiveCleanup now rl) of
       (None, rl) \<Rightarrow> (False, rl)
     | (Some c, rl) \<Rightarrow>
         let t = refill now rl c; ok = t \<ge> 1 in
         (ok, rl\<lparr>rmClients := AList.update ip \<lparr>rlTokens = (if ok then t - 1 else t), rlLastAccess = now\<rparr> (rmClients rl)\<rparr>))"

definition retryAfter :: "string \<Rightarrow> rateLimiter \<Rightarrow> int" where
  "retryAfter ip rl =
    (case map_of (rmClients rl) ip of
       Some c \<Rightarrow> if rmRate rl > 0 then max 1 \<lceil>(1 - rlTokens c) / rmRate rl\<rceil> else 1
     | None \<Rightarrow> 1)"

text \<open>A run: the requests in the order they take the limiter's mutex.\<close>

fun allowAll :: "(int \<times> string) list \<Rightarrow> rateLimiter \<Rightarrow> bool list \<times> rateLimiter" where
  "allowAll [] rl = ([], rl)"
| "allowAll ((now, ip) # cs) rl =
    (case allow now ip rl of (ok, rl) \<Rightarrow> (case allowAll cs rl of (oks, rl) \<Rightarrow> (ok # oks, rl)))"

end
