(* ===== verification/Console_Limits_Props.thy ===== *)
theory Console_Limits_Props
  imports Console_Limits
begin

text \<open>
  What the console's limits promise: the address a request is counted for is not the
  client's to choose, and no client gets more requests through than the limit allows.
\<close>

subsection \<open>Addresses\<close>

lemma SplitByte_append: "SplitByte c (a @ c # b) = SplitByte c a @ SplitByte c b"
proof (induction a)
  case (Cons x a)
  then show ?case by (cases "SplitByte c a") (auto split: list.split)
qed simp

lemma length_SplitByte: "length (SplitByte c s) = Suc (length (filter ((=) c) s))"
  by (induction s) (auto split: list.splits)

lemma ClientIP_trusted_part:
  assumes "HeaderGet h ''X-Forwarded-For'' = c @ CHR '','' # t" and "1 \<le> hops" and "int (length (filter ((=) CHR '','') t)) = hops - 1"
  shows "ClientIP a h True hops =
    (let candidate = TrimSpace (hd (SplitByte CHR '','' t)) in if ParseIP candidate then candidate else remoteHost a)"
proof -
  let ?c = "SplitByte CHR '','' c" and ?t = "SplitByte CHR '','' t"
  have l: "int (length ?t) = hops" using assms(2,3) by (simp add: length_SplitByte)
  have p: "SplitByte CHR '','' (c @ CHR '','' # t) = ?c @ ?t" by (rule SplitByte_append)
  have n: "map TrimSpace (?c @ ?t) ! length ?c = TrimSpace (hd ?t)" by (cases ?t) (simp_all add: nth_append)
  have i: "int (length (map TrimSpace (?c @ ?t))) - hops = int (length ?c)" using l by simp
  let ?p = "map TrimSpace (?c @ ?t)"
  have "ClientIP a h True hops = (if int (length ?p) - hops < 0 then remoteHost a
      else let candidate = ?p ! nat (int (length ?p) - hops) in if ParseIP candidate then candidate else remoteHost a)"
    using assms(2) by (simp add: ClientIP_def assms(1) p Let_def del: map_append length_map)
  then show ?thesis unfolding i nat_int n by simp
qed

text \<open>Behind proxies that append the address they were called from, the address a request
  is counted and logged for does not depend on what the client put into X-Forwarded-For.\<close>

lemma client_ip_not_forgeable:
  assumes "HeaderGet h ''X-Forwarded-For'' = c @ CHR '','' # t" and "HeaderGet h' ''X-Forwarded-For'' = c' @ CHR '','' # t"
    and "1 \<le> hops" and "int (length (filter ((=) CHR '','') t)) = hops - 1"
  shows "ClientIP a h True hops = ClientIP a h' True hops"
  unfolding ClientIP_trusted_part [OF assms(1,3,4)] ClientIP_trusted_part [OF assms(2,3,4)] ..

lemma client_ip_not_forgeable_witness:
  "ClientIP ''10.0.0.5:1234'' [(''X-Forwarded-For'', ''9.9.9.9, 203.0.113.7'')] True 1 = ''203.0.113.7''"
proof -
  let ?h = "\<lambda>c. [(''X-Forwarded-For'', c @ '', 203.0.113.7'')]"
  have x: "HeaderGet (?h ''9.9.9.9'') ''X-Forwarded-For'' = ''9.9.9.9'' @ CHR '','' # '' 203.0.113.7''"
    "HeaderGet (?h []) ''X-Forwarded-For'' = [] @ CHR '','' # '' 203.0.113.7''"
    "int (length (filter ((=) CHR '','') '' 203.0.113.7'')) = 1 - 1" by code_simp+
  have "ClientIP ''10.0.0.5:1234'' (?h []) True 1 = ''203.0.113.7''" by code_simp
  with client_ip_not_forgeable [OF x(1,2) _ x(3)] show ?thesis by simp
qed

text \<open>A proxy may send the address it appends as a header line of its own, and Get reads the
  first line only: then the client chooses.\<close>

lemma client_ip_of_two_lines:
  "ClientIP ''10.0.0.5:1234'' [(''X-Forwarded-For'', ''6.6.6.6''), (''X-Forwarded-For'', ''203.0.113.7'')] True 1 = ''6.6.6.6''"
  by code_simp

subsection \<open>The limit\<close>

definition credit :: "rateLimiter \<Rightarrow> string \<Rightarrow> int \<Rightarrow> rat" where
  "credit rl ip now = (case map_of (rmClients rl) ip of None \<Rightarrow> rmBurst rl | Some c \<Rightarrow> refill now rl c)"

definition limiter_ok :: "int \<Rightarrow> rateLimiter \<Rightarrow> bool" where
  "limiter_ok now rl \<longleftrightarrow> \<not> rmDisabled rl \<and> 1 \<le> rmBurst rl \<and> rmRate rl = rmBurst rl / 60 \<and> distinct (map fst (rmClients rl)) \<and>
    length (rmClients rl) \<le> maxClients \<and>
    (\<forall>(ip, c)\<in>set (rmClients rl). 0 \<le> rlTokens c \<and> rlTokens c \<le> rmBurst rl \<and> rlLastAccess c \<le> now)"

lemma map_of_filter:
  "distinct (map fst xs) \<Longrightarrow> map_of (filter P xs) k = (case map_of xs k of Some v \<Rightarrow> if P (k, v) then Some v else None | None \<Rightarrow> None)"
proof (induction xs)
  case (Cons x xs)
  have "map_of xs k = None" if "k = fst x" using Cons.prems that by (simp add: map_of_eq_None_iff)
  with Cons show ?case by (cases x) auto
qed simp

lemma dropIdle_sel [simp]:
  "rmBurst (dropIdle now idle rl) = rmBurst rl" "rmRate (dropIdle now idle rl) = rmRate rl" "rmDisabled (dropIdle now idle rl) = rmDisabled rl"
  by (simp_all add: dropIdle_def)

lemma refill_sel [simp]:
  "refill now (rl\<lparr>rmClients := x\<rparr>) c = refill now rl c" "refill now (rl\<lparr>rmLastCleanup := t\<rparr>) c = refill now rl c"
  "refill now (dropIdle now idle rl) c = refill now rl c"
  by (simp_all add: refill_def Let_def)

lemma idle_is_full:
  assumes "limiter_ok now rl" and "0 \<le> rlTokens c" and "now - rlLastAccess c \<ge> minuteNanos"
  shows "refill now rl c = rmBurst rl"
proof -
  have r: "rmRate rl = rmBurst rl / 60" "1 \<le> rmBurst rl" using assms(1) by (auto simp: limiter_ok_def)
  have "1 \<le> rat_of_int (now - rlLastAccess c) / 60000000000"
    using assms(3) of_int_le_iff [of 60000000000 "now - rlLastAccess c", where 'a = rat] by (simp add: minuteNanos_def)
  then have "rmBurst rl * 1 \<le> rmBurst rl * (rat_of_int (now - rlLastAccess c) / 60000000000)"
    using r(2) by (intro mult_left_mono) auto
  then have "rmBurst rl \<le> rat_of_int (now - rlLastAccess c) / 1000000000 * rmRate rl" unfolding r(1) by (simp add: mult.commute)
  with assms(2) show ?thesis by (simp add: refill_def Let_def)
qed

lemma dropIdle_ok:
  assumes "limiter_ok now rl" and "minuteNanos \<le> idle"
  shows "limiter_ok now (dropIdle now idle rl)" and "credit (dropIdle now idle rl) ip now = credit rl ip now"
proof -
  have d: "distinct (map fst (rmClients rl))" and l: "length (rmClients rl) \<le> maxClients" using assms(1) by (auto simp: limiter_ok_def)
  show "limiter_ok now (dropIdle now idle rl)"
    using assms(1) le_trans [OF length_filter_le l] by (auto simp: limiter_ok_def dropIdle_def intro: distinct_map_filter)
  have "refill now rl c = rmBurst rl" if "map_of (rmClients rl) ip = Some c" "now - rlLastAccess c > idle" for c
    by (rule idle_is_full [OF assms(1)]) (use map_of_SomeD [OF that(1)] that(2) assms in \<open>auto simp: limiter_ok_def\<close>)
  then show "credit (dropIdle now idle rl) ip now = credit rl ip now"
    by (auto simp: credit_def map_of_filter [OF d] dropIdle_def split: option.split)
qed

lemma passiveCleanup_ok:
  assumes "limiter_ok now rl"
  shows "limiter_ok now (passiveCleanup now rl)" and "credit (passiveCleanup now rl) ip now = credit rl ip now"
    and "rmBurst (passiveCleanup now rl) = rmBurst rl" "rmRate (passiveCleanup now rl) = rmRate rl"
proof -
  have m: "minuteNanos \<le> 10 * minuteNanos" by (simp add: minuteNanos_def)
  have c: "limiter_ok now (rl\<lparr>rmLastCleanup := t\<rparr>) = limiter_ok now rl" "credit (rl\<lparr>rmLastCleanup := t\<rparr>) ip now = credit rl ip now" for rl t
    by (simp_all add: limiter_ok_def credit_def split: option.split)
  show "limiter_ok now (passiveCleanup now rl)" "credit (passiveCleanup now rl) ip now = credit rl ip now"
    using dropIdle_ok [OF assms m] assms by (simp_all add: passiveCleanup_def c)
  show "rmBurst (passiveCleanup now rl) = rmBurst rl" "rmRate (passiveCleanup now rl) = rmRate rl" by (simp_all add: passiveCleanup_def)
qed

lemma clientBucket_ok:
  assumes "limiter_ok now rl" and "clientBucket now ip rl = (r, rl')"
  shows "limiter_ok now rl'" and "credit rl' j now = credit rl j now" and "rmBurst rl' = rmBurst rl"
    and "r = Some c \<Longrightarrow> map_of (rmClients rl') ip = Some c"
proof -
  define d where "d = (if length (rmClients rl) \<ge> maxClients then dropIdle now minuteNanos rl else rl)"
  have d: "limiter_ok now d" "\<And>j. credit d j now = credit rl j now" "rmBurst d = rmBurst rl"
    using dropIdle_ok [OF assms(1), of minuteNanos] assms(1) by (auto simp: d_def)
  let ?c = "\<lparr>rlTokens = rmBurst d, rlLastAccess = now\<rparr>"
  have n: "map_of (rmClients rl) ip = None \<Longrightarrow> map_of (rmClients d) ip = None"
    using assms(1) by (auto simp: d_def dropIdle_def map_of_eq_None_iff)
  have full: "refill now d ?c = rmBurst d" by (simp add: refill_def Let_def)
  have new: "limiter_ok now (d\<lparr>rmClients := (ip, ?c) # rmClients d\<rparr>)" "credit (d\<lparr>rmClients := (ip, ?c) # rmClients d\<rparr>) j now = credit rl j now"
    if "map_of (rmClients rl) ip = None" "\<not> length (rmClients d) \<ge> maxClients"
  proof -
    show "limiter_ok now (d\<lparr>rmClients := (ip, ?c) # rmClients d\<rparr>)"
      using d(1) n [OF that(1)] that(2) by (auto simp: limiter_ok_def map_of_eq_None_iff)
    show "credit (d\<lparr>rmClients := (ip, ?c) # rmClients d\<rparr>) j now = credit rl j now"
    proof -
      have "credit (d\<lparr>rmClients := (ip, ?c) # rmClients d\<rparr>) j now = credit d j now"
        unfolding credit_def using n [OF that(1)] full by (simp cong: option.case_cong)
      with d(2) show ?thesis by simp
    qed
  qed
  have cases': "(r, rl') = (case map_of (rmClients rl) ip of Some c \<Rightarrow> (Some c, rl)
      | None \<Rightarrow> if length (rmClients d) \<ge> maxClients then (None, d) else (Some ?c, d\<lparr>rmClients := (ip, ?c) # rmClients d\<rparr>))"
    using assms(2) by (auto simp: clientBucket_def Let_def simp flip: d_def split: option.splits if_splits)
  show "limiter_ok now rl'" "credit rl' j now = credit rl j now" "rmBurst rl' = rmBurst rl" "r = Some c \<Longrightarrow> map_of (rmClients rl') ip = Some c"
    using cases' new d assms(1) by (auto split: option.splits if_splits)
qed

lemma refill_bounds:
  assumes "limiter_ok now rl" and "map_of (rmClients rl) ip = Some c"
  shows "0 \<le> refill now rl c" and "refill now rl c \<le> rmBurst rl"
proof -
  have c: "0 \<le> rlTokens c" "rlLastAccess c \<le> now" and r: "1 \<le> rmBurst rl" "rmRate rl = rmBurst rl / 60"
    using assms(1) map_of_SomeD [OF assms(2)] by (auto simp: limiter_ok_def)
  have "0 \<le> rat_of_int (now - rlLastAccess c) / 1000000000 * rmRate rl" using c(2) r by (intro mult_nonneg_nonneg) auto
  with c(1) r(1) show "0 \<le> refill now rl c" "refill now rl c \<le> rmBurst rl" by (simp_all add: refill_def Let_def)
qed

lemma set_AList_update: "set (AList.update k v xs) \<subseteq> insert (k, v) (set xs)"
  by (induction xs) auto

lemma length_AList_update: "k \<in> fst ` set xs \<Longrightarrow> length (AList.update k v xs) = length xs"
  using AList.update_keys [of k v xs] by (metis length_map list.set_map)

text \<open>A request takes one token from its client when it is allowed, and none from others.\<close>

lemma allow_ok:
  assumes "limiter_ok now rl" and "allow now ip rl = (ok, rl')"
  shows "limiter_ok now rl'" and "rmBurst rl' = rmBurst rl"
    and "credit rl' j now = credit rl j now - (if ok \<and> j = ip then 1 else 0)" and "ok \<Longrightarrow> 1 \<le> credit rl ip now"
proof -
  obtain r rl1 where b: "clientBucket now ip (passiveCleanup now rl) = (r, rl1)" by fastforce
  note P = passiveCleanup_ok [OF assms(1)]
  note C = clientBucket_ok [OF P(1) b, unfolded P(2,3)]
  have nd: "\<not> rmDisabled rl" using assms(1) by (simp add: limiter_ok_def)
  have "limiter_ok now rl' \<and> rmBurst rl' = rmBurst rl \<and> credit rl' j now = credit rl j now - (if ok \<and> j = ip then 1 else 0) \<and> (ok \<longrightarrow> 1 \<le> credit rl ip now)"
  proof (cases r)
    case None
    with assms(2) b nd have "ok = False" "rl' = rl1" by (auto simp: allow_def)
    with C show ?thesis
      by simp
  next
    case (Some c)
    let ?t = "refill now rl1 c"
    have c: "map_of (rmClients rl1) ip = Some c" by (rule C(4) [OF Some])
    define cc where "cc = \<lparr>rlTokens = (if ok then ?t - 1 else ?t), rlLastAccess = now\<rparr>"
    have ok: "ok = (?t \<ge> 1)" and rl': "rl' = rl1\<lparr>rmClients := AList.update ip cc (rmClients rl1)\<rparr>"
      using assms(2) b nd Some by (auto simp: allow_def Let_def cc_def)
    note t = refill_bounds [OF C(1) c]
    have cc: "0 \<le> rlTokens cc" "rlTokens cc \<le> rmBurst rl1" "rlLastAccess cc = now" "rlTokens cc = ?t - (if ok then 1 else 0)"
      using t ok by (auto simp: cc_def)
    have cr: "credit rl ip now = ?t" using C(2) [of ip] c by (simp add: credit_def)
    have in_ip: "ip \<in> fst ` set (rmClients rl1)" using map_of_SomeD [OF c] by force
    have cl: "0 \<le> rlTokens x \<and> rlTokens x \<le> rmBurst rl1 \<and> rlLastAccess x \<le> now" if "(i, x) \<in> set (rmClients rl')" for i x
    proof -
      have "(i, x) = (ip, cc) \<or> (i, x) \<in> set (rmClients rl1)" using set_AList_update [of ip cc "rmClients rl1"] that by (auto simp: rl')
      then show ?thesis using C(1) cc by (auto simp: limiter_ok_def)
    qed
    have "limiter_ok now rl'"
      using C(1) cl unfolding limiter_ok_def rl' by (auto simp: AList.distinct_update length_AList_update [OF in_ip])
    moreover have "refill now rl' cc = rlTokens cc" using cc(2,3) by (simp add: refill_def Let_def rl')
    then have "credit rl' ip now = rlTokens cc" by (simp add: credit_def rl' AList.update_conv')
    moreover have "credit rl' j now = credit rl j now" if "j \<noteq> ip"
      using C(2) [of j] that by (simp add: credit_def rl' AList.update_conv' cong: option.case_cong)
    ultimately have "credit rl' j now = credit rl j now - (if ok \<and> j = ip then 1 else 0)" using cc(4) cr by (cases "j = ip") auto
    with \<open>limiter_ok now rl'\<close> show ?thesis using ok cr C(3) by (simp add: rl')
  qed
  then show "limiter_ok now rl'" "rmBurst rl' = rmBurst rl" "credit rl' j now = credit rl j now - (if ok \<and> j = ip then 1 else 0)" "ok \<Longrightarrow> 1 \<le> credit rl ip now"
    by simp_all
qed

text \<open>With time the credit of a client grows at the rate of the limiter.\<close>

lemma credit_grows:
  assumes "limiter_ok t rl" and "t \<le> t'"
  shows "credit rl ip t' \<le> credit rl ip t + rat_of_int (t' - t) / 1000000000 * rmRate rl" and "limiter_ok t' rl"
proof -
  have r: "1 \<le> rmBurst rl" "rmRate rl = rmBurst rl / 60" using assms(1) by (auto simp: limiter_ok_def)
  have p: "0 \<le> rat_of_int (t' - t) / 1000000000 * rmRate rl" using assms(2) r by (intro mult_nonneg_nonneg) auto
  have "refill t' rl c \<le> refill t rl c + rat_of_int (t' - t) / 1000000000 * rmRate rl" for c
  proof -
    have "rat_of_int (t' - rlLastAccess c) / 1000000000 * rmRate rl =
        rat_of_int (t - rlLastAccess c) / 1000000000 * rmRate rl + rat_of_int (t' - t) / 1000000000 * rmRate rl"
      by (simp add: field_simps)
    moreover have "(if x + (y + d) > z then z else x + (y + d)) \<le> (if x + y > z then z else x + y) + d" if "0 \<le> d" for x y z d :: rat
      using that by auto
    ultimately show ?thesis using p by (simp only: refill_def Let_def)
  qed
  with p show "credit rl ip t' \<le> credit rl ip t + rat_of_int (t' - t) / 1000000000 * rmRate rl"
    by (simp add: credit_def split: option.split)
  show "limiter_ok t' rl" using assms by (force simp: limiter_ok_def)
qed

definition admitted :: "string \<Rightarrow> (int \<times> string) list \<Rightarrow> bool list \<Rightarrow> nat" where
  "admitted ip cs oks = length (filter (\<lambda>((_, j), ok). ok \<and> j = ip) (zip cs oks))"

lemma credit_bounds:
  assumes "limiter_ok t rl"
  shows "0 \<le> credit rl ip t" and "credit rl ip t \<le> rmBurst rl"
  using refill_bounds [OF assms, of ip] assms by (auto simp: credit_def limiter_ok_def split: option.split)

lemma allowAll_ok:
  "limiter_ok t rl \<Longrightarrow> sorted (map fst cs) \<Longrightarrow> \<forall>p\<in>set cs. t \<le> fst p \<and> fst p \<le> b \<Longrightarrow> t \<le> b \<Longrightarrow> allowAll cs rl = (oks, rl') \<Longrightarrow>
    length oks = length cs \<and> limiter_ok b rl' \<and> rmBurst rl' = rmBurst rl \<and>
    rat_of_nat (admitted ip cs oks) \<le> credit rl ip t + rat_of_int (b - t) / 1000000000 * (rmBurst rl / 60)"
proof (induction cs arbitrary: t rl oks rl')
  case Nil
  then have e: "oks = []" "rl' = rl" by auto
  have "0 \<le> rat_of_int (b - t) / 1000000000 * (rmBurst rl / 60)"
    using Nil.prems(1,4) by (intro mult_nonneg_nonneg) (auto simp: limiter_ok_def)
  with credit_bounds(1) [OF Nil.prems(1), of ip] credit_grows(2) [OF Nil.prems(1,4)] e show ?case by (simp add: admitted_def)
next
  case (Cons p cs)
  obtain now j where p: "p = (now, j)" by (cases p)
  obtain ok rl1 where a: "allow now j rl = (ok, rl1)" by fastforce
  obtain oks1 where r: "allowAll cs rl1 = (oks1, rl')" and oks: "oks = ok # oks1"
    using Cons.prems(5) p a by (auto split: prod.splits)
  have n: "t \<le> now" "now \<le> b" using Cons.prems(3) p by auto
  note g = credit_grows(1) [OF Cons.prems(1) n(1), of ip] credit_grows(2) [OF Cons.prems(1) n(1)]
  note A = allow_ok [OF g(2) a]
  have "sorted (map fst cs)" "\<forall>q\<in>set cs. now \<le> fst q \<and> fst q \<le> b" using Cons.prems(2,3) p by auto
  from Cons.IH [OF A(1) this n(2) r] have ih: "length oks1 = length cs" "limiter_ok b rl'" "rmBurst rl' = rmBurst rl1"
    "rat_of_nat (admitted ip cs oks1) \<le> credit rl1 ip now + rat_of_int (b - now) / 1000000000 * (rmBurst rl1 / 60)" by auto
  have rate: "rmRate rl = rmBurst rl / 60" using Cons.prems(1) by (simp add: limiter_ok_def)
  have split: "rat_of_int (b - t) / 1000000000 * (rmBurst rl / 60) =
      rat_of_int (now - t) / 1000000000 * (rmBurst rl / 60) + rat_of_int (b - now) / 1000000000 * (rmBurst rl / 60)"
    by (simp add: field_simps)
  have "rat_of_nat (admitted ip (p # cs) oks) = (if ok \<and> j = ip then 1 else 0) + rat_of_nat (admitted ip cs oks1)"
    by (simp add: admitted_def oks p)
  also have "\<dots> \<le> credit rl ip now + rat_of_int (b - now) / 1000000000 * (rmBurst rl / 60)"
    using ih(4) A(2) A(3) [of ip] by auto
  also have "\<dots> \<le> credit rl ip t + rat_of_int (b - t) / 1000000000 * (rmBurst rl / 60)"
    using g(1) unfolding rate split by linarith
  finally show ?case using ih A(2) oks by simp
qed

lemma newRateLimiter_ok: "1 \<le> limit \<Longrightarrow> limiter_ok t (newRateLimiter t limit)"
  by (simp add: limiter_ok_def newRateLimiter_def rateLimitDisabled_def)

lemma allowAll_append:
  "allowAll (cs @ ds) rl = (case allowAll cs rl of (oks, rl1) \<Rightarrow> (case allowAll ds rl1 of (oks', rl2) \<Rightarrow> (oks @ oks', rl2)))"
  by (induction cs rl rule: allowAll.induct) (auto split: prod.splits)

text \<open>In any stretch of time a client gets no more requests through than the limit per minute
  allows for that time, and one burst of the limit besides - whatever other
  clients do, and although idle clients are forgotten. No more than 10000 clients are kept.\<close>

lemma rate_limit_holds:
  assumes "1 \<le> limit" and "sorted (map fst (before @ window))" and "\<forall>p\<in>set (before @ window). t0 \<le> fst p"
    and "window \<noteq> []" and "allowAll (before @ window) (newRateLimiter t0 limit) = (oks, rl)"
  shows "rat_of_nat (admitted ip window (drop (length before) oks)) \<le>
      rat_of_int limit * (1 + rat_of_int (fst (last window) - fst (hd window)) / rat_of_int minuteNanos) \<and>
    length (rmClients rl) \<le> maxClients"
proof -
  let ?a = "fst (hd window)" and ?b = "fst (last window)"
  obtain oks1 rl1 where b: "allowAll before (newRateLimiter t0 limit) = (oks1, rl1)" by fastforce
  obtain oks2 where w: "allowAll window rl1 = (oks2, rl)" and oks: "oks = oks1 @ oks2"
    using assms(5) b by (auto simp: allowAll_append split: prod.splits)
  obtain p ws where win: "window = p # ws" using assms(4) by (cases window) auto
  have s: "sorted (map fst before)" "sorted (map fst window)" "\<forall>q\<in>set before. fst q \<le> ?a" using assms(2) by (auto simp: sorted_append win)
  have "t0 \<le> ?a" using assms(3) win by simp
  from allowAll_ok [OF newRateLimiter_ok [OF assms(1)] s(1) _ this b] s(3) assms(3)
  have B: "length oks1 = length before" "limiter_ok ?a rl1" "rmBurst rl1 = rat_of_int limit" by (auto simp: newRateLimiter_def)
  have l: "\<forall>q\<in>set window. ?a \<le> fst q \<and> fst q \<le> ?b"
  proof
    fix q assume q: "q \<in> set window"
    have wl: "window = butlast window @ [last window]" using assms(4) by simp
    then have "sorted (map fst (butlast window) @ [?b])" using s(2) by (metis list.map(1,2) map_append)
    then have "\<forall>x\<in>set (butlast window). fst x \<le> ?b" by (auto simp: sorted_append)
    moreover have "q \<in> set (butlast window) \<or> q = last window" using q wl by (metis Un_iff empty_iff insert_iff list.set(1,2) set_append)
    ultimately show "?a \<le> fst q \<and> fst q \<le> ?b" using s(2) q by (auto simp: win)
  qed
  have "?a \<le> ?b" using l assms(4) last_in_set by blast
  from allowAll_ok [OF B(2) s(2) l this w, of ip] B(3) credit_bounds(2) [OF B(2), of ip]
  have "rat_of_nat (admitted ip window oks2) \<le> rat_of_int limit + rat_of_int (?b - ?a) / 1000000000 * (rat_of_int limit / 60)"
    and "limiter_ok ?b rl" by auto
  then show ?thesis by (simp add: oks B(1) limiter_ok_def minuteNanos_def field_simps)
qed

end
