(* ===== verification/Spec2Isabelle.thy ===== *)
theory Spec2Isabelle
  imports Object_Props Bucket_Cache Listing_Props Engine_Props Multipart_Props Body_Props Locks Presign_Props Router_Props Lifecycle_Props Outbox_Props Handler_Props Batch_Props
    Console_Auth_Props Console_Limits_Props
begin

text \<open>
  A verification development of Stiva, an S3-compatible object store in Go (src/internal).

  The program. An HTTP request enters Router.ServeHTTP (s3api/router.go), which finds the
  bucket and the key it names, answers CORS preflights, has its signature verified
  (auth/signature.go) or lets it pass as an anonymous read of a public bucket, and calls one
  handler (s3api/*_handlers.go). The handler reads the body through verifying readers, calls
  the engine and writes the response. The engine (storage/filesystem.go, publication.go,
  multipart.go, lifecycle.go) keeps object data in files below its data directory, and
  records about buckets, objects and uploads in bbolt databases: a central one and one per
  bucket (storage/metadata.go, object_metadata.go). Every object transaction also marks its
  key in a replication journal (storage/outbox.go), which a reconciler delivers to a replica.
  The web console (console/) has sessions, download links and a rate limiter of its own.

  How the code is modelled. A Go string is a list of chars, one per byte; an int is an int,
  wrapped by int64 where the code can overflow; an error is a value of gerr (storage), aerr
  (auth) or a response, and a fallible operation returns a sum. A transaction is a function
  from a database to an error or the database it commits; an engine operation is a function
  of the state to a result and a state (opM, retM, failM compose them), which also records
  every state of the disk in between. Concurrent code is split where it takes and gives up
  its locks: the pieces are steps of a relation, and properties hold for every interleaving.

  Parts, in the order of the layers, with their theories and sources:

  \<^item> Prelude. Go_Base, Go_Net, Go_Path, Go_Fmt, Go_Parse, Go_Url, Go_Http: what the sources use of
    the Go language and library, spelled out: strings, UTF-8, path/filepath, netip, decimal
    and base64, URLs and queries, dates, ServeContent with ranges and conditional headers.
  \<^item> Data. Storage_Types (storage/engine.go, the records of metadata.go); bucket names.
  \<^item> Database interface. Bolt: the record bolt is what the code calls of bbolt, the
    locale bolt_laws what it relies on (a finite map with a cursor in byte order), bolt_ok
    when operations succeed. Both are interpreted on association lists, on which
    all witnesses run.
  \<^item> Object records. Object_Meta (object_metadata.go, metadata.go): the transactions. Object_Spec
    abstracts a bucket to the current record and the version history of each key and
    says what each transaction promises there; Object_Refine and Object_Props show that the
    transactions implement it, leave other keys alone, and keep the stored count exact.
  \<^item> Buckets. Bucket_Registry (metadata.go): registry, settings, the cache of configurations,
    migration. Bucket_Cache: no interleaving leaves a stale configuration in the cache.
  \<^item> Paths (paths.go): where data lies, and that no record leads out of its bucket.
  \<^item> Engine, Publication (filesystem.go, publication.go): buckets, put, get, head, delete, copy.
    Seek_CTR: random access into encrypted objects. Meta_Ids, Engine_Inv, Engine_Refs,
    Engine_Props: after every step, so whatever a crash leaves, each record has its data
    in a file no other record has; what was put is what is got.
  \<^item> Multipart uploads. Multipart (multipart.go); Multipart_Paths, Multipart_Inv,
    Multipart_Complete, Multipart_Spec, Multipart_Props: an upload is a map from part numbers
    to data, and completing it publishes the concatenation. Locks (multipart.go): the
    refcounted locks of keys and buckets as a step relation over threads.
  \<^item> Listings. Listing (filesystem.go, listing.go), Listing_Props: a listing ends with the right page
    and the pages chained by their tokens are the whole.
  \<^item> Lifecycle (lifecycle.go, expiration.go, multipart_cleanup.go, versioning.go), Lifecycle_Props:
    what a sweep may touch.
  \<^item> Replication. Outbox (outbox.go), Outbox_Props: writers, deliveries, lost responses and restarts
    interleave; the journal always covers what the replica lacks, and can be drained.
  \<^item> Request bodies. Auth_Body, Chunked (signature.go, checksum.go), Chunked_Props, Body_Props: the
    aws-chunked decoder hands out only what was signed, all of it, within its bounds.
  \<^item> Signatures. Sig_V4 (signature.go, credentials.go), Sig_Query, Sig_Props, Presign_Props: a
    signature fixes the request, an accepted request is fresh, presigned URLs work.
  \<^item> Router. S3_Router (router.go, subresource.go, cors.go), Router_Props: what reaches a handler
    was authorized, and an unknown subresource never becomes another operation.
  \<^item> Handlers. Object_Handlers, List_Handlers, Bucket_Handlers (s3api/*_handlers.go, types.go,
    errors.go), Handler_Props, Batch_Props: from the request to the response.
  \<^item> Console. Console_Auth (console/auth.go), Console_Limits (console.go, httpx/clientip.go) and their
    properties: tokens end with their credentials, a link works once, a client
    gets no more through than its limit.

  Parameters. Code that is not in the repository is an argument of the definitions: bbolt
  (bolt), MD5, gzip and the block cipher (codec), SHA-256, HMAC and the CRCs (crypto), the
  JWT library (jwt_lib), url.Parse of an origin, the parsers of dates that need time zone
  data, the XML and JSON decoders of request documents, the boundary of multipart answers.
  What an operation draws from outside is the argument env: clock, UUIDs, random bytes, and
  which system calls fail. A property names what it relies on of them, such as bolt_laws,
  that gunzip inverts gzip, or jwt_ok.

  Fuel. The loops of ListObjects and ListObjectVersions re-seek their cursor and take fuel;
  list_objects_correct shows that one more than the number of entries is enough, and
  list_objects_hangs_on_FF_key that on one key no fuel is. Other loops are structural or
  have a measure.

  What the steps leave out. A delivery to the replica takes effect before the sender learns
  of it or never; one that is applied after a later one for the same key, by a replica that
  delays requests, is not a step; nor are writes and deletes of keys with a NUL, which only
  a delete does not refuse. What is compared there is size, ETag and content type. The
  rate limiter's float64 tokens are rationals. fsync is taken at its word: a file that was
  synced and renamed is on the disk. The order in which Go ranges over a map matters only
  for which of several errors is reported, and is fixed.

  Not modelled. The JSON handlers of the console, which call the engine operations above
  and format the results; the HTTP client of the replication and its best-effort queue;
  server start, TLS, tickers and shutdown; configuration; backup; metrics, usage,
  webhooks and readiness probes (the engine records webhook and mirror calls as
  events); access logs, request IDs and the layout of XML; SignRequest; the start-up
  cleanup of the data directory.

  Findings. Where modelling showed that the code does not do what it means to, a theorem
  or lemma says so: list_objects_hangs_on_FF_key and folder_marker_loses_objects
  (Listing_Props), nul_delete_destroys_version and max_cap_stores_nothing (Engine_Props),
  part_of_non_utf8_key_is_lost (Multipart_Props), lifecycle_days_overflow
  (Lifecycle_Props), unquoted_if_match_refused and empty_object_range (Handler_Props),
  listing_loses_keys_after_control_character and uploads_before_the_prefix (Batch_Props),
  download_link_used_twice (Console_Auth_Props), client_ip_of_two_lines
  (Console_Limits_Props).
\<close>

end
